(* ===== verification/Prelude.thy ===== *)
theory Prelude
  imports Main "HOL-Library.Multiset" "HOL-Library.List_Lexorder" "HOL-Library.Char_ord"
begin

text \<open>
  Shared vocabulary of the development. The program keeps its state in Postgres tables and
  reaches them through drizzle; a table is modelled as the list of its rows, and the four
  statements the code uses (findFirst, update .. set .. where, delete .. where, insert) are the
  list operations below. A string is the list of its UTF-8 bytes, a Date is its epoch
  milliseconds, and a nullable column is an option. The second half of the theory holds the
  facts about keyed tables (a primary key or a unique index) that every component uses.
\<close>

section \<open>Names for the types of the model\<close>

type_synonym user_id = string
type_synonym team_id = string
type_synonym policy_id = string
type_synonym row_id = string
type_synonym date = int
type_synonym 'r table = "'r list"

named_theorems sql_simps "equations of the table operations"
named_theorems keyed_intros "unique keys are kept by the table operations"
named_theorems guard_elims "one case per branch of a handler's chain of guards"

section \<open>Table operations\<close>

definition find_first :: "('r \<Rightarrow> bool) \<Rightarrow> 'r table \<Rightarrow> 'r option" where
  "find_first p t = List.find p t"

definition select_where :: "('r \<Rightarrow> bool) \<Rightarrow> 'r table \<Rightarrow> 'r list" where
  "select_where p t = filter p t"

definition update_where :: "('r \<Rightarrow> bool) \<Rightarrow> ('r \<Rightarrow> 'r) \<Rightarrow> 'r table \<Rightarrow> 'r table" where
  "update_where p f t = map (\<lambda>r. if p r then f r else r) t"

definition delete_where :: "('r \<Rightarrow> bool) \<Rightarrow> 'r table \<Rightarrow> 'r table" where
  "delete_where p t = filter (\<lambda>r. \<not> p r) t"

definition insert_row :: "'r \<Rightarrow> 'r table \<Rightarrow> 'r table" where
  "insert_row r t = t @ [r]"

definition count_where :: "('r \<Rightarrow> bool) \<Rightarrow> 'r table \<Rightarrow> nat" where
  "count_where p t = length (filter p t)"

definition unique_key :: "('r \<Rightarrow> 'k) \<Rightarrow> 'r table \<Rightarrow> bool" where
  "unique_key k t \<longleftrightarrow> distinct (map k t)"

section \<open>JavaScript helpers the code relies on\<close>

definition truthy :: "string option \<Rightarrow> bool" where
  "truthy s \<longleftrightarrow> (case s of None \<Rightarrow> False | Some t \<Rightarrow> t \<noteq> [])"

text \<open>\<open>x || null\<close> on a nullable string: the empty string counts as absent.\<close>

definition or_null :: "string option \<Rightarrow> string option" where
  "or_null s = (if truthy s then s else None)"

text \<open>\<open>x ?? y\<close>: only null and undefined fall through.\<close>

definition nullish :: "'a option \<Rightarrow> 'a \<Rightarrow> 'a" where
  "nullish s d = (case s of None \<Rightarrow> d | Some x \<Rightarrow> x)"

text \<open>
  Handlers are chains of guards with early returns. These rules walk such a chain from the
  outside in, one goal per exit.
\<close>

lemma option_guardE [guard_elims]:
  assumes "(case x of None \<Rightarrow> a | Some y \<Rightarrow> f y) = z"
  obtains "x = None" "a = z" | y where "x = Some y" "f y = z"
  using assms by (cases x) auto

lemma sum_guardE [guard_elims]:
  assumes "(case x of Inl e \<Rightarrow> g e | Inr y \<Rightarrow> f y) = z"
  obtains e where "x = Inl e" "g e = z" | y where "x = Inr y" "f y = z"
  using assms by (cases x) auto

lemma if_guardE [guard_elims]:
  assumes "(if c then a else b) = z"
  obtains "c" "a = z" | "\<not> c" "b = z"
  using assms by (cases c) auto

lemma unit_resultE [guard_elims]:
  assumes "Inr () = Inr (x :: unit)" and P
  shows P
  using assms(2) .

lemma no_errorE [guard_elims]:
  assumes "Inr () = Inl e"
  shows P
  using assms by simp

text \<open>White space of \<open>String.trim\<close> and \<open>toLowerCase\<close>, on ASCII text.\<close>

definition is_space :: "char \<Rightarrow> bool" where
  "is_space c \<longleftrightarrow> (let n = of_char c :: nat in 9 \<le> n \<and> n \<le> 13 \<or> n = 32)"

definition js_trim :: "string \<Rightarrow> string" where
  "js_trim s = rev (dropWhile is_space (rev (dropWhile is_space s)))"

definition lower_char :: "char \<Rightarrow> char" where
  "lower_char c =
     (let n = of_char c :: nat in if 65 \<le> n \<and> n \<le> 90 then char_of (n + 32) else c)"

definition js_lower :: "string \<Rightarrow> string" where
  "js_lower s = map lower_char s"

definition upper_char :: "char \<Rightarrow> char" where
  "upper_char c = (let n = of_char c :: nat in if 97 \<le> n \<and> n \<le> 122 then char_of (n - 32) else c)"

definition js_upper :: "string \<Rightarrow> string" where
  "js_upper s = map upper_char s"

text \<open>Hexadecimal text.\<close>

fun hex_value :: "char \<Rightarrow> nat option" where
  "hex_value c =
     (let n = of_char c :: nat in
      if 48 \<le> n \<and> n \<le> 57 then Some (n - 48)
      else if 97 \<le> n \<and> n \<le> 102 then Some (n - 87)
      else if 65 \<le> n \<and> n \<le> 70 then Some (n - 55)
      else None)"

text \<open>\<open>Buffer.from(s, 'hex')\<close>: whole pairs up to the first character that is no digit.\<close>

fun hex_bytes :: "string \<Rightarrow> nat list" where
  "hex_bytes (a # b # s) =
     (case (hex_value a, hex_value b) of (Some x, Some y) \<Rightarrow> (16 * x + y) # hex_bytes s | _ \<Rightarrow> [])"
| "hex_bytes _ = []"

text \<open>
  \<open>length\<close> of a JavaScript string counts UTF-16 code units: one for every UTF-8 sequence of
  up to three bytes, two for a sequence of four.
\<close>

definition utf16_units :: "char \<Rightarrow> nat" where
  "utf16_units c =
     (let n = of_char c :: nat in if 128 \<le> n \<and> n < 192 then 0 else if 240 \<le> n then 2 else 1)"

definition js_length :: "string \<Rightarrow> nat" where
  "js_length s = sum_list (map utf16_units s)"

text \<open>Parsed request bodies.\<close>

datatype json =
    JNull | JBool bool | JNum int | JStr string | JArr "json list" | JObj "(string \<times> json) list"

text \<open>A property of a parsed body; \<open>None\<close> is \<open>undefined\<close>.\<close>

fun jfield :: "string \<Rightarrow> json \<Rightarrow> json option" where
  "jfield k (JObj fs) = map_of fs k"
| "jfield k _ = None"

text \<open>First occurrences of a list, in order: \<open>[...new Set(xs)]\<close>.\<close>

definition dedup :: "'a list \<Rightarrow> 'a list" where
  "dedup xs = rev (remdups (rev xs))"

lemma set_dedup [simp]: "set (dedup xs) = set xs"
  by (simp add: dedup_def)

lemma distinct_dedup [simp]: "distinct (dedup xs)"
  by (simp add: dedup_def)

lemma or_null_simps [simp]:
  "or_null None = None"
  "or_null (Some []) = None"
  "or_null (Some (c # s)) = Some (c # s)"
  by (simp_all add: or_null_def truthy_def)

lemma or_null_Some: "or_null s = Some t \<longleftrightarrow> s = Some t \<and> t \<noteq> []"
  by (auto simp: or_null_def truthy_def split: option.splits)

lemma or_null_None: "or_null s = None \<longleftrightarrow> s = None \<or> s = Some []"
  by (auto simp: or_null_def truthy_def split: option.splits)

lemma truthy_iff: "truthy s \<longleftrightarrow> (\<exists>t. s = Some t \<and> t \<noteq> [])"
  by (auto simp: truthy_def split: option.splits)

lemma nullish_simps [simp]: "nullish None d = d" "nullish (Some x) d = x"
  by (simp_all add: nullish_def)

section \<open>Facts about the table operations\<close>

lemma set_update_where:
  "set (update_where p f t) = (\<lambda>r. if p r then f r else r) ` set t"
  by (simp add: update_where_def)

lemma in_update_where:
  "r \<in> set (update_where p f t) \<longleftrightarrow> (\<exists>q \<in> set t. r = (if p q then f q else q))"
  by (auto simp: update_where_def)

lemma set_delete_where [simp]: "set (delete_where p t) = {r \<in> set t. \<not> p r}"
  by (auto simp: delete_where_def)

lemma set_insert_row [simp]: "set (insert_row r t) = insert r (set t)"
  by (simp add: insert_row_def)

lemma set_select_where [simp]: "set (select_where p t) = {r \<in> set t. p r}"
  by (auto simp: select_where_def)

lemma length_update_where [simp]: "length (update_where p f t) = length t"
  by (simp add: update_where_def)

lemma update_where_Nil [simp]: "update_where p f [] = []"
  by (simp add: update_where_def)

lemma update_where_Cons [simp]:
  "update_where p f (r # t) = (if p r then f r else r) # update_where p f t"
  by (simp add: update_where_def)

lemma delete_where_Nil [simp]: "delete_where p [] = []"
  by (simp add: delete_where_def)

lemma delete_where_Cons [simp]:
  "delete_where p (r # t) = (if p r then delete_where p t else r # delete_where p t)"
  by (simp add: delete_where_def)

lemma find_first_Nil [simp]: "find_first p [] = None"
  by (simp add: find_first_def)

lemma find_first_Cons [simp]:
  "find_first p (r # t) = (if p r then Some r else find_first p t)"
  by (simp add: find_first_def)

lemma find_first_Some: "find_first p t = Some r \<Longrightarrow> r \<in> set t \<and> p r"
  by (induction t) (auto split: if_splits)

lemma find_first_None: "find_first p t = None \<longleftrightarrow> (\<forall>r \<in> set t. \<not> p r)"
  by (induction t) auto

lemma find_first_in:
  assumes "r \<in> set t" and "p r"
  shows "\<exists>q. find_first p t = Some q \<and> q \<in> set t \<and> p q"
  using assms by (induction t) auto

lemma count_where_simps [simp]:
  "count_where p [] = 0"
  "count_where p (r # t) = (if p r then Suc (count_where p t) else count_where p t)"
  by (simp_all add: count_where_def)

lemma count_where_insert_row [simp]:
  "count_where p (insert_row r t) = count_where p t + (if p r then 1 else 0)"
  by (induction t) (auto simp: insert_row_def)

lemma count_where_0: "count_where p t = 0 \<longleftrightarrow> (\<forall>r \<in> set t. \<not> p r)"
  by (induction t) auto

lemma count_where_delete_where:
  "count_where p (delete_where q t) = count_where (\<lambda>r. p r \<and> \<not> q r) t"
  by (induction t) auto

lemma count_where_update_where:
  assumes "\<And>r. r \<in> set t \<Longrightarrow> q r \<Longrightarrow> p (f r) = p r"
  shows "count_where p (update_where q f t) = count_where p t"
  using assms by (induction t) auto

lemma count_where_cong:
  assumes "\<And>r. r \<in> set t \<Longrightarrow> p r = q r"
  shows "count_where p t = count_where q t"
  using assms by (induction t) auto

section \<open>Unique keys\<close>

lemma unique_key_Nil [simp]: "unique_key k []"
  by (simp add: unique_key_def)

lemma unique_key_Cons [simp]:
  "unique_key k (r # t) \<longleftrightarrow> k r \<notin> k ` set t \<and> unique_key k t"
  by (simp add: unique_key_def)

lemma unique_key_eq:
  assumes "unique_key k t" "r \<in> set t" "q \<in> set t" "k r = k q"
  shows "r = q"
  using assms by (auto simp: unique_key_def distinct_map inj_on_def)

lemma unique_key_insert_row [keyed_intros]:
  assumes "unique_key k t" "k r \<notin> k ` set t"
  shows "unique_key k (insert_row r t)"
  using assms by (auto simp: unique_key_def insert_row_def)

lemma unique_key_delete_where [keyed_intros]:
  assumes "unique_key k t"
  shows "unique_key k (delete_where p t)"
  using assms by (induction t) auto

lemma unique_key_update_where [keyed_intros]:
  assumes "unique_key k t" "\<And>r. r \<in> set t \<Longrightarrow> p r \<Longrightarrow> k (f r) = k r"
  shows "unique_key k (update_where p f t)"
proof -
  have "map k (update_where p f t) = map k t"
    using assms(2) by (auto simp: update_where_def)
  then show ?thesis using assms(1) by (simp add: unique_key_def)
qed

lemma find_first_unique:
  assumes "unique_key k t" "r \<in> set t"
  shows "find_first (\<lambda>q. k q = k r) t = Some r"
  using assms by (induction t) (auto simp: image_iff)

lemma find_first_unique':
  assumes "unique_key k t" "r \<in> set t" "p r" "\<And>q. q \<in> set t \<Longrightarrow> p q \<Longrightarrow> k q = k r"
  shows "find_first p t = Some r"
  using assms
proof (induction t)
  case (Cons a t)
  show ?case
  proof (cases "p a")
    case True
    then have "k a = k r" using Cons.prems(4) [of a] by simp
    moreover have "a \<in> set (a # t)" by simp
    ultimately have "a = r" using unique_key_eq Cons.prems(1,2) by metis
    then show ?thesis using True by simp
  next
    case False
    then have "r \<in> set t" using Cons.prems(2,3) by auto
    moreover have "unique_key k t" using Cons.prems(1) by simp
    moreover have "\<And>q. q \<in> set t \<Longrightarrow> p q \<Longrightarrow> k q = k r"
      by (rule Cons.prems(4)) simp_all
    ultimately have "find_first p t = Some r" using Cons.prems(3) by (rule_tac Cons.IH)
    then show ?thesis using False by simp
  qed
qed simp

text \<open>Updating the row with a given key, in a table where the key is unique.\<close>

lemma count_where_update_key:
  assumes "unique_key k t" "r \<in> set t" "\<not> p r" "p (f r)"
  shows "count_where p (update_where (\<lambda>q. k q = k r) f t) = Suc (count_where p t)"
  using assms
proof (induction t)
  case (Cons a t)
  show ?case
  proof (cases "a = r")
    case True
    then have none: "\<And>q. q \<in> set t \<Longrightarrow> k q \<noteq> k r" using Cons.prems by (auto simp: image_iff)
    then have "update_where (\<lambda>q. k q = k r) f t = t"
      by (auto simp: update_where_def intro: map_idI)
    then show ?thesis using True Cons.prems by simp
  next
    case False
    then have r: "r \<in> set t" using Cons.prems by simp
    moreover have "k a \<noteq> k r" using Cons.prems r by (auto simp: image_iff)
    ultimately show ?thesis using Cons by simp
  qed
qed simp

lemma set_update_key:
  assumes "unique_key k t" "r \<in> set t"
  shows "set (update_where (\<lambda>q. k q = k r) f t) = insert (f r) (set t - {r})"
  using assms
proof (induction t)
  case (Cons a t)
  show ?case
  proof (cases "a = r")
    case True
    then have none: "\<And>q. q \<in> set t \<Longrightarrow> k q \<noteq> k r" using Cons.prems by (auto simp: image_iff)
    then have "update_where (\<lambda>q. k q = k r) f t = t"
      by (auto simp: update_where_def intro: map_idI)
    moreover have "r \<notin> set t" using none by blast
    ultimately show ?thesis using True by simp
  next
    case False
    then have r: "r \<in> set t" using Cons.prems by simp
    moreover have "k a \<noteq> k r" using Cons.prems r by (auto simp: image_iff)
    ultimately show ?thesis using Cons False by auto
  qed
qed simp

text \<open>A sum over the rows changes by what the updated row contributes.\<close>

lemma sum_update_key:
  fixes g :: "'r \<Rightarrow> nat"
  assumes "unique_key k t" "r \<in> set t"
  shows "(\<Sum>q\<leftarrow>update_where (\<lambda>q. k q = k r) f t. g q) + g r = (\<Sum>q\<leftarrow>t. g q) + g (f r)"
  using assms
proof (induction t)
  case (Cons a t)
  show ?case
  proof (cases "a = r")
    case True
    then have none: "\<And>q. q \<in> set t \<Longrightarrow> k q \<noteq> k r" using Cons.prems by (auto simp: image_iff)
    then have "update_where (\<lambda>q. k q = k r) f t = t"
      by (auto simp: update_where_def intro: map_idI)
    then show ?thesis using True by simp
  next
    case False
    then have r: "r \<in> set t" using Cons.prems by simp
    moreover have "k a \<noteq> k r" using Cons.prems r by (auto simp: image_iff)
    ultimately show ?thesis using Cons by simp
  qed
qed simp

lemma update_where_none:
  assumes "\<And>r. r \<in> set t \<Longrightarrow> \<not> p r"
  shows "update_where p f t = t"
  using assms by (induction t) auto

lemma delete_where_none:
  assumes "\<And>r. r \<in> set t \<Longrightarrow> \<not> p r"
  shows "delete_where p t = t"
  using assms by (induction t) auto

lemma find_first_insert_new:
  assumes "find_first p t = None" "p r"
  shows "find_first p (insert_row r t) = Some r"
  using assms by (induction t) (auto simp: insert_row_def split: if_splits)

lemma find_first_insert_other:
  "\<not> p r \<Longrightarrow> find_first p (insert_row r t) = find_first p t"
  by (induction t) (auto simp: insert_row_def)

lemma find_first_select_where:
  "find_first p (select_where q t) = find_first (\<lambda>r. q r \<and> p r) t"
  by (induction t) (auto simp: select_where_def)

lemma find_first_cong:
  assumes "\<And>r. r \<in> set t \<Longrightarrow> p r = q r"
  shows "find_first p t = find_first q t"
  using assms by (induction t) auto

lemma find_first_update_where:
  assumes "\<And>r. r \<in> set t \<Longrightarrow> q r \<Longrightarrow> p (f r) = p r"
  shows "find_first p (update_where q f t) =
    map_option (\<lambda>r. if q r then f r else r) (find_first p t)"
  using assms by (induction t) auto

lemma find_first_delete_where:
  assumes "\<And>r. r \<in> set t \<Longrightarrow> p r \<Longrightarrow> \<not> q r"
  shows "find_first p (delete_where q t) = find_first p t"
  using assms by (induction t) auto

section \<open>Splitting text\<close>

text \<open>\<open>split(c)\<close> of a JavaScript string.\<close>

fun split_on :: "char \<Rightarrow> string \<Rightarrow> string list" where
  "split_on c [] = [[]]"
| "split_on c (x # xs) =
     (if x = c then [] # split_on c xs
      else (case split_on c xs of [] \<Rightarrow> [[x]] | r # rs \<Rightarrow> (x # r) # rs))"

lemma split_on_nonempty [simp]: "split_on c s \<noteq> []"
  by (induction s) (auto split: list.splits)

lemma split_on_plain: "c \<notin> set r \<Longrightarrow> split_on c r = [r]"
  by (induction r) auto

lemma split_on_append: "c \<notin> set r \<Longrightarrow> split_on c (r @ c # s) = r # split_on c s"
  by (induction r) auto

section \<open>Decimal numbers\<close>

text \<open>A natural number as JavaScript prints it.\<close>

definition digit_char :: "nat \<Rightarrow> char" where
  "digit_char d = char_of (48 + d)"

fun dec :: "nat \<Rightarrow> string" where
  "dec n = (if n < 10 then [digit_char n] else dec (n div 10) @ [digit_char (n mod 10)])"

declare dec.simps [simp del]

fun undec :: "string \<Rightarrow> nat" where
  "undec s = foldl (\<lambda>n c. 10 * n + (of_char c - 48)) 0 s"

lemma undec_snoc: "undec (s @ [c]) = 10 * undec s + (of_char c - 48)"
  by simp

lemma of_digit_char [simp]: "d < 10 \<Longrightarrow> (of_char (digit_char d) :: nat) = 48 + d"
  by (simp add: digit_char_def)

lemma undec_dec: "undec (dec n) = n"
proof (induction n rule: dec.induct)
  case (1 n)
  show ?case
  proof (cases "n < 10")
    case True
    then show ?thesis by (simp add: dec.simps [of n])
  next
    case False
    then have "undec (dec n) = 10 * undec (dec (n div 10)) + n mod 10"
      unfolding dec.simps [of n] using False by (simp only: undec_snoc if_False of_digit_char)
    then show ?thesis using 1 False by simp
  qed
qed

lemma dec_inj: "dec m = dec n \<Longrightarrow> m = n"
  by (metis undec_dec)

lemma dec_digits: "c \<in> set (dec n) \<Longrightarrow> (of_char c :: nat) \<in> {48..57}"
proof (induction n rule: dec.induct)
  case (1 n)
  show ?case
  proof (cases "n < 10")
    case True
    then show ?thesis using 1(2) by (simp add: dec.simps [of n])
  next
    case False
    then have "c \<in> set (dec (n div 10)) \<or> c = digit_char (n mod 10)"
      using 1(2) False by (auto simp: dec.simps [of n])
    moreover have "n mod 10 < 10" by simp
    ultimately show ?thesis
      using 1(1) [OF False] of_digit_char [of "n mod 10"] by fastforce
  qed
qed

text \<open>A whole number as JavaScript prints it.\<close>

definition dec_int :: "int \<Rightarrow> string" where
  "dec_int i = (if i < 0 then CHR ''-'' # dec (nat (- i)) else dec (nat i))"

lemma append_at_char_eq:
  assumes "a @ c # x = b @ c # y" "c \<notin> set a" "c \<notin> set b"
  shows "a = b \<and> x = y"
  using assms
proof (induction a arbitrary: b)
  case Nil
  then show ?case by (cases b) auto
next
  case (Cons u a)
  then show ?case by (cases b) auto
qed

section \<open>Self-delimiting encodings\<close>

text \<open>
  An encoding that can be read off the front of a text without looking past it. Concatenations and
  comma-separated lists of such codes are read back uniquely; hash frames, JSON strings and JSON
  entries are interpretations.
\<close>

fun join_commas :: "string list \<Rightarrow> string" where
  "join_commas [] = []"
| "join_commas [s] = s"
| "join_commas (s # t # ss) = s @ CHR '','' # join_commas (t # ss)"

definition comma_tail :: "string list \<Rightarrow> string" where
  "comma_tail ss = concat (map (\<lambda>s. CHR '','' # s) ss)"

lemma join_commas_Cons: "join_commas (s # ss) = s @ comma_tail ss"
  by (induction ss arbitrary: s) (simp_all add: comma_tail_def)

locale prefix_code =
  fixes enc :: "'a \<Rightarrow> string"
  assumes enc_inj: "enc a @ x = enc b @ y \<Longrightarrow> a = b \<and> x = y"
    and enc_nonempty: "enc a \<noteq> []"
begin

lemma concat_inj: "concat (map enc as) = concat (map enc bs) \<Longrightarrow> as = bs"
proof (induction as arbitrary: bs)
  case Nil
  then show ?case using enc_nonempty by (cases bs) auto
next
  case (Cons a as)
  obtain b bs' where bs: "bs = b # bs'" using Cons.prems enc_nonempty by (cases bs) auto
  then have "a = b \<and> concat (map enc as) = concat (map enc bs')"
    using Cons.prems by (intro enc_inj) simp
  then show ?case using Cons.IH [of bs'] bs by simp
qed

lemma comma_tail_inj:
  assumes "comma_tail (map enc as) @ close # x = comma_tail (map enc bs) @ close # y" "close \<noteq> CHR '',''"
  shows "as = bs \<and> x = y"
  using assms
proof (induction as arbitrary: bs)
  case Nil
  then show ?case by (cases bs) (auto simp: comma_tail_def)
next
  case (Cons a as)
  obtain b bs' where bs: "bs = b # bs'" using Cons.prems by (cases bs) (auto simp: comma_tail_def)
  have "enc a @ (comma_tail (map enc as) @ close # x) = enc b @ (comma_tail (map enc bs') @ close # y)"
    using Cons.prems(1) bs by (simp add: comma_tail_def)
  then have "a = b \<and> comma_tail (map enc as) @ close # x = comma_tail (map enc bs') @ close # y"
    by (rule enc_inj)
  then show ?case using Cons.IH [of bs'] Cons.prems(2) bs by simp
qed

lemma joined_inj:
  assumes "join_commas (map enc as) @ close # x = join_commas (map enc bs) @ close # y"
    "close \<noteq> CHR '',''" "\<And>a. hd (enc a) \<noteq> close"
  shows "as = bs \<and> x = y"
proof -
  have start: "join_commas (map enc (c # cs)) @ close # u \<noteq> close # v" for c cs u v
    using assms(3) [of c] enc_nonempty [of c] by (cases "enc c") (auto simp: join_commas_Cons)
  show ?thesis
  proof (cases as)
    case Nil
    then show ?thesis
      using assms(1) start by (cases bs) (simp, metis append_Nil join_commas.simps(1) list.simps(8))
  next
    case (Cons a as')
    obtain b bs' where bs: "bs = b # bs'"
      using assms(1) start [of a as' x y] Cons by (cases bs) auto
    have "enc a @ (comma_tail (map enc as') @ close # x) = enc b @ (comma_tail (map enc bs') @ close # y)"
      using assms(1) Cons bs by (simp add: join_commas_Cons)
    then have "a = b" "comma_tail (map enc as') @ close # x = comma_tail (map enc bs') @ close # y"
      using enc_inj by blast+
    then show ?thesis using comma_tail_inj assms(2) Cons bs by blast
  qed
qed

end

end
