(* ===== verification/Schema.thy ===== *)
theory Schema
  imports Prelude
begin

text \<open>
  The tables of \<open>src/src/db/schema.ts\<close> that the modelled components read and write, one
  record per row with the columns the code touches, and the record \<open>store\<close> of all tables.
  Calls that leave the process (cache invalidation, audit and security logs, key snapshots,
  notifications, Stripe) are appended to \<open>outbox\<close>, so that every such call of a handler is
  part of its result. The theory ends with the uniqueness constraints of the schema.
\<close>

section \<open>Enumerations\<close>

datatype team_role = Owner | Admin | Member | Viewer

datatype version_status =
    DRAFT | PENDING_APPROVAL | APPROVED | REJECTED | DEPRECATED | ARCHIVED

datatype approval_decision = DecApproved | DecRejected | DecRequestedChanges

datatype owner_type = UserOwned | TeamOwned

section \<open>Rows\<close>

record user_row =
  u_id :: user_id
  u_email :: "string option"
  u_emailNormalized :: "string option"
  u_plan :: string
  u_subscriptionStatus :: "string option"
  u_businessRoles :: "string list"

record team_row =
  t_id :: team_id
  t_name :: string
  t_slug :: string
  t_ownerId :: user_id

record member_row =
  tm_id :: row_id
  tm_teamId :: team_id
  tm_userId :: user_id
  tm_role :: team_role
  tm_businessRoles :: "string list"

record invitation_row =
  ti_id :: row_id
  ti_teamId :: team_id
  ti_email :: string
  ti_role :: team_role
  ti_token :: string
  ti_expiresAt :: date

record api_key_row =
  k_id :: row_id
  k_userId :: user_id
  k_teamId :: "team_id option"
  k_key :: string
  k_expiresAt :: "date option"
  k_revokedAt :: "date option"

record policy_group_row =
  g_id :: row_id
  g_name :: string
  g_description :: "string option"
  g_icon :: "string option"
  g_sortOrder :: int
  g_parentId :: "row_id option"
  g_userId :: "user_id option"
  g_teamId :: "team_id option"
  g_isSystem :: bool

record policy_row =
  p_id :: policy_id
  p_userId :: user_id
  p_teamId :: "team_id option"
  p_groupId :: "row_id option"
  p_name :: string
  p_description :: "string option"
  p_content :: string
  p_version :: nat
  p_isPublic :: bool
  p_shareSlug :: "string option"
  p_piiFields :: "string option"
  p_deletedAt :: "date option"
  p_deletedBy :: "user_id option"
  p_deleteReason :: "string option"
  p_createdAt :: date
  p_updatedAt :: date

record snapshot_ref =
  ref_snapshotId :: row_id
  ref_domain :: string
  ref_locale :: string

record version_row =
  v_id :: row_id
  v_policyId :: policy_id
  v_version :: nat
  v_content :: string
  v_source :: "string option"
  v_sourceHash :: "string option"
  v_prevHash :: "string option"
  v_status :: version_status
  v_createdBy :: "user_id option"
  v_isDefault :: bool
  v_releaseNote :: "string option"
  v_deprecatedAt :: "date option"
  v_deprecatedBy :: "user_id option"
  v_archivedAt :: "date option"
  v_archivedBy :: "user_id option"
  v_snapshotIds :: "snapshot_ref list"
  v_aliasSet :: "string option"
  v_sourceEnvelope :: "string option"
  v_toolchainId :: "string option"
  v_scopesJson :: "string option"
  v_resolverVersion :: "int option"
  v_migrationError :: "string option"
  v_archivedByMigration :: bool
  v_statusBeforeArchive :: "version_status option"
  v_profile :: "string option"

record approval_row =
  a_id :: row_id
  a_versionId :: row_id
  a_approverId :: user_id
  a_decision :: approval_decision
  a_comment :: "string option"

text \<open>The JSON copy of the policy that a recycle-bin row carries.\<close>

record policy_snapshot =
  ps_id :: policy_id
  ps_name :: string
  ps_description :: "string option"
  ps_content :: string
  ps_version :: nat
  ps_isPublic :: bool
  ps_shareSlug :: "string option"
  ps_piiFields :: "string option"
  ps_teamId :: "team_id option"
  ps_createdAt :: date
  ps_updatedAt :: date

record recycle_row =
  b_id :: row_id
  b_policyId :: policy_id
  b_userId :: user_id
  b_snapshot :: policy_snapshot
  b_deletedAt :: date
  b_deletedBy :: user_id
  b_expiresAt :: date

record share_row =
  sh_id :: row_id
  sh_policyId :: policy_id
  sh_teamId :: team_id

record reviewer_row =
  rv_id :: row_id
  rv_policyId :: policy_id
  rv_userId :: user_id

record review_invite_row =
  ri_id :: row_id
  ri_policyId :: policy_id
  ri_acceptedAt :: "date option"

text \<open>An identifier mapping and the domain vocabulary JSON of the engine.\<close>

datatype identifier_kind = KStruct | KField | KFunction | KEnumValue

record mapping_row =
  map_canonical :: string
  map_localized :: string
  map_kind :: identifier_kind
  map_parent :: "string option"
  map_description :: "string option"
  map_aliases :: "string list"

record vocabulary =
  voc_id :: string
  voc_name :: string
  voc_locale :: string
  voc_version :: string
  voc_structs :: "mapping_row list"
  voc_fields :: "mapping_row list"
  voc_functions :: "mapping_row list"
  voc_enumValues :: "mapping_row list"
  voc_literals :: "mapping_row list"

record vocab_snapshot_row =
  s_id :: row_id
  s_ownerType :: owner_type
  s_ownerId :: string
  s_domain :: string
  s_locale :: string
  s_version :: nat
  s_vocabularyJson :: vocabulary
  s_termIds :: "row_id list"
  s_contentHash :: string
  s_refCount :: nat
  s_archivedAt :: "date option"

record domain_term_row =
  dt_id :: row_id
  dt_domain :: string
  dt_locale :: string
  dt_kind :: identifier_kind
  dt_canonical :: string
  dt_localized :: string
  dt_parentCanonical :: "string option"
  dt_aliases :: "string list"
  dt_description :: "string option"
  dt_dedupKey :: string

record term_link_row =
  ud_id :: row_id
  ud_userId :: user_id
  ud_termId :: row_id
  ud_ownerType :: owner_type
  ud_teamId :: "team_id option"
  ud_domain :: string
  ud_locale :: string
  ud_kind :: identifier_kind
  ud_deletedAt :: "date option"
  ud_deletedBy :: "user_id option"
  ud_deletedReason :: "string option"
  ud_archivedAt :: "date option"
  ud_archiveSnapshotId :: "row_id option"

text \<open>Rows with the remaining columns at their defaults, for concrete examples.\<close>

abbreviation user_named :: "user_id \<Rightarrow> user_row" where
  "user_named u \<equiv> \<lparr>u_id = u, u_email = None, u_emailNormalized = None, u_plan = ''pro'',
     u_subscriptionStatus = None, u_businessRoles = []\<rparr>"

abbreviation team_owned :: "team_id \<Rightarrow> user_id \<Rightarrow> team_row" where
  "team_owned t u \<equiv> \<lparr>t_id = t, t_name = ''Risk'', t_slug = ''risk'', t_ownerId = u\<rparr>"

abbreviation member_of :: "row_id \<Rightarrow> team_id \<Rightarrow> user_id \<Rightarrow> team_role \<Rightarrow> member_row" where
  "member_of i t u r \<equiv>
     \<lparr>tm_id = i, tm_teamId = t, tm_userId = u, tm_role = r, tm_businessRoles = []\<rparr>"

abbreviation policy_of :: "policy_id \<Rightarrow> user_id \<Rightarrow> team_id option \<Rightarrow> policy_row" where
  "policy_of p u t \<equiv>
     \<lparr>p_id = p, p_userId = u, p_teamId = t, p_groupId = None, p_name = ''Loan'', p_description = None,
      p_content = ''Module loan'', p_version = 1, p_isPublic = False, p_shareSlug = None,
      p_piiFields = None, p_deletedAt = None, p_deletedBy = None, p_deleteReason = None,
      p_createdAt = 0, p_updatedAt = 0\<rparr>"

abbreviation version_of :: "row_id \<Rightarrow> policy_id \<Rightarrow> nat \<Rightarrow> version_status \<Rightarrow> version_row" where
  "version_of i p n s \<equiv>
     \<lparr>v_id = i, v_policyId = p, v_version = n, v_content = ''Module loan'',
      v_source = Some ''Module loan'', v_sourceHash = None, v_prevHash = None, v_status = s,
      v_createdBy = Some ''u1'', v_isDefault = False, v_releaseNote = None,
      v_deprecatedAt = None, v_deprecatedBy = None, v_archivedAt = None, v_archivedBy = None,
      v_snapshotIds = [], v_aliasSet = None, v_sourceEnvelope = None, v_toolchainId = None,
      v_scopesJson = None, v_resolverVersion = Some 1, v_migrationError = None,
      v_archivedByMigration = False, v_statusBeforeArchive = None, v_profile = None\<rparr>"

section \<open>Calls that leave the process\<close>

datatype effect =
    PushKeySnapshot string
  | InvalidateKeyCache user_id
  | InvalidatePlanCache team_id
  | InvalidatePolicyCache policy_id
  | AdminAction user_id string team_id
  | SecurityEvent string policy_id user_id nat
  | VersionCreatedEvent policy_id user_id nat string "string option" bool bool
  | ApprovalEvent policy_id user_id nat approval_decision "string option" bool
  | AuditVocabulary user_id string row_id
  | ReleaseReport policy_id nat nat
  | AhaMoment user_id row_id
  | Notify user_id string row_id
  | ClearNotification user_id row_id
  | SyncSeats team_id
  | SendInvitationEmail string string

section \<open>The database\<close>

record store =
  users_t :: "user_row table"
  teams_t :: "team_row table"
  members_t :: "member_row table"
  invitations_t :: "invitation_row table"
  api_keys_t :: "api_key_row table"
  groups_t :: "policy_group_row table"
  policies_t :: "policy_row table"
  versions_t :: "version_row table"
  approvals_t :: "approval_row table"
  bins_t :: "recycle_row table"
  shares_t :: "share_row table"
  reviewers_t :: "reviewer_row table"
  review_invites_t :: "review_invite_row table"
  snapshots_t :: "vocab_snapshot_row table"
  terms_t :: "domain_term_row table"
  links_t :: "term_link_row table"
  outbox :: "effect list"

definition emit :: "effect \<Rightarrow> store \<Rightarrow> store" where
  "emit e st = st\<lparr>outbox := outbox st @ [e]\<rparr>"

definition emit_all :: "effect list \<Rightarrow> store \<Rightarrow> store" where
  "emit_all es st = st\<lparr>outbox := outbox st @ es\<rparr>"

definition empty_store :: store where
  "empty_store =
     \<lparr>users_t = [], teams_t = [], members_t = [], invitations_t = [], api_keys_t = [],
      groups_t = [], policies_t = [], versions_t = [], approvals_t = [], bins_t = [],
      shares_t = [], reviewers_t = [], review_invites_t = [], snapshots_t = [], terms_t = [],
      links_t = [], outbox = []\<rparr>"

lemma emit_simps [simp]:
  "users_t (emit e st) = users_t st"
  "teams_t (emit e st) = teams_t st"
  "members_t (emit e st) = members_t st"
  "invitations_t (emit e st) = invitations_t st"
  "api_keys_t (emit e st) = api_keys_t st"
  "groups_t (emit e st) = groups_t st"
  "policies_t (emit e st) = policies_t st"
  "versions_t (emit e st) = versions_t st"
  "approvals_t (emit e st) = approvals_t st"
  "bins_t (emit e st) = bins_t st"
  "shares_t (emit e st) = shares_t st"
  "reviewers_t (emit e st) = reviewers_t st"
  "review_invites_t (emit e st) = review_invites_t st"
  "snapshots_t (emit e st) = snapshots_t st"
  "terms_t (emit e st) = terms_t st"
  "links_t (emit e st) = links_t st"
  "outbox (emit e st) = outbox st @ [e]"
  by (simp_all add: emit_def)

lemma emit_all_simps [simp]:
  "users_t (emit_all es st) = users_t st"
  "teams_t (emit_all es st) = teams_t st"
  "members_t (emit_all es st) = members_t st"
  "invitations_t (emit_all es st) = invitations_t st"
  "api_keys_t (emit_all es st) = api_keys_t st"
  "groups_t (emit_all es st) = groups_t st"
  "policies_t (emit_all es st) = policies_t st"
  "versions_t (emit_all es st) = versions_t st"
  "approvals_t (emit_all es st) = approvals_t st"
  "bins_t (emit_all es st) = bins_t st"
  "shares_t (emit_all es st) = shares_t st"
  "reviewers_t (emit_all es st) = reviewers_t st"
  "review_invites_t (emit_all es st) = review_invites_t st"
  "snapshots_t (emit_all es st) = snapshots_t st"
  "terms_t (emit_all es st) = terms_t st"
  "links_t (emit_all es st) = links_t st"
  "outbox (emit_all es st) = outbox st @ es"
  by (simp_all add: emit_all_def)

section \<open>Uniqueness constraints of the schema\<close>

definition member_key :: "member_row \<Rightarrow> team_id \<times> user_id" where
  "member_key m = (tm_teamId m, tm_userId m)"

definition version_key :: "version_row \<Rightarrow> policy_id \<times> nat" where
  "version_key v = (v_policyId v, v_version v)"

definition schema_ok :: "store \<Rightarrow> bool" where
  "schema_ok st \<longleftrightarrow>
     unique_key u_id (users_t st) \<and> unique_key t_id (teams_t st) \<and>
     unique_key tm_id (members_t st) \<and> unique_key member_key (members_t st) \<and>
     unique_key ti_id (invitations_t st) \<and> unique_key k_id (api_keys_t st) \<and>
     unique_key p_id (policies_t st) \<and>
     unique_key v_id (versions_t st) \<and> unique_key version_key (versions_t st) \<and>
     unique_key b_policyId (bins_t st) \<and> unique_key s_id (snapshots_t st)"

end
