(* ===== verification/Vocabulary.thy ===== *)
theory Vocabulary
  imports Schema
begin

text \<open>
  Domain vocabularies: the format rules of \<open>src/src/lib/domain-vocabulary-format.ts\<close>, the assembly
  of term rows into a vocabulary (\<open>domain-vocabulary-assemble.ts\<close>), the merge of team and author
  terms (\<open>domain-vocabulary-team-merge.ts\<close>) and the choice and merge of the groups a policy uses
  (\<open>domain-vocabulary-scope.ts\<close>). Parameters: \<open>canonicalLocale\<close> is \<open>Intl.getCanonicalLocales\<close>,
  \<open>nfc\<close> is Unicode normalization, \<open>uses\<close> says whether a name form occurs as a word in the code
  tokens of a source in a language (the lexer belongs to the engine package).
\<close>

section \<open>Formats\<close>

definition VOCAB_DOMAIN_MAX_LENGTH :: nat where "VOCAB_DOMAIN_MAX_LENGTH = 64"

definition is_lower_letter :: "char \<Rightarrow> bool" where
  "is_lower_letter c \<longleftrightarrow> (let n = of_char c :: nat in 97 \<le> n \<and> n \<le> 122)"

definition is_digit :: "char \<Rightarrow> bool" where
  "is_digit c \<longleftrightarrow> (let n = of_char c :: nat in 48 \<le> n \<and> n \<le> 57)"

definition is_upper_letter :: "char \<Rightarrow> bool" where
  "is_upper_letter c \<longleftrightarrow> (let n = of_char c :: nat in 65 \<le> n \<and> n \<le> 90)"

definition domain_segment :: "string \<Rightarrow> bool" where
  "domain_segment s \<longleftrightarrow>
     (case s of
        [] \<Rightarrow> False
      | c # cs \<Rightarrow> is_lower_letter c \<and>
          list_all (\<lambda>d. is_lower_letter d \<or> is_digit d \<or> d = CHR ''_'' \<or> d = CHR ''-'') cs)"

definition isValidVocabularyDomain :: "string \<Rightarrow> bool" where
  "isValidVocabularyDomain domain \<longleftrightarrow>
     js_length domain \<le> VOCAB_DOMAIN_MAX_LENGTH \<and> list_all domain_segment (split_on CHR ''.'' domain)"

definition locale_charset :: "string \<Rightarrow> bool" where
  "locale_charset s \<longleftrightarrow>
     list_all (\<lambda>seg. seg \<noteq> [] \<and> list_all (\<lambda>c. is_lower_letter c \<or> is_upper_letter c \<or> is_digit c) seg)
       (split_on CHR ''-'' s)"

definition canonicalizeVocabularyLocale :: "(string \<Rightarrow> string option) \<Rightarrow> string \<Rightarrow> string option" where
  "canonicalizeVocabularyLocale canonicalLocale s =
     (if \<not> locale_charset s then None else canonicalLocale s)"

datatype format_issue = domain_format | locale_format

definition checkVocabularyScope ::
  "(string \<Rightarrow> string option) \<Rightarrow> string \<Rightarrow> string \<Rightarrow> string \<times> string \<times> format_issue list" where
  "checkVocabularyScope canonicalLocale domain_in locale_in =
     (let domain = js_trim domain_in;
          rawLocale = js_trim locale_in;
          canonical = or_null (canonicalizeVocabularyLocale canonicalLocale rawLocale)
      in (domain, nullish canonical rawLocale,
          (if isValidVocabularyDomain domain then [] else [domain_format]) @
          (if canonical = None then [locale_format] else [])))"

definition VOCAB_TERM_MAX_ALIASES :: nat where "VOCAB_TERM_MAX_ALIASES = 256"

definition VOCAB_TERM_MAX_TEXT_LENGTH :: nat where "VOCAB_TERM_MAX_TEXT_LENGTH = 16384"

datatype bounds_issue = aliases_too_many | text_too_long string

definition too_long :: "string option \<Rightarrow> bool" where
  "too_long s \<longleftrightarrow> (case s of None \<Rightarrow> False | Some t \<Rightarrow> js_length t > VOCAB_TERM_MAX_TEXT_LENGTH)"

definition checkTermBounds :: "domain_term_row \<Rightarrow> bounds_issue list" where
  "checkTermBounds term =
     (if length (dt_aliases term) > VOCAB_TERM_MAX_ALIASES then [aliases_too_many] else []) @
     List.map_filter (\<lambda>(name, val). if too_long val then Some (text_too_long name) else None)
       [(''canonical'', Some (dt_canonical term)), (''localized'', Some (dt_localized term)),
        (''parentCanonical'', dt_parentCanonical term), (''description'', dt_description term)] @
     (if list_ex (\<lambda>a. too_long (Some a)) (dt_aliases term) then [text_too_long ''aliases''] else [])"

section \<open>Assembly\<close>

text \<open>A link joined with its term.\<close>

record joined_row =
  jr_termId :: row_id
  jr_domain :: string
  jr_locale :: string
  jr_kind :: identifier_kind
  jr_canonical :: string
  jr_localized :: string
  jr_parentCanonical :: "string option"
  jr_aliases :: "string list"
  jr_description :: "string option"

definition requiresParent :: "identifier_kind \<Rightarrow> bool" where
  "requiresParent kind \<longleftrightarrow> kind = KField \<or> kind = KEnumValue"

definition mappingFromRow :: "joined_row \<Rightarrow> mapping_row" where
  "mappingFromRow r =
     \<lparr>map_canonical = jr_canonical r, map_localized = jr_localized r, map_kind = jr_kind r,
      map_parent = or_null (jr_parentCanonical r), map_description = or_null (jr_description r),
      map_aliases = jr_aliases r\<rparr>"

definition of_kind :: "identifier_kind \<Rightarrow> joined_row list \<Rightarrow> mapping_row list" where
  "of_kind k rows = filter (\<lambda>m. map_kind m = k) (map mappingFromRow rows)"

definition assembleDomainVocabularyFromLinks ::
  "joined_row list \<Rightarrow> string option \<Rightarrow> string option \<Rightarrow> vocabulary" where
  "assembleDomainVocabularyFromLinks termRows domain_opt locale_opt =
     (let first = (case termRows of [] \<Rightarrow> None | r # _ \<Rightarrow> Some r);
          domain = nullish domain_opt (nullish (map_option jr_domain first) ''custom'');
          locale = nullish locale_opt (nullish (map_option jr_locale first) ''en-US'')
      in \<lparr>voc_id = domain, voc_name = domain, voc_locale = locale, voc_version = ''user'',
          voc_structs = of_kind KStruct termRows, voc_fields = of_kind KField termRows,
          voc_functions = of_kind KFunction termRows, voc_enumValues = of_kind KEnumValue termRows,
          voc_literals = []\<rparr>)"

section \<open>Team and author terms\<close>

definition localeLanguage :: "string \<Rightarrow> string" where
  "localeLanguage locale = js_lower (takeWhile (\<lambda>c. c \<noteq> CHR ''-'' \<and> c \<noteq> CHR ''_'') (js_trim locale))"

definition isLocaleCompatible :: "string \<Rightarrow> string \<Rightarrow> bool" where
  "isLocaleCompatible termLocale policyLocale \<longleftrightarrow>
     localeLanguage termLocale \<noteq> [] \<and> localeLanguage termLocale = localeLanguage policyLocale"

type_synonym written_key = "string \<times> identifier_kind \<times> string \<times> string"

text \<open>The conflict keys; each kind has a role of its own, so the kind stands for the role.\<close>

definition writtenKeys :: "(string \<Rightarrow> string) \<Rightarrow> joined_row \<Rightarrow> written_key list" where
  "writtenKeys nfc r =
     (let parent = (if requiresParent (jr_kind r) then nullish (jr_parentCanonical r) [] else [])
      in map (\<lambda>w. (localeLanguage (jr_locale r), jr_kind r, parent, w))
           (dedup (map nfc (jr_localized r # jr_aliases r))))"

definition team_canonicals :: "(string \<Rightarrow> string) \<Rightarrow> joined_row list \<Rightarrow> written_key \<Rightarrow> string list" where
  "team_canonicals nfc teamRows key =
     dedup (map jr_canonical (filter (\<lambda>t. key \<in> set (writtenKeys nfc t)) teamRows))"

definition author_conflicts :: "(string \<Rightarrow> string) \<Rightarrow> joined_row list \<Rightarrow> joined_row \<Rightarrow> bool" where
  "author_conflicts nfc teamRows r \<longleftrightarrow>
     list_ex (\<lambda>key. list_ex (\<lambda>c. c \<noteq> jr_canonical r) (team_canonicals nfc teamRows key)) (writtenKeys nfc r)"

text \<open>The effective rows and the shadowed author rows.\<close>

definition mergeTeamAndAuthorRows ::
  "(string \<Rightarrow> string) \<Rightarrow> joined_row list \<Rightarrow> joined_row list \<Rightarrow> joined_row list \<times> joined_row list" where
  "mergeTeamAndAuthorRows nfc teamRows authorRows =
     (teamRows @ filter (\<lambda>r. \<not> author_conflicts nfc teamRows r) authorRows,
      filter (author_conflicts nfc teamRows) authorRows)"

section \<open>The vocabulary of a policy\<close>

record policy_context =
  pc_source :: string
  pc_locale :: string

type_synonym uses_fn = "string \<Rightarrow> string \<Rightarrow> string \<Rightarrow> bool"

definition mappingsOf :: "vocabulary \<Rightarrow> mapping_row list" where
  "mappingsOf v = voc_structs v @ voc_fields v @ voc_functions v @ voc_enumValues v"

definition isVocabularyUsedBy :: "(string \<Rightarrow> bool) \<Rightarrow> vocabulary \<Rightarrow> bool" where
  "isVocabularyUsedBy in_code v \<longleftrightarrow>
     list_ex (\<lambda>m. list_ex in_code (map_localized m # map_aliases m)) (mappingsOf v)"

definition policyScopeMatcher :: "uses_fn \<Rightarrow> policy_context \<Rightarrow> vocabulary \<Rightarrow> bool" where
  "policyScopeMatcher uses policy v \<longleftrightarrow>
     isLocaleCompatible (voc_locale v) (pc_locale policy) \<and>
     isVocabularyUsedBy (uses (pc_source policy) (pc_locale policy)) v"

definition selectVocabulariesForPolicy :: "uses_fn \<Rightarrow> vocabulary list \<Rightarrow> policy_context \<Rightarrow> vocabulary list" where
  "selectVocabulariesForPolicy uses vs policy = filter (policyScopeMatcher uses policy) vs"

text \<open>Rows grouped by a key, in the order in which the keys first occur.\<close>

definition group_rows :: "('a \<Rightarrow> 'k) \<Rightarrow> 'a list \<Rightarrow> ('k \<times> 'a list) list" where
  "group_rows key rows = map (\<lambda>k. (k, filter (\<lambda>r. key r = k) rows)) (dedup (map key rows))"

definition term_key :: "joined_row \<Rightarrow> string" where
  "term_key r = jr_domain r @ CHR ''|'' # jr_locale r"

definition groupTermRows :: "joined_row list \<Rightarrow> (string \<times> joined_row list) list" where
  "groupTermRows rows = group_rows term_key rows"

text \<open>\<open>key.split('|')\<close>, of which the code takes the first two parts.\<close>

definition key_parts :: "string \<Rightarrow> string option \<times> string option" where
  "key_parts key =
     (case split_on CHR ''|'' key of
        d # l # _ \<Rightarrow> (Some d, Some l)
      | [d] \<Rightarrow> (Some d, None)
      | [] \<Rightarrow> (None, None))"

definition assembleVocabularyGroups :: "joined_row list \<Rightarrow> vocabulary list" where
  "assembleVocabularyGroups rows =
     map (\<lambda>(key, groupRows). assembleDomainVocabularyFromLinks groupRows (fst (key_parts key)) (snd (key_parts key)))
       (groupTermRows rows)"

definition mappingKey :: "mapping_row \<Rightarrow> identifier_kind \<times> string \<times> string \<times> string option \<times> string list" where
  "mappingKey m = (map_kind m, map_canonical m, map_localized m, map_parent m, sort (map_aliases m))"

text \<open>The first mapping of each key.\<close>

fun dedupe_by :: "('a \<Rightarrow> 'k) \<Rightarrow> 'a list \<Rightarrow> 'k list \<Rightarrow> 'a list" where
  "dedupe_by key [] seen = []"
| "dedupe_by key (x # xs) seen =
     (if key x \<in> set seen then dedupe_by key xs seen else x # dedupe_by key xs (key x # seen))"

definition dedupe :: "mapping_row list \<Rightarrow> mapping_row list" where
  "dedupe ms = dedupe_by mappingKey ms []"

definition mergeVocabularies :: "vocabulary list \<Rightarrow> string option \<Rightarrow> string option \<Rightarrow> vocabulary option" where
  "mergeVocabularies vs id_opt locale_opt =
     (case vs of
        [] \<Rightarrow> None
      | first # rest \<Rightarrow>
          if rest = [] \<and> \<not> truthy id_opt \<and> \<not> truthy locale_opt then Some first
          else Some \<lparr>voc_id = nullish id_opt (voc_id first), voc_name = nullish id_opt (voc_name first),
                 voc_locale = nullish locale_opt (voc_locale first),
                 voc_version = (if rest = [] then voc_version first else ''merged''),
                 voc_structs = dedupe (concat (map voc_structs vs)),
                 voc_fields = dedupe (concat (map voc_fields vs)),
                 voc_functions = dedupe (concat (map voc_functions vs)),
                 voc_enumValues = dedupe (concat (map voc_enumValues vs)),
                 voc_literals = dedupe (concat (map voc_literals vs))\<rparr>)"

definition resolvePolicyVocabularyFromRows ::
  "uses_fn \<Rightarrow> joined_row list \<Rightarrow> policy_context \<Rightarrow> string option \<Rightarrow> vocabulary option" where
  "resolvePolicyVocabularyFromRows uses rows policy id_opt =
     mergeVocabularies (selectVocabulariesForPolicy uses (assembleVocabularyGroups rows) policy) id_opt
       (Some (pc_locale policy))"

section \<open>Lemmas\<close>

lemma list_all_split_on:
  "list_all (list_all P) (split_on c s) \<longleftrightarrow> (\<forall>d \<in> set s. d = c \<or> P d)"
proof (induction s)
  case (Cons x s)
  show ?case
  proof (cases "split_on c s")
    case Nil
    then show ?thesis using split_on_nonempty [of c s] by blast
  next
    case (Cons r rs)
    then show ?thesis using Cons.IH by auto
  qed
qed simp

lemma domain_segment_chars:
  "domain_segment s \<Longrightarrow> list_all (\<lambda>d. d \<noteq> CHR ''|'' \<and> d \<noteq> CHR ''.'') s"
  by (cases s) (auto simp: domain_segment_def list_all_iff is_lower_letter_def is_digit_def Let_def)

lemma valid_domain_no_bar:
  assumes "isValidVocabularyDomain d"
  shows "CHR ''|'' \<notin> set d"
proof
  assume bar: "CHR ''|'' \<in> set d"
  have "\<forall>seg \<in> set (split_on CHR ''.'' d). list_all (\<lambda>c. c \<noteq> CHR ''|'') seg"
    using assms domain_segment_chars unfolding isValidVocabularyDomain_def list_all_iff by blast
  then have "list_all (list_all (\<lambda>c. c \<noteq> CHR ''|'')) (split_on CHR ''.'' d)"
    unfolding list_all_iff .
  then have "CHR ''|'' = CHR ''.'' \<or> CHR ''|'' \<noteq> CHR ''|''"
    using bar unfolding list_all_split_on by blast
  then show False by simp
qed

lemma key_parts_term_key:
  assumes "CHR ''|'' \<notin> set (jr_domain r)" "CHR ''|'' \<notin> set (jr_locale r)"
  shows "key_parts (term_key r) = (Some (jr_domain r), Some (jr_locale r))"
  using assms by (simp add: key_parts_def term_key_def split_on_append split_on_plain)

section \<open>Properties\<close>

text \<open>
  with a domain and locale that pass the format check, grouping by the joined key and splitting
  the key again loses nothing: every group is assembled under the domain and the locale of its rows.
\<close>

theorem group_key_roundtrip:
  assumes "\<forall>r \<in> set rows. isValidVocabularyDomain (jr_domain r) \<and> CHR ''|'' \<notin> set (jr_locale r)"
    "v \<in> set (assembleVocabularyGroups rows)"
  shows "\<exists>r \<in> set rows. voc_id v = jr_domain r \<and> voc_locale v = jr_locale r \<and>
    v = assembleDomainVocabularyFromLinks
          (filter (\<lambda>q. jr_domain q = jr_domain r \<and> jr_locale q = jr_locale r) rows)
          (Some (jr_domain r)) (Some (jr_locale r))"
proof -
  have parts: "key_parts (term_key r) = (Some (jr_domain r), Some (jr_locale r))" if "r \<in> set rows" for r
    using assms(1) that by (intro key_parts_term_key) (auto simp: valid_domain_no_bar)
  obtain k where k: "k \<in> set (map term_key rows)"
    and v: "v = assembleDomainVocabularyFromLinks (filter (\<lambda>q. term_key q = k) rows)
      (fst (key_parts k)) (snd (key_parts k))"
    using assms(2) by (auto simp: assembleVocabularyGroups_def groupTermRows_def group_rows_def)
  then obtain r where r: "r \<in> set rows" "k = term_key r" by auto
  have "term_key q = term_key r \<longleftrightarrow> jr_domain q = jr_domain r \<and> jr_locale q = jr_locale r"
    if "q \<in> set rows" for q
    using parts [OF that] parts [OF r(1)] by (metis Pair_inject option.inject term_key_def)
  then have "filter (\<lambda>q. term_key q = k) rows =
      filter (\<lambda>q. jr_domain q = jr_domain r \<and> jr_locale q = jr_locale r) rows"
    using r(2) by (intro filter_cong) auto
  then show ?thesis
    using v r parts [OF r(1)] by (intro bexI [of _ r]) (simp_all add: assembleDomainVocabularyFromLinks_def Let_def)
qed

text \<open>
  on a team policy the team's terms win. Every team term is kept, each author term is kept or
  reported as shadowed, and in the result no author term gives a written form of a team term
  (same language, role, parent and normalized form) another canonical name.
\<close>

theorem team_terms_win:
  assumes "mergeTeamAndAuthorRows nfc team author = (rows, shadowed)"
  shows "set team \<subseteq> set rows \<and> set author \<subseteq> set rows \<union> set shadowed \<and>
    (\<forall>r \<in> set rows. r \<notin> set team \<longrightarrow>
       (\<forall>t \<in> set team. set (writtenKeys nfc r) \<inter> set (writtenKeys nfc t) \<noteq> {} \<longrightarrow>
          jr_canonical r = jr_canonical t)) \<and>
    (\<forall>r \<in> set shadowed. \<exists>t \<in> set team. set (writtenKeys nfc r) \<inter> set (writtenKeys nfc t) \<noteq> {} \<and>
       jr_canonical r \<noteq> jr_canonical t)"
proof -
  have c: "author_conflicts nfc team r \<longleftrightarrow>
      (\<exists>t \<in> set team. set (writtenKeys nfc r) \<inter> set (writtenKeys nfc t) \<noteq> {} \<and> jr_canonical r \<noteq> jr_canonical t)"
    for r
    by (auto simp: author_conflicts_def team_canonicals_def list_ex_iff)
  have rows: "rows = team @ filter (\<lambda>r. \<not> author_conflicts nfc team r) author"
    "shadowed = filter (author_conflicts nfc team) author"
    using assms by (simp_all add: mergeTeamAndAuthorRows_def)
  show ?thesis unfolding rows c by auto
qed

theorem team_terms_win_witness:
  "\<exists>rows shadowed. mergeTeamAndAuthorRows id
      [\<lparr>jr_termId = ''a'', jr_domain = ''finance'', jr_locale = ''de'', jr_kind = KStruct, jr_canonical = ''Loan'',
        jr_localized = ''Kredit'', jr_parentCanonical = None, jr_aliases = [], jr_description = None\<rparr>]
      [\<lparr>jr_termId = ''b'', jr_domain = ''mine'', jr_locale = ''de-DE'', jr_kind = KStruct, jr_canonical = ''Credit'',
        jr_localized = ''Darlehen'', jr_parentCanonical = None, jr_aliases = [''Kredit''], jr_description = None\<rparr>] =
      (rows, shadowed) \<and> length rows = 1 \<and> length shadowed = 1 \<and>
      (\<forall>r \<in> set shadowed. jr_canonical r \<noteq> ''Loan'')"
proof -
  let ?t = "\<lparr>jr_termId = ''a'', jr_domain = ''finance'', jr_locale = ''de'', jr_kind = KStruct, jr_canonical = ''Loan'',
        jr_localized = ''Kredit'', jr_parentCanonical = None, jr_aliases = [], jr_description = None\<rparr>"
  let ?a = "\<lparr>jr_termId = ''b'', jr_domain = ''mine'', jr_locale = ''de-DE'', jr_kind = KStruct, jr_canonical = ''Credit'',
        jr_localized = ''Darlehen'', jr_parentCanonical = None, jr_aliases = [''Kredit''], jr_description = None\<rparr>"
  have run: "mergeTeamAndAuthorRows id [?t] [?a] = ([?t], [?a])" by code_simp
  have "\<exists>t \<in> set [?t]. jr_canonical ?a \<noteq> jr_canonical t"
    using team_terms_win [OF run] by (meson list.set_intros(1))
  then show ?thesis using run by (intro exI [of _ "[?t]"] exI [of _ "[?a]"]) simp
qed

theorem group_key_roundtrip_witness:
  "isValidVocabularyDomain ''finance.loan'' \<and>
   map voc_id (assembleVocabularyGroups
      [\<lparr>jr_termId = ''a'', jr_domain = ''finance.loan'', jr_locale = ''de'', jr_kind = KStruct, jr_canonical = ''Loan'',
        jr_localized = ''Kredit'', jr_parentCanonical = None, jr_aliases = [], jr_description = None\<rparr>]) = [''finance.loan'']"
proof -
  let ?t = "\<lparr>jr_termId = ''a'', jr_domain = ''finance.loan'', jr_locale = ''de'', jr_kind = KStruct, jr_canonical = ''Loan'',
        jr_localized = ''Kredit'', jr_parentCanonical = None, jr_aliases = [], jr_description = None\<rparr>"
  have d: "isValidVocabularyDomain ''finance.loan''" by code_simp
  obtain v where v: "assembleVocabularyGroups [?t] = [v]"
    by (auto simp: assembleVocabularyGroups_def groupTermRows_def group_rows_def dedup_def)
  have "v \<in> set (assembleVocabularyGroups [?t])" unfolding v by simp
  moreover have "\<forall>r \<in> set [?t]. isValidVocabularyDomain (jr_domain r) \<and> CHR ''|'' \<notin> set (jr_locale r)"
    using d by simp
  ultimately have "\<exists>r \<in> set [?t]. voc_id v = jr_domain r"
    using group_key_roundtrip by blast
  then show ?thesis using d unfolding v by simp
qed

end
