(* ===== verification/Aliases.thy ===== *)
theory Aliases
  imports Prelude
begin

text \<open>
  User-defined keyword aliases (\<open>src/src/lib/policy-alias-shared.ts\<close>): normalization, validation,
  canonical JSON and the merge of the three scopes. An alias set is the list of the entries of the
  JavaScript object, in its key order. The properties say what a set that passes validation
  guarantees, that the canonical JSON depends on the normalized aliases only, and which scope wins.
\<close>

type_synonym alias_set = "(string \<times> string list) list"

section \<open>Kinds and bounds\<close>

definition OPERATOR_KINDS :: "string list" where
  "OPERATOR_KINDS =
     [''PLUS'', ''MINUS_WORD'', ''TIMES'', ''DIVIDED_BY'', ''INTEGER_DIVIDED_BY'', ''MODULO'',
      ''LESS_THAN'', ''GREATER_THAN'', ''EQUALS_TO'', ''AT_LEAST'', ''AT_MOST'']"

definition STRUCTURAL_KINDS :: "string list" where
  "STRUCTURAL_KINDS =
     [''MODULE_DECL'', ''FUNC_TO'', ''IF'', ''OTHERWISE'', ''MATCH'', ''WHEN'', ''RETURN'']"

definition MAX_ALIAS_KINDS :: nat where "MAX_ALIAS_KINDS = 32"

definition MAX_ALIASES_PER_KIND :: nat where "MAX_ALIASES_PER_KIND = 8"

definition MAX_ALIAS_LENGTH :: nat where "MAX_ALIAS_LENGTH = 64"

section \<open>Normalization\<close>

definition le_space :: "char \<Rightarrow> bool" where
  "le_space c \<longleftrightarrow> (of_char c :: nat) \<le> 32"

definition ascii_ws :: "char \<Rightarrow> bool" where
  "ascii_ws c \<longleftrightarrow> (let n = of_char c :: nat in n = 32 \<or> 9 \<le> n \<and> n \<le> 13)"

text \<open>Runs of white space become one space; the flag says that the last character was one.\<close>

fun collapse_ws :: "bool \<Rightarrow> string \<Rightarrow> string" where
  "collapse_ws f [] = []"
| "collapse_ws f (c # cs) =
     (if ascii_ws c then (if f then collapse_ws True cs else CHR '' '' # collapse_ws True cs)
      else c # collapse_ws False cs)"

definition trim_le_space :: "string \<Rightarrow> string" where
  "trim_le_space s = rev (dropWhile le_space (rev (dropWhile le_space s)))"

definition normalizeAliasToken :: "string \<Rightarrow> string" where
  "normalizeAliasToken s = js_lower (collapse_ws False (trim_le_space s))"

section \<open>Validation\<close>

datatype alias_issue =
    TooManyKinds nat
  | KindNotAllowed string
  | StructuralNotGranted string
  | TooManyAliases string nat
  | EmptyAlias string
  | TooLong string string nat
  | NonCanonical string string string
  | SingleWord string string
  | ShadowsKeyword string string
  | ShadowsBaseAlias string string
  | CollidesVocabulary string string
  | DuplicateAlias string string string

record reserved_sets =
  canonicalKeywordsLower :: "string list"
  baseAliasesLower :: "string list"
  vocabularyTermsLower :: "string list"

definition kindPermissionIssue :: "string \<Rightarrow> bool \<Rightarrow> alias_issue option" where
  "kindPermissionIssue kind allowStructural =
     (if kind \<in> set OPERATOR_KINDS then None
      else if kind \<in> set STRUCTURAL_KINDS
        then (if allowStructural then None else Some (StructuralNotGranted kind))
      else Some (KindNotAllowed kind))"

text \<open>The map \<open>seen\<close> from normalized aliases to their first kind is an association list.\<close>

definition aliasIssues ::
  "string \<Rightarrow> string \<Rightarrow> reserved_sets \<Rightarrow> (string \<times> string) list \<Rightarrow> alias_issue list \<times> (string \<times> string) list" where
  "aliasIssues kind alias sets seen =
     (if js_trim alias = [] then ([EmptyAlias kind], seen)
      else if js_length alias > MAX_ALIAS_LENGTH then ([TooLong kind alias (js_length alias)], seen)
      else
        let norm = normalizeAliasToken alias in
        if alias \<noteq> norm then ([NonCanonical kind alias norm], seen)
        else
          let single = (if CHR '' '' \<notin> set norm then [SingleWord kind alias] else []);
              shadows = (if norm \<in> set (canonicalKeywordsLower sets) then [ShadowsKeyword kind alias]
                         else if norm \<in> set (baseAliasesLower sets) then [ShadowsBaseAlias kind alias]
                         else []);
              collides = (if norm \<in> set (vocabularyTermsLower sets) then [CollidesVocabulary kind alias] else [])
          in case map_of seen norm of
               Some owner \<Rightarrow> (single @ shadows @ collides @ [DuplicateAlias kind alias owner], seen)
             | None \<Rightarrow> (single @ shadows @ collides, (norm, kind) # seen))"

fun aliasListIssues ::
  "string \<Rightarrow> string list \<Rightarrow> reserved_sets \<Rightarrow> (string \<times> string) list \<Rightarrow> alias_issue list \<times> (string \<times> string) list" where
  "aliasListIssues kind [] sets seen = ([], seen)"
| "aliasListIssues kind (alias # rest) sets seen =
     (let (here, seen1) = aliasIssues kind alias sets seen;
          (later, seen2) = aliasListIssues kind rest sets seen1
      in (here @ later, seen2))"

fun kindIssues ::
  "alias_set \<Rightarrow> reserved_sets \<Rightarrow> bool \<Rightarrow> (string \<times> string) list \<Rightarrow> alias_issue list" where
  "kindIssues [] sets allowStructural seen = []"
| "kindIssues ((kind, aliases) # rest) sets allowStructural seen =
     (case kindPermissionIssue kind allowStructural of
        Some i \<Rightarrow> i # kindIssues rest sets allowStructural seen
      | None \<Rightarrow>
          if length aliases > MAX_ALIASES_PER_KIND
          then TooManyAliases kind (length aliases) # kindIssues rest sets allowStructural seen
          else
            let (here, seen1) = aliasListIssues kind aliases sets seen
            in here @ kindIssues rest sets allowStructural seen1)"

text \<open>The issues; the set is valid when there are none.\<close>

definition validateUserAliases :: "alias_set \<Rightarrow> reserved_sets \<Rightarrow> bool \<Rightarrow> alias_issue list" where
  "validateUserAliases aliasSet sets allowStructural =
     (if aliasSet = [] then []
      else if length aliasSet > MAX_ALIAS_KINDS then [TooManyKinds (length aliasSet)]
      else kindIssues aliasSet sets allowStructural [])"

definition hasStructuralAliases :: "alias_set \<Rightarrow> bool" where
  "hasStructuralAliases aliasSet \<longleftrightarrow>
     list_ex (\<lambda>(kind, aliases). kind \<in> set STRUCTURAL_KINDS \<and> aliases \<noteq> []) aliasSet"

definition parseAliasInput :: "string \<Rightarrow> string list" where
  "parseAliasInput s = filter (\<lambda>a. a \<noteq> []) (map normalizeAliasToken (split_on CHR '','' s))"

section \<open>Canonical JSON\<close>

definition hex_digit :: "nat \<Rightarrow> char" where
  "hex_digit n = (if n < 10 then char_of (48 + n) else char_of (87 + n))"

definition json_char :: "char \<Rightarrow> string" where
  "json_char c =
     (let n = of_char c :: nat in
      if n = 34 then [CHR 0x5C, c]
      else if n = 92 then [CHR 0x5C, c]
      else if n = 8 then [CHR 0x5C, CHR ''b'']
      else if n = 9 then [CHR 0x5C, CHR ''t'']
      else if n = 10 then [CHR 0x5C, CHR ''n'']
      else if n = 12 then [CHR 0x5C, CHR ''f'']
      else if n = 13 then [CHR 0x5C, CHR ''r'']
      else if n < 32 then [CHR 0x5C, CHR ''u'', CHR ''0'', CHR ''0'', hex_digit (n div 16), hex_digit (n mod 16)]
      else [c])"

definition json_string :: "string \<Rightarrow> string" where
  "json_string s = CHR 0x22 # concat (map json_char s) @ [CHR 0x22]"

definition json_array :: "string list \<Rightarrow> string" where
  "json_array ss = CHR ''['' # join_commas (map json_string ss) @ [CHR '']'']"

definition json_object :: "alias_set \<Rightarrow> string" where
  "json_object entries =
     CHR ''{'' # join_commas (map (\<lambda>(k, vs). json_string k @ CHR '':'' # json_array vs) entries) @ [CHR ''}'']"

text \<open>The normalized aliases of a kind: blank ones dropped, without duplicates, sorted.\<close>

definition canonical_aliases :: "string list \<Rightarrow> string list" where
  "canonical_aliases vals = sort (dedup (map normalizeAliasToken (filter (\<lambda>a. js_trim a \<noteq> []) vals)))"

definition canonical_entries :: "alias_set \<Rightarrow> alias_set" where
  "canonical_entries aliasSet =
     filter (\<lambda>(k, vs). vs \<noteq> [])
       (map (\<lambda>k. (k, canonical_aliases (case map_of aliasSet k of None \<Rightarrow> [] | Some vs \<Rightarrow> vs)))
         (sort (map fst aliasSet)))"

definition canonicalAliasJson :: "alias_set \<Rightarrow> string option" where
  "canonicalAliasJson aliasSet =
     (if aliasSet = [] then None
      else if canonical_entries aliasSet = [] then None
      else Some (json_object (canonical_entries aliasSet)))"

section \<open>Merging scopes\<close>

definition layer_aliases :: "alias_set option \<Rightarrow> string \<Rightarrow> string list" where
  "layer_aliases layer kind =
     (case layer of
        None \<Rightarrow> []
      | Some s \<Rightarrow> filter (\<lambda>a. js_trim a \<noteq> []) (case map_of s kind of None \<Rightarrow> [] | Some vs \<Rightarrow> vs))"

definition layer_kinds :: "alias_set option \<Rightarrow> string list" where
  "layer_kinds layer = (case layer of None \<Rightarrow> [] | Some s \<Rightarrow> map fst s)"

definition mergeAliasSets :: "alias_set option \<Rightarrow> alias_set option \<Rightarrow> alias_set option \<Rightarrow> alias_set" where
  "mergeAliasSets policy team tenant =
     List.map_filter (\<lambda>kind.
         map_option (\<lambda>layer. (kind, layer_aliases layer kind))
           (List.find (\<lambda>layer. layer_aliases layer kind \<noteq> []) [policy, team, tenant]))
       (dedup (layer_kinds policy @ layer_kinds team @ layer_kinds tenant))"

section \<open>Reading JSON back\<close>

definition unhex :: "char \<Rightarrow> nat" where
  "unhex c = (let n = of_char c :: nat in if n < 58 then n - 48 else n - 87)"

definition unescape :: "char \<Rightarrow> char" where
  "unescape e =
     (if e = CHR ''b'' then char_of (8 :: nat) else if e = CHR ''t'' then char_of (9 :: nat)
      else if e = CHR ''n'' then char_of (10 :: nat) else if e = CHR ''f'' then char_of (12 :: nat)
      else if e = CHR ''r'' then char_of (13 :: nat) else e)"

definition read_char :: "string \<Rightarrow> char \<times> string" where
  "read_char s =
     (if hd s = CHR 0x5C
      then (if s ! 1 = CHR ''u'' then (char_of (16 * unhex (s ! 4) + unhex (s ! 5)), drop 6 s)
            else (unescape (s ! 1), drop 2 s))
      else (hd s, tl s))"

lemma unhex_hex_digit: "n < 16 \<Longrightarrow> unhex (hex_digit n) = n"
  by (simp add: unhex_def hex_digit_def Let_def)

lemma char_eqI: "(of_char c :: nat) = of_char d \<Longrightarrow> c = d"
  by simp

lemma read_json_char: "read_char (json_char c @ r) = (c, r)"
proof -
  define n where "n = (of_char c :: nat)"
  have c: "c = char_of n" by (simp add: n_def)
  consider "n = 34" | "n = 92" | "n = 8" | "n = 9" | "n = 10" | "n = 12" | "n = 13"
    | "n < 32" "n \<notin> {8, 9, 10, 12, 13}" | "n \<ge> 32" "n \<noteq> 34" "n \<noteq> 92"
    by fastforce
  then show ?thesis
  proof cases
    case 1
    then have "c = CHR 0x22" using c by (simp, code_simp)
    then show ?thesis by (simp add: json_char_def read_char_def unescape_def)
  next
    case 2
    then have "c = CHR 0x5C" using c by (simp, code_simp)
    then show ?thesis by (simp add: json_char_def read_char_def unescape_def)
  next
    case 8
    then have d: "unhex (hex_digit (n div 16)) = n div 16" "unhex (hex_digit (n mod 16)) = n mod 16"
      by (simp_all add: unhex_hex_digit)
    have "json_char c = [CHR 0x5C, CHR ''u'', CHR ''0'', CHR ''0'', hex_digit (n div 16), hex_digit (n mod 16)]"
      using 8 by (simp add: json_char_def n_def [symmetric])
    then show ?thesis using d by (simp add: read_char_def c)
  next
    case 9
    then have "c \<noteq> CHR 0x5C" by (auto simp: n_def)
    moreover have "json_char c = [c]" using 9 by (simp add: json_char_def n_def [symmetric])
    ultimately show ?thesis by (simp add: read_char_def)
  qed (simp_all add: json_char_def read_char_def unescape_def c)
qed

lemma json_char_inj: "json_char c @ x = json_char d @ y \<Longrightarrow> c = d \<and> x = y"
  by (metis Pair_inject read_json_char)

lemma json_char_not_quote: "json_char c \<noteq> [] \<and> hd (json_char c) \<noteq> CHR 0x22"
  by (auto simp: json_char_def Let_def)

lemma json_body_inj:
  "concat (map json_char s) @ CHR 0x22 # x = concat (map json_char t) @ CHR 0x22 # y \<Longrightarrow> s = t \<and> x = y"
proof (induction s arbitrary: t)
  case Nil
  then show ?case
  proof (cases t)
    case (Cons d ds)
    then show ?thesis using Nil json_char_not_quote [of d] by (cases "json_char d") auto
  qed simp
next
  case (Cons c cs)
  obtain d ds where t: "t = d # ds"
    using Cons.prems json_char_not_quote [of c] by (cases t; cases "json_char c") auto
  then have "c = d \<and> concat (map json_char cs) @ CHR 0x22 # x = concat (map json_char ds) @ CHR 0x22 # y"
    using Cons.prems by (intro json_char_inj) simp
  then show ?case using Cons.IH [of ds] t by simp
qed

interpretation jstr: prefix_code json_string
proof unfold_locales
  show "a = b \<and> x = y" if "json_string a @ x = json_string b @ y" for a x b y
    by (rule json_body_inj) (use that in \<open>simp add: json_string_def\<close>)
  show "json_string a \<noteq> []" for a by (simp add: json_string_def)
qed

lemma json_array_inj: "json_array as @ x = json_array bs @ y \<Longrightarrow> as = bs \<and> x = y"
  by (rule jstr.joined_inj [where close = "CHR '']''"]) (simp_all add: json_array_def json_string_def)

definition json_entry :: "string \<times> string list \<Rightarrow> string" where
  "json_entry e = json_string (fst e) @ CHR '':'' # json_array (snd e)"

interpretation jentry: prefix_code json_entry
proof unfold_locales
  fix a x b y
  assume "json_entry a @ x = json_entry b @ y"
  then have "json_string (fst a) @ (CHR '':'' # json_array (snd a) @ x) =
      json_string (fst b) @ (CHR '':'' # json_array (snd b) @ y)"
    by (simp add: json_entry_def)
  then have "fst a = fst b \<and> CHR '':'' # json_array (snd a) @ x = CHR '':'' # json_array (snd b) @ y"
    by (rule jstr.enc_inj)
  then show "a = b \<and> x = y" using json_array_inj by (auto simp: prod_eq_iff)
next
  show "json_entry a \<noteq> []" for a by (simp add: json_entry_def json_string_def)
qed

lemma json_object_inj: "json_object as = json_object bs \<Longrightarrow> as = bs"
proof -
  have e: "(\<lambda>(k, vs). json_string k @ CHR '':'' # json_array vs) = json_entry"
    by (auto simp: json_entry_def fun_eq_iff)
  assume "json_object as = json_object bs"
  then have "join_commas (map json_entry as) @ CHR ''}'' # [] = join_commas (map json_entry bs) @ CHR ''}'' # []"
    using e by (simp add: json_object_def)
  then show ?thesis
    by (rule jentry.joined_inj [THEN conjunct1]) (simp_all add: json_entry_def json_string_def)
qed

section \<open>Lemmas\<close>

text \<open>What one alias satisfies when it raises no issue.\<close>

definition alias_ok :: "reserved_sets \<Rightarrow> string \<Rightarrow> bool" where
  "alias_ok sets a \<longleftrightarrow>
     js_trim a \<noteq> [] \<and> js_length a \<le> MAX_ALIAS_LENGTH \<and> normalizeAliasToken a = a \<and> CHR '' '' \<in> set a \<and>
     a \<notin> set (canonicalKeywordsLower sets) \<and> a \<notin> set (baseAliasesLower sets) \<and>
     a \<notin> set (vocabularyTermsLower sets)"

lemma aliasIssues_none:
  assumes "aliasIssues kind a sets seen = ([], seen')"
  shows "alias_ok sets a \<and> a \<notin> fst ` set seen \<and> seen' = (a, kind) # seen"
  using assms unfolding aliasIssues_def Let_def
  by (elim guard_elims Pair_inject)
    (auto simp: alias_ok_def map_of_eq_None_iff split: if_splits option.splits)

lemma aliasListIssues_none:
  assumes "aliasListIssues kind as sets seen = ([], seen')"
  shows "list_all (alias_ok sets) as \<and> distinct as \<and> set as \<inter> fst ` set seen = {} \<and>
    fst ` set seen' = set as \<union> fst ` set seen"
  using assms
proof (induction as arbitrary: seen)
  case (Cons a as)
  obtain seen1 where one: "aliasIssues kind a sets seen = ([], seen1)"
    and rest: "aliasListIssues kind as sets seen1 = ([], seen')"
    using Cons.prems by (auto simp: Let_def split: prod.splits)
  show ?case using aliasIssues_none [OF one] Cons.IH [OF rest] by auto
qed simp

lemma kindIssues_none:
  assumes "kindIssues s sets allow seen = []"
  shows "(\<forall>(k, as) \<in> set s. (k \<in> set OPERATOR_KINDS \<or> allow \<and> k \<in> set STRUCTURAL_KINDS) \<and>
      length as \<le> MAX_ALIASES_PER_KIND \<and> list_all (alias_ok sets) as) \<and>
    distinct (concat (map snd s)) \<and> set (concat (map snd s)) \<inter> fst ` set seen = {}"
  using assms
proof (induction s arbitrary: seen)
  case (Cons e s)
  obtain k as where e: "e = (k, as)" by (cases e)
  have ok: "kindPermissionIssue k allow = None" "length as \<le> MAX_ALIASES_PER_KIND"
    using Cons.prems by (auto simp: e split: option.splits if_splits prod.splits)
  then obtain seen1 where one: "aliasListIssues k as sets seen = ([], seen1)"
    and rest: "kindIssues s sets allow seen1 = []"
    using Cons.prems by (auto simp: e split: prod.splits)
  have perm: "k \<in> set OPERATOR_KINDS \<or> allow \<and> k \<in> set STRUCTURAL_KINDS"
    using ok(1) by (auto simp: kindPermissionIssue_def split: if_splits)
  show ?case
    using aliasListIssues_none [OF one] Cons.IH [OF rest] perm ok(2) by (auto simp: e)
qed simp

lemma sort_dedup_eq_iff: "sort (dedup xs) = sort (dedup ys) \<longleftrightarrow> set xs = set (ys :: 'a :: linorder list)"
  by (metis distinct_dedup set_dedup set_sort sorted_distinct_set_unique sorted_sort distinct_sort)

lemma map_of_canonical_entries:
  assumes "canonical_aliases (case map_of s k of None \<Rightarrow> [] | Some vs \<Rightarrow> vs) \<noteq> []"
  shows "(k, canonical_aliases (case map_of s k of None \<Rightarrow> [] | Some vs \<Rightarrow> vs)) \<in> set (canonical_entries s)"
proof -
  have "k \<in> fst ` set s"
    using assms by (cases "map_of s k") (auto simp: canonical_aliases_def dedup_def dest: map_of_SomeD intro: rev_image_eqI)
  then show ?thesis using assms by (auto simp: canonical_entries_def)
qed

text \<open>The normalized aliases a set gives a kind.\<close>

definition normalized_aliases :: "alias_set \<Rightarrow> string \<Rightarrow> string set" where
  "normalized_aliases s k =
     normalizeAliasToken ` {a. js_trim a \<noteq> [] \<and> (\<exists>vs. map_of s k = Some vs \<and> a \<in> set vs)}"

lemma canonical_aliases_iff:
  "canonical_aliases (case map_of s k of None \<Rightarrow> [] | Some vs \<Rightarrow> vs) =
   canonical_aliases (case map_of t k of None \<Rightarrow> [] | Some vs \<Rightarrow> vs) \<longleftrightarrow>
   normalized_aliases s k = normalized_aliases t k"
proof -
  have "set (map normalizeAliasToken (filter (\<lambda>a. js_trim a \<noteq> []) (case map_of q k of None \<Rightarrow> [] | Some vs \<Rightarrow> vs))) =
      normalized_aliases q k" for q
    by (cases "map_of q k") (auto simp: normalized_aliases_def)
  then show ?thesis by (simp add: canonical_aliases_def sort_dedup_eq_iff)
qed

lemma canonical_entries_sorted: 
  assumes "distinct (map fst s)"
  shows "sorted (map fst (canonical_entries s)) \<and> distinct (map fst (canonical_entries s))"
proof -
  define g where "g k = (k, canonical_aliases (case map_of s k of None \<Rightarrow> [] | Some vs \<Rightarrow> vs))" for k
  have "map fst (filter (\<lambda>(k, vs). vs \<noteq> []) (map g ks)) = filter (\<lambda>k. snd (g k) \<noteq> []) ks" for ks
    by (induction ks) (auto simp: g_def)
  then have "map fst (canonical_entries s) = filter (\<lambda>k. snd (g k) \<noteq> []) (sort (map fst s))"
    unfolding canonical_entries_def g_def [abs_def, symmetric] by simp
  then show ?thesis using assms by (simp add: sorted_filter [of id, simplified])
qed

lemma set_canonical_entries:
  "set (canonical_entries s) = {(k, vs). vs = canonical_aliases (case map_of s k of None \<Rightarrow> [] | Some vs \<Rightarrow> vs) \<and> vs \<noteq> []}"
  using map_of_canonical_entries by (auto simp: canonical_entries_def)

lemma sorted_keys_unique:
  assumes "sorted (map fst es)" "distinct (map fst es)" "sorted (map fst ds)" "distinct (map fst ds)"
    "set es = set ds"
  shows "es = (ds :: ('k :: linorder \<times> 'v) list)"
proof -
  have rebuild: "map (\<lambda>k. (k, the (map_of fs k))) (map fst fs) = fs"
    if "distinct (map fst fs)" for fs :: "('k \<times> 'v) list"
    using that by (auto simp: comp_def intro!: map_idI)
  have "set (map fst es) = set (map fst ds)" using assms(5) by simp
  then have "map fst es = map fst ds"
    using assms(1-4) by (intro sorted_distinct_set_unique) auto
  moreover have "map_of es = map_of ds"
    using map_of_inject_set [OF assms(2,4)] assms(5) by simp
  ultimately show ?thesis using rebuild [OF assms(2)] rebuild [OF assms(4)] by simp
qed

lemma canonical_entries_eq_iff:
  assumes "distinct (map fst s)" "distinct (map fst t)"
  shows "canonical_entries s = canonical_entries t \<longleftrightarrow> (\<forall>k. normalized_aliases s k = normalized_aliases t k)"
proof
  let ?c = "\<lambda>q k. canonical_aliases (case map_of q k of None \<Rightarrow> [] | Some vs \<Rightarrow> vs)"
  assume eq: "canonical_entries s = canonical_entries t"
  have "?c s k = ?c t k" for k
  proof -
    have "(k, vs) \<in> set (canonical_entries s) \<longleftrightarrow> (k, vs) \<in> set (canonical_entries t)" for vs
      using eq by simp
    then show ?thesis unfolding set_canonical_entries by (metis (mono_tags, lifting) case_prod_conv mem_Collect_eq)
  qed
  then show "\<forall>k. normalized_aliases s k = normalized_aliases t k"
    by (simp add: canonical_aliases_iff)
next
  assume "\<forall>k. normalized_aliases s k = normalized_aliases t k"
  then have "canonical_aliases (case map_of s k of None \<Rightarrow> [] | Some vs \<Rightarrow> vs) =
      canonical_aliases (case map_of t k of None \<Rightarrow> [] | Some vs \<Rightarrow> vs)" for k
    by (simp add: canonical_aliases_iff)
  then have "set (canonical_entries s) = set (canonical_entries t)"
    by (simp add: set_canonical_entries)
  then show "canonical_entries s = canonical_entries t"
    using canonical_entries_sorted assms by (blast intro: sorted_keys_unique)
qed

section \<open>Properties\<close>

text \<open>
  an alias set that passes validation is safe to inject: its kinds are operators, or structural
  words when these are granted; each kind has at most eight aliases; every alias is in canonical
  form, has at least two words and at most 64 characters, and is neither a keyword, an official
  alias nor a term of the vocabulary; and no alias occurs twice in the whole set.
\<close>

theorem valid_aliases_are_safe:
  assumes "validateUserAliases s sets allow = []"
  shows "length s \<le> MAX_ALIAS_KINDS \<and> distinct (concat (map snd s)) \<and>
    (\<forall>(k, as) \<in> set s. (k \<in> set OPERATOR_KINDS \<or> allow \<and> k \<in> set STRUCTURAL_KINDS) \<and>
       length as \<le> MAX_ALIASES_PER_KIND \<and> list_all (alias_ok sets) as) \<and>
    (\<not> allow \<longrightarrow> \<not> hasStructuralAliases s)"
proof -
  have k: "length s \<le> MAX_ALIAS_KINDS" "kindIssues s sets allow [] = []"
    using assms by (auto simp: validateUserAliases_def split: if_splits)
  have "set OPERATOR_KINDS \<inter> set STRUCTURAL_KINDS = {}"
    by (simp add: OPERATOR_KINDS_def STRUCTURAL_KINDS_def)
  then have "\<not> allow \<longrightarrow> \<not> hasStructuralAliases s"
    using kindIssues_none [OF k(2)] by (fastforce simp: hasStructuralAliases_def list_ex_iff)
  then show ?thesis using k kindIssues_none [OF k(2)] by blast
qed

theorem valid_aliases_are_safe_witness:
  "validateUserAliases [(''AT_LEAST'', [''no less than'', ''at minimum''])]
     \<lparr>canonicalKeywordsLower = [''at least''], baseAliasesLower = [], vocabularyTermsLower = []\<rparr> False = [] \<and>
   distinct [''no less than'', ''at minimum'']"
proof -
  let ?s = "[(''AT_LEAST'', [''no less than'', ''at minimum''])]"
  have "validateUserAliases ?s
     \<lparr>canonicalKeywordsLower = [''at least''], baseAliasesLower = [], vocabularyTermsLower = []\<rparr> False = []"
    by code_simp
  then show ?thesis using valid_aliases_are_safe [of ?s] by fastforce
qed

text \<open>
  the canonical JSON is a faithful fingerprint. Two alias sets have the same canonical JSON (or
  both none) exactly when they give every kind the same normalized aliases, whatever the order of
  kinds and aliases, the repetitions, the blanks and the empty kinds of the two sets.
\<close>

theorem canonical_json_iff_same_aliases:
  assumes "distinct (map fst s)" "distinct (map fst t)"
  shows "canonicalAliasJson s = canonicalAliasJson t \<longleftrightarrow> (\<forall>k. normalized_aliases s k = normalized_aliases t k)"
proof -
  have "canonicalAliasJson s = canonicalAliasJson t \<longleftrightarrow> canonical_entries s = canonical_entries t"
    using json_object_inj by (auto simp: canonicalAliasJson_def canonical_entries_def)
  then show ?thesis by (simp add: canonical_entries_eq_iff [OF assms])
qed

theorem canonical_json_iff_same_aliases_witness:
  "canonicalAliasJson [(''PLUS'', ['' Added  to'', ''plus also'']), (''TIMES'', ['' ''])] =
   canonicalAliasJson [(''PLUS'', [''plus also'', ''added to'', ''added to''])]"
proof -
  let ?s = "[(''PLUS'', ['' Added  to'', ''plus also'']), (''TIMES'', ['' ''])]"
  let ?t = "[(''PLUS'', [''plus also'', ''added to'', ''added to''])]"
  have n: "normalizeAliasToken '' Added  to'' = ''added to''" "normalizeAliasToken ''plus also'' = ''plus also''"
    "normalizeAliasToken ''added to'' = ''added to''" "js_trim '' '' = []" "js_trim ''plus also'' \<noteq> []"
    "js_trim '' Added  to'' \<noteq> []" "js_trim ''added to'' \<noteq> []"
    by code_simp+
  have "normalized_aliases ?s k = normalized_aliases ?t k" for k
  proof (cases "k = ''PLUS''")
    case True
    have "{a. js_trim a \<noteq> [] \<and> (\<exists>vs. map_of ?s ''PLUS'' = Some vs \<and> a \<in> set vs)} = {'' Added  to'', ''plus also''}"
      "{a. js_trim a \<noteq> [] \<and> (\<exists>vs. map_of ?t ''PLUS'' = Some vs \<and> a \<in> set vs)} = {''plus also'', ''added to''}"
      using n by auto
    then show ?thesis using True n by (auto simp: normalized_aliases_def)
  next
    case False
    then have "{a. js_trim a \<noteq> [] \<and> (\<exists>vs. map_of ?s k = Some vs \<and> a \<in> set vs)} = {}"
      "{a. js_trim a \<noteq> [] \<and> (\<exists>vs. map_of ?t k = Some vs \<and> a \<in> set vs)} = {}"
      using n by auto
    then show ?thesis unfolding normalized_aliases_def by (simp only:)
  qed
  then show ?thesis using canonical_json_iff_same_aliases [of ?s ?t] by simp
qed

text \<open>
  merging is by kind: the effective aliases of a kind are those of the first scope, in the
  order policy, team, tenant, that has a non-blank alias for it, taken as a whole.
\<close>

theorem merge_takes_first_scope:
  "map_of (mergeAliasSets policy team tenant) kind =
     (if layer_aliases policy kind \<noteq> [] then Some (layer_aliases policy kind)
      else if layer_aliases team kind \<noteq> [] then Some (layer_aliases team kind)
      else if layer_aliases tenant kind \<noteq> [] then Some (layer_aliases tenant kind)
      else None)"
proof -
  let ?ks = "dedup (layer_kinds policy @ layer_kinds team @ layer_kinds tenant)"
  let ?pick = "\<lambda>k. List.find (\<lambda>layer. layer_aliases layer k \<noteq> []) [policy, team, tenant]"
  have m: "map_of (List.map_filter (\<lambda>k. map_option (\<lambda>layer. (k, layer_aliases layer k)) (?pick k)) ks) kind =
      (if kind \<in> set ks then map_option (\<lambda>layer. layer_aliases layer kind) (?pick kind) else None)" for ks
    by (induction ks) (auto simp: map_filter_simps split: option.splits)
  have "kind \<in> set (layer_kinds layer)" if "layer_aliases layer kind \<noteq> []" for layer
    using that by (auto simp: layer_aliases_def layer_kinds_def dest: map_of_SomeD split: option.splits intro: rev_image_eqI)
  then show ?thesis
    unfolding mergeAliasSets_def m by (auto split: if_splits)
qed

end
