(* ===== verification/Snapshots.thy ===== *)
theory Snapshots
  imports Vocabulary Aliases
begin

text \<open>
  Vocabulary snapshots (\<open>src/src/lib/domain-vocabulary-snapshot.ts\<close>): reading the active terms of an
  owner, freezing the groups a policy uses into reference-counted snapshots, releasing the references
  of a deleted policy, the diff of a snapshot against the active terms and the rollback to one; and
  the archive and purge of \<open>domain-vocabulary-retention.ts\<close>. Code that runs in one transaction is
  one function on the store. Random ids are taken from a supply \<open>fresh\<close>.
\<close>

section \<open>Reading active terms\<close>

record owner_scope =
  os_type :: owner_type
  os_id :: string

definition ownerPredicate :: "owner_scope \<Rightarrow> term_link_row \<Rightarrow> bool" where
  "ownerPredicate scope l \<longleftrightarrow>
     (case os_type scope of
        UserOwned \<Rightarrow> ud_ownerType l = UserOwned \<and> ud_userId l = os_id scope
      | TeamOwned \<Rightarrow> ud_ownerType l = TeamOwned \<and> ud_teamId l = Some (os_id scope))"

definition active_link :: "term_link_row \<Rightarrow> bool" where
  "active_link l \<longleftrightarrow> ud_deletedAt l = None \<and> ud_archivedAt l = None"

definition join_term :: "store \<Rightarrow> term_link_row \<Rightarrow> joined_row option" where
  "join_term st l =
     map_option (\<lambda>t. \<lparr>jr_termId = ud_termId l, jr_domain = ud_domain l, jr_locale = ud_locale l,
         jr_kind = ud_kind l, jr_canonical = dt_canonical t, jr_localized = dt_localized t,
         jr_parentCanonical = dt_parentCanonical t, jr_aliases = dt_aliases t, jr_description = dt_description t\<rparr>)
       (find_first (\<lambda>t. dt_id t = ud_termId l) (terms_t st))"

definition loadActiveLinkRows :: "store \<Rightarrow> owner_scope \<Rightarrow> joined_row list" where
  "loadActiveLinkRows st scope =
     sort_key jr_termId
       (List.map_filter (join_term st) (select_where (\<lambda>l. ownerPredicate scope l \<and> active_link l) (links_t st)))"

definition loadPolicyVocabularySources ::
  "(string \<Rightarrow> string) \<Rightarrow> store \<Rightarrow> user_id option \<Rightarrow> team_id option \<Rightarrow> (owner_scope \<times> joined_row list) list" where
  "loadPolicyVocabularySources nfc st authorId teamId =
     (let author = or_null authorId;
          authorRows = (case author of None \<Rightarrow> [] | Some a \<Rightarrow> loadActiveLinkRows st \<lparr>os_type = UserOwned, os_id = a\<rparr>)
      in case or_null teamId of
           None \<Rightarrow> (case author of None \<Rightarrow> [] | Some a \<Rightarrow> [(\<lparr>os_type = UserOwned, os_id = a\<rparr>, authorRows)])
         | Some t \<Rightarrow>
             let teamRows = loadActiveLinkRows st \<lparr>os_type = TeamOwned, os_id = t\<rparr>;
                 kept = map jr_termId (filter (\<lambda>r. \<not> author_conflicts nfc teamRows r) authorRows)
             in (\<lparr>os_type = TeamOwned, os_id = t\<rparr>, teamRows) #
                (case author of
                   None \<Rightarrow> []
                 | Some a \<Rightarrow> [(\<lparr>os_type = UserOwned, os_id = a\<rparr>,
                              filter (\<lambda>r. jr_termId r \<in> set kept) authorRows)]))"

section \<open>Freezing\<close>

definition hashContent :: "(string \<Rightarrow> string) \<Rightarrow> row_id list \<Rightarrow> string" where
  "hashContent sha termIds = sha (json_array (sort termIds))"

definition in_scope :: "owner_scope \<Rightarrow> string \<Rightarrow> string \<Rightarrow> vocab_snapshot_row \<Rightarrow> bool" where
  "in_scope scope domain locale s \<longleftrightarrow>
     s_ownerType s = os_type scope \<and> s_ownerId s = os_id scope \<and> s_domain s = domain \<and> s_locale s = locale"

definition nextSnapshotVersion :: "store \<Rightarrow> owner_scope \<Rightarrow> string \<Rightarrow> string \<Rightarrow> nat" where
  "nextSnapshotVersion st scope domain locale =
     foldr max (map s_version (select_where (in_scope scope domain locale) (snapshots_t st))) 0 + 1"

record snapshot_group =
  sg_scope :: owner_scope
  sg_domain :: string
  sg_locale :: string
  sg_vocab :: vocabulary
  sg_termIds :: "row_id list"

text \<open>The snapshot a group resolves to, and the store after it was counted.\<close>

definition upsertSnapshot :: "(string \<Rightarrow> string) \<Rightarrow> snapshot_group \<Rightarrow> row_id \<Rightarrow> store \<Rightarrow> row_id \<times> store" where
  "upsertSnapshot sha g newId st =
     (let contentHash = hashContent sha (sg_termIds g) in
      case find_first (\<lambda>s. in_scope (sg_scope g) (sg_domain g) (sg_locale g) s \<and> s_contentHash s = contentHash)
             (snapshots_t st) of
        Some existing \<Rightarrow>
          (s_id existing,
           st\<lparr>snapshots_t := update_where (\<lambda>s. s_id s = s_id existing)
                 (\<lambda>s. s\<lparr>s_refCount := s_refCount s + 1\<rparr>) (snapshots_t st)\<rparr>)
      | None \<Rightarrow>
          (newId,
           st\<lparr>snapshots_t := insert_row
                 \<lparr>s_id = newId, s_ownerType = os_type (sg_scope g), s_ownerId = os_id (sg_scope g),
                  s_domain = sg_domain g, s_locale = sg_locale g,
                  s_version = nextSnapshotVersion st (sg_scope g) (sg_domain g) (sg_locale g),
                  s_vocabularyJson = sg_vocab g, s_termIds = sg_termIds g, s_contentHash = contentHash,
                  s_refCount = 1, s_archivedAt = None\<rparr> (snapshots_t st)\<rparr>))"

text \<open>The groups of one source that the policy uses.\<close>

definition source_groups :: "uses_fn \<Rightarrow> policy_context \<Rightarrow> owner_scope \<times> joined_row list \<Rightarrow> snapshot_group list" where
  "source_groups uses policy source =
     filter (\<lambda>g. policyScopeMatcher uses policy (sg_vocab g))
       (map (\<lambda>(key, groupRows).
            \<lparr>sg_scope = fst source, sg_domain = nullish (fst (key_parts key)) [],
             sg_locale = nullish (snd (key_parts key)) [],
             sg_vocab = assembleDomainVocabularyFromLinks groupRows (fst (key_parts key)) (snd (key_parts key)),
             sg_termIds = map jr_termId groupRows\<rparr>)
          (groupTermRows (snd source)))"

definition frozenExecutionVocabulary :: "uses_fn \<Rightarrow> vocabulary list \<Rightarrow> policy_context \<Rightarrow> vocabulary option" where
  "frozenExecutionVocabulary uses vs policy =
     mergeVocabularies (selectVocabulariesForPolicy uses vs policy) None (Some (pc_locale policy))"

fun freeze_groups ::
  "(string \<Rightarrow> string) \<Rightarrow> (nat \<Rightarrow> row_id) \<Rightarrow> nat \<Rightarrow> snapshot_group list \<Rightarrow> store \<Rightarrow> snapshot_ref list \<times> store" where
  "freeze_groups sha fresh n [] st = ([], st)"
| "freeze_groups sha fresh n (g # gs) st =
     (let (sid, st1) = upsertSnapshot sha g (fresh n) st;
          (refs, st2) = freeze_groups sha fresh (n + 1) gs st1
      in (\<lparr>ref_snapshotId = sid, ref_domain = sg_domain g, ref_locale = sg_locale g\<rparr> # refs, st2))"

text \<open>\<open>None\<close> is the abort of the caller's check, before anything is written.\<close>

definition createSnapshotsForSources ::
  "(string \<Rightarrow> string) \<Rightarrow> uses_fn \<Rightarrow> (nat \<Rightarrow> row_id) \<Rightarrow> (owner_scope \<times> joined_row list) list \<Rightarrow> policy_context \<Rightarrow>
   (vocabulary option \<Rightarrow> bool) \<Rightarrow> store \<Rightarrow> (snapshot_ref list \<times> store) option" where
  "createSnapshotsForSources sha uses fresh sources policy verify st =
     (let selected = concat (map (source_groups uses policy) sources) in
      if \<not> verify (frozenExecutionVocabulary uses (map sg_vocab selected) policy) then None
      else Some (freeze_groups sha fresh 0 selected st))"

definition createSnapshotsForOwner ::
  "(string \<Rightarrow> string) \<Rightarrow> uses_fn \<Rightarrow> (nat \<Rightarrow> row_id) \<Rightarrow> owner_scope \<Rightarrow> policy_context \<Rightarrow>
   (vocabulary option \<Rightarrow> bool) \<Rightarrow> store \<Rightarrow> (snapshot_ref list \<times> store) option" where
  "createSnapshotsForOwner sha uses fresh scope policy verify st =
     createSnapshotsForSources sha uses fresh [(scope, loadActiveLinkRows st scope)] policy verify st"

definition resolvePolicyTeamId :: "store \<Rightarrow> team_id option option \<Rightarrow> policy_id option \<Rightarrow> team_id option" where
  "resolvePolicyTeamId st teamId policyId =
     (case teamId of
        Some t \<Rightarrow> or_null t
      | None \<Rightarrow>
          (case or_null policyId of
             None \<Rightarrow> None
           | Some pid \<Rightarrow> or_null (Option.bind (find_first (\<lambda>p. p_id p = pid) (policies_t st)) p_teamId)))"

definition freezeVocabularyForApproval ::
  "(string \<Rightarrow> string) \<Rightarrow> (string \<Rightarrow> string) \<Rightarrow> uses_fn \<Rightarrow> (nat \<Rightarrow> row_id) \<Rightarrow> user_id \<Rightarrow> policy_id \<Rightarrow> policy_context \<Rightarrow>
   (vocabulary option \<Rightarrow> bool) \<Rightarrow> store \<Rightarrow> (snapshot_ref list \<times> store) option" where
  "freezeVocabularyForApproval sha nfc uses fresh policyAuthorId policyId policy verify st =
     createSnapshotsForSources sha uses fresh
       (loadPolicyVocabularySources nfc st (Some policyAuthorId) (resolvePolicyTeamId st None (Some policyId)))
       policy verify st"

definition loadVocabularyForExecution ::
  "uses_fn \<Rightarrow> store \<Rightarrow> snapshot_ref list \<Rightarrow> policy_context \<Rightarrow> vocabulary option" where
  "loadVocabularyForExecution uses st refs policy =
     (if refs = [] then None
      else frozenExecutionVocabulary uses
        (map s_vocabularyJson (select_where (\<lambda>s. s_id s \<in> set (map ref_snapshotId refs)) (snapshots_t st))) policy)"

definition loadLiveVocabularyForPolicy ::
  "(string \<Rightarrow> string) \<Rightarrow> uses_fn \<Rightarrow> store \<Rightarrow> user_id option \<Rightarrow> policy_context \<Rightarrow> team_id option option \<Rightarrow> policy_id option \<Rightarrow>
   vocabulary option" where
  "loadLiveVocabularyForPolicy nfc uses st ownerId policy teamId policyId =
     resolvePolicyVocabularyFromRows uses
       (concat (map snd (loadPolicyVocabularySources nfc st ownerId (resolvePolicyTeamId st teamId policyId))))
       policy None"

section \<open>Counting and releasing references\<close>

definition ref_ids :: "snapshot_ref list list \<Rightarrow> row_id list" where
  "ref_ids refLists = filter (\<lambda>i. i \<noteq> []) (map ref_snapshotId (concat refLists))"

definition countSnapshotRefs :: "snapshot_ref list list \<Rightarrow> (row_id \<times> nat) list" where
  "countSnapshotRefs refLists =
     map (\<lambda>i. (i, count_list (ref_ids refLists) i)) (sort (dedup (ref_ids refLists)))"

definition lockPolicyForSnapshotRefs :: "store \<Rightarrow> policy_id \<Rightarrow> bool" where
  "lockPolicyForSnapshotRefs st policyId \<longleftrightarrow>
     (case find_first (\<lambda>p. p_id p = policyId) (policies_t st) of
        None \<Rightarrow> False
      | Some p \<Rightarrow> p_deletedAt p = None)"

record release_result =
  rr_released :: nat
  rr_underflows :: "(row_id \<times> nat option \<times> nat) list"

definition drop_refs :: "row_id \<Rightarrow> nat \<Rightarrow> vocab_snapshot_row table \<Rightarrow> vocab_snapshot_row table" where
  "drop_refs i cnt t = update_where (\<lambda>s. s_id s = i) (\<lambda>s. s\<lparr>s_refCount := s_refCount s - cnt\<rparr>) t"

fun release_counts ::
  "(row_id \<Rightarrow> nat option) \<Rightarrow> (row_id \<times> nat) list \<Rightarrow> vocab_snapshot_row table \<Rightarrow> release_result \<times> vocab_snapshot_row table" where
  "release_counts before [] t = (\<lparr>rr_released = 0, rr_underflows = []\<rparr>, t)"
| "release_counts before ((i, cnt) # cs) t =
     (let under = (case before i of
                     None \<Rightarrow> [(i, None, cnt)]
                   | Some n \<Rightarrow> if n < cnt then [(i, Some n, cnt)] else []);
          (r, t') = release_counts before cs (if before i = None then t else drop_refs i cnt t)
      in (\<lparr>rr_released = (if before i = None then 0 else 1) + rr_released r,
           rr_underflows = under @ rr_underflows r\<rparr>, t'))"

definition releaseSnapshotRefsForPolicy :: "policy_id \<Rightarrow> store \<Rightarrow> release_result \<times> store" where
  "releaseSnapshotRefsForPolicy policyId st =
     (let counts = countSnapshotRefs (map v_snapshotIds (select_where (\<lambda>v. v_policyId v = policyId) (versions_t st)));
          before = (\<lambda>i. map_option s_refCount (find_first (\<lambda>s. s_id s = i) (snapshots_t st)));
          (r, t) = release_counts before counts (snapshots_t st)
      in (r, st\<lparr>snapshots_t := t\<rparr>))"

definition reportSnapshotRelease :: "policy_id \<Rightarrow> release_result \<Rightarrow> store \<Rightarrow> store" where
  "reportSnapshotRelease policyId r st =
     (if rr_released r = 0 \<and> rr_underflows r = [] then st
      else emit (ReleaseReport policyId (rr_released r) (length (rr_underflows r))) st)"

definition auditVocabularyFreeze :: "user_id \<Rightarrow> row_id \<Rightarrow> snapshot_ref list \<Rightarrow> store \<Rightarrow> store" where
  "auditVocabularyFreeze author versionId refs st =
     (if refs = [] then st else emit (AuditVocabulary author ''created_on_publish'' versionId) st)"

section \<open>Rollback and diff\<close>

definition snapshot_of_user :: "store \<Rightarrow> user_id \<Rightarrow> row_id \<Rightarrow> vocab_snapshot_row option" where
  "snapshot_of_user st userId snapshotId =
     find_first (\<lambda>s. s_id s = snapshotId \<and> s_ownerType s = UserOwned \<and> s_ownerId s = userId) (snapshots_t st)"

definition user_scope_link :: "user_id \<Rightarrow> string \<Rightarrow> string \<Rightarrow> term_link_row \<Rightarrow> bool" where
  "user_scope_link userId domain locale l \<longleftrightarrow>
     ownerPredicate \<lparr>os_type = UserOwned, os_id = userId\<rparr> l \<and> ud_domain l = domain \<and> ud_locale l = locale"

definition active_terms :: "store \<Rightarrow> user_id \<Rightarrow> string \<Rightarrow> string \<Rightarrow> row_id list" where
  "active_terms st userId domain locale =
     map ud_termId (select_where (\<lambda>l. user_scope_link userId domain locale l \<and> active_link l) (links_t st))"

datatype vocabulary_error = snapshot_not_found | snapshot_archived

record rollback_result =
  rb_added :: nat
  rb_removed :: nat
  rb_unchanged :: nat
  rb_domain :: string
  rb_locale :: string

text \<open>Bringing back one term of the snapshot; the result says whether the code counts it as added.\<close>

definition reactivate_term ::
  "user_id \<Rightarrow> string \<Rightarrow> string \<Rightarrow> row_id \<Rightarrow> row_id \<Rightarrow> store \<Rightarrow> bool \<times> store" where
  "reactivate_term userId domain locale newId termId st =
     (case find_first (\<lambda>l. user_scope_link userId domain locale l \<and> ud_termId l = termId) (links_t st) of
        Some dormant \<Rightarrow>
          (True, st\<lparr>links_t := update_where (\<lambda>l. ud_id l = ud_id dormant)
                (\<lambda>l. l\<lparr>ud_deletedAt := None, ud_deletedBy := None, ud_deletedReason := None\<rparr>) (links_t st)\<rparr>)
      | None \<Rightarrow>
          (case find_first (\<lambda>t. dt_id t = termId) (terms_t st) of
             None \<Rightarrow> (False, st)
           | Some term \<Rightarrow>
               if dt_domain term \<noteq> domain \<or> dt_locale term \<noteq> locale then (False, st)
               else (True, st\<lparr>links_t := insert_row
                     \<lparr>ud_id = newId, ud_userId = userId, ud_termId = termId, ud_ownerType = UserOwned,
                      ud_teamId = None, ud_domain = dt_domain term, ud_locale = dt_locale term,
                      ud_kind = dt_kind term, ud_deletedAt = None, ud_deletedBy = None, ud_deletedReason = None,
                      ud_archivedAt = None, ud_archiveSnapshotId = None\<rparr> (links_t st)\<rparr>)))"

fun reactivate_terms ::
  "user_id \<Rightarrow> string \<Rightarrow> string \<Rightarrow> (nat \<Rightarrow> row_id) \<Rightarrow> nat \<Rightarrow> row_id list \<Rightarrow> store \<Rightarrow> nat \<times> store" where
  "reactivate_terms userId domain locale fresh n [] st = (0, st)"
| "reactivate_terms userId domain locale fresh n (t # ts) st =
     (let (added, st1) = reactivate_term userId domain locale (fresh n) t st;
          (k, st2) = reactivate_terms userId domain locale fresh (n + 1) ts st1
      in ((if added then 1 else 0) + k, st2))"

definition rollbackToSnapshot ::
  "user_id \<Rightarrow> row_id \<Rightarrow> date \<Rightarrow> (nat \<Rightarrow> row_id) \<Rightarrow> store \<Rightarrow> (vocabulary_error + rollback_result) \<times> store" where
  "rollbackToSnapshot userId snapshotId now fresh st =
     (case snapshot_of_user st userId snapshotId of
        None \<Rightarrow> (Inl snapshot_not_found, st)
      | Some snap \<Rightarrow>
          if s_archivedAt snap \<noteq> None then (Inl snapshot_archived, st)
          else
            let desired = dedup (s_termIds snap);
                current = active_terms st userId (s_domain snap) (s_locale snap);
                gone = (\<lambda>l. user_scope_link userId (s_domain snap) (s_locale snap) l \<and> active_link l \<and>
                            ud_termId l \<notin> set desired);
                st1 = st\<lparr>links_t := update_where gone
                  (\<lambda>l. l\<lparr>ud_deletedAt := Some now, ud_deletedBy := Some userId, ud_deletedReason := Some ''rollback''\<rparr>)
                  (links_t st)\<rparr>;
                (added, st2) = reactivate_terms userId (s_domain snap) (s_locale snap) fresh 0
                  (filter (\<lambda>t. t \<notin> set current) desired) st1
            in (Inr \<lparr>rb_added = added, rb_removed = length (filter (\<lambda>t. t \<notin> set desired) current),
                     rb_unchanged = length (filter (\<lambda>t. t \<in> set desired) current),
                     rb_domain = s_domain snap, rb_locale = s_locale snap\<rparr>,
                emit (AuditVocabulary userId ''rollback'' snapshotId) st2))"

record snapshot_diff =
  sd_currentTermIds :: "row_id list"
  sd_addedIds :: "row_id list"
  sd_removedIds :: "row_id list"
  sd_unchangedIds :: "row_id list"
  sd_terms :: "domain_term_row list"
  sd_removedTerms :: "domain_term_row list"

definition getSnapshotDiff :: "store \<Rightarrow> user_id \<Rightarrow> row_id \<Rightarrow> vocabulary_error + snapshot_diff" where
  "getSnapshotDiff st userId snapshotId =
     (case snapshot_of_user st userId snapshotId of
        None \<Rightarrow> Inl snapshot_not_found
      | Some snap \<Rightarrow>
          let current = active_terms st userId (s_domain snap) (s_locale snap);
              ids = s_termIds snap;
              removed = filter (\<lambda>t. t \<notin> set ids) current
          in Inr \<lparr>sd_currentTermIds = current,
                  sd_addedIds = filter (\<lambda>t. t \<notin> set current) ids,
                  sd_removedIds = removed,
                  sd_unchangedIds = filter (\<lambda>t. t \<in> set current) ids,
                  sd_terms = List.map_filter (\<lambda>i. find_first (\<lambda>t. dt_id t = i) (terms_t st)) ids,
                  sd_removedTerms = select_where (\<lambda>t. dt_id t \<in> set removed) (terms_t st)\<rparr>)"

definition SNAPSHOT_DEFAULT_PAGE_SIZE :: int where "SNAPSHOT_DEFAULT_PAGE_SIZE = 25"

definition SNAPSHOT_MAX_PAGE_SIZE :: int where "SNAPSHOT_MAX_PAGE_SIZE = 200"

text \<open>Page arguments; \<open>None\<close> is an absent or non-integer number.\<close>

definition normalizeSnapshotPage :: "int option \<Rightarrow> int" where
  "normalizeSnapshotPage page = (case page of Some p \<Rightarrow> if p > 0 then p else 1 | None \<Rightarrow> 1)"

definition normalizeSnapshotPageSize :: "int option \<Rightarrow> int" where
  "normalizeSnapshotPageSize pageSize =
     (case pageSize of
        None \<Rightarrow> SNAPSHOT_DEFAULT_PAGE_SIZE
      | Some n \<Rightarrow> if n \<le> 0 then SNAPSHOT_DEFAULT_PAGE_SIZE else min n SNAPSHOT_MAX_PAGE_SIZE)"

section \<open>Retention\<close>

text \<open>
  Archiving the active links of one user: one snapshot per (domain, locale) group, whose term ids are
  sorted before they are hashed, then the archive mark on the links. The result counts the archived
  links and the created snapshots.
\<close>

definition archive_group :: "user_id \<Rightarrow> string \<Rightarrow> joined_row list \<Rightarrow> snapshot_group" where
  "archive_group userId key groupRows =
     \<lparr>sg_scope = \<lparr>os_type = UserOwned, os_id = userId\<rparr>,
      sg_domain = nullish (fst (key_parts key)) [], sg_locale = nullish (snd (key_parts key)) [],
      sg_vocab = assembleDomainVocabularyFromLinks groupRows (fst (key_parts key)) (snd (key_parts key)),
      sg_termIds = sort (map jr_termId groupRows)\<rparr>"

fun archive_groups ::
  "(string \<Rightarrow> string) \<Rightarrow> (nat \<Rightarrow> row_id) \<Rightarrow> nat \<Rightarrow> user_id \<Rightarrow> (string \<times> (row_id \<times> joined_row) list) list \<Rightarrow>
   store \<Rightarrow> (row_id \<times> row_id) list \<times> store" where
  "archive_groups sha fresh n userId [] st = ([], st)"
| "archive_groups sha fresh n userId ((key, rows) # gs) st =
     (let (sid, st1) = upsertSnapshot sha (archive_group userId key (map snd rows)) (fresh n) st;
          (marks, st2) = archive_groups sha fresh (n + 1) userId gs st1
      in (map (\<lambda>(linkId, _). (linkId, sid)) rows @ marks, st2))"

definition archiveLinksForUser ::
  "(string \<Rightarrow> string) \<Rightarrow> (nat \<Rightarrow> row_id) \<Rightarrow> user_id \<Rightarrow> date \<Rightarrow> store \<Rightarrow> (nat \<times> nat) \<times> store" where
  "archiveLinksForUser sha fresh userId now st =
     (let joined = sort_key fst (List.map_filter (\<lambda>l. map_option (Pair (ud_id l)) (join_term st l))
            (select_where (\<lambda>l. ownerPredicate \<lparr>os_type = UserOwned, os_id = userId\<rparr> l \<and> active_link l) (links_t st)));
          (marks, st1) = archive_groups sha fresh 0 userId (group_rows (term_key \<circ> snd) joined) st
      in ((count_where (\<lambda>l. ud_id l \<in> set (map fst marks)) (links_t st),
           length (snapshots_t st1) - length (snapshots_t st)),
          st1\<lparr>links_t := update_where (\<lambda>l. ud_id l \<in> set (map fst marks))
                (\<lambda>l. l\<lparr>ud_archivedAt := Some now, ud_archiveSnapshotId := map_of marks (ud_id l)\<rparr>) (links_t st1)\<rparr>))"

text \<open>The two vocabulary tables of the purge; the bulk-job tables are not modelled.\<close>

definition purgeUserVocabulary :: "user_id \<Rightarrow> store \<Rightarrow> nat \<times> store" where
  "purgeUserVocabulary userId st =
     (count_where (\<lambda>s. s_ownerType s = UserOwned \<and> s_ownerId s = userId) (snapshots_t st),
      emit (AuditVocabulary userId ''dsar_purge'' [])
        (st\<lparr>links_t := delete_where (\<lambda>l. ud_userId l = userId) (links_t st),
            snapshots_t := delete_where (\<lambda>s. s_ownerType s = UserOwned \<and> s_ownerId s = userId) (snapshots_t st)\<rparr>))"

end
