(* ===== verification/SnapshotFacts.thy ===== *)
theory SnapshotFacts
  imports Snapshots
begin

text \<open>
  Facts on vocabulary snapshots: reference counting as a contract (a locale, interpreted on the
  snapshot table), what freezing and releasing do to the counts and to the unique indexes of the
  table, and what a rollback does to the active terms.
\<close>

section \<open>Reference counting\<close>

locale counted_refs =
  fixes count :: "'st \<Rightarrow> 'id \<Rightarrow> nat"
    and has :: "'st \<Rightarrow> 'id \<Rightarrow> bool"
    and take_ref :: "'id \<Rightarrow> 'st \<Rightarrow> 'st"
    and drop_n :: "'id \<Rightarrow> nat \<Rightarrow> 'st \<Rightarrow> 'st"
  assumes take_count: "has st i \<Longrightarrow> count (take_ref i st) j = count st j + (if j = i then 1 else 0)"
    and drop_count: "count (drop_n i n st) j = count st j - (if j = i then n else 0)"
    and has_take: "has (take_ref i st) j = has st j"
begin

lemma take_list:
  "\<forall>i \<in> set is. has st i \<Longrightarrow> count (fold take_ref is st) j = count st j + count_list is j"
  by (induction "is" arbitrary: st) (auto simp: take_count has_take)

lemma drop_list:
  assumes "distinct (map fst cs)"
  shows "count (fold (\<lambda>(i, n). drop_n i n) cs st) j =
    count st j - (case map_of cs j of None \<Rightarrow> 0 | Some n \<Rightarrow> n)"
  using assms
proof (induction cs arbitrary: st)
  case (Cons c cs)
  have "map_of cs (fst c) = None" using Cons.prems by (simp add: map_of_eq_None_iff)
  then show ?case using Cons by (cases c) (auto simp: drop_count)
qed simp

text \<open>Releasing exactly what was taken restores every count.\<close>

lemma take_drop_balance:
  assumes "\<forall>i \<in> set is. has st i" "distinct (map fst cs)"
    "\<And>j. (case map_of cs j of None \<Rightarrow> 0 | Some n \<Rightarrow> n) = count_list is j"
  shows "count (fold (\<lambda>(i, n). drop_n i n) cs (fold take_ref is st)) j = count st j"
  using take_list [OF assms(1)] by (simp add: drop_list [OF assms(2)] assms(3))

end

definition ref_count :: "vocab_snapshot_row table \<Rightarrow> row_id \<Rightarrow> nat" where
  "ref_count t i = (case find_first (\<lambda>s. s_id s = i) t of None \<Rightarrow> 0 | Some s \<Rightarrow> s_refCount s)"

definition has_snapshot :: "vocab_snapshot_row table \<Rightarrow> row_id \<Rightarrow> bool" where
  "has_snapshot t i \<longleftrightarrow> i \<in> s_id ` set t"

definition take_ref :: "row_id \<Rightarrow> vocab_snapshot_row table \<Rightarrow> vocab_snapshot_row table" where
  "take_ref i t = update_where (\<lambda>s. s_id s = i) (\<lambda>s. s\<lparr>s_refCount := s_refCount s + 1\<rparr>) t"

lemma map_id_update_where:
  "(\<And>r. p r \<Longrightarrow> k (f r) = k r) \<Longrightarrow> map k (update_where p f t) = map k t"
  by (auto simp: update_where_def)

lemma has_snapshot_find: "has_snapshot t i \<longleftrightarrow> find_first (\<lambda>s. s_id s = i) t \<noteq> None"
  by (auto simp: has_snapshot_def find_first_None)

lemma ref_count_update:
  assumes "\<And>s. s_id (f s) = s_id s"
  shows "ref_count (update_where (\<lambda>s. s_id s = i) f t) j =
    (case find_first (\<lambda>s. s_id s = j) t of None \<Rightarrow> 0 | Some s \<Rightarrow> s_refCount (if j = i then f s else s))"
  using assms by (auto simp: ref_count_def find_first_update_where dest: find_first_Some split: option.splits)

interpretation refs: counted_refs ref_count has_snapshot take_ref drop_refs
proof unfold_locales
  fix t i j
  assume "has_snapshot t i"
  moreover have "ref_count (take_ref i t) j = (case find_first (\<lambda>s. s_id s = j) t of None \<Rightarrow> 0
      | Some s \<Rightarrow> s_refCount (if j = i then s\<lparr>s_refCount := s_refCount s + 1\<rparr> else s))"
    unfolding take_ref_def by (rule ref_count_update) simp
  ultimately show "ref_count (take_ref i t) j = ref_count t j + (if j = i then 1 else 0)"
    by (auto simp: ref_count_def has_snapshot_find split: option.splits)
next
  fix i n t j
  have "ref_count (drop_refs i n t) j = (case find_first (\<lambda>s. s_id s = j) t of None \<Rightarrow> 0
      | Some s \<Rightarrow> s_refCount (if j = i then s\<lparr>s_refCount := s_refCount s - n\<rparr> else s))"
    unfolding drop_refs_def by (rule ref_count_update) simp
  then show "ref_count (drop_refs i n t) j = ref_count t j - (if j = i then n else 0)"
    by (auto simp: ref_count_def split: option.splits)
next
  fix i t j
  have "map s_id (take_ref i t) = map s_id t"
    by (simp add: take_ref_def map_id_update_where)
  then show "has_snapshot (take_ref i t) j = has_snapshot t j"
    unfolding has_snapshot_def by (metis list.set_map)
qed

section \<open>Counting\<close>

lemma distinct_countSnapshotRefs: "distinct (map fst (countSnapshotRefs ls))"
  by (simp add: countSnapshotRefs_def comp_def)

lemma map_of_countSnapshotRefs:
  "(case map_of (countSnapshotRefs ls) j of None \<Rightarrow> 0 | Some n \<Rightarrow> n) = count_list (ref_ids ls) j"
proof -
  have m: "map_of (map (\<lambda>i. (i, f i)) xs) j = (if j \<in> set xs then Some (f j) else None)" for f :: "row_id \<Rightarrow> nat" and xs
    by (induction xs) auto
  show ?thesis by (simp add: countSnapshotRefs_def m count_list_0_iff)
qed

lemma release_counts_table:
  assumes "\<And>i. before i = map_option s_refCount (find_first (\<lambda>s. s_id s = i) t0)"
    "map s_id t = map s_id t0"
  shows "snd (release_counts before cs t) = fold (\<lambda>(i, n). drop_refs i n) cs t \<and>
    map s_id (snd (release_counts before cs t)) = map s_id t0"
  using assms(2)
proof (induction cs arbitrary: t)
  case (Cons c cs)
  obtain i n where c: "c = (i, n)" by (cases c)
  have same: "map s_id (drop_refs i n t) = map s_id t0"
    using Cons.prems by (simp add: drop_refs_def map_id_update_where)
  have none: "drop_refs i n t = t" if "before i = None"
  proof -
    have "i \<notin> s_id ` set t0" using that assms(1) by (auto simp: find_first_None)
    then have "i \<notin> s_id ` set t" using Cons.prems by (metis list.set_map)
    then show ?thesis by (auto simp: drop_refs_def intro!: update_where_none)
  qed
  show ?case
    using Cons.IH [OF same] Cons.IH [OF Cons.prems] none by (auto simp: c Let_def split_beta)
qed simp

lemma release_counts_underflows:
  "rr_underflows (fst (release_counts before cs t)) = [] \<longleftrightarrow>
     (\<forall>(i, n) \<in> set cs. \<exists>k. before i = Some k \<and> n \<le> k)"
proof (induction cs arbitrary: t)
  case (Cons c cs)
  obtain i n where c: "c = (i, n)" by (cases c)
  show ?case
    by (cases "before i") (auto simp: c Let_def split_beta Cons.IH)
qed simp

text \<open>The references the versions of one policy hold on a snapshot.\<close>

definition policy_refs :: "store \<Rightarrow> policy_id \<Rightarrow> row_id \<Rightarrow> nat" where
  "policy_refs st pid i =
     count_list (ref_ids (map v_snapshotIds (select_where (\<lambda>v. v_policyId v = pid) (versions_t st)))) i"

lemma release_effect:
  assumes "releaseSnapshotRefsForPolicy pid st = (r, st')"
  shows "ref_count (snapshots_t st') i = ref_count (snapshots_t st) i - policy_refs st pid i \<and>
    map s_id (snapshots_t st') = map s_id (snapshots_t st) \<and>
    st' = st\<lparr>snapshots_t := snapshots_t st'\<rparr> \<and>
    (rr_underflows r = [] \<longleftrightarrow>
       (\<forall>j. policy_refs st pid j \<noteq> 0 \<longrightarrow> has_snapshot (snapshots_t st) j \<and> policy_refs st pid j \<le> ref_count (snapshots_t st) j))"
proof -
  let ?refs = "map v_snapshotIds (select_where (\<lambda>v. v_policyId v = pid) (versions_t st))"
  let ?before = "\<lambda>i. map_option s_refCount (find_first (\<lambda>s. s_id s = i) (snapshots_t st))"
  let ?run = "release_counts ?before (countSnapshotRefs ?refs) (snapshots_t st)"
  have st': "st' = st\<lparr>snapshots_t := snd ?run\<rparr>" and r: "r = fst ?run"
    using assms by (auto simp: releaseSnapshotRefsForPolicy_def Let_def split: prod.splits)
  have t: "snd ?run = fold (\<lambda>(i, n). drop_refs i n) (countSnapshotRefs ?refs) (snapshots_t st)"
    "map s_id (snd ?run) = map s_id (snapshots_t st)"
    using release_counts_table [of ?before "snapshots_t st" "snapshots_t st" "countSnapshotRefs ?refs"]
    by (auto simp del: map_map)
  have c: "(\<forall>(i, n) \<in> set (countSnapshotRefs ?refs). P i n) \<longleftrightarrow> (\<forall>j. policy_refs st pid j \<noteq> 0 \<longrightarrow> P j (policy_refs st pid j))"
    for P
    by (auto simp: countSnapshotRefs_def policy_refs_def count_list_0_iff)
  have u: "rr_underflows r = [] \<longleftrightarrow>
      (\<forall>j. policy_refs st pid j \<noteq> 0 \<longrightarrow> (\<exists>k. ?before j = Some k \<and> policy_refs st pid j \<le> k))"
    unfolding r release_counts_underflows c by (rule refl)
  have k: "(\<exists>k. ?before j = Some k \<and> n \<le> k) \<longleftrightarrow> has_snapshot (snapshots_t st) j \<and> n \<le> ref_count (snapshots_t st) j" for j n
    by (auto simp: has_snapshot_find ref_count_def split: option.splits)
  show ?thesis
    using refs.drop_list [OF distinct_countSnapshotRefs, of ?refs "snapshots_t st" i] t u
    unfolding k by (simp add: st' map_of_countSnapshotRefs policy_refs_def)
qed

section \<open>Freezing\<close>

definition snapshot_ids :: "store \<Rightarrow> row_id set" where
  "snapshot_ids st = s_id ` set (snapshots_t st)"

definition fresh_supply :: "(nat \<Rightarrow> row_id) \<Rightarrow> store \<Rightarrow> bool" where
  "fresh_supply fresh st \<longleftrightarrow> inj fresh \<and> (\<forall>k. fresh k \<noteq> [] \<and> fresh k \<notin> snapshot_ids st)"

definition owner_hash_key :: "vocab_snapshot_row \<Rightarrow> owner_type \<times> string \<times> string \<times> string \<times> string" where
  "owner_hash_key s = (s_ownerType s, s_ownerId s, s_domain s, s_locale s, s_contentHash s)"

definition owner_version_key :: "vocab_snapshot_row \<Rightarrow> owner_type \<times> string \<times> string \<times> string \<times> nat" where
  "owner_version_key s = (s_ownerType s, s_ownerId s, s_domain s, s_locale s, s_version s)"

text \<open>The primary key and the two unique indexes of the snapshot table; ids are not empty.\<close>

definition snapshot_keys_ok :: "store \<Rightarrow> bool" where
  "snapshot_keys_ok st \<longleftrightarrow>
     unique_key s_id (snapshots_t st) \<and> unique_key owner_hash_key (snapshots_t st) \<and>
     unique_key owner_version_key (snapshots_t st) \<and> [] \<notin> snapshot_ids st"

text \<open>Releasing references changes no key.\<close>

lemma release_counts_map:
  assumes "\<And>i n t. map k (drop_refs i n t) = map k t"
  shows "map k (snd (release_counts before cs t)) = map k t"
  using assms by (induction cs arbitrary: t) (auto simp: Let_def split_beta)

lemma release_keys:
  assumes "releaseSnapshotRefsForPolicy pid st = (r, st')"
  shows "map owner_hash_key (snapshots_t st') = map owner_hash_key (snapshots_t st) \<and>
    map owner_version_key (snapshots_t st') = map owner_version_key (snapshots_t st)"
proof -
  obtain before cs where t: "snapshots_t st' = snd (release_counts before cs (snapshots_t st))"
    using assms by (auto simp: releaseSnapshotRefsForPolicy_def Let_def split_beta)
  have "map owner_hash_key (drop_refs i n q) = map owner_hash_key q"
    "map owner_version_key (drop_refs i n q) = map owner_version_key q" for i n q
    unfolding drop_refs_def by (rule map_id_update_where; simp add: owner_hash_key_def owner_version_key_def)+
  then show ?thesis unfolding t by (intro conjI release_counts_map)
qed

lemma nextSnapshotVersion_above:
  assumes "s \<in> set (snapshots_t st)" "in_scope scope d l s"
  shows "s_version s < nextSnapshotVersion st scope d l"
proof -
  have "x \<le> foldr max xs 0" if "x \<in> set xs" for x :: nat and xs
    using that by (induction xs) auto
  then have "s_version s \<le> foldr max (map s_version (select_where (in_scope scope d l) (snapshots_t st))) 0"
    using assms by simp
  then show ?thesis by (simp add: nextSnapshotVersion_def)
qed

text \<open>
  Every group resolves to a snapshot of its own scope and content; the store changes in the snapshot
  table only, where one row is counted or one is added.
\<close>

lemma upsertSnapshot_effect:
  assumes "upsertSnapshot sha g newId st = (sid, st')" "snapshot_keys_ok st"
    "newId \<noteq> []" "newId \<notin> snapshot_ids st"
  shows "snapshot_keys_ok st' \<and> st' = st\<lparr>snapshots_t := snapshots_t st'\<rparr> \<and>
    (\<forall>j. ref_count (snapshots_t st') j = ref_count (snapshots_t st) j + (if j = sid then 1 else 0)) \<and>
    snapshot_ids st' = insert sid (snapshot_ids st) \<and> sid \<in> insert newId (snapshot_ids st) \<and> sid \<noteq> [] \<and>
    (\<exists>s \<in> set (snapshots_t st'). s_id s = sid \<and> in_scope (sg_scope g) (sg_domain g) (sg_locale g) s \<and>
       s_contentHash s = hashContent sha (sg_termIds g))"
proof (cases "find_first (\<lambda>s. in_scope (sg_scope g) (sg_domain g) (sg_locale g) s \<and>
    s_contentHash s = hashContent sha (sg_termIds g)) (snapshots_t st)")
  case None
  let ?row = "\<lparr>s_id = newId, s_ownerType = os_type (sg_scope g), s_ownerId = os_id (sg_scope g),
      s_domain = sg_domain g, s_locale = sg_locale g,
      s_version = nextSnapshotVersion st (sg_scope g) (sg_domain g) (sg_locale g),
      s_vocabularyJson = sg_vocab g, s_termIds = sg_termIds g, s_contentHash = hashContent sha (sg_termIds g),
      s_refCount = 1, s_archivedAt = None\<rparr>"
  have run: "sid = newId" "st' = st\<lparr>snapshots_t := insert_row ?row (snapshots_t st)\<rparr>"
    using assms(1) None by (auto simp: upsertSnapshot_def Let_def)
  have "owner_hash_key ?row \<notin> owner_hash_key ` set (snapshots_t st)"
    using None by (auto simp: find_first_None owner_hash_key_def in_scope_def)
  moreover have "owner_version_key ?row \<notin> owner_version_key ` set (snapshots_t st)"
    using nextSnapshotVersion_above [of _ st "sg_scope g" "sg_domain g" "sg_locale g"]
    by (fastforce simp: owner_version_key_def in_scope_def)
  ultimately have keys: "snapshot_keys_ok st'"
    using assms(2-4) run by (auto simp: snapshot_keys_ok_def snapshot_ids_def intro!: unique_key_insert_row)
  have no: "find_first (\<lambda>s. s_id s = newId) (snapshots_t st) = None"
    using assms(4) by (auto simp: find_first_None snapshot_ids_def)
  have "ref_count (snapshots_t st') j = ref_count (snapshots_t st) j + (if j = sid then 1 else 0)" for j
    using no find_first_insert_new [OF no, of ?row]
    by (cases "j = newId") (simp_all add: run ref_count_def find_first_insert_other)
  then show ?thesis
    using keys run assms(3) by (auto simp: snapshot_ids_def in_scope_def)
next
  case (Some e)
  then have e: "e \<in> set (snapshots_t st)" "in_scope (sg_scope g) (sg_domain g) (sg_locale g) e"
    "s_contentHash e = hashContent sha (sg_termIds g)"
    using find_first_Some by fastforce+
  have run: "sid = s_id e" "snapshots_t st' = take_ref (s_id e) (snapshots_t st)"
    "st' = st\<lparr>snapshots_t := take_ref (s_id e) (snapshots_t st)\<rparr>"
    using assms(1) Some by (auto simp: upsertSnapshot_def take_ref_def Let_def)
  have maps: "map s_id (snapshots_t st') = map s_id (snapshots_t st)"
    "map owner_hash_key (snapshots_t st') = map owner_hash_key (snapshots_t st)"
    "map owner_version_key (snapshots_t st') = map owner_version_key (snapshots_t st)"
    unfolding run(2) take_ref_def
    by (rule map_id_update_where; simp add: owner_hash_key_def owner_version_key_def)+
  have ids: "snapshot_ids st' = snapshot_ids st"
    using maps(1) unfolding snapshot_ids_def by (metis list.set_map)
  have keys: "snapshot_keys_ok st'"
    using assms(2) ids maps unfolding snapshot_keys_ok_def unique_key_def by simp
  have here: "has_snapshot (snapshots_t st) (s_id e)" using e(1) by (simp add: has_snapshot_def)
  have "\<exists>s \<in> set (snapshots_t st'). s_id s = sid \<and> in_scope (sg_scope g) (sg_domain g) (sg_locale g) s \<and>
       s_contentHash s = hashContent sha (sg_termIds g)"
    using e by (intro bexI [of _ "e\<lparr>s_refCount := s_refCount e + 1\<rparr>"])
      (auto simp: run(1,2) take_ref_def in_update_where in_scope_def)
  moreover have "sid \<in> snapshot_ids st" using e(1) run(1) by (simp add: snapshot_ids_def)
  ultimately show ?thesis
    using keys ids run refs.take_count [OF here] assms(2) by (auto simp: snapshot_keys_ok_def)
qed

lemma freeze_groups_effect:
  assumes "freeze_groups sha fresh n gs st = (rs, st')" "snapshot_keys_ok st"
    "inj fresh" "\<forall>k \<ge> n. fresh k \<noteq> [] \<and> fresh k \<notin> snapshot_ids st"
  shows "snapshot_keys_ok st' \<and> st' = st\<lparr>snapshots_t := snapshots_t st'\<rparr> \<and>
    (\<forall>j. ref_count (snapshots_t st') j = ref_count (snapshots_t st) j + count_list (map ref_snapshotId rs) j) \<and>
    snapshot_ids st' = snapshot_ids st \<union> set (map ref_snapshotId rs) \<and> [] \<notin> set (map ref_snapshotId rs) \<and>
    length rs = length gs"
  using assms
proof (induction gs arbitrary: n rs st)
  case (Cons g gs)
  obtain sid st1 where one: "upsertSnapshot sha g (fresh n) st = (sid, st1)"
    by (cases "upsertSnapshot sha g (fresh n) st")
  obtain rs2 where rest: "freeze_groups sha fresh (n + 1) gs st1 = (rs2, st')"
    and rs: "rs = \<lparr>ref_snapshotId = sid, ref_domain = sg_domain g, ref_locale = sg_locale g\<rparr> # rs2"
    using Cons.prems(1) one by (auto split: prod.splits)
  have e: "snapshot_keys_ok st1" "st1 = st\<lparr>snapshots_t := snapshots_t st1\<rparr>"
    "\<forall>j. ref_count (snapshots_t st1) j = ref_count (snapshots_t st) j + (if j = sid then 1 else 0)"
    "snapshot_ids st1 = insert sid (snapshot_ids st)" "sid \<in> insert (fresh n) (snapshot_ids st)" "sid \<noteq> []"
    using upsertSnapshot_effect [OF one Cons.prems(2)] Cons.prems(4) by auto
  have "fresh k \<notin> snapshot_ids st1" if "k \<ge> n + 1" for k
    using that e(4,5) Cons.prems(3,4) by (auto dest: injD)
  then have "\<forall>k \<ge> n + 1. fresh k \<noteq> [] \<and> fresh k \<notin> snapshot_ids st1"
    using Cons.prems(4) by auto
  note ih = Cons.IH [OF rest e(1) Cons.prems(3) this]
  obtain t1 where t1: "st1 = st\<lparr>snapshots_t := t1\<rparr>" using e(2) by blast
  have "st' = st1\<lparr>snapshots_t := snapshots_t st'\<rparr>" using ih by blast
  also have "\<dots> = st\<lparr>snapshots_t := snapshots_t st'\<rparr>" by (simp add: t1)
  finally have upd: "st' = st\<lparr>snapshots_t := snapshots_t st'\<rparr>" .
  show ?case
    using ih e(3-6) upd by (auto simp: rs)
qed simp


lemma freeze_effect:
  assumes "freezeVocabularyForApproval sha nfc uses fresh author pid policy verify st = Some (rs, st')"
    "snapshot_keys_ok st" "fresh_supply fresh st"
  shows "snapshot_keys_ok st' \<and> st' = st\<lparr>snapshots_t := snapshots_t st'\<rparr> \<and>
    (\<forall>j. ref_count (snapshots_t st') j = ref_count (snapshots_t st) j + count_list (map ref_snapshotId rs) j) \<and>
    snapshot_ids st' = snapshot_ids st \<union> set (map ref_snapshotId rs) \<and> [] \<notin> set (map ref_snapshotId rs)"
proof -
  obtain gs where "freeze_groups sha fresh 0 gs st = (rs, st')"
    using assms(1)
    by (auto simp: freezeVocabularyForApproval_def createSnapshotsForSources_def Let_def split: if_splits)
  from freeze_groups_effect [OF this assms(2)] assms(3) show ?thesis
    by (auto simp: fresh_supply_def)
qed

section \<open>Rollback\<close>

text \<open>The terms of the user that have a link in the scope, and those a rollback can bring back.\<close>

definition linked_terms :: "store \<Rightarrow> user_id \<Rightarrow> string \<Rightarrow> string \<Rightarrow> row_id set" where
  "linked_terms st u d lc = ud_termId ` {l \<in> set (links_t st). user_scope_link u d lc l}"

definition known_term :: "store \<Rightarrow> string \<Rightarrow> string \<Rightarrow> row_id \<Rightarrow> bool" where
  "known_term st d lc t \<longleftrightarrow>
     (case find_first (\<lambda>r. dt_id r = t) (terms_t st) of
        None \<Rightarrow> False | Some r \<Rightarrow> dt_domain r = d \<and> dt_locale r = lc)"

definition recoverable :: "store \<Rightarrow> user_id \<Rightarrow> string \<Rightarrow> string \<Rightarrow> row_id \<Rightarrow> bool" where
  "recoverable st u d lc t \<longleftrightarrow> t \<in> linked_terms st u d lc \<or> known_term st d lc t"

definition unarchived_scope :: "store \<Rightarrow> user_id \<Rightarrow> string \<Rightarrow> string \<Rightarrow> bool" where
  "unarchived_scope st u d lc \<longleftrightarrow>
     (\<forall>l \<in> set (links_t st). user_scope_link u d lc l \<longrightarrow> ud_archivedAt l = None)"

definition link_ids :: "store \<Rightarrow> row_id set" where
  "link_ids st = ud_id ` set (links_t st)"

lemma set_active_terms:
  "set (active_terms st u d lc) = ud_termId ` {l \<in> set (links_t st). user_scope_link u d lc l \<and> active_link l}"
  by (auto simp: active_terms_def)

lemma user_scope_link_undelete [simp]:
  "user_scope_link u d lc (l\<lparr>ud_deletedAt := a, ud_deletedBy := b, ud_deletedReason := c\<rparr>) = user_scope_link u d lc l"
  by (simp add: user_scope_link_def ownerPredicate_def)

text \<open>A link with the same owner, scope and term is dormant: it is undeleted.\<close>

lemma undelete_link_effect:
  fixes f :: "term_link_row \<Rightarrow> term_link_row"
  defines "f \<equiv> \<lambda>l. l\<lparr>ud_deletedAt := None, ud_deletedBy := None, ud_deletedReason := None\<rparr>"
  assumes x: "x \<in> set (links_t st)" "user_scope_link u d lc x" and uniq: "unique_key ud_id (links_t st)"
    and unarch: "unarchived_scope st u d lc"
    and st': "st' = st\<lparr>links_t := update_where (\<lambda>l. ud_id l = ud_id x) f (links_t st)\<rparr>"
  shows "unique_key ud_id (links_t st')" "unarchived_scope st' u d lc" "link_ids st' = link_ids st"
    "set (active_terms st' u d lc) = insert (ud_termId x) (set (active_terms st u d lc))"
    "linked_terms st' u d lc = linked_terms st u d lc"
    "filter (\<lambda>l. \<not> user_scope_link u d lc l) (links_t st') = filter (\<lambda>l. \<not> user_scope_link u d lc l) (links_t st)"
proof -
  have links: "set (links_t st') = insert (f x) (set (links_t st) - {x})"
    using set_update_key [OF uniq x(1), of f] by (simp add: st')
  have f: "ud_id (f l) = ud_id l" "ud_termId (f l) = ud_termId l" "ud_archivedAt (f l) = ud_archivedAt l"
    "user_scope_link u d lc (f l) = user_scope_link u d lc l" for l
    by (simp_all add: f_def)
  have act: "active_link (f x)"
    using unarch x by (simp add: active_link_def unarchived_scope_def f_def)
  show "unique_key ud_id (links_t st')"
    using uniq by (auto simp: st' f intro!: unique_key_update_where)
  show "unarchived_scope st' u d lc"
    using unarch x unfolding unarchived_scope_def links by (simp add: f)
  have "{l \<in> insert (f x) (set (links_t st) - {x}). P l} = insert (f x) ({l \<in> set (links_t st). P l} - {x})"
    if "P (f x)" for P
    using that by blast
  note pick = this [folded links]
  have drop: "insert (k x) (k ` (A - {x})) = insert (k x) (k ` A)" for k :: "term_link_row \<Rightarrow> row_id" and A
    by blast
  have "set (map ud_id (links_t st')) = set (map ud_id (links_t st))"
    by (simp add: st' map_id_update_where f)
  then show "link_ids st' = link_ids st" by (simp add: link_ids_def)
  have "set (active_terms st' u d lc) =
      ud_termId ` insert (f x) ({l \<in> set (links_t st). user_scope_link u d lc l \<and> active_link l} - {x})"
    unfolding set_active_terms by (subst pick) (simp_all add: f x act)
  then show "set (active_terms st' u d lc) = insert (ud_termId x) (set (active_terms st u d lc))"
    by (simp only: image_insert f drop set_active_terms)
  have "linked_terms st' u d lc = ud_termId ` insert (f x) ({l \<in> set (links_t st). user_scope_link u d lc l} - {x})"
    unfolding linked_terms_def by (subst pick) (simp_all add: f x)
  then have "linked_terms st' u d lc = insert (ud_termId x) (linked_terms st u d lc)"
    by (simp only: image_insert f drop linked_terms_def)
  then show "linked_terms st' u d lc = linked_terms st u d lc"
    using x by (auto simp: linked_terms_def)
  have only: "\<And>l. l \<in> set (links_t st) \<Longrightarrow> ud_id l = ud_id x \<Longrightarrow> user_scope_link u d lc l"
    using unique_key_eq [OF uniq _ x(1)] x(2) by metis
  have "filter (\<lambda>l. \<not> user_scope_link u d lc l) (update_where (\<lambda>l. ud_id l = ud_id x) f ls) =
      filter (\<lambda>l. \<not> user_scope_link u d lc l) ls" if "set ls \<subseteq> set (links_t st)" for ls
    using that by (induction ls) (auto simp: f only)
  then show "filter (\<lambda>l. \<not> user_scope_link u d lc l) (links_t st') = filter (\<lambda>l. \<not> user_scope_link u d lc l) (links_t st)"
    by (simp add: st')
qed

text \<open>There is no link: one is added.\<close>

lemma add_link_effect:
  assumes row: "user_scope_link u d lc row" "active_link row"
    and uniq: "unique_key ud_id (links_t st)" and new: "ud_id row \<notin> link_ids st"
    and unarch: "unarchived_scope st u d lc"
    and st': "st' = st\<lparr>links_t := insert_row row (links_t st)\<rparr>"
  shows "unique_key ud_id (links_t st')" "unarchived_scope st' u d lc" "link_ids st' = insert (ud_id row) (link_ids st)"
    "set (active_terms st' u d lc) = insert (ud_termId row) (set (active_terms st u d lc))"
    "linked_terms st' u d lc = insert (ud_termId row) (linked_terms st u d lc)"
    "filter (\<lambda>l. \<not> user_scope_link u d lc l) (links_t st') = filter (\<lambda>l. \<not> user_scope_link u d lc l) (links_t st)"
proof -
  have links: "set (links_t st') = insert row (set (links_t st))" by (simp add: st')
  show "unique_key ud_id (links_t st')"
    using uniq new by (auto simp: st' link_ids_def intro!: unique_key_insert_row)
  show "unarchived_scope st' u d lc"
    using unarch row unfolding unarchived_scope_def links by (simp add: active_link_def)
  show "link_ids st' = insert (ud_id row) (link_ids st)"
    by (simp add: link_ids_def links)
  have "{l \<in> insert row (set (links_t st)). P l} = insert row {l \<in> set (links_t st). P l}" if "P row" for P
    using that by blast
  note pick = this [folded links]
  show "set (active_terms st' u d lc) = insert (ud_termId row) (set (active_terms st u d lc))"
    unfolding set_active_terms by (subst pick) (simp_all add: row)
  show "linked_terms st' u d lc = insert (ud_termId row) (linked_terms st u d lc)"
    unfolding linked_terms_def by (subst pick) (simp_all add: row)
  show "filter (\<lambda>l. \<not> user_scope_link u d lc l) (links_t st') = filter (\<lambda>l. \<not> user_scope_link u d lc l) (links_t st)"
    using row by (simp add: st' insert_row_def)
qed

lemma reactivate_term_effect:
  assumes run: "reactivate_term u d lc newId t st = (b, st')" and uniq: "unique_key ud_id (links_t st)"
    and new: "newId \<notin> link_ids st" and unarch: "unarchived_scope st u d lc"
  shows "unique_key ud_id (links_t st') \<and> unarchived_scope st' u d lc \<and> link_ids st' \<subseteq> insert newId (link_ids st) \<and>
    b = recoverable st u d lc t \<and> terms_t st' = terms_t st \<and>
    set (active_terms st' u d lc) = set (active_terms st u d lc) \<union> (if b then {t} else {}) \<and>
    linked_terms st' u d lc = linked_terms st u d lc \<union> (if b then {t} else {}) \<and>
    filter (\<lambda>l. \<not> user_scope_link u d lc l) (links_t st') = filter (\<lambda>l. \<not> user_scope_link u d lc l) (links_t st)"
proof (cases "find_first (\<lambda>l. user_scope_link u d lc l \<and> ud_termId l = t) (links_t st)")
  case (Some x)
  then have x: "x \<in> set (links_t st)" "user_scope_link u d lc x" "ud_termId x = t"
    using find_first_Some by fastforce+
  have b: "b" and st': "st' = st\<lparr>links_t := update_where (\<lambda>l. ud_id l = ud_id x)
      (\<lambda>l. l\<lparr>ud_deletedAt := None, ud_deletedBy := None, ud_deletedReason := None\<rparr>) (links_t st)\<rparr>"
    using run Some by (auto simp: reactivate_term_def)
  have mem: "t \<in> linked_terms st u d lc" using x by (auto simp: linked_terms_def)
  have "terms_t st' = terms_t st" by (simp add: st')
  then show ?thesis
    using undelete_link_effect [OF x(1,2) uniq unarch st'] b mem x(3)
    by (simp add: recoverable_def insert_absorb subset_insertI)
next
  case None
  then have no: "t \<notin> linked_terms st u d lc"
    by (auto simp: linked_terms_def find_first_None)
  show ?thesis
  proof (cases "known_term st d lc t")
    case False
    then have "b = False" "st' = st"
      using run None by (auto simp: reactivate_term_def known_term_def split: option.splits if_splits)
    then show ?thesis using uniq unarch no False by (simp add: recoverable_def subset_insertI)
  next
    case True
    then obtain r where r: "find_first (\<lambda>r. dt_id r = t) (terms_t st) = Some r" "dt_domain r = d" "dt_locale r = lc"
      by (auto simp: known_term_def split: option.splits)
    let ?row = "\<lparr>ud_id = newId, ud_userId = u, ud_termId = t, ud_ownerType = UserOwned,
                      ud_teamId = None, ud_domain = dt_domain r, ud_locale = dt_locale r,
                      ud_kind = dt_kind r, ud_deletedAt = None, ud_deletedBy = None, ud_deletedReason = None,
                      ud_archivedAt = None, ud_archiveSnapshotId = None\<rparr>"
    have b: "b" and st': "st' = st\<lparr>links_t := insert_row ?row (links_t st)\<rparr>"
      using run None r by (auto simp: reactivate_term_def)
    have row: "user_scope_link u d lc ?row" "active_link ?row"
      using r by (simp_all add: user_scope_link_def ownerPredicate_def active_link_def)
    have "ud_id ?row \<notin> link_ids st" "terms_t st' = terms_t st" using new by (simp_all add: st')
    then show ?thesis
      using add_link_effect [OF row uniq _ unarch st'] b True by (simp add: recoverable_def)
  qed
qed

lemma reactivate_terms_effect:
  assumes "reactivate_terms u d lc fresh n ts st = (k, st')" "unique_key ud_id (links_t st)"
    "inj fresh" "\<forall>i \<ge> n. fresh i \<notin> link_ids st" "unarchived_scope st u d lc"
  shows "set (active_terms st' u d lc) = set (active_terms st u d lc) \<union> {t \<in> set ts. recoverable st u d lc t} \<and>
    filter (\<lambda>l. \<not> user_scope_link u d lc l) (links_t st') = filter (\<lambda>l. \<not> user_scope_link u d lc l) (links_t st)"
  using assms
proof (induction ts arbitrary: n k st)
  case (Cons t ts)
  obtain b st1 where one: "reactivate_term u d lc (fresh n) t st = (b, st1)"
    by (cases "reactivate_term u d lc (fresh n) t st")
  obtain k2 where rest: "reactivate_terms u d lc fresh (n + 1) ts st1 = (k2, st')"
    using Cons.prems(1) one by (auto split: prod.splits)
  note e = reactivate_term_effect [OF one Cons.prems(2) _ Cons.prems(5)]
  have e: "unique_key ud_id (links_t st1)" "unarchived_scope st1 u d lc" "link_ids st1 \<subseteq> insert (fresh n) (link_ids st)"
    "b = recoverable st u d lc t" "terms_t st1 = terms_t st"
    "set (active_terms st1 u d lc) = set (active_terms st u d lc) \<union> (if b then {t} else {})"
    "linked_terms st1 u d lc = linked_terms st u d lc \<union> (if b then {t} else {})"
    "filter (\<lambda>l. \<not> user_scope_link u d lc l) (links_t st1) = filter (\<lambda>l. \<not> user_scope_link u d lc l) (links_t st)"
    using e Cons.prems(4) by simp_all
  have "fresh i \<notin> link_ids st1" if "i \<ge> n + 1" for i
    using that e(3) Cons.prems(4) inj_eq [OF Cons.prems(3), of i n] by auto
  then have new: "\<forall>i \<ge> n + 1. fresh i \<notin> link_ids st1" by blast
  have "recoverable st1 u d lc x \<longleftrightarrow> recoverable st u d lc x \<or> b \<and> x = t" for x
    by (auto simp: recoverable_def known_term_def e(5,7))
  then show ?case
    using Cons.IH [OF rest e(1) Cons.prems(3) new e(2)] e(4,6,8) by auto
qed simp

lemma rollback_drops_effect:
  assumes gone_def: "gone = (\<lambda>l. user_scope_link u d lc l \<and> active_link l \<and> ud_termId l \<notin> keep)"
    and st1: "st1 = st\<lparr>links_t := update_where gone
      (\<lambda>l. l\<lparr>ud_deletedAt := Some now, ud_deletedBy := who, ud_deletedReason := why\<rparr>) (links_t st)\<rparr>"
  shows "set (active_terms st1 u d lc) = set (active_terms st u d lc) \<inter> keep"
    "linked_terms st1 u d lc = linked_terms st u d lc" "link_ids st1 = link_ids st" "terms_t st1 = terms_t st"
    "unarchived_scope st1 u d lc = unarchived_scope st u d lc"
    "unique_key ud_id (links_t st1) = unique_key ud_id (links_t st)"
    "filter (\<lambda>l. \<not> user_scope_link u d lc l) (links_t st1) = filter (\<lambda>l. \<not> user_scope_link u d lc l) (links_t st)"
proof -
  let ?f = "\<lambda>l. l\<lparr>ud_deletedAt := Some now, ud_deletedBy := who, ud_deletedReason := why\<rparr>"
  define g where "g l = (if gone l then ?f l else l)" for l
  have links: "links_t st1 = map g (links_t st)" by (simp add: st1 update_where_def g_def)
  have g: "ud_id (g l) = ud_id l" "ud_termId (g l) = ud_termId l" "ud_archivedAt (g l) = ud_archivedAt l"
    "user_scope_link u d lc (g l) = user_scope_link u d lc l"
    "user_scope_link u d lc l \<Longrightarrow> active_link (g l) \<longleftrightarrow> active_link l \<and> ud_termId l \<in> keep" for l
    by (auto simp: g_def gone_def active_link_def)
  show "linked_terms st1 u d lc = linked_terms st u d lc"
  proof -
    have "{l \<in> g ` set (links_t st). user_scope_link u d lc l} = g ` {l \<in> set (links_t st). user_scope_link u d lc l}"
      by (auto simp: g)
    then show ?thesis by (simp add: linked_terms_def links image_image g)
  qed
  show "set (active_terms st1 u d lc) = set (active_terms st u d lc) \<inter> keep"
  proof -
    have "{l \<in> g ` set (links_t st). user_scope_link u d lc l \<and> active_link l} =
        g ` {l \<in> set (links_t st). user_scope_link u d lc l \<and> active_link l \<and> ud_termId l \<in> keep}"
      using g(4,5) by auto
    then have "set (active_terms st1 u d lc) =
        ud_termId ` {l \<in> set (links_t st). user_scope_link u d lc l \<and> active_link l \<and> ud_termId l \<in> keep}"
      by (simp add: set_active_terms links image_image g)
    then show ?thesis by (auto simp: set_active_terms)
  qed
  show "link_ids st1 = link_ids st" by (simp add: link_ids_def links image_image g)
  show "terms_t st1 = terms_t st" by (simp add: st1)
  show "unarchived_scope st1 u d lc = unarchived_scope st u d lc"
    unfolding unarchived_scope_def links by (simp add: g)
  show "unique_key ud_id (links_t st1) = unique_key ud_id (links_t st)"
    unfolding links unique_key_def by (simp add: comp_def g)
  have "filter (\<lambda>l. \<not> user_scope_link u d lc l) (map g ls) = filter (\<lambda>l. \<not> user_scope_link u d lc l) ls" for ls
    by (induction ls) (auto simp: g, auto simp: g_def gone_def)
  then show "filter (\<lambda>l. \<not> user_scope_link u d lc l) (links_t st1) = filter (\<lambda>l. \<not> user_scope_link u d lc l) (links_t st)"
    by (simp add: links)
qed

text \<open>
  C21: Rolling back to a snapshot that has not been archived makes the active terms of its scope
  exactly the terms of the snapshot that the user has linked in that scope or that the term table
  still holds under the snapshot's domain and locale; the links of other users, teams, domains and
  locales are untouched. No link of the scope may be archived: the code never clears that mark.
\<close>

theorem rollback_restores_snapshot:
  assumes "rollbackToSnapshot u sid now fresh st = (Inr r, st')" "snapshot_of_user st u sid = Some snap"
    "unique_key ud_id (links_t st)" "inj fresh" "\<forall>i. fresh i \<notin> link_ids st"
    "unarchived_scope st u (s_domain snap) (s_locale snap)"
  shows "set (active_terms st' u (s_domain snap) (s_locale snap)) =
      {t \<in> set (s_termIds snap). recoverable st u (s_domain snap) (s_locale snap) t} \<and>
    filter (\<lambda>l. \<not> user_scope_link u (s_domain snap) (s_locale snap) l) (links_t st') =
      filter (\<lambda>l. \<not> user_scope_link u (s_domain snap) (s_locale snap) l) (links_t st)"
proof -
  let ?d = "s_domain snap" and ?lc = "s_locale snap" and ?want = "dedup (s_termIds snap)"
  let ?gone = "\<lambda>l. user_scope_link u ?d ?lc l \<and> active_link l \<and> ud_termId l \<notin> set ?want"
  define st1 where st1: "st1 = st\<lparr>links_t := update_where ?gone
      (\<lambda>l. l\<lparr>ud_deletedAt := Some now, ud_deletedBy := Some u, ud_deletedReason := Some ''rollback''\<rparr>) (links_t st)\<rparr>"
  let ?new = "filter (\<lambda>t. t \<notin> set (active_terms st u ?d ?lc)) ?want"
  obtain k st2 where run: "reactivate_terms u ?d ?lc fresh 0 ?new st1 = (k, st2)"
    and st': "links_t st' = links_t st2"
    using assms(1,2) by (auto simp: rollbackToSnapshot_def Let_def st1 split: if_splits prod.splits)
  note drop = rollback_drops_effect [OF refl st1]
  have "inj fresh" "\<forall>i \<ge> 0. fresh i \<notin> link_ids st1" using assms(4,5) drop(3) by simp_all
  from reactivate_terms_effect [OF run _ this] assms(3,6) drop
  have e: "set (active_terms st2 u ?d ?lc) = set (active_terms st1 u ?d ?lc) \<union> {t \<in> set ?new. recoverable st1 u ?d ?lc t}"
    "filter (\<lambda>l. \<not> user_scope_link u ?d ?lc l) (links_t st2) = filter (\<lambda>l. \<not> user_scope_link u ?d ?lc l) (links_t st1)"
    by simp_all
  have rec: "recoverable st1 u ?d ?lc t = recoverable st u ?d ?lc t" for t
    using drop(2,4) by (simp add: recoverable_def known_term_def)
  have linked: "t \<in> linked_terms st u ?d ?lc" if "t \<in> set (active_terms st u ?d ?lc)" for t
    using that by (auto simp: set_active_terms linked_terms_def)
  have "set (active_terms st2 u ?d ?lc) = {t \<in> set (s_termIds snap). recoverable st u ?d ?lc t}"
    unfolding e(1) drop(1) rec using linked by (auto simp: recoverable_def)
  moreover have "active_terms st' u ?d ?lc = active_terms st2 u ?d ?lc"
    by (simp add: active_terms_def st')
  ultimately show ?thesis using e(2) drop(7) by (simp add: st')
qed

text \<open>The user has the terms t1 (deleted) and t2 (active); snapshot s1 holds t1 and the unlinked t3.\<close>

abbreviation link_of :: "row_id \<Rightarrow> row_id \<Rightarrow> date option \<Rightarrow> date option \<Rightarrow> term_link_row" where
  "link_of i t deleted archived \<equiv>
     \<lparr>ud_id = i, ud_userId = ''u1'', ud_termId = t, ud_ownerType = UserOwned, ud_teamId = None,
      ud_domain = ''loan'', ud_locale = ''en-US'', ud_kind = KStruct, ud_deletedAt = deleted,
      ud_deletedBy = None, ud_deletedReason = None, ud_archivedAt = archived, ud_archiveSnapshotId = None\<rparr>"

abbreviation user_snapshot :: "row_id \<Rightarrow> row_id list \<Rightarrow> vocab_snapshot_row" where
  "user_snapshot i ts \<equiv>
     \<lparr>s_id = i, s_ownerType = UserOwned, s_ownerId = ''u1'', s_domain = ''loan'', s_locale = ''en-US'',
      s_version = 1,
      s_vocabularyJson = \<lparr>voc_id = ''loan'', voc_name = ''loan'', voc_locale = ''en-US'', voc_version = ''1.0.0'',
        voc_structs = [], voc_fields = [], voc_functions = [], voc_enumValues = [], voc_literals = []\<rparr>,
      s_termIds = ts, s_contentHash = ''h'', s_refCount = 1, s_archivedAt = None\<rparr>"

abbreviation term_of :: "row_id \<Rightarrow> domain_term_row" where
  "term_of t \<equiv> \<lparr>dt_id = t, dt_domain = ''loan'', dt_locale = ''en-US'', dt_kind = KStruct,
     dt_canonical = t, dt_localized = t, dt_parentCanonical = None, dt_aliases = [], dt_description = None, dt_dedupKey = t\<rparr>"

abbreviation vocab_store :: store where
  "vocab_store \<equiv> empty_store\<lparr>
     links_t := [link_of ''l1'' ''t1'' (Some 3) None, link_of ''l2'' ''t2'' None None],
     terms_t := [term_of ''t1'', term_of ''t2'', term_of ''t3''],
     snapshots_t := [user_snapshot ''s1'' [''t1'', ''t3'']]\<rparr>"

abbreviation numbered :: "nat \<Rightarrow> row_id" where
  "numbered n \<equiv> replicate (n + 3) CHR ''x''"

lemma numbered_long: "length s < 3 \<Longrightarrow> numbered i \<noteq> s"
  by (metis add.commute length_replicate not_add_less1)

lemma inj_numbered: "inj numbered"
  by (rule injI) (metis add_right_cancel length_replicate)

theorem rollback_restores_snapshot_witness:
  "set (active_terms (snd (rollbackToSnapshot ''u1'' ''s1'' 9 numbered vocab_store)) ''u1'' ''loan'' ''en-US'') =
     {''t1'', ''t3''}"
proof -
  let ?run = "rollbackToSnapshot ''u1'' ''s1'' 9 numbered vocab_store"
  let ?r = "\<lparr>rb_added = 2, rb_removed = 1, rb_unchanged = 0, rb_domain = ''loan'', rb_locale = ''en-US''\<rparr>"
  have "fst ?run = Inr ?r" by code_simp
  then have run: "?run = (Inr ?r, snd ?run)" by (metis prod.collapse)
  have snap: "snapshot_of_user vocab_store ''u1'' ''s1'' = Some (user_snapshot ''s1'' [''t1'', ''t3''])"
    by code_simp
  have new: "\<forall>i. numbered i \<notin> link_ids vocab_store"
    by (auto simp: link_ids_def numbered_long)
  have "unique_key ud_id (links_t vocab_store)" "unarchived_scope vocab_store ''u1'' ''loan'' ''en-US''"
    by (simp_all add: unarchived_scope_def)
  moreover have "recoverable vocab_store ''u1'' ''loan'' ''en-US'' ''t1''" "recoverable vocab_store ''u1'' ''loan'' ''en-US'' ''t3''"
    by code_simp+
  ultimately show ?thesis
    using rollback_restores_snapshot [OF run snap _ inj_numbered new] by auto
qed

definition archived_term :: "store \<Rightarrow> user_id \<Rightarrow> string \<Rightarrow> string \<Rightarrow> row_id \<Rightarrow> bool" where
  "archived_term st u d lc t \<longleftrightarrow>
     (\<exists>l \<in> set (links_t st). user_scope_link u d lc l \<and> ud_termId l = t) \<and>
     (\<forall>l \<in> set (links_t st). user_scope_link u d lc l \<and> ud_termId l = t \<longrightarrow> ud_archivedAt l \<noteq> None)"

lemma archived_term_update:
  assumes "\<And>l. ud_termId (f l) = ud_termId l \<and> ud_archivedAt (f l) = ud_archivedAt l \<and>
      user_scope_link u d lc (f l) = user_scope_link u d lc l"
  shows "archived_term (st\<lparr>links_t := update_where p f (links_t st)\<rparr>) u d lc t = archived_term st u d lc t"
proof -
  define g where "g l = (if p l then f l else l)" for l
  have g: "ud_termId (g l) = ud_termId l" "ud_archivedAt (g l) = ud_archivedAt l"
    "user_scope_link u d lc (g l) = user_scope_link u d lc l" for l
    using assms by (simp_all add: g_def)
  have "update_where p f (links_t st) = map g (links_t st)" by (simp add: update_where_def g_def)
  then show ?thesis by (simp add: archived_term_def g)
qed

lemma archived_term_inactive: "archived_term st u d lc t \<Longrightarrow> t \<notin> set (active_terms st u d lc)"
  by (auto simp: archived_term_def set_active_terms active_link_def)

lemma reactivate_term_archived:
  assumes "reactivate_term u d lc newId x st = (b, st')" "archived_term st u d lc t"
  shows "archived_term st' u d lc t \<and> (x = t \<longrightarrow> b)"
proof (cases "find_first (\<lambda>l. user_scope_link u d lc l \<and> ud_termId l = x) (links_t st)")
  case (Some y)
  then have b: "b" and st': "st' = st\<lparr>links_t := update_where (\<lambda>l. ud_id l = ud_id y)
      (\<lambda>l. l\<lparr>ud_deletedAt := None, ud_deletedBy := None, ud_deletedReason := None\<rparr>) (links_t st)\<rparr>"
    using assms(1) by (auto simp: reactivate_term_def)
  have "archived_term st' u d lc t = archived_term st u d lc t"
    unfolding st' by (rule archived_term_update) simp
  then show ?thesis using assms(2) b by simp
next
  case None
  then have "x \<noteq> t" using assms(2) by (auto simp: archived_term_def find_first_None)
  moreover have "links_t st' = links_t st \<or> (\<exists>row. ud_termId row = x \<and> links_t st' = insert_row row (links_t st))"
  proof (cases "find_first (\<lambda>r. dt_id r = x) (terms_t st)")
    case (Some r)
    let ?row = "\<lparr>ud_id = newId, ud_userId = u, ud_termId = x, ud_ownerType = UserOwned,
                      ud_teamId = None, ud_domain = dt_domain r, ud_locale = dt_locale r,
                      ud_kind = dt_kind r, ud_deletedAt = None, ud_deletedBy = None, ud_deletedReason = None,
                      ud_archivedAt = None, ud_archiveSnapshotId = None\<rparr>"
    have "st' = (if dt_domain r \<noteq> d \<or> dt_locale r \<noteq> lc then st else st\<lparr>links_t := insert_row ?row (links_t st)\<rparr>)"
      using assms(1) None Some by (auto simp: reactivate_term_def)
    then have "links_t st' = (if dt_domain r \<noteq> d \<or> dt_locale r \<noteq> lc then links_t st else insert_row ?row (links_t st))"
      by simp
    moreover have "ud_termId ?row = x" by simp
    ultimately show ?thesis by metis
  next
    case none: None
    then show ?thesis using assms(1) None by (simp add: reactivate_term_def)
  qed
  ultimately show ?thesis
    using assms(2) unfolding archived_term_def by (elim disjE exE conjE) simp_all
qed

lemma reactivate_terms_archived:
  assumes "reactivate_terms u d lc fresh n ts st = (k, st')" "archived_term st u d lc t"
  shows "archived_term st' u d lc t \<and> (t \<in> set ts \<longrightarrow> 0 < k)"
  using assms
proof (induction ts arbitrary: n k st)
  case (Cons x ts)
  obtain b st1 where one: "reactivate_term u d lc (fresh n) x st = (b, st1)"
    by (cases "reactivate_term u d lc (fresh n) x st")
  obtain k2 where rest: "reactivate_terms u d lc fresh (n + 1) ts st1 = (k2, st')"
    and k: "k = (if b then 1 else 0) + k2"
    using Cons.prems(1) one by (auto split: prod.splits)
  from reactivate_term_archived [OF one Cons.prems(2)] Cons.IH [OF rest] show ?case
    by (auto simp: k)
qed simp

text \<open>
  A term whose links in the scope are all archived (as the retention job leaves them) stays out
  of reach of every rollback: the rollback counts it as added, and afterwards it is still not among
  the active terms, because only the deletion mark of the link is cleared.
\<close>

theorem rollback_cannot_restore_archived:
  assumes "rollbackToSnapshot u sid now fresh st = (Inr r, st')" "snapshot_of_user st u sid = Some snap"
    "t \<in> set (s_termIds snap)" "archived_term st u (s_domain snap) (s_locale snap) t"
  shows "0 < rb_added r \<and> t \<notin> set (active_terms st' u (s_domain snap) (s_locale snap))"
proof -
  let ?d = "s_domain snap" and ?lc = "s_locale snap" and ?want = "dedup (s_termIds snap)"
  define st1 where st1: "st1 = st\<lparr>links_t := update_where (\<lambda>l. user_scope_link u ?d ?lc l \<and> active_link l \<and> ud_termId l \<notin> set ?want)
      (\<lambda>l. l\<lparr>ud_deletedAt := Some now, ud_deletedBy := Some u, ud_deletedReason := Some ''rollback''\<rparr>) (links_t st)\<rparr>"
  let ?new = "filter (\<lambda>t. t \<notin> set (active_terms st u ?d ?lc)) ?want"
  obtain st2 where run: "reactivate_terms u ?d ?lc fresh 0 ?new st1 = (rb_added r, st2)"
    and st': "links_t st' = links_t st2"
    using assms(1,2) by (auto simp: rollbackToSnapshot_def Let_def st1 split: if_splits prod.splits)
  have "archived_term st1 u ?d ?lc t" using assms(4) by (simp add: st1 archived_term_update)
  moreover have "t \<in> set ?new" using assms(3) archived_term_inactive [OF assms(4)] by simp
  ultimately have "archived_term st2 u ?d ?lc t" "0 < rb_added r"
    using reactivate_terms_archived [OF run] by auto
  then show ?thesis
    using archived_term_inactive by (simp add: active_terms_def st')
qed

theorem rollback_cannot_restore_archived_witness:
  "(let st = empty_store\<lparr>links_t := [link_of ''l1'' ''t1'' None (Some 5)], terms_t := [term_of ''t1''],
      snapshots_t := [user_snapshot ''s1'' [''t1'']]\<rparr>;
        st' = snd (rollbackToSnapshot ''u1'' ''s1'' 9 numbered st)
    in ''t1'' \<notin> set (active_terms st' ''u1'' ''loan'' ''en-US''))"
proof -
  let ?st = "empty_store\<lparr>links_t := [link_of ''l1'' ''t1'' None (Some 5)], terms_t := [term_of ''t1''],
      snapshots_t := [user_snapshot ''s1'' [''t1'']]\<rparr>"
  let ?run = "rollbackToSnapshot ''u1'' ''s1'' 9 numbered ?st"
  let ?r = "\<lparr>rb_added = 1, rb_removed = 0, rb_unchanged = 0, rb_domain = ''loan'', rb_locale = ''en-US''\<rparr>"
  have "fst ?run = Inr ?r" by code_simp
  then have run: "?run = (Inr ?r, snd ?run)" by (metis prod.collapse)
  have snap: "snapshot_of_user ?st ''u1'' ''s1'' = Some (user_snapshot ''s1'' [''t1''])" by code_simp
  have dead: "archived_term ?st ''u1'' ''loan'' ''en-US'' ''t1''" by code_simp
  show ?thesis
    using rollback_cannot_restore_archived [OF run snap, of "''t1''"] dead by (simp add: Let_def)
qed

section \<open>What a release and a freeze do to the counts\<close>

text \<open>
  Releasing the references of a deleted policy subtracts, on every snapshot, exactly the number
  of references the policy's versions hold there (stopping at zero), removes no snapshot and touches
  no other table; it reports an underflow iff some referenced snapshot is missing or counts fewer
  references than the policy holds.
\<close>

theorem release_subtracts_policy_refs:
  assumes "releaseSnapshotRefsForPolicy pid st = (r, st')"
  shows "(\<forall>i. ref_count (snapshots_t st') i = ref_count (snapshots_t st) i - policy_refs st pid i) \<and>
    snapshot_ids st' = snapshot_ids st \<and> st' = st\<lparr>snapshots_t := snapshots_t st'\<rparr> \<and>
    (rr_underflows r = [] \<longleftrightarrow>
       (\<forall>j. policy_refs st pid j \<noteq> 0 \<longrightarrow> j \<in> snapshot_ids st \<and> policy_refs st pid j \<le> ref_count (snapshots_t st) j))"
proof -
  note e = release_effect [OF assms]
  have "map s_id (snapshots_t st') = map s_id (snapshots_t st)" using e by blast
  then have "snapshot_ids st' = snapshot_ids st" unfolding snapshot_ids_def by (metis list.set_map)
  moreover have "has_snapshot (snapshots_t st) j \<longleftrightarrow> j \<in> snapshot_ids st" for j
    by (simp add: snapshot_ids_def has_snapshot_def)
  ultimately show ?thesis using e by (metis (no_types, lifting))
qed

text \<open>A version of p1 that holds two references to s1, whose count is one.\<close>

definition over_referenced :: store where
  "over_referenced = vocab_store\<lparr>versions_t := [(version_of ''v1'' ''p1'' 1 APPROVED)
     \<lparr>v_snapshotIds := [\<lparr>ref_snapshotId = ''s1'', ref_domain = ''loan'', ref_locale = ''en-US''\<rparr>,
                       \<lparr>ref_snapshotId = ''s1'', ref_domain = ''loan'', ref_locale = ''en-US''\<rparr>]\<rparr>]\<rparr>"

theorem release_subtracts_policy_refs_witness:
  "ref_count (snapshots_t (snd (releaseSnapshotRefsForPolicy ''p1'' over_referenced))) ''s1'' = 0 \<and>
    rr_underflows (fst (releaseSnapshotRefsForPolicy ''p1'' over_referenced)) \<noteq> []"
proof -
  note t = release_subtracts_policy_refs [OF prod.collapse [symmetric], of "''p1''" over_referenced]
  have "ref_count (snapshots_t over_referenced) ''s1'' = 1" "policy_refs over_referenced ''p1'' ''s1'' = 2"
    by code_simp+
  moreover have "\<not> (2 \<le> (1 :: nat))" "(2 :: nat) \<noteq> 0" by simp_all
  ultimately show ?thesis using t by (metis diff_is_0_eq' numeral_2_eq_2 One_nat_def le_Suc_eq)
qed

text \<open>
  The freeze of an approval takes one reference per frozen group: the count of every snapshot
  grows by the number of returned references to it, every reference points to a stored snapshot,
  the primary key and the two unique indexes of the table are kept, and no other table changes.
\<close>

theorem freeze_takes_one_ref_per_group:
  assumes "freezeVocabularyForApproval sha nfc uses fresh author pid policy verify st = Some (rs, st')"
    "snapshot_keys_ok st" "fresh_supply fresh st"
  shows "(\<forall>j. ref_count (snapshots_t st') j = ref_count (snapshots_t st) j + count_list (map ref_snapshotId rs) j) \<and>
    set (map ref_snapshotId rs) \<subseteq> snapshot_ids st' \<and> snapshot_keys_ok st' \<and>
    st' = st\<lparr>snapshots_t := snapshots_t st'\<rparr>"
  using freeze_effect [OF assms] by auto

theorem freeze_takes_one_ref_per_group_witness:
  "\<exists>st'. freezeVocabularyForApproval (\<lambda>s. s) (\<lambda>s. s) (\<lambda>a b c. True) numbered ''u1'' ''p1''
       \<lparr>pc_source = [], pc_locale = ''en-US''\<rparr> (\<lambda>v. True) vocab_store =
      Some ([\<lparr>ref_snapshotId = numbered 0, ref_domain = ''loan'', ref_locale = ''en-US''\<rparr>], st') \<and>
    ref_count (snapshots_t st') (numbered 0) = 1"
proof -
  let ?run = "freezeVocabularyForApproval (\<lambda>s. s) (\<lambda>s. s) (\<lambda>a b c. True) numbered ''u1'' ''p1''
    \<lparr>pc_source = [], pc_locale = ''en-US''\<rparr> (\<lambda>v. True) vocab_store"
  let ?rs = "[\<lparr>ref_snapshotId = numbered 0, ref_domain = ''loan'', ref_locale = ''en-US''\<rparr>]"
  have "map_option fst ?run = Some ?rs" by code_simp
  then obtain st' where run: "?run = Some (?rs, st')" by auto
  have "snapshot_keys_ok vocab_store" "fresh_supply numbered vocab_store"
    by (simp_all add: snapshot_keys_ok_def snapshot_ids_def fresh_supply_def inj_numbered numbered_long)
  note t = freeze_takes_one_ref_per_group [OF run this]
  have "ref_count (snapshots_t vocab_store) (numbered 0) = 0" by code_simp
  moreover have "count_list (map ref_snapshotId ?rs) (numbered 0) = 1" by simp
  ultimately have "ref_count (snapshots_t st') (numbered 0) = 1"
    using t [THEN conjunct1, THEN spec, of "numbered 0"] by simp
  then show ?thesis using run by blast
qed

end
