(* ===== verification/TeamRoles.thy ===== *)
theory TeamRoles
  imports Schema
begin

text \<open>
  Team roles and permissions: the role/permission matrix
  (\<open>src/src/lib/team-permission-matrix.ts\<close>), the checks on role changes, removals and
  invitations (\<open>src/src/lib/team-permissions.ts\<close>) and the business-role check
  (\<open>src/src/lib/business-role-permissions.ts\<close>). The lemmas say that the matrix grows with the
  role hierarchy and that no check lets an actor create or touch an owner, or hand out a role
  at or above its own.
\<close>

section \<open>The permission matrix\<close>

datatype team_permission =
    TEAM_VIEW | TEAM_UPDATE | TEAM_DELETE | TEAM_TRANSFER | TEAM_UPDATE_LOCALES
  | MEMBER_VIEW | MEMBER_INVITE | MEMBER_REMOVE | MEMBER_UPDATE_ROLE
  | POLICY_VIEW | POLICY_CREATE | POLICY_UPDATE | POLICY_DELETE | POLICY_EXECUTE
  | POLICY_APPROVE | POLICY_PUBLISH
  | INVITATION_VIEW | INVITATION_CREATE | INVITATION_REVOKE
  | VOCABULARY_VIEW | VOCABULARY_CREATE | VOCABULARY_MANAGE

definition all_permissions :: "team_permission list" where
  "all_permissions =
     [TEAM_VIEW, TEAM_UPDATE, TEAM_DELETE, TEAM_TRANSFER, TEAM_UPDATE_LOCALES,
      MEMBER_VIEW, MEMBER_INVITE, MEMBER_REMOVE, MEMBER_UPDATE_ROLE,
      POLICY_VIEW, POLICY_CREATE, POLICY_UPDATE, POLICY_DELETE, POLICY_EXECUTE,
      POLICY_APPROVE, POLICY_PUBLISH,
      INVITATION_VIEW, INVITATION_CREATE, INVITATION_REVOKE,
      VOCABULARY_VIEW, VOCABULARY_CREATE, VOCABULARY_MANAGE]"

definition ROLE_HIERARCHY :: "team_role list" where
  "ROLE_HIERARCHY = [Viewer, Member, Admin, Owner]"

fun ROLE_PERMISSIONS :: "team_role \<Rightarrow> team_permission list" where
  "ROLE_PERMISSIONS Owner = all_permissions"
| "ROLE_PERMISSIONS Admin =
     [TEAM_VIEW, TEAM_UPDATE, TEAM_UPDATE_LOCALES,
      MEMBER_VIEW, MEMBER_INVITE, MEMBER_REMOVE, MEMBER_UPDATE_ROLE,
      POLICY_VIEW, POLICY_CREATE, POLICY_UPDATE, POLICY_DELETE, POLICY_EXECUTE,
      POLICY_APPROVE, POLICY_PUBLISH,
      INVITATION_VIEW, INVITATION_CREATE, INVITATION_REVOKE,
      VOCABULARY_VIEW, VOCABULARY_CREATE, VOCABULARY_MANAGE]"
| "ROLE_PERMISSIONS Member =
     [TEAM_VIEW, MEMBER_VIEW, POLICY_VIEW, POLICY_CREATE, POLICY_UPDATE, POLICY_EXECUTE,
      VOCABULARY_VIEW, VOCABULARY_CREATE]"
| "ROLE_PERMISSIONS Viewer = [TEAM_VIEW, MEMBER_VIEW, POLICY_VIEW, VOCABULARY_VIEW]"

definition hasPermission :: "team_role \<Rightarrow> team_permission \<Rightarrow> bool" where
  "hasPermission r p \<longleftrightarrow> p \<in> set (ROLE_PERMISSIONS r)"

definition rolesWithPermission :: "team_permission \<Rightarrow> team_role list" where
  "rolesWithPermission p = filter (\<lambda>r. hasPermission r p) ROLE_HIERARCHY"

text \<open>\<open>indexOf\<close> in the hierarchy; every role of the type occurs in it.\<close>

fun index_of :: "'a \<Rightarrow> 'a list \<Rightarrow> int" where
  "index_of x [] = -1"
| "index_of x (y # ys) =
     (if x = y then 0 else let i = index_of x ys in if i < 0 then -1 else i + 1)"

definition getRoleLevel :: "team_role \<Rightarrow> int" where
  "getRoleLevel r = index_of r ROLE_HIERARCHY"

section \<open>Role checks\<close>

datatype team_error =
    not_team_member | insufficient_team_role | cannot_modify_owner | cannot_promote_to_owner
  | admin_cannot_modify_admin | cannot_assign_equal_or_higher_role | owner_cannot_leave
  | cannot_remove_owner | admin_cannot_remove_admin | cannot_invite_as_owner
  | cannot_invite_equal_or_higher_role | cannot_modify_own_business_roles

fun error_code :: "team_error \<Rightarrow> string" where
  "error_code not_team_member = ''not_team_member''"
| "error_code insufficient_team_role = ''insufficient_team_role''"
| "error_code cannot_modify_owner = ''cannot_modify_owner''"
| "error_code cannot_promote_to_owner = ''cannot_promote_to_owner''"
| "error_code admin_cannot_modify_admin = ''admin_cannot_modify_admin''"
| "error_code cannot_assign_equal_or_higher_role = ''cannot_assign_equal_or_higher_role''"
| "error_code owner_cannot_leave = ''owner_cannot_leave''"
| "error_code cannot_remove_owner = ''cannot_remove_owner''"
| "error_code admin_cannot_remove_admin = ''admin_cannot_remove_admin''"
| "error_code cannot_invite_as_owner = ''cannot_invite_as_owner''"
| "error_code cannot_invite_equal_or_higher_role = ''cannot_invite_equal_or_higher_role''"
| "error_code cannot_modify_own_business_roles = ''cannot_modify_own_business_roles''"

text \<open>A permission check result: \<open>Inl code\<close> is \<open>allowed: false\<close> with its 403 code.\<close>

type_synonym check_result = "team_error + unit"

definition canChangeRole :: "team_role \<Rightarrow> team_role \<Rightarrow> team_role \<Rightarrow> check_result" where
  "canChangeRole actorRole targetCurrentRole targetNewRole =
     (if targetCurrentRole = Owner then Inl cannot_modify_owner
      else if targetNewRole = Owner then Inl cannot_promote_to_owner
      else if actorRole = Admin \<and> targetCurrentRole = Admin then Inl admin_cannot_modify_admin
      else if actorRole \<noteq> Owner \<and> getRoleLevel targetNewRole \<ge> getRoleLevel actorRole
        then Inl cannot_assign_equal_or_higher_role
      else Inr ())"

definition canRemoveMember :: "team_role \<Rightarrow> team_role \<Rightarrow> bool \<Rightarrow> check_result" where
  "canRemoveMember actorRole targetRole isSelf =
     (if isSelf \<and> targetRole = Owner then Inl owner_cannot_leave
      else if targetRole = Owner then Inl cannot_remove_owner
      else if actorRole = Admin \<and> targetRole = Admin \<and> \<not> isSelf then Inl admin_cannot_remove_admin
      else Inr ())"

definition canInviteWithRole :: "team_role \<Rightarrow> team_role \<Rightarrow> check_result" where
  "canInviteWithRole inviterRole inviteeRole =
     (if inviteeRole = Owner then Inl cannot_invite_as_owner
      else if inviterRole \<noteq> Owner \<and> getRoleLevel inviteeRole \<ge> getRoleLevel inviterRole
        then Inl cannot_invite_equal_or_higher_role
      else Inr ())"

definition canChangeBusinessRoles :: "team_role \<Rightarrow> team_role \<Rightarrow> bool \<Rightarrow> check_result" where
  "canChangeBusinessRoles actorRole targetRole isSelf =
     (if actorRole = Owner then Inr ()
      else if isSelf then Inl cannot_modify_own_business_roles
      else if targetRole = Owner then Inl cannot_modify_owner
      else if targetRole = Admin then Inl admin_cannot_modify_admin
      else Inr ())"

section \<open>Membership\<close>

definition getTeamMemberRole :: "store \<Rightarrow> user_id \<Rightarrow> team_id \<Rightarrow> team_role option" where
  "getTeamMemberRole st userId teamId =
     map_option tm_role
       (find_first (\<lambda>m. tm_teamId m = teamId \<and> tm_userId m = userId) (members_t st))"

definition checkTeamAccess :: "store \<Rightarrow> user_id \<Rightarrow> team_id \<Rightarrow> team_error + team_role" where
  "checkTeamAccess st userId teamId =
     (case getTeamMemberRole st userId teamId of
        None \<Rightarrow> Inl not_team_member
      | Some role \<Rightarrow> Inr role)"

definition checkTeamPermission ::
  "store \<Rightarrow> user_id \<Rightarrow> team_id \<Rightarrow> team_permission \<Rightarrow> check_result" where
  "checkTeamPermission st userId teamId permission =
     (case checkTeamAccess st userId teamId of
        Inl e \<Rightarrow> Inl e
      | Inr role \<Rightarrow>
          if \<not> hasPermission role permission then Inl insufficient_team_role else Inr ())"

section \<open>Lemmas\<close>

lemma all_permissions_complete [simp]: "p \<in> set all_permissions"
  by (cases p) (simp_all add: all_permissions_def)

lemma getRoleLevel_simps [simp]:
  "getRoleLevel Viewer = 0" "getRoleLevel Member = 1"
  "getRoleLevel Admin = 2" "getRoleLevel Owner = 3"
  by (simp_all add: getRoleLevel_def ROLE_HIERARCHY_def)

lemma hasPermission_Owner [simp]: "hasPermission Owner p"
  by (simp add: hasPermission_def)

lemma set_rolesWithPermission: "r \<in> set (rolesWithPermission p) \<longleftrightarrow> hasPermission r p"
  by (cases r) (simp_all add: rolesWithPermission_def ROLE_HIERARCHY_def)

lemma hasPermission_transfer: "hasPermission r TEAM_TRANSFER \<longleftrightarrow> r = Owner"
  by (cases r) (simp_all add: hasPermission_def all_permissions_def)

lemma hasPermission_delete_team: "hasPermission r TEAM_DELETE \<longleftrightarrow> r = Owner"
  by (cases r) (simp_all add: hasPermission_def all_permissions_def)

lemma hasPermission_manage:
  "hasPermission r MEMBER_UPDATE_ROLE \<longleftrightarrow> r = Owner \<or> r = Admin"
  "hasPermission r MEMBER_REMOVE \<longleftrightarrow> r = Owner \<or> r = Admin"
  "hasPermission r INVITATION_CREATE \<longleftrightarrow> r = Owner \<or> r = Admin"
  "hasPermission r INVITATION_REVOKE \<longleftrightarrow> r = Owner \<or> r = Admin"
  "hasPermission r POLICY_APPROVE \<longleftrightarrow> r = Owner \<or> r = Admin"
  "hasPermission r POLICY_DELETE \<longleftrightarrow> r = Owner \<or> r = Admin"
  "hasPermission r POLICY_PUBLISH \<longleftrightarrow> r = Owner \<or> r = Admin"
  by (cases r; simp add: hasPermission_def all_permissions_def)+

lemma hasPermission_edit:
  "hasPermission r POLICY_UPDATE \<longleftrightarrow> r \<noteq> Viewer"
  "hasPermission r POLICY_EXECUTE \<longleftrightarrow> r \<noteq> Viewer"
  "hasPermission r POLICY_VIEW"
  by (cases r; simp add: hasPermission_def all_permissions_def)+

lemma checkTeamPermission_ok:
  "checkTeamPermission st u t p = Inr () \<longleftrightarrow>
     (\<exists>r. getTeamMemberRole st u t = Some r \<and> hasPermission r p)"
  by (auto simp: checkTeamPermission_def checkTeamAccess_def split: option.splits)

lemma checkTeamAccess_ok:
  "checkTeamAccess st u t = Inr r \<longleftrightarrow> getTeamMemberRole st u t = Some r"
  by (auto simp: checkTeamAccess_def split: option.splits)

lemma getTeamMemberRole_row:
  assumes "getTeamMemberRole st u t = Some r"
  shows "\<exists>m \<in> set (members_t st). tm_teamId m = t \<and> tm_userId m = u \<and> tm_role m = r"
  using assms find_first_Some unfolding getTeamMemberRole_def by fastforce

lemma getTeamMemberRole_unique:
  assumes "unique_key member_key (members_t st)" "m \<in> set (members_t st)"
  shows "getTeamMemberRole st (tm_userId m) (tm_teamId m) = Some (tm_role m)"
proof -
  have "find_first (\<lambda>q. tm_teamId q = tm_teamId m \<and> tm_userId q = tm_userId m) (members_t st) = Some m"
    by (rule find_first_unique' [OF assms]) (simp_all add: member_key_def)
  then show ?thesis by (simp add: getTeamMemberRole_def)
qed

lemma canChangeRole_ok:
  "canChangeRole a c n = Inr () \<longleftrightarrow>
     c \<noteq> Owner \<and> n \<noteq> Owner \<and> \<not> (a = Admin \<and> c = Admin) \<and>
     (a = Owner \<or> getRoleLevel n < getRoleLevel a)"
  by (auto simp: canChangeRole_def)

lemma canRemoveMember_ok:
  "canRemoveMember a t self = Inr () \<longleftrightarrow> t \<noteq> Owner \<and> \<not> (a = Admin \<and> t = Admin \<and> \<not> self)"
  by (auto simp: canRemoveMember_def)

lemma canInviteWithRole_ok:
  "canInviteWithRole a n = Inr () \<longleftrightarrow>
     n \<noteq> Owner \<and> (a = Owner \<or> getRoleLevel n < getRoleLevel a)"
  by (auto simp: canInviteWithRole_def)

section \<open>Properties\<close>

text \<open>
  the permission matrix is monotone in the role hierarchy: a role of a higher level has
  every permission of a role of a lower level, and it is in \<open>rolesWithPermission\<close>, the list the SQL
  filters use, for each of them.
\<close>

theorem permissions_monotone:
  assumes "getRoleLevel r \<le> getRoleLevel r'" "hasPermission r p"
  shows "hasPermission r' p \<and> r' \<in> set (rolesWithPermission p)"
  using assms
  by (cases r; cases r'; cases p)
    (simp_all add: set_rolesWithPermission hasPermission_def all_permissions_def)

theorem permissions_monotone_witness:
  "hasPermission Admin POLICY_UPDATE \<and> Admin \<in> set (rolesWithPermission POLICY_UPDATE)"
  by (rule permissions_monotone [of Member Admin POLICY_UPDATE]) (simp_all add: hasPermission_def)

text \<open>
  no role check escalates. An actor that passes the permission gate of the member routes
  and the role check never changes, removes or creates an owner; an admin never acts on another
  admin and only hands out roles strictly below its own; and an admin passes the business-role
  check only for somebody else's member or viewer row.
\<close>

theorem role_checks_no_escalation:
  assumes "hasPermission actor MEMBER_UPDATE_ROLE"
  shows "(canChangeRole actor current new = Inr () \<longrightarrow>
      current \<noteq> Owner \<and> new \<noteq> Owner \<and>
      (actor = Admin \<longrightarrow> getRoleLevel current < getRoleLevel actor \<and> getRoleLevel new < getRoleLevel actor)) \<and>
    (canRemoveMember actor current self = Inr () \<longrightarrow>
      current \<noteq> Owner \<and> (actor = Admin \<longrightarrow> self \<or> getRoleLevel current < getRoleLevel actor)) \<and>
    (canInviteWithRole actor new = Inr () \<longrightarrow>
      new \<noteq> Owner \<and> (actor = Admin \<longrightarrow> getRoleLevel new < getRoleLevel actor)) \<and>
    (canChangeBusinessRoles actor current self = Inr () \<longrightarrow>
      actor = Owner \<or> (\<not> self \<and> getRoleLevel current < getRoleLevel Admin))"
proof (intro conjI)
  have a: "actor = Owner \<or> actor = Admin" using assms by (simp add: hasPermission_manage)
  show "canChangeRole actor current new = Inr () \<longrightarrow>
      current \<noteq> Owner \<and> new \<noteq> Owner \<and>
      (actor = Admin \<longrightarrow> getRoleLevel current < getRoleLevel actor \<and> getRoleLevel new < getRoleLevel actor)"
    by (cases current) (auto simp: canChangeRole_ok)
  show "canRemoveMember actor current self = Inr () \<longrightarrow>
      current \<noteq> Owner \<and> (actor = Admin \<longrightarrow> self \<or> getRoleLevel current < getRoleLevel actor)"
    by (cases current) (auto simp: canRemoveMember_ok)
  show "canInviteWithRole actor new = Inr () \<longrightarrow>
      new \<noteq> Owner \<and> (actor = Admin \<longrightarrow> getRoleLevel new < getRoleLevel actor)"
    by (auto simp: canInviteWithRole_ok)
  show "canChangeBusinessRoles actor current self = Inr () \<longrightarrow>
      actor = Owner \<or> (\<not> self \<and> getRoleLevel current < getRoleLevel Admin)"
    by (cases current) (auto simp: canChangeBusinessRoles_def)
qed

theorem role_checks_no_escalation_witness:
  "canChangeRole Admin Member Viewer = Inr () \<and> getRoleLevel Member < getRoleLevel Admin"
proof -
  have p: "hasPermission Admin MEMBER_UPDATE_ROLE" by (simp add: hasPermission_manage)
  have c: "canChangeRole Admin Member Viewer = Inr ()" by (simp add: canChangeRole_def)
  show ?thesis using role_checks_no_escalation [OF p, of Member Viewer False] c by simp
qed

end
