(* ===== verification/Emails.thy ===== *)
theory Emails
  imports Schema
begin

text \<open>
  Mailbox identity: \<open>src/src/lib/email-normalize.ts\<close> and the invitation address form of
  \<open>src/src/lib/team-invitation-email.ts\<close>. Two addresses are the same mailbox when their
  normal forms agree: letter case, a \<open>+suffix\<close> of the local part and, for Gmail, its dots do
  not count. Addresses are ASCII text here: case and white space beyond ASCII are not modelled.
\<close>

section \<open>Normal form\<close>

fun last_index :: "char \<Rightarrow> string \<Rightarrow> nat option" where
  "last_index c [] = None"
| "last_index c (x # xs) =
     (case last_index c xs of
        Some i \<Rightarrow> Some (Suc i)
      | None \<Rightarrow> if x = c then Some 0 else None)"

definition GMAIL_HOSTS :: "string list" where
  "GMAIL_HOSTS = [''gmail.com'', ''googlemail.com'']"

definition normalizeEmail :: "string \<Rightarrow> string" where
  "normalizeEmail email =
     (if email = [] then []
      else let trimmed = js_lower (js_trim email) in
        case last_index CHR ''@'' trimmed of
          None \<Rightarrow> trimmed
        | Some atIdx \<Rightarrow>
            if atIdx = 0 then trimmed
            else let loc = takeWhile (\<lambda>c. c \<noteq> CHR ''+'') (take atIdx trimmed);
                     host = drop (Suc atIdx) trimmed
                 in if host \<in> set GMAIL_HOSTS
                    then filter (\<lambda>c. c \<noteq> CHR ''.'') loc @ ''@gmail.com''
                    else loc @ ''@'' @ host)"

definition isSameMailbox :: "string option \<Rightarrow> string option \<Rightarrow> bool" where
  "isSameMailbox a b \<longleftrightarrow>
     truthy a \<and> truthy b \<and>
     (let na = normalizeEmail (the a) in na \<noteq> [] \<and> na = normalizeEmail (the b))"

definition matchesInvitationMailbox :: "string option \<Rightarrow> string \<Rightarrow> bool" where
  "matchesInvitationMailbox accountEmail invitationEmail =
     isSameMailbox accountEmail (Some invitationEmail)"

text \<open>The mask shown when a sign-up hits an existing mailbox; the ellipsis is its UTF-8 bytes.\<close>

definition ellipsis :: string where
  "ellipsis = [CHR 0xE2, CHR 0x80, CHR 0xA6]"

definition maskEmail :: "string \<Rightarrow> string" where
  "maskEmail email =
     (let trimmed = js_trim email in
        case last_index CHR ''@'' trimmed of
          None \<Rightarrow> ''***''
        | Some atIdx \<Rightarrow>
            if atIdx = 0 then ''***''
            else let loc = take atIdx trimmed; domain = drop (Suc atIdx) trimmed;
                     base = takeWhile (\<lambda>c. c \<noteq> CHR ''+'') loc;
                     plus = CHR ''+'' \<in> set loc;
                     suffix = (if plus then drop (Suc (length base)) loc else []);
                     maskedSuffix =
                       (if plus then ''+'' @ take 3 suffix @ (if length suffix > 3 then ellipsis else [])
                        else [])
                 in (if base = [] then ''*'' else take 1 base) @ ''***'' @ maskedSuffix @ ''@'' @ domain)"

section \<open>Invitation addresses\<close>

text \<open>The form \<open>[^\s@]+@[^\s@]+\.[^\s@]+\<close> of the check on an invitation address.\<close>

fun has_inner_dot :: "string \<Rightarrow> bool" where
  "has_inner_dot (x # CHR ''.'' # y # ys) = True"
| "has_inner_dot (x # xs) = has_inner_dot xs"
| "has_inner_dot [] = False"

definition plain_char :: "char \<Rightarrow> bool" where
  "plain_char c \<longleftrightarrow> \<not> is_space c \<and> c \<noteq> CHR ''@''"

definition is_email_form :: "string \<Rightarrow> bool" where
  "is_email_form s =
     (let loc = takeWhile plain_char s; rest = dropWhile plain_char s in
        loc \<noteq> [] \<and> rest \<noteq> [] \<and> hd rest = CHR ''@'' \<and>
        list_all plain_char (tl rest) \<and> has_inner_dot (tl rest))"

definition canonicalInvitationEmail :: "string \<Rightarrow> string option" where
  "canonicalInvitationEmail raw =
     (let email = js_lower (js_trim raw) in if is_email_form email then Some email else None)"

section \<open>Lemmas\<close>

lemma last_index_None: "last_index c xs = None \<longleftrightarrow> c \<notin> set xs"
  by (induction xs) (auto split: option.splits)

lemma last_index_append:
  "c \<notin> set ys \<Longrightarrow> last_index c (xs @ c # ys) = Some (length xs)"
  by (induction xs) (auto simp: last_index_None split: option.splits)

lemma last_index_Some:
  assumes "last_index c xs = Some i"
  shows "i < length xs \<and> xs ! i = c \<and> c \<notin> set (drop (Suc i) xs)"
  using assms
  by (induction xs arbitrary: i)
    (auto simp: last_index_None split: option.splits if_splits)

lemma last_index_split:
  assumes "last_index c xs = Some i"
  shows "xs = take i xs @ c # drop (Suc i) xs"
  using last_index_Some [OF assms] id_take_nth_drop by metis

lemma lower_char_idem: "lower_char (lower_char c) = lower_char c"
proof -
  have "(of_char c :: nat) < 256" by simp
  then show ?thesis by (auto simp: lower_char_def Let_def)
qed

lemma js_lower_idem [simp]: "js_lower (js_lower s) = js_lower s"
  by (simp add: js_lower_def lower_char_idem comp_def)

lemma is_space_lower [simp]: "is_space (lower_char c) = is_space c"
proof (cases "65 \<le> (of_char c :: nat) \<and> (of_char c :: nat) \<le> 90")
  case True
  then have "of_char (lower_char c) = (of_char c :: nat) + 32"
    by (simp add: lower_char_def Let_def)
  then show ?thesis using True by (simp add: is_space_def Let_def)
qed (auto simp: lower_char_def Let_def)

lemma js_trim_no_space:
  assumes "\<And>c. c \<in> set s \<Longrightarrow> \<not> is_space c"
  shows "js_trim s = s"
proof -
  have "dropWhile is_space s = s" using assms by (cases s) auto
  moreover have "dropWhile is_space (rev s) = rev s"
    using assms by (cases "rev s") (auto simp: rev_swap)
  ultimately show ?thesis by (simp add: js_trim_def)
qed

lemma js_lower_fixed:
  assumes "\<And>c. c \<in> set s \<Longrightarrow> lower_char c = c"
  shows "js_lower s = s"
  using assms by (simp add: js_lower_def map_idI)

lemma js_lower_append [simp]: "js_lower (s @ t) = js_lower s @ js_lower t"
  by (simp add: js_lower_def)

lemma js_lower_Cons [simp]: "js_lower (c # s) = lower_char c # js_lower s"
  by (simp add: js_lower_def)

lemma js_lower_Nil [simp]: "js_lower [] = []"
  by (simp add: js_lower_def)

lemma lower_char_literals [simp]:
  "lower_char CHR ''@'' = CHR ''@''" "lower_char CHR ''+'' = CHR ''+''" "lower_char CHR ''.'' = CHR ''.''"
  by (simp_all add: lower_char_def)

lemma normalizeEmail_form:
  assumes "l \<noteq> []" "CHR ''@'' \<notin> set h"
    and "\<And>c. c \<in> set (l @ h) \<Longrightarrow> \<not> is_space c \<and> lower_char c = c"
  shows "normalizeEmail (l @ ''@'' @ h) =
     (if h \<in> set GMAIL_HOSTS then filter (\<lambda>c. c \<noteq> CHR ''.'') (takeWhile (\<lambda>c. c \<noteq> CHR ''+'') l) @ ''@gmail.com''
      else takeWhile (\<lambda>c. c \<noteq> CHR ''+'') l @ ''@'' @ h)"
proof -
  have t: "js_trim (l @ ''@'' @ h) = l @ ''@'' @ h"
    by (rule js_trim_no_space) (use assms(3) in \<open>auto simp: is_space_def\<close>)
  have "js_lower (l @ ''@'' @ h) = l @ ''@'' @ h"
    by (rule js_lower_fixed) (use assms(3) in auto)
  with t have tl: "js_lower (js_trim (l @ ''@'' @ h)) = l @ ''@'' @ h" by simp
  have i: "last_index CHR ''@'' (l @ ''@'' @ h) = Some (length l)"
    using last_index_append [OF assms(2), of l] by simp
  show ?thesis using assms(1) unfolding normalizeEmail_def tl Let_def i by simp
qed

text \<open>An equivalence on accounts: the registration check and the invitation check agree on it.\<close>

lemma isSameMailbox_sym: "isSameMailbox a b = isSameMailbox b a"
  by (auto simp: isSameMailbox_def Let_def)

lemma isSameMailbox_trans: "isSameMailbox a b \<Longrightarrow> isSameMailbox b c \<Longrightarrow> isSameMailbox a c"
  by (auto simp: isSameMailbox_def Let_def)

section \<open>Properties\<close>

text \<open>
  a \<open>+suffix\<close> of the local part never makes a second mailbox: for every host the address
  with the suffix and the address without it are the same mailbox, so an invitation sent to
  the one can be accepted by an account registered with the other.
\<close>

theorem mailbox_plus_alias:
  assumes "l \<noteq> []" "CHR ''+'' \<notin> set l" "CHR ''@'' \<notin> set h"
    and "\<forall>c \<in> set (l @ tag @ h). \<not> is_space c \<and> lower_char c = c"
  shows "matchesInvitationMailbox (Some (l @ ''@'' @ h)) (l @ ''+'' @ tag @ ''@'' @ h)"
proof -
  have ok: "\<not> is_space CHR ''+'' \<and> lower_char CHR ''+'' = CHR ''+''" by (simp add: is_space_def)
  have tk: "takeWhile (\<lambda>c. c \<noteq> CHR ''+'') (l @ ''+'' @ tag) = l"
    using assms(2) by (subst takeWhile_append2) auto
  have tk': "takeWhile (\<lambda>c. c \<noteq> CHR ''+'') l = l"
    using assms(2) by (auto simp: takeWhile_eq_all_conv)
  have n1: "normalizeEmail ((l @ ''+'' @ tag) @ ''@'' @ h) = normalizeEmail (l @ ''@'' @ h)"
    using assms(1,3,4) ok
    by (subst (1 2) normalizeEmail_form) (auto simp: tk [simplified] tk')
  have n2: "normalizeEmail (l @ ''@'' @ h) \<noteq> []"
    using assms(1,3,4) by (subst normalizeEmail_form) auto
  show ?thesis
    using assms(1) n1 n2
    by (simp add: matchesInvitationMailbox_def isSameMailbox_def truthy_def Let_def)
qed

theorem mailbox_plus_alias_witness:
  "matchesInvitationMailbox (Some ''a.b@x.io'') ''a.b+team@x.io''"
  using mailbox_plus_alias [of "''a.b''" "''x.io''" "''team''"]
  by (simp add: is_space_def lower_char_def)

end
