(* ===== verification/TeamSupport.thy ===== *)
theory TeamSupport
  imports TeamRoles Emails
begin

text \<open>
  What the team routes call: \<open>src/src/lib/validation.ts\<close>, \<open>business-roles.ts\<close>,
  \<open>team-plan.ts\<close> and the team key operations of \<open>api-keys.ts\<close>. Plan data is a parameter
  (\<open>team_env\<close>): the plan table (\<open>plans.ts\<close>) and the trial downgrade (\<open>usage.ts\<close>) are not part
  of this theory. The lemmas say what revoking and refreshing team keys does to the key table,
  and that the business-role list is bounded, free of duplicates and free of commas.
\<close>

section \<open>Environment\<close>

datatype response = Reply (status: nat) (code: string)

record team_env =
  teamFeatures :: "store \<Rightarrow> user_id \<Rightarrow> bool"
  maxTeamMembers :: "user_row \<Rightarrow> int"
  approvalRequired :: "user_row \<Rightarrow> bool"
  isSaas :: bool

section \<open>Validation\<close>

definition validateTeamName :: "json option \<Rightarrow> string option" where
  "validateTeamName name =
     (case name of
        Some (JStr s) \<Rightarrow> if js_length s < 2 \<or> js_length s > 50 then None else Some s
      | _ \<Rightarrow> None)"

definition is_slug_char :: "char \<Rightarrow> bool" where
  "is_slug_char c \<longleftrightarrow>
     (let n = of_char c :: nat in 97 \<le> n \<and> n \<le> 122 \<or> 48 \<le> n \<and> n \<le> 57 \<or> n = 45)"

fun has_double_dash :: "string \<Rightarrow> bool" where
  "has_double_dash (x # y # ys) =
     ((x = CHR ''-'' \<and> y = CHR ''-'') \<or> has_double_dash (y # ys))"
| "has_double_dash _ = False"

definition validateSlug :: "json option \<Rightarrow> string option" where
  "validateSlug slug =
     (case slug of
        Some (JStr s) \<Rightarrow>
          if js_length s < 2 \<or> js_length s > 50 then None
          else if \<not> list_all is_slug_char s then None
          else if hd s = CHR ''-'' \<or> last s = CHR ''-'' then None
          else if has_double_dash s then None
          else Some s
      | _ \<Rightarrow> None)"

section \<open>Business roles\<close>

definition is_role_char :: "char \<Rightarrow> bool" where
  "is_role_char c \<longleftrightarrow>
     (let n = of_char c :: nat in 32 \<le> n \<and> n \<le> 43 \<or> 45 \<le> n \<and> n \<le> 126)"

text \<open>The pattern a trimmed role must match: 1 to 64 printable ASCII characters, no comma.\<close>

definition valid_role :: "string \<Rightarrow> bool" where
  "valid_role role \<longleftrightarrow> list_all is_role_char role \<and> 1 \<le> length role \<and> length role \<le> 64"

definition MAX_BUSINESS_ROLES :: nat where
  "MAX_BUSINESS_ROLES = 16"

fun normalizeRoleItems :: "json list \<Rightarrow> string list \<Rightarrow> string list option" where
  "normalizeRoleItems [] out = Some out"
| "normalizeRoleItems (item # items) out =
     (case item of
        JStr s \<Rightarrow>
          if \<not> valid_role (js_trim s) then None
          else normalizeRoleItems items (if js_trim s \<in> set out then out else out @ [js_trim s])
      | _ \<Rightarrow> None)"

definition normalizeBusinessRoles :: "json \<Rightarrow> string list option" where
  "normalizeBusinessRoles input =
     (case input of
        JArr items \<Rightarrow>
          (case normalizeRoleItems items [] of
             None \<Rightarrow> None
           | Some out \<Rightarrow> if length out > MAX_BUSINESS_ROLES then None else Some out)
      | _ \<Rightarrow> None)"

section \<open>Team keys\<close>

definition activeTeamKey :: "team_id \<Rightarrow> user_id option \<Rightarrow> api_key_row \<Rightarrow> bool" where
  "activeTeamKey teamId userId k \<longleftrightarrow>
     k_teamId k = Some teamId \<and> k_revokedAt k = None \<and>
     (case userId of None \<Rightarrow> True | Some u \<Rightarrow> k_userId k = u)"

definition notifyKeysChanged :: "api_key_row list \<Rightarrow> store \<Rightarrow> store" where
  "notifyKeysChanged rows st =
     emit_all (map (PushKeySnapshot \<circ> k_key) rows @
               map InvalidateKeyCache (dedup (map k_userId rows))) st"

definition revokeTeamKeys :: "date \<Rightarrow> team_id \<Rightarrow> user_id option \<Rightarrow> store \<Rightarrow> store" where
  "revokeTeamKeys now teamId userId st =
     notifyKeysChanged (select_where (activeTeamKey teamId userId) (api_keys_t st))
       (st\<lparr>api_keys_t := update_where (activeTeamKey teamId userId)
             (\<lambda>k. k\<lparr>k_revokedAt := Some now\<rparr>) (api_keys_t st)\<rparr>)"

definition refreshTeamKeySnapshots :: "team_id \<Rightarrow> user_id option \<Rightarrow> store \<Rightarrow> store" where
  "refreshTeamKeySnapshots teamId userId st =
     notifyKeysChanged (select_where (activeTeamKey teamId userId) (api_keys_t st)) st"

section \<open>Plan limits of a team\<close>

definition lockTeamRow :: "team_id \<Rightarrow> store \<Rightarrow> user_id option" where
  "lockTeamRow teamId st = map_option t_ownerId (find_first (\<lambda>t. t_id t = teamId) (teams_t st))"

definition memberLimitOf :: "team_env \<Rightarrow> store \<Rightarrow> user_id \<Rightarrow> int option" where
  "memberLimitOf env st userId =
     map_option (maxTeamMembers env) (find_first (\<lambda>u. u_id u = userId) (users_t st))"

definition memberCountOf :: "store \<Rightarrow> team_id \<Rightarrow> nat" where
  "memberCountOf st teamId = count_where (\<lambda>m. tm_teamId m = teamId) (members_t st)"

text \<open>\<open>Inl (memberCount, limit)\<close> when the team is full.\<close>

definition teamSeatAvailable :: "team_env \<Rightarrow> store \<Rightarrow> team_id \<Rightarrow> user_id \<Rightarrow> (nat \<times> int) + unit" where
  "teamSeatAvailable env st teamId ownerId =
     (case memberLimitOf env st ownerId of
        None \<Rightarrow> Inr ()
      | Some limit \<Rightarrow>
          if limit = -1 then Inr ()
          else if int (memberCountOf st teamId) < limit then Inr ()
          else Inl (memberCountOf st teamId, limit))"

datatype eligibility = Eligible | PlanIneligible | SeatLimit nat int

definition checkTeamOwnerEligibility :: "team_env \<Rightarrow> store \<Rightarrow> user_id \<Rightarrow> team_id \<Rightarrow> eligibility" where
  "checkTeamOwnerEligibility env st userId teamId =
     (if \<not> teamFeatures env st userId then PlanIneligible
      else case memberLimitOf env st userId of
        None \<Rightarrow> PlanIneligible
      | Some limit \<Rightarrow>
          if limit = -1 then Eligible
          else if int (memberCountOf st teamId) > limit
            then SeatLimit (memberCountOf st teamId) limit
          else Eligible)"

definition planHolderForTeam :: "store \<Rightarrow> user_id \<Rightarrow> team_id option \<Rightarrow> user_id" where
  "planHolderForTeam st userId teamId =
     (case or_null teamId of
        None \<Rightarrow> userId
      | Some t \<Rightarrow>
          (case find_first (\<lambda>m. tm_teamId m = t \<and> tm_userId m = userId) (members_t st) of
             None \<Rightarrow> userId
           | Some _ \<Rightarrow> nullish (lockTeamRow t st) userId))"

section \<open>Lemmas\<close>

lemma notifyKeysChanged_simps [simp]:
  "users_t (notifyKeysChanged rows st) = users_t st"
  "teams_t (notifyKeysChanged rows st) = teams_t st"
  "members_t (notifyKeysChanged rows st) = members_t st"
  "invitations_t (notifyKeysChanged rows st) = invitations_t st"
  "api_keys_t (notifyKeysChanged rows st) = api_keys_t st"
  "policies_t (notifyKeysChanged rows st) = policies_t st"
  "versions_t (notifyKeysChanged rows st) = versions_t st"
  "bins_t (notifyKeysChanged rows st) = bins_t st"
  "snapshots_t (notifyKeysChanged rows st) = snapshots_t st"
  by (simp_all add: notifyKeysChanged_def)

lemma refreshTeamKeySnapshots_simps [simp]:
  "users_t (refreshTeamKeySnapshots t u st) = users_t st"
  "teams_t (refreshTeamKeySnapshots t u st) = teams_t st"
  "members_t (refreshTeamKeySnapshots t u st) = members_t st"
  "invitations_t (refreshTeamKeySnapshots t u st) = invitations_t st"
  "api_keys_t (refreshTeamKeySnapshots t u st) = api_keys_t st"
  "policies_t (refreshTeamKeySnapshots t u st) = policies_t st"
  "versions_t (refreshTeamKeySnapshots t u st) = versions_t st"
  "bins_t (refreshTeamKeySnapshots t u st) = bins_t st"
  "snapshots_t (refreshTeamKeySnapshots t u st) = snapshots_t st"
  by (simp_all add: refreshTeamKeySnapshots_def)

lemma revokeTeamKeys_simps [simp]:
  "users_t (revokeTeamKeys now t u st) = users_t st"
  "teams_t (revokeTeamKeys now t u st) = teams_t st"
  "members_t (revokeTeamKeys now t u st) = members_t st"
  "invitations_t (revokeTeamKeys now t u st) = invitations_t st"
  "policies_t (revokeTeamKeys now t u st) = policies_t st"
  "versions_t (revokeTeamKeys now t u st) = versions_t st"
  "bins_t (revokeTeamKeys now t u st) = bins_t st"
  "snapshots_t (revokeTeamKeys now t u st) = snapshots_t st"
  "api_keys_t (revokeTeamKeys now t u st) =
     update_where (activeTeamKey t u) (\<lambda>k. k\<lparr>k_revokedAt := Some now\<rparr>) (api_keys_t st)"
  by (simp_all add: revokeTeamKeys_def)

text \<open>No key of the scope is left active.\<close>

lemma revokeTeamKeys_none_active:
  "k \<in> set (api_keys_t (revokeTeamKeys now t u st)) \<Longrightarrow> \<not> activeTeamKey t u k"
proof
  assume k: "k \<in> set (api_keys_t (revokeTeamKeys now t u st))" and a: "activeTeamKey t u k"
  obtain q where q: "k = (if activeTeamKey t u q then q\<lparr>k_revokedAt := Some now\<rparr> else q)"
    using k by (auto simp: in_update_where)
  show False
  proof (cases "activeTeamKey t u q")
    case True
    then have "k_revokedAt k = Some now" using q by simp
    then show False using a by (simp add: activeTeamKey_def)
  next
    case False
    then show False using q a by simp
  qed
qed

lemma normalizeRoleItems_ok:
  assumes "normalizeRoleItems items out = Some res" "distinct out" "list_all valid_role out"
  shows "distinct res \<and> list_all valid_role res"
  using assms
proof (induction items arbitrary: out)
  case (Cons item items)
  then obtain s where s: "item = JStr s" "valid_role (js_trim s)"
    "normalizeRoleItems items (if js_trim s \<in> set out then out else out @ [js_trim s]) = Some res"
    by (auto split: json.splits if_splits)
  show ?case
    by (rule Cons.IH [OF s(3)]) (use Cons.prems s(2) in auto)
qed simp

lemma is_role_char_no_comma: "is_role_char c \<Longrightarrow> c \<noteq> CHR '',''"
  by (auto simp: is_role_char_def Let_def)

text \<open>Joining with commas, as the role header does, and splitting again.\<close>

fun join_with :: "char \<Rightarrow> string list \<Rightarrow> string" where
  "join_with c [] = []"
| "join_with c [r] = r"
| "join_with c (r # rs) = r @ c # join_with c rs"

lemma split_on_join:
  assumes "rs \<noteq> []" "\<forall>r \<in> set rs. c \<notin> set r"
  shows "split_on c (join_with c rs) = rs"
  using assms
proof (induction c rs rule: join_with.induct)
  case (3 c r r' rs)
  then show ?case by (simp add: split_on_append)
qed (simp_all add: split_on_plain)

section \<open>Properties\<close>

text \<open>
  an accepted business-role list has at most 16 distinct roles of 1 to 64 characters, and
  because none of them has a comma, the comma-joined header the policy engine receives splits
  back into exactly this list.
\<close>

theorem business_roles_header_roundtrip:
  assumes "normalizeBusinessRoles j = Some rs" "rs \<noteq> []"
  shows "length rs \<le> MAX_BUSINESS_ROLES \<and> distinct rs \<and>
    list_all (\<lambda>r. 1 \<le> length r \<and> length r \<le> 64) rs \<and>
    split_on CHR '','' (join_with CHR '','' rs) = rs"
proof -
  obtain items where items: "normalizeRoleItems items [] = Some rs" "length rs \<le> MAX_BUSINESS_ROLES"
    using assms(1) by (auto simp: normalizeBusinessRoles_def split: json.splits option.splits if_splits)
  have ok: "distinct rs \<and> list_all valid_role rs"
    using normalizeRoleItems_ok [OF items(1)] by simp
  then have "\<forall>r \<in> set rs. CHR '','' \<notin> set r"
    using is_role_char_no_comma by (fastforce simp: list_all_iff valid_role_def)
  then show ?thesis
    using ok items(2) split_on_join [OF assms(2)] by (auto simp: list_all_iff valid_role_def)
qed

theorem business_roles_header_roundtrip_witness:
  "normalizeBusinessRoles (JArr [JStr '' Credit Officer'', JStr ''CFO'', JStr ''CFO '']) =
     Some [''Credit Officer'', ''CFO''] \<and>
   split_on CHR '','' (join_with CHR '','' [''Credit Officer'', ''CFO'']) = [''Credit Officer'', ''CFO'']"
proof -
  have n: "normalizeBusinessRoles (JArr [JStr '' Credit Officer'', JStr ''CFO'', JStr ''CFO '']) =
     Some [''Credit Officer'', ''CFO'']"
    by code_simp
  show ?thesis using n business_roles_header_roundtrip [OF n] by simp
qed

end
