(* ===== verification/TeamRoutes.thy ===== *)
theory TeamRoutes
  imports TeamSupport
begin

text \<open>
  The team routes under \<open>src/src/app/api/teams\<close> as functions on the store: creating and
  deleting a team, changing and removing members, transferring ownership, and the invitation
  routes. A handler returns the reply (status and code, the empty code where the route sends none) and the store it leaves; the checks come
  in the order of the route. A step that the route runs in its own transaction is a definition
  of its own, so that interleavings of two requests can be stated.
\<close>

section \<open>Creating and deleting a team\<close>

text \<open>\<open>POST /api/teams\<close>; the two fresh ids are arguments.\<close>

definition createTeam ::
  "team_env \<Rightarrow> user_id option \<Rightarrow> json \<Rightarrow> team_id \<Rightarrow> row_id \<Rightarrow> store \<Rightarrow> response \<times> store" where
  "createTeam env session body newTeamId newMemberId st =
     (case session of
        None \<Rightarrow> (Reply 401 ''unauthorized'', st)
      | Some userId \<Rightarrow>
          if \<not> teamFeatures env st userId then (Reply 403 ''team_plan_required'', st)
          else case validateTeamName (jfield ''name'' body) of
            None \<Rightarrow> (Reply 400 [], st)
          | Some name \<Rightarrow>
              (case validateSlug (jfield ''slug'' body) of
                 None \<Rightarrow> (Reply 400 [], st)
               | Some slug \<Rightarrow>
                   if find_first (\<lambda>t. t_slug t = slug) (teams_t st) \<noteq> None
                   then (Reply 400 ''team_slug_conflict'', st)
                   else (Reply 201 [],
                     emit (AdminAction userId ''TEAM_CREATED'' newTeamId)
                       (st\<lparr>teams_t := insert_row
                             \<lparr>t_id = newTeamId, t_name = name, t_slug = slug, t_ownerId = userId\<rparr> (teams_t st),
                           members_t := insert_row
                             \<lparr>tm_id = newMemberId, tm_teamId = newTeamId, tm_userId = userId,
                              tm_role = Owner, tm_businessRoles = []\<rparr> (members_t st)\<rparr>))))"

definition deleteTeam_tx :: "team_id \<Rightarrow> store \<Rightarrow> store" where
  "deleteTeam_tx teamId st =
     st\<lparr>members_t := delete_where (\<lambda>m. tm_teamId m = teamId) (members_t st),
        invitations_t := delete_where (\<lambda>i. ti_teamId i = teamId) (invitations_t st),
        groups_t := delete_where (\<lambda>g. g_teamId g = Some teamId) (groups_t st),
        policies_t := update_where (\<lambda>p. p_teamId p = Some teamId) (\<lambda>p. p\<lparr>p_teamId := None\<rparr>) (policies_t st),
        teams_t := delete_where (\<lambda>t. t_id t = teamId) (teams_t st)\<rparr>"

text \<open>\<open>DELETE /api/teams/[teamId]\<close>.\<close>

definition deleteTeam ::
  "user_id option \<Rightarrow> date \<Rightarrow> team_id \<Rightarrow> store \<Rightarrow> response \<times> store" where
  "deleteTeam session now teamId st =
     (case session of
        None \<Rightarrow> (Reply 401 ''unauthorized'', st)
      | Some userId \<Rightarrow>
          (case checkTeamPermission st userId teamId TEAM_DELETE of
             Inl e \<Rightarrow> (Reply 403 (error_code e), st)
           | Inr _ \<Rightarrow>
               let affected = map p_id (select_where (\<lambda>p. p_teamId p = Some teamId) (policies_t st));
                   st1 = deleteTeam_tx teamId st;
                   st2 = revokeTeamKeys now teamId None st1
               in (Reply 200 [],
                   emit (AdminAction userId ''TEAM_DELETED'' teamId)
                     (emit_all (map InvalidatePolicyCache affected) st2))))"

text \<open>\<open>PUT /api/teams/[teamId]\<close>: a new name or slug. \<open>Inr None\<close> is a field the body leaves out.\<close>

definition parseTeamField :: "(json option \<Rightarrow> string option) \<Rightarrow> json option \<Rightarrow> unit + string option" where
  "parseTeamField validate field =
     (if field = None then Inr None
      else case validate field of None \<Rightarrow> Inl () | Some s \<Rightarrow> Inr (Some s))"

definition updateTeam ::
  "user_id option \<Rightarrow> team_id \<Rightarrow> json \<Rightarrow> store \<Rightarrow> response \<times> store" where
  "updateTeam session teamId body st =
     (case session of
        None \<Rightarrow> (Reply 401 ''unauthorized'', st)
      | Some userId \<Rightarrow>
     (case checkTeamPermission st userId teamId TEAM_UPDATE of
        Inl e \<Rightarrow> (Reply 403 (error_code e), st)
      | Inr _ \<Rightarrow>
     (case parseTeamField validateTeamName (jfield ''name'' body) of
        Inl _ \<Rightarrow> (Reply 400 [], st)
      | Inr name \<Rightarrow>
     (case parseTeamField validateSlug (jfield ''slug'' body) of
        Inl _ \<Rightarrow> (Reply 400 [], st)
      | Inr slug \<Rightarrow>
          if slug \<noteq> None \<and>
             find_first (\<lambda>t. Some (t_slug t) = slug \<and> t_id t \<noteq> teamId) (teams_t st) \<noteq> None
          then (Reply 400 ''team_slug_conflict'', st)
          else if name = None \<and> slug = None then (Reply 400 ''update_fields_required'', st)
          else if find_first (\<lambda>t. t_id t = teamId) (teams_t st) = None
          then (Reply 500 ''internal_server_error'', st)
          else (Reply 200 [],
                st\<lparr>teams_t := update_where (\<lambda>t. t_id t = teamId)
                      (\<lambda>t. t\<lparr>t_name := nullish name (t_name t), t_slug := nullish slug (t_slug t)\<rparr>)
                      (teams_t st)\<rparr>)))))"

section \<open>Members\<close>

definition role_of_string :: "string \<Rightarrow> team_role option" where
  "role_of_string s =
     (if s = ''admin'' then Some Admin
      else if s = ''member'' then Some Member
      else if s = ''viewer'' then Some Viewer
      else None)"

record member_update =
  mu_role :: "team_role option"
  mu_businessRoles :: "string list option"

definition parseMemberUpdate :: "json \<Rightarrow> string + member_update" where
  "parseMemberUpdate body =
     (let role = jfield ''role'' body; businessRoles = jfield ''businessRoles'' body in
      if role = None \<and> businessRoles = None then Inl ''invalid_role''
      else
        case (case role of
                None \<Rightarrow> Inr None
              | Some (JStr r) \<Rightarrow>
                  (case role_of_string r of None \<Rightarrow> Inl ''invalid_role'' | Some x \<Rightarrow> Inr (Some x))
              | Some _ \<Rightarrow> Inl ''invalid_role'') of
          Inl e \<Rightarrow> Inl e
        | Inr roleUpd \<Rightarrow>
            (case businessRoles of
               None \<Rightarrow> Inr \<lparr>mu_role = roleUpd, mu_businessRoles = None\<rparr>
             | Some j \<Rightarrow>
                 (case normalizeBusinessRoles j of
                    None \<Rightarrow> Inl ''invalid_business_role''
                  | Some rs \<Rightarrow> Inr \<lparr>mu_role = roleUpd, mu_businessRoles = Some rs\<rparr>)))"

definition apply_member_update :: "member_update \<Rightarrow> member_row \<Rightarrow> member_row" where
  "apply_member_update u m =
     m\<lparr>tm_role := nullish (mu_role u) (tm_role m),
       tm_businessRoles := nullish (mu_businessRoles u) (tm_businessRoles m)\<rparr>"

text \<open>\<open>PUT /api/teams/[teamId]/members/[memberId]\<close>.\<close>

definition updateMember ::
  "user_id option \<Rightarrow> team_id \<Rightarrow> row_id \<Rightarrow> json \<Rightarrow> store \<Rightarrow> response \<times> store" where
  "updateMember session teamId memberId body st =
     (case session of
        None \<Rightarrow> (Reply 401 ''unauthorized'', st)
      | Some userId \<Rightarrow>
     (case checkTeamPermission st userId teamId MEMBER_UPDATE_ROLE of
        Inl e \<Rightarrow> (Reply 403 (error_code e), st)
      | Inr _ \<Rightarrow>
     (case checkTeamAccess st userId teamId of
        Inl e \<Rightarrow> (Reply 403 (error_code e), st)
      | Inr actorRole \<Rightarrow>
     (case find_first (\<lambda>m. tm_id m = memberId \<and> tm_teamId m = teamId) (members_t st) of
        None \<Rightarrow> (Reply 404 ''member_not_found'', st)
      | Some target \<Rightarrow>
     (case parseMemberUpdate body of
        Inl c \<Rightarrow> (Reply 400 c, st)
      | Inr upd \<Rightarrow>
     (case (case mu_role upd of
              None \<Rightarrow> Inr ()
            | Some r \<Rightarrow> canChangeRole actorRole (tm_role target) r) of
        Inl e \<Rightarrow> (Reply 403 (error_code e), st)
      | Inr _ \<Rightarrow>
     (case (case mu_businessRoles upd of
              None \<Rightarrow> Inr ()
            | Some _ \<Rightarrow> canChangeBusinessRoles actorRole (tm_role target) (tm_userId target = userId)) of
        Inl e \<Rightarrow> (Reply 403 (error_code e), st)
      | Inr _ \<Rightarrow>
          let st1 = st\<lparr>members_t := update_where (\<lambda>m. tm_id m = memberId \<and> tm_teamId m = teamId)
                        (apply_member_update upd) (members_t st)\<rparr>;
              st2 = refreshTeamKeySnapshots teamId (Some (tm_userId target)) st1;
              st3 = (if mu_businessRoles upd = None then st2
                     else emit (AdminAction userId ''TEAM_MEMBER_BUSINESS_ROLES_UPDATED'' teamId) st2)
          in (Reply 200 [], st3))))))))"

text \<open>\<open>DELETE /api/teams/[teamId]/members/[memberId]\<close>.\<close>

definition removeMember ::
  "user_id option \<Rightarrow> date \<Rightarrow> team_id \<Rightarrow> row_id \<Rightarrow> store \<Rightarrow> response \<times> store" where
  "removeMember session now teamId memberId st =
     (case session of
        None \<Rightarrow> (Reply 401 ''unauthorized'', st)
      | Some userId \<Rightarrow>
     (case checkTeamAccess st userId teamId of
        Inl e \<Rightarrow> (Reply 404 ''member_not_found'', st)
      | Inr actorRole \<Rightarrow>
     (case find_first (\<lambda>m. tm_id m = memberId \<and> tm_teamId m = teamId) (members_t st) of
        None \<Rightarrow> (Reply 404 ''member_not_found'', st)
      | Some target \<Rightarrow>
          let isSelf = (tm_userId target = userId) in
     (case (if isSelf then Inr () else checkTeamPermission st userId teamId MEMBER_REMOVE) of
        Inl e \<Rightarrow> (Reply 403 (error_code e), st)
      | Inr _ \<Rightarrow>
     (case canRemoveMember actorRole (tm_role target) isSelf of
        Inl e \<Rightarrow> (Reply 403 (error_code e), st)
      | Inr _ \<Rightarrow>
          let st1 = st\<lparr>members_t := delete_where (\<lambda>m. tm_id m = memberId) (members_t st)\<rparr>;
              st2 = revokeTeamKeys now teamId (Some (tm_userId target)) st1
          in (Reply 200 [], emit (AdminAction userId ''TEAM_MEMBER_REMOVED'' teamId) st2))))))"

section \<open>Transferring ownership\<close>

text \<open>
  \<open>POST /api/teams/[teamId]/transfer\<close> in its two parts: the checks before the transaction, and
  the transaction under the lock of the team row.
\<close>

definition transfer_check ::
  "user_id option \<Rightarrow> team_id \<Rightarrow> json \<Rightarrow> store \<Rightarrow> response + (user_id \<times> user_id)" where
  "transfer_check session teamId body st =
     (case session of
        None \<Rightarrow> Inl (Reply 401 ''unauthorized'')
      | Some userId \<Rightarrow>
     (case checkTeamPermission st userId teamId TEAM_TRANSFER of
        Inl e \<Rightarrow> Inl (Reply 403 (error_code e))
      | Inr _ \<Rightarrow>
     (case jfield ''newOwnerId'' body of
        Some (JStr newOwnerId) \<Rightarrow>
          if newOwnerId = [] then Inl (Reply 400 ''new_owner_required'')
          else if find_first (\<lambda>m. tm_teamId m = teamId \<and> tm_userId m = newOwnerId) (members_t st) = None
            then Inl (Reply 400 ''new_owner_not_member'')
          else if newOwnerId = userId then Inl (Reply 400 ''cannot_transfer_to_self'')
          else Inr (userId, newOwnerId)
      | _ \<Rightarrow> Inl (Reply 400 ''new_owner_required''))))"

definition set_member_role :: "team_id \<Rightarrow> user_id \<Rightarrow> team_role \<Rightarrow> store \<Rightarrow> store" where
  "set_member_role teamId userId role st =
     st\<lparr>members_t := update_where (\<lambda>m. tm_teamId m = teamId \<and> tm_userId m = userId)
           (\<lambda>m. m\<lparr>tm_role := role\<rparr>) (members_t st)\<rparr>"

definition transfer_tx :: "team_env \<Rightarrow> team_id \<Rightarrow> user_id \<Rightarrow> user_id \<Rightarrow> store \<Rightarrow> eligibility \<times> store" where
  "transfer_tx env teamId userId newOwnerId st =
     (case checkTeamOwnerEligibility env st newOwnerId teamId of
        Eligible \<Rightarrow>
          let st1 = st\<lparr>teams_t := update_where (\<lambda>t. t_id t = teamId)
                        (\<lambda>t. t\<lparr>t_ownerId := newOwnerId\<rparr>) (teams_t st)\<rparr>;
              st2 = set_member_role teamId newOwnerId Owner st1;
              st3 = set_member_role teamId userId Admin st2
          in (Eligible, st3)
      | verdict \<Rightarrow> (verdict, st))"

definition transfer_finish ::
  "team_env \<Rightarrow> team_id \<Rightarrow> user_id \<Rightarrow> user_id \<Rightarrow> store \<Rightarrow> response \<times> store" where
  "transfer_finish env teamId userId newOwnerId st =
     (case transfer_tx env teamId userId newOwnerId st of
        (Eligible, st1) \<Rightarrow>
          (Reply 200 ''ownership_transferred'',
           emit (AdminAction userId ''TEAM_OWNERSHIP_TRANSFERRED'' teamId)
             (emit (InvalidatePlanCache teamId) (refreshTeamKeySnapshots teamId None st1)))
      | (PlanIneligible, st1) \<Rightarrow> (Reply 400 ''new_owner_plan_ineligible'', st1)
      | (SeatLimit _ _, st1) \<Rightarrow> (Reply 400 ''new_owner_seat_limit'', st1))"

definition transferOwnership ::
  "team_env \<Rightarrow> user_id option \<Rightarrow> team_id \<Rightarrow> json \<Rightarrow> store \<Rightarrow> response \<times> store" where
  "transferOwnership env session teamId body st =
     (case transfer_check session teamId body st of
        Inl r \<Rightarrow> (r, st)
      | Inr (userId, newOwnerId) \<Rightarrow> transfer_finish env teamId userId newOwnerId st)"

section \<open>Invitations\<close>

definition INVITATION_DAYS :: int where
  "INVITATION_DAYS = 7"

definition day_ms :: int where
  "day_ms = 24 * 60 * 60 * 1000"

text \<open>
  The plan gate of the invitation route: \<open>Some reason\<close> when the owner's plan has no seat left.
\<close>

definition invite_plan_gate :: "team_env \<Rightarrow> store \<Rightarrow> team_id \<Rightarrow> string option" where
  "invite_plan_gate env st teamId =
     (case lockTeamRow teamId st of
        None \<Rightarrow> None
      | Some ownerId \<Rightarrow>
     (case find_first (\<lambda>u. u_id u = ownerId) (users_t st) of
        None \<Rightarrow> None
      | Some owner \<Rightarrow>
          if maxTeamMembers env owner \<noteq> -1 \<and> int (memberCountOf st teamId) \<ge> maxTeamMembers env owner
          then Some (if approvalRequired env owner then ''team_member_invite'' else ''reviewer_required'')
          else None))"

definition userByMailbox :: "string \<Rightarrow> user_row \<Rightarrow> bool" where
  "userByMailbox email u \<longleftrightarrow>
     map_option js_lower (u_email u) = Some (js_lower email) \<or>
     u_emailNormalized u = Some (normalizeEmail email)"

text \<open>\<open>POST /api/teams/[teamId]/invitations\<close>; token and id are fresh.\<close>

definition createInvitation ::
  "team_env \<Rightarrow> user_id option \<Rightarrow> date \<Rightarrow> team_id \<Rightarrow> json \<Rightarrow> row_id \<Rightarrow> string \<Rightarrow> store \<Rightarrow> response \<times> store" where
  "createInvitation env session now teamId body newId newToken st =
     (case session of
        None \<Rightarrow> (Reply 401 ''unauthorized'', st)
      | Some userId \<Rightarrow>
     (case checkTeamPermission st userId teamId INVITATION_CREATE of
        Inl e \<Rightarrow> (Reply 403 (error_code e), st)
      | Inr _ \<Rightarrow>
     (case checkTeamAccess st userId teamId of
        Inl e \<Rightarrow> (Reply 403 (error_code e), st)
      | Inr actorRole \<Rightarrow>
     (case (case jfield ''email'' body of Some (JStr raw) \<Rightarrow> canonicalInvitationEmail raw | _ \<Rightarrow> None) of
        None \<Rightarrow> (Reply 400 ''invalid_email'', st)
      | Some email \<Rightarrow>
     (case (case jfield ''role'' body of Some (JStr r) \<Rightarrow> role_of_string r | _ \<Rightarrow> None) of
        None \<Rightarrow> (Reply 400 ''invalid_role'', st)
      | Some role \<Rightarrow>
     (case canInviteWithRole actorRole role of
        Inl e \<Rightarrow> (Reply 403 (error_code e), st)
      | Inr _ \<Rightarrow>
     (case invite_plan_gate env st teamId of
        Some reason \<Rightarrow> (Reply 402 reason, st)
      | None \<Rightarrow>
          let userWithEmail = find_first (userByMailbox email) (users_t st) in
          if (case userWithEmail of
                None \<Rightarrow> False
              | Some u \<Rightarrow>
                  find_first (\<lambda>m. tm_teamId m = teamId \<and> tm_userId m = u_id u) (members_t st) \<noteq> None)
          then (Reply 400 ''already_team_member'', st)
          else if find_first (\<lambda>i. ti_teamId i = teamId \<and> js_lower (ti_email i) = email \<and>
                                  ti_expiresAt i > now) (invitations_t st) \<noteq> None
          then (Reply 400 ''invitation_already_pending'', st)
          else
            let st1 = st\<lparr>invitations_t := insert_row
                        \<lparr>ti_id = newId, ti_teamId = teamId, ti_email = email, ti_role = role,
                         ti_token = newToken, ti_expiresAt = now + INVITATION_DAYS * day_ms\<rparr>
                        (invitations_t st)\<rparr>;
                st2 = emit (SendInvitationEmail email newToken) st1
            in (Reply 201 [],
                case userWithEmail of
                  None \<Rightarrow> st2
                | Some u \<Rightarrow> emit (Notify (u_id u) ''team.invitation_received'' newId) st2))))))))"

text \<open>\<open>DELETE /api/teams/[teamId]/invitations/[invitationId]\<close>.\<close>

definition revokeInvitation ::
  "user_id option \<Rightarrow> team_id \<Rightarrow> row_id \<Rightarrow> store \<Rightarrow> response \<times> store" where
  "revokeInvitation session teamId invitationId st =
     (case session of
        None \<Rightarrow> (Reply 401 ''unauthorized'', st)
      | Some userId \<Rightarrow>
     (case checkTeamPermission st userId teamId INVITATION_REVOKE of
        Inl e \<Rightarrow> (Reply 403 (error_code e), st)
      | Inr _ \<Rightarrow>
          if find_first (\<lambda>i. ti_id i = invitationId \<and> ti_teamId i = teamId) (invitations_t st) = None
          then (Reply 404 ''invitation_not_found'', st)
          else (Reply 200 [],
                st\<lparr>invitations_t := delete_where (\<lambda>i. ti_id i = invitationId) (invitations_t st)\<rparr>)))"

text \<open>
  The transaction of the accept route. \<open>Inl\<close> is a rolled-back transaction: the seat limit, or
  (code 500) a violation of the unique index on team and user.
\<close>

definition accept_tx ::
  "team_env \<Rightarrow> user_id \<Rightarrow> invitation_row \<Rightarrow> row_id \<Rightarrow> store \<Rightarrow> response + store" where
  "accept_tx env userId invite newMemberId st =
     (case (case lockTeamRow (ti_teamId invite) st of
              None \<Rightarrow> Inr ()
            | Some ownerId \<Rightarrow> teamSeatAvailable env st (ti_teamId invite) ownerId) of
        Inl _ \<Rightarrow> Inl (Reply 402 ''team_member_invite'')
      | Inr _ \<Rightarrow>
          if (\<exists>m \<in> set (members_t st). member_key m = (ti_teamId invite, userId))
          then Inl (Reply 500 ''internal_server_error'')
          else Inr (st\<lparr>members_t := insert_row
                        \<lparr>tm_id = newMemberId, tm_teamId = ti_teamId invite, tm_userId = userId,
                         tm_role = ti_role invite, tm_businessRoles = []\<rparr> (members_t st),
                      invitations_t := delete_where (\<lambda>i. ti_id i = ti_id invite) (invitations_t st)\<rparr>))"

definition accept_effects :: "team_env \<Rightarrow> user_id \<Rightarrow> invitation_row \<Rightarrow> store \<Rightarrow> store" where
  "accept_effects env userId invite st =
     (let st1 = emit (ClearNotification userId (ti_id invite)) st;
          st2 = (if isSaas env then emit (SyncSeats (ti_teamId invite)) st1 else st1)
      in case lockTeamRow (ti_teamId invite) st of
           None \<Rightarrow> st2
         | Some ownerId \<Rightarrow>
             if ownerId = userId then st2
             else emit (Notify ownerId ''team.invitation_accepted'' (ti_teamId invite)) st2)"

text \<open>
  \<open>POST /api/teams/invitations/accept\<close>. The reply reads the team of the invitation; where that
  row is gone it fails with 500 after the membership was written.
\<close>

definition acceptInvitation ::
  "team_env \<Rightarrow> user_id option \<Rightarrow> date \<Rightarrow> string option \<Rightarrow> row_id option \<Rightarrow> row_id \<Rightarrow> store \<Rightarrow> response \<times> store" where
  "acceptInvitation env session now token invitationId newMemberId st =
     (case session of
        None \<Rightarrow> (Reply 401 ''unauthorized'', st)
      | Some userId \<Rightarrow>
          if \<not> truthy token \<and> \<not> truthy invitationId then (Reply 400 [], st)
          else
     (case find_first (if truthy token then (\<lambda>i. Some (ti_token i) = token)
                       else (\<lambda>i. Some (ti_id i) = invitationId)) (invitations_t st) of
        None \<Rightarrow> (Reply 404 ''invitation_not_found'', st)
      | Some invite \<Rightarrow>
          let dropped = st\<lparr>invitations_t := delete_where (\<lambda>i. ti_id i = ti_id invite) (invitations_t st)\<rparr> in
          if ti_expiresAt invite < now then (Reply 400 ''invitation_expired'', dropped)
          else if \<not> matchesInvitationMailbox
                     (Option.bind (find_first (\<lambda>u. u_id u = userId) (users_t st)) u_email) (ti_email invite)
          then (Reply 403 ''invitation_email_mismatch'', st)
          else if find_first (\<lambda>m. tm_teamId m = ti_teamId invite \<and> tm_userId m = userId) (members_t st) \<noteq> None
          then (Reply 400 ''already_team_member'', dropped)
          else
     (case accept_tx env userId invite newMemberId st of
        Inl r \<Rightarrow> (r, st)
      | Inr st1 \<Rightarrow>
          (if lockTeamRow (ti_teamId invite) st = None then Reply 500 ''internal_server_error'' else Reply 200 [],
           accept_effects env userId invite st1))))"

text \<open>\<open>POST /api/teams/invitations/decline\<close>.\<close>

definition declineInvitation ::
  "user_id option \<Rightarrow> row_id option \<Rightarrow> store \<Rightarrow> response \<times> store" where
  "declineInvitation session invitationId st =
     (case session of
        None \<Rightarrow> (Reply 401 [], st)
      | Some userId \<Rightarrow>
          if \<not> truthy invitationId then (Reply 400 [], st)
          else
            let email = Option.bind (find_first (\<lambda>u. u_id u = userId) (users_t st)) u_email in
            if \<not> truthy email then (Reply 400 [], st)
            else
     (case find_first (\<lambda>i. Some (ti_id i) = invitationId) (invitations_t st) of
        None \<Rightarrow> (Reply 200 [], st)
      | Some invite \<Rightarrow>
          if \<not> matchesInvitationMailbox email (ti_email invite) then (Reply 404 [], st)
          else (Reply 200 [],
                emit (ClearNotification userId (ti_id invite))
                  (st\<lparr>invitations_t := delete_where (\<lambda>i. ti_id i = ti_id invite) (invitations_t st)\<rparr>))))"

end
