(* ===== verification/TeamInvariant.thy ===== *)
theory TeamInvariant
  imports TeamRoutes
begin

text \<open>
  The team routes as a transition system. The invariant is that every team has exactly one
  member row with the role owner, the row of the user \<open>Team.ownerId\<close> names, and that no
  membership or invitation outlives its team. Every route keeps it, so it holds in every
  reachable state. The last section is about requests that interleave: the accept route is
  safe, the transfer route is not.
\<close>

section \<open>The invariant\<close>

definition owner_agrees :: "team_row \<Rightarrow> member_row table \<Rightarrow> bool" where
  "owner_agrees t ms \<longleftrightarrow>
     (\<forall>m \<in> set ms. tm_teamId m = t_id t \<longrightarrow> (tm_role m = Owner \<longleftrightarrow> tm_userId m = t_ownerId t)) \<and>
     (\<exists>m \<in> set ms. tm_teamId m = t_id t \<and> tm_userId m = t_ownerId t)"

definition team_tables_ok :: "team_row table \<Rightarrow> member_row table \<Rightarrow> invitation_row table \<Rightarrow> bool" where
  "team_tables_ok ts ms invs \<longleftrightarrow>
     unique_key t_id ts \<and> unique_key tm_id ms \<and> unique_key member_key ms \<and>
     (\<forall>t \<in> set ts. owner_agrees t ms) \<and>
     (\<forall>m \<in> set ms. tm_teamId m \<in> t_id ` set ts) \<and>
     (\<forall>i \<in> set invs. ti_teamId i \<in> t_id ` set ts \<and> ti_role i \<noteq> Owner)"

definition team_inv :: "store \<Rightarrow> bool" where
  "team_inv st \<longleftrightarrow> team_tables_ok (teams_t st) (members_t st) (invitations_t st)"

lemma team_inv_same_tables:
  assumes "team_inv st" "teams_t st' = teams_t st" "members_t st' = members_t st"
    "invitations_t st' = invitations_t st"
  shows "team_inv st'"
  using assms by (simp add: team_inv_def)

lemma team_tables_ok_drop_invitations:
  "team_tables_ok ts ms invs \<Longrightarrow> team_tables_ok ts ms (delete_where p invs)"
  by (auto simp: team_tables_ok_def)

lemma owner_agrees_role:
  assumes "owner_agrees t ms" "m \<in> set ms" "tm_teamId m = t_id t"
  shows "tm_role m = Owner \<longleftrightarrow> tm_userId m = t_ownerId t"
  using assms by (simp add: owner_agrees_def)

lemma role_of_string_not_owner: "role_of_string s = Some r \<Longrightarrow> r \<noteq> Owner"
  by (auto simp: role_of_string_def split: if_splits)

section \<open>Each table operation of the routes keeps it\<close>

lemma team_ok_new_team:
  assumes "team_tables_ok ts ms invs" "tid \<notin> t_id ` set ts" "mid \<notin> tm_id ` set ms"
    "t = \<lparr>t_id = tid, t_name = n, t_slug = s, t_ownerId = u\<rparr>"
    "m = \<lparr>tm_id = mid, tm_teamId = tid, tm_userId = u, tm_role = Owner, tm_businessRoles = b\<rparr>"
  shows "team_tables_ok (insert_row t ts) (insert_row m ms) invs"
proof -
  have no: "tm_teamId q \<noteq> tid" if "q \<in> set ms" for q
    using assms(1,2) that by (auto simp: team_tables_ok_def)
  have keys: "unique_key t_id (insert_row t ts)" "unique_key tm_id (insert_row m ms)"
    "unique_key member_key (insert_row m ms)"
    using assms no
    by (auto simp: team_tables_ok_def member_key_def intro!: unique_key_insert_row)
  have "owner_agrees q (insert_row m ms)" if "q \<in> set (insert_row t ts)" for q
    using that no assms by (auto simp: team_tables_ok_def owner_agrees_def)
  then show ?thesis using keys assms by (auto simp: team_tables_ok_def)
qed

lemma team_ok_drop_team:
  assumes "team_tables_ok ts ms invs"
  shows "team_tables_ok (delete_where (\<lambda>t. t_id t = tid) ts)
    (delete_where (\<lambda>m. tm_teamId m = tid) ms) (delete_where (\<lambda>i. ti_teamId i = tid) invs)"
proof -
  have "owner_agrees t (delete_where (\<lambda>m. tm_teamId m = tid) ms)"
    if "t \<in> set ts" "t_id t \<noteq> tid" for t
  proof -
    have "owner_agrees t ms" using assms that by (simp add: team_tables_ok_def)
    then show ?thesis using that(2) unfolding owner_agrees_def set_delete_where by fastforce
  qed
  then show ?thesis
    using assms by (auto simp: team_tables_ok_def intro: keyed_intros)
qed

lemma team_ok_update_role:
  assumes "team_tables_ok ts ms invs" "target \<in> set ms" "tm_role target \<noteq> Owner"
    "\<And>m. tm_id (f m) = tm_id m \<and> tm_teamId (f m) = tm_teamId m \<and> tm_userId (f m) = tm_userId m"
    "tm_role (f target) \<noteq> Owner"
    "\<And>m. m \<in> set ms \<Longrightarrow> p m \<Longrightarrow> m = target"
  shows "team_tables_ok ts (update_where p f ms) invs"
proof -
  have keys: "unique_key tm_id (update_where p f ms)" "unique_key member_key (update_where p f ms)"
    using assms(1,4) by (auto simp: team_tables_ok_def member_key_def intro!: unique_key_update_where)
  have upd: "(if p m then f m else m) = (if p m then f target else m)" if "m \<in> set ms" for m
    using assms(6) that by auto
  have agree: "owner_agrees t (update_where p f ms)" if t: "t \<in> set ts" for t
  proof -
    have o: "owner_agrees t ms" using assms(1) t by (simp add: team_tables_ok_def)
    have "tm_userId target \<noteq> t_ownerId t" if "tm_teamId target = t_id t"
      using owner_agrees_role [OF o assms(2) that] assms(3) by simp
    then show ?thesis
      using o assms(4,5,6) unfolding owner_agrees_def in_update_where Ball_def set_update_where Bex_def
      by (smt (verit) image_iff)
  qed
  show ?thesis
    using assms(1,4) keys agree by (auto simp: team_tables_ok_def in_update_where)
qed

lemma team_ok_same_roles:
  assumes "team_tables_ok ts ms invs"
    "\<And>m. tm_id (f m) = tm_id m \<and> tm_teamId (f m) = tm_teamId m \<and> tm_userId (f m) = tm_userId m \<and>
      tm_role (f m) = tm_role m"
  shows "team_tables_ok ts (update_where p f ms) invs"
proof -
  have "owner_agrees t (update_where p f ms)" if "owner_agrees t ms" for t
    using that assms(2) unfolding owner_agrees_def in_update_where Ball_def Bex_def
    by (smt (verit))
  moreover have "unique_key tm_id (update_where p f ms)" "unique_key member_key (update_where p f ms)"
    using assms by (auto simp: team_tables_ok_def member_key_def intro!: unique_key_update_where)
  ultimately show ?thesis
    using assms by (auto simp: team_tables_ok_def in_update_where)
qed

lemma team_ok_remove_member:
  assumes "team_tables_ok ts ms invs" "target \<in> set ms" "tm_role target \<noteq> Owner"
  shows "team_tables_ok ts (delete_where (\<lambda>m. tm_id m = tm_id target) ms) invs"
proof -
  have same: "m = target" if "m \<in> set ms" "tm_id m = tm_id target" for m
    using unique_key_eq [of tm_id ms m target] assms(1,2) that by (simp add: team_tables_ok_def)
  have "owner_agrees t (delete_where (\<lambda>m. tm_id m = tm_id target) ms)" if t: "t \<in> set ts" for t
  proof -
    have o: "owner_agrees t ms" using assms(1) t by (simp add: team_tables_ok_def)
    obtain w where w: "w \<in> set ms" "tm_teamId w = t_id t" "tm_userId w = t_ownerId t"
      using o by (auto simp: owner_agrees_def)
    then have "tm_role w = Owner" using owner_agrees_role [OF o] by simp
    then have "tm_id w \<noteq> tm_id target" using same [OF w(1)] assms(3) by auto
    then show ?thesis using o w by (auto simp: owner_agrees_def)
  qed
  then show ?thesis using assms(1) by (auto simp: team_tables_ok_def intro: keyed_intros)
qed

lemma team_ok_add_member:
  assumes "team_tables_ok ts ms invs" "tm_id m \<notin> tm_id ` set ms"
    "\<forall>q \<in> set ms. member_key q \<noteq> member_key m"
    "tm_teamId m \<in> t_id ` set ts" "tm_role m \<noteq> Owner"
  shows "team_tables_ok ts (insert_row m ms) invs"
proof -
  have "owner_agrees t (insert_row m ms)" if t: "t \<in> set ts" for t
  proof -
    have o: "owner_agrees t ms" using assms(1) t by (simp add: team_tables_ok_def)
    then have "tm_userId m \<noteq> t_ownerId t" if "tm_teamId m = t_id t"
      using assms(3) that by (auto simp: owner_agrees_def member_key_def)
    then show ?thesis using o assms(5) by (auto simp: owner_agrees_def)
  qed
  moreover have "unique_key member_key (insert_row m ms)"
    using assms(1,3) by (intro unique_key_insert_row) (auto simp: team_tables_ok_def image_iff eq_commute)
  ultimately show ?thesis
    using assms(1,2,4) by (auto simp: team_tables_ok_def intro: keyed_intros)
qed

lemma team_ok_add_invitation:
  assumes "team_tables_ok ts ms invs" "ti_teamId i \<in> t_id ` set ts" "ti_role i \<noteq> Owner"
  shows "team_tables_ok ts ms (insert_row i invs)"
  using assms by (auto simp: team_tables_ok_def)

text \<open>The row a member ends with after the two role updates of a transfer.\<close>

definition transferred :: "team_id \<Rightarrow> user_id \<Rightarrow> user_id \<Rightarrow> member_row \<Rightarrow> member_row" where
  "transferred teamId userId newOwnerId m =
     (if tm_teamId m = teamId \<and> tm_userId m = userId then m\<lparr>tm_role := Admin\<rparr>
      else if tm_teamId m = teamId \<and> tm_userId m = newOwnerId then m\<lparr>tm_role := Owner\<rparr>
      else m)"

lemma transferred_keys [simp]:
  "tm_id (transferred t u w m) = tm_id m" "tm_teamId (transferred t u w m) = tm_teamId m"
  "tm_userId (transferred t u w m) = tm_userId m"
  by (simp_all add: transferred_def)

lemma role_after_transfer:
  "map_option tm_role (find_first (\<lambda>m. tm_teamId m = t \<and> tm_userId m = x) (map (transferred tid u w) ms)) =
   map_option (\<lambda>r. if t = tid \<and> x = u then Admin else if t = tid \<and> x = w then Owner else r)
     (map_option tm_role (find_first (\<lambda>m. tm_teamId m = t \<and> tm_userId m = x) ms))"
  by (induction ms) (auto simp: transferred_def)

lemma team_ok_transfer:
  assumes ok: "team_tables_ok ts ms invs" and old: "t \<in> set ts" "t_id t = teamId" "t_ownerId t = u"
    and new: "m \<in> set ms" "tm_teamId m = teamId" "tm_userId m = w" "w \<noteq> u"
  shows "team_tables_ok (update_where (\<lambda>t. t_id t = teamId) (\<lambda>t. t\<lparr>t_ownerId := w\<rparr>) ts)
    (map (transferred teamId u w) ms) invs"
proof -
  have "map member_key (map (transferred teamId u w) ms) = map member_key ms"
    "map tm_id (map (transferred teamId u w) ms) = map tm_id ms"
    by (simp_all add: member_key_def)
  then have "unique_key tm_id (map (transferred teamId u w) ms)"
    "unique_key member_key (map (transferred teamId u w) ms)"
    using ok unfolding team_tables_ok_def unique_key_def by metis+
  moreover have "unique_key t_id (update_where (\<lambda>t. t_id t = teamId) (\<lambda>t. t\<lparr>t_ownerId := w\<rparr>) ts)"
    using ok by (auto simp: team_tables_ok_def intro: keyed_intros)
  moreover have "owner_agrees q (map (transferred teamId u w) ms)"
    if q: "q \<in> set ts" "t_id q \<noteq> teamId" for q
    using ok q by (fastforce simp: team_tables_ok_def owner_agrees_def transferred_def)
  moreover have "owner_agrees (q\<lparr>t_ownerId := w\<rparr>) (map (transferred teamId u w) ms)"
    if q: "q \<in> set ts" "t_id q = teamId" for q
  proof -
    have "q = t" using unique_key_eq [of t_id ts q t] ok old q by (simp add: team_tables_ok_def)
    then have o: "owner_agrees q ms" "t_ownerId q = u" using ok q(1) old by (simp_all add: team_tables_ok_def)
    then have "tm_role (transferred teamId u w x) = Owner \<longleftrightarrow> tm_userId x = w"
      if "x \<in> set ms" "tm_teamId x = teamId" for x
      using that q(2) new(4) owner_agrees_role [OF o(1) that(1)] by (auto simp: transferred_def)
    then show ?thesis using new q(2) by (auto simp: owner_agrees_def)
  qed
  moreover have ids: "t_id ` set (update_where (\<lambda>t. t_id t = teamId) (\<lambda>t. t\<lparr>t_ownerId := w\<rparr>) ts)
      = t_id ` set ts"
  proof -
    have "map t_id (update_where (\<lambda>t. t_id t = teamId) (\<lambda>t. t\<lparr>t_ownerId := w\<rparr>) ts) = map t_id ts"
      by (simp add: update_where_def)
    then show ?thesis by (metis list.set_map)
  qed
  ultimately show ?thesis
    using ok unfolding team_tables_ok_def ids by (auto simp: in_update_where)
qed

section \<open>Every route keeps it\<close>

lemma createTeam_inv:
  assumes "team_inv st" "tid \<notin> t_id ` set (teams_t st)" "mid \<notin> tm_id ` set (members_t st)"
    "createTeam env session body tid mid st = (r, st')"
  shows "team_inv st'"
  using assms
  by (auto simp: createTeam_def team_inv_def split: option.splits if_splits
      intro!: team_ok_new_team)

lemma deleteTeam_inv:
  assumes "team_inv st" "deleteTeam session now tid st = (r, st')"
  shows "team_inv st'"
  using assms team_ok_drop_team
  by (auto simp: deleteTeam_def deleteTeam_tx_def team_inv_def Let_def split: option.splits sum.splits)

lemma updateMember_effect:
  assumes "updateMember session tid mid body st = (r, st')"
  shows "st' = st \<or> (\<exists>u actor target upd.
      session = Some u \<and> r = Reply 200 [] \<and>
      checkTeamPermission st u tid MEMBER_UPDATE_ROLE = Inr () \<and>
      checkTeamAccess st u tid = Inr actor \<and>
      find_first (\<lambda>m. tm_id m = mid \<and> tm_teamId m = tid) (members_t st) = Some target \<and>
      parseMemberUpdate body = Inr upd \<and>
      (\<forall>role. mu_role upd = Some role \<longrightarrow> canChangeRole actor (tm_role target) role = Inr ()) \<and>
      teams_t st' = teams_t st \<and> invitations_t st' = invitations_t st \<and>
      members_t st' = update_where (\<lambda>m. tm_id m = mid \<and> tm_teamId m = tid)
        (apply_member_update upd) (members_t st))"
  using assms unfolding updateMember_def Let_def
  by (elim guard_elims Pair_inject; hypsubst_thin?) simp_all

lemma updateMember_inv:
  assumes inv: "team_inv st" and run: "updateMember session tid mid body st = (r, st')"
  shows "team_inv st'"
proof (cases "st' = st")
  case False
  obtain u actor target upd where written:
      "find_first (\<lambda>m. tm_id m = mid \<and> tm_teamId m = tid) (members_t st) = Some target"
      "\<And>role. mu_role upd = Some role \<Longrightarrow> canChangeRole actor (tm_role target) role = Inr ()"
      "teams_t st' = teams_t st" "invitations_t st' = invitations_t st"
      "members_t st' = update_where (\<lambda>m. tm_id m = mid \<and> tm_teamId m = tid)
        (apply_member_update upd) (members_t st)"
    using updateMember_effect [OF run] False by blast
  have tok: "team_tables_ok (teams_t st) (members_t st) (invitations_t st)"
    using inv by (simp add: team_inv_def)
  have target: "target \<in> set (members_t st)" "tm_id target = mid"
    using find_first_Some [OF written(1)] by auto
  have only: "m = target" if "m \<in> set (members_t st)" "tm_id m = mid \<and> tm_teamId m = tid" for m
    using unique_key_eq [of tm_id _ m target] tok target that by (auto simp: team_tables_ok_def)
  have "team_tables_ok (teams_t st) (update_where (\<lambda>m. tm_id m = mid \<and> tm_teamId m = tid)
        (apply_member_update upd) (members_t st)) (invitations_t st)"
  proof (cases "mu_role upd")
    case None
    show ?thesis
      by (rule team_ok_same_roles [OF tok]) (simp add: apply_member_update_def None)
  next
    case (Some role)
    then have "tm_role target \<noteq> Owner" "role \<noteq> Owner"
      using written(2) by (auto simp: canChangeRole_ok)
    then show ?thesis
      by (intro team_ok_update_role [OF tok target(1)] only) (auto simp: apply_member_update_def Some)
  qed
  then show ?thesis using written by (simp add: team_inv_def)
qed (simp add: inv)

lemma removeMember_effect:
  assumes "removeMember session now tid mid st = (r, st')"
  shows "st' = st \<and> r \<noteq> Reply 200 [] \<or> (\<exists>u actor target.
      session = Some u \<and> r = Reply 200 [] \<and>
      checkTeamAccess st u tid = Inr actor \<and>
      find_first (\<lambda>m. tm_id m = mid \<and> tm_teamId m = tid) (members_t st) = Some target \<and>
      (tm_userId target \<noteq> u \<longrightarrow> checkTeamPermission st u tid MEMBER_REMOVE = Inr ()) \<and>
      canRemoveMember actor (tm_role target) (tm_userId target = u) = Inr () \<and>
      teams_t st' = teams_t st \<and> invitations_t st' = invitations_t st \<and>
      members_t st' = delete_where (\<lambda>m. tm_id m = mid) (members_t st) \<and>
      api_keys_t st' = update_where (activeTeamKey tid (Some (tm_userId target)))
        (\<lambda>k. k\<lparr>k_revokedAt := Some now\<rparr>) (api_keys_t st))"
  using assms unfolding removeMember_def Let_def
  by (elim guard_elims Pair_inject; hypsubst_thin?) simp_all

lemma removeMember_inv:
  assumes "team_inv st" "removeMember session now tid mid st = (r, st')"
  shows "team_inv st'"
proof (cases "st' = st")
  case False
  obtain u actor target where removed:
      "find_first (\<lambda>m. tm_id m = mid \<and> tm_teamId m = tid) (members_t st) = Some target"
      "canRemoveMember actor (tm_role target) (tm_userId target = u) = Inr ()"
      "teams_t st' = teams_t st" "invitations_t st' = invitations_t st"
      "members_t st' = delete_where (\<lambda>m. tm_id m = mid) (members_t st)"
    using removeMember_effect [OF assms(2)] False by blast
  have "target \<in> set (members_t st)" "tm_id target = mid"
    using find_first_Some [OF removed(1)] by auto
  then show ?thesis
    using team_ok_remove_member [of "teams_t st" "members_t st" "invitations_t st" target]
      removed assms(1) by (simp add: team_inv_def canRemoveMember_ok)
qed (simp add: assms(1))

lemma transfer_tx_tables:
  assumes "transfer_tx env tid u w st = (v, st')"
  shows "st' = st \<or>
    (checkTeamOwnerEligibility env st w tid = Eligible \<and>
     teams_t st' = update_where (\<lambda>t. t_id t = tid) (\<lambda>t. t\<lparr>t_ownerId := w\<rparr>) (teams_t st) \<and>
     invitations_t st' = invitations_t st \<and>
     members_t st' = map (transferred tid u w) (members_t st))"
  using assms
  by (cases "checkTeamOwnerEligibility env st w tid")
    (auto simp: transfer_tx_def set_member_role_def update_where_def transferred_def Let_def)

lemma transfer_check_ok:
  assumes "transfer_check session tid body st = Inr (u, w)"
  shows "session = Some u \<and> checkTeamPermission st u tid TEAM_TRANSFER = Inr () \<and> w \<noteq> u \<and>
    (\<exists>m \<in> set (members_t st). tm_teamId m = tid \<and> tm_userId m = w)"
  using assms
  by (fastforce simp: transfer_check_def find_first_None split: option.splits sum.splits json.splits if_splits)

lemma transfer_finish_tables:
  assumes "transfer_finish env tid u w st = (r, st')"
  obtains v st1 where "transfer_tx env tid u w st = (v, st1)" "teams_t st' = teams_t st1"
    "members_t st' = members_t st1" "invitations_t st' = invitations_t st1"
proof -
  obtain v st1 where tx: "transfer_tx env tid u w st = (v, st1)"
    by (cases "transfer_tx env tid u w st") auto
  show thesis
    by (rule that [OF tx]) (use assms tx in \<open>cases v; auto simp: transfer_finish_def\<close>)+
qed

lemma transfer_tx_inv:
  assumes "team_inv st" "checkTeamPermission st u tid TEAM_TRANSFER = Inr ()" "w \<noteq> u"
    "m \<in> set (members_t st)" "tm_teamId m = tid" "tm_userId m = w"
    "transfer_tx env tid u w st = (v, st')"
  shows "team_inv st'"
proof -
  have tok: "team_tables_ok (teams_t st) (members_t st) (invitations_t st)"
    using assms(1) by (simp add: team_inv_def)
  obtain role where "getTeamMemberRole st u tid = Some role" "hasPermission role TEAM_TRANSFER"
    using assms(2) by (auto simp: checkTeamPermission_ok)
  then obtain q where q: "q \<in> set (members_t st)" "tm_teamId q = tid" "tm_userId q = u" "tm_role q = Owner"
    using getTeamMemberRole_row hasPermission_transfer by metis
  obtain t where t: "t \<in> set (teams_t st)" "t_id t = tid"
    using tok assms(4,5) by (auto simp: team_tables_ok_def)
  then have "t_ownerId t = u"
    using owner_agrees_role [of t _ q] tok q by (auto simp: team_tables_ok_def)
  then show ?thesis
    using team_ok_transfer [OF tok t _ assms(4-6,3)] transfer_tx_tables [OF assms(7)] assms(1)
    by (auto simp: team_inv_def)
qed

lemma transferOwnership_inv:
  assumes "team_inv st" "transferOwnership env session tid body st = (r, st')"
  shows "team_inv st'"
proof (cases "transfer_check session tid body st")
  case (Inl e)
  then show ?thesis using assms by (simp add: transferOwnership_def)
next
  case (Inr uw)
  obtain u w where uw: "transfer_check session tid body st = Inr (u, w)" using Inr by (cases uw) auto
  obtain v st1 where tx: "transfer_tx env tid u w st = (v, st1)" "teams_t st' = teams_t st1"
      "members_t st' = members_t st1" "invitations_t st' = invitations_t st1"
    using assms(2) uw by (auto simp: transferOwnership_def elim: transfer_finish_tables)
  have "team_inv st1"
    using transfer_check_ok [OF uw] transfer_tx_inv [OF assms(1) _ _ _ _ _ tx(1)] by blast
  then show ?thesis using tx(2-4) team_inv_same_tables by metis
qed

lemma team_ok_rename:
  assumes "team_tables_ok ts ms invs" "\<And>t. t_id (f t) = t_id t \<and> t_ownerId (f t) = t_ownerId t"
  shows "team_tables_ok (update_where p f ts) ms invs"
proof -
  have "map t_id (update_where p f ts) = map t_id ts"
    using assms(2) by (simp add: update_where_def)
  then have ids: "t_id ` set (update_where p f ts) = t_id ` set ts" "unique_key t_id (update_where p f ts)"
    using assms(1) unfolding team_tables_ok_def unique_key_def by (metis list.set_map)+
  then show ?thesis
    using assms unfolding team_tables_ok_def ids by (auto simp: in_update_where owner_agrees_def)
qed

lemma updateTeam_inv:
  assumes "team_inv st" "updateTeam session tid body st = (r, st')"
  shows "team_inv st'"
  using assms unfolding updateTeam_def
  by (elim guard_elims Pair_inject) (auto simp: team_inv_def intro!: team_ok_rename)

lemma createInvitation_inv:
  assumes inv: "team_inv st"
    and run: "createInvitation env session now tid body newId tok st = (r, st')"
  shows "team_inv st'"
proof (cases "invitations_t st' = invitations_t st")
  case True
  have "teams_t st' = teams_t st \<and> members_t st' = members_t st"
    using run unfolding createInvitation_def Let_def
    by (elim guard_elims Pair_inject) (auto split: option.splits)
  then show ?thesis using inv True by (simp add: team_inv_same_tables)
next
  case False
  obtain u role s i where
    p: "checkTeamPermission st u tid INVITATION_CREATE = Inr ()" and r: "role_of_string s = Some role"
    and tabs: "teams_t st' = teams_t st" "members_t st' = members_t st"
    and i: "invitations_t st' = insert_row i (invitations_t st)" "ti_teamId i = tid" "ti_role i = role"
    using run False unfolding createInvitation_def Let_def
    by (elim guard_elims Pair_inject) (auto split: option.splits json.splits)
  obtain q where "q \<in> set (members_t st)" "tm_teamId q = tid"
    using p getTeamMemberRole_row by (force simp: checkTeamPermission_ok)
  then have "tid \<in> t_id ` set (teams_t st)" using inv by (auto simp: team_inv_def team_tables_ok_def)
  then show ?thesis
    using team_ok_add_invitation [of "teams_t st" "members_t st" "invitations_t st" i] inv tabs i
      role_of_string_not_owner [OF r]
    by (simp add: team_inv_def)
qed

lemma revokeInvitation_inv:
  assumes "team_inv st" "revokeInvitation session tid iid st = (r, st')"
  shows "team_inv st'"
  using assms unfolding revokeInvitation_def
  by (elim guard_elims Pair_inject) (auto simp: team_inv_def intro: team_tables_ok_drop_invitations)

lemma declineInvitation_inv:
  assumes "team_inv st" "declineInvitation session iid st = (r, st')"
  shows "team_inv st'"
  using assms unfolding declineInvitation_def Let_def
  by (elim guard_elims Pair_inject) (auto simp: team_inv_def intro: team_tables_ok_drop_invitations)

lemma accept_tx_inv:
  assumes inv: "team_inv st" and i: "ti_teamId i \<in> t_id ` set (teams_t st)" "ti_role i \<noteq> Owner"
    and fresh: "mid \<notin> tm_id ` set (members_t st)" and run: "accept_tx env u i mid st = Inr st'"
  shows "team_inv st'"
proof -
  have tabs: "\<forall>m \<in> set (members_t st). member_key m \<noteq> (ti_teamId i, u)"
    "teams_t st' = teams_t st"
    "invitations_t st' = delete_where (\<lambda>q. ti_id q = ti_id i) (invitations_t st)"
    "members_t st' = insert_row \<lparr>tm_id = mid, tm_teamId = ti_teamId i, tm_userId = u,
       tm_role = ti_role i, tm_businessRoles = []\<rparr> (members_t st)"
    using run unfolding accept_tx_def by (auto elim!: guard_elims)
  then show ?thesis
    using i fresh inv
    by (auto simp: team_inv_def member_key_def intro!: team_ok_add_member team_tables_ok_drop_invitations)
qed

lemma acceptInvitation_effect:
  assumes "acceptInvitation env session now token iid mid st = (r, st')"
  shows "teams_t st' = teams_t st \<and> api_keys_t st' = api_keys_t st \<and>
    (members_t st' = members_t st \<and> (\<exists>p. invitations_t st' = delete_where p (invitations_t st)) \<or>
     (\<exists>u i st1. session = Some u \<and> i \<in> set (invitations_t st) \<and> now \<le> ti_expiresAt i \<and>
        accept_tx env u i mid st = Inr st1 \<and>
        members_t st' = members_t st1 \<and> invitations_t st' = invitations_t st1))"
proof -
  have same: "\<exists>p. invs = delete_where p (invs :: invitation_row table)" for invs
    using delete_where_none [of invs "\<lambda>_. False"] by metis
  have eff: "teams_t (accept_effects env u i q) = teams_t q" "api_keys_t (accept_effects env u i q) = api_keys_t q"
    "members_t (accept_effects env u i q) = members_t q"
    "invitations_t (accept_effects env u i q) = invitations_t q" for u i q
    by (auto simp: accept_effects_def Let_def split: option.splits)
  have tx: "teams_t st1 = teams_t st" "api_keys_t st1 = api_keys_t st"
    if "accept_tx env u i mid st = Inr st1" for u i st1
    using that unfolding accept_tx_def by (auto elim!: guard_elims)
  show ?thesis
    using assms unfolding acceptInvitation_def Let_def
    by (elim guard_elims Pair_inject) (auto simp: same eff tx dest: find_first_Some)
qed

lemma acceptInvitation_inv:
  assumes inv: "team_inv st" and fresh: "mid \<notin> tm_id ` set (members_t st)"
    and run: "acceptInvitation env session now token iid mid st = (r, st')"
  shows "team_inv st'"
proof (cases "members_t st' = members_t st \<and> (\<exists>p. invitations_t st' = delete_where p (invitations_t st))")
  case True
  then show ?thesis
    using inv acceptInvitation_effect [OF run] team_tables_ok_drop_invitations
    by (auto simp: team_inv_def)
next
  case False
  obtain u i st1 where i: "i \<in> set (invitations_t st)" "accept_tx env u i mid st = Inr st1"
    "members_t st' = members_t st1" "invitations_t st' = invitations_t st1"
    using acceptInvitation_effect [OF run] False by blast
  have "teams_t st' = teams_t st" "teams_t st1 = teams_t st"
    using acceptInvitation_effect [OF run] i(2) unfolding accept_tx_def by (auto elim!: guard_elims)
  moreover have "team_inv st1"
    using inv i(1) by (intro accept_tx_inv [OF inv _ _ fresh i(2)]) (auto simp: team_inv_def team_tables_ok_def)
  ultimately show ?thesis using i(3,4) by (simp add: team_inv_def)
qed

lemma removed_member_role:
  assumes "team_inv st" "removeMember session now tid mid st = (Reply 200 [], st')"
  obtains target where "find_first (\<lambda>m. tm_id m = mid \<and> tm_teamId m = tid) (members_t st) = Some target"
    "set (members_t st') = set (members_t st) - {target}"
    "getTeamMemberRole st' (tm_userId target) tid = None"
proof -
  obtain target where t:
      "find_first (\<lambda>m. tm_id m = mid \<and> tm_teamId m = tid) (members_t st) = Some target"
      "members_t st' = delete_where (\<lambda>m. tm_id m = mid) (members_t st)"
    using removeMember_effect [OF assms(2)] by blast
  have target: "target \<in> set (members_t st)" "tm_id target = mid" "tm_teamId target = tid"
    using find_first_Some [OF t(1)] by auto
  have keys: "unique_key tm_id (members_t st)" "unique_key member_key (members_t st)"
    using assms(1) by (simp_all add: team_inv_def team_tables_ok_def)
  have rest: "set (members_t st') = set (members_t st) - {target}"
    using unique_key_eq [OF keys(1) _ target(1)] target(2) t(2) by auto
  have "getTeamMemberRole st' (tm_userId target) tid = None"
    using rest unique_key_eq [OF keys(2) _ target(1)] target(3)
    by (auto simp: getTeamMemberRole_def find_first_None member_key_def)
  then show thesis using that t(1) rest by blast
qed

section \<open>Reachable states\<close>

text \<open>
  One step is one request, with the ids the route draws not used before, or any write that
  leaves teams, members and invitations as they are.
\<close>

inductive team_step :: "team_env \<Rightarrow> store \<Rightarrow> store \<Rightarrow> bool" for env where
  create: "createTeam env session body tid mid st = (r, st') \<Longrightarrow>
    tid \<notin> t_id ` set (teams_t st) \<Longrightarrow> mid \<notin> tm_id ` set (members_t st) \<Longrightarrow> team_step env st st'"
| delete: "deleteTeam session now tid st = (r, st') \<Longrightarrow> team_step env st st'"
| rename: "updateTeam session tid body st = (r, st') \<Longrightarrow> team_step env st st'"
| change: "updateMember session tid mid body st = (r, st') \<Longrightarrow> team_step env st st'"
| remove: "removeMember session now tid mid st = (r, st') \<Longrightarrow> team_step env st st'"
| transfer: "transferOwnership env session tid body st = (r, st') \<Longrightarrow> team_step env st st'"
| invite: "createInvitation env session now tid body iid tok st = (r, st') \<Longrightarrow> team_step env st st'"
| revoke: "revokeInvitation session tid iid st = (r, st') \<Longrightarrow> team_step env st st'"
| accept: "acceptInvitation env session now token iid' mid st = (r, st') \<Longrightarrow>
    mid \<notin> tm_id ` set (members_t st) \<Longrightarrow> team_step env st st'"
| decline: "declineInvitation session iid' st = (r, st') \<Longrightarrow> team_step env st st'"
| other: "teams_t st' = teams_t st \<Longrightarrow> members_t st' = members_t st \<Longrightarrow>
    invitations_t st' = invitations_t st \<Longrightarrow> team_step env st st'"

inductive team_reachable :: "team_env \<Rightarrow> store \<Rightarrow> bool" for env where
  start: "team_reachable env empty_store"
| step: "team_reachable env st \<Longrightarrow> team_step env st st' \<Longrightarrow> team_reachable env st'"

lemma team_step_inv:
  assumes "team_step env st st'" "team_inv st"
  shows "team_inv st'"
  using assms(1)
proof (cases rule: team_step.cases)
  case create
  show ?thesis by (rule createTeam_inv [OF assms(2) create(2,3,1)])
next
  case delete
  show ?thesis by (rule deleteTeam_inv [OF assms(2) delete])
next
  case rename
  show ?thesis by (rule updateTeam_inv [OF assms(2) rename])
next
  case change
  show ?thesis by (rule updateMember_inv [OF assms(2) change])
next
  case remove
  show ?thesis by (rule removeMember_inv [OF assms(2) remove])
next
  case transfer
  show ?thesis by (rule transferOwnership_inv [OF assms(2) transfer])
next
  case invite
  show ?thesis by (rule createInvitation_inv [OF assms(2) invite])
next
  case revoke
  show ?thesis by (rule revokeInvitation_inv [OF assms(2) revoke])
next
  case accept
  show ?thesis by (rule acceptInvitation_inv [OF assms(2) accept(2,1)])
next
  case decline
  show ?thesis by (rule declineInvitation_inv [OF assms(2) decline])
next
  case other
  show ?thesis by (rule team_inv_same_tables [OF assms(2) other])
qed

lemma team_reachable_inv: "team_reachable env st \<Longrightarrow> team_inv st"
proof (induction rule: team_reachable.induct)
  case start
  show ?case by (simp add: team_inv_def team_tables_ok_def empty_store_def)
next
  case (step st st')
  then show ?case using team_step_inv by blast
qed

lemma team_inv_one_owner:
  assumes "team_inv st" "t \<in> set (teams_t st)"
  shows "(\<exists>!m. m \<in> set (members_t st) \<and> tm_teamId m = t_id t \<and> tm_role m = Owner) \<and>
    getTeamMemberRole st (t_ownerId t) (t_id t) = Some Owner"
proof -
  have o: "owner_agrees t (members_t st)" and k: "unique_key member_key (members_t st)"
    using assms by (simp_all add: team_inv_def team_tables_ok_def)
  obtain m where m: "m \<in> set (members_t st)" "tm_teamId m = t_id t" "tm_userId m = t_ownerId t"
    using o by (auto simp: owner_agrees_def)
  then have r: "tm_role m = Owner" using owner_agrees_role [OF o] by simp
  have only: "q = m" if "q \<in> set (members_t st)" "tm_teamId q = t_id t" "tm_role q = Owner" for q
  proof (rule unique_key_eq [OF k that(1) m(1)])
    show "member_key q = member_key m"
      using owner_agrees_role [OF o that(1,2)] that m by (simp add: member_key_def)
  qed
  have "\<exists>!m. m \<in> set (members_t st) \<and> tm_teamId m = t_id t \<and> tm_role m = Owner"
    by (rule ex1I [of _ m]) (simp add: m r, blast intro: only)
  moreover have "getTeamMemberRole st (t_ownerId t) (t_id t) = Some Owner"
    using getTeamMemberRole_unique [OF k m(1)] m r by simp
  ultimately show ?thesis ..
qed

section \<open>Properties\<close>

text \<open>A deployment without plan limits, for the examples below.\<close>

definition open_env :: team_env where
  "open_env = \<lparr>teamFeatures = (\<lambda>_ _. True), maxTeamMembers = (\<lambda>_. -1),
     approvalRequired = (\<lambda>_. False), isSaas = False\<rparr>"



text \<open>
  the transaction of the accept route never overfills a team, whatever the state was when
  the invitation was read: when it commits and the owner's plan has a member limit, the member
  count after the insert is at most that limit, and the new row is the only one of the user in
  the team, with the role of the invitation.
\<close>

theorem accept_never_overfills:
  assumes "accept_tx env u i mid st = Inr st'"
    "lockTeamRow (ti_teamId i) st = Some ow" "memberLimitOf env st ow = Some limit" "limit \<noteq> -1"
  shows "int (memberCountOf st' (ti_teamId i)) \<le> limit \<and>
    memberCountOf st' (ti_teamId i) = Suc (memberCountOf st (ti_teamId i)) \<and>
    getTeamMemberRole st u (ti_teamId i) = None \<and>
    getTeamMemberRole st' u (ti_teamId i) = Some (ti_role i) \<and>
    i \<notin> set (invitations_t st')"
proof -
  have none: "find_first (\<lambda>m. tm_teamId m = ti_teamId i \<and> tm_userId m = u) (members_t st) = None"
    and seat: "int (memberCountOf st (ti_teamId i)) < limit"
    and ms: "members_t st' = insert_row \<lparr>tm_id = mid, tm_teamId = ti_teamId i, tm_userId = u,
       tm_role = ti_role i, tm_businessRoles = []\<rparr> (members_t st)"
    and invs: "invitations_t st' = delete_where (\<lambda>q. ti_id q = ti_id i) (invitations_t st)"
    using assms unfolding accept_tx_def teamSeatAvailable_def
    by (auto simp: find_first_None member_key_def elim!: guard_elims)
  have "find_first (\<lambda>m. tm_teamId m = ti_teamId i \<and> tm_userId m = u) (members_t st') =
     Some \<lparr>tm_id = mid, tm_teamId = ti_teamId i, tm_userId = u, tm_role = ti_role i, tm_businessRoles = []\<rparr>"
    using none unfolding ms by (rule find_first_insert_new) simp
  then show ?thesis
    using none seat invs by (simp add: memberCountOf_def ms getTeamMemberRole_def)
qed

theorem accept_never_overfills_witness:
  "int (memberCountOf (empty_store\<lparr>users_t := [user_named ''u1''], teams_t := [team_owned ''t1'' ''u1''],
     members_t := [member_of ''m1'' ''t1'' ''u1'' Owner, member_of ''m2'' ''t1'' ''u2'' Member]\<rparr>) ''t1'') \<le> 2"
  (is "int (memberCountOf ?st' _) \<le> 2")
proof -
  let ?i = "\<lparr>ti_id = ''i1'', ti_teamId = ''t1'', ti_email = ''b@x.io'', ti_role = Member, ti_token = ''k'', ti_expiresAt = 9\<rparr>"
  let ?st = "?st'\<lparr>members_t := butlast (members_t ?st'), invitations_t := [?i]\<rparr>"
  let ?env = "open_env\<lparr>maxTeamMembers := (\<lambda>_. 2)\<rparr>"
  have run: "accept_tx ?env ''u2'' ?i ''m2'' ?st = Inr ?st'"
    by code_simp
  have ow: "lockTeamRow (ti_teamId ?i) ?st = Some ''u1''" by code_simp
  have lim: "memberLimitOf ?env ?st ''u1'' = Some 2" by code_simp
  show ?thesis using accept_never_overfills [OF run ow lim] by simp
qed

text \<open>
  a successful removal deletes exactly the row of the target,
  and no API key the removed user had for this team stays active, while the keys of every other
  user and of every other team are unchanged. The removed member is never an owner.
\<close>

theorem removed_member_loses_access:
  assumes "team_inv st" "removeMember session now tid mid st = (Reply 200 [], st')"
  shows "\<exists>target \<in> set (members_t st). tm_id target = mid \<and> tm_teamId target = tid \<and>
    tm_role target \<noteq> Owner \<and>
    getTeamMemberRole st' (tm_userId target) tid = None \<and>
    (\<forall>k \<in> set (api_keys_t st'). \<not> activeTeamKey tid (Some (tm_userId target)) k) \<and>
    (\<forall>k \<in> set (api_keys_t st). k_userId k \<noteq> tm_userId target \<or> k_teamId k \<noteq> Some tid \<longrightarrow>
       k \<in> set (api_keys_t st')) \<and>
    set (members_t st') = set (members_t st) - {target}"
proof -
  obtain target where t: "find_first (\<lambda>m. tm_id m = mid \<and> tm_teamId m = tid) (members_t st) = Some target"
    and rest: "set (members_t st') = set (members_t st) - {target}"
    and none: "getTeamMemberRole st' (tm_userId target) tid = None"
    by (rule removed_member_role [OF assms])
  obtain u actor where c: "canRemoveMember actor (tm_role target) (tm_userId target = u) = Inr ()"
    and ks: "api_keys_t st' = update_where (activeTeamKey tid (Some (tm_userId target)))
        (\<lambda>k. k\<lparr>k_revokedAt := Some now\<rparr>) (api_keys_t st)"
    using removeMember_effect [OF assms(2)] t by auto
  have "\<not> activeTeamKey tid (Some (tm_userId target)) k" if "k \<in> set (api_keys_t st')" for k
    using that revokeTeamKeys_none_active [of k now tid "Some (tm_userId target)" st] ks by simp
  moreover have "k \<in> set (api_keys_t st')"
    if "k \<in> set (api_keys_t st)" "k_userId k \<noteq> tm_userId target \<or> k_teamId k \<noteq> Some tid" for k
    using that ks by (auto simp: in_update_where activeTeamKey_def intro!: bexI [of _ k])
  ultimately show ?thesis
    using find_first_Some [OF t] c rest none by (auto simp: canRemoveMember_ok)
qed

theorem removed_member_loses_access_witness:
  "\<not> activeTeamKey ''t1'' (Some ''u2'')
     \<lparr>k_id = ''k1'', k_userId = ''u2'', k_teamId = Some ''t1'', k_key = ''ast_1'', k_expiresAt = None,
      k_revokedAt = Some 5\<rparr>"
proof -
  let ?k = "\<lparr>k_id = ''k1'', k_userId = ''u2'', k_teamId = Some ''t1'', k_key = ''ast_1'', k_expiresAt = None,
      k_revokedAt = None\<rparr>"
  let ?st = "empty_store\<lparr>teams_t := [team_owned ''t1'' ''u1''],
     members_t := [member_of ''m1'' ''t1'' ''u1'' Owner, member_of ''m2'' ''t1'' ''u2'' Member],
     api_keys_t := [?k]\<rparr>"
  let ?run = "removeMember (Some ''u1'') 5 ''t1'' ''m2'' ?st"
  have ok: "fst ?run = Reply 200 []" by code_simp
  have k: "api_keys_t (snd ?run) = [?k\<lparr>k_revokedAt := Some 5\<rparr>]" by code_simp
  have ms: "members_t ?st = [member_of ''m1'' ''t1'' ''u1'' Owner, member_of ''m2'' ''t1'' ''u2'' Member]"
    by simp
  have "team_inv ?st"
    by (simp add: team_inv_def team_tables_ok_def owner_agrees_def member_key_def empty_store_def)
  moreover have "?run = (Reply 200 [], snd ?run)" using ok by (metis prod.collapse)
  ultimately have "\<exists>target \<in> set (members_t ?st). tm_id target = ''m2'' \<and>
      (\<forall>k \<in> set (api_keys_t (snd ?run)). \<not> activeTeamKey ''t1'' (Some (tm_userId target)) k)"
    using removed_member_loses_access [of ?st "Some ''u1''" 5 "''t1''" "''m2''" "snd ?run"] by blast
  then show ?thesis unfolding k ms by simp
qed

text \<open>
  a successful transfer hands the team over completely: \<open>Team.ownerId\<close> is the new owner, whose
  role becomes owner, the requester (who was the owner) becomes admin, every other member row is as
  before, and the new owner's plan carries the team: it has team features and, where it has a
  member limit, the team is within it.
\<close>

theorem transfer_hands_over:
  assumes "team_inv st" "transfer_check session tid body st = Inr (u, w)"
    "transfer_finish env tid u w st = (Reply 200 ''ownership_transferred'', st')"
  shows "session = Some u \<and> u \<noteq> w \<and> getTeamMemberRole st u tid = Some Owner \<and>
    lockTeamRow tid st' = Some w \<and>
    getTeamMemberRole st' w tid = Some Owner \<and> getTeamMemberRole st' u tid = Some Admin \<and>
    (\<forall>x t. (t, x) \<noteq> (tid, u) \<and> (t, x) \<noteq> (tid, w) \<longrightarrow> getTeamMemberRole st' x t = getTeamMemberRole st x t) \<and>
    teamFeatures env st w \<and>
    (\<forall>limit. memberLimitOf env st w = Some limit \<longrightarrow>
       limit = -1 \<or> int (memberCountOf st' tid) \<le> limit)"
proof -
  have tok: "team_tables_ok (teams_t st) (members_t st) (invitations_t st)"
    using assms(1) by (simp add: team_inv_def)
  have ch: "session = Some u" "checkTeamPermission st u tid TEAM_TRANSFER = Inr ()" "w \<noteq> u"
    using transfer_check_ok [OF assms(2)] by simp_all
  obtain mw where mw: "mw \<in> set (members_t st)" "tm_teamId mw = tid" "tm_userId mw = w"
    using transfer_check_ok [OF assms(2)] by blast
  have ru: "getTeamMemberRole st u tid = Some Owner"
    using ch(2) by (auto simp: checkTeamPermission_ok hasPermission_transfer)
  obtain v st1 where tx: "transfer_tx env tid u w st = (v, st1)"
    by (cases "transfer_tx env tid u w st") auto
  have el: "checkTeamOwnerEligibility env st w tid = Eligible" "v = Eligible"
    using assms(3) tx
    by (cases "checkTeamOwnerEligibility env st w tid"; simp add: transfer_finish_def transfer_tx_def)+
  have ms: "members_t st' = map (transferred tid u w) (members_t st)"
    and ts: "teams_t st' = update_where (\<lambda>t. t_id t = tid) (\<lambda>t. t\<lparr>t_ownerId := w\<rparr>) (teams_t st)"
    using assms(3) tx el
    by (auto simp: transfer_finish_def transfer_tx_def set_member_role_def update_where_def
        transferred_def Let_def)
  have role: "getTeamMemberRole st' x t =
      map_option (\<lambda>r. if t = tid \<and> x = u then Admin else if t = tid \<and> x = w then Owner else r)
        (getTeamMemberRole st x t)" for x t
    unfolding getTeamMemberRole_def ms by (rule role_after_transfer)
  have rw: "getTeamMemberRole st w tid \<noteq> None"
    using mw by (auto simp: getTeamMemberRole_def find_first_None)
  obtain t where t: "t \<in> set (teams_t st)" "t_id t = tid"
    using tok mw(1,2) by (auto simp: team_tables_ok_def)
  have "lockTeamRow tid st' = Some w"
    using find_first_in [of t "teams_t st" "\<lambda>t. t_id t = tid"] t
    by (auto simp: lockTeamRow_def ts find_first_update_where dest: find_first_Some)
  moreover have "memberCountOf st' tid = memberCountOf st tid"
    by (simp add: memberCountOf_def ms count_where_def filter_map comp_def)
  ultimately show ?thesis
    using ch ru rw role el(1) by (auto simp: checkTeamOwnerEligibility_def option.map_ident split: if_splits option.splits)
qed

theorem transfer_hands_over_witness:
  "getTeamMemberRole (snd (transferOwnership open_env (Some ''u1'') ''t1'' (JObj [(''newOwnerId'', JStr ''u2'')])
     (empty_store\<lparr>users_t := [user_named ''u1'', user_named ''u2''], teams_t := [team_owned ''t1'' ''u1''],
        members_t := [member_of ''m1'' ''t1'' ''u1'' Owner, member_of ''m2'' ''t1'' ''u2'' Viewer]\<rparr>)))
     ''u2'' ''t1'' = Some Owner"
  (is "getTeamMemberRole (snd (transferOwnership _ _ _ ?body ?st)) _ _ = _")
proof -
  let ?run = "transfer_finish open_env ''t1'' ''u1'' ''u2'' ?st"
  have inv: "team_inv ?st"
    by (simp add: team_inv_def team_tables_ok_def owner_agrees_def member_key_def empty_store_def)
  have ch: "transfer_check (Some ''u1'') ''t1'' ?body ?st = Inr (''u1'', ''u2'')" by code_simp
  have "fst ?run = Reply 200 ''ownership_transferred''" by code_simp
  then have run: "?run = (Reply 200 ''ownership_transferred'', snd ?run)" by (metis prod.collapse)
  show ?thesis
    using transfer_hands_over [OF inv ch run] by (simp add: transferOwnership_def ch)
qed

text \<open>
  the transfer route is not safe when two transfers of the same owner overlap. The permission
  is checked before the transaction and is not checked again under the lock of the team row, so
  two requests that both passed the check both commit: the team then has two owner rows.
\<close>

theorem overlapping_transfers_two_owners:
  "\<exists>st st1 st2. team_inv st \<and>
     transfer_check (Some ''u1'') ''t1'' (JObj [(''newOwnerId'', JStr ''u2'')]) st = Inr (''u1'', ''u2'') \<and>
     transfer_check (Some ''u1'') ''t1'' (JObj [(''newOwnerId'', JStr ''u3'')]) st = Inr (''u1'', ''u3'') \<and>
     transfer_finish open_env ''t1'' ''u1'' ''u2'' st = (Reply 200 ''ownership_transferred'', st1) \<and>
     transfer_finish open_env ''t1'' ''u1'' ''u3'' st1 = (Reply 200 ''ownership_transferred'', st2) \<and>
     count_where (\<lambda>m. tm_teamId m = ''t1'' \<and> tm_role m = Owner) (members_t st2) = 2 \<and>
     \<not> team_inv st2"
proof -
  let ?st = "empty_store\<lparr>users_t := [user_named ''u1'', user_named ''u2'', user_named ''u3''],
     teams_t := [team_owned ''t1'' ''u1''],
     members_t := [member_of ''m1'' ''t1'' ''u1'' Owner, member_of ''m2'' ''t1'' ''u2'' Admin,
       member_of ''m3'' ''t1'' ''u3'' Member]\<rparr>"
  let ?r1 = "transfer_finish open_env ''t1'' ''u1'' ''u2'' ?st"
  let ?r2 = "transfer_finish open_env ''t1'' ''u1'' ''u3'' (snd ?r1)"
  have inv: "team_inv ?st"
    by (simp add: team_inv_def team_tables_ok_def owner_agrees_def member_key_def empty_store_def)
  have c: "transfer_check (Some ''u1'') ''t1'' (JObj [(''newOwnerId'', JStr ''u2'')]) ?st = Inr (''u1'', ''u2'')"
    "transfer_check (Some ''u1'') ''t1'' (JObj [(''newOwnerId'', JStr ''u3'')]) ?st = Inr (''u1'', ''u3'')"
    by code_simp+
  have r: "fst ?r1 = Reply 200 ''ownership_transferred''" "fst ?r2 = Reply 200 ''ownership_transferred''"
    by code_simp+
  have n: "count_where (\<lambda>m. tm_teamId m = ''t1'' \<and> tm_role m = Owner) (members_t (snd ?r2)) = 2"
    by code_simp
  have tabs: "members_t (snd ?r2) = [member_of ''m1'' ''t1'' ''u1'' Admin, member_of ''m2'' ''t1'' ''u2'' Owner,
       member_of ''m3'' ''t1'' ''u3'' Owner]" "teams_t (snd ?r2) = [team_owned ''t1'' ''u3'']"
    by code_simp+
  have "\<not> team_inv (snd ?r2)"
    unfolding team_inv_def tabs by (simp add: team_tables_ok_def owner_agrees_def)
  then show ?thesis
    using inv c r n by (intro exI [of _ ?st] exI [of _ "snd ?r1"] exI [of _ "snd ?r2"])
      (simp only: prod_eq_iff fst_conv snd_conv simp_thms)
qed

text \<open>
  deleting a team leaves nothing that refers to it: no team row, member, invitation, group,
  policy or active API key. No policy is lost: each keeps its id, creator and content, and those
  of the team become private policies of their creators; the cached metadata of every one of them
  is invalidated.
\<close>

theorem delete_team_leaves_no_trace:
  assumes "deleteTeam session now tid st = (Reply 200 [], st')"
  shows "(\<forall>t \<in> set (teams_t st'). t_id t \<noteq> tid) \<and> (\<forall>m \<in> set (members_t st'). tm_teamId m \<noteq> tid) \<and>
    (\<forall>i \<in> set (invitations_t st'). ti_teamId i \<noteq> tid) \<and>
    (\<forall>g \<in> set (groups_t st'). g_teamId g \<noteq> Some tid) \<and>
    (\<forall>k \<in> set (api_keys_t st'). \<not> activeTeamKey tid None k) \<and>
    policies_t st' = map (\<lambda>p. if p_teamId p = Some tid then p\<lparr>p_teamId := None\<rparr> else p) (policies_t st) \<and>
    (\<forall>p \<in> set (policies_t st). p_teamId p = Some tid \<longrightarrow> InvalidatePolicyCache (p_id p) \<in> set (outbox st'))"
proof -
  let ?aff = "map p_id (select_where (\<lambda>p. p_teamId p = Some tid) (policies_t st))"
  obtain u where st': "st' = emit (AdminAction u ''TEAM_DELETED'' tid)
      (emit_all (map InvalidatePolicyCache ?aff) (revokeTeamKeys now tid None (deleteTeam_tx tid st)))"
    using assms unfolding deleteTeam_def Let_def by (elim guard_elims Pair_inject) auto
  have keys: "\<not> activeTeamKey tid None k" if "k \<in> set (api_keys_t st')" for k
    using that revokeTeamKeys_none_active [of k now tid None "deleteTeam_tx tid st"] by (simp add: st')
  have "groups_t st' = groups_t (deleteTeam_tx tid st)"
    by (simp add: st' revokeTeamKeys_def notifyKeysChanged_def)
  then show ?thesis
    using keys by (auto simp: st' deleteTeam_tx_def update_where_def)
qed

theorem delete_team_leaves_no_trace_witness:
  "policies_t (snd (deleteTeam (Some ''u1'') 5 ''t1''
     (empty_store\<lparr>teams_t := [team_owned ''t1'' ''u1''], members_t := [member_of ''m1'' ''t1'' ''u1'' Owner],
        policies_t := [policy_of ''p1'' ''u2'' (Some ''t1'')]\<rparr>))) = [policy_of ''p1'' ''u2'' None]"
  (is "policies_t (snd ?run) = _")
proof -
  have "fst ?run = Reply 200 []" by code_simp
  then have "?run = (Reply 200 [], snd ?run)" by (metis prod.collapse)
  then show ?thesis using delete_team_leaves_no_trace [of "Some ''u1''" 5 "''t1''"] by simp
qed

end
