(* ===== verification/PolicyAccess.thy ===== *)
theory PolicyAccess
  imports TeamInvariant
begin

text \<open>
  Who may do what to a policy: the decision matrix of \<open>src/src/lib/policy-access-matrix.ts\<close> and
  its server entry points in \<open>src/src/lib/policy-access.ts\<close> (single and batch authorization, the
  SQL predicates of the list queries, the tenant of an execution). The locale is the membership
  directory these entry points rely on; it is interpreted on the member table. The properties say
  that the list predicates and the batch entry agree with the single decision, that a policy is
  invisible to outsiders, and what a removed member loses.
\<close>

section \<open>The matrix\<close>

datatype policy_action =
    ActView | ActExecute | ActUpdate | ActShare | ActDelete | ActApprove | ActPublish | ActWhatIf

definition POLICY_ACTIONS :: "policy_action list" where
  "POLICY_ACTIONS =
     [ActView, ActExecute, ActUpdate, ActShare, ActDelete, ActApprove, ActPublish, ActWhatIf]"

fun POLICY_ACTION_PERMISSION :: "policy_action \<Rightarrow> team_permission" where
  "POLICY_ACTION_PERMISSION ActView = POLICY_VIEW"
| "POLICY_ACTION_PERMISSION ActExecute = POLICY_EXECUTE"
| "POLICY_ACTION_PERMISSION ActUpdate = POLICY_UPDATE"
| "POLICY_ACTION_PERMISSION ActShare = POLICY_UPDATE"
| "POLICY_ACTION_PERMISSION ActDelete = POLICY_DELETE"
| "POLICY_ACTION_PERMISSION ActApprove = POLICY_APPROVE"
| "POLICY_ACTION_PERMISSION ActPublish = POLICY_PUBLISH"
| "POLICY_ACTION_PERMISSION ActWhatIf = POLICY_EXECUTE"

datatype access_via = ViaOwner | ViaTeam

datatype access_decision = Allowed access_via "team_role option" | Denied nat string

fun is_allowed :: "access_decision \<Rightarrow> bool" where
  "is_allowed (Allowed _ _) = True"
| "is_allowed (Denied _ _) = False"

definition POLICY_NOT_FOUND :: access_decision where
  "POLICY_NOT_FOUND = Denied 404 ''policy_not_found''"

definition INSUFFICIENT_ROLE :: access_decision where
  "INSUFFICIENT_ROLE = Denied 403 ''insufficient_team_role''"

definition WHATIF_OWNER_ONLY :: access_decision where
  "WHATIF_OWNER_ONLY = Denied 403 ''whatif_owner_only''"

definition policyTeamIdOf :: "policy_row \<Rightarrow> team_id option" where
  "policyTeamIdOf policy = or_null (p_teamId policy)"

definition decidePolicyAccess ::
  "policy_action \<Rightarrow> user_id \<Rightarrow> policy_row \<Rightarrow> team_role option \<Rightarrow> team_id option \<Rightarrow> access_decision" where
  "decidePolicyAccess action actorId policy teamRole keyTeam =
     (let teamId = policyTeamIdOf policy; keyTeamId = or_null keyTeam in
      if keyTeamId \<noteq> None \<and> keyTeamId \<noteq> teamId then POLICY_NOT_FOUND
      else if teamId = None
        then (if p_userId policy = actorId then Allowed ViaOwner None else POLICY_NOT_FOUND)
      else case teamRole of
        None \<Rightarrow> POLICY_NOT_FOUND
      | Some role \<Rightarrow>
          if \<not> hasPermission role (POLICY_ACTION_PERMISSION action) then INSUFFICIENT_ROLE
          else if action = ActWhatIf \<and> p_userId policy \<noteq> actorId then WHATIF_OWNER_ONLY
          else Allowed ViaTeam (Some role))"

text \<open>The capability record of the pages, as the list of the allowed actions.\<close>

definition policyCapabilities ::
  "user_id \<Rightarrow> policy_row \<Rightarrow> team_role option \<Rightarrow> team_id option \<Rightarrow> (policy_action \<times> bool) list" where
  "policyCapabilities actorId policy teamRole keyTeam =
     map (\<lambda>action. (action, is_allowed (decidePolicyAccess action actorId policy teamRole keyTeam)))
       POLICY_ACTIONS"

section \<open>Entry points\<close>

record policy_actor =
  pa_userId :: user_id
  pa_keyTeamId :: "team_id option"

definition teamRoleFor :: "store \<Rightarrow> policy_actor \<Rightarrow> policy_row \<Rightarrow> team_role option" where
  "teamRoleFor st actor policy =
     (case policyTeamIdOf policy of
        None \<Rightarrow> None
      | Some teamId \<Rightarrow> getTeamMemberRole st (pa_userId actor) teamId)"

definition authorizePolicyAction ::
  "store \<Rightarrow> policy_actor \<Rightarrow> policy_row \<Rightarrow> policy_action \<Rightarrow> access_decision" where
  "authorizePolicyAction st actor policy action =
     decidePolicyAccess action (pa_userId actor) policy (teamRoleFor st actor policy) (pa_keyTeamId actor)"

text \<open>\<open>Inl\<close> is \<open>ok: false\<close> with its decision.\<close>

definition loadPolicyForAction ::
  "store \<Rightarrow> policy_id \<Rightarrow> policy_actor \<Rightarrow> policy_action \<Rightarrow> bool \<Rightarrow>
   access_decision + (policy_row \<times> access_decision)" where
  "loadPolicyForAction st policyId actor action deleted =
     (case find_first (\<lambda>p. p_id p = policyId \<and>
             (if deleted then p_deletedAt p \<noteq> None else p_deletedAt p = None)) (policies_t st) of
        None \<Rightarrow> Inl POLICY_NOT_FOUND
      | Some policy \<Rightarrow>
          (let decision = authorizePolicyAction st actor policy action in
           if is_allowed decision then Inr (policy, decision) else Inl decision))"

definition teamsAllowing :: "store \<Rightarrow> user_id \<Rightarrow> policy_action \<Rightarrow> team_id list" where
  "teamsAllowing st userId action =
     map tm_teamId (select_where (\<lambda>m. tm_userId m = userId \<and>
       tm_role m \<in> set (rolesWithPermission (POLICY_ACTION_PERMISSION action))) (members_t st))"

text \<open>\<open>coalesce(teamId, '') = ''\<close>.\<close>

definition isPersonalPolicy :: "policy_row \<Rightarrow> bool" where
  "isPersonalPolicy policy \<longleftrightarrow> nullish (p_teamId policy) [] = []"

text \<open>\<open>teamId in (...)\<close>: a null team id is in no list.\<close>

definition team_in :: "policy_row \<Rightarrow> team_id list \<Rightarrow> bool" where
  "team_in policy ts \<longleftrightarrow> (case p_teamId policy of None \<Rightarrow> False | Some t \<Rightarrow> t \<in> set ts)"

definition policiesVisibleTo :: "store \<Rightarrow> user_id \<Rightarrow> policy_action \<Rightarrow> policy_row \<Rightarrow> bool" where
  "policiesVisibleTo st userId action policy \<longleftrightarrow>
     (p_userId policy = userId \<and> isPersonalPolicy policy) \<or>
     team_in policy (teamsAllowing st userId action)"

definition ownPoliciesVisibleTo :: "store \<Rightarrow> user_id \<Rightarrow> policy_row \<Rightarrow> bool" where
  "ownPoliciesVisibleTo st userId policy \<longleftrightarrow>
     p_userId policy = userId \<and>
     (isPersonalPolicy policy \<or> team_in policy (teamsAllowing st userId ActView))"

section \<open>Execution records\<close>

datatype execution_executors = ByUser user_id | ByTeam team_id | ByAll

record execution_row =
  ex_userId :: user_id
  ex_tenantId :: "string option"

definition executionDetailScope :: "policy_row \<Rightarrow> execution_executors" where
  "executionDetailScope policy =
     (case policyTeamIdOf policy of Some t \<Rightarrow> ByTeam t | None \<Rightarrow> ByUser (p_userId policy))"

definition executionAggregateScope :: "policy_row \<Rightarrow> execution_executors" where
  "executionAggregateScope policy =
     (case policyTeamIdOf policy of Some _ \<Rightarrow> ByAll | None \<Rightarrow> ByUser (p_userId policy))"

definition executionTenantId :: "store \<Rightarrow> policy_actor \<Rightarrow> policy_row \<Rightarrow> string" where
  "executionTenantId st actor policy =
     (let teamId = policyTeamIdOf policy; keyTeamId = or_null (pa_keyTeamId actor) in
      case teamId of
        Some t \<Rightarrow>
          if keyTeamId = Some t then t
          else if keyTeamId = None \<and> teamRoleFor st actor policy \<noteq> None then t
          else nullish keyTeamId (pa_userId actor)
      | None \<Rightarrow> nullish keyTeamId (pa_userId actor))"

definition teamMemberIds :: "store \<Rightarrow> team_id \<Rightarrow> user_id list" where
  "teamMemberIds st teamId = map tm_userId (select_where (\<lambda>m. tm_teamId m = teamId) (members_t st))"

definition executionsOfTeam :: "store \<Rightarrow> team_id \<Rightarrow> execution_row \<Rightarrow> bool" where
  "executionsOfTeam st teamId e \<longleftrightarrow>
     ex_tenantId e = Some teamId \<or>
     (ex_tenantId e = None \<and> ex_userId e \<in> set (teamMemberIds st teamId))"

section \<open>Batch authorization and groups\<close>

text \<open>The rows of the one membership query of a batch.\<close>

definition batch_roles :: "store \<Rightarrow> user_id \<Rightarrow> team_id list \<Rightarrow> (team_id \<times> team_role) list" where
  "batch_roles st userId teamIds =
     (if teamIds = [] then []
      else map (\<lambda>m. (tm_teamId m, tm_role m))
        (select_where (\<lambda>m. tm_userId m = userId \<and> tm_teamId m \<in> set teamIds) (members_t st)))"

text \<open>The result map, as the list of its entries; a later entry of a key replaces an earlier one.\<close>

definition authorizePolicyActions ::
  "store \<Rightarrow> policy_actor \<Rightarrow> policy_row list \<Rightarrow> policy_action \<Rightarrow> (policy_id \<times> access_decision) list" where
  "authorizePolicyActions st actor policies action =
     (let teamIds = dedup (List.map_filter policyTeamIdOf policies);
          rows = batch_roles st (pa_userId actor) teamIds
      in map (\<lambda>policy.
           (p_id policy,
            decidePolicyAccess action (pa_userId actor) policy
              (Option.bind (policyTeamIdOf policy) (map_of (rev rows))) (pa_keyTeamId actor)))
         policies)"

definition canPlaceInGroup :: "access_decision \<Rightarrow> policy_row \<Rightarrow> policy_group_row \<Rightarrow> bool" where
  "canPlaceInGroup decision policy grp \<longleftrightarrow>
     is_allowed decision \<and>
     (case policyTeamIdOf policy of None \<Rightarrow> True | Some t \<Rightarrow> g_teamId grp = Some t)"

definition authorizeGroupPlacement :: "store \<Rightarrow> policy_actor \<Rightarrow> policy_row \<Rightarrow> policy_group_row \<Rightarrow> bool" where
  "authorizeGroupPlacement st actor policy grp =
     canPlaceInGroup (authorizePolicyAction st actor policy ActUpdate) policy grp"

section \<open>The membership directory\<close>

text \<open>
  What the entry points rely on: the role of one user in one team, the teams where a user may do
  something, and the roles of a user in several teams, must agree with each other.
\<close>

locale membership_directory =
  fixes valid :: "'st \<Rightarrow> bool"
    and role_of :: "'st \<Rightarrow> user_id \<Rightarrow> team_id \<Rightarrow> team_role option"
    and allowing :: "'st \<Rightarrow> user_id \<Rightarrow> policy_action \<Rightarrow> team_id list"
    and roles_in :: "'st \<Rightarrow> user_id \<Rightarrow> team_id list \<Rightarrow> (team_id \<times> team_role) list"
  assumes allowing_law: "valid st \<Longrightarrow> t \<in> set (allowing st u a) \<longleftrightarrow>
      (\<exists>r. role_of st u t = Some r \<and> hasPermission r (POLICY_ACTION_PERMISSION a))"
    and roles_law: "valid st \<Longrightarrow> t \<in> set ts \<Longrightarrow> map_of (rev (roles_in st u ts)) t = role_of st u t"
    and no_empty_team: "valid st \<Longrightarrow> role_of st u [] = None"
begin

lemma listed_iff_allowed:
  assumes "valid st" "a \<noteq> ActWhatIf"
  shows "(p_userId p = u \<and> isPersonalPolicy p) \<or> team_in p (allowing st u a) \<longleftrightarrow>
    is_allowed (decidePolicyAccess a u p (Option.bind (policyTeamIdOf p) (role_of st u)) None)"
proof (cases "p_teamId p")
  case None
  then show ?thesis
    by (simp add: isPersonalPolicy_def team_in_def decidePolicyAccess_def policyTeamIdOf_def POLICY_NOT_FOUND_def)
next
  case (Some t)
  then show ?thesis
    using assms allowing_law [OF assms(1)] no_empty_team [OF assms(1)]
    by (cases t) (auto simp: isPersonalPolicy_def team_in_def decidePolicyAccess_def policyTeamIdOf_def
        POLICY_NOT_FOUND_def INSUFFICIENT_ROLE_def split: option.splits)
qed

lemma listed_own_iff:
  assumes "valid st"
  shows "isPersonalPolicy p \<or> team_in p (allowing st (p_userId p) ActView) \<longleftrightarrow>
    is_allowed (decidePolicyAccess ActView (p_userId p) p
      (Option.bind (policyTeamIdOf p) (role_of st (p_userId p))) None)"
  using listed_iff_allowed [OF assms, of ActView p "p_userId p"] by simp

lemma batch_role:
  assumes "valid st" "p \<in> set ps"
  shows "Option.bind (policyTeamIdOf p) (map_of (rev (roles_in st u (dedup (List.map_filter policyTeamIdOf ps))))) =
    Option.bind (policyTeamIdOf p) (role_of st u)"
proof (cases "policyTeamIdOf p")
  case (Some t)
  then have "t \<in> set (dedup (List.map_filter policyTeamIdOf ps))"
    using assms(2) by (force simp: List.map_filter_def)
  then show ?thesis using roles_law [OF assms(1)] Some by simp
qed simp

end

text \<open>The member table is such a directory: rows are unique per team and user, ids are not empty.\<close>

definition members_valid :: "store \<Rightarrow> bool" where
  "members_valid st \<longleftrightarrow>
     unique_key member_key (members_t st) \<and> (\<forall>m \<in> set (members_t st). tm_teamId m \<noteq> [])"

lemma getTeamMemberRole_iff:
  assumes "unique_key member_key (members_t st)"
  shows "getTeamMemberRole st u t = Some r \<longleftrightarrow>
    (\<exists>m \<in> set (members_t st). tm_teamId m = t \<and> tm_userId m = u \<and> tm_role m = r)"
  using getTeamMemberRole_row getTeamMemberRole_unique [OF assms] by fastforce

lemma map_of_rows:
  assumes "unique_key member_key ms" "t \<in> set ts"
  shows "map_of (rev (map (\<lambda>m. (tm_teamId m, tm_role m))
      (filter (\<lambda>m. tm_userId m = u \<and> tm_teamId m \<in> set ts) ms))) t =
    map_option tm_role (find_first (\<lambda>m. tm_teamId m = t \<and> tm_userId m = u) ms)"
  using assms(1)
proof (induction ms)
  case (Cons m ms)
  show ?case
  proof (cases "tm_teamId m = t \<and> tm_userId m = u")
    case True
    then have "find_first (\<lambda>q. tm_teamId q = t \<and> tm_userId q = u) ms = None"
      using Cons.prems unfolding find_first_None
      by (metis image_eqI member_key_def unique_key_Cons)
    then show ?thesis using True Cons assms(2) by (simp add: map_add_def split: option.splits)
  next
    case False
    then show ?thesis using Cons by (auto simp: map_add_def split: option.splits)
  qed
qed simp

interpretation dir: membership_directory members_valid getTeamMemberRole teamsAllowing batch_roles
proof unfold_locales
  fix st t u a
  assume "members_valid st"
  then show "t \<in> set (teamsAllowing st u a) \<longleftrightarrow>
      (\<exists>r. getTeamMemberRole st u t = Some r \<and> hasPermission r (POLICY_ACTION_PERMISSION a))"
    using getTeamMemberRole_iff [of st u t]
    by (auto simp: teamsAllowing_def members_valid_def set_rolesWithPermission)
next
  fix st t ts u
  assume "members_valid st" "t \<in> set (ts :: team_id list)"
  then show "map_of (rev (batch_roles st u ts)) t = getTeamMemberRole st u t"
    using map_of_rows [of "members_t st" t ts u]
    by (auto simp: batch_roles_def members_valid_def getTeamMemberRole_def select_where_def)
next
  fix st u
  assume "members_valid st"
  then show "getTeamMemberRole st u [] = None"
    using getTeamMemberRole_iff [of st u "[]"] by (cases "getTeamMemberRole st u []") (auto simp: members_valid_def)
qed

lemma teamRoleFor_bind:
  "teamRoleFor st actor p = Option.bind (policyTeamIdOf p) (getTeamMemberRole st (pa_userId actor))"
  by (cases "policyTeamIdOf p") (simp_all add: teamRoleFor_def)

section \<open>Properties\<close>

text \<open>
  C7: the list queries show exactly the policies on which the single check allows the action to
  the session user: \<open>policiesVisibleTo\<close> for every action but What-If, and \<open>ownPoliciesVisibleTo\<close>
  for viewing among the user's own policies.
\<close>

theorem lists_agree_with_decision:
  assumes "members_valid st" "a \<noteq> ActWhatIf"
  shows "(policiesVisibleTo st u a p \<longleftrightarrow>
      is_allowed (authorizePolicyAction st \<lparr>pa_userId = u, pa_keyTeamId = None\<rparr> p a)) \<and>
    (ownPoliciesVisibleTo st u p \<longleftrightarrow>
      p_userId p = u \<and> is_allowed (authorizePolicyAction st \<lparr>pa_userId = u, pa_keyTeamId = None\<rparr> p ActView))"
  using dir.listed_iff_allowed [OF assms] dir.listed_own_iff [OF assms(1), of p]
  by (auto simp: policiesVisibleTo_def ownPoliciesVisibleTo_def authorizePolicyAction_def teamRoleFor_bind)

theorem lists_agree_with_decision_witness:
  "policiesVisibleTo (empty_store\<lparr>members_t := [member_of ''m1'' ''t1'' ''u1'' Member]\<rparr>) ''u1'' ActUpdate
     (policy_of ''p1'' ''u2'' (Some ''t1''))"
proof -
  let ?st = "empty_store\<lparr>members_t := [member_of ''m1'' ''t1'' ''u1'' Member]\<rparr>"
  have "members_valid ?st" by (simp add: members_valid_def)
  then show ?thesis
    using lists_agree_with_decision [of ?st ActUpdate "''u1''" "policy_of ''p1'' ''u2'' (Some ''t1'')"]
    by (simp add: authorizePolicyAction_def teamRoleFor_def getTeamMemberRole_def policyTeamIdOf_def
        decidePolicyAccess_def hasPermission_def)
qed

text \<open>
  the batch entry, which reads the roles of all teams in one query, gives every policy of the
  list the decision of the single entry.
\<close>

theorem batch_authorization_is_pointwise:
  assumes "members_valid st"
  shows "authorizePolicyActions st actor ps a = map (\<lambda>p. (p_id p, authorizePolicyAction st actor p a)) ps"
  using dir.batch_role [OF assms]
  by (simp add: authorizePolicyActions_def authorizePolicyAction_def teamRoleFor_bind)

theorem batch_authorization_is_pointwise_witness:
  "authorizePolicyActions (empty_store\<lparr>members_t := [member_of ''m1'' ''t1'' ''u1'' Viewer]\<rparr>)
     \<lparr>pa_userId = ''u1'', pa_keyTeamId = None\<rparr>
     [policy_of ''p1'' ''u1'' (Some ''t1''), policy_of ''p2'' ''u1'' None] ActUpdate =
   [(''p1'', INSUFFICIENT_ROLE), (''p2'', Allowed ViaOwner None)]"
proof -
  let ?st = "empty_store\<lparr>members_t := [member_of ''m1'' ''t1'' ''u1'' Viewer]\<rparr>"
  have "members_valid ?st" by (simp add: members_valid_def)
  then show ?thesis
    by (simp add: batch_authorization_is_pointwise authorizePolicyAction_def teamRoleFor_def
        getTeamMemberRole_def policyTeamIdOf_def decidePolicyAccess_def hasPermission_def)
qed

text \<open>
  an outsider cannot tell a team policy from one that does not exist. Without a role in the
  team (the creator included), every action on the policy, in the trash or not, gets the same
  answer as if the policy were not in the table.
\<close>

theorem outsider_cannot_see_team_policy:
  assumes "unique_key p_id (policies_t st)" "p \<in> set (policies_t st)" "policyTeamIdOf p = Some t"
    "getTeamMemberRole st (pa_userId actor) t = None"
  shows "loadPolicyForAction st (p_id p) actor a deleted = Inl POLICY_NOT_FOUND \<and>
    loadPolicyForAction (st\<lparr>policies_t := delete_where (\<lambda>q. p_id q = p_id p) (policies_t st)\<rparr>)
      (p_id p) actor a deleted = Inl POLICY_NOT_FOUND"
proof -
  let ?P = "\<lambda>q. p_id q = p_id p \<and> (if deleted then p_deletedAt q \<noteq> None else p_deletedAt q = None)"
  have denied: "authorizePolicyAction st actor p a = Denied 404 ''policy_not_found''"
    using assms(3,4) by (simp add: authorizePolicyAction_def teamRoleFor_def decidePolicyAccess_def
        POLICY_NOT_FOUND_def Let_def)
  have only: "q = p" if "find_first ?P (policies_t st) = Some q" for q
    using find_first_Some [OF that] unique_key_eq [OF assms(1) _ assms(2)] by blast
  have "find_first ?P (delete_where (\<lambda>q. p_id q = p_id p) (policies_t st)) = None"
    unfolding find_first_None by simp
  moreover have "loadPolicyForAction st (p_id p) actor a deleted = Inl POLICY_NOT_FOUND"
    using only denied unfolding loadPolicyForAction_def
    by (cases "find_first ?P (policies_t st)") (simp_all add: POLICY_NOT_FOUND_def)
  ultimately show ?thesis by (simp add: loadPolicyForAction_def)
qed

theorem outsider_cannot_see_team_policy_witness:
  "loadPolicyForAction (empty_store\<lparr>policies_t := [policy_of ''p1'' ''u1'' (Some ''t1'')]\<rparr>) ''p1''
     \<lparr>pa_userId = ''u1'', pa_keyTeamId = None\<rparr> ActView False = Inl POLICY_NOT_FOUND"
  using outsider_cannot_see_team_policy [of "empty_store\<lparr>policies_t := [policy_of ''p1'' ''u1'' (Some ''t1'')]\<rparr>"
      "policy_of ''p1'' ''u1'' (Some ''t1'')" "''t1''" "\<lparr>pa_userId = ''u1'', pa_keyTeamId = None\<rparr>" ActView False]
  by (simp add: policyTeamIdOf_def getTeamMemberRole_def empty_store_def)

text \<open>
  a member who is removed from a team loses every action on every policy of that team, the
  policies the member created included, through the session and through any API key; and none of
  them is left in a list.
\<close>

theorem removed_member_locked_out:
  assumes "team_inv st" "removeMember session now tid mid st = (Reply 200 [], st')"
    "find_first (\<lambda>m. tm_id m = mid \<and> tm_teamId m = tid) (members_t st) = Some target"
    "policyTeamIdOf p = Some tid"
  shows "authorizePolicyAction st' \<lparr>pa_userId = tm_userId target, pa_keyTeamId = key\<rparr> p a = POLICY_NOT_FOUND \<and>
    \<not> policiesVisibleTo st' (tm_userId target) a p"
proof -
  have none: "getTeamMemberRole st' (tm_userId target) tid = None"
    by (rule removed_member_role [OF assms(1,2)]) (use assms(3) in simp)
  have keys: "unique_key member_key (members_t st')"
    using removeMember_inv [OF assms(1,2)] by (simp add: team_inv_def team_tables_ok_def)
  have p: "p_teamId p = Some tid" "tid \<noteq> []"
    using assms(4) by (auto simp: policyTeamIdOf_def or_null_Some)
  have "tid \<notin> set (teamsAllowing st' (tm_userId target) a)"
    using none getTeamMemberRole_unique [OF keys] by (fastforce simp: teamsAllowing_def)
  then show ?thesis
    using none assms(4) p
    by (simp add: authorizePolicyAction_def teamRoleFor_def decidePolicyAccess_def Let_def
        policiesVisibleTo_def isPersonalPolicy_def team_in_def)
qed

theorem removed_member_locked_out_witness:
  "authorizePolicyAction (snd (removeMember (Some ''u1'') 5 ''t1'' ''m2''
       (empty_store\<lparr>teams_t := [team_owned ''t1'' ''u1''],
          members_t := [member_of ''m1'' ''t1'' ''u1'' Owner, member_of ''m2'' ''t1'' ''u2'' Admin]\<rparr>)))
     \<lparr>pa_userId = ''u2'', pa_keyTeamId = Some ''t1''\<rparr> (policy_of ''p1'' ''u2'' (Some ''t1'')) ActView =
   POLICY_NOT_FOUND"
  (is "authorizePolicyAction (snd (removeMember _ _ _ _ ?st)) _ _ _ = _")
proof -
  let ?run = "removeMember (Some ''u1'') 5 ''t1'' ''m2'' ?st"
  have inv: "team_inv ?st"
    by (simp add: team_inv_def team_tables_ok_def owner_agrees_def member_key_def empty_store_def)
  have "fst ?run = Reply 200 []" by code_simp
  then have run: "?run = (Reply 200 [], snd ?run)" by (metis prod.collapse)
  have t: "find_first (\<lambda>m. tm_id m = ''m2'' \<and> tm_teamId m = ''t1'') (members_t ?st) =
    Some (member_of ''m2'' ''t1'' ''u2'' Admin)" by simp
  have p: "policyTeamIdOf (policy_of ''p1'' ''u2'' (Some ''t1'')) = Some ''t1''"
    by (simp add: policyTeamIdOf_def)
  show ?thesis using removed_member_locked_out [OF inv run t p] by simp
qed

text \<open>
  an execution of a team policy is recorded under the team exactly when the executor acts
  with a key of that team, or without a team key as a member. The record then stays in the team's
  execution log whatever happens to the membership later, and records of outsiders never enter it.
\<close>

theorem execution_tenant_is_fixed_at_run_time:
  assumes "policyTeamIdOf p = Some t" "pa_userId actor \<noteq> t"
  shows "executionDetailScope p = ByTeam t \<and>
    (executionsOfTeam later t
       \<lparr>ex_userId = pa_userId actor, ex_tenantId = Some (executionTenantId st actor p)\<rparr> \<longleftrightarrow>
     or_null (pa_keyTeamId actor) = Some t \<or>
     or_null (pa_keyTeamId actor) = None \<and> getTeamMemberRole st (pa_userId actor) t \<noteq> None)"
  using assms
  by (cases "or_null (pa_keyTeamId actor)")
    (auto simp: executionDetailScope_def executionsOfTeam_def executionTenantId_def teamRoleFor_def Let_def
      split: if_splits)

theorem execution_tenant_is_fixed_at_run_time_witness:
  "executionsOfTeam empty_store ''t1'' \<lparr>ex_userId = ''u2'', ex_tenantId = Some (executionTenantId
     (empty_store\<lparr>members_t := [member_of ''m2'' ''t1'' ''u2'' Viewer]\<rparr>)
     \<lparr>pa_userId = ''u2'', pa_keyTeamId = None\<rparr> (policy_of ''p1'' ''u1'' (Some ''t1'')))\<rparr>"
  using execution_tenant_is_fixed_at_run_time [of "policy_of ''p1'' ''u1'' (Some ''t1'')" "''t1''"
      "\<lparr>pa_userId = ''u2'', pa_keyTeamId = None\<rparr>" empty_store
      "empty_store\<lparr>members_t := [member_of ''m2'' ''t1'' ''u2'' Viewer]\<rparr>"]
  by (simp add: policyTeamIdOf_def getTeamMemberRole_def)

end
