(* ===== verification/VersionRules.thy ===== *)
theory VersionRules
  imports PolicyAccess
begin

text \<open>
  The pure rules on policy versions: who may approve one
  (\<open>src/src/services/policy/version-approval-rules.ts\<close>) and which one an execution or an export
  takes (\<open>executable-version.ts\<close>, \<open>default-executable-version.ts\<close> in the same directory). The
  properties state segregation of duties and compare the two version choices.
\<close>

section \<open>Approval rules\<close>

definition TEAM_REVIEWER_ROLES :: "team_role list" where
  "TEAM_REVIEWER_ROLES = rolesWithPermission POLICY_APPROVE"

record review_context =
  rc_policyOwnerId :: user_id
  rc_policyTeamId :: "team_id option"
  rc_reviewerId :: user_id
  rc_reviewerTeamRole :: "team_role option"

text \<open>The access check of a policy given by its owner and team only.\<close>

definition subject_row :: "user_id \<Rightarrow> team_id option \<Rightarrow> policy_row" where
  "subject_row userId teamId = (policy_of [] userId teamId)"

definition canReviewPolicyVersions :: "review_context \<Rightarrow> bool" where
  "canReviewPolicyVersions ctx =
     is_allowed (decidePolicyAccess ActApprove (rc_reviewerId ctx)
       (subject_row (rc_policyOwnerId ctx) (rc_policyTeamId ctx)) (rc_reviewerTeamRole ctx) None)"

datatype approval_refusal = not_authorized | segregation_of_duties

text \<open>\<open>Inr selfApproved\<close> when the reviewer may decide.\<close>

definition decideVersionApproval :: "review_context \<Rightarrow> user_id option \<Rightarrow> approval_refusal + bool" where
  "decideVersionApproval ctx versionAuthorId =
     (if \<not> canReviewPolicyVersions ctx then Inl not_authorized
      else
        let isAuthor = (versionAuthorId = Some (rc_reviewerId ctx)) in
        if truthy (rc_policyTeamId ctx)
        then (if isAuthor then Inl segregation_of_duties else Inr False)
        else Inr isAuthor)"

definition lacksEligibleReviewer :: "team_id option \<Rightarrow> user_id list \<Rightarrow> user_id option \<Rightarrow> bool" where
  "lacksEligibleReviewer policyTeamId teamReviewerIds versionAuthorId \<longleftrightarrow>
     (if \<not> truthy policyTeamId then False
      else \<not> list_ex (\<lambda>id. Some id \<noteq> versionAuthorId) teamReviewerIds)"

definition loadVersionReviewContext :: "store \<Rightarrow> policy_id \<Rightarrow> user_id \<Rightarrow> review_context option" where
  "loadVersionReviewContext st policyId reviewerId =
     map_option (\<lambda>p. \<lparr>rc_policyOwnerId = p_userId p, rc_policyTeamId = p_teamId p, rc_reviewerId = reviewerId,
         rc_reviewerTeamRole =
           (if truthy (p_teamId p) then Option.bind (p_teamId p) (getTeamMemberRole st reviewerId) else None)\<rparr>)
       (find_first (\<lambda>p. p_id p = policyId \<and> p_deletedAt p = None) (policies_t st))"

definition loadTeamReviewerIds :: "store \<Rightarrow> team_id option \<Rightarrow> user_id list" where
  "loadTeamReviewerIds st teamId =
     (case or_null teamId of
        None \<Rightarrow> []
      | Some t \<Rightarrow> map tm_userId (select_where
          (\<lambda>m. tm_teamId m = t \<and> tm_role m \<in> set TEAM_REVIEWER_ROLES) (members_t st)))"

section \<open>Which version runs\<close>

text \<open>The reduce of the source: a later row replaces the best so far only when its number is higher.\<close>

definition max_version :: "version_row list \<Rightarrow> version_row option" where
  "max_version vs =
     fold (\<lambda>v latest. case latest of
        None \<Rightarrow> Some v
      | Some l \<Rightarrow> if v_version v > v_version l then Some v else latest) vs None"

datatype version_choice = ByDefault | ByApproval | ByLatest

definition resolveExecutableVersion :: "version_row list \<Rightarrow> version_row \<Rightarrow> version_row \<times> version_choice" where
  "resolveExecutableVersion versions fallback =
     (case find_first v_isDefault versions of
        Some v \<Rightarrow> (v, ByDefault)
      | None \<Rightarrow>
     (case max_version (filter (\<lambda>v. v_status v = APPROVED) versions) of
        Some v \<Rightarrow> (v, ByApproval)
      | None \<Rightarrow>
     (case max_version versions of
        None \<Rightarrow> (fallback, ByLatest)
      | Some l \<Rightarrow> if v_version fallback > v_version l then (fallback, ByLatest) else (l, ByLatest))))"

definition isCachedVersionCurrent :: "nat option \<Rightarrow> nat option \<Rightarrow> bool" where
  "isCachedVersionCurrent cachedVersion executableVersion \<longleftrightarrow> cachedVersion = executableVersion"

definition hydrateExecutableVersion ::
  "version_row \<times> version_choice \<Rightarrow> version_row \<Rightarrow> (nat \<Rightarrow> version_row option) \<Rightarrow>
   (version_row \<times> version_choice) option" where
  "hydrateExecutableVersion selected current loadVersion =
     (if v_version (fst selected) = v_version current then Some (current, snd selected)
      else map_option (\<lambda>v. (v, snd selected)) (loadVersion (v_version (fst selected))))"

text \<open>\<open>order by version desc limit 1\<close>, on a table where the version numbers of a policy are unique.\<close>

definition findDefaultExecutableVersion :: "store \<Rightarrow> policy_id \<Rightarrow> version_row option" where
  "findDefaultExecutableVersion st policyId =
     (case find_first (\<lambda>v. v_policyId v = policyId \<and> v_status v = APPROVED \<and> v_isDefault v) (versions_t st) of
        Some v \<Rightarrow> Some v
      | None \<Rightarrow> max_version (select_where (\<lambda>v. v_policyId v = policyId \<and> v_status v = APPROVED) (versions_t st)))"

section \<open>Lemmas\<close>

lemma canReview_iff:
  "canReviewPolicyVersions ctx \<longleftrightarrow>
     (if truthy (rc_policyTeamId ctx) then rc_reviewerTeamRole ctx \<in> {Some Owner, Some Admin}
      else rc_policyOwnerId ctx = rc_reviewerId ctx)"
  by (cases "rc_policyTeamId ctx"; cases "rc_reviewerTeamRole ctx")
    (auto simp: canReviewPolicyVersions_def decidePolicyAccess_def policyTeamIdOf_def subject_row_def
      or_null_def truthy_def hasPermission_manage POLICY_NOT_FOUND_def INSUFFICIENT_ROLE_def Let_def)

lemma max_version_snoc:
  "max_version (vs @ [v]) = (case max_version vs of
     None \<Rightarrow> Some v
   | Some l \<Rightarrow> if v_version v > v_version l then Some v else Some l)"
  by (simp add: max_version_def split: option.splits)

lemma max_version_None [simp]: "max_version vs = None \<longleftrightarrow> vs = []"
  by (induction vs rule: rev_induct) (auto simp: max_version_snoc max_version_def split: option.splits)

lemma max_version_in: "max_version vs = Some v \<Longrightarrow> v \<in> set vs"
  by (induction vs arbitrary: v rule: rev_induct)
    (auto simp: max_version_snoc max_version_def split: option.splits if_splits)

lemma max_version_max: "max_version vs = Some v \<Longrightarrow> w \<in> set vs \<Longrightarrow> v_version w \<le> v_version v"
proof (induction vs arbitrary: v rule: rev_induct)
  case (snoc a vs)
  show ?case
  proof (cases "max_version vs")
    case None
    then have "vs = []" by simp
    then show ?thesis using snoc.prems by (simp add: max_version_def)
  next
    case (Some l)
    then show ?thesis
      using snoc.prems snoc.IH [OF Some] by (fastforce simp: max_version_snoc split: if_splits)
  qed
qed simp

lemma max_version_Nil [simp]: "max_version [] = None"
  by (simp add: max_version_def)

section \<open>Properties\<close>

text \<open>
  segregation of duties. A review is granted for a team policy only to an owner or admin of
  the team other than the author of the version, the policy's creator included; for a personal
  policy only to its owner. An approval is marked as self-approved exactly when the reviewer is
  the author, which can happen on a personal policy only.
\<close>

theorem segregation_of_duties_holds:
  assumes "decideVersionApproval ctx author = Inr self"
  shows "(if truthy (rc_policyTeamId ctx)
      then rc_reviewerTeamRole ctx \<in> {Some Owner, Some Admin} \<and> author \<noteq> Some (rc_reviewerId ctx) \<and> \<not> self
      else rc_reviewerId ctx = rc_policyOwnerId ctx \<and> (self \<longleftrightarrow> author = Some (rc_reviewerId ctx)))"
  using assms by (auto simp: decideVersionApproval_def canReview_iff Let_def split: if_splits)

theorem segregation_of_duties_holds_witness:
  "\<exists>ctx. decideVersionApproval ctx (Some ''u2'') = Inr False \<and> rc_reviewerTeamRole ctx = Some Admin \<and>
     decideVersionApproval ctx (Some (rc_reviewerId ctx)) = Inl segregation_of_duties"
proof -
  let ?ctx = "\<lparr>rc_policyOwnerId = ''u2'', rc_policyTeamId = Some ''t1'', rc_reviewerId = ''u1'',
      rc_reviewerTeamRole = Some Admin\<rparr>"
  have d: "decideVersionApproval ?ctx (Some ''u2'') = Inr False"
    "decideVersionApproval ?ctx (Some ''u1'') = Inl segregation_of_duties"
    by (simp_all add: decideVersionApproval_def canReview_iff truthy_def)
  then show ?thesis
    using segregation_of_duties_holds [OF d(1)] by (intro exI [of _ ?ctx]) simp
qed

text \<open>
  the hint that a pending version of a team policy has no eligible reviewer is exact: it is
  shown precisely when no user at all would pass the approval rule for this version.
\<close>

theorem lacks_reviewer_iff_nobody_can_approve:
  assumes "unique_key member_key (members_t st)" "or_null (p_teamId p) = Some t"
  shows "lacksEligibleReviewer (p_teamId p) (loadTeamReviewerIds st (p_teamId p)) author \<longleftrightarrow>
    (\<nexists>reviewer self. decideVersionApproval
        \<lparr>rc_policyOwnerId = p_userId p, rc_policyTeamId = p_teamId p, rc_reviewerId = reviewer,
         rc_reviewerTeamRole = getTeamMemberRole st reviewer t\<rparr> author = Inr self)"
proof -
  have t: "p_teamId p = Some t" "truthy (p_teamId p)"
    using assms(2) by (auto simp: or_null_Some truthy_def split: list.splits)
  have ids: "x \<in> set (loadTeamReviewerIds st (p_teamId p)) \<longleftrightarrow>
      getTeamMemberRole st x t = Some Owner \<or> getTeamMemberRole st x t = Some Admin" for x
    using assms(2) getTeamMemberRole_iff [OF assms(1)]
    by (auto simp: loadTeamReviewerIds_def TEAM_REVIEWER_ROLES_def set_rolesWithPermission hasPermission_manage
        image_iff)
  show ?thesis
    using t ids
    by (auto simp: lacksEligibleReviewer_def decideVersionApproval_def canReview_iff list_ex_iff Let_def
        split: if_splits) metis+
qed

theorem lacks_reviewer_iff_nobody_can_approve_witness:
  "\<not> lacksEligibleReviewer (Some ''t1'')
     (loadTeamReviewerIds (empty_store\<lparr>members_t := [member_of ''m1'' ''t1'' ''u1'' Owner]\<rparr>) (Some ''t1''))
     (Some ''u2'')"
proof -
  let ?st = "empty_store\<lparr>members_t := [member_of ''m1'' ''t1'' ''u1'' Owner]\<rparr>"
  let ?p = "policy_of ''p1'' ''u2'' (Some ''t1'')"
  have "decideVersionApproval \<lparr>rc_policyOwnerId = p_userId ?p, rc_policyTeamId = p_teamId ?p,
      rc_reviewerId = ''u1'', rc_reviewerTeamRole = getTeamMemberRole ?st ''u1'' ''t1''\<rparr> (Some ''u2'') = Inr False"
    by (simp add: decideVersionApproval_def canReview_iff truthy_def getTeamMemberRole_def)
  then show ?thesis
    using lacks_reviewer_iff_nobody_can_approve [of ?st ?p "''t1''" "Some ''u2''"] by auto
qed

text \<open>
  execution and Cedar export take the same version of a policy whenever one of its versions is
  approved, provided a default version is approved. The version taken is then an
  approved one, the default if there is one and otherwise the one with the highest number.
\<close>

theorem execution_and_export_agree:
  assumes "versions = select_where (\<lambda>v. v_policyId v = pid) (versions_t st)"
    "\<forall>v \<in> set versions. v_isDefault v \<longrightarrow> v_status v = APPROVED"
    "\<exists>v \<in> set versions. v_status v = APPROVED"
  shows "findDefaultExecutableVersion st pid = Some (fst (resolveExecutableVersion versions fallback)) \<and>
    v_status (fst (resolveExecutableVersion versions fallback)) = APPROVED"
proof -
  have d: "find_first (\<lambda>v. v_policyId v = pid \<and> v_status v = APPROVED \<and> v_isDefault v) (versions_t st) =
      find_first v_isDefault versions"
    using assms(2) unfolding assms(1) find_first_select_where
    by (intro find_first_cong) auto
  have a: "filter (\<lambda>v. v_status v = APPROVED) versions =
      select_where (\<lambda>v. v_policyId v = pid \<and> v_status v = APPROVED) (versions_t st)"
    by (simp add: assms(1) select_where_def conj_commute)
  obtain w where w: "max_version (filter (\<lambda>v. v_status v = APPROVED) versions) = Some w"
    using assms(3) by (cases "max_version (filter (\<lambda>v. v_status v = APPROVED) versions)") (auto simp: filter_empty_conv)
  show ?thesis
    using w max_version_in [OF w] find_first_Some [of v_isDefault versions] assms(2)
    by (auto simp: findDefaultExecutableVersion_def resolveExecutableVersion_def d a [symmetric] split: option.splits)
qed

theorem execution_and_export_agree_witness:
  "\<exists>v. findDefaultExecutableVersion
     (empty_store\<lparr>versions_t := [version_of ''v1'' ''p1'' 1 APPROVED, version_of ''v2'' ''p1'' 2 DRAFT]\<rparr>) ''p1'' = Some v \<and>
     v_status v = APPROVED"
  using execution_and_export_agree [of "[version_of ''v1'' ''p1'' 1 APPROVED, version_of ''v2'' ''p1'' 2 DRAFT]" "''p1''"
      "empty_store\<lparr>versions_t := [version_of ''v1'' ''p1'' 1 APPROVED, version_of ''v2'' ''p1'' 2 DRAFT]\<rparr>"]
  by (auto simp: select_where_def)

end
