(* ===== verification/HashChain.thy ===== *)
theory HashChain
  imports VersionRules
begin

text \<open>
  The hashes of policy versions: the chained source hash (\<open>src/src/services/security/policy-security.ts\<close>),
  the length-prefixed envelope over all compile inputs (\<open>src/src/lib/policy-alias.ts\<close>), the recovery of
  the compile locale from an envelope (\<open>src/src/lib/policy-version-locale.ts\<close>, \<open>cnl-locale.ts\<close>,
  \<open>policy-locale-priority.ts\<close>) and the insertion at the tail of a version chain
  (\<open>insertChainedVersion\<close> of \<open>version-manager.ts\<close>). SHA-256 as a hexadecimal string is the
  parameter \<open>sha\<close>; a theorem that needs it assumes that it does not collide on the strings
  that the statement hashes.
\<close>

section \<open>Source hashes\<close>

definition hash_prefix :: string where
  "hash_prefix = ''sha256:''"

definition computeSourceHash :: "(string \<Rightarrow> string) \<Rightarrow> string \<Rightarrow> string" where
  "computeSourceHash sha source = hash_prefix @ sha source"

definition chained_content :: "string \<Rightarrow> string option \<Rightarrow> string" where
  "chained_content source prevHash =
     (case or_null prevHash of None \<Rightarrow> source | Some prev \<Rightarrow> source @ prev)"

definition computeChainedHash :: "(string \<Rightarrow> string) \<Rightarrow> string \<Rightarrow> string option \<Rightarrow> string" where
  "computeChainedHash sha source prevHash = hash_prefix @ sha (chained_content source prevHash)"

definition is_hex :: "char \<Rightarrow> bool" where
  "is_hex c \<longleftrightarrow> (let n = of_char c :: nat in 97 \<le> n \<and> n \<le> 102 \<or> 48 \<le> n \<and> n \<le> 57)"

definition isValidHashFormat :: "string \<Rightarrow> bool" where
  "isValidHashFormat h \<longleftrightarrow>
     take 7 h = hash_prefix \<and> length h = 71 \<and> list_all is_hex (drop 7 h)"

section \<open>Envelopes\<close>

definition frame :: "string \<Rightarrow> string" where
  "frame bytes = dec (length bytes) @ '':'' @ bytes @ ''|''"

definition frames :: "string option list \<Rightarrow> string" where
  "frames flds = concat (map (\<lambda>f. frame (nullish f [])) flds)"

definition lengthPrefixedSha256 :: "(string \<Rightarrow> string) \<Rightarrow> string option list \<Rightarrow> string" where
  "lengthPrefixedSha256 sha flds = sha (frames flds)"

definition computeSourceEnvelope ::
  "(string \<Rightarrow> string) \<Rightarrow> string option \<Rightarrow> string option \<Rightarrow> string option \<Rightarrow> string option \<Rightarrow> string option \<Rightarrow> string" where
  "computeSourceEnvelope sha content aliasSetJson locale toolchainId scopesJson =
     lengthPrefixedSha256 sha [content, aliasSetJson, locale, toolchainId, scopesJson]"

definition computeLegacySourceEnvelope ::
  "(string \<Rightarrow> string) \<Rightarrow> string option \<Rightarrow> string option \<Rightarrow> string option \<Rightarrow> string option \<Rightarrow> string" where
  "computeLegacySourceEnvelope sha content aliasSetJson locale toolchainId =
     lengthPrefixedSha256 sha [content, aliasSetJson, locale, toolchainId]"

text \<open>The toolchain identity; ABI, resolver and casefold numbers are constants of the engine package.\<close>

record engine_ids =
  e_abi :: string
  e_validator :: string
  e_resolver :: int
  e_casefold :: string
  e_build :: "string option"

definition int_str :: "int \<Rightarrow> string" where
  "int_str i = (if i < 0 then CHR ''-'' # dec (nat (- i)) else dec (nat i))"

definition cloudToolchainId :: "engine_ids \<Rightarrow> string" where
  "cloudToolchainId e =
     ''abi='' @ e_abi e @ '';core=ts;validator='' @ e_validator e @ '';resolver='' @ int_str (e_resolver e) @
     '';casefold='' @ e_casefold e @ '';build='' @ nullish (e_build e) ''dev''"

section \<open>Locales of stored versions\<close>

definition CNL_LOCALES :: "string list" where
  "CNL_LOCALES = [''en-US'', ''zh-CN'', ''de-DE'', ''hi-IN'']"

definition DEFAULT_CNL_LOCALE :: string where
  "DEFAULT_CNL_LOCALE = ''en-US''"

text \<open>\<open>split('-')[0]\<close> and \<open>replace('_', '-')\<close> (the first underscore only).\<close>

definition language_of :: "string \<Rightarrow> string" where
  "language_of locale = takeWhile (\<lambda>c. c \<noteq> CHR ''-'') locale"

fun replace_first_underscore :: "string \<Rightarrow> string" where
  "replace_first_underscore [] = []"
| "replace_first_underscore (c # cs) =
     (if c = CHR ''_'' then CHR ''-'' # cs else c # replace_first_underscore cs)"

definition normalizeCnlLocale :: "string \<Rightarrow> string option" where
  "normalizeCnlLocale raw =
     (let val = js_lower (replace_first_underscore (js_trim raw)) in
      case find_first (\<lambda>l. js_lower l = val) CNL_LOCALES of
        Some l \<Rightarrow> Some l
      | None \<Rightarrow>
          (case filter (\<lambda>l. js_lower (language_of l) = val) CNL_LOCALES of
             [l] \<Rightarrow> Some l
           | _ \<Rightarrow> None))"

definition toEditorCnlLocale :: "string \<Rightarrow> string" where
  "toEditorCnlLocale locale = nullish (normalizeCnlLocale locale) DEFAULT_CNL_LOCALE"

text \<open>\<open>None\<close> is the 400 reply; an absent field or a blank string takes the default.\<close>

definition parseCompileLocale :: "json option \<Rightarrow> string option" where
  "parseCompileLocale raw =
     (case raw of
        None \<Rightarrow> Some DEFAULT_CNL_LOCALE
      | Some j \<Rightarrow>
          (case j of
             JNull \<Rightarrow> Some DEFAULT_CNL_LOCALE
           | JStr s \<Rightarrow> if js_trim s = [] then Some DEFAULT_CNL_LOCALE else normalizeCnlLocale s
           | _ \<Rightarrow> None))"

definition RECORDED_LOCALE_CANDIDATES :: "string list" where
  "RECORDED_LOCALE_CANDIDATES = CNL_LOCALES @ map language_of CNL_LOCALES"

definition version_source :: "version_row \<Rightarrow> string" where
  "version_source v = nullish (v_source v) (v_content v)"

definition envelope_for :: "(string \<Rightarrow> string) \<Rightarrow> version_row \<Rightarrow> string \<Rightarrow> string" where
  "envelope_for sha v locale =
     (case v_scopesJson v of
        None \<Rightarrow> computeLegacySourceEnvelope sha (Some (version_source v)) (v_aliasSet v) (Some locale) (v_toolchainId v)
      | Some scopes \<Rightarrow>
          computeSourceEnvelope sha (Some (version_source v)) (v_aliasSet v) (Some locale) (v_toolchainId v) (Some scopes))"

definition recordedCompileLocale :: "(string \<Rightarrow> string) \<Rightarrow> version_row \<Rightarrow> string option" where
  "recordedCompileLocale sha v =
     (case or_null (v_sourceEnvelope v) of
        None \<Rightarrow> None
      | Some stored \<Rightarrow> find_first (\<lambda>l. envelope_for sha v l = stored) RECORDED_LOCALE_CANDIDATES)"

definition uniqueSnapshotLocale :: "snapshot_ref list \<Rightarrow> string option" where
  "uniqueSnapshotLocale refs =
     (case dedup (filter (\<lambda>l. l \<noteq> []) (map ref_locale refs)) of [l] \<Rightarrow> Some l | _ \<Rightarrow> None)"

definition choosePolicyLocale ::
  "string option \<Rightarrow> string option \<Rightarrow> string \<Rightarrow> (string \<Rightarrow> string) \<Rightarrow> string option \<Rightarrow> string" where
  "choosePolicyLocale recorded snapshotLocale source detect emptySourceFallback =
     (case or_null recorded of
        Some l \<Rightarrow> l
      | None \<Rightarrow>
     (case or_null snapshotLocale of
        Some l \<Rightarrow> l
      | None \<Rightarrow>
     (case or_null emptySourceFallback of
        Some l \<Rightarrow> if js_trim source = [] then l else detect source
      | None \<Rightarrow> detect source)))"

definition resolveStoredVersionLocale :: "(string \<Rightarrow> string) \<Rightarrow> (string \<Rightarrow> string) \<Rightarrow> version_row \<Rightarrow> string" where
  "resolveStoredVersionLocale sha detect v =
     choosePolicyLocale (recordedCompileLocale sha v) (uniqueSnapshotLocale (v_snapshotIds v))
       (version_source v) detect None"

section \<open>The version chain\<close>

definition chainLink :: "version_row \<Rightarrow> string option" where
  "chainLink v = (case v_sourceEnvelope v of Some e \<Rightarrow> Some e | None \<Rightarrow> v_sourceHash v)"

text \<open>
  The locked tail: the highest version. Version numbers of a policy are unique, so the second sort
  key of the query (the id) never decides.
\<close>

definition chain_tail :: "store \<Rightarrow> policy_id \<Rightarrow> version_row option" where
  "chain_tail st policyId = max_version (select_where (\<lambda>v. v_policyId v = policyId) (versions_t st))"

record chained_fields =
  cf_createdBy :: "user_id option"
  cf_releaseNote :: "string option"
  cf_aliasSet :: "string option"
  cf_sourceEnvelope :: string
  cf_toolchainId :: string
  cf_scopesJson :: string
  cf_profile :: "string option"

definition chained_row ::
  "(string \<Rightarrow> string) \<Rightarrow> int \<Rightarrow> version_row option \<Rightarrow> policy_id \<Rightarrow> string \<Rightarrow> chained_fields \<Rightarrow> row_id \<Rightarrow> version_row" where
  "chained_row sha resolverVersion tail_row policyId source flds newId =
     (let prevHash = Option.bind tail_row chainLink in
      \<lparr>v_id = newId, v_policyId = policyId,
       v_version = (case tail_row of None \<Rightarrow> 0 | Some t \<Rightarrow> v_version t) + 1,
       v_content = source, v_source = Some source,
       v_sourceHash = Some (computeChainedHash sha source prevHash), v_prevHash = prevHash,
       v_status = DRAFT, v_createdBy = cf_createdBy flds, v_isDefault = False,
       v_releaseNote = cf_releaseNote flds, v_deprecatedAt = None, v_deprecatedBy = None,
       v_archivedAt = None, v_archivedBy = None, v_snapshotIds = [],
       v_aliasSet = cf_aliasSet flds, v_sourceEnvelope = Some (cf_sourceEnvelope flds),
       v_toolchainId = Some (cf_toolchainId flds), v_scopesJson = Some (cf_scopesJson flds),
       v_resolverVersion = Some resolverVersion, v_migrationError = None,
       v_archivedByMigration = False, v_statusBeforeArchive = None, v_profile = cf_profile flds\<rparr>)"

definition insertChainedVersion ::
  "(string \<Rightarrow> string) \<Rightarrow> int \<Rightarrow> policy_id \<Rightarrow> string \<Rightarrow> chained_fields \<Rightarrow> row_id \<Rightarrow> store \<Rightarrow> version_row \<times> store" where
  "insertChainedVersion sha resolverVersion policyId source flds newId st =
     (let row = chained_row sha resolverVersion (chain_tail st policyId) policyId source flds newId in
      (row, st\<lparr>versions_t := insert_row row (versions_t st)\<rparr>))"

text \<open>What a correct chain is: the specification the inserts and the resolver migration keep.\<close>

fun chain_from :: "(string \<Rightarrow> string) \<Rightarrow> string option \<Rightarrow> version_row list \<Rightarrow> bool" where
  "chain_from sha prev [] = True"
| "chain_from sha prev (v # vs) =
     (v_prevHash v = prev \<and>
      v_sourceHash v = Some (computeChainedHash sha (version_source v) prev) \<and>
      chain_from sha (chainLink v) vs)"

definition chain_of :: "store \<Rightarrow> policy_id \<Rightarrow> version_row list" where
  "chain_of st policyId = sort_key v_version (select_where (\<lambda>v. v_policyId v = policyId) (versions_t st))"

definition chains_ok :: "(string \<Rightarrow> string) \<Rightarrow> store \<Rightarrow> bool" where
  "chains_ok sha st \<longleftrightarrow> (\<forall>pid. chain_from sha None (chain_of st pid))"

section \<open>Framing is unambiguous\<close>

lemma frame_append_inj:
  assumes "frame a @ x = frame b @ y"
  shows "a = b \<and> x = y"
proof -
  have no: "CHR '':'' \<notin> set (dec n)" for n
    using dec_digits [of "CHR '':''" n] by auto
  have "dec (length a) @ CHR '':'' # (a @ CHR ''|'' # x) = dec (length b) @ CHR '':'' # (b @ CHR ''|'' # y)"
    using assms by (simp add: frame_def)
  then have "dec (length a) = dec (length b) \<and> a @ CHR ''|'' # x = b @ CHR ''|'' # y"
    by (rule append_at_char_eq) (rule no)+
  then show ?thesis using dec_inj append_eq_append_conv by blast
qed

interpretation frame: prefix_code frame
proof unfold_locales
  show "a = b \<and> x = y" if "frame a @ x = frame b @ y" for a x b y
    by (rule frame_append_inj [OF that])
  show "frame a \<noteq> []" for a by (simp add: frame_def)
qed

lemma frames_inj: "frames fs = frames gs \<Longrightarrow> map (\<lambda>f. nullish f []) fs = map (\<lambda>f. nullish f []) gs"
  by (rule frame.concat_inj) (simp add: frames_def comp_def)

section \<open>Locales\<close>

lemma normalizeCnlLocale_supported:
  assumes "normalizeCnlLocale raw = Some l"
  shows "l \<in> set CNL_LOCALES"
proof -
  let ?val = "js_lower (replace_first_underscore (js_trim raw))"
  let ?langs = "filter (\<lambda>l. js_lower (language_of l) = ?val) CNL_LOCALES"
  show ?thesis
  proof (cases "find_first (\<lambda>l. js_lower l = ?val) CNL_LOCALES")
    case None
    then have "(case ?langs of [l] \<Rightarrow> Some l | _ \<Rightarrow> None) = Some l"
      using assms by (simp only: normalizeCnlLocale_def Let_def option.case)
    then have "?langs = [l]" by (cases ?langs; cases "tl ?langs") simp_all
    then have "l \<in> set ?langs" by simp
    then show ?thesis by simp
  next
    case (Some q)
    then have "q = l" using assms by (simp only: normalizeCnlLocale_def Let_def option.case option.inject)
    then show ?thesis using find_first_Some [OF Some] by simp
  qed
qed

lemma parseCompileLocale_supported: "parseCompileLocale raw = Some l \<Longrightarrow> l \<in> set CNL_LOCALES"
  using normalizeCnlLocale_supported
  by (auto simp: parseCompileLocale_def DEFAULT_CNL_LOCALE_def CNL_LOCALES_def
      split: option.splits json.splits if_splits)

section \<open>Chains\<close>

definition link_after :: "string option \<Rightarrow> version_row list \<Rightarrow> string option" where
  "link_after prev vs = (if vs = [] then prev else chainLink (last vs))"

lemma chain_from_snoc:
  "chain_from sha prev (vs @ [v]) \<longleftrightarrow>
     chain_from sha prev vs \<and> v_prevHash v = link_after prev vs \<and>
     v_sourceHash v = Some (computeChainedHash sha (version_source v) (link_after prev vs))"
  by (induction vs arbitrary: prev) (auto simp: link_after_def)

lemma insort_key_snoc: "f a \<le> f x \<Longrightarrow> insort_key f a (s @ [x]) = insort_key f a s @ [x]"
  by (induction s) auto

lemma sort_key_snoc_max:
  assumes "\<forall>y \<in> set xs. f y \<le> (f x :: nat)"
  shows "sort_key f (xs @ [x]) = sort_key f xs @ [x]"
  using assms by (induction xs) (simp_all add: sort_key_def insort_key_snoc)

lemma last_sort_key_max:
  assumes "xs \<noteq> []"
  shows "last (sort_key f xs) \<in> set xs \<and> (\<forall>x \<in> set xs. f x \<le> (f (last (sort_key f xs)) :: nat))"
proof -
  let ?ys = "sort_key f xs"
  have ne: "?ys \<noteq> []" using assms by (metis length_0_conv length_sort)
  have "last ?ys \<in> set ?ys" using ne by (rule last_in_set)
  moreover have "f x \<le> f (last ?ys)" if "x \<in> set ?ys" for x
  proof -
    have "sorted (map f (butlast ?ys @ [last ?ys]))" using ne by (simp del: map_append)
    then have "\<forall>y \<in> set (butlast ?ys). f y \<le> f (last ?ys)" by (auto simp: sorted_append)
    moreover have "x \<in> set (butlast ?ys) \<or> x = last ?ys"
      using that ne by (metis append_butlast_last_id in_set_conv_decomp_last rotate1.simps(2) set_ConsD set_rotate1)
    ultimately show ?thesis by auto
  qed
  ultimately show ?thesis by simp
qed

lemma chain_tail_is_last:
  assumes "unique_key version_key (versions_t st)"
  shows "chain_tail st pid = (if chain_of st pid = [] then None else Some (last (chain_of st pid)))"
proof -
  let ?vs = "select_where (\<lambda>v. v_policyId v = pid) (versions_t st)"
  show ?thesis
  proof (cases "chain_tail st pid")
    case None
    then have "?vs = []" by (simp add: chain_tail_def)
    then show ?thesis using None by (simp add: chain_of_def)
  next
    case (Some t)
    then have t: "t \<in> set ?vs" "\<And>w. w \<in> set ?vs \<Longrightarrow> v_version w \<le> v_version t"
      using max_version_in max_version_max unfolding chain_tail_def by blast+
    have ne: "?vs \<noteq> []" using t(1) by (metis empty_iff list.set(1))
    then have l: "last (chain_of st pid) \<in> set ?vs" "v_version t \<le> v_version (last (chain_of st pid))"
      using last_sort_key_max [OF ne, of v_version] t(1) by (auto simp: chain_of_def)
    then have "last (chain_of st pid) = t"
      using t l unique_key_eq [OF assms, of "last (chain_of st pid)" t]
      by (fastforce simp: version_key_def)
    moreover have "chain_of st pid \<noteq> []"
      using ne by (metis chain_of_def length_0_conv length_sort)
    ultimately show ?thesis using Some by simp
  qed
qed

lemma chained_content_None [simp]: "chained_content s None = s"
  by (simp add: chained_content_def)

lemma chained_content_Some: "length a = 71 \<Longrightarrow> chained_content s (Some a) = s @ a"
  by (cases a) (simp_all add: chained_content_def)

text \<open>In chains without envelopes the links of two rows at the same place have the same length.\<close>

lemma chain_from_last_hash:
  assumes "chain_from sha prev vs" "vs \<noteq> []"
  shows "\<exists>c. v_sourceHash (last vs) = Some (hash_prefix @ sha c)"
  using assms by (induction vs arbitrary: prev) (auto simp: computeChainedHash_def)

lemma legacy_links:
  assumes "length vs = length ws" "chain_from sha None vs" "chain_from sha None ws"
    "\<forall>v \<in> set vs. v_sourceEnvelope v = None" "\<forall>v \<in> set ws. v_sourceEnvelope v = None"
    "\<And>x. length (sha x) = 64"
  shows "(link_after None vs = None \<and> link_after None ws = None) \<or>
    (\<exists>a b. link_after None vs = Some a \<and> link_after None ws = Some b \<and> length a = 71 \<and> length b = 71)"
proof (cases "vs = []")
  case True
  then show ?thesis using assms(1) by (simp add: link_after_def)
next
  case False
  then have ne: "ws \<noteq> []" using assms(1) by auto
  obtain c d where "v_sourceHash (last vs) = Some (hash_prefix @ sha c)"
    "v_sourceHash (last ws) = Some (hash_prefix @ sha d)"
    using chain_from_last_hash [OF assms(2) False] chain_from_last_hash [OF assms(3) ne] by blast
  then show ?thesis
    using False ne assms(4-6) by (simp add: link_after_def chainLink_def hash_prefix_def)
qed

section \<open>Properties\<close>

text \<open>
  an envelope fixes every compile input. If SHA-256 does not collide on the two framed strings,
  equal envelopes come from equal source, alias set, locale, toolchain and vocabulary segment (null
  and the empty string are one value), no matter what separators these texts contain.
\<close>

theorem envelope_binds_inputs:
  assumes "computeSourceEnvelope sha c a l t s = computeSourceEnvelope sha c' a' l' t' s'"
    "inj_on sha {frames [c, a, l, t, s], frames [c', a', l', t', s']}"
  shows "nullish c [] = nullish c' [] \<and> nullish a [] = nullish a' [] \<and> nullish l [] = nullish l' [] \<and>
    nullish t [] = nullish t' [] \<and> nullish s [] = nullish s' []"
proof -
  have "frames [c, a, l, t, s] = frames [c', a', l', t', s']"
    using assms unfolding computeSourceEnvelope_def lengthPrefixedSha256_def
    by (meson inj_onD insertCI)
  then show ?thesis using frames_inj by fastforce
qed

theorem envelope_binds_inputs_witness:
  "inj_on (\<lambda>s. take 64 (s @ replicate 64 CHR ''0''))
     {frames [Some ''A|'', None, Some ''en-US'', Some ''t'', Some []],
      frames [Some ''A'', Some ''|'', Some ''en-US'', Some ''t'', Some []]} \<and>
   computeSourceEnvelope (\<lambda>s. take 64 (s @ replicate 64 CHR ''0''))
     (Some ''A|'') None (Some ''en-US'') (Some ''t'') (Some []) \<noteq>
   computeSourceEnvelope (\<lambda>s. take 64 (s @ replicate 64 CHR ''0''))
     (Some ''A'') (Some ''|'') (Some ''en-US'') (Some ''t'') (Some [])"
proof -
  let ?sha = "\<lambda>s. take 64 (s @ replicate 64 CHR ''0'')"
  have e: "frames [Some ''A|'', None, Some ''en-US'', Some ''t'', Some []] = ''2:A||0:|5:en-US|1:t|0:|''"
    "frames [Some ''A'', Some ''|'', Some ''en-US'', Some ''t'', Some []] = ''1:A|1:||5:en-US|1:t|0:|''"
    by code_simp+
  have i: "inj_on ?sha {frames [Some ''A|'', None, Some ''en-US'', Some ''t'', Some []],
      frames [Some ''A'', Some ''|'', Some ''en-US'', Some ''t'', Some []]}"
    unfolding e by (simp add: inj_on_def)
  then show ?thesis
    using envelope_binds_inputs [of ?sha "Some ''A|''" None "Some ''en-US''" "Some ''t''" "Some []"
        "Some ''A''" "Some ''|''" "Some ''en-US''" "Some ''t''" "Some []"] by auto
qed

text \<open>
  a version saved with a locale the save entry accepts gives this locale back from its envelope,
  and every later reader resolves to it, whatever the keyword detection would say: SHA-256 must not
  collide on the eight candidate frames.
\<close>

theorem saved_locale_is_recovered:
  assumes "parseCompileLocale raw = Some l"
    "v = chained_row sha rv prev pid source f i"
    "cf_sourceEnvelope f = computeSourceEnvelope sha (Some source) (cf_aliasSet f) (Some l)
       (Some (cf_toolchainId f)) (Some (cf_scopesJson f))"
    "\<And>x. length (sha x) = 64"
    "inj_on sha ((\<lambda>c. frames [Some source, cf_aliasSet f, Some c, Some (cf_toolchainId f), Some (cf_scopesJson f)])
       ` set RECORDED_LOCALE_CANDIDATES)"
  shows "recordedCompileLocale sha v = Some l \<and> resolveStoredVersionLocale sha detect v = l"
proof -
  let ?frame = "\<lambda>c. frames [Some source, cf_aliasSet f, Some c, Some (cf_toolchainId f), Some (cf_scopesJson f)]"
  have l: "l \<in> set CNL_LOCALES" by (rule parseCompileLocale_supported [OF assms(1)])
  then have cand: "l \<in> set RECORDED_LOCALE_CANDIDATES" "l \<noteq> []"
    by (auto simp: RECORDED_LOCALE_CANDIDATES_def CNL_LOCALES_def)
  have env: "envelope_for sha v c = sha (?frame c)" for c
    by (simp add: assms(2) chained_row_def envelope_for_def computeSourceEnvelope_def
        lengthPrefixedSha256_def version_source_def Let_def)
  have stored: "v_sourceEnvelope v = Some (sha (?frame l))"
    using assms(3) by (simp add: assms(2) chained_row_def computeSourceEnvelope_def lengthPrefixedSha256_def Let_def)
  have ne: "sha (?frame l) \<noteq> []"
    using assms(4) [of "?frame l"] by (metis list.size(3) zero_neq_numeral)
  have only: "c = l" if c: "c \<in> set RECORDED_LOCALE_CANDIDATES" "sha (?frame c) = sha (?frame l)" for c
  proof -
    have "?frame c = ?frame l" using inj_onD [OF assms(5) c(2)] c(1) cand(1) by blast
    then show ?thesis using frames_inj by fastforce
  qed
  obtain c where c: "find_first (\<lambda>c. sha (?frame c) = sha (?frame l)) RECORDED_LOCALE_CANDIDATES = Some c"
    using find_first_in [OF cand(1), of "\<lambda>c. sha (?frame c) = sha (?frame l)"] by blast
  then have "c = l" using only find_first_Some [OF c] by blast
  then have "recordedCompileLocale sha v = Some l"
    using c stored ne by (simp add: recordedCompileLocale_def env or_null_def truthy_def split: list.splits)
  then show ?thesis
    using cand(2) by (simp add: resolveStoredVersionLocale_def choosePolicyLocale_def or_null_def truthy_def split: list.splits)
qed

theorem saved_locale_is_recovered_witness:
  "recordedCompileLocale (\<lambda>s. take 64 (s @ replicate 64 CHR ''0''))
     (chained_row (\<lambda>s. take 64 (s @ replicate 64 CHR ''0'')) 1 None ''p1'' ''A''
        \<lparr>cf_createdBy = None, cf_releaseNote = None, cf_aliasSet = None,
         cf_sourceEnvelope = computeSourceEnvelope (\<lambda>s. take 64 (s @ replicate 64 CHR ''0'')) (Some ''A'') None
           (Some ''de-DE'') (Some ''t'') (Some []),
         cf_toolchainId = ''t'', cf_scopesJson = [], cf_profile = None\<rparr> ''v1'') = Some ''de-DE''"
  (is "recordedCompileLocale ?sha (chained_row _ _ _ _ _ ?f _) = _")
proof -
  let ?frame = "\<lambda>c. frames [Some ''A'', cf_aliasSet ?f, Some c, Some (cf_toolchainId ?f), Some (cf_scopesJson ?f)]"
  have p: "parseCompileLocale (Some (JStr '' DE_de'')) = Some ''de-DE''" by code_simp
  have r: "map ?frame RECORDED_LOCALE_CANDIDATES =
    [''1:A|0:|5:en-US|1:t|0:|'', ''1:A|0:|5:zh-CN|1:t|0:|'', ''1:A|0:|5:de-DE|1:t|0:|'', ''1:A|0:|5:hi-IN|1:t|0:|'',
     ''1:A|0:|2:en|1:t|0:|'', ''1:A|0:|2:zh|1:t|0:|'', ''1:A|0:|2:de|1:t|0:|'', ''1:A|0:|2:hi|1:t|0:|'']"
    by code_simp
  have "inj_on ?sha (set (map ?frame RECORDED_LOCALE_CANDIDATES))"
    unfolding r by (simp add: inj_on_def)
  then have i: "inj_on ?sha (?frame ` set RECORDED_LOCALE_CANDIDATES)" by simp
  have n: "length (?sha x) = 64" for x :: string by simp
  show ?thesis
    using saved_locale_is_recovered [OF p refl _ n i, of 1 None "''p1''" "''v1''"] by simp
qed



text \<open>The strings a chain hashes.\<close>

definition hashed_contents :: "version_row list \<Rightarrow> string set" where
  "hashed_contents vs = (\<lambda>v. chained_content (version_source v) (v_prevHash v)) ` set vs"

definition no_envelopes :: "version_row list \<Rightarrow> bool" where
  "no_envelopes vs \<longleftrightarrow> (\<forall>v \<in> set vs. v_sourceEnvelope v = None)"

text \<open>
  C10: chains of rows without envelopes (the oldest rows) are tamper evident for a fixed length: two
  valid chains of the same number of versions with the same hash on the last one have the same
  source in every version, and the same hashes, if SHA-256 does not collide on the strings the two
  chains hash.
\<close>

theorem legacy_chain_tamper_evident:
  assumes "length vs = length ws" "chain_from sha None vs" "chain_from sha None ws"
    "no_envelopes vs" "no_envelopes ws" "link_after None vs = link_after None ws"
    "inj_on sha (hashed_contents vs \<union> hashed_contents ws)" "\<And>x. length (sha x) = 64"
  shows "map version_source vs = map version_source ws \<and> map v_sourceHash vs = map v_sourceHash ws"
  using assms(1-7)
proof (induction vs arbitrary: ws rule: rev_induct)
  case Nil
  then show ?case by simp
next
  case (snoc v vs)
  obtain w ws' where ws: "ws = ws' @ [w]"
    using snoc.prems(1) by (cases ws rule: rev_exhaust) auto
  have len: "length vs = length ws'" using snoc.prems(1) ws by simp
  have hv: "v_sourceHash v = Some (computeChainedHash sha (version_source v) (v_prevHash v))"
    "v_prevHash v = link_after None vs" "chain_from sha None vs"
    and hw: "v_sourceHash w = Some (computeChainedHash sha (version_source w) (v_prevHash w))"
    "v_prevHash w = link_after None ws'" "chain_from sha None ws'"
    using snoc.prems(2,3) by (auto simp: ws chain_from_snoc)
  have "v_sourceHash v = v_sourceHash w"
    using snoc.prems(4-6) by (simp add: ws link_after_def chainLink_def no_envelopes_def)
  then have eq: "sha (chained_content (version_source v) (v_prevHash v)) =
      sha (chained_content (version_source w) (v_prevHash w))"
    using hv(1) hw(1) by (simp add: computeChainedHash_def)
  have content: "chained_content (version_source v) (v_prevHash v) =
      chained_content (version_source w) (v_prevHash w)"
    by (rule inj_onD [OF snoc.prems(7) eq]) (auto simp: hashed_contents_def ws)
  have prevs: "(v_prevHash v = None \<and> v_prevHash w = None) \<or>
      (\<exists>a b. v_prevHash v = Some a \<and> v_prevHash w = Some b \<and> length a = 71 \<and> length b = 71)"
    unfolding hv(2) hw(2)
    by (rule legacy_links [OF len]) (use hv(3) hw(3) snoc.prems(4,5) assms(8) in \<open>auto simp: ws no_envelopes_def\<close>)
  then have same: "version_source v = version_source w" "v_prevHash v = v_prevHash w"
    using content by (auto simp: chained_content_Some)
  have "map version_source vs = map version_source ws' \<and> map v_sourceHash vs = map v_sourceHash ws'"
  proof (rule snoc.IH [OF len hv(3) hw(3)])
    show "no_envelopes vs" "no_envelopes ws'" using snoc.prems(4,5) by (auto simp: ws no_envelopes_def)
    show "link_after None vs = link_after None ws'" using hv(2) hw(2) same by simp
    show "inj_on sha (hashed_contents vs \<union> hashed_contents ws')"
      by (rule inj_on_subset [OF snoc.prems(7)]) (auto simp: hashed_contents_def ws)
  qed
  then show ?case using same \<open>v_sourceHash v = v_sourceHash w\<close> by (simp add: ws)
qed

theorem legacy_chain_tamper_evident_witness:
  "\<exists>vs ws. length vs = 2 \<and> chain_from (\<lambda>s. take 64 (s @ replicate 64 CHR ''0'')) None vs \<and>
     chain_from (\<lambda>s. take 64 (s @ replicate 64 CHR ''0'')) None ws \<and> length ws = 2 \<and>
     version_source (hd vs) \<noteq> version_source (hd ws) \<and> link_after None vs \<noteq> link_after None ws"
proof -
  let ?sha = "\<lambda>s. take 64 (s @ replicate 64 CHR ''0'')"
  let ?h = "\<lambda>s. computeChainedHash ?sha s None"
  let ?v1 = "version_of ''v1'' ''p1'' 1 APPROVED\<lparr>v_source := Some ''A'', v_sourceHash := Some (?h ''A'')\<rparr>"
  let ?w1 = "version_of ''v1'' ''p1'' 1 APPROVED\<lparr>v_source := Some ''X'', v_sourceHash := Some (?h ''X'')\<rparr>"
  let ?two = "\<lambda>p. version_of ''v2'' ''p1'' 2 APPROVED\<lparr>v_source := Some ''B'', v_prevHash := Some p,
    v_sourceHash := Some (computeChainedHash ?sha ''B'' (Some p))\<rparr>"
  let ?vs = "[?v1, ?two (?h ''A'')]" and ?ws = "[?w1, ?two (?h ''X'')]"
  have c: "chain_from ?sha None ?vs" "chain_from ?sha None ?ws" by code_simp+
  have e: "no_envelopes ?vs" "no_envelopes ?ws" by (simp_all add: no_envelopes_def)
  have h: "map (\<lambda>v. chained_content (version_source v) (v_prevHash v)) (?vs @ ?ws) =
    [''A'', ''Bsha256:A'' @ replicate 63 CHR ''0'', ''X'', ''Bsha256:X'' @ replicate 63 CHR ''0'']" by code_simp
  have "hashed_contents ?vs \<union> hashed_contents ?ws =
      set (map (\<lambda>v. chained_content (version_source v) (v_prevHash v)) (?vs @ ?ws))"
    by (simp add: hashed_contents_def insert_commute)
  then have i: "inj_on ?sha (hashed_contents ?vs \<union> hashed_contents ?ws)"
    unfolding h by (simp add: inj_on_def)
  have n: "length (?sha x) = 64" for x :: string by simp
  have s: "version_source (hd ?vs) \<noteq> version_source (hd ?ws)" by (simp add: version_source_def)
  have l: "length ?vs = length ?ws" by simp
  have ne: "link_after None ?vs \<noteq> link_after None ?ws"
  proof
    assume same: "link_after None ?vs = link_after None ?ws"
    have "map version_source ?vs = map version_source ?ws"
      using legacy_chain_tamper_evident [OF l c e same i n] ..
    then show False using s by (simp add: version_source_def)
  qed
  show ?thesis
    by (intro exI [of _ ?vs] exI [of _ ?ws] conjI) (fact c | fact s | fact ne | simp)+
qed

text \<open>
  the number of versions is not protected. For every hash function there is a valid chain of two
  versions and a valid chain of one whose last hashes are equal: the hash covers the source followed
  directly by the previous link, so a single version whose text ends in that link looks the same.
\<close>

theorem chained_hash_does_not_fix_length:
  "\<exists>vs ws. length vs = 2 \<and> length ws = 1 \<and> chain_from sha None vs \<and> chain_from sha None ws \<and>
     no_envelopes (vs @ ws) \<and> link_after None vs = link_after None ws"
proof -
  define h where "h = computeChainedHash sha ''A'' None"
  define k where "k = computeChainedHash sha (''B'' @ h) None"
  let ?v1 = "version_of ''v1'' ''p1'' 1 APPROVED\<lparr>v_source := Some ''A'', v_sourceHash := Some h\<rparr>"
  let ?v2 = "version_of ''v2'' ''p1'' 2 APPROVED\<lparr>v_source := Some ''B'', v_prevHash := Some h,
    v_sourceHash := Some k\<rparr>"
  let ?w = "version_of ''v1'' ''p1'' 1 APPROVED\<lparr>v_source := Some (''B'' @ h), v_sourceHash := Some k\<rparr>"
  have "or_null (Some h) = Some h"
    by (simp add: h_def computeChainedHash_def hash_prefix_def)
  then have "chained_content ''B'' (Some h) = chained_content (''B'' @ h) None"
    by (simp only: chained_content_def option.case or_null_simps)
  then have k: "computeChainedHash sha ''B'' (Some h) = k"
    by (simp only: k_def computeChainedHash_def)
  have "chain_from sha None [?v1, ?v2]" "chain_from sha None [?w]"
    using h_def k k_def by (simp_all add: version_source_def chainLink_def)
  moreover have "no_envelopes ([?v1, ?v2] @ [?w])" "link_after None [?v1, ?v2] = link_after None [?w]"
    by (simp_all add: no_envelopes_def link_after_def chainLink_def)
  moreover have "length [?v1, ?v2] = 2" "length [?w] = 1" by simp_all
  ultimately show ?thesis by blast
qed

text \<open>
  with envelopes the chain does not reach past the next version. For every hash function there
  are two valid chains of three versions, all with correct envelopes, that differ in the source of
  the first version and still have the same third row: the link of a row is its envelope, which does
  not cover the row's own link.
\<close>

theorem envelope_chain_hides_old_changes:
  "\<exists>v1 v2 v3 w1 w2. chain_from sha None [v1, v2, v3] \<and> chain_from sha None [w1, w2, v3] \<and>
     map v_sourceEnvelope [v1, v2, v3, w1, w2] = map (\<lambda>v. Some (envelope_for sha v ''en-US'')) [v1, v2, v3, w1, w2] \<and>
     version_source v1 \<noteq> version_source w1 \<and> version_source v2 = version_source w2"
proof -
  define e where "e s = computeSourceEnvelope sha (Some s) None (Some ''en-US'') (Some ''t'') (Some [])" for s
  define f where "f s = \<lparr>cf_createdBy = None, cf_releaseNote = None, cf_aliasSet = None, cf_sourceEnvelope = e s,
    cf_toolchainId = ''t'', cf_scopesJson = [], cf_profile = None\<rparr>" for s
  define row where "row t s i = chained_row sha 1 t ''p1'' s (f s) i" for t s i
  define v1 where "v1 = row None ''A'' ''v1''"
  define w1 where "w1 = row None ''X'' ''v1''"
  define v2 where "v2 = row (Some v1) ''B'' ''v2''"
  define w2 where "w2 = row (Some w1) ''B'' ''v2''"
  define v3 where "v3 = row (Some v2) ''C'' ''v3''"
  have row: "version_source (row t s i) = s" "v_prevHash (row t s i) = Option.bind t chainLink"
    "v_sourceHash (row t s i) = Some (computeChainedHash sha s (Option.bind t chainLink))"
    "v_sourceEnvelope (row t s i) = Some (e s)" "chainLink (row t s i) = Some (e s)"
    "envelope_for sha (row t s i) ''en-US'' = e s" for t s i
    by (simp_all add: row_def f_def chained_row_def chainLink_def version_source_def envelope_for_def e_def Let_def)
  have "chain_from sha None [v1, v2, v3]" "chain_from sha None [w1, w2, v3]"
    unfolding v3_def by (simp_all add: row v1_def w1_def v2_def w2_def)
  moreover have "map v_sourceEnvelope [v1, v2, v3, w1, w2] = map (\<lambda>v. Some (envelope_for sha v ''en-US'')) [v1, v2, v3, w1, w2]"
    unfolding v3_def by (simp add: row v1_def w1_def v2_def w2_def)
  moreover have "version_source v1 \<noteq> version_source w1" "version_source v2 = version_source w2"
    by (simp_all add: row v1_def w1_def v2_def w2_def)
  ultimately show ?thesis by blast
qed

end
