(* ===== verification/VersionManager.thy ===== *)
theory VersionManager
  imports SnapshotFacts HashChain
begin

text \<open>
  The version service (\<open>src/src/services/policy/version-manager.ts\<close>): creating a draft behind the
  compile gate, submitting, approving (with the vocabulary freeze in the same transaction), setting
  the default, deprecating, archiving and reading. An operation that reads a version first and
  writes it later is the composition of a check and a write, so that the two can also be
  interleaved with other operations.
\<close>

section \<open>Errors and the compile gate\<close>

datatype version_state_code =
    version_not_submittable | version_not_pending | version_not_approved
  | version_not_archivable | default_version_locked

definition VERSION_STATE_ERROR_CODES :: "version_state_code list" where
  "VERSION_STATE_ERROR_CODES =
     [version_not_submittable, version_not_pending, version_not_approved,
      version_not_archivable, default_version_locked]"

datatype severity = SevError | SevWarning | SevInfo | SevHint

record compile_diagnostic =
  d_severity :: severity
  d_code :: "string option"
  d_message :: "string option"
  d_startLine :: "int option"
  d_startColumn :: "int option"

datatype version_error =
    PolicyAccessDenied nat string
  | SegregationOfDuties
  | VocabularyFreezeFailed
  | VocabularyChangedSinceSave
  | VersionState version_state_code
  | PolicyCompileError string "compile_diagnostic list"
  | PolicyCompileUnavailable int string
  | UnsupportedLocale string
  | AliasReservedMissing
  | AliasesInvalid "alias_issue list"

definition accessDeniedError :: "access_decision \<Rightarrow> version_error" where
  "accessDeniedError d =
     (case d of
        Denied stat c \<Rightarrow> if stat = 403 then PolicyAccessDenied 403 c else PolicyAccessDenied 404 ''policy_not_found''
      | Allowed _ _ \<Rightarrow> PolicyAccessDenied 404 ''policy_not_found'')"

text \<open>A user in a browser session: the service passes no key team.\<close>

definition session_actor :: "user_id \<Rightarrow> policy_actor" where
  "session_actor userId = \<lparr>pa_userId = userId, pa_keyTeamId = None\<rparr>"

definition assertPolicyAction :: "store \<Rightarrow> policy_id \<Rightarrow> user_id \<Rightarrow> policy_action \<Rightarrow> version_error option" where
  "assertPolicyAction st policyId userId action =
     (case loadPolicyForAction st policyId (session_actor userId) action False of
        Inl d \<Rightarrow> Some (accessDeniedError d)
      | Inr _ \<Rightarrow> None)"

definition assertVersionReadAccess :: "store \<Rightarrow> policy_id \<Rightarrow> user_id \<Rightarrow> version_error option" where
  "assertVersionReadAccess st policyId userId = assertPolicyAction st policyId userId ActView"

definition PROFILE_ERROR_CODES :: "string list" where
  "PROFILE_ERROR_CODES = [''E705'', ''E706'']"

definition GOV_CHECK_UNAVAILABLE_CODE :: string where
  "GOV_CHECK_UNAVAILABLE_CODE = ''E707''"

definition DEFAULT_COMPILE_RETRY_AFTER_SECONDS :: int where
  "DEFAULT_COMPILE_RETRY_AFTER_SECONDS = 60"

definition default_compile_message :: string where
  "default_compile_message = ''Policy source could not be compiled.''"

definition fill_diagnostic :: "compile_diagnostic \<Rightarrow> compile_diagnostic" where
  "fill_diagnostic d =
     d\<lparr>d_code := Some (nullish (d_code d) ''compile_error''),
       d_message := Some (nullish (d_message d) default_compile_message),
       d_startLine := Some (nullish (d_startLine d) 1),
       d_startColumn := Some (nullish (d_startColumn d) 1)\<rparr>"

definition compileErrorFor :: "compile_diagnostic list \<Rightarrow> version_error" where
  "compileErrorFor errors =
     (let diagnostics = map fill_diagnostic errors in
      case find_first (\<lambda>d. d_code d \<in> Some ` set PROFILE_ERROR_CODES) errors of
        Some profileError \<Rightarrow>
          PolicyCompileError
            (''Policy violates its declared governance profile and cannot be saved'' @
             (case or_null (d_message profileError) of Some m \<Rightarrow> '': '' @ m | None \<Rightarrow> ''.'')) diagnostics
      | None \<Rightarrow>
          if list_ex (\<lambda>d. d_code d = Some GOV_CHECK_UNAVAILABLE_CODE) errors
          then PolicyCompileUnavailable DEFAULT_COMPILE_RETRY_AFTER_SECONDS ''compile_unavailable''
          else PolicyCompileError default_compile_message diagnostics)"

text \<open>What the injected validator does: answer, throw a compile error, or fail otherwise.\<close>

datatype validator_outcome =
    Validated "compile_diagnostic list" "string option"
  | ValidatorRejects version_error
  | ValidatorFails

type_synonym compile_validator = "string \<Rightarrow> string \<Rightarrow> alias_set option \<Rightarrow> bool \<Rightarrow> validator_outcome"

definition assertCompilable ::
  "(string \<Rightarrow> bool) \<Rightarrow> compile_validator \<Rightarrow> string \<Rightarrow> string \<Rightarrow> alias_set option \<Rightarrow> bool \<Rightarrow>
   version_error + string option" where
  "assertCompilable declaresProfile validator source locale aliasSet allowStructural =
     (case validator source locale aliasSet allowStructural of
        Validated diagnostics profile \<Rightarrow>
          (let errors = filter (\<lambda>d. d_severity d = SevError) diagnostics in
           if errors \<noteq> [] then Inl (compileErrorFor errors) else Inr (or_null profile))
      | ValidatorRejects e \<Rightarrow> Inl e
      | ValidatorFails \<Rightarrow>
          if declaresProfile source
          then Inl (PolicyCompileUnavailable DEFAULT_COMPILE_RETRY_AFTER_SECONDS ''compile_unavailable'')
          else Inr None)"

section \<open>Creating a version\<close>

record create_params =
  cp_policyId :: policy_id
  cp_source :: string
  cp_createdBy :: user_id
  cp_releaseNote :: "string option"
  cp_locale :: "string option"
  cp_aliasSet :: "alias_set option"
  cp_aliasReserved :: "reserved_sets option"
  cp_allowStructural :: bool
  cp_toolchainId :: "string option"
  cp_scopesJson :: string
  cp_validator :: "compile_validator option"
  cp_profile :: "string option"
  cp_inTransaction :: bool

text \<open>The process and its libraries: hashing, the engine's constants, the profile scan, the locale guess.\<close>

record service_env =
  env_sha :: "string \<Rightarrow> string"
  env_ids :: engine_ids
  env_declaresProfile :: "string \<Rightarrow> bool"
  env_detect :: "string \<Rightarrow> string"
  env_nfc :: "string \<Rightarrow> string"
  env_uses :: uses_fn
  env_scopesJson :: "vocabulary option \<Rightarrow> string"

definition invalidateAfterVersionChange :: "policy_id \<Rightarrow> store \<Rightarrow> store" where
  "invalidateAfterVersionChange policyId st = emit (InvalidatePolicyCache policyId) st"

text \<open>The validated aliases as canonical JSON, or \<open>None\<close> without aliases.\<close>

definition freeze_aliases :: "create_params \<Rightarrow> version_error + string option" where
  "freeze_aliases p =
     (case cp_aliasSet p of
        None \<Rightarrow> Inr None
      | Some aliasSet \<Rightarrow>
          if aliasSet = [] then Inr None
          else (case cp_aliasReserved p of
                  None \<Rightarrow> Inl AliasReservedMissing
                | Some reserved \<Rightarrow>
                    (let issues = validateUserAliases aliasSet reserved (cp_allowStructural p) in
                     if issues \<noteq> [] then Inl (AliasesInvalid issues)
                     else Inr (canonicalAliasJson aliasSet))))"

text \<open>The kinds of the frozen JSON, which are those of the canonical entries.\<close>

definition logged_structural :: "create_params \<Rightarrow> string option \<Rightarrow> bool" where
  "logged_structural p aliasJson \<longleftrightarrow>
     aliasJson \<noteq> None \<and>
     list_ex (\<lambda>(kind, _). kind \<in> set STRUCTURAL_KINDS) (canonical_entries (nullish (cp_aliasSet p) []))"

definition createVersion ::
  "service_env \<Rightarrow> create_params \<Rightarrow> row_id \<Rightarrow> store \<Rightarrow> (version_error + version_row) \<times> store" where
  "createVersion env p newId st =
     (let locale = nullish (cp_locale p) DEFAULT_CNL_LOCALE in
      if locale \<notin> set CNL_LOCALES then (Inl (UnsupportedLocale locale), st)
      else case freeze_aliases p of
        Inl e \<Rightarrow> (Inl e, st)
      | Inr aliasJson \<Rightarrow>
     (case (case cp_validator p of
              None \<Rightarrow> Inr (cp_profile p)
            | Some validator \<Rightarrow>
                assertCompilable (env_declaresProfile env) validator (cp_source p) locale
                  (cp_aliasSet p) (cp_allowStructural p)) of
        Inl e \<Rightarrow> (Inl e, st)
      | Inr profile \<Rightarrow>
          let toolchainId = nullish (cp_toolchainId p) (cloudToolchainId (env_ids env));
              envelope = computeSourceEnvelope (env_sha env) (Some (cp_source p)) aliasJson (Some locale)
                (Some toolchainId) (Some (cp_scopesJson p));
              (row, st1) = insertChainedVersion (env_sha env) (e_resolver (env_ids env)) (cp_policyId p) (cp_source p)
                \<lparr>cf_createdBy = Some (cp_createdBy p), cf_releaseNote = cp_releaseNote p, cf_aliasSet = aliasJson,
                 cf_sourceEnvelope = envelope, cf_toolchainId = toolchainId, cf_scopesJson = cp_scopesJson p,
                 cf_profile = profile\<rparr> newId st;
              st2 = emit (VersionCreatedEvent (cp_policyId p) (cp_createdBy p) (v_version row)
                (nullish (v_sourceHash row) []) aliasJson (logged_structural p aliasJson) (cp_allowStructural p)) st1
          in (Inr row, if cp_inTransaction p then st2 else invalidateAfterVersionChange (cp_policyId p) st2)))"

section \<open>Submitting\<close>

text \<open>The lookup that the state changes share: the version of the policy in one of the given states.\<close>

definition find_version :: "store \<Rightarrow> policy_id \<Rightarrow> nat \<Rightarrow> version_status list \<Rightarrow> version_row option" where
  "find_version st policyId version statuses =
     find_first (\<lambda>v. v_policyId v = policyId \<and> v_version v = version \<and> v_status v \<in> set statuses) (versions_t st)"

definition set_version :: "row_id \<Rightarrow> (version_row \<Rightarrow> version_row) \<Rightarrow> store \<Rightarrow> store" where
  "set_version versionId f st =
     st\<lparr>versions_t := update_where (\<lambda>v. v_id v = versionId) f (versions_t st)\<rparr>"

definition submit_check :: "store \<Rightarrow> policy_id \<Rightarrow> nat \<Rightarrow> user_id \<Rightarrow> version_error + version_row" where
  "submit_check st policyId version userId =
     (case assertPolicyAction st policyId userId ActUpdate of
        Some e \<Rightarrow> Inl e
      | None \<Rightarrow>
     (case find_version st policyId version [DRAFT, REJECTED] of
        None \<Rightarrow> Inl (VersionState version_not_submittable)
      | Some target \<Rightarrow> Inr target))"

definition submit_write :: "version_row \<Rightarrow> user_id \<Rightarrow> string option \<Rightarrow> store \<Rightarrow> store" where
  "submit_write target userId releaseNote st =
     invalidateAfterVersionChange (v_policyId target)
       (emit (SecurityEvent ''APPROVAL_DECISION'' (v_policyId target) userId (v_version target))
         (set_version (v_id target)
           (\<lambda>v. v\<lparr>v_status := PENDING_APPROVAL,
                  v_releaseNote := (if truthy releaseNote then releaseNote else v_releaseNote v)\<rparr>) st))"

definition submitForApproval ::
  "policy_id \<Rightarrow> nat \<Rightarrow> user_id \<Rightarrow> string option \<Rightarrow> store \<Rightarrow> (version_error + unit) \<times> store" where
  "submitForApproval policyId version userId releaseNote st =
     (case submit_check st policyId version userId of
        Inl e \<Rightarrow> (Inl e, st)
      | Inr target \<Rightarrow> (Inr (), submit_write target userId releaseNote st))"

section \<open>Approving\<close>

text \<open>
  The freeze inside the approval. \<open>fault\<close> is a statement of the freeze that throws; the vocabulary is
  compared with the sealed one only when the version has a seal.
\<close>

definition freezeApprovalVocabulary ::
  "service_env \<Rightarrow> (nat \<Rightarrow> row_id) \<Rightarrow> bool \<Rightarrow> version_row \<Rightarrow> store \<Rightarrow> (version_error + snapshot_ref list) \<times> store" where
  "freezeApprovalVocabulary env fresh fault target st =
     (case or_null (v_createdBy target) of
        None \<Rightarrow> (Inr [], st)
      | Some author \<Rightarrow>
          let source = version_source target;
              locale = resolveStoredVersionLocale (env_sha env) (env_detect env) (target\<lparr>v_snapshotIds := []\<rparr>);
              verify = (case v_scopesJson target of
                          None \<Rightarrow> (\<lambda>vocab. True)
                        | Some sealed \<Rightarrow> (\<lambda>vocab. env_scopesJson env vocab = sealed))
          in if fault then (Inl VocabularyFreezeFailed, st)
             else case freezeVocabularyForApproval (env_sha env) (env_nfc env) (env_uses env) fresh author
                 (v_policyId target) \<lparr>pc_source = source, pc_locale = locale\<rparr> verify st of
               None \<Rightarrow> (Inl VocabularyChangedSinceSave, st)
             | Some (refs, st1) \<Rightarrow> (Inr refs, st1))"

definition lockPendingVersion :: "store \<Rightarrow> row_id \<Rightarrow> bool" where
  "lockPendingVersion st versionId \<longleftrightarrow>
     (case find_first (\<lambda>v. v_id v = versionId) (versions_t st) of
        None \<Rightarrow> False
      | Some v \<Rightarrow> v_status v = PENDING_APPROVAL)"

fun decided_status :: "approval_decision \<Rightarrow> version_status" where
  "decided_status DecApproved = APPROVED"
| "decided_status DecRejected = REJECTED"
| "decided_status DecRequestedChanges = DRAFT"

text \<open>The reads before the transaction: the version and whether the reviewer approves their own work.\<close>

definition approve_check ::
  "store \<Rightarrow> policy_id \<Rightarrow> nat \<Rightarrow> user_id \<Rightarrow> (version_error + version_row \<times> bool) \<times> store" where
  "approve_check st policyId version approverId =
     (case loadPolicyForAction st policyId (session_actor approverId) ActApprove False of
        Inl d \<Rightarrow> (Inl (accessDeniedError d), st)
      | Inr (policy, decision) \<Rightarrow>
          let ctx = \<lparr>rc_policyOwnerId = p_userId policy, rc_policyTeamId = p_teamId policy, rc_reviewerId = approverId,
                     rc_reviewerTeamRole = (case decision of Allowed _ role \<Rightarrow> role | Denied _ _ \<Rightarrow> None)\<rparr>
          in if \<not> canReviewPolicyVersions ctx then (Inl (PolicyAccessDenied 404 ''policy_not_found''), st)
             else case find_version st policyId version [PENDING_APPROVAL] of
               None \<Rightarrow> (Inl (VersionState version_not_pending), st)
             | Some target \<Rightarrow>
                 (case decideVersionApproval ctx (v_createdBy target) of
                    Inl _ \<Rightarrow> (Inl SegregationOfDuties,
                              emit (SecurityEvent ''SELF_APPROVAL_ATTEMPT'' policyId approverId version) st)
                  | Inr selfApproved \<Rightarrow> (Inr (target, selfApproved), st)))"

text \<open>The transaction: both rows are locked and checked again, then everything is written or nothing.\<close>

definition approve_tx ::
  "service_env \<Rightarrow> (nat \<Rightarrow> row_id) \<Rightarrow> bool \<Rightarrow> version_row \<Rightarrow> user_id \<Rightarrow> approval_decision \<Rightarrow> string option \<Rightarrow> row_id \<Rightarrow>
   store \<Rightarrow> (version_error + snapshot_ref list option) \<times> store" where
  "approve_tx env fresh fault target approverId decision comment approvalId st =
     (if \<not> lockPolicyForSnapshotRefs st (v_policyId target)
      then (Inl (PolicyAccessDenied 404 ''policy_not_found''), st)
      else if \<not> lockPendingVersion st (v_id target) then (Inl (VersionState version_not_pending), st)
      else case (if decision = DecApproved
                 then (case freezeApprovalVocabulary env fresh fault target st of
                         (Inl e, _) \<Rightarrow> (Inl e, st)
                       | (Inr refs, st1) \<Rightarrow> (Inr (Some refs), st1))
                 else (Inr None, st)) of
        (Inl e, _) \<Rightarrow> (Inl e, st)
      | (Inr refs, st1) \<Rightarrow>
          (Inr refs,
           set_version (v_id target)
             (\<lambda>v. v\<lparr>v_status := decided_status decision, v_snapshotIds := nullish refs (v_snapshotIds v)\<rparr>)
             (st1\<lparr>approvals_t := insert_row
                 \<lparr>a_id = approvalId, a_versionId = v_id target, a_approverId = approverId,
                  a_decision = decision, a_comment = comment\<rparr> (approvals_t st1)\<rparr>)))"

text \<open>After the commit: audit of the freeze, the security event, the first-approval metric, the cache.\<close>

definition approve_effects ::
  "version_row \<Rightarrow> user_id \<Rightarrow> approval_decision \<Rightarrow> string option \<Rightarrow> bool \<Rightarrow> snapshot_ref list option \<Rightarrow> store \<Rightarrow> store" where
  "approve_effects target approverId decision comment selfApproved refs st =
     (let author = or_null (v_createdBy target);
          st1 = (case (refs, author) of
                   (Some rs, Some a) \<Rightarrow> auditVocabularyFreeze a (v_id target) rs st
                 | _ \<Rightarrow> st);
          st2 = emit (ApprovalEvent (v_policyId target) approverId (v_version target) decision comment selfApproved) st1;
          st3 = (case author of
                   Some a \<Rightarrow> if decision = DecApproved then emit (AhaMoment a (v_id target)) st2 else st2
                 | None \<Rightarrow> st2)
      in invalidateAfterVersionChange (v_policyId target) st3)"

definition approveVersion ::
  "service_env \<Rightarrow> (nat \<Rightarrow> row_id) \<Rightarrow> bool \<Rightarrow> policy_id \<Rightarrow> nat \<Rightarrow> user_id \<Rightarrow> approval_decision \<Rightarrow> string option \<Rightarrow>
   row_id \<Rightarrow> store \<Rightarrow> (version_error + unit) \<times> store" where
  "approveVersion env fresh fault policyId version approverId decision comment approvalId st =
     (case approve_check st policyId version approverId of
        (Inl e, st1) \<Rightarrow> (Inl e, st1)
      | (Inr (target, selfApproved), _) \<Rightarrow>
          (case approve_tx env fresh fault target approverId decision comment approvalId st of
             (Inl e, st1) \<Rightarrow> (Inl e, st1)
           | (Inr refs, st1) \<Rightarrow>
               (Inr (), approve_effects target approverId decision comment selfApproved refs st1)))"

section \<open>The default version, deprecation and archiving\<close>

definition set_default_check :: "store \<Rightarrow> policy_id \<Rightarrow> nat \<Rightarrow> user_id \<Rightarrow> version_error + version_row" where
  "set_default_check st policyId version userId =
     (case assertPolicyAction st policyId userId ActUpdate of
        Some e \<Rightarrow> Inl e
      | None \<Rightarrow>
     (case find_version st policyId version [APPROVED] of
        None \<Rightarrow> Inl (VersionState version_not_approved)
      | Some target \<Rightarrow> Inr target))"

definition set_default_write :: "version_row \<Rightarrow> user_id \<Rightarrow> store \<Rightarrow> store" where
  "set_default_write target userId st =
     (let st1 = st\<lparr>versions_t := update_where (\<lambda>v. v_policyId v = v_policyId target \<and> v_isDefault v)
                  (\<lambda>v. v\<lparr>v_isDefault := False\<rparr>) (versions_t st)\<rparr>;
          st2 = set_version (v_id target) (\<lambda>v. v\<lparr>v_isDefault := True\<rparr>) st1
      in invalidateAfterVersionChange (v_policyId target)
           (emit (SecurityEvent ''VERSION_SET_DEFAULT'' (v_policyId target) userId (v_version target)) st2))"

definition setDefaultVersion :: "policy_id \<Rightarrow> nat \<Rightarrow> user_id \<Rightarrow> store \<Rightarrow> (version_error + unit) \<times> store" where
  "setDefaultVersion policyId version userId st =
     (case set_default_check st policyId version userId of
        Inl e \<Rightarrow> (Inl e, st)
      | Inr target \<Rightarrow> (Inr (), set_default_write target userId st))"

definition deprecate_check :: "store \<Rightarrow> policy_id \<Rightarrow> nat \<Rightarrow> user_id \<Rightarrow> version_error + version_row" where
  "deprecate_check st policyId version userId =
     (case assertPolicyAction st policyId userId ActDelete of
        Some e \<Rightarrow> Inl e
      | None \<Rightarrow>
     (case find_version st policyId version [APPROVED] of
        None \<Rightarrow> Inl (VersionState version_not_approved)
      | Some target \<Rightarrow> if v_isDefault target then Inl (VersionState default_version_locked) else Inr target))"

definition deprecate_write :: "version_row \<Rightarrow> user_id \<Rightarrow> date \<Rightarrow> store \<Rightarrow> store" where
  "deprecate_write target userId now st =
     invalidateAfterVersionChange (v_policyId target)
       (emit (SecurityEvent ''VERSION_DEPRECATED'' (v_policyId target) userId (v_version target))
         (set_version (v_id target)
           (\<lambda>v. v\<lparr>v_status := DEPRECATED, v_deprecatedAt := Some now, v_deprecatedBy := Some userId\<rparr>) st))"

definition deprecateVersion :: "policy_id \<Rightarrow> nat \<Rightarrow> user_id \<Rightarrow> date \<Rightarrow> store \<Rightarrow> (version_error + unit) \<times> store" where
  "deprecateVersion policyId version userId now st =
     (case deprecate_check st policyId version userId of
        Inl e \<Rightarrow> (Inl e, st)
      | Inr target \<Rightarrow> (Inr (), deprecate_write target userId now st))"

definition archive_check :: "store \<Rightarrow> policy_id \<Rightarrow> nat \<Rightarrow> user_id \<Rightarrow> version_error + version_row" where
  "archive_check st policyId version userId =
     (case assertPolicyAction st policyId userId ActDelete of
        Some e \<Rightarrow> Inl e
      | None \<Rightarrow>
     (case find_version st policyId version [APPROVED, DEPRECATED] of
        None \<Rightarrow> Inl (VersionState version_not_archivable)
      | Some target \<Rightarrow> if v_isDefault target then Inl (VersionState default_version_locked) else Inr target))"

definition archive_write :: "version_row \<Rightarrow> user_id \<Rightarrow> date \<Rightarrow> store \<Rightarrow> store" where
  "archive_write target userId now st =
     invalidateAfterVersionChange (v_policyId target)
       (emit (SecurityEvent ''VERSION_ARCHIVED'' (v_policyId target) userId (v_version target))
         (set_version (v_id target)
           (\<lambda>v. v\<lparr>v_status := ARCHIVED, v_archivedAt := Some now, v_archivedBy := Some userId\<rparr>) st))"

definition archiveVersion :: "policy_id \<Rightarrow> nat \<Rightarrow> user_id \<Rightarrow> date \<Rightarrow> store \<Rightarrow> (version_error + unit) \<times> store" where
  "archiveVersion policyId version userId now st =
     (case archive_check st policyId version userId of
        Inl e \<Rightarrow> (Inl e, st)
      | Inr target \<Rightarrow> (Inr (), archive_write target userId now st))"

section \<open>Reading\<close>

definition by_version_desc :: "version_row list \<Rightarrow> version_row list" where
  "by_version_desc vs = rev (sort_key v_version vs)"

record listed_version =
  lv_row :: version_row
  lv_approvals :: nat
  lv_rejectionComment :: "string option option"

text \<open>
  The outer option of the comment is the presence of the field. Approval rows stand in the table in
  the order of their creation.
\<close>

definition listVersions :: "store \<Rightarrow> policy_id \<Rightarrow> bool \<Rightarrow> listed_version list" where
  "listVersions st policyId includeRejectionComments =
     map (\<lambda>v. \<lparr>lv_row = v,
        lv_approvals = count_where (\<lambda>a. a_versionId a = v_id v) (approvals_t st),
        lv_rejectionComment =
          (if \<not> includeRejectionComments then None
           else Some (if v_status v = REJECTED
                      then Option.bind (find_first (\<lambda>a. a_versionId a = v_id v \<and> a_decision a = DecRejected)
                             (rev (approvals_t st))) a_comment
                      else None))\<rparr>)
       (by_version_desc (select_where (\<lambda>v. v_policyId v = policyId) (versions_t st)))"

definition listExecutableVersions :: "store \<Rightarrow> policy_id \<Rightarrow> version_row list" where
  "listExecutableVersions st policyId =
     by_version_desc (select_where (\<lambda>v. v_policyId v = policyId \<and> v_status v \<in> {APPROVED, DEPRECATED}) (versions_t st))"

definition getVersionSource ::
  "(string \<Rightarrow> string) \<Rightarrow> store \<Rightarrow> policy_id \<Rightarrow> nat \<Rightarrow> user_id \<Rightarrow> version_error + (string \<times> string) option" where
  "getVersionSource sha st policyId version userId =
     (case assertVersionReadAccess st policyId userId of
        Some e \<Rightarrow> Inl e
      | None \<Rightarrow>
          Inr (map_option (\<lambda>v. (version_source v, nullish (v_sourceHash v) (computeSourceHash sha (version_source v))))
            (find_first (\<lambda>v. v_policyId v = policyId \<and> v_version v = version) (versions_t st))))"

end
