(* ===== verification/VersionFacts.thy ===== *)
theory VersionFacts
  imports VersionManager
begin

text \<open>
  Facts on the version service. Every operation is one value of \<open>version_op\<close>; the status automaton
  of the file header of \<open>version-manager.ts\<close> is the specification that all of them refine. The table
  invariant says that a default version is approved and unique in its policy and that only versions
  that were once approved hold snapshot references. Two closed examples show what happens when the
  check of one request and its write are separated by another request.
\<close>

section \<open>Operations and the status automaton\<close>

datatype version_op =
    OpCreate create_params row_id
  | OpSubmit policy_id nat user_id "string option"
  | OpApprove "nat \<Rightarrow> row_id" bool policy_id nat user_id approval_decision "string option" row_id
  | OpSetDefault policy_id nat user_id
  | OpDeprecate policy_id nat user_id date
  | OpArchive policy_id nat user_id date

fun run_op :: "service_env \<Rightarrow> version_op \<Rightarrow> store \<Rightarrow> store" where
  "run_op env (OpCreate p newId) st = snd (createVersion env p newId st)"
| "run_op env (OpSubmit pid n u note) st = snd (submitForApproval pid n u note st)"
| "run_op env (OpApprove fresh fault pid n u d c aid) st = snd (approveVersion env fresh fault pid n u d c aid st)"
| "run_op env (OpSetDefault pid n u) st = snd (setDefaultVersion pid n u st)"
| "run_op env (OpDeprecate pid n u now) st = snd (deprecateVersion pid n u now st)"
| "run_op env (OpArchive pid n u now) st = snd (archiveVersion pid n u now st)"

inductive status_step :: "version_status \<Rightarrow> version_status \<Rightarrow> bool" where
  submit_draft: "status_step DRAFT PENDING_APPROVAL"
| resubmit: "status_step REJECTED PENDING_APPROVAL"
| approve: "status_step PENDING_APPROVAL APPROVED"
| reject: "status_step PENDING_APPROVAL REJECTED"
| send_back: "status_step PENDING_APPROVAL DRAFT"
| deprecate: "status_step APPROVED DEPRECATED"
| archive_approved: "status_step APPROVED ARCHIVED"
| archive_deprecated: "status_step DEPRECATED ARCHIVED"

inductive_simps status_step_from [simp]:
  "status_step DRAFT s" "status_step PENDING_APPROVAL s" "status_step APPROVED s"
  "status_step REJECTED s" "status_step DEPRECATED s" "status_step ARCHIVED s"

text \<open>
  What an operation does to the version table: nothing, one new draft, or one row rewritten from a
  row that was read before (the default flag of the others may be cleared).
\<close>

definition row_update :: "version_row \<Rightarrow> (version_row \<Rightarrow> version_row) \<Rightarrow> bool" where
  "row_update t f \<longleftrightarrow> (\<forall>v. v_id (f v) = v_id v \<and> v_policyId (f v) = v_policyId v \<and> v_version (f v) = v_version v \<and>
     v_source (f v) = v_source v \<and> v_content (f v) = v_content v \<and> v_sourceHash (f v) = v_sourceHash v \<and>
     v_prevHash (f v) = v_prevHash v \<and> v_sourceEnvelope (f v) = v_sourceEnvelope v) \<and>
     v_isDefault (f t) = v_isDefault t"

lemma find_version_Some:
  assumes "find_version st pid n ss = Some v"
  shows "v \<in> set (versions_t st) \<and> v_policyId v = pid \<and> v_version v = n \<and> v_status v \<in> set ss"
  using find_first_Some [OF assms [unfolded find_version_def]] by auto

definition others_kept :: "store \<Rightarrow> store \<Rightarrow> bool" where
  "others_kept st st' \<longleftrightarrow>
     policies_t st' = policies_t st \<and> members_t st' = members_t st \<and> teams_t st' = teams_t st \<and>
     users_t st' = users_t st \<and> bins_t st' = bins_t st \<and> terms_t st' = terms_t st \<and> links_t st' = links_t st"

lemma others_kept_refl [simp]: "others_kept st st"
  by (simp add: others_kept_def)

lemma submit_effect:
  assumes "submitForApproval pid n u note st = (r, st')"
  shows "st' = st \<and> r \<noteq> Inr () \<or>
    (\<exists>t f. t \<in> set (versions_t st) \<and> v_policyId t = pid \<and> v_version t = n \<and> v_status t \<in> {DRAFT, REJECTED} \<and>
       row_update t f \<and> v_status (f t) = PENDING_APPROVAL \<and> v_snapshotIds (f t) = v_snapshotIds t \<and>
       versions_t st' = update_where (\<lambda>v. v_id v = v_id t) f (versions_t st) \<and>
       snapshots_t st' = snapshots_t st \<and> others_kept st st')"
proof (cases "submit_check st pid n u")
  case (Inr t)
  then have t: "find_version st pid n [DRAFT, REJECTED] = Some t"
    by (auto simp: submit_check_def split: option.splits)
  have "st' = submit_write t u note st" using assms Inr by (auto simp: submitForApproval_def)
  then show ?thesis
    using find_version_Some [OF t]
    by (intro disjI2 exI [of _ t] exI [of _ "\<lambda>v. v\<lparr>v_status := PENDING_APPROVAL,
          v_releaseNote := (if truthy note then note else v_releaseNote v)\<rparr>"])
      (auto simp: submit_write_def set_version_def invalidateAfterVersionChange_def row_update_def others_kept_def)
qed (use assms in \<open>auto simp: submitForApproval_def\<close>)

lemma deprecate_effect:
  assumes "deprecateVersion pid n u now st = (r, st')"
  shows "st' = st \<and> r \<noteq> Inr () \<or>
    (\<exists>t f. t \<in> set (versions_t st) \<and> v_policyId t = pid \<and> v_version t = n \<and> v_status t = APPROVED \<and> \<not> v_isDefault t \<and>
       row_update t f \<and> v_status (f t) = DEPRECATED \<and> v_snapshotIds (f t) = v_snapshotIds t \<and>
       versions_t st' = update_where (\<lambda>v. v_id v = v_id t) f (versions_t st) \<and>
       snapshots_t st' = snapshots_t st \<and> others_kept st st')"
proof (cases "deprecate_check st pid n u")
  case (Inr t)
  then have t: "find_version st pid n [APPROVED] = Some t" "\<not> v_isDefault t"
    by (auto simp: deprecate_check_def split: option.splits if_splits)
  have "st' = deprecate_write t u now st" using assms Inr by (auto simp: deprecateVersion_def)
  then show ?thesis
    using find_version_Some [OF t(1)] t(2)
    by (intro disjI2 exI [of _ t] exI [of _ "\<lambda>v. v\<lparr>v_status := DEPRECATED, v_deprecatedAt := Some now, v_deprecatedBy := Some u\<rparr>"])
      (auto simp: deprecate_write_def set_version_def invalidateAfterVersionChange_def row_update_def others_kept_def)
qed (use assms in \<open>auto simp: deprecateVersion_def\<close>)

lemma archive_effect:
  assumes "archiveVersion pid n u now st = (r, st')"
  shows "st' = st \<and> r \<noteq> Inr () \<or>
    (\<exists>t f. t \<in> set (versions_t st) \<and> v_policyId t = pid \<and> v_version t = n \<and> v_status t \<in> {APPROVED, DEPRECATED} \<and>
       \<not> v_isDefault t \<and> row_update t f \<and> v_status (f t) = ARCHIVED \<and> v_snapshotIds (f t) = v_snapshotIds t \<and>
       versions_t st' = update_where (\<lambda>v. v_id v = v_id t) f (versions_t st) \<and>
       snapshots_t st' = snapshots_t st \<and> others_kept st st')"
proof (cases "archive_check st pid n u")
  case (Inr t)
  then have t: "find_version st pid n [APPROVED, DEPRECATED] = Some t" "\<not> v_isDefault t"
    by (auto simp: archive_check_def split: option.splits if_splits)
  have "st' = archive_write t u now st" using assms Inr by (auto simp: archiveVersion_def)
  then show ?thesis
    using find_version_Some [OF t(1)] t(2)
    by (intro disjI2 exI [of _ t] exI [of _ "\<lambda>v. v\<lparr>v_status := ARCHIVED, v_archivedAt := Some now, v_archivedBy := Some u\<rparr>"])
      (auto simp: archive_write_def set_version_def invalidateAfterVersionChange_def row_update_def others_kept_def)
qed (use assms in \<open>auto simp: archiveVersion_def\<close>)

lemma same_default: "b = v_isDefault v \<Longrightarrow> v\<lparr>v_isDefault := b\<rparr> = v"
  by (cases v) simp

lemma set_default_effect:
  assumes "setDefaultVersion pid n u st = (r, st')"
  shows "st' = st \<and> r \<noteq> Inr () \<or>
    (\<exists>t. t \<in> set (versions_t st) \<and> v_policyId t = pid \<and> v_version t = n \<and> v_status t = APPROVED \<and>
       versions_t st' = map (\<lambda>v. v\<lparr>v_isDefault := (v_id v = v_id t \<or> v_isDefault v \<and> v_policyId v \<noteq> pid)\<rparr>) (versions_t st) \<and>
       snapshots_t st' = snapshots_t st \<and> others_kept st st')"
proof (cases "set_default_check st pid n u")
  case (Inr t)
  then have t: "find_version st pid n [APPROVED] = Some t"
    by (auto simp: set_default_check_def split: option.splits)
  have st': "st' = set_default_write t u st" using assms Inr by (auto simp: setDefaultVersion_def)
  have "v_policyId t = pid" using find_version_Some [OF t] by simp
  then have "versions_t st' =
      map (\<lambda>v. v\<lparr>v_isDefault := (v_id v = v_id t \<or> v_isDefault v \<and> v_policyId v \<noteq> pid)\<rparr>) (versions_t st)"
    by (auto simp: st' set_default_write_def set_version_def invalidateAfterVersionChange_def update_where_def
        same_default [symmetric])
  then show ?thesis
    using find_version_Some [OF t]
    by (intro disjI2 exI [of _ t])
      (auto simp: st' set_default_write_def set_version_def invalidateAfterVersionChange_def others_kept_def)
qed (use assms in \<open>auto simp: setDefaultVersion_def\<close>)

lemma create_effect:
  assumes "createVersion env p newId st = (r, st')"
  shows "st' = st \<and> (\<exists>e. r = Inl e) \<or>
    (\<exists>flds row. row = chained_row (env_sha env) (e_resolver (env_ids env)) (chain_tail st (cp_policyId p)) (cp_policyId p) (cp_source p) flds newId \<and>
       r = Inr row \<and> versions_t st' = insert_row row (versions_t st) \<and>
       snapshots_t st' = snapshots_t st \<and> others_kept st st')"
proof (cases r)
  case (Inl e)
  then have "st' = st"
    using assms by (auto simp: createVersion_def Let_def insertChainedVersion_def split: if_splits sum.splits)
  then show ?thesis using Inl by simp
next
  case (Inr row)
  then show ?thesis
    using assms
    by (fastforce simp: createVersion_def Let_def insertChainedVersion_def invalidateAfterVersionChange_def others_kept_def
        split: if_splits sum.splits)
qed

lemma chained_row_simps [simp]:
  "v_id (chained_row sha rv tr pid src flds newId) = newId"
  "v_policyId (chained_row sha rv tr pid src flds newId) = pid"
  "v_version (chained_row sha rv tr pid src flds newId) = (case tr of None \<Rightarrow> 0 | Some t \<Rightarrow> v_version t) + 1"
  "v_status (chained_row sha rv tr pid src flds newId) = DRAFT"
  "v_isDefault (chained_row sha rv tr pid src flds newId) = False"
  "v_snapshotIds (chained_row sha rv tr pid src flds newId) = []"
  by (simp_all add: chained_row_def Let_def)

text \<open>The references that an approval adds to the counts.\<close>

definition new_refs :: "snapshot_ref list option \<Rightarrow> row_id list" where
  "new_refs refs = map ref_snapshotId (nullish refs [])"

definition refs_added :: "row_id list \<Rightarrow> store \<Rightarrow> store \<Rightarrow> bool" where
  "refs_added ids st st' \<longleftrightarrow>
     (\<forall>j. ref_count (snapshots_t st') j = ref_count (snapshots_t st) j + count_list ids j) \<and>
     snapshot_ids st' = snapshot_ids st \<union> set ids \<and> [] \<notin> set ids"

lemma freezeApproval_effect:
  assumes "freezeApprovalVocabulary env fresh fault target st = (Inr refs, st')"
    "snapshot_keys_ok st" "fresh_supply fresh st"
  shows "snapshot_keys_ok st' \<and> st' = st\<lparr>snapshots_t := snapshots_t st'\<rparr> \<and> refs_added (map ref_snapshotId refs) st st'"
proof (cases "or_null (v_createdBy target)")
  case None
  then have "refs = []" "st' = st" using assms(1) by (auto simp: freezeApprovalVocabulary_def)
  then show ?thesis using assms(2) by (simp add: refs_added_def)
next
  case (Some author)
  from assms(1) [unfolded freezeApprovalVocabulary_def Some Let_def option.case]
  have "\<exists>policy verify. freezeVocabularyForApproval (env_sha env) (env_nfc env) (env_uses env) fresh author
      (v_policyId target) policy verify st = Some (refs, st')"
    by (elim guard_elims) (auto split: option.splits)
  then obtain policy verify where "freezeVocabularyForApproval (env_sha env) (env_nfc env) (env_uses env) fresh author
      (v_policyId target) policy verify st = Some (refs, st')" by blast
  from freeze_effect [OF this assms(2,3)] show ?thesis by (simp add: refs_added_def)
qed

lemma approve_tx_effect:
  assumes "approve_tx env fresh fault t u d c aid st = (Inr refs, st')" "snapshot_keys_ok st" "fresh_supply fresh st"
  shows "lockPolicyForSnapshotRefs st (v_policyId t)" "lockPendingVersion st (v_id t)"
    "versions_t st' = update_where (\<lambda>v. v_id v = v_id t)
        (\<lambda>v. v\<lparr>v_status := decided_status d, v_snapshotIds := nullish refs (v_snapshotIds v)\<rparr>) (versions_t st)"
    "approvals_t st' = insert_row \<lparr>a_id = aid, a_versionId = v_id t, a_approverId = u, a_decision = d, a_comment = c\<rparr> (approvals_t st)"
    "snapshot_keys_ok st'" "refs_added (new_refs refs) st st'" "others_kept st st'" "refs = None \<longleftrightarrow> d \<noteq> DecApproved"
proof -
  let ?frozen = "if d = DecApproved then (case freezeApprovalVocabulary env fresh fault t st of
                         (Inl e, _) \<Rightarrow> (Inl e, st) | (Inr refs, st1) \<Rightarrow> (Inr (Some refs), st1)) else (Inr None, st)"
  let ?approval = "\<lparr>a_id = aid, a_versionId = v_id t, a_approverId = u, a_decision = d, a_comment = c\<rparr>"
  let ?f = "\<lambda>v. v\<lparr>v_status := decided_status d, v_snapshotIds := nullish refs (v_snapshotIds v)\<rparr>"
  obtain st1 where frozen: "?frozen = (Inr refs, st1)"
    and st': "st' = set_version (v_id t) ?f (st1\<lparr>approvals_t := insert_row ?approval (approvals_t st1)\<rparr>)"
    and locks: "lockPolicyForSnapshotRefs st (v_policyId t)" "lockPendingVersion st (v_id t)"
    using assms(1) unfolding approve_tx_def
    by (elim guard_elims) (auto simp: set_version_def split: sum.splits prod.splits if_splits)
  have st1: "snapshot_keys_ok st1 \<and> st1 = st\<lparr>snapshots_t := snapshots_t st1\<rparr> \<and> refs_added (new_refs refs) st st1 \<and>
      (refs = None \<longleftrightarrow> d \<noteq> DecApproved)"
  proof (cases "d = DecApproved")
    case True
    then obtain rs where "freezeApprovalVocabulary env fresh fault t st = (Inr rs, st1)" "refs = Some rs"
      using frozen by (auto split: prod.splits sum.splits)
    then show ?thesis using freezeApproval_effect [OF _ assms(2,3)] True by (simp add: new_refs_def)
  next
    case False
    then have "refs = None" "st1 = st" using frozen by auto
    then show ?thesis using False assms(2) by (simp add: new_refs_def refs_added_def)
  qed
  obtain tb where tb: "st1 = st\<lparr>snapshots_t := tb\<rparr>" using st1 by blast
  show "lockPolicyForSnapshotRefs st (v_policyId t)" "lockPendingVersion st (v_id t)" by (rule locks)+
  show "versions_t st' = update_where (\<lambda>v. v_id v = v_id t) ?f (versions_t st)"
    "approvals_t st' = insert_row ?approval (approvals_t st)" "others_kept st st'"
    by (simp_all add: st' set_version_def tb others_kept_def)
  have same: "snapshots_t st' = snapshots_t st1" by (simp add: st' set_version_def)
  then have snap: "snapshot_ids st' = snapshot_ids st1" by (simp add: snapshot_ids_def)
  have "snapshot_keys_ok st' = snapshot_keys_ok st1" by (simp add: snapshot_keys_ok_def same snap)
  then show "snapshot_keys_ok st'" using st1 by blast
  have "refs_added ids st st' = refs_added ids st st1" for ids by (simp add: refs_added_def same snap)
  then show "refs_added (new_refs refs) st st'" using st1 by blast
  show "refs = None \<longleftrightarrow> d \<noteq> DecApproved" using st1 by blast
qed

lemma approve_check_Inr:
  assumes "approve_check st pid n u = (Inr (t, self), st1)"
  shows "st1 = st \<and> t \<in> set (versions_t st) \<and> v_policyId t = pid \<and> v_version t = n \<and> v_status t = PENDING_APPROVAL \<and>
    (\<exists>p decision. loadPolicyForAction st pid (session_actor u) ActApprove False = Inr (p, decision) \<and>
      decideVersionApproval \<lparr>rc_policyOwnerId = p_userId p, rc_policyTeamId = p_teamId p, rc_reviewerId = u,
         rc_reviewerTeamRole = (case decision of Allowed _ role \<Rightarrow> role | Denied _ _ \<Rightarrow> None)\<rparr> (v_createdBy t) = Inr self)"
proof -
  have "st1 = st \<and> find_version st pid n [PENDING_APPROVAL] = Some t \<and>
    (\<exists>p decision. loadPolicyForAction st pid (session_actor u) ActApprove False = Inr (p, decision) \<and>
      decideVersionApproval \<lparr>rc_policyOwnerId = p_userId p, rc_policyTeamId = p_teamId p, rc_reviewerId = u,
         rc_reviewerTeamRole = (case decision of Allowed _ role \<Rightarrow> role | Denied _ _ \<Rightarrow> None)\<rparr> (v_createdBy t) = Inr self)"
    using assms unfolding approve_check_def Let_def
    by (cases "loadPolicyForAction st pid (session_actor u) ActApprove False")
      (auto split: if_splits option.splits sum.splits)
  then show ?thesis using find_version_Some by fastforce
qed

lemma approve_check_Inl:
  assumes "approve_check st pid n u = (Inl e, st1)"
  shows "st1 = st \<or> e = SegregationOfDuties \<and> st1 = emit (SecurityEvent ''SELF_APPROVAL_ATTEMPT'' pid u n) st"
  using assms unfolding approve_check_def Let_def
  by (cases "loadPolicyForAction st pid (session_actor u) ActApprove False")
    (auto split: if_splits option.splits sum.splits)

lemma approve_tx_Inl:
  assumes "approve_tx env fresh fault t u d c aid st = (Inl e, st')"
  shows "st' = st"
  using assms unfolding approve_tx_def
  by (elim guard_elims) (auto split: sum.splits prod.splits if_splits)

lemma approve_effects_tables [simp]:
  "versions_t (approve_effects t u d c self refs st) = versions_t st"
  "snapshots_t (approve_effects t u d c self refs st) = snapshots_t st"
  "approvals_t (approve_effects t u d c self refs st) = approvals_t st"
  "policies_t (approve_effects t u d c self refs st) = policies_t st"
  "members_t (approve_effects t u d c self refs st) = members_t st"
  "teams_t (approve_effects t u d c self refs st) = teams_t st"
  "users_t (approve_effects t u d c self refs st) = users_t st"
  "bins_t (approve_effects t u d c self refs st) = bins_t st"
  "terms_t (approve_effects t u d c self refs st) = terms_t st"
  "links_t (approve_effects t u d c self refs st) = links_t st"
  by (auto simp: approve_effects_def Let_def auditVocabularyFreeze_def invalidateAfterVersionChange_def split: option.splits)

lemma approve_effect:
  assumes "approveVersion env fresh fault pid n u d c aid st = (r, st')" "snapshot_keys_ok st" "fresh_supply fresh st"
  shows "versions_t st' = versions_t st \<and> snapshots_t st' = snapshots_t st \<and> approvals_t st' = approvals_t st \<and>
      others_kept st st' \<and> r \<noteq> Inr () \<or>
    (\<exists>t refs. t \<in> set (versions_t st) \<and> v_policyId t = pid \<and> v_version t = n \<and> v_status t = PENDING_APPROVAL \<and>
       lockPolicyForSnapshotRefs st pid \<and>
       versions_t st' = update_where (\<lambda>v. v_id v = v_id t)
         (\<lambda>v. v\<lparr>v_status := decided_status d, v_snapshotIds := nullish refs (v_snapshotIds v)\<rparr>) (versions_t st) \<and>
       snapshot_keys_ok st' \<and> refs_added (new_refs refs) st st' \<and> others_kept st st' \<and> (refs = None \<longleftrightarrow> d \<noteq> DecApproved))"
proof (cases "approve_check st pid n u")
  case (Pair res st1)
  show ?thesis
  proof (cases res)
    case (Inl e)
    then have "r = Inl e" "st' = st1" using assms(1) Pair by (auto simp: approveVersion_def)
    then show ?thesis using approve_check_Inl [of st pid n u e st1] Pair Inl by (auto simp: others_kept_def)
  next
    case (Inr ts)
    obtain t self where ts: "ts = (t, self)" by (cases ts)
    note c = approve_check_Inr [of st pid n u t self st1, unfolded Pair Inr ts, OF refl]
    obtain r2 st2 where tx: "approve_tx env fresh fault t u d c aid st = (r2, st2)"
      by (cases "approve_tx env fresh fault t u d c aid st")
    show ?thesis
    proof (cases r2)
      case (Inl e)
      then have "r = Inl e" "st' = st2" using assms(1) Pair Inr ts tx by (auto simp: approveVersion_def)
      then show ?thesis using approve_tx_Inl [of env fresh fault t u d c aid st e st2] tx Inl by simp
    next
      case r2: (Inr refs)
      then have st': "st' = approve_effects t u d c self refs st2"
        using assms(1) Pair Inr ts tx by (auto simp: approveVersion_def)
      note e = approve_tx_effect [OF tx [unfolded r2] assms(2,3)]
      have "snapshot_keys_ok st' = snapshot_keys_ok st2" "refs_added ids st st' = refs_added ids st st2" for ids
        by (simp_all add: st' snapshot_keys_ok_def refs_added_def snapshot_ids_def)
      moreover have "others_kept st st'" using e(7) by (simp add: st' others_kept_def)
      ultimately show ?thesis
        using c e by (intro disjI2 exI [of _ t] exI [of _ refs]) (simp add: st')
    qed
  qed
qed

section \<open>The table invariant\<close>

definition once_approved :: "version_status set" where
  "once_approved = {APPROVED, DEPRECATED, ARCHIVED}"

definition versions_ok :: "store \<Rightarrow> bool" where
  "versions_ok st \<longleftrightarrow>
     unique_key v_id (versions_t st) \<and> unique_key version_key (versions_t st) \<and>
     (\<forall>v \<in> set (versions_t st). v_isDefault v \<longrightarrow> v_status v = APPROVED) \<and>
     (\<forall>v \<in> set (versions_t st). \<forall>w \<in> set (versions_t st).
        v_isDefault v \<and> v_isDefault w \<and> v_policyId v = v_policyId w \<longrightarrow> v = w) \<and>
     (\<forall>v \<in> set (versions_t st). v_snapshotIds v \<noteq> [] \<longrightarrow> v_status v \<in> once_approved)"

definition op_ok :: "store \<Rightarrow> version_op \<Rightarrow> bool" where
  "op_ok st op \<longleftrightarrow> (case op of
       OpCreate p newId \<Rightarrow> newId \<notin> v_id ` set (versions_t st)
     | OpApprove fresh fault pid n u d c aid \<Rightarrow> fresh_supply fresh st
     | _ \<Rightarrow> True)"

lemma versions_ok_update:
  assumes ok: "versions_ok st" and t: "t \<in> set (versions_t st)"
    and st': "versions_t st' = update_where (\<lambda>v. v_id v = v_id t) f (versions_t st)"
    and f: "\<And>v. v_id (f v) = v_id v \<and> v_policyId (f v) = v_policyId v \<and> v_version (f v) = v_version v"
      "v_isDefault (f t) = v_isDefault t" "v_isDefault t \<Longrightarrow> v_status (f t) = APPROVED"
      "v_snapshotIds (f t) \<noteq> [] \<Longrightarrow> v_status (f t) \<in> once_approved"
  shows "versions_ok st'"
proof -
  have ids: "unique_key v_id (versions_t st)" "unique_key version_key (versions_t st)"
    using ok by (simp_all add: versions_ok_def)
  have rows: "set (versions_t st') = insert (f t) (set (versions_t st) - {t})"
    using set_update_key [OF ids(1) t] by (simp add: st')
  have "unique_key v_id (versions_t st')" "unique_key version_key (versions_t st')"
    using ids f(1) by (auto simp: st' version_key_def intro!: unique_key_update_where)
  then show ?thesis
    using ok t f(2-4) f(1) [of t] unfolding versions_ok_def rows by auto
qed

lemma versions_ok_same: "versions_t st' = versions_t st \<Longrightarrow> versions_ok st' = versions_ok st"
  by (simp add: versions_ok_def)

lemma tail_above:
  assumes "v \<in> set (versions_t st)" "v_policyId v = pid"
  shows "v_version v < (case chain_tail st pid of None \<Rightarrow> 0 | Some t \<Rightarrow> v_version t) + 1"
proof (cases "chain_tail st pid")
  case None
  then show ?thesis using assms by (auto simp: chain_tail_def select_where_def filter_empty_conv)
next
  case (Some t)
  then show ?thesis using max_version_max [of _ t v] assms by (auto simp: chain_tail_def less_Suc_eq_le)
qed

lemma create_versions_ok:
  assumes "versions_ok st" "createVersion env p newId st = (r, st')" "newId \<notin> v_id ` set (versions_t st)"
  shows "versions_ok st'"
  using create_effect [OF assms(2)]
proof (elim disjE exE conjE)
  fix flds row
  assume row: "row = chained_row (env_sha env) (e_resolver (env_ids env)) (chain_tail st (cp_policyId p)) (cp_policyId p) (cp_source p) flds newId"
    and vs: "versions_t st' = insert_row row (versions_t st)"
  have "version_key row \<notin> version_key ` set (versions_t st)"
    using tail_above [of _ st "cp_policyId p"] by (fastforce simp: row version_key_def)
  moreover have "v_id row \<notin> v_id ` set (versions_t st)" using assms(3) by (simp add: row)
  ultimately have "unique_key v_id (versions_t st')" "unique_key version_key (versions_t st')"
    using assms(1) by (auto simp: vs versions_ok_def intro!: unique_key_insert_row)
  then show ?thesis using assms(1) by (simp add: vs versions_ok_def) (auto simp: row)
qed (use assms(1) in simp)

lemma set_default_versions_ok:
  assumes "versions_ok st" "setDefaultVersion pid n u st = (r, st')"
  shows "versions_ok st'"
  using set_default_effect [OF assms(2)]
proof (elim disjE exE conjE)
  fix t
  assume t: "t \<in> set (versions_t st)" "v_policyId t = pid" "v_status t = APPROVED"
    and vs: "versions_t st' = map (\<lambda>v. v\<lparr>v_isDefault := (v_id v = v_id t \<or> v_isDefault v \<and> v_policyId v \<noteq> pid)\<rparr>) (versions_t st)"
  have ids: "unique_key v_id (versions_t st)" using assms(1) by (simp add: versions_ok_def)
  have only: "v = t" if "v \<in> set (versions_t st)" "v_id v = v_id t" for v
    using unique_key_eq [OF ids that(1) t(1) that(2)] .
  have "map v_id (versions_t st') = map v_id (versions_t st)"
    "map version_key (versions_t st') = map version_key (versions_t st)"
    by (simp_all add: vs version_key_def)
  then have "unique_key v_id (versions_t st')" "unique_key version_key (versions_t st')"
    using assms(1) by (simp_all only: versions_ok_def unique_key_def)
  moreover have "v_status v = APPROVED" if "v \<in> set (versions_t st')" "v_isDefault v" for v
    using that assms(1) t unfolding versions_ok_def by (auto simp: vs dest: only)
  moreover have "v = w" if in': "v \<in> set (versions_t st')" "w \<in> set (versions_t st')" and df: "v_isDefault v" "v_isDefault w"
      and same: "v_policyId v = v_policyId w" for v w
  proof -
    obtain a b where ab: "a \<in> set (versions_t st)" "b \<in> set (versions_t st)"
      "v = a\<lparr>v_isDefault := (v_id a = v_id t \<or> v_isDefault a \<and> v_policyId a \<noteq> pid)\<rparr>"
      "w = b\<lparr>v_isDefault := (v_id b = v_id t \<or> v_isDefault b \<and> v_policyId b \<noteq> pid)\<rparr>"
      using in' by (auto simp: vs)
    have "a = t \<or> v_isDefault a \<and> v_policyId a \<noteq> pid" "b = t \<or> v_isDefault b \<and> v_policyId b \<noteq> pid"
      using df ab only by auto
    moreover have "v_policyId a = v_policyId b" using same ab by simp
    moreover have "a = b" if "v_isDefault a" "v_isDefault b" "v_policyId a = v_policyId b"
      using that ab(1,2) assms(1) unfolding versions_ok_def by blast
    ultimately have "a = b" using t(2) by auto
    then show ?thesis by (simp add: ab)
  qed
  moreover have "v_status v \<in> once_approved" if "v \<in> set (versions_t st')" "v_snapshotIds v \<noteq> []" for v
    using that assms(1) unfolding versions_ok_def by (auto simp: vs)
  ultimately show ?thesis unfolding versions_ok_def by blast
qed (use assms(1) in simp)

lemma approve_versions_ok:
  assumes "versions_ok st" "approveVersion env fresh fault pid n u d c aid st = (r, st')"
    "snapshot_keys_ok st" "fresh_supply fresh st"
  shows "versions_ok st'"
  using approve_effect [OF assms(2-4)]
proof (elim disjE exE conjE)
  fix t refs
  assume t: "t \<in> set (versions_t st)" "v_status t = PENDING_APPROVAL" and d: "(refs = None) = (d \<noteq> DecApproved)"
    and vs: "versions_t st' = update_where (\<lambda>v. v_id v = v_id t)
         (\<lambda>v. v\<lparr>v_status := decided_status d, v_snapshotIds := nullish refs (v_snapshotIds v)\<rparr>) (versions_t st)"
  have nd: "\<not> v_isDefault t" and none: "v_snapshotIds t = []"
    using assms(1) t by (auto simp: versions_ok_def once_approved_def)
  have "decided_status d \<in> once_approved" if "nullish refs [] \<noteq> []"
    using that d by (cases d; cases refs) (simp_all add: once_approved_def)
  then show ?thesis
    by (intro versions_ok_update [OF assms(1) t(1) vs]) (simp_all add: nd none)
next
  assume "versions_t st' = versions_t st"
  then show ?thesis using versions_ok_same assms(1) by blast
qed

lemma row_update_versions_ok:
  assumes "versions_ok st" "t \<in> set (versions_t st)" "row_update t f" "\<not> v_isDefault t"
    "v_snapshotIds (f t) = v_snapshotIds t" "v_status t \<in> once_approved \<Longrightarrow> v_status (f t) \<in> once_approved"
    "versions_t st' = update_where (\<lambda>v. v_id v = v_id t) f (versions_t st)"
  shows "versions_ok st'"
  using assms(1,3-6) assms(2)
  by (intro versions_ok_update [OF assms(1,2,7)]) (auto simp: row_update_def versions_ok_def)

lemma run_op_versions_ok:
  assumes "versions_ok st" "snapshot_keys_ok st" "op_ok st op"
  shows "versions_ok (run_op env op st)"
proof (cases op)
  case (OpCreate p newId)
  then show ?thesis
    using create_versions_ok [OF assms(1) prod.collapse [symmetric]] assms(3) by (simp add: op_ok_def)
next
  case (OpSubmit pid n u rn)
  obtain r st' where run: "submitForApproval pid n u rn st = (r, st')" by fastforce
  from submit_effect [OF run] show ?thesis
    using assms(1) OpSubmit run
    by (elim disjE exE conjE)
      (simp, rule row_update_versions_ok [OF assms(1)], auto simp: versions_ok_def once_approved_def)
next
  case (OpApprove fresh fault pid n u d c aid)
  then show ?thesis
    using approve_versions_ok [OF assms(1) prod.collapse [symmetric] assms(2)] assms(3) by (simp add: op_ok_def)
next
  case (OpSetDefault pid n u)
  then show ?thesis
    using set_default_versions_ok [OF assms(1) prod.collapse [symmetric]] by simp
next
  case (OpDeprecate pid n u now)
  obtain r st' where run: "deprecateVersion pid n u now st = (r, st')" by fastforce
  from deprecate_effect [OF run] show ?thesis
    using assms(1) OpDeprecate run
    by (elim disjE exE conjE)
      (simp, rule row_update_versions_ok [OF assms(1)], auto simp: once_approved_def)
next
  case (OpArchive pid n u now)
  obtain r st' where run: "archiveVersion pid n u now st = (r, st')" by fastforce
  from archive_effect [OF run] show ?thesis
    using assms(1) OpArchive run
    by (elim disjE exE conjE)
      (simp, rule row_update_versions_ok [OF assms(1)], auto simp: once_approved_def)
qed

text \<open>
  Run one after the other, the operations of the version service keep the table in order: the
  version numbers of a policy stay distinct, a policy has at most one default version and it is an
  approved one, and only versions that were once approved hold references to vocabulary snapshots.
\<close>

theorem version_ops_keep_table:
  assumes "versions_ok st" "snapshot_keys_ok st" "op_ok st op"
  shows "versions_ok (run_op env op st)"
  using assms by (rule run_op_versions_ok)

text \<open>An environment for examples: no vocabulary, a constant locale guess and a hash that keeps its argument.\<close>

abbreviation plain_env :: service_env where
  "plain_env \<equiv> \<lparr>env_sha = (\<lambda>s. s),
     env_ids = \<lparr>e_abi = ''1'', e_validator = ''1'', e_resolver = 2, e_casefold = ''1'', e_build = None\<rparr>,
     env_declaresProfile = (\<lambda>s. False), env_detect = (\<lambda>s. ''en-US''), env_nfc = (\<lambda>s. s),
     env_uses = (\<lambda>a b c. True), env_scopesJson = (\<lambda>v. [])\<rparr>"

text \<open>Team t1 of u1 (owner) and u2 (admin) has policy p1 with the versions of the given states.\<close>

abbreviation version_store :: "version_row list \<Rightarrow> store" where
  "version_store vs \<equiv> empty_store\<lparr>
     users_t := [user_named ''u1'', user_named ''u2''], teams_t := [team_owned ''t1'' ''u1''],
     members_t := [member_of ''m1'' ''t1'' ''u1'' Owner, member_of ''m2'' ''t1'' ''u2'' Admin],
     policies_t := [policy_of ''p1'' ''u1'' (Some ''t1'')], versions_t := vs\<rparr>"

theorem version_ops_keep_table_witness:
  "versions_ok (run_op plain_env (OpSetDefault ''p1'' 1 ''u2'')
     (version_store [version_of ''v1'' ''p1'' 1 APPROVED, version_of ''v2'' ''p1'' 2 DRAFT]))"
  by (rule version_ops_keep_table)
    (simp_all add: versions_ok_def version_key_def once_approved_def snapshot_keys_ok_def snapshot_ids_def
      op_ok_def empty_store_def)

lemma status_update:
  assumes "unique_key v_id (versions_t st)" "t \<in> set (versions_t st)"
    "versions_t st' = update_where (\<lambda>v. v_id v = v_id t) f (versions_t st)" "\<And>v. v_id (f v) = v_id v"
    "status_step (v_status t) (v_status (f t))" "v \<in> set (versions_t st)"
  shows "\<exists>w \<in> set (versions_t st'). v_id w = v_id v \<and> (v_status w = v_status v \<or> status_step (v_status v) (v_status w))"
  using assms(4-6) unfolding assms(3) set_update_key [OF assms(1,2)] by (cases "v = t") auto

lemma status_same:
  "versions_t st' = versions_t st \<Longrightarrow> v \<in> set (versions_t st) \<Longrightarrow>
   \<exists>w \<in> set (versions_t st'). v_id w = v_id v \<and> (v_status w = v_status v \<or> status_step (v_status v) (v_status w))"
  by auto



section \<open>Approvals\<close>

text \<open>
  Two requests that both read a version as pending cannot both decide it: whatever the first
  transaction decided, the second one finds the version not pending and writes nothing, so the
  references of the freeze are counted once.
\<close>

theorem double_approval_counts_once:
  assumes "approve_tx env fresh fault t u d c aid st = (Inr refs, st1)" "snapshot_keys_ok st" "fresh_supply fresh st"
    "v_id t2 = v_id t" "v_policyId t2 = v_policyId t"
  shows "approve_tx env2 fresh2 fault2 t2 u2 d2 c2 aid2 st1 = (Inl (VersionState version_not_pending), st1) \<and>
    (\<forall>j. ref_count (snapshots_t st1) j = ref_count (snapshots_t st) j + count_list (new_refs refs) j)"
proof -
  note e = approve_tx_effect [OF assms(1-3)]
  have "lockPolicyForSnapshotRefs st1 (v_policyId t2) = lockPolicyForSnapshotRefs st (v_policyId t)"
    using e(7) by (simp add: lockPolicyForSnapshotRefs_def others_kept_def assms(5))
  moreover have "decided_status d \<noteq> PENDING_APPROVAL" by (cases d) simp_all
  then have "\<not> lockPendingVersion st1 (v_id t2)"
    unfolding lockPendingVersion_def e(3) assms(4)
    by (subst find_first_update_where) (auto dest: find_first_Some split: option.splits)
  ultimately show ?thesis using e(1,6) by (simp add: approve_tx_def refs_added_def)
qed

theorem double_approval_counts_once_witness:
  "(let st = version_store [version_of ''v1'' ''p1'' 1 PENDING_APPROVAL];
        t = version_of ''v1'' ''p1'' 1 PENDING_APPROVAL;
        st1 = snd (approve_tx plain_env numbered False t ''u2'' DecApproved None ''a1'' st)
    in approve_tx plain_env numbered False t ''u3'' DecRejected None ''a2'' st1 =
         (Inl (VersionState version_not_pending), st1))"
proof -
  let ?st = "version_store [version_of ''v1'' ''p1'' 1 PENDING_APPROVAL]"
  let ?t = "version_of ''v1'' ''p1'' 1 PENDING_APPROVAL"
  let ?run = "approve_tx plain_env numbered False ?t ''u2'' DecApproved None ''a1'' ?st"
  have "fst ?run = Inr (Some [])" by code_simp
  then have run: "?run = (Inr (Some []), snd ?run)" by (metis prod.collapse)
  have "snapshot_keys_ok ?st" "fresh_supply numbered ?st"
    by (simp_all add: snapshot_keys_ok_def snapshot_ids_def empty_store_def fresh_supply_def inj_numbered)
  then show ?thesis
    using double_approval_counts_once [OF run, of ?t] by (simp add: Let_def)
qed

text \<open>
  C5: A decision that succeeds was made on a live policy and a pending version by a reviewer with
  the right to it: on a team policy a current owner or admin of the team other than the author, on
  a personal policy the owner; the decision is recorded and the version has the decided status.
\<close>

theorem approval_by_authorized_reviewer:
  assumes "approveVersion env fresh fault pid n u d c aid st = (Inr (), st')" "snapshot_keys_ok st" "fresh_supply fresh st"
  shows "\<exists>p t. p \<in> set (policies_t st) \<and> p_id p = pid \<and> p_deletedAt p = None \<and>
    t \<in> set (versions_t st) \<and> v_policyId t = pid \<and> v_version t = n \<and> v_status t = PENDING_APPROVAL \<and>
    (case or_null (p_teamId p) of
       Some team \<Rightarrow> getTeamMemberRole st u team \<in> {Some Owner, Some Admin} \<and> v_createdBy t \<noteq> Some u
     | None \<Rightarrow> p_userId p = u) \<and>
    approvals_t st' = insert_row \<lparr>a_id = aid, a_versionId = v_id t, a_approverId = u, a_decision = d, a_comment = c\<rparr> (approvals_t st) \<and>
    (\<forall>w \<in> set (versions_t st'). v_id w = v_id t \<longrightarrow> v_status w = decided_status d)"
proof -
  obtain t self where chk: "approve_check st pid n u = (Inr (t, self), st)"
    and tx: "\<exists>refs st1. approve_tx env fresh fault t u d c aid st = (Inr refs, st1) \<and> st' = approve_effects t u d c self refs st1"
  proof (cases "approve_check st pid n u")
    case (Pair res st1)
    then obtain t self where res: "res = Inr (t, self)"
      using assms(1) by (auto simp: approveVersion_def split: sum.splits)
    have "st1 = st" using approve_check_Inr Pair res by blast
    then show ?thesis
      using that [of t self] assms(1) Pair res by (auto simp: approveVersion_def split: sum.splits prod.splits)
  qed
  obtain p dec where load: "loadPolicyForAction st pid (session_actor u) ActApprove False = Inr (p, dec)"
    and dva: "decideVersionApproval \<lparr>rc_policyOwnerId = p_userId p, rc_policyTeamId = p_teamId p, rc_reviewerId = u,
         rc_reviewerTeamRole = (case dec of Allowed _ role \<Rightarrow> role | Denied _ _ \<Rightarrow> None)\<rparr> (v_createdBy t) = Inr self"
    and t: "t \<in> set (versions_t st)" "v_policyId t = pid" "v_version t = n" "v_status t = PENDING_APPROVAL"
    using approve_check_Inr [OF chk] by blast
  have p: "p \<in> set (policies_t st)" "p_id p = pid" "p_deletedAt p = None"
    "dec = authorizePolicyAction st (session_actor u) p ActApprove"
    using load by (auto simp: loadPolicyForAction_def Let_def dest: find_first_Some split: option.splits if_splits)
  have role: "(case dec of Allowed _ r \<Rightarrow> r | Denied _ _ \<Rightarrow> None) = Some r \<Longrightarrow> or_null (p_teamId p) = Some team \<Longrightarrow>
      getTeamMemberRole st u team = Some r" for r team
    unfolding p(4) authorizePolicyAction_def decidePolicyAccess_def teamRoleFor_def policyTeamIdOf_def session_actor_def
    by (auto simp: POLICY_NOT_FOUND_def INSUFFICIENT_ROLE_def WHATIF_OWNER_ONLY_def split: option.splits if_splits)
  have who: "case or_null (p_teamId p) of
       Some team \<Rightarrow> getTeamMemberRole st u team \<in> {Some Owner, Some Admin} \<and> v_createdBy t \<noteq> Some u
     | None \<Rightarrow> p_userId p = u"
  proof (cases "or_null (p_teamId p)")
    case None
    then have "\<not> truthy (p_teamId p)" by (auto simp: or_null_def truthy_def split: option.splits if_splits)
    then show ?thesis using dva None by (auto simp: decideVersionApproval_def canReview_iff Let_def split: if_splits)
  next
    case (Some team)
    then have "truthy (p_teamId p)" by (auto simp: or_null_Some truthy_iff)
    then show ?thesis
      using dva Some role by (auto simp: decideVersionApproval_def canReview_iff Let_def split: if_splits)
  qed
  obtain refs st1 where run: "approve_tx env fresh fault t u d c aid st = (Inr refs, st1)"
    and st': "st' = approve_effects t u d c self refs st1" using tx by blast
  note e = approve_tx_effect [OF run assms(2,3)]
  have "\<forall>w \<in> set (versions_t st'). v_id w = v_id t \<longrightarrow> v_status w = decided_status d"
    unfolding st' approve_effects_tables e(3) by (auto simp: in_update_where)
  moreover have "approvals_t st' = insert_row \<lparr>a_id = aid, a_versionId = v_id t, a_approverId = u, a_decision = d, a_comment = c\<rparr> (approvals_t st)"
    using e(4) by (simp add: st')
  ultimately show ?thesis using p t who by blast
qed

theorem approval_by_authorized_reviewer_witness:
  "fst (approveVersion plain_env numbered False ''p1'' 1 ''u2'' DecRejected (Some ''no'') ''a1''
     (version_store [version_of ''v1'' ''p1'' 1 PENDING_APPROVAL])) = Inr () \<and>
   getTeamMemberRole (version_store [version_of ''v1'' ''p1'' 1 PENDING_APPROVAL]) ''u2'' ''t1'' \<in> {Some Owner, Some Admin}"
proof -
  let ?st = "version_store [version_of ''v1'' ''p1'' 1 PENDING_APPROVAL]"
  let ?run = "approveVersion plain_env numbered False ''p1'' 1 ''u2'' DecRejected (Some ''no'') ''a1'' ?st"
  have fst: "fst ?run = Inr ()" by code_simp
  then have run: "?run = (Inr (), snd ?run)" by (metis prod.collapse)
  have "snapshot_keys_ok ?st" "fresh_supply numbered ?st"
    by (simp_all add: snapshot_keys_ok_def snapshot_ids_def empty_store_def fresh_supply_def inj_numbered)
  from approval_by_authorized_reviewer [OF run this]
  have "getTeamMemberRole ?st ''u2'' ''t1'' \<in> {Some Owner, Some Admin}" by (auto simp: empty_store_def)
  then show ?thesis using fst by blast
qed



section \<open>Interleaved requests\<close>

text \<open>
  The check and the write of a deprecation are not one transaction. When another request makes
  the version the default between the two, the policy ends with a default version that is
  deprecated, which the check was there to prevent.
\<close>

theorem default_deprecated_by_interleaving:
  "(let st = version_store [version_of ''v1'' ''p1'' 1 APPROVED];
        t = version_of ''v1'' ''p1'' 1 APPROVED;
        st1 = snd (setDefaultVersion ''p1'' 1 ''u2'' st);
        st2 = deprecate_write t ''u1'' 9 st1
    in deprecate_check st ''p1'' 1 ''u1'' = Inr t \<and> fst (setDefaultVersion ''p1'' 1 ''u2'' st) = Inr () \<and>
       deprecate_check st1 ''p1'' 1 ''u1'' = Inl (VersionState default_version_locked) \<and>
       map (\<lambda>v. (v_isDefault v, v_status v)) (versions_t st2) = [(True, DEPRECATED)])"
  unfolding Let_def by (intro conjI; code_simp)

text \<open>
  The same holds for submitting. A second submission that was checked while the version was a
  draft and written after it was approved takes the approved version back to pending; the next
  approval freezes again and overwrites the references, so the snapshot counts one reference that
  no version holds.
\<close>

theorem stale_submit_leaks_reference:
  "(let st = (version_store [version_of ''v1'' ''p1'' 1 DRAFT])
          \<lparr>terms_t := [term_of ''x1''], links_t := [link_of ''l1'' ''x1'' None None]\<rparr>;
        t = version_of ''v1'' ''p1'' 1 DRAFT;
        st1 = snd (submitForApproval ''p1'' 1 ''u1'' None st);
        st2 = snd (approveVersion plain_env numbered False ''p1'' 1 ''u2'' DecApproved None ''a1'' st1);
        st3 = submit_write t ''u1'' None st2;
        st4 = snd (approveVersion plain_env numbered False ''p1'' 1 ''u2'' DecApproved None ''a2'' st3)
    in submit_check st ''p1'' 1 ''u1'' = Inr t \<and>
       map v_status (versions_t st2) = [APPROVED] \<and> map v_status (versions_t st3) = [PENDING_APPROVAL] \<and>
       map v_status (versions_t st4) = [APPROVED] \<and> map s_refCount (snapshots_t st4) = [2] \<and>
       policy_refs st4 ''p1'' (numbered 0) = 1)"
  unfolding Let_def by (intro conjI; code_simp)

text \<open>
  Archiving does not stop a version from running. When the policy has this one version, the
  version choice of the execution routes still answers it after it was archived, although the
  service calls an archived version not executable.
\<close>

theorem archived_version_still_runs:
  assumes "archiveVersion pid n u now st = (Inr (), st')"
    "select_where (\<lambda>v. v_policyId v = pid) (versions_t st) = [v]"
  shows "\<exists>w. select_where (\<lambda>v. v_policyId v = pid) (versions_t st') = [w] \<and> v_id w = v_id v \<and> v_status w = ARCHIVED \<and>
    resolveExecutableVersion [w] w = (w, ByLatest) \<and> listExecutableVersions st' pid = []"
proof -
  obtain t f where t: "t \<in> set (versions_t st)" "v_policyId t = pid" "\<not> v_isDefault t" "row_update t f" "v_status (f t) = ARCHIVED"
    and vs: "versions_t st' = update_where (\<lambda>v. v_id v = v_id t) f (versions_t st)"
    using archive_effect [OF assms(1)] by auto
  have "t \<in> set (select_where (\<lambda>v. v_policyId v = pid) (versions_t st))" using t by simp
  then have tv: "t = v" using assms(2) by simp
  have keep: "v_policyId (f q) = v_policyId q" for q using t(4) by (simp add: row_update_def)
  have "filter (\<lambda>v. v_policyId v = pid) (update_where (\<lambda>v. v_id v = i) f q) =
      update_where (\<lambda>v. v_id v = i) f (filter (\<lambda>v. v_policyId v = pid) q)" for i q
    by (induction q) (auto simp: keep)
  then have w: "select_where (\<lambda>v. v_policyId v = pid) (versions_t st') = [f v]"
    using assms(2) tv by (simp add: vs select_where_def)
  have "\<not> v_isDefault (f v)" "v_id (f v) = v_id v" using t tv by (simp_all add: row_update_def)
  then have "resolveExecutableVersion [f v] (f v) = (f v, ByLatest)"
    using t(5) tv by (simp add: resolveExecutableVersion_def max_version_def)
  moreover have "listExecutableVersions st' pid = []"
  proof -
    have "q = f v" if "q \<in> set (versions_t st')" "v_policyId q = pid" for q
    proof -
      have "q \<in> set (select_where (\<lambda>v. v_policyId v = pid) (versions_t st'))" using that by simp
      then show ?thesis unfolding w by simp
    qed
    then have "select_where (\<lambda>v. v_policyId v = pid \<and> v_status v \<in> {APPROVED, DEPRECATED}) (versions_t st') = []"
      using t(5) tv by (auto simp: select_where_def filter_empty_conv)
    then show ?thesis by (simp only: listExecutableVersions_def by_version_desc_def) simp
  qed
  ultimately show ?thesis using w t(5) tv \<open>v_id (f v) = v_id v\<close> by blast
qed

theorem archived_version_still_runs_witness:
  "\<exists>w. v_status w = ARCHIVED \<and> resolveExecutableVersion [w] w = (w, ByLatest)"
proof -
  let ?st = "version_store [version_of ''v1'' ''p1'' 1 APPROVED]"
  let ?run = "archiveVersion ''p1'' 1 ''u1'' 9 ?st"
  have "fst ?run = Inr ()" by code_simp
  then have run: "?run = (Inr (), snd ?run)" by (metis prod.collapse)
  have "select_where (\<lambda>v. v_policyId v = ''p1'') (versions_t ?st) = [version_of ''v1'' ''p1'' 1 APPROVED]"
    by (simp add: select_where_def)
  from archived_version_still_runs [OF run this] show ?thesis by blast
qed

end
