(* ===== verification/Lifecycle.thy ===== *)
theory Lifecycle
  imports VersionFacts TeamRoutes
begin

text \<open>
  The recycle bin of policies (\<open>src/src/lib/policy-lifecycle.ts\<close>): soft deletion with a bin row,
  restoring, the permanent deletion that releases the vocabulary references of the policy's
  versions, the views of the bin, the expiry job and emptying the bin. Reads of bin rows go in
  the order of the table, as a query without an order gives them.
\<close>

section \<open>Results\<close>

definition RECYCLE_BIN_RETENTION_DAYS :: int where
  "RECYCLE_BIN_RETENTION_DAYS = 30"

text \<open>
  \<open>LcDenied\<close> carries the status and the code of the refusal (no code where the bin row is missing),
  \<open>LcFailed\<close> is the result of a statement that threw.
\<close>

datatype lifecycle_result =
    LcDone
  | LcRestored "string option"
  | LcDenied nat "string option"
  | LcFailed

definition deniedResult :: "access_decision \<Rightarrow> lifecycle_result" where
  "deniedResult d = (case d of Denied stat c \<Rightarrow> LcDenied stat (Some c) | Allowed _ _ \<Rightarrow> LcFailed)"

section \<open>Soft deletion and restoring\<close>

definition policy_snapshot_of :: "policy_row \<Rightarrow> policy_snapshot" where
  "policy_snapshot_of p =
     \<lparr>ps_id = p_id p, ps_name = p_name p, ps_description = p_description p, ps_content = p_content p,
      ps_version = p_version p, ps_isPublic = p_isPublic p, ps_shareSlug = p_shareSlug p,
      ps_piiFields = p_piiFields p, ps_teamId = p_teamId p, ps_createdAt = p_createdAt p,
      ps_updatedAt = p_updatedAt p\<rparr>"

text \<open>A second bin row of a policy violates the unique index and rolls the transaction back.\<close>

definition softDeletePolicy ::
  "policy_id \<Rightarrow> user_id \<Rightarrow> string option \<Rightarrow> date \<Rightarrow> row_id \<Rightarrow> store \<Rightarrow> lifecycle_result \<times> store" where
  "softDeletePolicy policyId userId reason now newId st =
     (case loadPolicyForAction st policyId (session_actor userId) ActDelete False of
        Inl d \<Rightarrow> (deniedResult d, st)
      | Inr (policy, _) \<Rightarrow>
          if find_first (\<lambda>b. b_policyId b = policyId) (bins_t st) \<noteq> None then (LcFailed, st)
          else (LcDone,
            st\<lparr>bins_t := insert_row
                 \<lparr>b_id = newId, b_policyId = policyId, b_userId = userId, b_snapshot = policy_snapshot_of policy,
                  b_deletedAt = now, b_deletedBy = userId,
                  b_expiresAt = now + RECYCLE_BIN_RETENTION_DAYS * day_ms\<rparr> (bins_t st),
               policies_t := update_where (\<lambda>p. p_id p = policyId)
                 (\<lambda>p. p\<lparr>p_deletedAt := Some now, p_deletedBy := Some userId, p_deleteReason := or_null reason\<rparr>)
                 (policies_t st)\<rparr>))"

text \<open>Another live policy of the same owner scope with the same name.\<close>

definition name_taken :: "store \<Rightarrow> policy_row \<Rightarrow> bool" where
  "name_taken st policy \<longleftrightarrow>
     find_first (\<lambda>p. (if truthy (p_teamId policy) then p_teamId p = p_teamId policy else p_userId p = p_userId policy) \<and>
       p_name p = p_name policy \<and> p_deletedAt p = None \<and> p_id p \<noteq> p_id policy) (policies_t st) \<noteq> None"

text \<open>\<open>stamp\<close> is the minute of the restoration as text.\<close>

definition restorePolicy :: "policy_id \<Rightarrow> user_id \<Rightarrow> string \<Rightarrow> store \<Rightarrow> lifecycle_result \<times> store" where
  "restorePolicy policyId userId stamp st =
     (case loadPolicyForAction st policyId (session_actor userId) ActDelete True of
        Inl d \<Rightarrow> (deniedResult d, st)
      | Inr (policy, _) \<Rightarrow>
          if find_first (\<lambda>b. b_policyId b = policyId) (bins_t st) = None then (LcDenied 404 None, st)
          else
            let nameConflict = name_taken st policy;
                newName = (if nameConflict then p_name policy @ '' (Restored '' @ stamp @ '')'' else p_name policy)
            in (LcRestored (if nameConflict then Some newName else None),
                st\<lparr>policies_t := update_where (\<lambda>p. p_id p = policyId)
                     (\<lambda>p. p\<lparr>p_deletedAt := None, p_deletedBy := None, p_deleteReason := None, p_name := newName\<rparr>)
                     (policies_t st),
                   bins_t := delete_where (\<lambda>b. b_policyId b = policyId) (bins_t st)\<rparr>))"

section \<open>Permanent deletion\<close>

definition deletePolicyAccessRows :: "policy_id \<Rightarrow> store \<Rightarrow> store" where
  "deletePolicyAccessRows policyId st =
     st\<lparr>shares_t := delete_where (\<lambda>s. sh_policyId s = policyId) (shares_t st),
        reviewers_t := delete_where (\<lambda>r. rv_policyId r = policyId) (reviewers_t st),
        review_invites_t := delete_where (\<lambda>i. ri_policyId i = policyId \<and> ri_acceptedAt i = None) (review_invites_t st)\<rparr>"

definition purgePolicy :: "policy_id \<Rightarrow> store \<Rightarrow> store" where
  "purgePolicy policyId st =
     (let st1 = st\<lparr>bins_t := delete_where (\<lambda>b. b_policyId b = policyId) (bins_t st)\<rparr> in
      if find_first (\<lambda>p. p_id p = policyId) (policies_t st1) = None then st1
      else
        let st2 = st1\<lparr>policies_t := delete_where (\<lambda>p. p_id p = policyId) (policies_t st1)\<rparr>;
            (release, st3) = releaseSnapshotRefsForPolicy policyId (deletePolicyAccessRows policyId st2)
        in reportSnapshotRelease policyId release st3)"

definition permanentDeletePolicy :: "policy_id \<Rightarrow> user_id \<Rightarrow> store \<Rightarrow> lifecycle_result \<times> store" where
  "permanentDeletePolicy policyId userId st =
     (case loadPolicyForAction st policyId (session_actor userId) ActDelete True of
        Inl d \<Rightarrow> (deniedResult d, st)
      | Inr _ \<Rightarrow> (LcDone, purgePolicy policyId st))"

section \<open>Views of the bin\<close>

definition trashVisibleTo :: "store \<Rightarrow> user_id \<Rightarrow> recycle_row \<Rightarrow> bool" where
  "trashVisibleTo st userId b \<longleftrightarrow>
     b_policyId b \<in> set (map p_id (select_where (policiesVisibleTo st userId ActDelete) (policies_t st)))"

record trash_item =
  tr_id :: row_id
  tr_policyId :: policy_id
  tr_name :: string
  tr_description :: "string option"
  tr_deletedAt :: date
  tr_deletedBy :: user_id
  tr_expiresAt :: date
  tr_daysRemaining :: int

text \<open>\<open>Math.max(0, Math.ceil(ms / day))\<close>.\<close>

definition days_remaining :: "date \<Rightarrow> date \<Rightarrow> int" where
  "days_remaining expiresAt now = max 0 (- ((now - expiresAt) div day_ms))"

definition getTrashItems :: "store \<Rightarrow> user_id \<Rightarrow> date \<Rightarrow> trash_item list" where
  "getTrashItems st userId now =
     List.map_filter (\<lambda>b. map_option (\<lambda>p.
         \<lparr>tr_id = b_id b, tr_policyId = b_policyId b, tr_name = p_name p, tr_description = p_description p,
          tr_deletedAt = b_deletedAt b, tr_deletedBy = b_deletedBy b, tr_expiresAt = b_expiresAt b,
          tr_daysRemaining = days_remaining (b_expiresAt b) now\<rparr>)
         (find_first (\<lambda>p. p_id p = b_policyId b) (policies_t st)))
       (rev (sort_key b_deletedAt (select_where (trashVisibleTo st userId) (bins_t st))))"

record trash_stats =
  ts_count :: nat
  ts_oldestExpiresAt :: "date option"
  ts_newestDeletedAt :: "date option"

definition getTrashStats :: "store \<Rightarrow> user_id \<Rightarrow> trash_stats" where
  "getTrashStats st userId =
     (let rows = select_where (trashVisibleTo st userId) (bins_t st) in
      \<lparr>ts_count = length rows,
       ts_oldestExpiresAt = (if rows = [] then None else Some (Min (set (map b_expiresAt rows)))),
       ts_newestDeletedAt = (if rows = [] then None else Some (Max (set (map b_deletedAt rows))))\<rparr>)"

section \<open>Jobs\<close>

definition cleanupExpiredTrashItems :: "date \<Rightarrow> store \<Rightarrow> nat \<times> store" where
  "cleanupExpiredTrashItems now st =
     (let expired = map b_policyId (select_where (\<lambda>b. b_expiresAt b \<le> now) (bins_t st)) in
      (length expired, fold purgePolicy expired st))"

definition purgeOrphanPolicyAccessRows :: "store \<Rightarrow> (nat \<times> nat \<times> nat) \<times> store" where
  "purgeOrphanPolicyAccessRows st =
     (let gone = (\<lambda>pid. pid \<notin> set (map p_id (policies_t st)));
          share = (\<lambda>s. gone (sh_policyId s));
          reviewer = (\<lambda>r. gone (rv_policyId r));
          invite = (\<lambda>i. ri_acceptedAt i = None \<and> gone (ri_policyId i))
      in ((count_where share (shares_t st), count_where reviewer (reviewers_t st), count_where invite (review_invites_t st)),
          st\<lparr>shares_t := delete_where share (shares_t st),
             reviewers_t := delete_where reviewer (reviewers_t st),
             review_invites_t := delete_where invite (review_invites_t st)\<rparr>))"

fun empty_items :: "user_id \<Rightarrow> policy_id list \<Rightarrow> store \<Rightarrow> nat \<times> store" where
  "empty_items userId [] st = (0, st)"
| "empty_items userId (pid # pids) st =
     (case loadPolicyForAction st pid (session_actor userId) ActDelete True of
        Inl _ \<Rightarrow> empty_items userId pids st
      | Inr _ \<Rightarrow> (let (n, st') = empty_items userId pids (purgePolicy pid st) in (n + 1, st')))"

definition emptyTrash :: "user_id \<Rightarrow> store \<Rightarrow> nat \<times> store" where
  "emptyTrash userId st =
     empty_items userId
       (map b_policyId (select_where (\<lambda>b. trashVisibleTo st userId b \<and> b_deletedBy b = userId) (bins_t st))) st"

end
