(* ===== verification/Governance.thy ===== *)
theory Governance
  imports Lifecycle
begin

text \<open>
  The version service, the recycle bin and the snapshot table together. A request is one value of
  \<open>sys_op\<close>; the invariant says that the snapshot table counts at least the references that the
  versions of existing policies hold. It is kept by every sequence of requests, so that no deletion
  of a policy takes away a snapshot count that another policy still needs.
\<close>

section \<open>Sequences of requests\<close>

fun all_enabled :: "('op \<Rightarrow> 'st \<Rightarrow> bool) \<Rightarrow> ('op \<Rightarrow> 'st \<Rightarrow> 'st) \<Rightarrow> 'op list \<Rightarrow> 'st \<Rightarrow> bool" where
  "all_enabled enabled run [] st = True"
| "all_enabled enabled run (op # ops) st = (enabled op st \<and> all_enabled enabled run ops (run op st))"

locale preserved =
  fixes enabled :: "'op \<Rightarrow> 'st \<Rightarrow> bool"
    and run :: "'op \<Rightarrow> 'st \<Rightarrow> 'st"
    and inv_holds :: "'st \<Rightarrow> bool"
  assumes keep: "inv_holds st \<Longrightarrow> enabled op st \<Longrightarrow> inv_holds (run op st)"
begin

lemma keep_all: "inv_holds st \<Longrightarrow> all_enabled enabled run ops st \<Longrightarrow> inv_holds (fold run ops st)"
  by (induction ops arbitrary: st) (auto simp: keep)

end

datatype sys_op =
    VersionOp version_op
  | NewPolicy policy_row
  | SoftDelete policy_id user_id "string option" date row_id
  | Restore policy_id user_id string
  | PermanentDelete policy_id user_id
  | EmptyTrash user_id
  | CleanupTrash date
  | ArchiveLinks "nat \<Rightarrow> row_id" user_id date
  | Rollback user_id row_id date "nat \<Rightarrow> row_id"

fun run_sys :: "service_env \<Rightarrow> sys_op \<Rightarrow> store \<Rightarrow> store" where
  "run_sys env (VersionOp op) st = run_op env op st"
| "run_sys env (NewPolicy p) st = st\<lparr>policies_t := insert_row p (policies_t st)\<rparr>"
| "run_sys env (SoftDelete pid u reason now newId) st = snd (softDeletePolicy pid u reason now newId st)"
| "run_sys env (Restore pid u stamp) st = snd (restorePolicy pid u stamp st)"
| "run_sys env (PermanentDelete pid u) st = snd (permanentDeletePolicy pid u st)"
| "run_sys env (EmptyTrash u) st = snd (emptyTrash u st)"
| "run_sys env (CleanupTrash now) st = snd (cleanupExpiredTrashItems now st)"
| "run_sys env (ArchiveLinks fresh u now) st = snd (archiveLinksForUser (env_sha env) fresh u now st)"
| "run_sys env (Rollback u sid now fresh) st = snd (rollbackToSnapshot u sid now fresh st)"

text \<open>Generated ids are new; a new policy has no versions yet.\<close>

fun sys_enabled :: "sys_op \<Rightarrow> store \<Rightarrow> bool" where
  "sys_enabled (VersionOp op) st = op_ok st op"
| "sys_enabled (NewPolicy p) st \<longleftrightarrow>
     p_id p \<notin> p_id ` set (policies_t st) \<and> p_id p \<notin> v_policyId ` set (versions_t st) \<and>
     p_id p \<notin> b_policyId ` set (bins_t st) \<and> p_deletedAt p = None"
| "sys_enabled (ArchiveLinks fresh u now) st \<longleftrightarrow> fresh_supply fresh st"
| "sys_enabled _ st = True"

section \<open>References of existing policies\<close>

definition version_refs :: "version_row \<Rightarrow> row_id \<Rightarrow> nat" where
  "version_refs v i = count_list (ref_ids [v_snapshotIds v]) i"

definition policy_ids :: "store \<Rightarrow> policy_id set" where
  "policy_ids st = p_id ` set (policies_t st)"

definition live_refs :: "store \<Rightarrow> row_id \<Rightarrow> nat" where
  "live_refs st i = (\<Sum>v\<leftarrow>versions_t st. if v_policyId v \<in> policy_ids st then version_refs v i else 0)"

definition refs_counted :: "store \<Rightarrow> bool" where
  "refs_counted st \<longleftrightarrow> (\<forall>i. live_refs st i \<le> ref_count (snapshots_t st) i)"

text \<open>A policy is marked deleted exactly when the bin has a row for it.\<close>

definition bin_matches :: "store \<Rightarrow> bool" where
  "bin_matches st \<longleftrightarrow>
     (\<forall>p \<in> set (policies_t st). p_deletedAt p \<noteq> None \<longleftrightarrow> p_id p \<in> b_policyId ` set (bins_t st)) \<and>
     b_policyId ` set (bins_t st) \<subseteq> policy_ids st"

definition sys_inv :: "store \<Rightarrow> bool" where
  "sys_inv st \<longleftrightarrow>
     versions_ok st \<and> snapshot_keys_ok st \<and> unique_key p_id (policies_t st) \<and>
     unique_key b_policyId (bins_t st) \<and> bin_matches st \<and> refs_counted st"

lemma version_refs_Nil: "v_snapshotIds v = [] \<Longrightarrow> version_refs v i = 0"
  by (simp add: version_refs_def ref_ids_def)

lemma version_refs_cong: "v_snapshotIds v = v_snapshotIds w \<Longrightarrow> version_refs v i = version_refs w i"
  by (simp add: version_refs_def)

lemma ref_ids_refs: "count_list (ref_ids (map v_snapshotIds vs)) i = (\<Sum>v\<leftarrow>vs. version_refs v i)"
  by (induction vs) (simp_all add: version_refs_def ref_ids_def)

lemma policy_refs_sum:
  "policy_refs st pid i = (\<Sum>v\<leftarrow>versions_t st. if v_policyId v = pid then version_refs v i else 0)"
proof -
  have "(\<Sum>v\<leftarrow>filter P vs. g v) = (\<Sum>v\<leftarrow>vs. if P v then g v else 0)" for P :: "version_row \<Rightarrow> bool" and g :: "version_row \<Rightarrow> nat" and vs
    by (induction vs) auto
  then show ?thesis by (simp only: policy_refs_def ref_ids_refs select_where_def)
qed

lemma live_refs_without:
  assumes "pid \<in> P"
  shows "(\<Sum>v\<leftarrow>vs. if v_policyId v \<in> P then version_refs v i else 0) =
    (\<Sum>v\<leftarrow>vs. if v_policyId v = pid then version_refs v i else 0) +
    (\<Sum>v\<leftarrow>vs. if v_policyId v \<in> P - {pid} then version_refs v i else 0)"
  using assms by (induction vs) auto

lemma refs_counted_same:
  assumes "refs_counted st" "versions_t st' = versions_t st" "policy_ids st' = policy_ids st"
    "\<And>i. ref_count (snapshots_t st) i \<le> ref_count (snapshots_t st') i"
  shows "refs_counted st'"
proof -
  have "live_refs st' i = live_refs st i" for i using assms(2,3) by (simp add: live_refs_def)
  then show ?thesis using assms(1,4) unfolding refs_counted_def by (metis order_trans)
qed

section \<open>Purging keeps the counts\<close>

lemma purge_effect:
  assumes "p_id p = pid" "p \<in> set (policies_t st)"
  shows "versions_t (purgePolicy pid st) = versions_t st \<and>
    policies_t (purgePolicy pid st) = delete_where (\<lambda>p. p_id p = pid) (policies_t st) \<and>
    bins_t (purgePolicy pid st) = delete_where (\<lambda>b. b_policyId b = pid) (bins_t st) \<and>
    (\<forall>i. ref_count (snapshots_t (purgePolicy pid st)) i = ref_count (snapshots_t st) i - policy_refs st pid i) \<and>
    snapshot_keys_ok (purgePolicy pid st) = snapshot_keys_ok st"
proof -
  let ?st2 = "deletePolicyAccessRows pid (st\<lparr>bins_t := delete_where (\<lambda>b. b_policyId b = pid) (bins_t st),
      policies_t := delete_where (\<lambda>p. p_id p = pid) (policies_t st)\<rparr>)"
  obtain r st3 where run: "releaseSnapshotRefsForPolicy pid ?st2 = (r, st3)"
    by (cases "releaseSnapshotRefsForPolicy pid ?st2")
  have "find_first (\<lambda>p. p_id p = pid) (policies_t st) \<noteq> None"
    using assms by (auto simp: find_first_None)
  then have purge: "purgePolicy pid st = reportSnapshotRelease pid r st3"
    using run by (auto simp: purgePolicy_def Let_def)
  note e = release_effect [OF run]
  obtain tb where tb: "st3 = ?st2\<lparr>snapshots_t := tb\<rparr>" using e by blast
  have keys: "map owner_hash_key (snapshots_t st3) = map owner_hash_key (snapshots_t st) \<and>
      map owner_version_key (snapshots_t st3) = map owner_version_key (snapshots_t st)"
    using release_keys [OF run] by (simp add: deletePolicyAccessRows_def)
  have "map s_id (snapshots_t st3) = map s_id (snapshots_t st)"
    using e by (simp add: deletePolicyAccessRows_def)
  moreover from this have "snapshot_ids st3 = snapshot_ids st"
    unfolding snapshot_ids_def by (metis list.set_map)
  ultimately have "snapshot_keys_ok st3 = snapshot_keys_ok st"
    using keys by (simp add: snapshot_keys_ok_def unique_key_def)
  moreover have "policy_refs ?st2 pid i = policy_refs st pid i" for i
    by (simp add: policy_refs_def deletePolicyAccessRows_def)
  ultimately show ?thesis
    using e tb unfolding purge reportSnapshotRelease_def
    by (auto simp: deletePolicyAccessRows_def snapshot_keys_ok_def snapshot_ids_def)
qed

lemma purge_absent:
  assumes "pid \<notin> policy_ids st"
  shows "purgePolicy pid st = st\<lparr>bins_t := delete_where (\<lambda>b. b_policyId b = pid) (bins_t st)\<rparr>"
proof -
  have "find_first (\<lambda>p. p_id p = pid) (policies_t st) = None"
    using assms by (auto simp: policy_ids_def find_first_None)
  then show ?thesis by (simp add: purgePolicy_def Let_def)
qed

lemma purge_keeps_inv:
  assumes "sys_inv st"
  shows "sys_inv (purgePolicy pid st)"
proof (cases "pid \<in> policy_ids st")
  case False
  then have "pid \<notin> b_policyId ` set (bins_t st)" using assms by (auto simp: sys_inv_def bin_matches_def)
  then have "delete_where (\<lambda>b. b_policyId b = pid) (bins_t st) = bins_t st"
    by (intro delete_where_none) auto
  then show ?thesis using assms purge_absent [OF False] by simp
next
  case True
  then obtain p where p: "p_id p = pid" "p \<in> set (policies_t st)" by (auto simp: policy_ids_def)
  let ?st = "purgePolicy pid st"
  have tables: "versions_t ?st = versions_t st" "policies_t ?st = delete_where (\<lambda>p. p_id p = pid) (policies_t st)"
    "bins_t ?st = delete_where (\<lambda>b. b_policyId b = pid) (bins_t st)"
    and counts: "\<And>i. ref_count (snapshots_t ?st) i = ref_count (snapshots_t st) i - policy_refs st pid i"
    and keys: "snapshot_keys_ok ?st = snapshot_keys_ok st"
    using purge_effect [OF p] by blast+
  have inv: "versions_ok st" "snapshot_keys_ok st" "unique_key p_id (policies_t st)"
    "unique_key b_policyId (bins_t st)" "bin_matches st" "refs_counted st"
    using assms by (simp_all add: sys_inv_def)
  have ids: "policy_ids ?st = policy_ids st - {pid}"
    by (auto simp: policy_ids_def tables)
  have "live_refs ?st i + policy_refs st pid i = live_refs st i" for i
    using live_refs_without [OF True, of i "versions_t st"]
    by (simp add: live_refs_def ids tables policy_refs_sum)
  moreover have "live_refs st i \<le> ref_count (snapshots_t st) i" for i
    using inv(6) by (simp add: refs_counted_def)
  ultimately have "live_refs ?st i \<le> ref_count (snapshots_t st) i - policy_refs st pid i" for i
    by (metis add_diff_cancel_right' diff_le_mono)
  then have "refs_counted ?st" by (simp add: refs_counted_def counts)
  moreover have "bin_matches ?st"
    using inv(5) by (auto simp: bin_matches_def tables ids)
  moreover have "unique_key p_id (policies_t ?st)" "unique_key b_policyId (bins_t ?st)"
    unfolding tables by (rule unique_key_delete_where, rule inv)+
  moreover have "versions_ok ?st" using inv(1) versions_ok_same [OF tables(1)] by simp
  ultimately show ?thesis using inv(2) by (simp add: sys_inv_def keys)
qed

lemma fold_purge_keeps_inv: "sys_inv st \<Longrightarrow> sys_inv (fold purgePolicy pids st)"
  by (induction pids arbitrary: st) (auto simp: purge_keeps_inv)

lemma empty_items_keeps_inv: "sys_inv st \<Longrightarrow> sys_inv (snd (empty_items u pids st))"
  by (induction pids arbitrary: st) (auto simp: purge_keeps_inv split_beta split: sum.splits)

section \<open>Soft deletion and restoring keep the counts\<close>

lemma load_Inr:
  assumes "loadPolicyForAction st pid actor act deleted = Inr (p, d)"
  shows "p \<in> set (policies_t st) \<and> p_id p = pid \<and> (p_deletedAt p \<noteq> None \<longleftrightarrow> deleted) \<and>
    d = authorizePolicyAction st actor p act \<and> is_allowed d"
  using assms by (auto simp: loadPolicyForAction_def Let_def dest: find_first_Some split: option.splits if_splits)

lemma policy_ids_update:
  assumes "\<And>p. p_id (f p) = p_id p" "policies_t st' = update_where q f (policies_t st)"
  shows "policy_ids st' = policy_ids st"
proof -
  have "map p_id (policies_t st') = map p_id (policies_t st)"
    using assms by (simp add: map_id_update_where)
  then show ?thesis unfolding policy_ids_def by (metis list.set_map)
qed

lemma sys_inv_bin_change:
  assumes "sys_inv st" "versions_t st' = versions_t st" "snapshots_t st' = snapshots_t st"
    "policies_t st' = update_where q f (policies_t st)" "\<And>p. p_id (f p) = p_id p"
    "unique_key b_policyId (bins_t st')" "bin_matches st'"
  shows "sys_inv st'"
proof -
  have "policy_ids st' = policy_ids st" by (rule policy_ids_update [OF assms(5,4)])
  moreover have "refs_counted st" using assms(1) by (simp add: sys_inv_def)
  ultimately have "refs_counted st'"
    by (intro refs_counted_same [of st st']) (simp_all add: assms(2,3))
  moreover have "unique_key p_id (policies_t st')"
    using assms(1,4,5) by (auto simp: sys_inv_def intro!: unique_key_update_where)
  moreover have "snapshot_keys_ok st'" using assms(1,3) by (simp add: sys_inv_def snapshot_keys_ok_def snapshot_ids_def)
  moreover have "versions_ok st'" using assms(1) versions_ok_same [OF assms(2)] by (simp add: sys_inv_def)
  ultimately show ?thesis using assms(6,7) by (simp add: sys_inv_def)
qed

lemma bin_matches_change:
  assumes "bin_matches st" "pid \<in> policy_ids st"
    "policies_t st' = update_where (\<lambda>p. p_id p = pid) f (policies_t st)"
    "\<And>p. p_id (f p) = p_id p" "\<And>p. p_deletedAt (f p) \<noteq> None \<longleftrightarrow> del"
    "b_policyId ` set (bins_t st') = (if del then insert pid else (\<lambda>B. B - {pid})) (b_policyId ` set (bins_t st))"
  shows "bin_matches st'"
proof -
  have ids: "policy_ids st' = policy_ids st" by (rule policy_ids_update [OF assms(4,3)])
  have "p_deletedAt p \<noteq> None \<longleftrightarrow> p_id p \<in> b_policyId ` set (bins_t st')" if p: "p \<in> set (policies_t st')" for p
  proof -
    obtain q where q: "q \<in> set (policies_t st)" "p = (if p_id q = pid then f q else q)"
      using p by (auto simp: assms(3) in_update_where)
    show ?thesis
    proof (cases "p_id q = pid")
      case True
      then show ?thesis using assms(4-6) q(2) by simp
    next
      case False
      then have "p_deletedAt p \<noteq> None \<longleftrightarrow> p_id q \<in> b_policyId ` set (bins_t st)"
        using assms(1) q by (auto simp: bin_matches_def)
      then show ?thesis using False q(2) by (simp add: assms(6))
    qed
  qed
  moreover have "b_policyId ` set (bins_t st') \<subseteq> policy_ids st'"
    using assms(1,2) by (auto simp: assms(6) ids bin_matches_def)
  ultimately show ?thesis unfolding bin_matches_def by blast
qed

lemma soft_delete_keeps_inv:
  assumes "sys_inv st"
  shows "sys_inv (snd (softDeletePolicy pid u reason now newId st))"
proof (cases "loadPolicyForAction st pid (session_actor u) ActDelete False")
  case (Inr r)
  obtain p d where r: "r = (p, d)" by (cases r)
  note l = load_Inr [OF Inr [unfolded r]]
  show ?thesis
  proof (cases "find_first (\<lambda>b. b_policyId b = pid) (bins_t st) = None")
    case True
    let ?st = "snd (softDeletePolicy pid u reason now newId st)"
    let ?f = "\<lambda>p. p\<lparr>p_deletedAt := Some now, p_deletedBy := Some u, p_deleteReason := or_null reason\<rparr>"
    let ?row = "\<lparr>b_id = newId, b_policyId = pid, b_userId = u, b_snapshot = policy_snapshot_of p,
                  b_deletedAt = now, b_deletedBy = u, b_expiresAt = now + RECYCLE_BIN_RETENTION_DAYS * day_ms\<rparr>"
    have st': "?st = st\<lparr>bins_t := insert_row ?row (bins_t st), policies_t := update_where (\<lambda>p. p_id p = pid) ?f (policies_t st)\<rparr>"
      using Inr True by (simp add: softDeletePolicy_def r)
    have "bin_matches st" "pid \<in> policy_ids st" using assms l by (auto simp: sys_inv_def policy_ids_def)
    then have "bin_matches ?st"
      by (rule bin_matches_change [where f = ?f and del = True]) (simp_all add: st')
    moreover have "unique_key b_policyId (bins_t ?st)"
      using assms True by (auto simp: sys_inv_def st' find_first_None intro!: unique_key_insert_row)
    ultimately show ?thesis
      by (intro sys_inv_bin_change [OF assms, of ?st "\<lambda>p. p_id p = pid" ?f]) (simp_all add: st')
  next
    case False
    then show ?thesis using assms Inr by (simp add: softDeletePolicy_def r)
  qed
qed (use assms in \<open>simp add: softDeletePolicy_def\<close>)

lemma restore_keeps_inv:
  assumes "sys_inv st"
  shows "sys_inv (snd (restorePolicy pid u stamp st))"
proof (cases "loadPolicyForAction st pid (session_actor u) ActDelete True")
  case (Inr r)
  obtain p d where r: "r = (p, d)" by (cases r)
  note l = load_Inr [OF Inr [unfolded r]]
  show ?thesis
  proof (cases "find_first (\<lambda>b. b_policyId b = pid) (bins_t st) = None")
    case False
    let ?st = "snd (restorePolicy pid u stamp st)"
    obtain nm where st': "?st = st\<lparr>policies_t := update_where (\<lambda>p. p_id p = pid)
          (\<lambda>p. p\<lparr>p_deletedAt := None, p_deletedBy := None, p_deleteReason := None, p_name := nm\<rparr>) (policies_t st),
        bins_t := delete_where (\<lambda>b. b_policyId b = pid) (bins_t st)\<rparr>"
      using Inr False by (auto simp: restorePolicy_def r Let_def)
    let ?f = "\<lambda>p. p\<lparr>p_deletedAt := None, p_deletedBy := None, p_deleteReason := None, p_name := nm\<rparr>"
    have "bin_matches st" "pid \<in> policy_ids st" using assms l by (auto simp: sys_inv_def policy_ids_def)
    then have "bin_matches ?st"
      by (rule bin_matches_change [where f = ?f and del = False]) (auto simp: st')
    moreover have "unique_key b_policyId (bins_t ?st)"
      using assms by (auto simp: sys_inv_def st' intro!: unique_key_delete_where)
    ultimately show ?thesis
      by (intro sys_inv_bin_change [OF assms, of ?st "\<lambda>p. p_id p = pid" ?f]) (simp_all add: st')
  next
    case True
    then show ?thesis using assms Inr by (simp add: restorePolicy_def r)
  qed
qed (use assms in \<open>simp add: restorePolicy_def\<close>)

section \<open>Version operations keep the counts\<close>

lemma sys_inv_version:
  assumes "sys_inv st" "others_kept st st'" "versions_ok st'" "snapshot_keys_ok st'" "refs_counted st'"
  shows "sys_inv st'"
  using assms by (simp add: sys_inv_def others_kept_def bin_matches_def policy_ids_def)

lemma snapshot_keys_same: "snapshots_t st' = snapshots_t st \<Longrightarrow> snapshot_keys_ok st' = snapshot_keys_ok st"
  by (simp add: snapshot_keys_ok_def snapshot_ids_def)

lemma policy_ids_kept: "others_kept st st' \<Longrightarrow> policy_ids st' = policy_ids st"
  by (simp add: others_kept_def policy_ids_def)

lemma live_refs_update:
  assumes "unique_key v_id (versions_t st)" "t \<in> set (versions_t st)" "policy_ids st' = policy_ids st"
    "versions_t st' = update_where (\<lambda>v. v_id v = v_id t) f (versions_t st)" "v_policyId (f t) = v_policyId t"
  shows "live_refs st' i + (if v_policyId t \<in> policy_ids st then version_refs t i else 0) =
    live_refs st i + (if v_policyId t \<in> policy_ids st then version_refs (f t) i else 0)"
  using sum_update_key [OF assms(1,2), of "\<lambda>v. if v_policyId v \<in> policy_ids st then version_refs v i else 0" f]
  by (simp only: live_refs_def assms(3-5))

lemma refs_counted_row_update:
  assumes "sys_inv st" "t \<in> set (versions_t st)" "others_kept st st'" "row_update t f"
    "versions_t st' = update_where (\<lambda>v. v_id v = v_id t) f (versions_t st)"
    "v_snapshotIds (f t) = v_snapshotIds t" "snapshots_t st' = snapshots_t st"
  shows "refs_counted st'"
proof -
  have "unique_key v_id (versions_t st)" using assms(1) by (simp add: sys_inv_def versions_ok_def)
  moreover have "v_policyId (f t) = v_policyId t" using assms(4) by (simp add: row_update_def)
  ultimately have "live_refs st' i = live_refs st i" for i
    using live_refs_update [OF _ assms(2) policy_ids_kept [OF assms(3)] assms(5), of i]
      version_refs_cong [OF assms(6), of i] by (simp split: if_splits)
  then show ?thesis using assms(1,7) by (simp add: sys_inv_def refs_counted_def)
qed

lemma refs_counted_approve:
  assumes "sys_inv st" "t \<in> set (versions_t st)" "v_snapshotIds t = []" "others_kept st st'"
    "versions_t st' = update_where (\<lambda>v. v_id v = v_id t)
       (\<lambda>v. v\<lparr>v_status := s, v_snapshotIds := nullish refs (v_snapshotIds v)\<rparr>) (versions_t st)"
    "refs_added (new_refs refs) st st'"
  shows "refs_counted st'"
proof -
  let ?f = "\<lambda>v. v\<lparr>v_status := s, v_snapshotIds := nullish refs (v_snapshotIds v)\<rparr>"
  have uniq: "unique_key v_id (versions_t st)" using assms(1) by (simp add: sys_inv_def versions_ok_def)
  have "version_refs (?f t) i = count_list (new_refs refs) i" for i
  proof -
    have "\<forall>x \<in> set (new_refs refs). x \<noteq> []" using assms(6) by (auto simp: refs_added_def)
    then have "filter (\<lambda>i. i \<noteq> []) (new_refs refs) = new_refs refs" by (simp add: filter_id_conv)
    then have "ref_ids [nullish refs []] = new_refs refs" by (simp add: ref_ids_def new_refs_def)
    then show ?thesis by (simp add: version_refs_def assms(3))
  qed
  moreover have "version_refs t i = 0" for i using version_refs_Nil assms(3) by blast
  ultimately have "live_refs st' i \<le> live_refs st i + count_list (new_refs refs) i" for i
    using live_refs_update [OF uniq assms(2) policy_ids_kept [OF assms(4)] assms(5), of i] by (simp split: if_splits)
  moreover have "live_refs st i + count_list (new_refs refs) i \<le> ref_count (snapshots_t st') i" for i
    using assms(1,6) by (simp add: sys_inv_def refs_counted_def refs_added_def)
  ultimately show ?thesis unfolding refs_counted_def by (meson order_trans)
qed

lemma create_keeps_refs:
  assumes "sys_inv st" "others_kept st st'" "versions_t st' = insert_row row (versions_t st)"
    "v_snapshotIds row = []" "snapshots_t st' = snapshots_t st"
  shows "refs_counted st'"
proof -
  have "live_refs st' i = live_refs st i" for i
    using policy_ids_kept [OF assms(2)] version_refs_Nil [OF assms(4)]
    by (simp add: live_refs_def assms(3) insert_row_def)
  then show ?thesis using assms(1,5) by (simp add: sys_inv_def refs_counted_def)
qed

lemma default_keeps_refs:
  assumes "sys_inv st" "others_kept st st'" "versions_t st' = map (\<lambda>v. v\<lparr>v_isDefault := d v\<rparr>) (versions_t st)"
    "snapshots_t st' = snapshots_t st"
  shows "refs_counted st'"
proof -
  have keep: "version_refs (v\<lparr>v_isDefault := d v\<rparr>) i = version_refs v i" for v i
    by (rule version_refs_cong) simp
  have "live_refs st' i = live_refs st i" for i
    using policy_ids_kept [OF assms(2)] by (simp add: live_refs_def assms(3) comp_def keep cong: if_cong)
  then show ?thesis using assms(1,4) by (simp add: sys_inv_def refs_counted_def)
qed

definition kept_with_refs :: "store \<Rightarrow> store \<Rightarrow> bool" where
  "kept_with_refs st st' \<longleftrightarrow> others_kept st st' \<and> snapshot_keys_ok st' \<and> refs_counted st'"

lemma kept_with_refs_same:
  assumes "sys_inv st"
  shows "kept_with_refs st st"
  using assms by (simp add: kept_with_refs_def sys_inv_def)

lemma kept_with_refs_row:
  assumes "sys_inv st" "t \<in> set (versions_t st)" "others_kept st st'" "row_update t f"
    "versions_t st' = update_where (\<lambda>v. v_id v = v_id t) f (versions_t st)"
    "v_snapshotIds (f t) = v_snapshotIds t" "snapshots_t st' = snapshots_t st"
  shows "kept_with_refs st st'"
  using refs_counted_row_update [OF assms] snapshot_keys_same [OF assms(7)] assms(1,3)
  by (simp add: kept_with_refs_def sys_inv_def)

lemma version_op_tables:
  assumes "sys_inv st" "op_ok st op"
  shows "kept_with_refs st (run_op env op st)"
proof (cases op)
  case (OpCreate p newId)
  from create_effect [OF prod.collapse [symmetric], of env p newId st] show ?thesis
    unfolding OpCreate run_op.simps
  proof (elim disjE exE conjE, goal_cases)
    case 1
    then show ?case using kept_with_refs_same [OF assms(1)] by simp
  next
    case (2 flds row)
    then have "v_snapshotIds row = []" by simp
    then have "refs_counted (snd (createVersion env p newId st))"
      using create_keeps_refs [OF assms(1) 2(5,3) _ 2(4)] by blast
    then show ?case
      using snapshot_keys_same [OF 2(4)] 2(5) assms(1) by (simp add: kept_with_refs_def sys_inv_def)
  qed
next
  case (OpSubmit pid n u rn)
  from submit_effect [OF prod.collapse [symmetric], of pid n u rn st] show ?thesis
    unfolding OpSubmit run_op.simps
    by (elim disjE exE conjE) (simp add: kept_with_refs_same [OF assms(1)], rule kept_with_refs_row [OF assms(1)])
next
  case (OpApprove fresh fault pid n u d c aid)
  have keys: "snapshot_keys_ok st" and ok: "versions_ok st" and refs: "refs_counted st"
    using assms(1) by (simp_all add: sys_inv_def)
  have "fresh_supply fresh st" using assms(2) by (simp add: OpApprove op_ok_def)
  from approve_effect [OF prod.collapse [symmetric] keys this, of env fault pid n u d c aid] show ?thesis
    unfolding OpApprove run_op.simps
  proof (elim disjE exE conjE, goal_cases)
    case 1
    have "refs_counted (snd (approveVersion env fresh fault pid n u d c aid st))"
      by (rule refs_counted_same [OF refs 1(1) policy_ids_kept [OF 1(4)]]) (simp add: 1(2))
    then show ?case using snapshot_keys_same [OF 1(2)] 1(4) keys by (simp add: kept_with_refs_def)
  next
    case (2 t refs)
    have "v_snapshotIds t = []" using ok 2(1,4) by (auto simp: versions_ok_def once_approved_def)
    then show ?case
      using refs_counted_approve [OF assms(1) 2(1) _ 2(9,6,8)] 2(7,9) by (simp add: kept_with_refs_def)
  qed
next
  case (OpSetDefault pid n u)
  from set_default_effect [OF prod.collapse [symmetric], of pid n u st] show ?thesis
    unfolding OpSetDefault run_op.simps
  proof (elim disjE exE conjE, goal_cases)
    case 1
    then show ?case using kept_with_refs_same [OF assms(1)] by simp
  next
    case (2 t)
    then show ?case
      using default_keeps_refs [OF assms(1) 2(7,5,6)] snapshot_keys_same [OF 2(6)] assms(1)
      by (simp add: kept_with_refs_def sys_inv_def)
  qed
next
  case (OpDeprecate pid n u now)
  from deprecate_effect [OF prod.collapse [symmetric], of pid n u now st] show ?thesis
    unfolding OpDeprecate run_op.simps
    by (elim disjE exE conjE) (simp add: kept_with_refs_same [OF assms(1)], rule kept_with_refs_row [OF assms(1)])
next
  case (OpArchive pid n u now)
  from archive_effect [OF prod.collapse [symmetric], of pid n u now st] show ?thesis
    unfolding OpArchive run_op.simps
    by (elim disjE exE conjE) (simp add: kept_with_refs_same [OF assms(1)], rule kept_with_refs_row [OF assms(1)])
qed

lemma version_op_keeps_inv:
  assumes "sys_inv st" "op_ok st op"
  shows "sys_inv (run_op env op st)"
proof -
  have "versions_ok (run_op env op st)" by (rule run_op_versions_ok) (use assms in \<open>simp_all add: sys_inv_def\<close>)
  then show ?thesis
    using sys_inv_version [OF assms(1)] version_op_tables [OF assms, of env] by (simp add: kept_with_refs_def)
qed

section \<open>Vocabulary operations keep the counts\<close>

text \<open>An operation that changes the links, the outbox and the snapshot table, and drops no count.\<close>

definition counts_grow :: "store \<Rightarrow> store \<Rightarrow> bool" where
  "counts_grow st st' \<longleftrightarrow>
     versions_t st' = versions_t st \<and> policies_t st' = policies_t st \<and> bins_t st' = bins_t st \<and>
     snapshot_keys_ok st' \<and> (\<forall>i. ref_count (snapshots_t st) i \<le> ref_count (snapshots_t st') i)"

lemma counts_grow_keeps_inv:
  assumes "sys_inv st" "counts_grow st st'"
  shows "sys_inv st'"
proof -
  have tables: "versions_t st' = versions_t st" "policies_t st' = policies_t st" "bins_t st' = bins_t st"
    using assms(2) by (simp_all add: counts_grow_def)
  have ids: "policy_ids st' = policy_ids st" by (simp add: policy_ids_def tables)
  have "refs_counted st'"
    using assms refs_counted_same [of st st'] tables ids by (simp add: sys_inv_def counts_grow_def)
  moreover have "versions_ok st'" using versions_ok_same [OF tables(1)] assms(1) by (simp add: sys_inv_def)
  ultimately show ?thesis
    using assms by (simp add: sys_inv_def counts_grow_def bin_matches_def policy_ids_def)
qed

lemma archive_groups_effect:
  assumes "archive_groups sha fresh n u gs st = (ms, st')" "snapshot_keys_ok st"
    "inj fresh" "\<forall>k \<ge> n. fresh k \<noteq> [] \<and> fresh k \<notin> snapshot_ids st"
  shows "snapshot_keys_ok st' \<and> st' = st\<lparr>snapshots_t := snapshots_t st'\<rparr> \<and>
    (\<forall>j. ref_count (snapshots_t st) j \<le> ref_count (snapshots_t st') j)"
  using assms
proof (induction gs arbitrary: n ms st)
  case (Cons g gs)
  obtain key rows where g: "g = (key, rows)" by (cases g)
  obtain sid st1 where one: "upsertSnapshot sha (archive_group u key (map snd rows)) (fresh n) st = (sid, st1)"
    by fastforce
  obtain ms2 where rest: "archive_groups sha fresh (n + 1) u gs st1 = (ms2, st')"
    using Cons.prems(1) one by (auto simp: g split: prod.splits)
  have e: "snapshot_keys_ok st1" "st1 = st\<lparr>snapshots_t := snapshots_t st1\<rparr>"
    "\<forall>j. ref_count (snapshots_t st1) j = ref_count (snapshots_t st) j + (if j = sid then 1 else 0)"
    "snapshot_ids st1 = insert sid (snapshot_ids st)" "sid \<in> insert (fresh n) (snapshot_ids st)"
    using upsertSnapshot_effect [OF one Cons.prems(2)] Cons.prems(4) by auto
  have "fresh k \<notin> snapshot_ids st1" if "k \<ge> n + 1" for k
    using that e(4,5) Cons.prems(4) inj_eq [OF Cons.prems(3), of k n] by auto
  then have "\<forall>k \<ge> n + 1. fresh k \<noteq> [] \<and> fresh k \<notin> snapshot_ids st1"
    using Cons.prems(4) by auto
  note ih = Cons.IH [OF rest e(1) Cons.prems(3) this]
  obtain t1 where t1: "st1 = st\<lparr>snapshots_t := t1\<rparr>" using e(2) by blast
  have "st' = st1\<lparr>snapshots_t := snapshots_t st'\<rparr>" using ih by blast
  also have "\<dots> = st\<lparr>snapshots_t := snapshots_t st'\<rparr>" by (simp add: t1)
  finally have upd: "st' = st\<lparr>snapshots_t := snapshots_t st'\<rparr>" .
  have "ref_count (snapshots_t st) j \<le> ref_count (snapshots_t st') j" for j
    using ih e(3) by (metis le_add1 order_trans)
  then show ?case using ih upd by blast
qed simp

lemma archive_links_grow:
  assumes "sys_inv st" "fresh_supply fresh st"
  shows "counts_grow st (snd (archiveLinksForUser sha fresh u now st))"
proof -
  let ?joined = "sort_key fst (List.map_filter (\<lambda>l. map_option (Pair (ud_id l)) (join_term st l))
            (select_where (\<lambda>l. ownerPredicate \<lparr>os_type = UserOwned, os_id = u\<rparr> l \<and> active_link l) (links_t st)))"
  obtain ms st1 where run: "archive_groups sha fresh 0 u (group_rows (term_key \<circ> snd) ?joined) st = (ms, st1)"
    by fastforce
  obtain ls where st': "snd (archiveLinksForUser sha fresh u now st) = st1\<lparr>links_t := ls\<rparr>"
    using run by (auto simp: archiveLinksForUser_def Let_def)
  have e: "snapshot_keys_ok st1 \<and> st1 = st\<lparr>snapshots_t := snapshots_t st1\<rparr> \<and>
      (\<forall>j. ref_count (snapshots_t st) j \<le> ref_count (snapshots_t st1) j)"
    by (rule archive_groups_effect [OF run]) (use assms in \<open>simp_all add: sys_inv_def fresh_supply_def\<close>)
  then obtain t1 where t1: "st1 = st\<lparr>snapshots_t := t1\<rparr>" by blast
  have "snapshot_keys_ok (st1\<lparr>links_t := ls\<rparr>) = snapshot_keys_ok st1" by (rule snapshot_keys_same) simp
  then show ?thesis using e unfolding counts_grow_def st' by (simp add: t1)
qed

lemma reactivate_terms_tables:
  assumes "reactivate_terms u d lc fresh n ts st = (k, st')"
  shows "\<exists>ls. st' = st\<lparr>links_t := ls\<rparr>"
  using assms
proof (induction ts arbitrary: n k st)
  case Nil
  then have "st' = st\<lparr>links_t := links_t st\<rparr>" by simp
  then show ?case by blast
next
  case (Cons t ts)
  obtain b st1 where one: "reactivate_term u d lc (fresh n) t st = (b, st1)" by fastforce
  obtain k2 where rest: "reactivate_terms u d lc fresh (n + 1) ts st1 = (k2, st')"
    using Cons.prems one by (auto split: prod.splits)
  have same: "\<exists>ls. st = st\<lparr>links_t := ls\<rparr>" by (rule exI [of _ "links_t st"]) simp
  have "\<exists>ls. st1 = st\<lparr>links_t := ls\<rparr>"
    using one same unfolding reactivate_term_def by (elim guard_elims Pair_inject) blast+
  then obtain ls where "st1 = st\<lparr>links_t := ls\<rparr>" by blast
  moreover obtain ls' where "st' = st1\<lparr>links_t := ls'\<rparr>" using Cons.IH [OF rest] by blast
  ultimately have "st' = st\<lparr>links_t := ls'\<rparr>" by simp
  then show ?case by blast
qed

lemma rollback_grow:
  assumes "sys_inv st"
  shows "counts_grow st (snd (rollbackToSnapshot u sid now fresh st))"
proof -
  let ?st = "snd (rollbackToSnapshot u sid now fresh st)"
  have "?st = st \<or> (\<exists>e ls. ?st = emit e (st\<lparr>links_t := ls\<rparr>))"
  proof (cases "snapshot_of_user st u sid")
    case None
    then show ?thesis by (simp add: rollbackToSnapshot_def)
  next
    case (Some snap)
    show ?thesis
    proof (cases "s_archivedAt snap")
      case (Some a)
      then show ?thesis using \<open>snapshot_of_user st u sid = Some snap\<close> by (simp add: rollbackToSnapshot_def)
    next
      case None
      obtain ts ls0 where st': "?st = emit (AuditVocabulary u ''rollback'' sid)
          (snd (reactivate_terms u (s_domain snap) (s_locale snap) fresh 0 ts (st\<lparr>links_t := ls0\<rparr>)))"
        using \<open>snapshot_of_user st u sid = Some snap\<close> None by (auto simp: rollbackToSnapshot_def Let_def split_beta)
      obtain ls where "snd (reactivate_terms u (s_domain snap) (s_locale snap) fresh 0 ts (st\<lparr>links_t := ls0\<rparr>)) = st\<lparr>links_t := ls\<rparr>"
        using reactivate_terms_tables [OF prod.collapse [symmetric], of u "s_domain snap" "s_locale snap" fresh 0 ts "st\<lparr>links_t := ls0\<rparr>"]
        by auto
      then have "?st = emit (AuditVocabulary u ''rollback'' sid) (st\<lparr>links_t := ls\<rparr>)" using st' by simp
      then show ?thesis by blast
    qed
  qed
  then have "versions_t ?st = versions_t st \<and> policies_t ?st = policies_t st \<and> bins_t ?st = bins_t st \<and>
      snapshots_t ?st = snapshots_t st"
    by (elim disjE exE) (simp_all add: emit_def)
  then show ?thesis
    using assms snapshot_keys_same [of ?st st] by (simp add: counts_grow_def sys_inv_def)
qed

section \<open>Every request keeps the invariant\<close>

lemma new_policy_keeps_inv:
  assumes "sys_inv st" "sys_enabled (NewPolicy p) st"
  shows "sys_inv (st\<lparr>policies_t := insert_row p (policies_t st)\<rparr>)"
proof -
  let ?st = "st\<lparr>policies_t := insert_row p (policies_t st)\<rparr>"
  have ids: "policy_ids ?st = insert (p_id p) (policy_ids st)" by (auto simp: policy_ids_def)
  have other: "v_policyId v \<noteq> p_id p" if "v \<in> set (versions_t st)" for v
    using assms(2) that by (metis image_eqI sys_enabled.simps(2))
  have "live_refs ?st i = live_refs st i" for i
    unfolding live_refs_def ids by (simp, intro arg_cong [where f = sum_list] map_cong) (auto dest: other)
  then have "refs_counted ?st" using assms(1) by (simp add: sys_inv_def refs_counted_def)
  moreover have "bin_matches ?st" using assms by (auto simp: sys_inv_def bin_matches_def ids)
  moreover have "unique_key p_id (policies_t ?st)"
    using assms by (auto simp: sys_inv_def intro!: unique_key_insert_row)
  ultimately show ?thesis
    using assms(1) by (simp add: sys_inv_def versions_ok_def snapshot_keys_ok_def snapshot_ids_def)
qed

interpretation gov: preserved sys_enabled "run_sys env" sys_inv
proof unfold_locales
  fix st op
  assume inv: "sys_inv st" and en: "sys_enabled op st"
  show "sys_inv (run_sys env op st)"
  proof (cases op)
    case (VersionOp vop)
    then show ?thesis using version_op_keeps_inv inv en by simp
  next
    case (NewPolicy p)
    then show ?thesis using new_policy_keeps_inv inv en by simp
  next
    case (SoftDelete pid u reason now newId)
    then show ?thesis using soft_delete_keeps_inv inv by simp
  next
    case (Restore pid u stamp)
    then show ?thesis using restore_keeps_inv inv by simp
  next
    case (PermanentDelete pid u)
    then show ?thesis using purge_keeps_inv inv by (auto simp: permanentDeletePolicy_def split: sum.splits)
  next
    case (EmptyTrash u)
    then show ?thesis using empty_items_keeps_inv inv by (simp add: emptyTrash_def)
  next
    case (CleanupTrash now)
    then show ?thesis using fold_purge_keeps_inv inv by (simp add: cleanupExpiredTrashItems_def Let_def)
  next
    case (ArchiveLinks fresh u now)
    then show ?thesis using counts_grow_keeps_inv archive_links_grow inv en by simp
  next
    case (Rollback u sid now fresh)
    then show ?thesis using counts_grow_keeps_inv rollback_grow inv by simp
  qed
qed

text \<open>
  C1: Whatever sequence of requests runs (versions created, submitted, decided, made default,
  deprecated or archived, policies created, deleted, restored and purged, links archived, snapshots
  rolled back to), the snapshot table keeps counting at least the references that the versions of
  existing policies hold, the version table stays in order and the recycle bin matches the marks
  on the policies.
\<close>

theorem requests_keep_system_invariant:
  assumes "sys_inv st" "all_enabled sys_enabled (run_sys env) ops st"
  shows "sys_inv (fold (run_sys env) ops st)"
  using assms by (rule gov.keep_all)

text \<open>A policy u1 owns alone, with an approved version that holds a reference to snapshot s1.\<close>

abbreviation governed_store :: store where
  "governed_store \<equiv> empty_store\<lparr>
     users_t := [user_named ''u1''], policies_t := [policy_of ''p1'' ''u1'' None],
     versions_t := [(version_of ''v1'' ''p1'' 1 APPROVED)
       \<lparr>v_snapshotIds := [\<lparr>ref_snapshotId = ''s1'', ref_domain = ''loan'', ref_locale = ''en-US''\<rparr>]\<rparr>],
     snapshots_t := [user_snapshot ''s1'' [''t1'']]\<rparr>"

lemma governed_store_inv: "sys_inv governed_store"
proof -
  have "live_refs governed_store i \<le> ref_count (snapshots_t governed_store) i" for i
    by (simp add: live_refs_def ref_count_def version_refs_def ref_ids_def policy_ids_def empty_store_def)
  then show ?thesis
    by (simp add: sys_inv_def versions_ok_def version_key_def once_approved_def snapshot_keys_ok_def snapshot_ids_def
        bin_matches_def policy_ids_def refs_counted_def empty_store_def)
qed

theorem requests_keep_system_invariant_witness:
  "sys_inv (fold (run_sys plain_env)
     [VersionOp (OpSetDefault ''p1'' 1 ''u1''), SoftDelete ''p1'' ''u1'' None 5 ''b1'', PermanentDelete ''p1'' ''u1'']
     governed_store)"
  by (rule requests_keep_system_invariant [OF governed_store_inv]) (simp add: op_ok_def)

lemma sum_list_if_ge:
  fixes g :: "'a \<Rightarrow> nat"
  assumes "x \<in> set xs" "P x"
  shows "g x \<le> (\<Sum>y \<leftarrow> xs. if P y then g y else 0)"
  using assms by (induction xs) auto

lemma live_ref_counted:
  assumes "sys_inv st" "v \<in> set (versions_t st)" "v_policyId v \<in> policy_ids st" "r \<in> set (v_snapshotIds v)"
    "ref_snapshotId r \<noteq> []"
  shows "0 < ref_count (snapshots_t st) (ref_snapshotId r)"
proof -
  let ?i = "ref_snapshotId r"
  have "0 < version_refs v ?i"
  proof -
    have "?i \<in> set (ref_ids [v_snapshotIds v])" using assms(4,5) by (auto simp: ref_ids_def)
    then have "count_list (ref_ids [v_snapshotIds v]) ?i \<noteq> 0" by (simp only: count_list_0_iff simp_thms)
    then show ?thesis by (simp add: version_refs_def)
  qed
  moreover have "version_refs v ?i \<le> live_refs st ?i"
    unfolding live_refs_def
    using sum_list_if_ge [of v _ "\<lambda>v. v_policyId v \<in> policy_ids st" "\<lambda>v. version_refs v ?i", OF assms(2,3)] .
  moreover have "live_refs st ?i \<le> ref_count (snapshots_t st) ?i"
    using assms(1) by (simp add: sys_inv_def refs_counted_def)
  ultimately show ?thesis by linarith
qed



end
