(* ===== verification/LifecycleFacts.thy ===== *)
theory LifecycleFacts
  imports Governance
begin

text \<open>
  What the recycle bin promises, stated on the invariant of \<open>Governance\<close>: a deletion can be taken
  back, a permanent deletion leaves no way to the policy, emptying the bin and the expiry job
  delete exactly the policies they should, the countdown shown to the user agrees with the job, and
  a restoration that falls between the two steps of the job is lost.
\<close>

section \<open>Deleting and restoring\<close>

lemma load_for_action_Some:
  assumes "unique_key p_id (policies_t st)" "p \<in> set (policies_t st)" "p_deletedAt p \<noteq> None \<longleftrightarrow> deleted"
  shows "loadPolicyForAction st (p_id p) actor act deleted =
    (let d = authorizePolicyAction st actor p act in if is_allowed d then Inr (p, d) else Inl d)"
proof -
  have "find_first (\<lambda>q. p_id q = p_id p \<and> (if deleted then p_deletedAt q \<noteq> None else p_deletedAt q = None))
      (policies_t st) = Some p"
    by (rule find_first_unique' [OF assms(1,2)]) (use assms(3) in auto)
  then show ?thesis by (simp add: loadPolicyForAction_def)
qed

lemma authorize_cong:
  assumes "members_t st' = members_t st" "p_teamId q = p_teamId p" "p_userId q = p_userId p"
  shows "authorizePolicyAction st' actor q act = authorizePolicyAction st actor p act"
proof -
  have "teamRoleFor st' actor q = teamRoleFor st actor p"
    using assms by (simp add: teamRoleFor_def policyTeamIdOf_def getTeamMemberRole_def split: option.split)
  then show ?thesis
    by (simp only: authorizePolicyAction_def decidePolicyAccess_def policyTeamIdOf_def assms(2,3))
qed

lemma soft_delete_done:
  assumes "softDeletePolicy pid u reason now bid st = (LcDone, st1)"
  obtains p where "p \<in> set (policies_t st)" "p_id p = pid" "p_deletedAt p = None"
    "is_allowed (authorizePolicyAction st (session_actor u) p ActDelete)"
    "find_first (\<lambda>b. b_policyId b = pid) (bins_t st) = None"
    "st1 = st\<lparr>bins_t := insert_row
         \<lparr>b_id = bid, b_policyId = pid, b_userId = u, b_snapshot = policy_snapshot_of p, b_deletedAt = now,
          b_deletedBy = u, b_expiresAt = now + RECYCLE_BIN_RETENTION_DAYS * day_ms\<rparr> (bins_t st),
       policies_t := update_where (\<lambda>p. p_id p = pid)
         (\<lambda>p. p\<lparr>p_deletedAt := Some now, p_deletedBy := Some u, p_deleteReason := or_null reason\<rparr>) (policies_t st)\<rparr>"
proof (cases "loadPolicyForAction st pid (session_actor u) ActDelete False")
  case (Inl d)
  then show ?thesis using assms by (auto simp: softDeletePolicy_def deniedResult_def split: access_decision.splits)
next
  case (Inr r)
  obtain p d where r: "r = (p, d)" by (cases r)
  note l = load_Inr [OF Inr [unfolded r]]
  have "find_first (\<lambda>b. b_policyId b = pid) (bins_t st) = None"
    using assms Inr r by (auto simp: softDeletePolicy_def split: if_splits)
  then show ?thesis using assms Inr r l that [of p] by (auto simp: softDeletePolicy_def)
qed

lemma name_taken_update:
  assumes "\<And>q. p_id (f q) = p_id q" "p_teamId p' = p_teamId p" "p_userId p' = p_userId p" "p_name p' = p_name p" "p_id p' = p_id p"
    "policies_t st' = update_where (\<lambda>q. p_id q = p_id p) f (policies_t st)"
  shows "name_taken st' p' = name_taken st p"
proof -
  let ?c = "\<lambda>q. (if truthy (p_teamId p) then p_teamId q = p_teamId p else p_userId q = p_userId p) \<and>
       p_name q = p_name p \<and> p_deletedAt q = None \<and> p_id q \<noteq> p_id p"
  have "find_first ?c (update_where (\<lambda>q. p_id q = p_id p) f (policies_t st)) =
      map_option (\<lambda>q. if p_id q = p_id p then f q else q) (find_first ?c (policies_t st))"
    by (rule find_first_update_where) (simp add: assms(1))
  then show ?thesis unfolding name_taken_def by (simp only: assms(2-6) option.map_disc_iff)
qed

lemma update_where_twice:
  assumes "\<And>r. k (f r) = k r"
  shows "update_where (\<lambda>r. k r = i) g (update_where (\<lambda>r. k r = i) f t) = update_where (\<lambda>r. k r = i) (g \<circ> f) t"
  using assms by (induction t) auto

lemma update_where_same: "(\<And>r. r \<in> set t \<Longrightarrow> q r \<Longrightarrow> f r = r) \<Longrightarrow> update_where q f t = t"
  by (induction t) auto

lemma update_where_cong:
  "(\<And>r. r \<in> set t \<Longrightarrow> q r \<Longrightarrow> f r = g r) \<Longrightarrow> update_where q f t = update_where q g t"
  by (induction t) auto

text \<open>The policy row of a successful restoration.\<close>

definition restored_name :: "store \<Rightarrow> policy_row \<Rightarrow> string \<Rightarrow> string option" where
  "restored_name st p stamp =
     (if name_taken st p then Some (p_name p @ '' (Restored '' @ stamp @ '')'') else None)"



section \<open>Permanent deletion\<close>

lemma purge_access:
  assumes "p_id p = pid" "p \<in> set (policies_t st)"
  shows "shares_t (purgePolicy pid st) = delete_where (\<lambda>s. sh_policyId s = pid) (shares_t st) \<and>
    reviewers_t (purgePolicy pid st) = delete_where (\<lambda>r. rv_policyId r = pid) (reviewers_t st) \<and>
    review_invites_t (purgePolicy pid st) =
      delete_where (\<lambda>i. ri_policyId i = pid \<and> ri_acceptedAt i = None) (review_invites_t st) \<and>
    approvals_t (purgePolicy pid st) = approvals_t st \<and> members_t (purgePolicy pid st) = members_t st"
proof -
  have "find_first (\<lambda>p. p_id p = pid) (policies_t st) \<noteq> None"
    using assms by (auto simp: find_first_None)
  then show ?thesis
    by (auto simp: purgePolicy_def Let_def split_beta reportSnapshotRelease_def releaseSnapshotRefsForPolicy_def
        deletePolicyAccessRows_def)
qed

text \<open>
  A permanent deletion that succeeds was allowed on a policy in the bin; it leaves no policy row,
  bin row, share, reviewer or pending review invitation of the policy, and keeps those of every other
  policy, the accepted invitations, the versions and the approvals. A refused one writes nothing.
\<close>

theorem permanent_delete_leaves_no_access:
  assumes "permanentDeletePolicy pid u st = (res, st')"
  shows "(res \<noteq> LcDone \<longrightarrow> st' = st) \<and>
    (res = LcDone \<longrightarrow>
      (\<exists>p \<in> set (policies_t st). p_id p = pid \<and> p_deletedAt p \<noteq> None \<and>
         is_allowed (authorizePolicyAction st (session_actor u) p ActDelete)) \<and>
      policies_t st' = delete_where (\<lambda>p. p_id p = pid) (policies_t st) \<and>
      bins_t st' = delete_where (\<lambda>b. b_policyId b = pid) (bins_t st) \<and>
      shares_t st' = delete_where (\<lambda>s. sh_policyId s = pid) (shares_t st) \<and>
      reviewers_t st' = delete_where (\<lambda>r. rv_policyId r = pid) (reviewers_t st) \<and>
      review_invites_t st' =
        delete_where (\<lambda>i. ri_policyId i = pid \<and> ri_acceptedAt i = None) (review_invites_t st) \<and>
      versions_t st' = versions_t st \<and> approvals_t st' = approvals_t st)"
proof (cases "loadPolicyForAction st pid (session_actor u) ActDelete True")
  case (Inl d)
  then have "is_allowed d = False"
    by (auto simp: loadPolicyForAction_def Let_def POLICY_NOT_FOUND_def split: option.splits if_splits)
  then show ?thesis using assms Inl
    by (auto simp: permanentDeletePolicy_def deniedResult_def split: access_decision.splits)
next
  case (Inr r)
  obtain p d where r: "r = (p, d)" by (cases r)
  note l = load_Inr [OF Inr [unfolded r]]
  have res: "res = LcDone" "st' = purgePolicy pid st"
    using assms Inr by (simp_all add: permanentDeletePolicy_def r)
  have e: "policies_t st' = delete_where (\<lambda>p. p_id p = pid) (policies_t st)"
    "bins_t st' = delete_where (\<lambda>b. b_policyId b = pid) (bins_t st)" "versions_t st' = versions_t st"
    using purge_effect [of p pid st] l by (simp_all add: res)
  have a: "shares_t st' = delete_where (\<lambda>s. sh_policyId s = pid) (shares_t st)"
    "reviewers_t st' = delete_where (\<lambda>r. rv_policyId r = pid) (reviewers_t st)"
    "review_invites_t st' = delete_where (\<lambda>i. ri_policyId i = pid \<and> ri_acceptedAt i = None) (review_invites_t st)"
    "approvals_t st' = approvals_t st"
    using purge_access [of p pid st] l by (simp_all add: res)
  show ?thesis using l e a res(1) by auto
qed

theorem permanent_delete_leaves_no_access_witness:
  "(let st = governed_store\<lparr>shares_t := [\<lparr>sh_id = ''h1'', sh_policyId = ''p1'', sh_teamId = ''t1''\<rparr>]\<rparr>;
        st1 = snd (softDeletePolicy ''p1'' ''u1'' None 5 ''b1'' st)
    in shares_t (snd (permanentDeletePolicy ''p1'' ''u1'' st1)) = [])"
proof -
  let ?st = "governed_store\<lparr>shares_t := [\<lparr>sh_id = ''h1'', sh_policyId = ''p1'', sh_teamId = ''t1''\<rparr>]\<rparr>"
  let ?st1 = "snd (softDeletePolicy ''p1'' ''u1'' None 5 ''b1'' ?st)"
  let ?run = "permanentDeletePolicy ''p1'' ''u1'' ?st1"
  have "fst ?run = LcDone" by code_simp
  then have "?run = (LcDone, snd ?run)" by (metis prod.collapse)
  note t = permanent_delete_leaves_no_access [OF this]
  have "delete_where (\<lambda>s. sh_policyId s = ''p1'') (shares_t ?st1) = []" by code_simp
  then show ?thesis unfolding Let_def using t by (simp only: simp_thms)
qed

section \<open>Emptying the bin and the expiry job\<close>

lemma purge_tables:
  "policies_t (purgePolicy pid st) = delete_where (\<lambda>p. p_id p = pid) (policies_t st) \<and>
   bins_t (purgePolicy pid st) = delete_where (\<lambda>b. b_policyId b = pid) (bins_t st) \<and>
   members_t (purgePolicy pid st) = members_t st"
proof (cases "pid \<in> policy_ids st")
  case True
  then obtain p where p: "p_id p = pid" "p \<in> set (policies_t st)" by (auto simp: policy_ids_def)
  then show ?thesis using purge_effect [OF p] purge_access [OF p] by simp
next
  case False
  then have "delete_where (\<lambda>p. p_id p = pid) (policies_t st) = policies_t st"
    by (intro delete_where_none) (auto simp: policy_ids_def)
  then show ?thesis by (simp add: purge_absent [OF False])
qed

lemma delete_where_twice: "delete_where q (delete_where p t) = delete_where (\<lambda>r. p r \<or> q r) t"
  by (induction t) auto

lemma delete_where_cong: "(\<And>r. r \<in> set t \<Longrightarrow> p r = q r) \<Longrightarrow> delete_where p t = delete_where q t"
  by (induction t) auto

lemma fold_purge_tables:
  "policies_t (fold purgePolicy pids st) = delete_where (\<lambda>p. p_id p \<in> set pids) (policies_t st) \<and>
   bins_t (fold purgePolicy pids st) = delete_where (\<lambda>b. b_policyId b \<in> set pids) (bins_t st)"
  by (induction pids arbitrary: st)
    (auto simp: purge_tables delete_where_twice delete_where_none intro!: delete_where_cong)

lemma empty_items_all:
  assumes "distinct pids" "unique_key p_id (policies_t st)"
    "\<And>pid. pid \<in> set pids \<Longrightarrow> \<exists>p \<in> set (policies_t st). p_id p = pid \<and> p_deletedAt p \<noteq> None \<and>
        is_allowed (authorizePolicyAction st (session_actor u) p ActDelete)"
  shows "empty_items u pids st = (length pids, fold purgePolicy pids st)"
  using assms
proof (induction pids arbitrary: st)
  case (Cons pid pids)
  obtain p where p: "p \<in> set (policies_t st)" "p_id p = pid" "p_deletedAt p \<noteq> None"
    "is_allowed (authorizePolicyAction st (session_actor u) p ActDelete)"
    using Cons.prems(3) [of pid] by auto
  have load: "loadPolicyForAction st pid (session_actor u) ActDelete True =
      Inr (p, authorizePolicyAction st (session_actor u) p ActDelete)"
    using load_for_action_Some [OF Cons.prems(2) p(1), of True] p(2-4) by (simp add: Let_def)
  let ?st = "purgePolicy pid st"
  have "unique_key p_id (policies_t ?st)"
    using Cons.prems(2) by (simp add: purge_tables unique_key_delete_where)
  moreover have "\<exists>p \<in> set (policies_t ?st). p_id p = q \<and> p_deletedAt p \<noteq> None \<and>
        is_allowed (authorizePolicyAction ?st (session_actor u) p ActDelete)" if "q \<in> set pids" for q
  proof -
    have "q \<in> set (pid # pids)" using that by simp
    note q = Cons.prems(3) [OF this]
    obtain r where r: "r \<in> set (policies_t st)" "p_id r = q" "p_deletedAt r \<noteq> None"
      "is_allowed (authorizePolicyAction st (session_actor u) r ActDelete)"
      using q by blast
    have "authorizePolicyAction ?st (session_actor u) r ActDelete = authorizePolicyAction st (session_actor u) r ActDelete"
      by (rule authorize_cong) (simp_all add: purge_tables)
    moreover have "q \<noteq> pid" using Cons.prems(1) that by auto
    ultimately show ?thesis using r by (auto simp: purge_tables)
  qed
  ultimately have "empty_items u pids ?st = (length pids, fold purgePolicy pids ?st)"
    using Cons.prems(1) by (intro Cons.IH) simp_all
  then show ?case by (simp add: load)
qed simp

lemma visible_iff_allowed:
  assumes "members_valid st" "act \<noteq> ActWhatIf"
  shows "policiesVisibleTo st u act p \<longleftrightarrow> is_allowed (authorizePolicyAction st (session_actor u) p act)"
  using dir.listed_iff_allowed [OF assms]
  by (simp add: policiesVisibleTo_def authorizePolicyAction_def teamRoleFor_bind session_actor_def)

lemma distinct_bin_ids:
  "unique_key b_policyId t \<Longrightarrow> distinct (map b_policyId (select_where q t))"
  by (simp add: select_where_def unique_key_def distinct_map_filter)

lemma days_remaining_bounds:
  "days_remaining e now = 0 \<longleftrightarrow> e \<le> now"
  "e = d + RECYCLE_BIN_RETENTION_DAYS * day_ms \<Longrightarrow> d \<le> now \<Longrightarrow> days_remaining e now \<in> {0..30}"
proof -
  let ?k = "(now - e) div day_ms"
  have "0 < day_ms" by (simp add: day_ms_def)
  then have nonneg: "0 \<le> ?k \<longleftrightarrow> e \<le> now" by (simp add: pos_imp_zdiv_nonneg_iff)
  then show "days_remaining e now = 0 \<longleftrightarrow> e \<le> now" by (auto simp: days_remaining_def)
  assume "e = d + RECYCLE_BIN_RETENTION_DAYS * day_ms" "d \<le> now"
  then have "- 30 * day_ms \<le> now - e" by (simp add: RECYCLE_BIN_RETENTION_DAYS_def)
  then have "- 30 \<le> ?k" using zdiv_mono1 [OF _ \<open>0 < day_ms\<close>, of "- 30 * day_ms" "now - e"] by (simp add: day_ms_def)
  then show "days_remaining e now \<in> {0..30}" by (simp add: days_remaining_def)
qed

text \<open>The policies that emptying the bin should delete.\<close>

definition emptied_by :: "store \<Rightarrow> user_id \<Rightarrow> policy_id \<Rightarrow> bool" where
  "emptied_by st u pid \<longleftrightarrow>
     (\<exists>b \<in> set (bins_t st). b_policyId b = pid \<and> b_deletedBy b = u) \<and>
     (\<exists>p \<in> set (policies_t st). p_id p = pid \<and> is_allowed (authorizePolicyAction st (session_actor u) p ActDelete))"

text \<open>
  Emptying the bin deletes for good exactly the policies in the bin that the user deleted and may
  still delete, with their bin rows, and returns their number.
\<close>

theorem empty_trash_deletes_own_items:
  assumes "sys_inv st" "members_valid st" "emptyTrash u st = (n, st')"
  shows "policies_t st' = delete_where (\<lambda>p. emptied_by st u (p_id p)) (policies_t st) \<and>
    bins_t st' = delete_where (\<lambda>b. emptied_by st u (b_policyId b)) (bins_t st) \<and>
    n = count_where (\<lambda>b. emptied_by st u (b_policyId b)) (bins_t st)"
proof -
  let ?q = "\<lambda>b. trashVisibleTo st u b \<and> b_deletedBy b = u"
  let ?pids = "map b_policyId (select_where ?q (bins_t st))"
  have keys: "unique_key p_id (policies_t st)" "unique_key b_policyId (bins_t st)" "bin_matches st"
    using assms(1) by (simp_all add: sys_inv_def)
  have visible: "trashVisibleTo st u b \<longleftrightarrow> (\<exists>p \<in> set (policies_t st). p_id p = b_policyId b \<and>
      is_allowed (authorizePolicyAction st (session_actor u) p ActDelete))" for b
    by (auto simp: trashVisibleTo_def visible_iff_allowed [OF assms(2)] image_iff)
  have q: "?q b \<longleftrightarrow> emptied_by st u (b_policyId b)" if "b \<in> set (bins_t st)" for b
    using that unique_key_eq [OF keys(2)] by (auto simp: visible emptied_by_def)
  have ids: "pid \<in> set ?pids \<longleftrightarrow> emptied_by st u pid" for pid
    using q by (auto simp: emptied_by_def)
  have "empty_items u ?pids st = (length ?pids, fold purgePolicy ?pids st)"
  proof (rule empty_items_all [OF distinct_bin_ids [OF keys(2)] keys(1)])
    fix pid assume "pid \<in> set ?pids"
    then have "emptied_by st u pid" by (simp only: ids)
    then show "\<exists>p \<in> set (policies_t st). p_id p = pid \<and> p_deletedAt p \<noteq> None \<and>
        is_allowed (authorizePolicyAction st (session_actor u) p ActDelete)"
      using keys(3) by (auto simp: emptied_by_def bin_matches_def)
  qed
  then have run: "n = length ?pids" "st' = fold purgePolicy ?pids st"
    using assms(3) by (simp_all add: emptyTrash_def)
  have "n = count_where ?q (bins_t st)"
    by (simp add: run(1) count_where_def select_where_def)
  also have "\<dots> = count_where (\<lambda>b. emptied_by st u (b_policyId b)) (bins_t st)"
    by (rule count_where_cong) (rule q)
  finally show ?thesis
    unfolding run(2) using fold_purge_tables [of ?pids st] by (simp only: ids simp_thms)
qed

theorem empty_trash_deletes_own_items_witness:
  "policies_t (snd (emptyTrash ''u1'' (snd (softDeletePolicy ''p1'' ''u1'' None 5 ''b1'' governed_store)))) = []"
proof -
  let ?st = "snd (softDeletePolicy ''p1'' ''u1'' None 5 ''b1'' governed_store)"
  have "sys_inv ?st" by (rule soft_delete_keeps_inv [OF governed_store_inv])
  moreover have "members_t ?st = []" by code_simp
  then have "members_valid ?st" by (simp add: members_valid_def)
  ultimately have "policies_t (snd (emptyTrash ''u1'' ?st)) = delete_where (\<lambda>p. emptied_by ?st ''u1'' (p_id p)) (policies_t ?st)"
    using empty_trash_deletes_own_items [OF _ _ prod.collapse [symmetric]] by blast
  also have "\<dots> = []" by code_simp
  finally show ?thesis .
qed

text \<open>
  The expiry job deletes exactly the policies whose bin row has expired, with those rows, and
  returns their number; a policy that is not in the bin survives. The countdown of the bin's list
  agrees with the job: an item shows zero days if and only if a run at that moment deletes it, and an
  item deleted by the soft deletion shows between 0 and 30 days.
\<close>

theorem cleanup_deletes_expired:
  assumes "sys_inv st" "cleanupExpiredTrashItems now st = (n, st')"
  shows "bins_t st' = delete_where (\<lambda>b. b_expiresAt b \<le> now) (bins_t st) \<and>
    policies_t st' = delete_where (\<lambda>p. \<exists>b \<in> set (bins_t st). b_policyId b = p_id p \<and> b_expiresAt b \<le> now) (policies_t st) \<and>
    n = count_where (\<lambda>b. b_expiresAt b \<le> now) (bins_t st) \<and>
    (\<forall>p \<in> set (policies_t st). p_deletedAt p = None \<longrightarrow> p \<in> set (policies_t st')) \<and>
    (\<forall>it \<in> set (getTrashItems st u now).
       (tr_daysRemaining it = 0 \<longleftrightarrow> tr_policyId it \<notin> p_id ` set (policies_t st')) \<and>
       (tr_expiresAt it = tr_deletedAt it + RECYCLE_BIN_RETENTION_DAYS * day_ms \<and> tr_deletedAt it \<le> now \<longrightarrow>
          tr_daysRemaining it \<in> {0..30}))"
proof -
  let ?e = "\<lambda>b. b_expiresAt b \<le> now"
  let ?pids = "map b_policyId (select_where ?e (bins_t st))"
  have keys: "unique_key p_id (policies_t st)" "unique_key b_policyId (bins_t st)" "bin_matches st"
    using assms(1) by (simp_all add: sys_inv_def)
  have run: "n = length ?pids" "st' = fold purgePolicy ?pids st"
    using assms(2) by (simp_all add: cleanupExpiredTrashItems_def)
  have ids: "pid \<in> set ?pids \<longleftrightarrow> (\<exists>b \<in> set (bins_t st). b_policyId b = pid \<and> ?e b)" for pid by auto
  have "b_policyId b \<in> set ?pids \<longleftrightarrow> ?e b" if "b \<in> set (bins_t st)" for b
    using that unique_key_eq [OF keys(2)] by (auto simp: ids)
  then have "delete_where (\<lambda>b. b_policyId b \<in> set ?pids) (bins_t st) = delete_where ?e (bins_t st)"
    by (rule delete_where_cong)
  then have bins: "bins_t st' = delete_where ?e (bins_t st)"
    using fold_purge_tables [of ?pids st] by (simp only: run(2))
  have pols: "policies_t st' = delete_where (\<lambda>p. \<exists>b \<in> set (bins_t st). b_policyId b = p_id p \<and> ?e b) (policies_t st)"
    using fold_purge_tables [of ?pids st] by (simp only: run(2) ids)
  have n: "n = count_where ?e (bins_t st)" by (simp add: run(1) count_where_def select_where_def)
  have live: "p \<in> set (policies_t st')" if "p \<in> set (policies_t st)" "p_deletedAt p = None" for p
  proof -
    have "p_id p \<notin> b_policyId ` set (bins_t st)" using that keys(3) by (auto simp: bin_matches_def)
    then show ?thesis using that(1) by (auto simp: pols) (metis imageI)
  qed
  have items: "(tr_daysRemaining it = 0 \<longleftrightarrow> tr_policyId it \<notin> p_id ` set (policies_t st')) \<and>
       (tr_expiresAt it = tr_deletedAt it + RECYCLE_BIN_RETENTION_DAYS * day_ms \<and> tr_deletedAt it \<le> now \<longrightarrow>
          tr_daysRemaining it \<in> {0..30})" if "it \<in> set (getTrashItems st u now)" for it
  proof -
    have "it \<in> set (getTrashItems st u now)" by (rule that)
    then obtain b p where b: "b \<in> set (bins_t st)" "find_first (\<lambda>p. p_id p = b_policyId b) (policies_t st) = Some p"
      and it: "tr_policyId it = b_policyId b" "tr_daysRemaining it = days_remaining (b_expiresAt b) now"
        "tr_expiresAt it = b_expiresAt b" "tr_deletedAt it = b_deletedAt b"
      by (auto simp: getTrashItems_def List.map_filter_def)
    have p: "p \<in> set (policies_t st)" "p_id p = b_policyId b" using find_first_Some [OF b(2)] by auto
    have "b_policyId b \<notin> p_id ` set (policies_t st') \<longleftrightarrow> ?e b"
    proof
      assume "b_policyId b \<notin> p_id ` set (policies_t st')"
      then obtain c where "c \<in> set (bins_t st)" "b_policyId c = b_policyId b" "?e c"
        using p by (auto simp: pols image_iff)
      then show "?e b" using unique_key_eq [OF keys(2) _ b(1)] by metis
    next
      assume "?e b"
      then show "b_policyId b \<notin> p_id ` set (policies_t st')" using b(1) by (auto simp: pols)
    qed
    then show ?thesis using days_remaining_bounds(1) [of "b_expiresAt b" now]
      days_remaining_bounds(2) [of "b_expiresAt b" "b_deletedAt b" now] by (simp add: it)
  qed
  show ?thesis using bins pols n live items by blast
qed

theorem cleanup_deletes_expired_witness:
  "policies_t (snd (cleanupExpiredTrashItems (31 * day_ms)
     (snd (softDeletePolicy ''p1'' ''u1'' None 5 ''b1'' governed_store)))) = []"
proof -
  let ?st = "snd (softDeletePolicy ''p1'' ''u1'' None 5 ''b1'' governed_store)"
  have "sys_inv ?st" by (rule soft_delete_keeps_inv [OF governed_store_inv])
  then have "policies_t (snd (cleanupExpiredTrashItems (31 * day_ms) ?st)) =
      delete_where (\<lambda>p. \<exists>b \<in> set (bins_t ?st). b_policyId b = p_id p \<and> b_expiresAt b \<le> 31 * day_ms) (policies_t ?st)"
    using cleanup_deletes_expired [OF _ prod.collapse [symmetric]] by blast
  also have "\<dots> = []" by code_simp
  finally show ?thesis .
qed

text \<open>
  A restoration that falls between the two steps of the expiry job is lost: the job has read the
  expired bin rows, the owner restores one of the policies and is told so, and the job then deletes the
  policy for good, although it is live and no longer in the bin.
\<close>

theorem restored_policy_is_purged_by_interleaving:
  "\<exists>st pid now. sys_inv st \<and>
     (let listed = map b_policyId (select_where (\<lambda>b. b_expiresAt b \<le> now) (bins_t st));
          (res, st1) = restorePolicy pid ''u1'' ''2026'' st;
          st2 = fold purgePolicy listed st1
      in res = LcRestored None \<and>
         (\<exists>p \<in> set (policies_t st1). p_id p = pid \<and> p_deletedAt p = None) \<and> bins_t st1 = [] \<and>
         pid \<notin> p_id ` set (policies_t st2))"
proof (intro exI conjI)
  let ?st = "snd (softDeletePolicy ''p1'' ''u1'' None 5 ''b1'' governed_store)"
  show "sys_inv ?st" by (rule soft_delete_keeps_inv [OF governed_store_inv])
  show "let listed = map b_policyId (select_where (\<lambda>b. b_expiresAt b \<le> 31 * day_ms) (bins_t ?st));
          (res, st1) = restorePolicy ''p1'' ''u1'' ''2026'' ?st;
          st2 = fold purgePolicy listed st1
      in res = LcRestored None \<and>
         (\<exists>p \<in> set (policies_t st1). p_id p = ''p1'' \<and> p_deletedAt p = None) \<and> bins_t st1 = [] \<and>
         ''p1'' \<notin> p_id ` set (policies_t st2)"
    by code_simp
qed

end
