(* ===== verification/ResolverMigration.thy ===== *)
theory ResolverMigration
  imports VersionManager
begin

text \<open>
  The migration of stored versions to a new resolver (\<open>src/src/services/policy/resolver-migration.ts\<close>,
  with the vocabulary source of \<open>lib/execution-input/index.ts\<close>, \<open>lib/policy-tenant.ts\<close> and the error
  reading of \<open>lib/vocabulary-scope-error.ts\<close>): the batch walk over pending rows, the locked migration
  of one row, the two ways to write its outcome, the rewriting of the hash chain behind a row whose
  link changed, and the report. The compile service, the vocabulary engine, the JSON parser and the
  Unicode pattern of the triage are fields of the environment.
\<close>

section \<open>Results\<close>

definition RESOLVER_MIGRATION_BATCH_SIZE :: nat where
  "RESOLVER_MIGRATION_BATCH_SIZE = 50"

definition INTEGRITY_MISMATCH_ERROR :: string where
  "INTEGRITY_MISMATCH_ERROR = ''pre-migration integrity mismatch''"

definition MAX_ERROR_LENGTH :: nat where
  "MAX_ERROR_LENGTH = 4000"

text \<open>The longest prefix of at most \<open>n\<close> UTF-16 units that splits no character.\<close>

fun js_prefix :: "nat \<Rightarrow> string \<Rightarrow> string" where
  "js_prefix n [] = []"
| "js_prefix n (c # cs) = (if utf16_units c \<le> n then c # js_prefix (n - utf16_units c) cs else [])"

definition truncateMigrationError :: "string option \<Rightarrow> string" where
  "truncateMigrationError error =
     (let safe = (case error of None \<Rightarrow> ''unknown error'' | Some e \<Rightarrow> if js_trim e = [] then ''unknown error'' else e) in
      if js_length safe \<le> MAX_ERROR_LENGTH then safe else js_prefix MAX_ERROR_LENGTH safe)"

definition CONSTRUCT_PARSE_CODES :: "string list" where
  "CONSTRUCT_PARSE_CODES = [''E057'', ''E064'', ''P005'']"

definition isConstructParseError :: "compile_diagnostic \<Rightarrow> bool" where
  "isConstructParseError d \<longleftrightarrow> (case d_code d of None \<Rightarrow> False | Some c \<Rightarrow> c \<in> set CONSTRUCT_PARSE_CODES)"

datatype failure_category = CompileFailure | VocabularyFailure | IntegrityFailure | InfrastructureFailure

record row_location =
  rl_id :: row_id
  rl_policyId :: "policy_id option"
  rl_version :: "nat option"
  rl_ownerId :: "user_id option"

text \<open>An absent \<open>invalidConstructForm\<close> reads as false.\<close>

record migration_failure = row_location +
  mf_category :: failure_category
  mf_error :: string
  mf_codes :: "string list"
  mf_invalidConstructForm :: bool
  mf_reason :: "string option"
  mf_term :: "string option"
  mf_kind :: "string option"

datatype row_result = Succeeded row_id | Skipped row_id | Failed migration_failure

fun result_id :: "row_result \<Rightarrow> row_id" where
  "result_id (Succeeded i) = i"
| "result_id (Skipped i) = i"
| "result_id (Failed f) = rl_id f"

definition failure_at ::
  "row_location \<Rightarrow> failure_category \<Rightarrow> string \<Rightarrow> string list \<Rightarrow> bool \<Rightarrow> string option \<Rightarrow> string option \<Rightarrow> string option \<Rightarrow>
   migration_failure" where
  "failure_at loc cat err codes form reason term kind =
     row_location.extend loc
       \<lparr>mf_category = cat, mf_error = err, mf_codes = codes, mf_invalidConstructForm = form,
        mf_reason = reason, mf_term = term, mf_kind = kind\<rparr>"

section \<open>The environment\<close>

datatype scopes_outcome =
    ScopesJson string
  | ScopesInvalid "string option" string
  | ScopesThrow string

datatype compile_outcome =
    Compiled "compile_diagnostic list"
  | CompileRejected string "compile_diagnostic list"
  | CompileThrows string

record migration_env =
  mg_sha :: "string \<Rightarrow> string"
  mg_ids :: engine_ids
  mg_detect :: "string \<Rightarrow> string"
  mg_nfc :: "string \<Rightarrow> string"
  mg_uses :: uses_fn
  mg_loadFault :: "row_id \<Rightarrow> string option"
  mg_scopes :: "vocabulary option \<Rightarrow> scopes_outcome"
  mg_parseAliases :: "string \<Rightarrow> alias_set option"
  mg_compile :: "user_id \<Rightarrow> vocabulary option \<Rightarrow> string \<Rightarrow> string \<Rightarrow> string \<Rightarrow> alias_set option \<Rightarrow> compile_outcome"
  mg_constructForm :: "string \<Rightarrow> bool"

definition RESOLVER_MIGRATION_REQUIRED_ENV :: "string list" where
  "RESOLVER_MIGRATION_REQUIRED_ENV = [''ASTER_POLICY_API_INTERNAL_URL'', ''ASTER_PLAN_GATE_HMAC_KEY'']"

definition missingResolverMigrationEnv :: "(string \<Rightarrow> string option) \<Rightarrow> string list" where
  "missingResolverMigrationEnv env =
     filter (\<lambda>name. \<not> truthy (map_option js_trim (env name))) RESOLVER_MIGRATION_REQUIRED_ENV"

section \<open>Helpers of other modules\<close>

definition COMPILE_INTERNAL_ERROR_CODE :: string where
  "COMPILE_INTERNAL_ERROR_CODE = ''COMPILE_INTERNAL_ERROR''"

definition hasSourceError :: "compile_diagnostic list \<Rightarrow> bool" where
  "hasSourceError diagnostics \<longleftrightarrow>
     list_ex (\<lambda>d. d_severity d = SevError \<and> d_code d \<noteq> Some COMPILE_INTERNAL_ERROR_CODE) diagnostics"

datatype vocabulary_source = FrozenVocabulary | LiveVocabulary

definition executionVocabularySource :: "version_status option \<Rightarrow> vocabulary_source" where
  "executionVocabularySource stat =
     (if stat \<in> {Some APPROVED, Some DEPRECATED} then FrozenVocabulary else LiveVocabulary)"

definition policyTenantId :: "policy_row \<Rightarrow> string" where
  "policyTenantId policy = (case or_null (p_teamId policy) of Some t \<Rightarrow> t | None \<Rightarrow> p_userId policy)"

definition SCOPE_ERROR_KIND :: "(string \<times> string) list" where
  "SCOPE_ERROR_KIND =
     [(''field_parent_required'', ''field''), (''member_parent_required'', ''enum_value''),
      (''literal_conflict'', ''literal'')]"

text \<open>The content of the first pair of quotes.\<close>

definition quote_char :: char where "quote_char = CHR 0x22"

definition first_quoted :: "string \<Rightarrow> string option" where
  "first_quoted s =
     (case dropWhile (\<lambda>c. c \<noteq> quote_char) s of
        [] \<Rightarrow> None
      | _ # r \<Rightarrow> if quote_char \<in> set r then Some (takeWhile (\<lambda>c. c \<noteq> quote_char) r) else None)"

definition scope_error_kind :: "string option \<Rightarrow> string option" where
  "scope_error_kind reason = Option.bind (or_null reason) (map_of SCOPE_ERROR_KIND)"

section \<open>Recompiling one row\<close>

definition sealIntact :: "migration_env \<Rightarrow> version_row \<Rightarrow> bool" where
  "sealIntact env row \<longleftrightarrow>
     (if \<not> truthy (v_sourceEnvelope row)
      then v_sourceHash row = Some (computeChainedHash (mg_sha env) (version_source row) (v_prevHash row))
      else truthy (v_toolchainId row) \<and> recordedCompileLocale (mg_sha env) row \<noteq> None)"

definition loadVersionVocabulary :: "migration_env \<Rightarrow> store \<Rightarrow> version_row \<Rightarrow> policy_context \<Rightarrow> string + vocabulary option" where
  "loadVersionVocabulary env st row policy =
     (let stat = (if v_archivedByMigration row then nullish (v_statusBeforeArchive row) (v_status row) else v_status row) in
      case mg_loadFault env (v_id row) of
        Some err \<Rightarrow> Inl err
      | None \<Rightarrow>
          Inr (if executionVocabularySource (Some stat) = FrozenVocabulary
               then loadVocabularyForExecution (mg_uses env) st (v_snapshotIds row) policy
               else (case or_null (v_createdBy row) of
                       None \<Rightarrow> None
                     | Some author \<Rightarrow>
                         loadLiveVocabularyForPolicy (mg_nfc env) (mg_uses env) st (Some author) policy None
                           (Some (v_policyId row)))))"

fun join_with :: "string \<Rightarrow> string list \<Rightarrow> string" where
  "join_with sep [] = []"
| "join_with sep [s] = s"
| "join_with sep (s # t # ss) = s @ sep @ join_with sep (t # ss)"

definition diagnostic_code :: "compile_diagnostic \<Rightarrow> string" where
  "diagnostic_code d = nullish (d_code d) ''compile_error''"

definition compileFailure ::
  "migration_env \<Rightarrow> row_location \<Rightarrow> compile_diagnostic list \<Rightarrow> string \<Rightarrow> string option \<Rightarrow> migration_failure" where
  "compileFailure env loc errors source fallback =
     (let codes = dedup (map diagnostic_code errors);
          message = join_with ''; '' (map (\<lambda>d. diagnostic_code d @ '': '' @ nullish (d_message d) []) errors);
          error = truncateMigrationError
            (case or_null (Some message) of Some m \<Rightarrow> Some m | None \<Rightarrow>
               (case or_null fallback of Some f \<Rightarrow> Some f | None \<Rightarrow> Some ''compile failed''));
          form = (list_ex isConstructParseError errors \<and> mg_constructForm env source)
      in failure_at loc CompileFailure error codes form None None None)"

text \<open>\<open>Inl\<close> is an error that aborts the transaction; inside, \<open>Inl\<close> is a failure of the row.\<close>

definition recompile ::
  "migration_env \<Rightarrow> store \<Rightarrow> row_location \<Rightarrow> version_row \<Rightarrow> policy_row option \<Rightarrow> string \<Rightarrow>
   string + (migration_failure + string)" where
  "recompile env st loc row owner locale =
     (let source = version_source row in
      case loadVersionVocabulary env st row \<lparr>pc_source = source, pc_locale = locale\<rparr> of
        Inl err \<Rightarrow> Inl err
      | Inr vocabulary \<Rightarrow>
     (case mg_scopes env vocabulary of
        ScopesThrow err \<Rightarrow> Inl err
      | ScopesInvalid reason message \<Rightarrow>
          Inr (Inl (failure_at loc VocabularyFailure
            (truncateMigrationError (Some (''vocabulary_scope_invalid: '' @ nullish reason ''unknown'' @ '': '' @ message)))
            [] False reason (first_quoted message) (scope_error_kind reason)))
      | ScopesJson scopesJson \<Rightarrow>
          let userId = (case v_createdBy row of Some u \<Rightarrow> u | None \<Rightarrow> (case owner of Some p \<Rightarrow> p_userId p | None \<Rightarrow> ''resolver-migration''));
              tenant = (case owner of Some p \<Rightarrow> policyTenantId p | None \<Rightarrow> userId)
          in case (case or_null (v_aliasSet row) of
                     None \<Rightarrow> Inr None
                   | Some text \<Rightarrow> (case mg_parseAliases env text of None \<Rightarrow> Inl () | Some a \<Rightarrow> Inr (Some a))) of
               Inl _ \<Rightarrow> Inl ''SyntaxError''
             | Inr aliasSet \<Rightarrow>
          (case mg_compile env userId vocabulary tenant source locale aliasSet of
             CompileThrows err \<Rightarrow> Inl err
           | CompileRejected message diagnostics \<Rightarrow>
               if hasSourceError diagnostics
               then Inr (Inl (compileFailure env loc diagnostics source (Some message)))
               else Inl (''PolicyCompileError: '' @ message)
           | Compiled diagnostics \<Rightarrow>
               (let errors = filter (\<lambda>d. d_severity d = SevError) diagnostics in
                if errors = [] then Inr (Inr scopesJson)
                else Inr (Inl (compileFailure env loc errors source None))))))"

section \<open>Rewriting the chain\<close>

record link_change =
  lc_version :: nat
  lc_oldLink :: "string option"
  lc_newLink :: "string option"

definition successor :: "store \<Rightarrow> policy_id \<Rightarrow> nat \<Rightarrow> version_row option" where
  "successor st policyId version =
     (case sort_key v_version (select_where (\<lambda>v. v_policyId v = policyId \<and> version < v_version v) (versions_t st)) of
        [] \<Rightarrow> None
      | v # _ \<Rightarrow> Some v)"

definition relinkSuccessor ::
  "(string \<Rightarrow> string) \<Rightarrow> policy_id \<Rightarrow> link_change \<Rightarrow> store \<Rightarrow> link_change option \<times> store" where
  "relinkSuccessor sha policyId change st =
     (case successor st policyId (lc_version change) of
        None \<Rightarrow> (None, st)
      | Some row \<Rightarrow>
          if v_prevHash row \<noteq> lc_oldLink change then (None, st)
          else
            let source = version_source row;
                selfConsistent = (v_sourceHash row = Some (computeChainedHash sha source (lc_oldLink change)));
                sourceHash = (if selfConsistent then Some (computeChainedHash sha source (lc_newLink change)) else v_sourceHash row);
                st1 = set_version (v_id row) (\<lambda>v. v\<lparr>v_prevHash := lc_newLink change, v_sourceHash := sourceHash\<rparr>) st
            in if truthy (v_sourceEnvelope row) then (None, st1)
               else (Some \<lparr>lc_version = v_version row, lc_oldLink = v_sourceHash row, lc_newLink = sourceHash\<rparr>, st1))"

definition rows_after :: "policy_id \<Rightarrow> nat \<Rightarrow> store \<Rightarrow> nat" where
  "rows_after policyId version st = count_where (\<lambda>v. v_policyId v = policyId \<and> version < v_version v) (versions_t st)"

lemma successor_Some:
  assumes "successor st pid n = Some row"
  shows "row \<in> set (versions_t st)" "v_policyId row = pid" "n < v_version row"
    "\<And>v. v \<in> set (versions_t st) \<Longrightarrow> v_policyId v = pid \<Longrightarrow> n < v_version v \<Longrightarrow> v_version row \<le> v_version v"
proof -
  let ?vs = "select_where (\<lambda>v. v_policyId v = pid \<and> n < v_version v) (versions_t st)"
  obtain rest where s: "sort_key v_version ?vs = row # rest"
    using assms by (auto simp: successor_def split: list.splits)
  then have "row \<in> set ?vs" by (metis list.set_intros(1) set_sort)
  then show "row \<in> set (versions_t st)" "v_policyId row = pid" "n < v_version row" by auto
  fix v assume "v \<in> set (versions_t st)" "v_policyId v = pid" "n < v_version v"
  then have "v \<in> set (row # rest)" using s by (metis (mono_tags, lifting) mem_Collect_eq set_select_where set_sort)
  moreover have "sorted (map v_version (row # rest))" using s by (metis sorted_sort_key)
  ultimately show "v_version row \<le> v_version v" by auto
qed

lemma count_where_less:
  assumes "\<And>r. r \<in> set t \<Longrightarrow> p r \<Longrightarrow> q r" "r \<in> set t" "q r" "\<not> p r"
  shows "count_where p t < count_where q t"
proof -
  have "count_where p t \<le> count_where q t" if "\<And>r. r \<in> set t \<Longrightarrow> p r \<Longrightarrow> q r" for t
    using that by (induction t) auto
  then show ?thesis using assms
  proof (induction t)
    case (Cons a t)
    have le: "count_where p t \<le> count_where q t" by (rule Cons.prems(1)) (use Cons.prems(2) in simp)
    show ?case
    proof (cases "a = r")
      case True
      then show ?thesis using le Cons.prems(4,5) by simp
    next
      case False
      then have "count_where p t < count_where q t"
        using Cons.prems by (intro Cons.IH) simp_all
      then show ?thesis using Cons.prems(2) [of a] by simp
    qed
  qed simp
qed

lemma relinkSuccessor_measure:
  assumes "relinkSuccessor sha pid ch st = (Some ch', st')"
  shows "rows_after pid (lc_version ch') st' < rows_after pid (lc_version ch) st"
proof -
  obtain row where row: "successor st pid (lc_version ch) = Some row" "lc_version ch' = v_version row"
    and st': "\<exists>f. st' = set_version (v_id row) f st \<and> (\<forall>v. v_policyId (f v) = v_policyId v \<and> v_version (f v) = v_version v)"
    using assms by (fastforce simp: relinkSuccessor_def Let_def split: option.splits if_splits)
  obtain f where f: "st' = set_version (v_id row) f st" "\<And>v. v_policyId (f v) = v_policyId v" "\<And>v. v_version (f v) = v_version v"
    using st' by blast
  have "rows_after pid k st' = rows_after pid k st" for k
    unfolding rows_after_def f(1) set_version_def by (simp, rule count_where_update_where) (simp add: f(2,3))
  then show ?thesis
    unfolding row(2) rows_after_def using successor_Some [OF row(1)]
    by (auto simp: rows_after_def intro!: count_where_less [of _ _ _ row])
qed

function relink_from :: "(string \<Rightarrow> string) \<Rightarrow> policy_id \<Rightarrow> link_change \<Rightarrow> store \<Rightarrow> store" where
  "relink_from sha policyId change st =
     (if lc_oldLink change = lc_newLink change then st
      else case relinkSuccessor sha policyId change st of
             (None, st1) \<Rightarrow> st1
           | (Some change1, st1) \<Rightarrow> relink_from sha policyId change1 st1)"
  by pat_completeness auto
termination
  by (relation "measure (\<lambda>(sha, pid, ch, st). rows_after pid (lc_version ch) st)")
    (auto dest: relinkSuccessor_measure [OF sym])

declare relink_from.simps [simp del]

definition relinkSuccessors :: "(string \<Rightarrow> string) \<Rightarrow> version_row \<Rightarrow> string \<Rightarrow> store \<Rightarrow> store" where
  "relinkSuccessors sha row newLink st =
     relink_from sha (v_policyId row)
       \<lparr>lc_version = v_version row, lc_oldLink = chainLink row, lc_newLink = Some newLink\<rparr> st"

section \<open>Writing the outcome of a row\<close>

definition writeSuccess :: "migration_env \<Rightarrow> version_row \<Rightarrow> string \<Rightarrow> string \<Rightarrow> store \<Rightarrow> store" where
  "writeSuccess env row locale scopesJson st =
     (let toolchain = cloudToolchainId (mg_ids env);
          envelope = computeSourceEnvelope (mg_sha env) (Some (version_source row)) (v_aliasSet row) (Some locale)
            (Some toolchain) (Some scopesJson);
          restore = (\<lambda>v. if v_archivedByMigration row
            then v\<lparr>v_status := nullish (v_statusBeforeArchive row) (v_status row), v_statusBeforeArchive := None\<rparr> else v);
          st1 = set_version (v_id row) (\<lambda>v. restore (v\<lparr>v_sourceEnvelope := Some envelope, v_toolchainId := Some toolchain,
            v_scopesJson := Some scopesJson, v_resolverVersion := Some (e_resolver (mg_ids env)),
            v_migrationError := None, v_archivedByMigration := False\<rparr>)) st
      in relinkSuccessors (mg_sha env) row envelope st1)"

definition writeFailure :: "version_row \<Rightarrow> string \<Rightarrow> store \<Rightarrow> store" where
  "writeFailure row error st =
     set_version (v_id row) (\<lambda>v.
       let v1 = v\<lparr>v_migrationError := Some error\<rparr> in
       if v_status row = ARCHIVED then v1
       else v1\<lparr>v_status := ARCHIVED, v_statusBeforeArchive := Some (v_status row), v_archivedByMigration := True\<rparr>) st"

definition ownerOf :: "store \<Rightarrow> policy_id \<Rightarrow> policy_row option" where
  "ownerOf st policyId = find_first (\<lambda>p. p_id p = policyId) (policies_t st)"

definition located :: "version_row \<Rightarrow> policy_row option \<Rightarrow> row_location" where
  "located row owner =
     \<lparr>rl_id = v_id row, rl_policyId = Some (v_policyId row), rl_version = Some (v_version row),
      rl_ownerId = (case v_createdBy row of Some u \<Rightarrow> Some u | None \<Rightarrow> map_option p_userId owner)\<rparr>"

text \<open>
  The transaction of one row: \<open>Inl\<close> is an error that rolls it back, with what was known about the
  row; otherwise the result, the policy whose cache is stale and the new store.
\<close>

definition migrateLocked ::
  "migration_env \<Rightarrow> row_id \<Rightarrow> store \<Rightarrow> (row_location \<times> string) + (row_result \<times> policy_id option) \<times> store" where
  "migrateLocked env versionId st =
     (case find_first (\<lambda>v. v_id v = versionId) (versions_t st) of
        None \<Rightarrow> Inr ((Skipped versionId, None), st)
      | Some row \<Rightarrow>
          if v_resolverVersion row = Some (e_resolver (mg_ids env)) then Inr ((Skipped versionId, None), st)
          else
            let owner = ownerOf st (v_policyId row); loc = located row owner in
            if \<not> sealIntact env row
            then Inr ((Failed (failure_at loc IntegrityFailure INTEGRITY_MISMATCH_ERROR [] False None None None), None),
                      set_version versionId (\<lambda>v. v\<lparr>v_migrationError := Some INTEGRITY_MISMATCH_ERROR\<rparr>) st)
            else
              let locale = resolveStoredVersionLocale (mg_sha env) (mg_detect env) row in
              case recompile env st loc row owner locale of
                Inl err \<Rightarrow> Inl (loc, err)
              | Inr (Inl failure) \<Rightarrow>
                  Inr ((Failed failure, Some (v_policyId row)), writeFailure row (mf_error failure) st)
              | Inr (Inr scopesJson) \<Rightarrow>
                  Inr ((Succeeded versionId, Some (v_policyId row)), writeSuccess env row locale scopesJson st))"

definition invalidateCache :: "policy_id \<Rightarrow> store \<Rightarrow> store" where
  "invalidateCache policyId st = emit (InvalidatePolicyCache policyId) st"

definition migrateVersion :: "migration_env \<Rightarrow> row_id \<Rightarrow> store \<Rightarrow> row_result \<times> store" where
  "migrateVersion env versionId st =
     (case migrateLocked env versionId st of
        Inl (loc, err) \<Rightarrow>
          (Failed (failure_at loc InfrastructureFailure (truncateMigrationError (Some err)) [] False None None None), st)
      | Inr ((result, stale), st1) \<Rightarrow>
          (result, case or_null stale of None \<Rightarrow> st1 | Some pid \<Rightarrow> invalidateCache pid st1))"

section \<open>The walk\<close>

definition pending_row :: "int \<Rightarrow> string option \<Rightarrow> version_row \<Rightarrow> bool" where
  "pending_row resolver prefix v \<longleftrightarrow>
     v_resolverVersion v \<noteq> Some resolver \<and>
     (case or_null prefix of None \<Rightarrow> True | Some p \<Rightarrow> take (length p) (v_policyId v) = p)"

definition pendingBatch :: "migration_env \<Rightarrow> store \<Rightarrow> row_id \<Rightarrow> nat \<Rightarrow> string option \<Rightarrow> row_id list" where
  "pendingBatch env st cursor batchSize prefix =
     take batchSize (sort (map v_id (select_where
       (\<lambda>v. pending_row (e_resolver (mg_ids env)) prefix v \<and> cursor < v_id v) (versions_t st))))"

fun migrate_batch :: "migration_env \<Rightarrow> row_id list \<Rightarrow> store \<Rightarrow> row_result list \<times> store" where
  "migrate_batch env [] st = ([], st)"
| "migrate_batch env (i # is) st =
     (let (r, st1) = migrateVersion env i st; (rs, st2) = migrate_batch env is st1 in (r # rs, st2))"

text \<open>A step changes fields of version rows, never their keys.\<close>

definition row_keys :: "store \<Rightarrow> (row_id \<times> policy_id \<times> nat) list" where
  "row_keys st = map (\<lambda>v. (v_id v, v_policyId v, v_version v)) (versions_t st)"

lemma row_keys_set_version:
  assumes "\<And>v. v_id (f v) = v_id v" "\<And>v. v_policyId (f v) = v_policyId v" "\<And>v. v_version (f v) = v_version v"
  shows "row_keys (set_version i f st) = row_keys st"
  using assms by (simp add: row_keys_def set_version_def update_where_def)

lemma row_keys_emit [simp]: "row_keys (emit e st) = row_keys st"
  by (simp add: row_keys_def)

lemma row_keys_relinkSuccessor: "row_keys (snd (relinkSuccessor sha pid ch st)) = row_keys st"
  by (auto simp: relinkSuccessor_def Let_def row_keys_set_version split: option.split)

lemma row_keys_relink: "row_keys (relink_from sha pid ch st) = row_keys st"
proof (induction sha pid ch st rule: relink_from.induct)
  case (1 sha pid ch st)
  have step: "row_keys (snd (relinkSuccessor sha pid ch st)) = row_keys st" by (rule row_keys_relinkSuccessor)
  show ?case
    by (subst relink_from.simps) (use 1 step in \<open>auto split: prod.split option.split\<close>)
qed

lemma row_keys_migrateVersion: "row_keys (snd (migrateVersion env i st)) = row_keys st"
proof -
  have w: "row_keys (writeSuccess env row lc sj st) = row_keys st" for row lc sj
    by (simp add: writeSuccess_def relinkSuccessors_def Let_def row_keys_relink row_keys_set_version)
  have f: "row_keys (writeFailure row err st) = row_keys st" for row err
    unfolding writeFailure_def by (rule row_keys_set_version) (simp_all add: Let_def)
  have g: "row_keys (set_version j (\<lambda>v. v\<lparr>v_migrationError := e\<rparr>) st) = row_keys st" for j e
    by (rule row_keys_set_version) simp_all
  show ?thesis
    by (auto simp: migrateVersion_def migrateLocked_def Let_def invalidateCache_def w f g split: sum.split option.split)
qed

lemma row_keys_migrate_batch: "row_keys (snd (migrate_batch env is st)) = row_keys st"
  by (induction "is" arbitrary: st) (simp_all add: split_beta row_keys_migrateVersion Let_def)

lemma rows_beyond_keys:
  assumes "row_keys st = row_keys st'"
  shows "count_where (\<lambda>v. c < v_id v) (versions_t st) = count_where (\<lambda>v. c < v_id v) (versions_t st')"
proof -
  have e: "count_where (\<lambda>v. c < v_id v) t = length (filter (\<lambda>(i, _). c < i) (map (\<lambda>v. (v_id v, v_policyId v, v_version v)) t))" for t
    by (induction t) simp_all
  show ?thesis unfolding e by (simp only: assms [unfolded row_keys_def])
qed

lemma pendingBatch_mem:
  assumes "i \<in> set (pendingBatch env st cursor n prefix)"
  shows "\<exists>v \<in> set (versions_t st). v_id v = i \<and> pending_row (e_resolver (mg_ids env)) prefix v \<and> cursor < i"
  using in_set_takeD [OF assms [unfolded pendingBatch_def]] by auto

function migrate_batches ::
  "migration_env \<Rightarrow> nat \<Rightarrow> string option \<Rightarrow> row_id \<Rightarrow> store \<Rightarrow> row_result list \<times> store" where
  "migrate_batches env batchSize prefix cursor st =
     (let batch = pendingBatch env st cursor batchSize prefix in
      if batch = [] then ([], st)
      else
        let (rs, st1) = migrate_batch env batch st;
            (more, st2) = migrate_batches env batchSize prefix (last batch) st1
        in (rs @ more, st2))"
  by pat_completeness auto
termination
proof (relation "measure (\<lambda>(env, n, prefix, cursor, st). count_where (\<lambda>v. cursor < v_id v) (versions_t st))", goal_cases)
  case (2 env n prefix cursor st batch run rs st1)
  then have "last batch \<in> set (pendingBatch env st cursor n prefix)" by simp
  then obtain v where v: "v \<in> set (versions_t st)" "v_id v = last batch" "cursor < last batch"
    using pendingBatch_mem by blast
  have "row_keys st1 = row_keys st" using row_keys_migrate_batch [of env batch st] 2 by (metis snd_conv)
  then have "count_where (\<lambda>w. last batch < v_id w) (versions_t st1) = count_where (\<lambda>w. last batch < v_id w) (versions_t st)"
    by (rule rows_beyond_keys)
  also have "\<dots> < count_where (\<lambda>w. cursor < v_id w) (versions_t st)"
    using v by (intro count_where_less [of _ _ _ v]) auto
  finally show ?case by simp
qed simp

declare migrate_batches.simps [simp del]

section \<open>The report\<close>

record resolver_migration_triage =
  tg_e8xx :: "migration_failure list"
  tg_invalidConstructForm :: "migration_failure list"
  tg_untypedFieldAccess :: "migration_failure list"
  tg_vocabularyScopeByUser :: "(user_id \<times> migration_failure list) list"
  tg_integrityMismatch :: "migration_failure list"
  tg_otherCompile :: "migration_failure list"
  tg_infrastructure :: "migration_failure list"

definition is_digit :: "char \<Rightarrow> bool" where
  "is_digit c \<longleftrightarrow> (let n = of_char c :: nat in 48 \<le> n \<and> n \<le> 57)"

definition isE8xx :: "string \<Rightarrow> bool" where
  "isE8xx c \<longleftrightarrow> length c = 4 \<and> take 2 c = ''E8'' \<and> list_all is_digit (drop 2 c) \<and> c \<noteq> ''E801''"

definition buildTriage :: "migration_failure list \<Rightarrow> resolver_migration_triage" where
  "buildTriage failures =
     (let compile = filter (\<lambda>f. mf_category f = CompileFailure) failures;
          vocab = filter (\<lambda>f. mf_category f = VocabularyFailure) failures;
          user = (\<lambda>f. nullish (rl_ownerId f) ''unknown'')
      in \<lparr>tg_e8xx = filter (\<lambda>f. list_ex isE8xx (mf_codes f)) compile,
          tg_invalidConstructForm = filter mf_invalidConstructForm compile,
          tg_untypedFieldAccess = filter (\<lambda>f. ''E801'' \<in> set (mf_codes f)) compile,
          tg_vocabularyScopeByUser = map (\<lambda>u. (u, filter (\<lambda>f. user f = u) vocab)) (dedup (map user vocab)),
          tg_integrityMismatch = filter (\<lambda>f. mf_category f = IntegrityFailure) failures,
          tg_otherCompile = filter (\<lambda>f. \<not> mf_invalidConstructForm f \<and>
            \<not> list_ex (\<lambda>c. c = ''E801'' \<or> isE8xx c) (mf_codes f)) compile,
          tg_infrastructure = filter (\<lambda>f. mf_category f = InfrastructureFailure) failures\<rparr>)"

record resolver_migration_report =
  rp_processed :: nat
  rp_succeeded :: nat
  rp_failed :: nat
  rp_failures :: "migration_failure list"
  rp_triage :: resolver_migration_triage

definition failures_of :: "row_result list \<Rightarrow> migration_failure list" where
  "failures_of results = List.map_filter (\<lambda>r. case r of Failed f \<Rightarrow> Some f | _ \<Rightarrow> None) results"

definition summarize :: "row_result list \<Rightarrow> resolver_migration_report" where
  "summarize results =
     (let failures = failures_of results;
          succeeded = length (filter (\<lambda>r. case r of Succeeded _ \<Rightarrow> True | _ \<Rightarrow> False) results)
      in \<lparr>rp_processed = succeeded + length failures, rp_succeeded = succeeded, rp_failed = length failures,
          rp_failures = failures, rp_triage = buildTriage failures\<rparr>)"

text \<open>An absent batch size is the default; the cursor starts before every id.\<close>

definition runResolverMigration ::
  "migration_env \<Rightarrow> nat option \<Rightarrow> string option \<Rightarrow> store \<Rightarrow> resolver_migration_report \<times> store" where
  "runResolverMigration env batchSize prefix st =
     (let (results, st1) = migrate_batches env (nullish batchSize RESOLVER_MIGRATION_BATCH_SIZE) prefix [] st
      in (summarize results, st1))"

end
