(* ===== verification/MigrationFacts.thy ===== *)
theory MigrationFacts
  imports ResolverMigration
begin

text \<open>
  What the resolver migration keeps. The rewriting of the chain behind a row refines a function on
  lists and keeps every valid chain valid; a run visits each pending row once, in the order of the
  ids; a failed row keeps its seal; and the status a row had before the migration archived it is
  never lost.
\<close>

section \<open>Rows after a step\<close>

text \<open>The step changed at most the two chain hashes of the row.\<close>

definition rehashed :: "version_row \<Rightarrow> version_row \<Rightarrow> bool" where
  "rehashed v w \<longleftrightarrow> w = v\<lparr>v_prevHash := v_prevHash w, v_sourceHash := v_sourceHash w\<rparr>"

lemma rehashed_refl [simp]: "rehashed v v"
  by (simp add: rehashed_def)

lemma rehashed_trans: "rehashed u v \<Longrightarrow> rehashed v w \<Longrightarrow> rehashed u w"
  unfolding rehashed_def by (cases u; cases v; cases w) simp

lemma rehashed_fields:
  assumes "rehashed v w"
  shows "v_id w = v_id v" "v_policyId w = v_policyId v" "v_version w = v_version v" "v_status w = v_status v"
    "v_resolverVersion w = v_resolverVersion v" "v_statusBeforeArchive w = v_statusBeforeArchive v"
    "v_archivedByMigration w = v_archivedByMigration v" "v_sourceEnvelope w = v_sourceEnvelope v"
    "version_source w = version_source v"
  using assms unfolding rehashed_def version_source_def by (cases v; cases w; simp)+

lemma relinkSuccessor_map:
  assumes "unique_key v_id (versions_t st)"
  shows "\<exists>g. snd (relinkSuccessor sha pid ch st) = st\<lparr>versions_t := map g (versions_t st)\<rparr> \<and>
    (\<forall>v. rehashed v (g v)) \<and>
    (\<forall>v \<in> set (versions_t st). \<not> (v_policyId v = pid \<and> lc_version ch < v_version v) \<longrightarrow> g v = v)"
proof (cases "successor st pid (lc_version ch)")
  case None
  then show ?thesis by (intro exI [of _ id]) (simp add: relinkSuccessor_def)
next
  case (Some row)
  note row = successor_Some [OF Some]
  show ?thesis
  proof (cases "v_prevHash row = lc_oldLink ch")
    case False
    then show ?thesis using Some by (intro exI [of _ id]) (simp add: relinkSuccessor_def)
  next
    case True
    define h where "h = (if v_sourceHash row = Some (computeChainedHash sha (version_source row) (lc_oldLink ch))
      then Some (computeChainedHash sha (version_source row) (lc_newLink ch)) else v_sourceHash row)"
    define g :: "version_row \<Rightarrow> version_row" where "g v = (if v_id v = v_id row then v\<lparr>v_prevHash := lc_newLink ch, v_sourceHash := h\<rparr> else v)" for v
    have "snd (relinkSuccessor sha pid ch st) = st\<lparr>versions_t := map g (versions_t st)\<rparr>"
      using Some True by (simp add: relinkSuccessor_def Let_def set_version_def update_where_def g_def [abs_def] h_def)
    moreover have "rehashed v (g v)" for v by (simp add: rehashed_def g_def)
    moreover have "g v = v" if "v \<in> set (versions_t st)" "\<not> (v_policyId v = pid \<and> lc_version ch < v_version v)" for v
    proof -
      have "v \<noteq> row" using row(2,3) that(2) by auto
      then have "v_id v \<noteq> v_id row" using unique_key_eq [OF assms that(1) row(1)] by blast
      then show ?thesis by (simp add: g_def)
    qed
    ultimately show ?thesis by blast
  qed
qed

lemma unique_id_map:
  assumes "unique_key v_id (versions_t st)" "\<And>v. v_id (g v) = v_id v"
  shows "unique_key v_id (map g (versions_t st))"
  using assms by (simp add: unique_key_def comp_def)

lemma relink_map:
  assumes "unique_key v_id (versions_t st)"
  shows "\<exists>g. relink_from sha pid ch st = st\<lparr>versions_t := map g (versions_t st)\<rparr> \<and>
    (\<forall>v. rehashed v (g v)) \<and>
    (\<forall>v \<in> set (versions_t st). \<not> (v_policyId v = pid \<and> lc_version ch < v_version v) \<longrightarrow> g v = v)"
  using assms
proof (induction sha pid ch st rule: relink_from.induct)
  case (1 sha pid ch st)
  obtain g where g: "snd (relinkSuccessor sha pid ch st) = st\<lparr>versions_t := map g (versions_t st)\<rparr>"
    "\<And>v. rehashed v (g v)"
    "\<And>v. v \<in> set (versions_t st) \<Longrightarrow> \<not> (v_policyId v = pid \<and> lc_version ch < v_version v) \<Longrightarrow> g v = v"
    using relinkSuccessor_map [OF 1(2), of sha pid ch] by blast
  show ?case
  proof (cases "lc_oldLink ch = lc_newLink ch")
    case True
    then show ?thesis by (intro exI [of _ id]) (subst relink_from.simps, simp)
  next
    case False
    obtain o1 st1 where step: "relinkSuccessor sha pid ch st = (o1, st1)" by (cases "relinkSuccessor sha pid ch st")
    show ?thesis
    proof (cases o1)
      case None
      then have "relink_from sha pid ch st = st1"
        using False step by (subst relink_from.simps) simp
      then show ?thesis using g step by (intro exI [of _ g]) simp
    next
      case (Some ch1)
      have "unique_key v_id (versions_t st1)"
        using unique_id_map [OF 1(2), of g] g(1,2) step rehashed_fields(1) by simp
      then obtain h where h: "relink_from sha pid ch1 st1 = st1\<lparr>versions_t := map h (versions_t st1)\<rparr>"
        "\<And>v. rehashed v (h v)"
        "\<And>v. v \<in> set (versions_t st1) \<Longrightarrow> \<not> (v_policyId v = pid \<and> lc_version ch1 < v_version v) \<Longrightarrow> h v = v"
        using 1(1) [OF False step [symmetric] Some] by blast
      have later: "lc_version ch < lc_version ch1"
        using step Some successor_Some(3) by (fastforce simp: relinkSuccessor_def Let_def split: option.splits if_splits)
      have "relink_from sha pid ch st = relink_from sha pid ch1 st1"
        using False step Some by (subst relink_from.simps) simp
      also have "\<dots> = st\<lparr>versions_t := map (h \<circ> g) (versions_t st)\<rparr>"
        using h(1) g(1) step by simp
      finally have run: "relink_from sha pid ch st = st\<lparr>versions_t := map (h \<circ> g) (versions_t st)\<rparr>" .
      have "(h \<circ> g) v = v" if v: "v \<in> set (versions_t st)" "\<not> (v_policyId v = pid \<and> lc_version ch < v_version v)" for v
      proof -
        have "g v = v" using g(3) v by blast
        moreover have "versions_t st1 = map g (versions_t st)" using g(1) step by simp
        then have "g v \<in> set (versions_t st1)" using v(1) by simp
        ultimately show ?thesis using h(3) [of v] v(2) later by auto
      qed
      moreover have "rehashed v ((h \<circ> g) v)" for v using rehashed_trans [OF g(2) h(2)] by simp
      ultimately show ?thesis using run by blast
    qed
  qed
qed

section \<open>The rewriting as a function on lists\<close>

definition relinked :: "(string \<Rightarrow> string) \<Rightarrow> string option \<Rightarrow> string option \<Rightarrow> version_row \<Rightarrow> version_row" where
  "relinked sha old new v =
     v\<lparr>v_prevHash := new,
       v_sourceHash := (if v_sourceHash v = Some (computeChainedHash sha (version_source v) old)
         then Some (computeChainedHash sha (version_source v) new) else v_sourceHash v)\<rparr>"

fun relink_list ::
  "(string \<Rightarrow> string) \<Rightarrow> string option \<Rightarrow> string option \<Rightarrow> version_row list \<Rightarrow> version_row list" where
  "relink_list sha old new [] = []"
| "relink_list sha old new (v # vs) =
     (if old = new \<or> v_prevHash v \<noteq> old then v # vs
      else relinked sha old new v #
        (if truthy (v_sourceEnvelope v) then vs
         else relink_list sha (v_sourceHash v) (v_sourceHash (relinked sha old new v)) vs))"

lemma relink_list_same [simp]: "relink_list sha old old vs = vs"
  by (cases vs) simp_all

definition chain_after :: "store \<Rightarrow> policy_id \<Rightarrow> nat \<Rightarrow> version_row list" where
  "chain_after st pid n = filter (\<lambda>v. n < v_version v) (chain_of st pid)"

lemma sort_key_map_same:
  assumes "\<And>x. k (g x) = k x"
  shows "sort_key k (map g xs) = map g (sort_key k xs)"
proof -
  have "insort_key k (g x) (map g ys) = map g (insort_key k x ys)" for x ys
    by (induction ys) (simp_all add: assms)
  then show ?thesis by (induction xs) simp_all
qed

lemma chain_of_map:
  assumes "\<And>v. rehashed v (g v)"
  shows "chain_of (st\<lparr>versions_t := map g (versions_t st)\<rparr>) pid = map g (chain_of st pid)"
proof -
  have k: "v_version (g v) = v_version v" "v_policyId (g v) = v_policyId v" for v
    using rehashed_fields(2,3) [OF assms] by blast+
  have "select_where (\<lambda>v. v_policyId v = pid) (map g t) = map g (select_where (\<lambda>v. v_policyId v = pid) t)" for t
    by (induction t) (simp_all add: select_where_def k)
  then show ?thesis by (simp add: chain_of_def sort_key_map_same k)
qed

lemma chain_after_map:
  assumes "\<And>v. rehashed v (g v)"
  shows "chain_after (st\<lparr>versions_t := map g (versions_t st)\<rparr>) pid n = map g (chain_after st pid n)"
proof -
  have "filter (\<lambda>v. n < v_version v) (map g t) = map g (filter (\<lambda>v. n < v_version v) t)" for t
    by (induction t) (simp_all add: rehashed_fields(3) [OF assms])
  then show ?thesis by (simp add: chain_after_def chain_of_map [OF assms])
qed

lemma successor_chain: "successor st pid n = (case chain_after st pid n of [] \<Rightarrow> None | v # _ \<Rightarrow> Some v)"
proof -
  have "sort_key v_version (select_where (\<lambda>v. v_policyId v = pid \<and> n < v_version v) (versions_t st)) = chain_after st pid n"
    by (simp add: chain_after_def chain_of_def select_where_def filter_sort conj_commute)
  then show ?thesis by (simp add: successor_def)
qed

lemma in_chain [simp]: "v \<in> set (chain_of st pid) \<longleftrightarrow> v \<in> set (versions_t st) \<and> v_policyId v = pid"
  by (simp add: chain_of_def)

lemma in_chain_after [simp]:
  "v \<in> set (chain_after st pid n) \<longleftrightarrow> v \<in> set (versions_t st) \<and> v_policyId v = pid \<and> n < v_version v"
  by (auto simp: chain_after_def)

lemma chain_strict:
  assumes "unique_key version_key (versions_t st)"
  shows "sorted_wrt (\<lambda>v w. v_version v < v_version w) (chain_of st pid)"
proof -
  have "distinct (map version_key t) \<Longrightarrow> distinct (map v_version (filter (\<lambda>v. v_policyId v = pid) t))" for t
    by (induction t) (auto simp: version_key_def image_iff)
  then have "distinct (map v_version (select_where (\<lambda>v. v_policyId v = pid) (versions_t st)))"
    using assms by (simp add: unique_key_def select_where_def)
  then have "distinct (map v_version (chain_of st pid))"
    unfolding chain_of_def by (metis distinct_map distinct_sort set_sort)
  moreover have "sorted (map v_version (chain_of st pid))" by (simp add: chain_of_def)
  ultimately have "sorted_wrt (<) (map v_version (chain_of st pid))" by (simp add: strict_sorted_iff)
  then show ?thesis by (simp add: sorted_wrt_map)
qed

lemma chain_after_Cons:
  assumes "unique_key version_key (versions_t st)" "chain_after st pid n = row # rest"
  shows "chain_after st pid (v_version row) = rest"
proof -
  have s: "sorted_wrt (\<lambda>v w. v_version v < v_version w) (chain_after st pid n)"
    unfolding chain_after_def by (rule sorted_wrt_filter [OF chain_strict [OF assms(1)]])
  have "row \<in> set (chain_after st pid n)" using assms(2) by simp
  then have n: "n < v_version row" by simp
  have "chain_after st pid (v_version row) = filter (\<lambda>v. v_version row < v_version v) (chain_after st pid n)"
    using n by (auto simp: chain_after_def intro: filter_cong)
  also have "\<dots> = rest" using s assms(2) by (auto simp: filter_id_conv)
  finally show ?thesis .
qed

lemma relinkSuccessor_step:
  assumes "chain_after st pid (lc_version ch) = row # rest" "v_prevHash row = lc_oldLink ch"
  shows "relinkSuccessor sha pid ch st =
    (if truthy (v_sourceEnvelope row) then None
     else Some \<lparr>lc_version = v_version row, lc_oldLink = v_sourceHash row,
       lc_newLink = v_sourceHash (relinked sha (lc_oldLink ch) (lc_newLink ch) row)\<rparr>,
     set_version (v_id row) (\<lambda>v. v\<lparr>v_prevHash := v_prevHash (relinked sha (lc_oldLink ch) (lc_newLink ch) row),
       v_sourceHash := v_sourceHash (relinked sha (lc_oldLink ch) (lc_newLink ch) row)\<rparr>) st)"
  using assms by (simp add: relinkSuccessor_def successor_chain Let_def relinked_def)

lemma chain_after_step:
  assumes "unique_key v_id (versions_t st)" "unique_key version_key (versions_t st)"
    "chain_after st pid n = row # rest" "\<And>v. rehashed v (f v)"
  shows "chain_after (set_version (v_id row) f st) pid n = f row # rest"
proof -
  define g :: "version_row \<Rightarrow> version_row" where "g v = (if v_id v = v_id row then f v else v)" for v
  have set: "set_version (v_id row) f st = st\<lparr>versions_t := map g (versions_t st)\<rparr>"
    by (simp add: set_version_def update_where_def g_def [abs_def])
  have g: "rehashed v (g v)" for v using assms(4) by (simp add: g_def)
  have row: "row \<in> set (versions_t st)" using assms(3) by (metis in_chain_after list.set_intros(1))
  have s: "sorted_wrt (\<lambda>v w. v_version v < v_version w) (row # rest)"
    unfolding assms(3) [symmetric] chain_after_def by (rule sorted_wrt_filter [OF chain_strict [OF assms(2)]])
  have "g v = v" if v: "v \<in> set rest" for v
  proof -
    have "v \<in> set (chain_after st pid n)" using v assms(3) by simp
    then have "v \<in> set (versions_t st)" by simp
    moreover have "v \<noteq> row" using s v by auto
    ultimately have "v_id v \<noteq> v_id row" using unique_key_eq [OF assms(1) _ row] by blast
    then show ?thesis by (simp add: g_def)
  qed
  then have "map g rest = rest" by (simp add: map_idI)
  then show ?thesis by (simp add: set chain_after_map [OF g] assms(3)) (simp add: g_def)
qed

lemma relink_refines:
  assumes "unique_key v_id (versions_t st)" "unique_key version_key (versions_t st)"
  shows "chain_after (relink_from sha pid ch st) pid (lc_version ch) =
    relink_list sha (lc_oldLink ch) (lc_newLink ch) (chain_after st pid (lc_version ch))"
  using assms
proof (induction sha pid ch st rule: relink_from.induct)
  case (1 sha pid ch st)
  let ?n = "lc_version ch" and ?old = "lc_oldLink ch" and ?new = "lc_newLink ch"
  show ?case
  proof (cases "?old = ?new")
    case True
    then show ?thesis by (subst relink_from.simps) simp
  next
    case False
    show ?thesis
    proof (cases "chain_after st pid ?n")
      case Nil
      then have "relinkSuccessor sha pid ch st = (None, st)"
        by (simp add: relinkSuccessor_def successor_chain)
      then show ?thesis using Nil False by (subst relink_from.simps) simp
    next
      case (Cons row rest)
      show ?thesis
      proof (cases "v_prevHash row = ?old")
        case broken: False
        then have "relinkSuccessor sha pid ch st = (None, st)"
          using Cons by (simp add: relinkSuccessor_def successor_chain)
        then show ?thesis using Cons False broken by (subst relink_from.simps) simp
      next
        case True
        let ?w = "relinked sha ?old ?new row"
        let ?f = "\<lambda>v. v\<lparr>v_prevHash := v_prevHash ?w, v_sourceHash := v_sourceHash ?w\<rparr>"
        let ?st1 = "set_version (v_id row) ?f st"
        let ?ch1 = "\<lparr>lc_version = v_version row, lc_oldLink = v_sourceHash row, lc_newLink = v_sourceHash ?w\<rparr>"
        note step = relinkSuccessor_step [OF Cons True, of sha]
        have after1: "chain_after ?st1 pid ?n = ?w # rest"
          using chain_after_step [OF 1(2,3) Cons, of ?f] by (simp add: rehashed_def relinked_def)
        show ?thesis
        proof (cases "truthy (v_sourceEnvelope row)")
          case True
          then have "relink_from sha pid ch st = ?st1"
            using False step by (subst relink_from.simps) simp
          then show ?thesis using Cons False True after1 \<open>v_prevHash row = ?old\<close> by simp
        next
          case bare: False
          have run: "relink_from sha pid ch st = relink_from sha pid ?ch1 ?st1"
            using False step bare by (subst relink_from.simps) simp
          have keys: "map v_id (versions_t ?st1) = map v_id (versions_t st)" "map version_key (versions_t ?st1) = map version_key (versions_t st)"
            by (simp_all add: set_version_def update_where_def version_key_def)
          then have u1: "unique_key v_id (versions_t ?st1)" "unique_key version_key (versions_t ?st1)"
            using 1(2,3) by (simp_all add: unique_key_def)
          have "chain_after ?st1 pid (v_version row) = rest"
            using chain_after_Cons [OF u1(2) after1] by (simp add: relinked_def)
          then have IH: "chain_after (relink_from sha pid ?ch1 ?st1) pid (v_version row) =
              relink_list sha (v_sourceHash row) (v_sourceHash ?w) rest"
            using 1(1) [OF False step [symmetric] _ u1] bare by simp
          obtain g where g: "relink_from sha pid ?ch1 ?st1 = ?st1\<lparr>versions_t := map g (versions_t ?st1)\<rparr>"
            "\<And>v. rehashed v (g v)"
            "\<And>v. v \<in> set (versions_t ?st1) \<Longrightarrow> \<not> (v_policyId v = pid \<and> v_version row < v_version v) \<Longrightarrow> g v = v"
            using relink_map [OF u1(1), of sha pid ?ch1] by auto
          have "?w \<in> set (chain_after ?st1 pid ?n)" using after1 by simp
          then have "?w \<in> set (versions_t ?st1)" by simp
          then have "g ?w = ?w" using g(3) by (simp add: relinked_def)
          then have "chain_after (relink_from sha pid ?ch1 ?st1) pid ?n = ?w # map g rest"
            using chain_after_map [OF g(2), of ?st1 pid ?n] after1 g(1) by simp
          moreover have "chain_after (relink_from sha pid ?ch1 ?st1) pid (v_version row) = map g rest"
            using chain_after_map [OF g(2), of ?st1 pid "v_version row"] \<open>chain_after ?st1 pid (v_version row) = rest\<close> g(1) by simp
          ultimately show ?thesis using IH run Cons False bare \<open>v_prevHash row = ?old\<close> by simp
        qed
      qed
    qed
  qed
qed

lemma chain_from_relink:
  "chain_from sha old vs \<Longrightarrow> chain_from sha new (relink_list sha old new vs)"
proof (induction sha old new vs rule: relink_list.induct)
  case (2 sha old new v vs)
  let ?w = "relinked sha old new v"
  show ?case
  proof (cases "old = new")
    case False
    have v: "v_prevHash v = old" "v_sourceHash v = Some (computeChainedHash sha (version_source v) old)"
      "chain_from sha (chainLink v) vs" using 2(2) by simp_all
    then have w: "v_prevHash ?w = new" "v_sourceHash ?w = Some (computeChainedHash sha (version_source ?w) new)"
      "v_sourceEnvelope ?w = v_sourceEnvelope v"
      by (simp_all add: relinked_def version_source_def)
    show ?thesis
    proof (cases "v_sourceEnvelope v")
      case None
      then have "chain_from sha (v_sourceHash ?w) (relink_list sha (v_sourceHash v) (v_sourceHash ?w) vs)"
        using 2(1) False v by (simp add: truthy_def chainLink_def)
      then show ?thesis using False v w None by (simp add: truthy_def chainLink_def)
    next
      case (Some e)
      have "relink_list sha (v_sourceHash v) (v_sourceHash ?w) vs = vs" if "e = []"
      proof (cases vs)
        case (Cons u us)
        then have "v_prevHash u = Some []" using v(3) Some that by (simp add: chainLink_def)
        moreover have "v_sourceHash v \<noteq> Some []" using v(2) by (simp add: computeChainedHash_def hash_prefix_def)
        ultimately show ?thesis using Cons by simp
      qed simp
      then show ?thesis using False v w Some by (cases e) (simp_all add: truthy_def chainLink_def)
    qed
  qed (use 2 in simp)
qed simp

section \<open>Valid chains stay valid\<close>

lemma chain_of_keys:
  assumes "\<And>v. v_version (g v) = v_version v \<and> v_policyId (g v) = v_policyId v"
  shows "chain_of (st\<lparr>versions_t := map g (versions_t st)\<rparr>) pid = map g (chain_of st pid)"
proof -
  have "select_where (\<lambda>v. v_policyId v = pid) (map g t) = map g (select_where (\<lambda>v. v_policyId v = pid) t)" for t
    by (induction t) (simp_all add: select_where_def assms)
  then show ?thesis by (simp add: chain_of_def sort_key_map_same assms)
qed

lemma chain_from_map_same:
  assumes "\<And>v. v_prevHash (g v) = v_prevHash v \<and> v_sourceHash (g v) = v_sourceHash v \<and>
    version_source (g v) = version_source v \<and> chainLink (g v) = chainLink v"
  shows "chain_from sha prev (map g vs) = chain_from sha prev vs"
  using assms by (induction vs arbitrary: prev) simp_all

text \<open>A write that touches no field of the chain.\<close>

definition chain_neutral :: "(version_row \<Rightarrow> version_row) \<Rightarrow> bool" where
  "chain_neutral f \<longleftrightarrow> (\<forall>v. v_id (f v) = v_id v \<and> v_version (f v) = v_version v \<and> v_policyId (f v) = v_policyId v \<and>
     v_prevHash (f v) = v_prevHash v \<and> v_sourceHash (f v) = v_sourceHash v \<and>
     version_source (f v) = version_source v \<and> v_sourceEnvelope (f v) = v_sourceEnvelope v)"

lemma chain_neutral_keeps:
  assumes "chain_neutral f" "chains_ok sha st"
  shows "chains_ok sha (set_version i f st)"
proof -
  define g :: "version_row \<Rightarrow> version_row" where "g v = (if v_id v = i then f v else v)" for v
  have set: "set_version i f st = st\<lparr>versions_t := map g (versions_t st)\<rparr>"
    by (simp add: set_version_def update_where_def g_def [abs_def])
  have "chain_of (set_version i f st) pid = map g (chain_of st pid)" for pid
    unfolding set by (rule chain_of_keys) (use assms(1) in \<open>simp add: g_def chain_neutral_def\<close>)
  moreover have "chain_from sha None (map g vs) = chain_from sha None vs" for vs
    by (rule chain_from_map_same) (use assms(1) in \<open>simp add: g_def chain_neutral_def chainLink_def split: option.split\<close>)
  ultimately show ?thesis using assms(2) by (simp add: chains_ok_def)
qed

lemma chains_ok_emit [simp]: "chains_ok sha (emit e st) = chains_ok sha st"
  by (simp add: chains_ok_def chain_of_def)

lemma chain_from_append:
  "chain_from sha prev (vs @ ws) \<longleftrightarrow> chain_from sha prev vs \<and> chain_from sha (link_after prev vs) ws"
  by (induction vs arbitrary: prev) (auto simp: link_after_def)

lemma chain_split:
  assumes "unique_key version_key (versions_t st)" "row \<in> set (versions_t st)"
  shows "\<exists>pre. chain_of st (v_policyId row) = pre @ row # chain_after st (v_policyId row) (v_version row) \<and>
    (\<forall>v \<in> set pre. v_version v < v_version row)"
proof -
  have "row \<in> set (chain_of st (v_policyId row))" using assms(2) by simp
  then obtain pre suf where c: "chain_of st (v_policyId row) = pre @ row # suf" by (meson split_list)
  have s: "sorted_wrt (\<lambda>v w. v_version v < v_version w) (pre @ row # suf)"
    unfolding c [symmetric] by (rule chain_strict [OF assms(1)])
  then have pre: "\<forall>v \<in> set pre. v_version v < v_version row" and suf: "\<forall>v \<in> set suf. v_version row < v_version v"
    by (auto simp: sorted_wrt_append)
  have "filter (\<lambda>v. v_version row < v_version v) pre = []" using pre by (auto simp: filter_empty_conv)
  moreover have "filter (\<lambda>v. v_version row < v_version v) suf = suf" using suf by (simp add: filter_id_conv)
  ultimately have "chain_after st (v_policyId row) (v_version row) = suf" by (simp add: chain_after_def c)
  then show ?thesis using c pre by blast
qed

text \<open>The row that a success writes.\<close>

definition sealed_row :: "migration_env \<Rightarrow> version_row \<Rightarrow> string \<Rightarrow> string \<Rightarrow> version_row" where
  "sealed_row env row locale scopesJson =
     (let v = row\<lparr>v_sourceEnvelope := Some (computeSourceEnvelope (mg_sha env) (Some (version_source row)) (v_aliasSet row)
                (Some locale) (Some (cloudToolchainId (mg_ids env))) (Some scopesJson)),
              v_toolchainId := Some (cloudToolchainId (mg_ids env)), v_scopesJson := Some scopesJson,
              v_resolverVersion := Some (e_resolver (mg_ids env)), v_migrationError := None, v_archivedByMigration := False\<rparr>
      in if v_archivedByMigration row
         then v\<lparr>v_status := nullish (v_statusBeforeArchive row) (v_status row), v_statusBeforeArchive := None\<rparr> else v)"

lemma sealed_row_keys:
  "v_id (sealed_row env row lc sj) = v_id row" "v_version (sealed_row env row lc sj) = v_version row"
  "v_policyId (sealed_row env row lc sj) = v_policyId row" "v_prevHash (sealed_row env row lc sj) = v_prevHash row"
  "v_sourceHash (sealed_row env row lc sj) = v_sourceHash row" "version_source (sealed_row env row lc sj) = version_source row"
  "v_resolverVersion (sealed_row env row lc sj) = Some (e_resolver (mg_ids env))"
  "v_archivedByMigration (sealed_row env row lc sj) = False"
  "v_status (sealed_row env row lc sj) =
     (if v_archivedByMigration row then nullish (v_statusBeforeArchive row) (v_status row) else v_status row)"
  by (simp_all add: sealed_row_def Let_def version_source_def)

lemma writeSuccess_effect:
  assumes "unique_key v_id (versions_t st)" "unique_key version_key (versions_t st)" "row \<in> set (versions_t st)"
  shows "\<exists>g. writeSuccess env row lc sj st = st\<lparr>versions_t := map g (versions_t st)\<rparr> \<and>
    g row = sealed_row env row lc sj \<and> (\<forall>v \<in> set (versions_t st). v \<noteq> row \<longrightarrow> rehashed v (g v)) \<and>
    (\<forall>v \<in> set (versions_t st). \<not> (v_policyId v = v_policyId row \<and> v_version row \<le> v_version v) \<longrightarrow> g v = v) \<and>
    (\<forall>v \<in> set (versions_t st). v_version (g v) = v_version v \<and> v_policyId (g v) = v_policyId v \<and> v_id (g v) = v_id v) \<and>
    map g (chain_after st (v_policyId row) (v_version row)) =
      relink_list (mg_sha env) (chainLink row) (v_sourceEnvelope (sealed_row env row lc sj))
        (chain_after st (v_policyId row) (v_version row))"
proof -
  let ?pid = "v_policyId row" and ?n = "v_version row" and ?w = "sealed_row env row lc sj"
  define g1 :: "version_row \<Rightarrow> version_row" where "g1 v = (if v = row then ?w else v)" for v
  let ?st1 = "st\<lparr>versions_t := map g1 (versions_t st)\<rparr>"
  obtain e where e: "v_sourceEnvelope ?w = Some e" by (simp add: sealed_row_def Let_def)
  let ?ch = "\<lparr>lc_version = ?n, lc_oldLink = chainLink row, lc_newLink = Some e\<rparr>"
  have only: "v_id v = v_id row \<longleftrightarrow> v = row" if "v \<in> set (versions_t st)" for v
    using unique_key_eq [OF assms(1) that assms(3)] by auto
  have ws: "writeSuccess env row lc sj st = relink_from (mg_sha env) ?pid ?ch ?st1"
  proof -
    have "update_where (\<lambda>v. v_id v = v_id row) f (versions_t st) = map g1 (versions_t st)" if "f row = ?w" for f
      unfolding update_where_def by (rule map_cong [OF refl]) (use only that in \<open>auto simp: g1_def\<close>)
    then show ?thesis
      using e by (simp add: writeSuccess_def relinkSuccessors_def Let_def set_version_def sealed_row_def split: if_splits)
  qed
  have keys: "v_id (g1 v) = v_id v" "v_version (g1 v) = v_version v" "v_policyId (g1 v) = v_policyId v" for v
    by (simp_all add: g1_def sealed_row_keys)
  have u1: "unique_key v_id (versions_t ?st1)" "unique_key version_key (versions_t ?st1)"
    using assms(1,2) by (simp_all add: unique_key_def comp_def keys version_key_def [abs_def])
  obtain g2 where g2: "relink_from (mg_sha env) ?pid ?ch ?st1 = ?st1\<lparr>versions_t := map g2 (versions_t ?st1)\<rparr>"
    "\<And>v. rehashed v (g2 v)"
    "\<And>v. v \<in> set (versions_t ?st1) \<Longrightarrow> \<not> (v_policyId v = ?pid \<and> ?n < v_version v) \<Longrightarrow> g2 v = v"
    using relink_map [OF u1(1), of "mg_sha env" ?pid ?ch] by auto
  let ?g = "g2 \<circ> g1"
  have run: "writeSuccess env row lc sj st = st\<lparr>versions_t := map ?g (versions_t st)\<rparr>" by (simp add: ws g2(1))
  have "?w \<in> set (versions_t ?st1)" using assms(3) by (force simp: g1_def)
  then have row: "?g row = ?w" using g2(3) by (simp add: g1_def sealed_row_keys)
  have other: "rehashed v (?g v)" if "v \<noteq> row" for v using that g2(2) by (simp add: g1_def)
  have before: "?g v = v" if v: "v \<in> set (versions_t st)" "\<not> (v_policyId v = ?pid \<and> ?n \<le> v_version v)" for v
  proof -
    have "v \<noteq> row" using v(2) by auto
    then have "g1 v = v" by (simp add: g1_def)
    moreover have "v \<in> set (versions_t ?st1)" using v(1) calculation by (simp add: rev_image_eqI)
    ultimately show ?thesis using g2(3) [of v] v(2) by auto
  qed
  have after: "chain_after ?st1 ?pid ?n = chain_after st ?pid ?n"
  proof -
    have "chain_of ?st1 ?pid = map g1 (chain_of st ?pid)" by (rule chain_of_keys) (simp add: keys)
    moreover have "filter (\<lambda>v. ?n < v_version v) (map g1 vs) = filter (\<lambda>v. ?n < v_version v) vs" for vs
      by (induction vs) (auto simp: keys, auto simp: g1_def)
    ultimately show ?thesis by (simp add: chain_after_def)
  qed
  have "map g2 (chain_after ?st1 ?pid ?n) = relink_list (mg_sha env) (chainLink row) (Some e) (chain_after ?st1 ?pid ?n)"
    using relink_refines [OF u1, of "mg_sha env" ?pid ?ch] chain_after_map [OF g2(2), of ?st1 ?pid ?n] g2(1) by simp
  moreover have "map ?g (chain_after st ?pid ?n) = map g2 (chain_after st ?pid ?n)"
    by (rule map_cong [OF refl]) (auto simp: g1_def)
  ultimately have refines: "map ?g (chain_after st ?pid ?n) =
      relink_list (mg_sha env) (chainLink row) (v_sourceEnvelope ?w) (chain_after st ?pid ?n)"
    by (simp add: after e)
  have "v_version (?g v) = v_version v \<and> v_policyId (?g v) = v_policyId v \<and> v_id (?g v) = v_id v" for v
    using rehashed_fields(1,2,3) [OF g2(2) [of "g1 v"]] keys by simp
  then show ?thesis using run row other before refines by blast
qed

lemma writeSuccess_keeps_chains:
  assumes "unique_key v_id (versions_t st)" "unique_key version_key (versions_t st)" "row \<in> set (versions_t st)"
    "chains_ok (mg_sha env) st"
  shows "chains_ok (mg_sha env) (writeSuccess env row lc sj st)"
proof -
  let ?pid = "v_policyId row" and ?w = "sealed_row env row lc sj" and ?sha = "mg_sha env"
  obtain g where g: "writeSuccess env row lc sj st = st\<lparr>versions_t := map g (versions_t st)\<rparr>" "g row = ?w"
    "\<And>v. v \<in> set (versions_t st) \<Longrightarrow> \<not> (v_policyId v = ?pid \<and> v_version row \<le> v_version v) \<Longrightarrow> g v = v"
    "\<And>v. v \<in> set (versions_t st) \<Longrightarrow> v_version (g v) = v_version v \<and> v_policyId (g v) = v_policyId v \<and> v_id (g v) = v_id v"
    "map g (chain_after st ?pid (v_version row)) =
      relink_list ?sha (chainLink row) (v_sourceEnvelope ?w) (chain_after st ?pid (v_version row))"
    using writeSuccess_effect [OF assms(1-3), of env lc sj] by blast
  define h where "h v = (if v \<in> set (versions_t st) then g v else v)" for v
  have h: "map g (versions_t st) = map h (versions_t st)" by (rule map_cong [OF refl]) (simp add: h_def)
  have c: "chain_of (writeSuccess env row lc sj st) pid = map h (chain_of st pid)" for pid
    unfolding g(1) h by (rule chain_of_keys) (simp add: h_def g(4))
  have "chain_from ?sha None (map h (chain_of st pid))" for pid
  proof (cases "pid = ?pid")
    case False
    have "map h (chain_of st pid) = chain_of st pid"
      by (rule map_idI) (use False g(3) in \<open>auto simp: h_def\<close>)
    then show ?thesis using assms(4) by (simp add: chains_ok_def)
  next
    case True
    let ?suf = "chain_after st ?pid (v_version row)"
    obtain pre where pre: "chain_of st ?pid = pre @ row # ?suf" "\<forall>v \<in> set pre. v_version v < v_version row"
      using chain_split [OF assms(2,3)] by blast
    have "set pre \<subseteq> set (chain_of st ?pid)" using pre(1) by auto
    then have "map h pre = pre"
      by (intro map_idI) (use pre(2) g(3) in \<open>fastforce simp: h_def\<close>)
    moreover have "map h ?suf = map g ?suf" by (rule map_cong [OF refl]) (simp add: h_def)
    moreover have "h row = ?w" using assms(3) g(2) by (simp add: h_def)
    ultimately have m: "map h (chain_of st ?pid) = pre @ ?w # relink_list ?sha (chainLink row) (v_sourceEnvelope ?w) ?suf"
      using pre(1) g(5) by simp
    have ok: "chain_from ?sha None (pre @ row # ?suf)" using assms(4) by (simp add: chains_ok_def flip: pre(1))
    then have "chain_from ?sha (v_sourceEnvelope ?w) (relink_list ?sha (chainLink row) (v_sourceEnvelope ?w) ?suf)"
      by (intro chain_from_relink) (simp add: chain_from_append)
    moreover obtain e where "v_sourceEnvelope ?w = Some e" by (simp add: sealed_row_def Let_def)
    ultimately show ?thesis
      using ok m True by (simp add: chain_from_append sealed_row_keys chainLink_def)
  qed
  then show ?thesis by (simp add: chains_ok_def c)
qed

lemma keys_of_row_keys:
  assumes "row_keys st' = row_keys st"
  shows "unique_key v_id (versions_t st') = unique_key v_id (versions_t st)"
    "unique_key version_key (versions_t st') = unique_key version_key (versions_t st)"
proof -
  have "map v_id (versions_t s) = map fst (row_keys s)" "map version_key (versions_t s) = map snd (row_keys s)" for s
    by (simp_all add: row_keys_def version_key_def)
  then show "unique_key v_id (versions_t st') = unique_key v_id (versions_t st)"
    "unique_key version_key (versions_t st') = unique_key version_key (versions_t st)"
    by (simp_all add: unique_key_def assms)
qed

lemma migrateVersion_keeps_chains:
  assumes "unique_key v_id (versions_t st)" "unique_key version_key (versions_t st)" "chains_ok (mg_sha env) st"
  shows "chains_ok (mg_sha env) (snd (migrateVersion env i st))"
proof -
  have f: "chains_ok (mg_sha env) (writeFailure row err st)" for row err
    unfolding writeFailure_def
    by (rule chain_neutral_keeps [OF _ assms(3)]) (simp add: chain_neutral_def version_source_def Let_def)
  have n: "chains_ok (mg_sha env) (set_version j (\<lambda>v. v\<lparr>v_migrationError := e\<rparr>) st)" for j e
    by (rule chain_neutral_keeps [OF _ assms(3)]) (simp add: chain_neutral_def version_source_def)
  have s: "chains_ok (mg_sha env) (writeSuccess env row lc sj st)"
    if "find_first (\<lambda>v. v_id v = i) (versions_t st) = Some row" for row lc sj
    using writeSuccess_keeps_chains [OF assms(1,2) _ assms(3)] find_first_Some [OF that] by blast
  show ?thesis
    by (auto simp: migrateVersion_def migrateLocked_def Let_def invalidateCache_def f n s assms(3) split: sum.split option.split)
qed

lemma migrate_batch_keeps_chains:
  assumes "unique_key v_id (versions_t st)" "unique_key version_key (versions_t st)" "chains_ok (mg_sha env) st"
  shows "chains_ok (mg_sha env) (snd (migrate_batch env is st))"
  using assms
proof (induction "is" arbitrary: st)
  case (Cons i "is")
  have "unique_key v_id (versions_t (snd (migrateVersion env i st)))"
    "unique_key version_key (versions_t (snd (migrateVersion env i st)))"
    using Cons.prems(1,2) keys_of_row_keys [OF row_keys_migrateVersion [of env i st]] by simp_all
  then show ?case
    using Cons.IH migrateVersion_keeps_chains [OF Cons.prems] by (simp add: split_beta Let_def)
qed simp

lemma row_keys_migrate_batches: "row_keys (snd (migrate_batches env n prefix c st)) = row_keys st"
proof (induction env n prefix c st rule: migrate_batches.induct)
  case (1 env n prefix c st)
  let ?b = "pendingBatch env st c n prefix"
  show ?case
  proof (cases "?b = []")
    case True
    then show ?thesis by (subst migrate_batches.simps) simp
  next
    case False
    then show ?thesis
      using 1 [OF refl False refl prod.collapse] row_keys_migrate_batch [of env ?b st]
      by (subst migrate_batches.simps) (simp add: split_beta Let_def)
  qed
qed

text \<open>
  C22: A run of the resolver migration keeps every hash chain valid: after it, as before it, each
  version's previous hash is the link of its predecessor and its source hash covers that link,
  although the links of the migrated rows have changed.
\<close>

theorem migration_keeps_chains:
  assumes "chains_ok (mg_sha env) st" "unique_key v_id (versions_t st)" "unique_key version_key (versions_t st)"
  shows "chains_ok (mg_sha env) (snd (runResolverMigration env n prefix st))"
proof -
  have "chains_ok (mg_sha env) (snd (migrate_batches env k prefix c st))" for k c
    using assms
  proof (induction env k prefix c st rule: migrate_batches.induct)
    case (1 env k prefix c st)
    let ?b = "pendingBatch env st c k prefix"
    let ?st1 = "snd (migrate_batch env ?b st)"
    show ?case
    proof (cases "?b = []")
      case True
      then show ?thesis using 1(2) by (subst migrate_batches.simps) simp
    next
      case False
      have "chains_ok (mg_sha env) ?st1" by (rule migrate_batch_keeps_chains [OF 1(3,4,2)])
      moreover have "unique_key v_id (versions_t ?st1)" "unique_key version_key (versions_t ?st1)"
        using 1(3,4) keys_of_row_keys [OF row_keys_migrate_batch [of env ?b st]] by simp_all
      ultimately have "chains_ok (mg_sha env) (snd (migrate_batches env k prefix (last ?b) ?st1))"
        using 1(1) [OF refl False refl prod.collapse] by simp
      then show ?thesis using False by (subst migrate_batches.simps) (simp add: split_beta Let_def)
    qed
  qed
  then show ?thesis by (simp add: runResolverMigration_def split_beta)
qed

text \<open>An engine that accepts everything, and a policy with an unsealed first version and a sealed second one.\<close>

abbreviation open_engine :: migration_env where
  "open_engine \<equiv> \<lparr>mg_sha = (\<lambda>s. s),
     mg_ids = \<lparr>e_abi = ''1'', e_validator = ''1'', e_resolver = 1, e_casefold = ''1'', e_build = None\<rparr>,
     mg_detect = (\<lambda>s. ''en-US''), mg_nfc = (\<lambda>s. s), mg_uses = (\<lambda>a b c. True), mg_loadFault = (\<lambda>i. None),
     mg_scopes = (\<lambda>v. ScopesJson []), mg_parseAliases = (\<lambda>s. None),
     mg_compile = (\<lambda>u v t src lc a. Compiled []), mg_constructForm = (\<lambda>s. False)\<rparr>"

definition unsealed_store :: store where
  "unsealed_store = empty_store\<lparr>policies_t := [policy_of ''p1'' ''u1'' None],
     versions_t := [(version_of ''v1'' ''p1'' 1 APPROVED)\<lparr>v_sourceHash := Some ''sha256:Module loan'', v_resolverVersion := None\<rparr>,
       (version_of ''v2'' ''p1'' 2 DRAFT)\<lparr>v_prevHash := Some ''sha256:Module loan'',
         v_sourceHash := Some ''sha256:Module loansha256:Module loan'', v_sourceEnvelope := Some ''e2''\<rparr>]\<rparr>"

lemma unsealed_store_ok:
  "chains_ok (\<lambda>s. s) unsealed_store" "unique_key v_id (versions_t unsealed_store)"
  "unique_key version_key (versions_t unsealed_store)"
proof -
  have "chain_from (\<lambda>s. s) None (chain_of unsealed_store pid)" for pid
    by (cases "pid = ''p1''") (simp_all add: unsealed_store_def chain_of_def select_where_def chainLink_def
        version_source_def computeChainedHash_def hash_prefix_def chained_content_def or_null_def truthy_def)
  then show "chains_ok (\<lambda>s. s) unsealed_store" by (simp add: chains_ok_def)
qed (simp_all add: unsealed_store_def version_key_def)

theorem migration_keeps_chains_witness:
  "(let st = snd (runResolverMigration open_engine None None unsealed_store) in
    chains_ok (\<lambda>s. s) st \<and> map v_resolverVersion (versions_t st) = [Some 1, Some 1] \<and>
    map v_prevHash (versions_t st) \<noteq> map v_prevHash (versions_t unsealed_store))"
proof -
  have "chains_ok (\<lambda>s. s) (snd (runResolverMigration open_engine None None unsealed_store))"
    using migration_keeps_chains [of open_engine, OF _ unsealed_store_ok(2,3)] unsealed_store_ok(1) by simp
  moreover have "map v_resolverVersion (versions_t (snd (runResolverMigration open_engine None None unsealed_store))) = [Some 1, Some 1]"
    by code_simp
  moreover have "map v_prevHash (versions_t (snd (runResolverMigration open_engine None None unsealed_store))) \<noteq>
      map v_prevHash (versions_t unsealed_store)"
    by code_simp
  ultimately show ?thesis by (simp only: Let_def simp_thms)
qed

section \<open>What one step does to each row\<close>

lemma set_version_map:
  "set_version i f st = st\<lparr>versions_t := map (\<lambda>v. if v_id v = i then f v else v) (versions_t st)\<rparr>"
  by (simp add: set_version_def update_where_def)

text \<open>How the row of the step itself changes, by the result of the step.\<close>

fun outcome_ok :: "migration_env \<Rightarrow> row_result \<Rightarrow> version_row \<Rightarrow> version_row \<Rightarrow> bool" where
  "outcome_ok env (Succeeded i) v w \<longleftrightarrow> (\<exists>lc sj. w = sealed_row env v lc sj)"
| "outcome_ok env (Skipped i) v w \<longleftrightarrow> w = v \<and> v_resolverVersion v = Some (e_resolver (mg_ids env))"
| "outcome_ok env (Failed f) v w \<longleftrightarrow> v_resolverVersion v \<noteq> Some (e_resolver (mg_ids env)) \<and>
     (case mf_category f of
        InfrastructureFailure \<Rightarrow> w = v
      | IntegrityFailure \<Rightarrow> w = v\<lparr>v_migrationError := Some INTEGRITY_MISMATCH_ERROR\<rparr>
      | _ \<Rightarrow> w = (if v_status v = ARCHIVED then v\<lparr>v_migrationError := Some (mf_error f)\<rparr>
               else v\<lparr>v_migrationError := Some (mf_error f), v_status := ARCHIVED,
                 v_statusBeforeArchive := Some (v_status v), v_archivedByMigration := True\<rparr>))"

lemma failure_category [simp]: "mf_category (failure_at loc cat err codes form reason term kind) = cat"
  "mf_error (failure_at loc cat err codes form reason term kind) = err"
  "rl_id (failure_at loc cat err codes form reason term kind) = rl_id loc"
  by (simp_all add: failure_at_def row_location.defs)

lemma recompile_category:
  "recompile env st loc row owner lc = Inr (Inl f) \<Longrightarrow> mf_category f \<in> {CompileFailure, VocabularyFailure} \<and> rl_id f = rl_id loc"
  by (auto simp: recompile_def compileFailure_def Let_def split: sum.splits scopes_outcome.splits compile_outcome.splits if_splits option.splits)

lemma migrate_step:
  assumes "unique_key v_id (versions_t st)" "unique_key version_key (versions_t st)"
    "migrateVersion env i st = (r, st')"
  shows "result_id r = i \<and> (\<exists>g. versions_t st' = map g (versions_t st) \<and>
    (\<forall>v \<in> set (versions_t st). v_id (g v) = v_id v \<and> v_policyId (g v) = v_policyId v) \<and>
    (\<forall>v \<in> set (versions_t st). v_id v \<noteq> i \<longrightarrow> rehashed v (g v) \<and> ((\<forall>j. r \<noteq> Succeeded j) \<longrightarrow> g v = v)) \<and>
    (\<forall>v \<in> set (versions_t st). v_id v = i \<longrightarrow> outcome_ok env r v (g v)))"
proof (cases "find_first (\<lambda>v. v_id v = i) (versions_t st)")
  case None
  then have "r = Skipped i" "st' = st" using assms(3) by (simp_all add: migrateVersion_def migrateLocked_def)
  then show ?thesis using None by (intro conjI exI [of _ id]) (auto simp: find_first_None)
next
  case (Some row)
  have row: "row \<in> set (versions_t st)" "v_id row = i" using find_first_Some [OF Some] by auto
  have only: "v_id v = i \<longleftrightarrow> v = row" if "v \<in> set (versions_t st)" for v
    using unique_key_eq [OF assms(1) that row(1)] row(2) by auto
  have loc: "rl_id (located row owner) = i" for owner by (simp add: located_def row(2))
  have ver: "versions_t (case p of None \<Rightarrow> s | Some q \<Rightarrow> invalidateCache q s) = versions_t s" for p s
    by (simp add: invalidateCache_def split: option.split)
  show ?thesis
  proof (cases "v_resolverVersion row = Some (e_resolver (mg_ids env))")
    case True
    then have "r = Skipped i" "st' = st"
      using assms(3) Some by (simp_all add: migrateVersion_def migrateLocked_def)
    then show ?thesis using True only by (intro conjI exI [of _ id]) simp_all
  next
    case pending: False
    show ?thesis
    proof (cases "sealIntact env row")
      case False
      then have "r = Failed (failure_at (located row (ownerOf st (v_policyId row))) IntegrityFailure INTEGRITY_MISMATCH_ERROR [] False None None None)"
        "versions_t st' = map (\<lambda>v. if v_id v = i then v\<lparr>v_migrationError := Some INTEGRITY_MISMATCH_ERROR\<rparr> else v) (versions_t st)"
        using assms(3) Some pending by (auto simp: migrateVersion_def migrateLocked_def Let_def set_version_map)
      then show ?thesis
        by (intro conjI exI [of _ "\<lambda>v. if v_id v = i then v\<lparr>v_migrationError := Some INTEGRITY_MISMATCH_ERROR\<rparr> else v"])
          (use only pending in \<open>auto simp: loc\<close>)
    next
      case True
      let ?lc = "resolveStoredVersionLocale (mg_sha env) (mg_detect env) row"
      let ?rc = "recompile env st (located row (ownerOf st (v_policyId row))) row (ownerOf st (v_policyId row)) ?lc"
      have run: "migrateLocked env i st = (case ?rc of
          Inl err \<Rightarrow> Inl (located row (ownerOf st (v_policyId row)), err)
        | Inr (Inl f) \<Rightarrow> Inr ((Failed f, Some (v_policyId row)), writeFailure row (mf_error f) st)
        | Inr (Inr sj) \<Rightarrow> Inr ((Succeeded i, Some (v_policyId row)), writeSuccess env row ?lc sj st))"
        using Some pending True by (simp add: migrateLocked_def Let_def)
      show ?thesis
      proof (cases ?rc)
        case (Inl err)
        then have "r = Failed (failure_at (located row (ownerOf st (v_policyId row))) InfrastructureFailure (truncateMigrationError (Some err)) [] False None None None)"
          "st' = st" using assms(3) run by (auto simp: migrateVersion_def)
        then show ?thesis using only pending by (intro conjI exI [of _ id]) (auto simp: loc)
      next
        case (Inr res)
        show ?thesis
        proof (cases res)
          case (Inl f)
          note cat = recompile_category [OF Inr [unfolded Inl]]
          have r: "r = Failed f" "versions_t st' = versions_t (writeFailure row (mf_error f) st)"
            using assms(3) run Inr Inl by (auto simp: migrateVersion_def ver)
          define g :: "version_row \<Rightarrow> version_row" where "g v = (if v_id v = i then
            (let v1 = v\<lparr>v_migrationError := Some (mf_error f)\<rparr> in
             if v_status row = ARCHIVED then v1
             else v1\<lparr>v_status := ARCHIVED, v_statusBeforeArchive := Some (v_status row), v_archivedByMigration := True\<rparr>) else v)" for v
          have "versions_t st' = map g (versions_t st)"
            using r(2) row(2) by (simp add: writeFailure_def set_version_map g_def [abs_def])
          moreover have "outcome_ok env r v (g v)" if "v \<in> set (versions_t st)" "v_id v = i" for v
          proof -
            have "v = row" using only that by simp
            moreover have "mf_category f = CompileFailure \<or> mf_category f = VocabularyFailure" using cat by auto
            ultimately show ?thesis using row(2) pending by (auto simp: r(1) g_def Let_def)
          qed
          moreover have "v_id (g v) = v_id v \<and> v_policyId (g v) = v_policyId v \<and> (v_id v \<noteq> i \<longrightarrow> g v = v)" for v
            by (simp add: g_def Let_def)
          ultimately show ?thesis using r(1) cat loc by (intro conjI exI [of _ g]) auto
        next
          case (Inr sj)
          have r: "r = Succeeded i" "versions_t st' = versions_t (writeSuccess env row ?lc sj st)"
            using assms(3) run \<open>?rc = Inr res\<close> Inr by (auto simp: migrateVersion_def ver)
          obtain g where g: "writeSuccess env row ?lc sj st = st\<lparr>versions_t := map g (versions_t st)\<rparr>"
            "g row = sealed_row env row ?lc sj"
            "\<And>v. v \<in> set (versions_t st) \<Longrightarrow> v \<noteq> row \<Longrightarrow> rehashed v (g v)"
            "\<And>v. v \<in> set (versions_t st) \<Longrightarrow> v_version (g v) = v_version v \<and> v_policyId (g v) = v_policyId v \<and> v_id (g v) = v_id v"
            using writeSuccess_effect [OF assms(1,2) row(1), of env ?lc sj] by blast
          have "versions_t st' = map g (versions_t st)" using r(2) g(1) by simp
          moreover have "outcome_ok env r v (g v)" if "v \<in> set (versions_t st)" "v_id v = i" for v
            using only that g(2) r(1) by auto
          ultimately show ?thesis using r(1) g(3,4) only by (intro conjI exI [of _ g]) auto
        qed
      qed
    qed
  qed
qed

lemma migrate_step_resolver:
  assumes "unique_key v_id (versions_t st)" "unique_key version_key (versions_t st)"
  shows "\<exists>g. versions_t (snd (migrateVersion env i st)) = map g (versions_t st) \<and>
    (\<forall>v \<in> set (versions_t st). v_id (g v) = v_id v \<and> v_policyId (g v) = v_policyId v \<and>
       (v_id v \<noteq> i \<longrightarrow> v_resolverVersion (g v) = v_resolverVersion v))"
proof -
  obtain g where g: "versions_t (snd (migrateVersion env i st)) = map g (versions_t st)"
    "\<And>v. v \<in> set (versions_t st) \<Longrightarrow> v_id (g v) = v_id v \<and> v_policyId (g v) = v_policyId v"
    "\<And>v. v \<in> set (versions_t st) \<Longrightarrow> v_id v \<noteq> i \<Longrightarrow> rehashed v (g v)"
    using migrate_step [OF assms prod.collapse [symmetric], of env i] by blast
  then show ?thesis using rehashed_fields(5) by (intro exI [of _ g]) blast
qed

lemma migrate_batch_resolver:
  assumes "unique_key v_id (versions_t st)" "unique_key version_key (versions_t st)"
  shows "\<exists>g. versions_t (snd (migrate_batch env is st)) = map g (versions_t st) \<and>
    (\<forall>v \<in> set (versions_t st). v_id (g v) = v_id v \<and> v_policyId (g v) = v_policyId v \<and>
       (v_id v \<notin> set is \<longrightarrow> v_resolverVersion (g v) = v_resolverVersion v))"
  using assms
proof (induction "is" arbitrary: st)
  case Nil
  then show ?case by (intro exI [of _ id]) simp
next
  case (Cons i "is")
  let ?st1 = "snd (migrateVersion env i st)"
  obtain g where g: "versions_t ?st1 = map g (versions_t st)"
    "\<forall>v \<in> set (versions_t st). v_id (g v) = v_id v \<and> v_policyId (g v) = v_policyId v \<and>
       (v_id v \<noteq> i \<longrightarrow> v_resolverVersion (g v) = v_resolverVersion v)"
    using migrate_step_resolver [OF Cons.prems, of env i] by blast
  have "unique_key v_id (versions_t ?st1)" "unique_key version_key (versions_t ?st1)"
    using Cons.prems keys_of_row_keys [OF row_keys_migrateVersion [of env i st]] by simp_all
  then obtain h where h: "versions_t (snd (migrate_batch env is ?st1)) = map h (versions_t ?st1)"
    "\<forall>v \<in> set (versions_t ?st1). v_id (h v) = v_id v \<and> v_policyId (h v) = v_policyId v \<and>
       (v_id v \<notin> set is \<longrightarrow> v_resolverVersion (h v) = v_resolverVersion v)"
    using Cons.IH by blast
  have "versions_t (snd (migrate_batch env (i # is) st)) = map (h \<circ> g) (versions_t st)"
    using g(1) h(1) by (simp add: split_beta Let_def)
  moreover have "\<forall>v \<in> set (versions_t st). v_id ((h \<circ> g) v) = v_id v \<and> v_policyId ((h \<circ> g) v) = v_policyId v \<and>
       (v_id v \<notin> set (i # is) \<longrightarrow> v_resolverVersion ((h \<circ> g) v) = v_resolverVersion v)"
    using g(2) h(2) by (auto simp: g(1))
  ultimately show ?case by blast
qed

lemma result_ids_migrate_batch:
  assumes "unique_key v_id (versions_t st)" "unique_key version_key (versions_t st)"
  shows "map result_id (fst (migrate_batch env is st)) = is"
  using assms
proof (induction "is" arbitrary: st)
  case (Cons i "is")
  have "unique_key v_id (versions_t (snd (migrateVersion env i st)))" "unique_key version_key (versions_t (snd (migrateVersion env i st)))"
    using Cons.prems keys_of_row_keys [OF row_keys_migrateVersion [of env i st]] by simp_all
  then show ?case
    using Cons.IH migrate_step [OF Cons.prems prod.collapse [symmetric], of env i] by (simp add: split_beta Let_def)
qed simp

section \<open>The walk visits every pending row once\<close>

definition pending_after :: "migration_env \<Rightarrow> store \<Rightarrow> string option \<Rightarrow> row_id \<Rightarrow> row_id list" where
  "pending_after env st prefix c = sort (map v_id (select_where
     (\<lambda>v. pending_row (e_resolver (mg_ids env)) prefix v \<and> c < v_id v) (versions_t st)))"

lemma take_le_last:
  fixes xs :: "row_id list"
  assumes "sorted xs" "x \<in> set (take n xs)"
  shows "x \<le> last (take n xs)"
proof -
  let ?b = "take n xs"
  have ne: "?b \<noteq> []" using assms(2) by (metis empty_iff list.set(1))
  have "sorted ?b" using assms(1) by (rule sorted_wrt_take)
  then have "sorted (butlast ?b @ [last ?b])" using ne by simp
  moreover have "x \<in> set (butlast ?b) \<or> x = last ?b"
    using assms(2) ne by (metis append_butlast_last_id in_set_conv_decomp_last rotate1.simps(2) set_ConsD set_rotate1)
  ultimately show ?thesis by (auto simp: sorted_append)
qed

lemma sorted_beyond:
  fixes xs :: "row_id list"
  assumes "sorted xs" "distinct xs" "take n xs \<noteq> []"
  shows "filter (\<lambda>x. last (take n xs) < x) xs = drop n xs"
proof -
  let ?b = "take n xs"
  have split: "xs = ?b @ drop n xs" by simp
  have le: "x \<le> last ?b" if "x \<in> set ?b" for x by (rule take_le_last [OF assms(1) that])
  have gt: "last ?b < x" if "x \<in> set (drop n xs)" for x
  proof -
    have "sorted (?b @ drop n xs)" "distinct (?b @ drop n xs)" using assms(1,2) by simp_all
    then have "last ?b \<le> x \<and> last ?b \<noteq> x"
      unfolding sorted_append distinct_append using that last_in_set [OF assms(3)] by blast
    then show ?thesis by (simp add: less_le)
  qed
  have "filter (\<lambda>x. last ?b < x) ?b = []" using le by (simp add: filter_empty_conv leD)
  moreover have "filter (\<lambda>x. last ?b < x) (drop n xs) = drop n xs" using gt by (simp add: filter_id_conv)
  ultimately show ?thesis by (metis append_Nil filter_append split)
qed

lemma pending_after_batch:
  assumes "unique_key v_id (versions_t st)" "unique_key version_key (versions_t st)" "pendingBatch env st c n prefix = b" "b \<noteq> []"
  shows "pending_after env (snd (migrate_batch env b st)) prefix (last b) = drop n (pending_after env st prefix c)"
proof -
  let ?L = "pending_after env st prefix c"
  let ?P = "\<lambda>v. pending_row (e_resolver (mg_ids env)) prefix v"
  have b: "b = take n ?L" using assms(3) by (simp add: pendingBatch_def pending_after_def)
  have L: "sorted ?L" "distinct ?L"
    using assms(1) by (simp_all add: pending_after_def select_where_def unique_key_def distinct_map_filter)
  have le: "x \<le> last b" if "x \<in> set b" for x
    using take_le_last [OF L(1), of x n] that by (simp add: b)
  have "c < last b" using pendingBatch_mem [of "last b" env st c n prefix] assms(3,4) by auto
  obtain g where g: "versions_t (snd (migrate_batch env b st)) = map g (versions_t st)"
    "\<forall>v \<in> set (versions_t st). v_id (g v) = v_id v \<and> v_policyId (g v) = v_policyId v \<and>
       (v_id v \<notin> set b \<longrightarrow> v_resolverVersion (g v) = v_resolverVersion v)"
    using migrate_batch_resolver [OF assms(1,2), of env b] by blast
  have "map v_id (filter (\<lambda>v. ?P v \<and> last b < v_id v) (map g t)) = map v_id (filter (\<lambda>v. ?P v \<and> last b < v_id v) t)"
    if "set t \<subseteq> set (versions_t st)" for t
    using that
  proof (induction t)
    case (Cons v t)
    have v: "v_id (g v) = v_id v" "v_policyId (g v) = v_policyId v"
      "v_id v \<notin> set b \<Longrightarrow> v_resolverVersion (g v) = v_resolverVersion v"
      using g(2) Cons.prems by auto
    have "?P (g v) = ?P v" if "last b < v_id v"
    proof -
      have "v_id v \<notin> set b" using le that by (meson leD)
      note v(3) [OF this]
      then show ?thesis by (simp only: pending_row_def v(1,2))
    qed
    then have "(?P (g v) \<and> last b < v_id (g v)) = (?P v \<and> last b < v_id v)"
      unfolding v(1) by blast
    then show ?case using Cons v(1) by simp
  qed simp
  then have "pending_after env (snd (migrate_batch env b st)) prefix (last b) = pending_after env st prefix (last b)"
    by (simp add: pending_after_def select_where_def g(1))
  also have "\<dots> = filter (\<lambda>x. last b < x) ?L"
  proof -
    have "map v_id (filter (\<lambda>v. ?P v \<and> last b < v_id v) t) =
        filter (\<lambda>x. last b < x) (map v_id (filter (\<lambda>v. ?P v \<and> c < v_id v) t))" for t
      using \<open>c < last b\<close> by (induction t) auto
    then show ?thesis by (simp add: pending_after_def select_where_def filter_sort)
  qed
  also have "\<dots> = drop n ?L" using sorted_beyond [OF L, of n] assms(4) unfolding b by simp
  finally show ?thesis .
qed

lemma result_ids_batches:
  assumes "unique_key v_id (versions_t st)" "unique_key version_key (versions_t st)" "0 < n"
  shows "map result_id (fst (migrate_batches env n prefix c st)) = pending_after env st prefix c"
  using assms
proof (induction env n prefix c st rule: migrate_batches.induct)
  case (1 env n prefix c st)
  let ?b = "pendingBatch env st c n prefix"
  let ?st1 = "snd (migrate_batch env ?b st)"
  have b: "?b = take n (pending_after env st prefix c)" by (simp add: pendingBatch_def pending_after_def)
  show ?case
  proof (cases "?b = []")
    case True
    then have "pending_after env st prefix c = []" using b 1(4) by simp
    then show ?thesis using True by (subst migrate_batches.simps) simp
  next
    case False
    have "unique_key v_id (versions_t ?st1)" "unique_key version_key (versions_t ?st1)"
      using 1(2,3) keys_of_row_keys [OF row_keys_migrate_batch [of env ?b st]] by simp_all
    then have "map result_id (fst (migrate_batches env n prefix (last ?b) ?st1)) = drop n (pending_after env st prefix c)"
      using 1(1) [OF refl False refl prod.collapse] 1(4) pending_after_batch [OF 1(2,3) refl False] by simp
    moreover have "map result_id (fst (migrate_batch env ?b st)) = take n (pending_after env st prefix c)"
      using result_ids_migrate_batch [OF 1(2,3), of env ?b] by (simp add: b)
    ultimately have "map result_id (fst (migrate_batch env ?b st)) @
        map result_id (fst (migrate_batches env n prefix (last ?b) ?st1)) = pending_after env st prefix c"
      by simp
    then show ?thesis using False by (subst migrate_batches.simps) (simp add: split_beta Let_def)
  qed
qed

text \<open>
  C23: A run ends and visits every pending row (of the policies whose id has the prefix) exactly once,
  in ascending order of the ids, whatever the batch size: the rows that an earlier step rewrites are
  neither visited again nor missed.
\<close>

theorem migration_visits_each_pending_row_once:
  assumes "unique_key v_id (versions_t st)" "unique_key version_key (versions_t st)" "0 < n"
    "[] \<notin> v_id ` set (versions_t st)"
  shows "map result_id (fst (migrate_batches env n prefix [] st)) =
    sort (map v_id (filter (pending_row (e_resolver (mg_ids env)) prefix) (versions_t st)))"
proof -
  have "[] < v_id v" if "v \<in> set (versions_t st)" for v
    using that assms(4) by (cases "v_id v") (auto simp: image_iff)
  then have "filter (\<lambda>v. pending_row (e_resolver (mg_ids env)) prefix v \<and> [] < v_id v) (versions_t st) =
      filter (pending_row (e_resolver (mg_ids env)) prefix) (versions_t st)"
    by (intro filter_cong) auto
  then show ?thesis
    unfolding result_ids_batches [OF assms(1-3)] by (simp add: pending_after_def select_where_def)
qed

theorem migration_visits_each_pending_row_once_witness:
  "map result_id (fst (migrate_batches open_engine 1 None [] unsealed_store)) = [''v1'']"
proof -
  have "[] \<notin> v_id ` set (versions_t unsealed_store)" by (simp add: unsealed_store_def)
  then have "map result_id (fst (migrate_batches open_engine 1 None [] unsealed_store)) =
      sort (map v_id (filter (pending_row (e_resolver (mg_ids open_engine)) None) (versions_t unsealed_store)))"
    using migration_visits_each_pending_row_once [OF unsealed_store_ok(2,3)] by simp
  also have "\<dots> = [''v1'']" by code_simp
  finally show ?thesis .
qed

section \<open>Failures and the status\<close>

text \<open>
  A row whose migration fails keeps its seal: at most its error text and, for a compile or
  vocabulary failure of a row that was not archived, its status with the mark of the migration
  change. No other row changes. An integrity mismatch changes the error text alone, a failure of the
  infrastructure nothing at all, and a compile or vocabulary failure leaves the row archived.
\<close>

theorem failed_migration_keeps_seal:
  assumes "unique_key v_id (versions_t st)" "unique_key version_key (versions_t st)"
    "migrateVersion env i st = (Failed f, st')" "v \<in> set (versions_t st)"
  shows "\<exists>w \<in> set (versions_t st').
    (v_id v \<noteq> i \<longrightarrow> w = v) \<and>
    w = v\<lparr>v_migrationError := v_migrationError w, v_status := v_status w,
          v_statusBeforeArchive := v_statusBeforeArchive w, v_archivedByMigration := v_archivedByMigration w\<rparr> \<and>
    (mf_category f = InfrastructureFailure \<longrightarrow> w = v) \<and>
    (mf_category f = IntegrityFailure \<longrightarrow> v_status w = v_status v \<and> v_archivedByMigration w = v_archivedByMigration v) \<and>
    (v_id v = i \<and> mf_category f \<in> {CompileFailure, VocabularyFailure} \<longrightarrow>
       v_status w = ARCHIVED \<and> v_migrationError w = Some (mf_error f))"
proof -
  obtain g where vs: "versions_t st' = map g (versions_t st)"
    and other: "\<forall>v \<in> set (versions_t st). v_id v \<noteq> i \<longrightarrow> rehashed v (g v) \<and> ((\<forall>j. Failed f \<noteq> Succeeded j) \<longrightarrow> g v = v)"
    and own: "\<forall>v \<in> set (versions_t st). v_id v = i \<longrightarrow> outcome_ok env (Failed f) v (g v)"
    using migrate_step [OF assms(1-3)] by (elim exE conjE) (rule that)
  show ?thesis
  proof (cases "v_id v = i")
    case True
    then have "outcome_ok env (Failed f) v (g v)" using own assms(4) by blast
    then show ?thesis
      using True assms(4) unfolding vs
      by (cases "mf_category f"; cases "v_status v = ARCHIVED") (auto intro!: bexI [of _ v])
  next
    case False
    then have "g v = v" using other assms(4) by simp
    then have "v \<in> set (versions_t st')" using assms(4) unfolding vs by (metis image_eqI list.set_map)
    then show ?thesis using False by (intro bexI [of _ v]) simp_all
  qed
qed

text \<open>An engine whose compiler rejects every source.\<close>

abbreviation strict_engine :: migration_env where
  "strict_engine \<equiv> open_engine\<lparr>mg_compile := (\<lambda>u v t src lc a. Compiled
     [\<lparr>d_severity = SevError, d_code = Some ''E801'', d_message = Some ''field'', d_startLine = None, d_startColumn = None\<rparr>])\<rparr>"

theorem failed_migration_keeps_seal_witness:
  "\<exists>w \<in> set (versions_t (snd (migrateVersion strict_engine ''v1'' unsealed_store))).
     v_status w = ARCHIVED \<and> v_sourceHash w = Some ''sha256:Module loan''"
proof -
  let ?v = "(version_of ''v1'' ''p1'' 1 APPROVED)\<lparr>v_sourceHash := Some ''sha256:Module loan'', v_resolverVersion := None\<rparr>"
  let ?run = "migrateVersion strict_engine ''v1'' unsealed_store"
  let ?f = "(case fst ?run of Failed f \<Rightarrow> f)"
  have "case fst ?run of Failed f \<Rightarrow> True | _ \<Rightarrow> False" by code_simp
  then have "fst ?run = Failed ?f" by (auto split: row_result.splits)
  then have run: "?run = (Failed ?f, snd ?run)" by (metis prod.collapse)
  have cat: "mf_category ?f = CompileFailure" by code_simp
  have "?v \<in> set (versions_t unsealed_store)" by (simp add: unsealed_store_def)
  from failed_migration_keeps_seal [OF unsealed_store_ok(2,3) run this] obtain w where
    w: "w \<in> set (versions_t (snd ?run))"
      "w = ?v\<lparr>v_migrationError := v_migrationError w, v_status := v_status w,
          v_statusBeforeArchive := v_statusBeforeArchive w, v_archivedByMigration := v_archivedByMigration w\<rparr>"
      "v_status w = ARCHIVED"
    using cat by auto
  have "v_sourceHash w = Some ''sha256:Module loan''" by (subst w(2)) simp
  then show ?thesis using w by blast
qed

text \<open>The status a row has once the migration is through with it, and what the marks mean.\<close>

definition lasting_status :: "version_row \<Rightarrow> version_status" where
  "lasting_status v = (if v_archivedByMigration v then nullish (v_statusBeforeArchive v) (v_status v) else v_status v)"

definition marks_ok :: "migration_env \<Rightarrow> version_row \<Rightarrow> bool" where
  "marks_ok env v \<longleftrightarrow> (v_archivedByMigration v \<longrightarrow>
     v_status v = ARCHIVED \<and> v_resolverVersion v \<noteq> Some (e_resolver (mg_ids env)))"

definition status_kept :: "migration_env \<Rightarrow> version_row \<Rightarrow> version_row \<Rightarrow> bool" where
  "status_kept env v w \<longleftrightarrow> v_id w = v_id v \<and>
     (marks_ok env v \<longrightarrow> lasting_status w = lasting_status v \<and> marks_ok env w)"

lemma step_keeps_status:
  assumes "outcome_ok env r v w \<or> rehashed v w" "v_id w = v_id v"
  shows "status_kept env v w"
proof (cases "marks_ok env v")
  case True
  from assms(1) have "lasting_status w = lasting_status v \<and> marks_ok env w"
  proof
    assume "rehashed v w"
    from rehashed_fields [OF this] show ?thesis using True by (simp add: lasting_status_def marks_ok_def)
  next
    assume o: "outcome_ok env r v w"
    show ?thesis
    proof (cases r)
      case (Succeeded i)
      then obtain lc sj where "w = sealed_row env v lc sj" using o by auto
      then show ?thesis by (simp add: lasting_status_def marks_ok_def sealed_row_keys)
    next
      case (Skipped i)
      then show ?thesis using o True by simp
    next
      case (Failed f)
      then show ?thesis
        using o True by (cases "mf_category f"; cases "v_status v = ARCHIVED") (auto simp: lasting_status_def marks_ok_def)
    qed
  qed
  then show ?thesis using assms(2) by (simp add: status_kept_def)
qed (use assms(2) in \<open>simp add: status_kept_def\<close>)

definition statuses_kept :: "migration_env \<Rightarrow> store \<Rightarrow> store \<Rightarrow> bool" where
  "statuses_kept env st st' \<longleftrightarrow> list_all2 (status_kept env) (versions_t st) (versions_t st')"

lemma statuses_kept_refl: "statuses_kept env st st"
  unfolding statuses_kept_def by (rule list_all2_refl) (simp add: status_kept_def)

lemma statuses_kept_trans: "statuses_kept env a b \<Longrightarrow> statuses_kept env b c \<Longrightarrow> statuses_kept env a c"
  unfolding statuses_kept_def by (rule list_all2_trans [of "status_kept env" "status_kept env"]) (auto simp: status_kept_def)

lemma migrateVersion_keeps_statuses:
  assumes "unique_key v_id (versions_t st)" "unique_key version_key (versions_t st)"
  shows "statuses_kept env st (snd (migrateVersion env i st))"
proof -
  obtain r where r: "migrateVersion env i st = (r, snd (migrateVersion env i st))" by (metis prod.collapse)
  from migrate_step [OF assms r] obtain g where g: "versions_t (snd (migrateVersion env i st)) = map g (versions_t st)"
    "\<forall>v \<in> set (versions_t st). v_id (g v) = v_id v \<and> v_policyId (g v) = v_policyId v"
    "\<forall>v \<in> set (versions_t st). v_id v \<noteq> i \<longrightarrow> rehashed v (g v) \<and> ((\<forall>j. r \<noteq> Succeeded j) \<longrightarrow> g v = v)"
    "\<forall>v \<in> set (versions_t st). v_id v = i \<longrightarrow> outcome_ok env r v (g v)"
    by (elim exE conjE) (rule that)
  have "status_kept env v (g v)" if "v \<in> set (versions_t st)" for v
  proof -
    have "outcome_ok env r v (g v) \<or> rehashed v (g v)" using g(3,4) that by (cases "v_id v = i") simp_all
    then show ?thesis by (rule step_keeps_status) (use g(2) that in simp)
  qed
  then show ?thesis by (simp add: statuses_kept_def g(1) list_all2_conv_all_nth)
qed

lemma migrate_batch_keeps_statuses:
  assumes "unique_key v_id (versions_t st)" "unique_key version_key (versions_t st)"
  shows "statuses_kept env st (snd (migrate_batch env is st))"
  using assms
proof (induction "is" arbitrary: st)
  case (Cons i "is")
  let ?st1 = "snd (migrateVersion env i st)"
  have "unique_key v_id (versions_t ?st1)" "unique_key version_key (versions_t ?st1)"
    using Cons.prems keys_of_row_keys [OF row_keys_migrateVersion [of env i st]] by simp_all
  then have "statuses_kept env ?st1 (snd (migrate_batch env is ?st1))" by (rule Cons.IH)
  then show ?case
    using statuses_kept_trans [OF migrateVersion_keeps_statuses [OF Cons.prems]] by (simp add: split_beta Let_def)
qed (simp add: statuses_kept_refl)

lemma migrate_batches_keeps_statuses:
  assumes "unique_key v_id (versions_t st)" "unique_key version_key (versions_t st)"
  shows "statuses_kept env st (snd (migrate_batches env n prefix c st))"
  using assms
proof (induction env n prefix c st rule: migrate_batches.induct)
  case (1 env n prefix c st)
  let ?b = "pendingBatch env st c n prefix"
  let ?st1 = "snd (migrate_batch env ?b st)"
  show ?case
  proof (cases "?b = []")
    case True
    then show ?thesis by (subst migrate_batches.simps) (simp add: statuses_kept_refl)
  next
    case False
    have "unique_key v_id (versions_t ?st1)" "unique_key version_key (versions_t ?st1)"
      using 1(2,3) keys_of_row_keys [OF row_keys_migrate_batch [of env ?b st]] by simp_all
    then have "statuses_kept env ?st1 (snd (migrate_batches env n prefix (last ?b) ?st1))"
      using 1(1) [OF refl False refl prod.collapse] by simp
    then have "statuses_kept env st (snd (migrate_batches env n prefix (last ?b) ?st1))"
      by (rule statuses_kept_trans [OF migrate_batch_keeps_statuses [OF 1(2,3)]])
    then show ?thesis using False by (subst migrate_batches.simps) (simp add: split_beta Let_def)
  qed
qed

text \<open>
  C38: The migration never loses the status a version had before it archived the version. Through
  any two runs (a first one whose failures archive rows and a later one, possibly with another
  engine of the same resolver, that succeeds on them) each row keeps its lasting status, and a row
  that is migrated at the end has that status again.
\<close>

theorem migration_restores_status:
  assumes "unique_key v_id (versions_t st)" "unique_key version_key (versions_t st)"
    "st1 = snd (runResolverMigration env n prefix st)" "st2 = snd (runResolverMigration env' n' prefix' st1)"
    "e_resolver (mg_ids env') = e_resolver (mg_ids env)" "v \<in> set (versions_t st)" "marks_ok env v"
  shows "\<exists>w \<in> set (versions_t st2). v_id w = v_id v \<and> lasting_status w = lasting_status v \<and> marks_ok env w \<and>
    (v_resolverVersion w = Some (e_resolver (mg_ids env)) \<longrightarrow> v_status w = lasting_status v)"
proof -
  have run: "snd (runResolverMigration e k p s) = snd (migrate_batches e (nullish k RESOLVER_MIGRATION_BATCH_SIZE) p [] s)" for e k p s
    by (simp add: runResolverMigration_def split_beta)
  have "unique_key v_id (versions_t st1)" "unique_key version_key (versions_t st1)"
    unfolding assms(3) run keys_of_row_keys [OF row_keys_migrate_batches] by (rule assms(1), rule assms(2))
  then have "statuses_kept env' st1 st2" unfolding assms(4) run by (rule migrate_batches_keeps_statuses)
  moreover have "status_kept env' = status_kept env"
    using assms(5) by (simp add: status_kept_def [abs_def] marks_ok_def)
  moreover have "statuses_kept env st st1" unfolding assms(3) run by (rule migrate_batches_keeps_statuses [OF assms(1,2)])
  ultimately have "statuses_kept env st st2" using statuses_kept_trans by (simp add: statuses_kept_def)
  then obtain w where w: "w \<in> set (versions_t st2)" "status_kept env v w"
    using assms(6) unfolding statuses_kept_def by (metis in_set_conv_nth list_all2_conv_all_nth)
  then have "v_id w = v_id v" "lasting_status w = lasting_status v" "marks_ok env w"
    using assms(7) by (simp_all add: status_kept_def)
  then show ?thesis using w(1) by (intro bexI [of _ w]) (auto simp: marks_ok_def lasting_status_def split: if_splits)
qed

theorem migration_restores_status_witness:
  "(let st1 = snd (runResolverMigration strict_engine None None unsealed_store);
        st2 = snd (runResolverMigration open_engine None None st1)
    in map v_status (versions_t st1) = [ARCHIVED, DRAFT] \<and>
       (\<exists>w \<in> set (versions_t st2). v_id w = ''v1'' \<and> lasting_status w = APPROVED))"
proof -
  let ?v = "(version_of ''v1'' ''p1'' 1 APPROVED)\<lparr>v_sourceHash := Some ''sha256:Module loan'', v_resolverVersion := None\<rparr>"
  let ?st1 = "snd (runResolverMigration strict_engine None None unsealed_store)"
  let ?st2 = "snd (runResolverMigration open_engine None None ?st1)"
  have m: "?v \<in> set (versions_t unsealed_store)" "marks_ok strict_engine ?v"
    by (simp_all add: unsealed_store_def marks_ok_def)
  have e: "e_resolver (mg_ids open_engine) = e_resolver (mg_ids strict_engine)" by simp
  have k: "v_id ?v = ''v1''" "lasting_status ?v = APPROVED" by (simp_all add: lasting_status_def)
  from migration_restores_status [OF unsealed_store_ok(2,3) refl refl e m, of None None None None]
  obtain w where w: "w \<in> set (versions_t ?st2)" "v_id w = v_id ?v" "lasting_status w = lasting_status ?v"
    by (elim bexE conjE) (rule that)
  have "\<exists>w \<in> set (versions_t ?st2). v_id w = ''v1'' \<and> lasting_status w = APPROVED"
    by (rule bexI [OF _ w(1)]) (simp only: w(2,3) k simp_thms)
  moreover have "map v_status (versions_t ?st1) = [ARCHIVED, DRAFT]" by code_simp
  ultimately show ?thesis by (simp only: Let_def simp_thms)
qed

text \<open>
  The failure branch of the migration does not look at the default mark: a policy's default
  version ends up archived and still the default, and the execution path keeps choosing it.
\<close>

theorem migration_archives_default_version:
  "(let v = (version_of ''v1'' ''p1'' 1 APPROVED)\<lparr>v_sourceHash := Some ''sha256:Module loan'', v_resolverVersion := None,
              v_isDefault := True\<rparr>;
        st = snd (migrateVersion strict_engine ''v1'' (unsealed_store\<lparr>versions_t := [v]\<rparr>))
    in map (\<lambda>w. (v_isDefault w, v_status w)) (versions_t st) = [(True, ARCHIVED)] \<and>
       map (\<lambda>w. snd (resolveExecutableVersion [w] w)) (versions_t st) = [ByDefault])"
  unfolding Let_def by (intro conjI; code_simp)

end
