(* ===== verification/TwoFactor.thy ===== *)
theory TwoFactor
  imports Prelude
begin

text \<open>
  The one-time codes sent by mail (\<open>lib/two-factor.ts\<close>). Each address has one row; issuing and
  verifying read the row, decide, and write with a single conditional statement, so both are split
  at that point: \<open>issue_check\<close> and \<open>verify_check\<close> see the row that was read, \<open>issue_write\<close> and
  \<open>verify_write\<close> see the table at the time of the write. SHA-256 is the parameter \<open>sha\<close>; the random
  code and the row id are arguments. Times are milliseconds.
\<close>

record two_factor_row =
  tf_id :: row_id
  tf_email :: string
  tf_codeHash :: string
  tf_expires :: date
  tf_attempts :: nat
  tf_windowAttempts :: nat
  tf_windowStartedAt :: "date option"
  tf_windowIssued :: nat
  tf_createdAt :: date

type_synonym two_factor_table = "two_factor_row table"

definition CODE_TTL_MINUTES :: int where "CODE_TTL_MINUTES = 10"
definition MAX_ATTEMPTS :: nat where "MAX_ATTEMPTS = 5"
definition WINDOW_MINUTES :: int where "WINDOW_MINUTES = 60"
definition MAX_WINDOW_ATTEMPTS :: nat where "MAX_WINDOW_ATTEMPTS = 15"
definition MAX_WINDOW_ISSUED :: nat where "MAX_WINDOW_ISSUED = 5"

definition code_ttl :: int where "code_ttl = CODE_TTL_MINUTES * 60000"
definition window_ms :: int where "window_ms = WINDOW_MINUTES * 60000"

lemmas two_factor_limits = CODE_TTL_MINUTES_def MAX_ATTEMPTS_def WINDOW_MINUTES_def
  MAX_WINDOW_ATTEMPTS_def MAX_WINDOW_ISSUED_def code_ttl_def window_ms_def

text \<open>\<open>email.toLowerCase().trim()\<close>.\<close>

definition mail_key :: "string \<Rightarrow> string" where
  "mail_key email = js_trim (js_lower email)"

section \<open>Codes and their comparison\<close>

text \<open>The six digits of a random number below a million, padded with zeros.\<close>

definition generateCode :: "nat \<Rightarrow> string" where
  "generateCode r = replicate (6 - length (dec r)) CHR ''0'' @ dec r"

definition safeEqualHex :: "string \<Rightarrow> string \<Rightarrow> bool" where
  "safeEqualHex a b \<longleftrightarrow> length a = length b \<and> hex_bytes a = hex_bytes b"

section \<open>Issuing\<close>

definition window_alive :: "two_factor_row option \<Rightarrow> date \<Rightarrow> bool" where
  "window_alive prev now =
     (case prev of None \<Rightarrow> False
      | Some p \<Rightarrow> (case tf_windowStartedAt p of None \<Rightarrow> False | Some s \<Rightarrow> now - s < window_ms))"

record issue_plan =
  ip_startedAt :: date
  ip_attempts :: nat
  ip_issued :: nat

text \<open>The part before the write: \<open>None\<close> is WINDOW_EXCEEDED.\<close>

definition issue_check :: "two_factor_row option \<Rightarrow> date \<Rightarrow> issue_plan option" where
  "issue_check prev now =
     (let alive = window_alive prev now;
          attempts = (if alive then tf_windowAttempts (the prev) else 0);
          issued = (if alive then tf_windowIssued (the prev) else 0) + 1
      in if alive \<and> MAX_WINDOW_ATTEMPTS \<le> attempts then None
         else if alive \<and> MAX_WINDOW_ISSUED < issued then None
         else Some \<lparr>ip_startedAt = (if alive then nullish (tf_windowStartedAt (the prev)) now else now),
                    ip_attempts = attempts, ip_issued = issued\<rparr>)"

text \<open>
  The upsert. The CASE expressions and the condition of the update look at the row as it is then;
  a comparison with a null window start is unknown, which selects ELSE in a CASE and makes an OR
  depend on its other side.
\<close>

definition window_open :: "two_factor_row \<Rightarrow> date \<Rightarrow> bool" where
  "window_open r now = (case tf_windowStartedAt r of None \<Rightarrow> False | Some s \<Rightarrow> now - window_ms < s)"

definition window_closed :: "two_factor_row \<Rightarrow> date \<Rightarrow> bool" where
  "window_closed r now = (case tf_windowStartedAt r of None \<Rightarrow> False | Some s \<Rightarrow> s \<le> now - window_ms)"

definition reissue :: "(string \<Rightarrow> string) \<Rightarrow> string \<Rightarrow> date \<Rightarrow> two_factor_row \<Rightarrow> two_factor_row" where
  "reissue sha code now r = r\<lparr>tf_codeHash := sha code, tf_expires := now + code_ttl, tf_attempts := 0,
     tf_windowAttempts := (if window_open r now then tf_windowAttempts r else 0),
     tf_windowStartedAt := (if window_open r now then tf_windowStartedAt r else Some now),
     tf_windowIssued := (if window_open r now then tf_windowIssued r + 1 else 1)\<rparr>"

definition issue_write ::
  "(string \<Rightarrow> string) \<Rightarrow> string \<Rightarrow> row_id \<Rightarrow> string \<Rightarrow> date \<Rightarrow> issue_plan \<Rightarrow> two_factor_table \<Rightarrow> bool \<times> two_factor_table" where
  "issue_write sha email newId code now plan t =
     (case find_first (\<lambda>r. tf_email r = email) t of
        None \<Rightarrow> (True, insert_row \<lparr>tf_id = newId, tf_email = email, tf_codeHash = sha code,
            tf_expires = now + code_ttl, tf_attempts = 0, tf_windowAttempts = ip_attempts plan,
            tf_windowStartedAt = Some (ip_startedAt plan), tf_windowIssued = ip_issued plan, tf_createdAt = now\<rparr> t)
      | Some r \<Rightarrow>
          if window_closed r now \<or> tf_windowIssued r < MAX_WINDOW_ISSUED
          then (True, update_where (\<lambda>r. tf_email r = email) (reissue sha code now) t)
          else (False, t))"

text \<open>The whole call; the left side is WINDOW_EXCEEDED, the right side the code to be mailed.\<close>

definition issueCode ::
  "(string \<Rightarrow> string) \<Rightarrow> string \<Rightarrow> row_id \<Rightarrow> nat \<Rightarrow> date \<Rightarrow> two_factor_table \<Rightarrow> (unit + string) \<times> two_factor_table" where
  "issueCode sha email newId rnd now t =
     (let key = mail_key email; code = generateCode rnd in
      case issue_check (find_first (\<lambda>r. tf_email r = key) t) now of
        None \<Rightarrow> (Inl (), t)
      | Some plan \<Rightarrow>
          (case issue_write sha key newId code now plan t of
             (True, t') \<Rightarrow> (Inr code, t') | (False, t') \<Rightarrow> (Inl (), t')))"

section \<open>Verifying\<close>

datatype verify_reason = NO_CODE | EXPIRED | TOO_MANY_ATTEMPTS | MISMATCH

text \<open>What is left to do once the row has been read and the code compared.\<close>

datatype verify_plan = Refuse verify_reason | CountMiss row_id | Consume row_id

definition verify_check ::
  "(string \<Rightarrow> string) \<Rightarrow> string \<Rightarrow> date \<Rightarrow> two_factor_row option \<Rightarrow> verify_plan" where
  "verify_check sha code now found =
     (case found of
        None \<Rightarrow> Refuse NO_CODE
      | Some row \<Rightarrow>
          if tf_expires row \<le> now then Refuse EXPIRED
          else if MAX_ATTEMPTS \<le> tf_attempts row \<or> MAX_WINDOW_ATTEMPTS \<le> tf_windowAttempts row
          then Refuse TOO_MANY_ATTEMPTS
          else if \<not> safeEqualHex (tf_codeHash row) (sha code) then CountMiss (tf_id row)
          else Consume (tf_id row))"

definition count_miss :: "two_factor_row \<Rightarrow> two_factor_row" where
  "count_miss r = r\<lparr>tf_attempts := tf_attempts r + 1, tf_windowAttempts := tf_windowAttempts r + 1\<rparr>"

definition consume :: "date \<Rightarrow> two_factor_row \<Rightarrow> two_factor_row" where
  "consume now r = r\<lparr>tf_codeHash := [], tf_expires := now - 1\<rparr>"

definition verify_write ::
  "verify_plan \<Rightarrow> date \<Rightarrow> two_factor_table \<Rightarrow> (verify_reason + unit) \<times> two_factor_table" where
  "verify_write plan now t =
     (case plan of
        Refuse reason \<Rightarrow> (Inl reason, t)
      | CountMiss i \<Rightarrow>
          let hit = (\<lambda>r. tf_id r = i \<and> tf_attempts r < MAX_ATTEMPTS) in
          if find_first hit t = None then (Inl TOO_MANY_ATTEMPTS, t)
          else (Inl MISMATCH, update_where hit count_miss t)
      | Consume i \<Rightarrow> (Inr (), update_where (\<lambda>r. tf_id r = i) (consume now) t))"

definition verifyCode ::
  "(string \<Rightarrow> string) \<Rightarrow> string \<Rightarrow> string \<Rightarrow> date \<Rightarrow> two_factor_table \<Rightarrow> (verify_reason + unit) \<times> two_factor_table" where
  "verifyCode sha email code now t =
     verify_write (verify_check sha code now (find_first (\<lambda>r. tf_email r = mail_key email) t)) now t"

section \<open>Clean-up and throttling\<close>

definition purgeExpiredCodes :: "date \<Rightarrow> two_factor_table \<Rightarrow> nat \<times> two_factor_table" where
  "purgeExpiredCodes now t =
     (let gone = (\<lambda>r. tf_expires r < now \<and>
            (case tf_windowStartedAt r of None \<Rightarrow> True | Some s \<Rightarrow> s < now - window_ms))
      in (count_where gone t, delete_where gone t))"

definition hasActiveCode :: "string \<Rightarrow> date \<Rightarrow> two_factor_table \<Rightarrow> bool" where
  "hasActiveCode email now t \<longleftrightarrow>
     find_first (\<lambda>r. tf_email r = mail_key email \<and> now < tf_expires r) t \<noteq> None"

end
