(* ===== verification/TwoFactorFacts.thy ===== *)
theory TwoFactorFacts
  imports TwoFactor
begin

text \<open>
  What the counters of the mailed codes guarantee. Requests that do not overlap have a budget per
  window; requests that overlap keep the counters bounded, but the comparison itself is not counted
  before it happens.
\<close>

section \<open>Requests one after the other\<close>

datatype code_request =
    IssueRequest string row_id nat date
  | VerifyRequest string string date
  | PurgeRequest date

fun request_time :: "code_request \<Rightarrow> date" where
  "request_time (IssueRequest _ _ _ now) = now"
| "request_time (VerifyRequest _ _ now) = now"
| "request_time (PurgeRequest now) = now"

datatype code_event = CodeSent string | GuessMissed string | GuessHit string | NoEvent

fun code_step :: "(string \<Rightarrow> string) \<Rightarrow> code_request \<Rightarrow> two_factor_table \<Rightarrow> code_event \<times> two_factor_table" where
  "code_step sha (IssueRequest email i rnd now) t =
     (case issueCode sha email i rnd now t of
        (Inr _, t') \<Rightarrow> (CodeSent (mail_key email), t') | (Inl _, t') \<Rightarrow> (NoEvent, t'))"
| "code_step sha (VerifyRequest email code now) t =
     (case verifyCode sha email code now t of
        (Inr _, t') \<Rightarrow> (GuessHit (mail_key email), t')
      | (Inl r, t') \<Rightarrow> (if r = MISMATCH then GuessMissed (mail_key email) else NoEvent, t'))"
| "code_step sha (PurgeRequest now) t = (NoEvent, snd (purgeExpiredCodes now t))"

fun code_run :: "(string \<Rightarrow> string) \<Rightarrow> code_request list \<Rightarrow> two_factor_table \<Rightarrow> code_event list" where
  "code_run sha [] t = []"
| "code_run sha (q # qs) t = (case code_step sha q t of (e, t') \<Rightarrow> e # code_run sha qs t')"

abbreviation row_of :: "string \<Rightarrow> two_factor_table \<Rightarrow> two_factor_row option" where
  "row_of key t \<equiv> find_first (\<lambda>r. tf_email r = key) t"

text \<open>What is left of the budget of an address inside the hour that starts at \<open>a\<close>.\<close>

definition code_budget :: "date \<Rightarrow> two_factor_row option \<Rightarrow> nat \<Rightarrow> nat \<Rightarrow> nat \<Rightarrow> bool" where
  "code_budget a found sent missed hits \<longleftrightarrow>
     (case found of
        None \<Rightarrow> sent = 0 \<and> missed = 0 \<and> hits = 0
      | Some r \<Rightarrow> (\<exists>s. tf_windowStartedAt r = Some s \<and> a \<le> s \<and> s < a + window_ms) \<and>
          sent \<le> tf_windowIssued r \<and> tf_windowIssued r \<le> MAX_WINDOW_ISSUED \<and>
          missed \<le> tf_windowAttempts r \<and> missed \<le> MAX_WINDOW_ATTEMPTS \<and>
          hits + (if tf_codeHash r = [] then 0 else 1) \<le> sent)"

lemma tf_email_reissue [simp]: "tf_email (reissue sha code now r) = tf_email r"
  by (simp add: reissue_def)

lemma tf_email_count_miss [simp]: "tf_email (count_miss r) = tf_email r"
  by (simp add: count_miss_def)

lemma tf_email_consume [simp]: "tf_email (consume now r) = tf_email r"
  by (simp add: consume_def)

lemma verify_write_rows:
  "snd (verify_write plan now t) = t \<or>
   (\<exists>p f. snd (verify_write plan now t) = update_where p f t \<and> (\<forall>r. tf_email (f r) = tf_email r))"
  by (cases plan) (auto simp: verify_write_def Let_def intro!: exI)

lemma row_of_update:
  assumes "\<And>r. tf_email (f r) = tf_email r"
  shows "row_of key (update_where p f t) = map_option (\<lambda>r. if p r then f r else r) (row_of key t)"
  by (rule find_first_update_where) (simp add: assms)

lemma unique_email_issue_write:
  assumes "unique_key tf_email t"
  shows "unique_key tf_email (snd (issue_write sha key i code now plan t))"
  using assms
  by (auto simp: issue_write_def find_first_None image_iff split: option.split
      intro!: unique_key_insert_row unique_key_update_where)

lemma unique_email_verify_write:
  assumes "unique_key tf_email t"
  shows "unique_key tf_email (snd (verify_write plan now t))"
  using assms by (cases plan) (auto simp: verify_write_def Let_def intro!: unique_key_update_where)

lemma unique_email_purge:
  "unique_key tf_email t \<Longrightarrow> unique_key tf_email (snd (purgeExpiredCodes now t))"
  by (simp add: purgeExpiredCodes_def Let_def unique_key_delete_where)

lemma unique_email_step:
  assumes "unique_key tf_email t"
  shows "unique_key tf_email (snd (code_step sha q t))"
proof (cases q)
  case (IssueRequest e i r n)
  then show ?thesis
    using assms unique_email_issue_write [OF assms]
    by (auto simp: issueCode_def Let_def split: option.split prod.split bool.split) (metis snd_conv)+
next
  case (VerifyRequest e c n)
  then show ?thesis
    using unique_email_verify_write [OF assms]
    by (auto simp: verifyCode_def split: prod.split sum.split) (metis snd_conv)+
next
  case (PurgeRequest n)
  then show ?thesis using assms by (simp add: unique_email_purge)
qed

lemma window_alive_in_hour:
  assumes "tf_windowStartedAt r = Some s" "a \<le> s" "s < a + window_ms" "a \<le> now" "now < a + window_ms"
  shows "window_alive (Some r) now" "window_open r now" "\<not> window_closed r now"
  using assms by (simp_all add: window_alive_def window_open_def window_closed_def)

lemma budget_issue:
  assumes "unique_key tf_email t" "code_budget a (row_of key t) sent missed hits" "\<And>c. sha c \<noteq> []"
    "a \<le> now" "now < a + window_ms" "issue_check (row_of key t) now = Some plan"
  shows "case issue_write sha key i code now plan t of
    (ok, t') \<Rightarrow> code_budget a (row_of key t') (sent + (if ok then 1 else 0)) missed hits"
proof (cases "row_of key t")
  case None
  then have "plan = \<lparr>ip_startedAt = now, ip_attempts = 0, ip_issued = 1\<rparr>" "sent = 0" "missed = 0" "hits = 0"
    using assms(2,6) by (simp_all add: issue_check_def window_alive_def code_budget_def Let_def)
  then show ?thesis
    using None assms(3-5) by (simp add: issue_write_def find_first_insert_new code_budget_def two_factor_limits)
next
  case (Some r)
  then obtain s where s: "tf_windowStartedAt r = Some s" "a \<le> s" "s < a + window_ms"
    and b: "sent \<le> tf_windowIssued r" "tf_windowIssued r \<le> MAX_WINDOW_ISSUED" "missed \<le> tf_windowAttempts r"
      "missed \<le> MAX_WINDOW_ATTEMPTS" "hits + (if tf_codeHash r = [] then 0 else 1) \<le> sent"
    using assms(2) by (auto simp: code_budget_def)
  note w = window_alive_in_hour [OF s assms(4,5)]
  have k: "tf_email r = key" using find_first_Some [OF Some] by simp
  have row: "row_of key (update_where (\<lambda>r. tf_email r = key) (reissue sha code now) t) = Some (reissue sha code now r)"
    using Some k by (simp add: row_of_update)
  show ?thesis
    using Some w s b row assms(3)
    by (auto simp: issue_write_def code_budget_def reissue_def split: if_splits)
qed

lemma budget_other_write:
  assumes "code_budget a (row_of key t) sent missed hits" "\<And>r. tf_email (f r) = tf_email r"
    "\<And>r. tf_windowStartedAt (f r) = tf_windowStartedAt r" "\<And>r. tf_windowIssued (f r) = tf_windowIssued r"
    "\<And>r. tf_windowAttempts r \<le> tf_windowAttempts (f r)" "\<And>r. tf_codeHash (f r) = tf_codeHash r \<or> tf_codeHash (f r) = []"
  shows "code_budget a (row_of key (update_where p f t)) sent missed hits"
proof (cases "row_of key t")
  case None
  then show ?thesis using assms(1) by (simp add: row_of_update [OF assms(2)])
next
  case (Some r)
  have "missed \<le> tf_windowAttempts (f r)" if "missed \<le> tf_windowAttempts r" using that assms(5) [of r] by linarith
  then show ?thesis
    using Some assms(1,3,4) assms(6) [of r]
    by (auto simp: row_of_update [OF assms(2)] code_budget_def split: if_splits)
qed

lemma budget_issue_elsewhere:
  assumes "code_budget a (row_of key t) sent missed hits" "key' \<noteq> key"
  shows "code_budget a (row_of key (snd (issue_write sha key' i code now plan t))) sent missed hits"
proof -
  have "row_of key (update_where (\<lambda>r. tf_email r = key') (reissue sha code now) t) = row_of key t"
    using assms(2) find_first_Some [of "\<lambda>r. tf_email r = key" t]
    by (auto simp: row_of_update split: option.split cong: map_option_cong) (cases "row_of key t"; auto)
  then show ?thesis
    using assms by (auto simp: issue_write_def find_first_insert_other split: option.split)
qed

lemma budget_verify:
  assumes "code_budget a (row_of key t) sent missed hits" "\<And>c. sha c \<noteq> []" "mail_key email = key"
  shows "case verifyCode sha email code now t of (res, t') \<Rightarrow>
    code_budget a (row_of key t') sent (missed + (if res = Inl MISMATCH then 1 else 0)) (hits + (if res = Inr () then 1 else 0))"
proof (cases "row_of key t")
  case None
  then show ?thesis using assms by (simp add: verifyCode_def verify_check_def verify_write_def)
next
  case (Some r)
  have k: "tf_email r = key" "r \<in> set t" using find_first_Some [OF Some] by simp_all
  show ?thesis
  proof (cases "verify_check sha code now (Some r)")
    case (Refuse x)
    then have "x \<noteq> MISMATCH" by (auto simp: verify_check_def split: if_splits)
    then show ?thesis using assms Some Refuse by (simp add: verifyCode_def verify_write_def)
  next
    case (CountMiss j)
    let ?hit = "\<lambda>q. tf_id q = j \<and> tf_attempts q < MAX_ATTEMPTS"
    have h: "?hit r" "tf_windowAttempts r < MAX_WINDOW_ATTEMPTS" using CountMiss by (auto simp: verify_check_def split: if_splits)
    then obtain y where "find_first ?hit t = Some y" using find_first_in [OF k(2), of ?hit] by auto
    moreover have "row_of key (update_where ?hit count_miss t) = Some (count_miss r)"
      using Some h by (simp add: row_of_update)
    moreover have "code_budget a (Some (count_miss r)) sent (missed + 1) hits"
      using assms(1) Some h by (auto simp: code_budget_def count_miss_def)
    ultimately show ?thesis
      using assms(3) Some CountMiss by (simp add: verifyCode_def verify_write_def Let_def)
  next
    case (Consume j)
    have "safeEqualHex (tf_codeHash r) (sha code)" "j = tf_id r" using Consume by (auto simp: verify_check_def split: if_splits)
    then have "tf_codeHash r \<noteq> []" using assms(2) [of code] by (auto simp: safeEqualHex_def)
    then have "code_budget a (Some (consume now r)) sent missed (hits + 1)"
      using assms(1) Some by (auto simp: code_budget_def consume_def)
    moreover have "row_of key (update_where (\<lambda>q. tf_id q = j) (consume now) t) = Some (consume now r)"
      using Some \<open>j = tf_id r\<close> by (simp add: row_of_update)
    ultimately show ?thesis
      using assms(3) Some Consume by (simp add: verifyCode_def verify_write_def)
  qed
qed

lemma budget_verify_elsewhere:
  assumes "code_budget a (row_of key t) sent missed hits"
  shows "code_budget a (row_of key (snd (verify_write plan now t))) sent missed hits"
proof (cases plan)
  case (CountMiss i)
  show ?thesis unfolding CountMiss verify_write_def Let_def
    using assms by (auto intro!: budget_other_write simp: count_miss_def)
next
  case (Consume i)
  show ?thesis unfolding Consume verify_write_def
    using assms by (auto intro!: budget_other_write simp: consume_def)
qed (simp add: verify_write_def assms)

lemma budget_purge:
  assumes "code_budget a (row_of key t) sent missed hits" "now < a + window_ms"
  shows "code_budget a (row_of key (snd (purgeExpiredCodes now t))) sent missed hits"
proof (cases "row_of key t")
  case None
  then have "row_of key (snd (purgeExpiredCodes now t)) = None"
    by (auto simp: find_first_None purgeExpiredCodes_def Let_def)
  then show ?thesis using assms(1) None by simp
next
  case (Some r)
  then obtain s where "tf_windowStartedAt r = Some s" "a \<le> s" using assms(1) by (auto simp: code_budget_def)
  then have "\<not> (case tf_windowStartedAt r of None \<Rightarrow> True | Some s \<Rightarrow> s < now - window_ms)" using assms(2) by simp
  then have "row_of key (snd (purgeExpiredCodes now t)) = Some r"
    using Some unfolding purgeExpiredCodes_def Let_def snd_conv
    by (induction t) (auto split: if_splits)
  then show ?thesis using assms(1) Some by simp
qed

text \<open>One request: the event it produces is what the budget of the address is charged.\<close>

lemma budget_step:
  assumes "unique_key tf_email t" "code_budget a (row_of key t) sent missed hits" "\<And>c. sha c \<noteq> []"
    "a \<le> request_time q" "request_time q < a + window_ms" "code_step sha q t = (e, t')"
  shows "code_budget a (row_of key t') (sent + count_list [e] (CodeSent key))
    (missed + count_list [e] (GuessMissed key)) (hits + count_list [e] (GuessHit key))"
proof (cases q)
  case (IssueRequest email i rnd now)
  show ?thesis
  proof (cases "issue_check (row_of (mail_key email) t) now")
    case None
    then have "e = NoEvent" "t' = t" using assms(6) IssueRequest by (simp_all add: issueCode_def Let_def)
    then show ?thesis using assms(2) by simp
  next
    case (Some plan)
    let ?w = "issue_write sha (mail_key email) i (generateCode rnd) now plan t"
    have e: "t' = snd ?w" "e = (if fst ?w then CodeSent (mail_key email) else NoEvent)"
      using assms(6) IssueRequest Some by (auto simp: issueCode_def Let_def split: prod.splits bool.splits)
    show ?thesis
    proof (cases "mail_key email = key")
      case True
      then have "case ?w of (ok, t') \<Rightarrow> code_budget a (row_of key t') (sent + (if ok then 1 else 0)) missed hits"
        using budget_issue [OF assms(1,2,3)] assms(4,5) IssueRequest Some by simp
      then show ?thesis using e True by (auto split: prod.splits)
    next
      case False
      then show ?thesis using e budget_issue_elsewhere [OF assms(2) False] by auto
    qed
  qed
next
  case (VerifyRequest email code now)
  let ?v = "verifyCode sha email code now t"
  have e: "t' = snd ?v" "e = (case fst ?v of Inr _ \<Rightarrow> GuessHit (mail_key email)
      | Inl r \<Rightarrow> if r = MISMATCH then GuessMissed (mail_key email) else NoEvent)"
    using assms(6) VerifyRequest by (auto split: prod.splits sum.splits)
  show ?thesis
  proof (cases "mail_key email = key")
    case True
    show ?thesis
      using budget_verify [OF assms(2) _ True, of sha code now] assms(3) e True by (auto split: prod.splits sum.splits)
  next
    case False
    then show ?thesis
      using e budget_verify_elsewhere [OF assms(2)] by (auto simp: verifyCode_def split: sum.splits)
  qed
next
  case (PurgeRequest now)
  then show ?thesis using assms(6) budget_purge [OF assms(2)] assms(5) by auto
qed

lemma count_list_Cons': "count_list (x # xs) v = count_list [x] v + count_list xs v"
  by simp

lemma budget_run:
  assumes "unique_key tf_email t" "code_budget a (row_of key t) sent missed hits" "\<And>c. sha c \<noteq> []"
    "\<And>q. q \<in> set qs \<Longrightarrow> a \<le> request_time q \<and> request_time q < a + window_ms"
  shows "\<exists>found. code_budget a found (sent + count_list (code_run sha qs t) (CodeSent key))
    (missed + count_list (code_run sha qs t) (GuessMissed key)) (hits + count_list (code_run sha qs t) (GuessHit key))"
  using assms(1,2,4)
proof (induction qs arbitrary: t sent missed hits)
  case Nil
  then show ?case by auto
next
  case (Cons q qs)
  obtain e t' where step: "code_step sha q t = (e, t')" by fastforce
  have u: "unique_key tf_email t'" using unique_email_step [OF Cons.prems(1), of sha q] step by simp
  have time: "a \<le> request_time q" "request_time q < a + window_ms" using Cons.prems(3) [of q] by simp_all
  note b = budget_step [OF Cons.prems(1,2) assms(3) time step]
  have "\<And>p. p \<in> set qs \<Longrightarrow> a \<le> request_time p \<and> request_time p < a + window_ms" using Cons.prems(3) by simp
  from Cons.IH [OF u b this] show ?case
    unfolding code_run.simps step prod.case count_list_Cons' [of e "code_run sha qs t'"] by (simp only: add.assoc)
qed


text \<open>Seven wrong guesses at one code, then a request for another one and the right guess.\<close>

definition guessing_run :: "code_request list" where
  "guessing_run = IssueRequest ''A@b'' ''1'' 7 0 #
     replicate 7 (VerifyRequest ''a@b'' ''0'' 1) @ [IssueRequest ''a@b'' ''2'' 8 2, VerifyRequest ''a@b'' ''000008'' 3]"


section \<open>Requests that overlap\<close>

text \<open>
  A request in flight has read its row and holds what it will write. Any number of them can be in
  flight, and they write in any order, at any time.
\<close>

datatype code_inflight =
    Issuing string row_id string date issue_plan
  | Verifying verify_plan date

record code_system =
  cs_rows :: two_factor_table
  cs_inflight :: "code_inflight set"

fun finish_request :: "(string \<Rightarrow> string) \<Rightarrow> code_inflight \<Rightarrow> two_factor_table \<Rightarrow> two_factor_table" where
  "finish_request sha (Issuing key i code now plan) t = snd (issue_write sha key i code now plan t)"
| "finish_request sha (Verifying plan now) t = snd (verify_write plan now t)"

inductive code_reach :: "(string \<Rightarrow> string) \<Rightarrow> code_system \<Rightarrow> bool" for sha where
  code_start: "code_reach sha \<lparr>cs_rows = [], cs_inflight = {}\<rparr>"
| begin_issue: "code_reach sha s \<Longrightarrow> issue_check (row_of (mail_key email) (cs_rows s)) now = Some plan \<Longrightarrow>
    code_reach sha (s\<lparr>cs_inflight := insert (Issuing (mail_key email) i code now plan) (cs_inflight s)\<rparr>)"
| begin_verify: "code_reach sha s \<Longrightarrow>
    code_reach sha (s\<lparr>cs_inflight :=
      insert (Verifying (verify_check sha code now (row_of (mail_key email) (cs_rows s))) now) (cs_inflight s)\<rparr>)"
| finish: "code_reach sha s \<Longrightarrow> p \<in> cs_inflight s \<Longrightarrow> rest \<subseteq> cs_inflight s \<Longrightarrow>
    code_reach sha (s\<lparr>cs_rows := finish_request sha p (cs_rows s), cs_inflight := rest\<rparr>)"
| clean_up: "code_reach sha s \<Longrightarrow> code_reach sha (s\<lparr>cs_rows := snd (purgeExpiredCodes now (cs_rows s))\<rparr>)"

definition row_counters_ok :: "two_factor_row \<Rightarrow> bool" where
  "row_counters_ok r \<longleftrightarrow> 1 \<le> tf_windowIssued r \<and> tf_windowIssued r \<le> MAX_WINDOW_ISSUED \<and> tf_attempts r \<le> MAX_ATTEMPTS \<and>
     tf_windowAttempts r + MAX_ATTEMPTS \<le> MAX_ATTEMPTS * tf_windowIssued r + tf_attempts r"

definition inflight_ok :: "code_inflight \<Rightarrow> bool" where
  "inflight_ok p \<longleftrightarrow> (case p of Verifying _ _ \<Rightarrow> True
     | Issuing _ _ _ _ plan \<Rightarrow> 1 \<le> ip_issued plan \<and> ip_issued plan \<le> MAX_WINDOW_ISSUED \<and>
         ip_attempts plan + MAX_ATTEMPTS \<le> MAX_ATTEMPTS * ip_issued plan)"

lemma counters_issue_check:
  assumes "\<forall>r \<in> set t. row_counters_ok r" "issue_check (row_of key t) now = Some plan"
  shows "inflight_ok (Issuing key i code now' plan)"
proof (cases "row_of key t")
  case None
  then show ?thesis using assms(2)
    by (auto simp: issue_check_def Let_def window_alive_def inflight_ok_def two_factor_limits split: if_splits)
next
  case (Some r)
  then have "row_counters_ok r" using assms(1) find_first_Some [OF Some] by blast
  then show ?thesis using assms(2) Some
    by (auto simp: issue_check_def Let_def inflight_ok_def row_counters_ok_def two_factor_limits split: if_splits)
qed

lemma counters_reissue:
  assumes "row_counters_ok r" "window_closed r now \<or> tf_windowIssued r < MAX_WINDOW_ISSUED"
  shows "row_counters_ok (reissue sha code now r)"
  using assms
  by (auto simp: row_counters_ok_def reissue_def two_factor_limits window_closed_def window_open_def split: option.splits)

lemma counters_issue_write:
  assumes "unique_key tf_email t" "\<forall>r \<in> set t. row_counters_ok r" "inflight_ok (Issuing key i code now plan)"
  shows "\<forall>r \<in> set (snd (issue_write sha key i code now plan t)). row_counters_ok r"
proof (cases "row_of key t")
  case None
  then show ?thesis using assms(2,3)
    by (auto simp: issue_write_def inflight_ok_def row_counters_ok_def two_factor_limits)
next
  case (Some r)
  have only: "q = r" if "q \<in> set t" "tf_email q = key" for q
    using unique_key_eq [OF assms(1) that(1), of r] find_first_Some [OF Some] that(2) by simp
  show ?thesis
    using assms(2) Some counters_reissue [of r now sha code] only
    by (auto simp: issue_write_def in_update_where)
qed

lemma counters_verify_write:
  assumes "\<forall>r \<in> set t. row_counters_ok r"
  shows "\<forall>r \<in> set (snd (verify_write plan now t)). row_counters_ok r"
proof -
  have "row_counters_ok (count_miss r)" if "row_counters_ok r" "tf_attempts r < MAX_ATTEMPTS" for r
    using that by (auto simp: row_counters_ok_def count_miss_def)
  moreover have "row_counters_ok (consume now r)" if "row_counters_ok r" for r
    using that by (simp add: row_counters_ok_def consume_def)
  ultimately show ?thesis
    using assms by (cases plan) (auto simp: verify_write_def Let_def in_update_where)
qed

lemma code_reach_counters:
  assumes "code_reach sha s"
  shows "unique_key tf_email (cs_rows s) \<and> (\<forall>r \<in> set (cs_rows s). row_counters_ok r) \<and> (\<forall>p \<in> cs_inflight s. inflight_ok p)"
  using assms
proof induction
  case (begin_issue s email now plan i code)
  then have "inflight_ok (Issuing (mail_key email) i code now plan)" by (intro counters_issue_check) simp_all
  then show ?case using begin_issue.IH by simp
next
  case (finish s p rest)
  have "unique_key tf_email (finish_request sha p (cs_rows s))"
    using finish.IH by (cases p) (simp_all add: unique_email_issue_write unique_email_verify_write)
  moreover have "\<forall>r \<in> set (finish_request sha p (cs_rows s)). row_counters_ok r"
  proof (cases p)
    case (Issuing key i code now plan)
    then have "inflight_ok (Issuing key i code now plan)" using finish.IH finish.hyps(2) by blast
    then show ?thesis using counters_issue_write [of "cs_rows s" key i code now plan sha] finish.IH Issuing by simp
  next
    case (Verifying plan now)
    then show ?thesis using counters_verify_write [of "cs_rows s" plan now] finish.IH by simp
  qed
  moreover have "\<forall>p \<in> rest. inflight_ok p" using finish.IH finish.hyps(3) by blast
  ultimately show ?case by simp
next
  case (clean_up s now)
  then have "\<forall>r \<in> set (snd (purgeExpiredCodes now (cs_rows s))). row_counters_ok r"
    by (simp add: purgeExpiredCodes_def Let_def)
  then show ?case using clean_up.IH unique_email_purge by simp
next
  case (begin_verify s code now email)
  then show ?case by (simp add: inflight_ok_def)
qed simp

text \<open>
  The counters stay bounded however the requests overlap: no row ever counts more than five mailed
  codes or more than five misses at one code, and the misses of a window never pass twenty-five.
\<close>

theorem code_counters_bounded:
  assumes "code_reach sha s" "r \<in> set (cs_rows s)"
  shows "tf_windowIssued r \<le> MAX_WINDOW_ISSUED \<and> tf_attempts r \<le> MAX_ATTEMPTS \<and>
    tf_windowAttempts r \<le> MAX_ATTEMPTS * MAX_WINDOW_ISSUED"
  using code_reach_counters [OF assms(1)] assms(2) by (auto simp: row_counters_ok_def two_factor_limits)

text \<open>A first code on its way.\<close>

lemma issuing_reach:
  "\<exists>s. code_reach (\<lambda>s. s) s \<and> map tf_windowIssued (cs_rows s) = [1] \<and> map tf_id (cs_rows s) = [''1'']"
proof -
  let ?plan = "\<lparr>ip_startedAt = 0, ip_attempts = 0, ip_issued = 1\<rparr>"
  let ?p = "Issuing (mail_key ''a@b'') ''1'' ''7'' 0 ?plan"
  have "code_reach (\<lambda>s. s) (\<lparr>cs_rows = [], cs_inflight = {}\<rparr>\<lparr>cs_inflight := insert ?p {}\<rparr>)"
    using begin_issue [OF code_start, of "''a@b''" 0 ?plan "\<lambda>s. s" "''1''" "''7''"]
    by (simp add: issue_check_def window_alive_def)
  from finish [OF this, of ?p "{}"]
  have "code_reach (\<lambda>s. s) \<lparr>cs_rows = finish_request (\<lambda>s. s) ?p [], cs_inflight = {}\<rparr>" by simp
  moreover have "map tf_windowIssued (finish_request (\<lambda>s. s) ?p []) = [1]" "map tf_id (finish_request (\<lambda>s. s) ?p []) = [''1'']"
    by (simp_all add: issue_write_def insert_row_def)
  ultimately show ?thesis by (intro exI [of _ "\<lparr>cs_rows = finish_request (\<lambda>s. s) ?p [], cs_inflight = {}\<rparr>"]) simp
qed

theorem code_counters_bounded_witness:
  "\<exists>s r. code_reach (\<lambda>s. s) s \<and> r \<in> set (cs_rows s) \<and> tf_windowIssued r = 1 \<and>
     tf_windowAttempts r \<le> MAX_ATTEMPTS * MAX_WINDOW_ISSUED"
proof -
  obtain s where s: "code_reach (\<lambda>s. s) s" "map tf_windowIssued (cs_rows s) = [1]" using issuing_reach by auto
  then obtain r where r: "r \<in> set (cs_rows s)" "tf_windowIssued r = 1" by (cases "cs_rows s") auto
  show ?thesis using s(1) r code_counters_bounded [OF s(1) r(1)] by auto
qed

definition mailed_code :: "two_factor_table" where
  "mailed_code = snd (issueCode (\<lambda>s. s) ''a@b'' ''1'' 7 0 [])"

definition guess_plans :: "verify_plan list" where
  "guess_plans = map (\<lambda>c. verify_check (\<lambda>s. s) c 1 (row_of ''a@b'' mailed_code))
     [''000001'', ''000002'', ''000003'', ''000004'', ''000005'', ''000006'', ''000007'']"

fun write_all :: "verify_plan list \<Rightarrow> two_factor_table \<Rightarrow> (verify_reason + unit) list \<times> two_factor_table" where
  "write_all [] t = ([], t)"
| "write_all (p # ps) t = (let (r, t1) = verify_write p 1 t; (rs, t2) = write_all ps t1 in (r # rs, t2))"

text \<open>
  The bound on guesses fails when they overlap. The comparison happens on the row that was read:
  of seven guesses that read the same row, six are wrong and exhaust the five attempts, and the
  seventh is still accepted; one after the other it is refused.
\<close>

theorem overlapping_guesses_bypass_limit:
  "fst (write_all guess_plans mailed_code) = replicate 5 (Inl MISMATCH) @ [Inl TOO_MANY_ATTEMPTS, Inr ()] \<and>
   code_run (\<lambda>s. s) (map (\<lambda>c. VerifyRequest ''a@b'' c 1)
       [''000001'', ''000002'', ''000003'', ''000004'', ''000005'', ''000006'', ''000007'']) mailed_code =
     replicate 5 (GuessMissed ''a@b'') @ replicate 2 NoEvent"
  by (intro conjI; code_simp)

text \<open>
  A code is accepted by every request that read its row before the first one consumed it.
\<close>

theorem code_accepted_twice_by_interleaving:
  "(let p = verify_check (\<lambda>s. s) ''000007'' 1 (row_of ''a@b'' mailed_code)
    in fst (write_all [p, p] mailed_code) = [Inr (), Inr ()]) \<and>
   code_run (\<lambda>s. s) [VerifyRequest ''a@b'' ''000007'' 1, VerifyRequest ''a@b'' ''000007'' 1] mailed_code =
     [GuessHit ''a@b'', NoEvent]"
  unfolding Let_def by (intro conjI; code_simp)

end
