(* ===== verification/Totp.thy ===== *)
theory Totp
  imports Prelude
begin

text \<open>
  The second factor from an authenticator app (\<open>lib/totp.ts\<close>): one credential row per user and a set of
  recovery codes. Reading, verifying and writing are separate statements, so every operation is
  split where the code awaits the database. The otplib verification, the pgcrypto functions, SHA-256
  and the environment are the parameters of \<open>totp_env\<close>; random bytes and ids are arguments.
\<close>

record totp_row =
  tc_id :: row_id
  tc_userId :: user_id
  tc_encryptedSecret :: string
  tc_confirmedAt :: "date option"
  tc_lastUsedCounter :: "int option"

record recovery_row =
  rc_id :: row_id
  rc_userId :: user_id
  rc_codeHash :: string
  rc_usedAt :: "date option"

record totp_store =
  credentials_t :: "totp_row table"
  recovery_t :: "recovery_row table"

text \<open>
  \<open>otp_verify token secret epoch tolerance\<close> is the offset of the matching window, or \<open>None\<close> when
  the token does not match or the library throws; \<open>decrypt key text\<close> is \<open>None\<close> when the query throws.
\<close>

record totp_env =
  te_sha :: "string \<Rightarrow> string"
  te_otp_verify :: "string \<Rightarrow> string \<Rightarrow> int \<Rightarrow> int \<Rightarrow> int option"
  te_encrypt :: "string \<Rightarrow> string \<Rightarrow> string"
  te_decrypt :: "string \<Rightarrow> string \<Rightarrow> string option"
  te_key :: "string option"

datatype totp_error = NO_PENDING | TOTP_MISMATCH | NOT_ENABLED | REPLAY | ENCRYPTION_SECRET_MISSING

definition TOTP_TOLERANCE_SECONDS :: int where "TOTP_TOLERANCE_SECONDS = 30"
definition RECOVERY_CODE_COUNT :: nat where "RECOVERY_CODE_COUNT = 10"

definition encryptionSecret :: "totp_env \<Rightarrow> totp_error + string" where
  "encryptionSecret env =
     (case te_key env of None \<Rightarrow> Inl ENCRYPTION_SECRET_MISSING
      | Some s \<Rightarrow> if s = [] \<or> js_length s < 16 then Inl ENCRYPTION_SECRET_MISSING else Inr s)"

definition hashRecoveryCode :: "totp_env \<Rightarrow> string \<Rightarrow> string" where
  "hashRecoveryCode env raw = te_sha env (js_upper (js_trim raw))"

section \<open>Recovery codes\<close>

definition ALPHABET :: string where
  "ALPHABET = ''ABCDEFGHJKMNPQRSTUVWXYZ23456789''"

definition recovery_code :: "nat list \<Rightarrow> string" where
  "recovery_code bytes =
     (let s = map (\<lambda>j. ALPHABET ! (bytes ! j mod length ALPHABET)) [0..<8]
      in take 4 s @ CHR ''-'' # drop 4 s)"

text \<open>One list of eight random bytes per code.\<close>

definition generateRecoveryCodes :: "nat list list \<Rightarrow> string list" where
  "generateRecoveryCodes random = map recovery_code random"

section \<open>Time windows\<close>

definition currentCounter :: "date \<Rightarrow> int" where
  "currentCounter now = now div 30000"

definition verifyToken :: "totp_env \<Rightarrow> string \<Rightarrow> string \<Rightarrow> date \<Rightarrow> int option" where
  "verifyToken env token secret now =
     map_option (\<lambda>delta. currentCounter now + delta)
       (te_otp_verify env (js_trim token) secret (now div 1000) TOTP_TOLERANCE_SECONDS)"

section \<open>Enrolment\<close>

text \<open>The upsert that never touches a confirmed credential.\<close>

definition enroll_upsert :: "row_id \<Rightarrow> user_id \<Rightarrow> string \<Rightarrow> totp_store \<Rightarrow> totp_store" where
  "enroll_upsert newId userId cipher st =
     (if find_first (\<lambda>c. tc_userId c = userId) (credentials_t st) = None
      then st\<lparr>credentials_t := insert_row \<lparr>tc_id = newId, tc_userId = userId, tc_encryptedSecret = cipher,
              tc_confirmedAt = None, tc_lastUsedCounter = None\<rparr> (credentials_t st)\<rparr>
      else st\<lparr>credentials_t := update_where (\<lambda>c. tc_userId c = userId \<and> tc_confirmedAt c = None)
              (\<lambda>c. c\<lparr>tc_encryptedSecret := cipher, tc_confirmedAt := None, tc_lastUsedCounter := None\<rparr>)
              (credentials_t st)\<rparr>)"

definition pending_of :: "user_id \<Rightarrow> totp_store \<Rightarrow> totp_row option" where
  "pending_of userId st = find_first (\<lambda>c. tc_userId c = userId \<and> tc_confirmedAt c = None) (credentials_t st)"

definition drop_recovery :: "user_id \<Rightarrow> totp_store \<Rightarrow> totp_store" where
  "drop_recovery userId st = st\<lparr>recovery_t := delete_where (\<lambda>r. rc_userId r = userId) (recovery_t st)\<rparr>"

text \<open>The three statements in a row; the new secret is returned.\<close>

definition startEnrollment ::
  "totp_env \<Rightarrow> row_id \<Rightarrow> user_id \<Rightarrow> string \<Rightarrow> totp_store \<Rightarrow> (totp_error + string) \<times> totp_store" where
  "startEnrollment env newId userId secret st =
     (case encryptionSecret env of
        Inl e \<Rightarrow> (Inl e, st)
      | Inr key \<Rightarrow>
          let st1 = enroll_upsert newId userId (te_encrypt env key secret) st in
          (Inr secret, if pending_of userId st1 = None then st1 else drop_recovery userId st1))"

definition decryptSecret :: "totp_env \<Rightarrow> user_id \<Rightarrow> totp_store \<Rightarrow> totp_error + string option" where
  "decryptSecret env userId st =
     (case encryptionSecret env of
        Inl e \<Rightarrow> Inl e
      | Inr key \<Rightarrow>
          (case find_first (\<lambda>c. tc_userId c = userId) (credentials_t st) of
             None \<Rightarrow> Inr None
           | Some c \<Rightarrow> Inr (te_decrypt env key (tc_encryptedSecret c))))"

text \<open>The token against the user's secret; an empty or unreadable secret is a mismatch.\<close>

definition token_step :: "totp_env \<Rightarrow> user_id \<Rightarrow> string \<Rightarrow> date \<Rightarrow> totp_store \<Rightarrow> totp_error + int" where
  "token_step env userId token now st =
     (case decryptSecret env userId st of
        Inl e \<Rightarrow> Inl e
      | Inr secret \<Rightarrow>
          (case or_null secret of
             None \<Rightarrow> Inl TOTP_MISMATCH
           | Some s \<Rightarrow> (case verifyToken env token s now of None \<Rightarrow> Inl TOTP_MISMATCH | Some n \<Rightarrow> Inr n)))"

definition confirm_check :: "totp_env \<Rightarrow> user_id \<Rightarrow> string \<Rightarrow> date \<Rightarrow> totp_store \<Rightarrow> totp_error + int" where
  "confirm_check env userId token now st =
     (if pending_of userId st = None then Inl NO_PENDING else token_step env userId token now st)"

text \<open>The transaction: only the statement that turns a pending row into a confirmed one goes on.\<close>

definition confirm_commit ::
  "totp_env \<Rightarrow> user_id \<Rightarrow> (row_id \<times> string) list \<Rightarrow> date \<Rightarrow> int \<Rightarrow> totp_store \<Rightarrow> (totp_error + string list) \<times> totp_store" where
  "confirm_commit env userId codes now timeStep st =
     (if pending_of userId st = None then (Inl NO_PENDING, st)
      else
        let st1 = st\<lparr>credentials_t := update_where (\<lambda>c. tc_userId c = userId \<and> tc_confirmedAt c = None)
                 (\<lambda>c. c\<lparr>tc_confirmedAt := Some now, tc_lastUsedCounter := Some timeStep\<rparr>) (credentials_t st)\<rparr>;
            st2 = drop_recovery userId st1
        in (Inr (map snd codes), st2\<lparr>recovery_t := recovery_t st2 @
              map (\<lambda>(i, c). \<lparr>rc_id = i, rc_userId = userId, rc_codeHash = hashRecoveryCode env c, rc_usedAt = None\<rparr>) codes\<rparr>))"

definition confirmEnrollment ::
  "totp_env \<Rightarrow> user_id \<Rightarrow> string \<Rightarrow> (row_id \<times> nat list) list \<Rightarrow> date \<Rightarrow> totp_store \<Rightarrow>
   (totp_error + string list) \<times> totp_store" where
  "confirmEnrollment env userId token random now st =
     (case confirm_check env userId token now st of
        Inl e \<Rightarrow> (Inl e, st)
      | Inr n \<Rightarrow> confirm_commit env userId
          (zip (map fst random) (generateRecoveryCodes (map snd random))) now n st)"

definition hasTotpEnabled :: "user_id \<Rightarrow> totp_store \<Rightarrow> bool" where
  "hasTotpEnabled userId st \<longleftrightarrow>
     (case find_first (\<lambda>c. tc_userId c = userId) (credentials_t st) of
        None \<Rightarrow> False | Some c \<Rightarrow> tc_confirmedAt c \<noteq> None)"

section \<open>Signing in\<close>

text \<open>What remains to be written after the checks: a recovery code to use up, or a time window to claim.\<close>

datatype totp_claim = UseRecovery string | ClaimStep int

definition login_check :: "totp_env \<Rightarrow> user_id \<Rightarrow> string \<Rightarrow> date \<Rightarrow> totp_store \<Rightarrow> totp_error + totp_claim" where
  "login_check env userId token now st =
     (if \<not> hasTotpEnabled userId st then Inl NOT_ENABLED
      else
        let cleaned = js_upper (js_trim token) in
        if CHR ''-'' \<in> set cleaned then Inr (UseRecovery (hashRecoveryCode env cleaned))
        else (case token_step env userId cleaned now st of Inl e \<Rightarrow> Inl e | Inr n \<Rightarrow> Inr (ClaimStep n)))"

text \<open>The right side tells whether a recovery code was used.\<close>

definition login_commit :: "user_id \<Rightarrow> totp_claim \<Rightarrow> date \<Rightarrow> totp_store \<Rightarrow> (totp_error + bool) \<times> totp_store" where
  "login_commit userId claim now st =
     (case claim of
        UseRecovery hash \<Rightarrow>
          let hit = (\<lambda>r. rc_userId r = userId \<and> rc_codeHash r = hash \<and> rc_usedAt r = None) in
          if find_first hit (recovery_t st) = None then (Inl TOTP_MISMATCH, st)
          else (Inr True, st\<lparr>recovery_t := update_where hit (\<lambda>r. r\<lparr>rc_usedAt := Some now\<rparr>) (recovery_t st)\<rparr>)
      | ClaimStep n \<Rightarrow>
          let hit = (\<lambda>c. tc_userId c = userId \<and>
                (case tc_lastUsedCounter c of None \<Rightarrow> True | Some m \<Rightarrow> m < n)) in
          if find_first hit (credentials_t st) = None then (Inl REPLAY, st)
          else (Inr False, st\<lparr>credentials_t := update_where hit (\<lambda>c. c\<lparr>tc_lastUsedCounter := Some n\<rparr>) (credentials_t st)\<rparr>))"

definition verifyTotpForLogin ::
  "totp_env \<Rightarrow> user_id \<Rightarrow> string \<Rightarrow> date \<Rightarrow> totp_store \<Rightarrow> (totp_error + bool) \<times> totp_store" where
  "verifyTotpForLogin env userId token now st =
     (case login_check env userId token now st of
        Inl e \<Rightarrow> (Inl e, st) | Inr claim \<Rightarrow> login_commit userId claim now st)"

definition disableTotp :: "user_id \<Rightarrow> totp_store \<Rightarrow> totp_store" where
  "disableTotp userId st =
     (drop_recovery userId st)\<lparr>credentials_t := delete_where (\<lambda>c. tc_userId c = userId) (credentials_t st)\<rparr>"

definition countUnusedRecoveryCodes :: "user_id \<Rightarrow> totp_store \<Rightarrow> nat" where
  "countUnusedRecoveryCodes userId st = count_where (\<lambda>r. rc_userId r = userId \<and> rc_usedAt r = None) (recovery_t st)"

section \<open>Recovery codes are told apart from tokens\<close>

lemma set_take_drop: "set (take n xs) \<union> set (drop n xs) = set xs"
  by (metis append_take_drop_id set_append)

lemma recovery_code_chars:
  "set (recovery_code bytes) \<subseteq> insert CHR ''-'' (set ALPHABET) \<and> CHR ''-'' \<in> set (recovery_code bytes) \<and>
   length (recovery_code bytes) = 9"
proof -
  have "ALPHABET ! (n mod length ALPHABET) \<in> set ALPHABET" for n
    by (intro nth_mem mod_less_divisor) (simp add: ALPHABET_def)
  then have "set (map (\<lambda>j. ALPHABET ! (bytes ! j mod length ALPHABET)) [0..<8]) \<subseteq> set ALPHABET" by auto
  then show ?thesis
    using set_take_drop [of 4 "map (\<lambda>j. ALPHABET ! (bytes ! j mod length ALPHABET)) [0..<8]"]
    by (auto simp: recovery_code_def Let_def)
qed

lemma upper_fixed:
  assumes "set s \<subseteq> insert CHR ''-'' (set ALPHABET)"
  shows "js_upper s = s"
proof -
  have "\<forall>c \<in> insert CHR ''-'' (set ALPHABET). upper_char c = c" by code_simp
  then show ?thesis using assms by (auto simp: js_upper_def intro!: map_idI)
qed

lemma trim_fixed:
  assumes "\<forall>c \<in> set s. \<not> is_space c"
  shows "js_trim s = s"
proof -
  have "dropWhile is_space t = t" if "set t \<subseteq> set s" for t
    using that assms by (cases t) auto
  then show ?thesis by (simp add: js_trim_def)
qed

end
