(* ===== verification/TotpFacts.thy ===== *)
theory TotpFacts
  imports Totp
begin

text \<open>
  What the authenticator factor guarantees when requests overlap. A run is a list of single writes,
  in any order and with any values a stale check may have left behind; so a property of all runs
  holds for every interleaving.
\<close>

section \<open>Runs of single writes\<close>

datatype totp_write =
    EnrollWrite row_id user_id string
  | DropWrite user_id
  | ConfirmWrite user_id "(row_id \<times> string) list" date int
  | LoginWrite user_id totp_claim date
  | DisableWrite user_id

fun apply_write :: "totp_env \<Rightarrow> totp_write \<Rightarrow> totp_store \<Rightarrow> totp_store" where
  "apply_write env (EnrollWrite i u cipher) st = enroll_upsert i u cipher st"
| "apply_write env (DropWrite u) st = drop_recovery u st"
| "apply_write env (ConfirmWrite u codes now n) st = snd (confirm_commit env u codes now n st)"
| "apply_write env (LoginWrite u claim now) st = snd (login_commit u claim now st)"
| "apply_write env (DisableWrite u) st = disableTotp u st"

definition apply_writes :: "totp_env \<Rightarrow> totp_write list \<Rightarrow> totp_store \<Rightarrow> totp_store" where
  "apply_writes env ws st = fold (apply_write env) ws st"

text \<open>The claims of a user that the run accepts, in order.\<close>

fun accepted_claims :: "totp_env \<Rightarrow> user_id \<Rightarrow> totp_write list \<Rightarrow> totp_store \<Rightarrow> totp_claim list" where
  "accepted_claims env u [] st = []"
| "accepted_claims env u (w # ws) st =
     (case w of
        LoginWrite v claim now \<Rightarrow>
          if v = u \<and> (case fst (login_commit v claim now st) of Inr _ \<Rightarrow> True | Inl _ \<Rightarrow> False) then [claim] else []
      | _ \<Rightarrow> []) @ accepted_claims env u ws (apply_write env w st)"

definition steps_of :: "totp_claim list \<Rightarrow> int list" where
  "steps_of cs = List.map_filter (\<lambda>c. case c of ClaimStep n \<Rightarrow> Some n | UseRecovery _ \<Rightarrow> None) cs"

lemma steps_of_simps [simp]:
  "steps_of [] = []"
  "steps_of (ClaimStep n # cs) = n # steps_of cs"
  "steps_of (UseRecovery h # cs) = steps_of cs"
  "steps_of (cs @ ds) = steps_of cs @ steps_of ds"
  by (simp_all add: steps_of_def map_filter_def)

abbreviation credential_of :: "user_id \<Rightarrow> totp_store \<Rightarrow> totp_row option" where
  "credential_of u st \<equiv> find_first (\<lambda>c. tc_userId c = u) (credentials_t st)"

lemma credential_of_update:
  assumes "\<And>c. tc_userId (f c) = tc_userId c"
  shows "find_first (\<lambda>c. tc_userId c = u) (update_where p f t) =
    map_option (\<lambda>c. if p c then f c else c) (find_first (\<lambda>c. tc_userId c = u) t)"
  by (rule find_first_update_where) (simp add: assms)

lemma unique_user_write:
  assumes "unique_key tc_userId (credentials_t st)"
  shows "unique_key tc_userId (credentials_t (apply_write env w st))"
proof (cases w)
  case (EnrollWrite i u cipher)
  then show ?thesis using assms
    by (auto simp: enroll_upsert_def find_first_None image_iff intro!: unique_key_insert_row unique_key_update_where)
next
  case (ConfirmWrite u codes now n)
  then show ?thesis using assms
    by (auto simp: confirm_commit_def Let_def drop_recovery_def intro!: unique_key_update_where)
next
  case (LoginWrite u claim now)
  then show ?thesis using assms
    by (cases claim) (auto simp: login_commit_def Let_def intro!: unique_key_update_where)
qed (simp_all add: assms drop_recovery_def disableTotp_def unique_key_delete_where)

text \<open>What one write does to a confirmed credential that is not disabled.\<close>

lemma write_on_confirmed:
  assumes "credential_of u st = Some c" "tc_confirmedAt c \<noteq> None" "w \<noteq> DisableWrite u"
    "unique_key tc_userId (credentials_t st)"
  shows "\<exists>c'. credential_of u (apply_write env w st) = Some c' \<and> tc_confirmedAt c' \<noteq> None \<and>
    (\<forall>m. tc_lastUsedCounter c = Some m \<longrightarrow> (\<exists>n. tc_lastUsedCounter c' = Some n \<and> m \<le> n)) \<and>
    (\<forall>n now. w = LoginWrite u (ClaimStep n) now \<and> fst (login_commit u (ClaimStep n) now st) = Inr False \<longrightarrow>
       tc_lastUsedCounter c' = Some n \<and> (\<forall>m. tc_lastUsedCounter c = Some m \<longrightarrow> m < n))"
proof (cases w)
  case (EnrollWrite i v cipher)
  have "v \<noteq> u" if "credential_of v st = None" using that assms(1) by auto
  then have "credential_of u (enroll_upsert i v cipher st) = Some c"
    using assms(1,2) by (cases "credential_of v st") (auto simp: enroll_upsert_def credential_of_update find_first_insert_other)
  then show ?thesis using assms EnrollWrite by simp
next
  case (DropWrite v)
  then show ?thesis using assms by (simp add: drop_recovery_def)
next
  case (ConfirmWrite v codes now n)
  have "credential_of u (snd (confirm_commit env v codes now n st)) = Some c"
    using assms(1,2) by (auto simp: confirm_commit_def Let_def drop_recovery_def credential_of_update)
  then show ?thesis using assms ConfirmWrite by simp
next
  case (DisableWrite v)
  then have "v \<noteq> u" using assms(3) by auto
  then have "credential_of u (disableTotp v st) = Some c"
    using assms(1) by (auto simp: disableTotp_def find_first_delete_where)
  then show ?thesis using assms DisableWrite by simp
next
  case (LoginWrite v claim now)
  show ?thesis
  proof (cases claim)
    case (UseRecovery h)
    then show ?thesis using assms LoginWrite by (simp add: login_commit_def Let_def)
  next
    case (ClaimStep n)
    let ?hit = "\<lambda>c. tc_userId c = v \<and> (case tc_lastUsedCounter c of None \<Rightarrow> True | Some m \<Rightarrow> m < n)"
    have k: "c \<in> set (credentials_t st)" "tc_userId c = u" using find_first_Some [OF assms(1)] by simp_all
    show ?thesis
    proof (cases "find_first ?hit (credentials_t st)")
      case None
      then show ?thesis using assms LoginWrite ClaimStep by (auto simp: login_commit_def)
    next
      case (Some d)
      have row: "credential_of u (apply_write env w st) = Some (if ?hit c then c\<lparr>tc_lastUsedCounter := Some n\<rparr> else c)"
        using Some assms(1) LoginWrite ClaimStep by (simp add: login_commit_def Let_def credential_of_update)
      show ?thesis
      proof (cases "?hit c")
        case True
        then show ?thesis using row assms(2) LoginWrite ClaimStep by (auto split: option.splits)
      next
        case False
        have "v \<noteq> u"
        proof
          assume "v = u"
          then have "d = c" using unique_key_eq [OF assms(4) _ k(1), of d] find_first_Some [OF Some] k(2) by simp
          then show False using False find_first_Some [OF Some] by simp
        qed
        then show ?thesis using row False assms(2) LoginWrite ClaimStep by auto
      qed
    qed
  qed
qed

lemma accepted_steps_increase:
  assumes "credential_of u st = Some c" "tc_confirmedAt c \<noteq> None" "DisableWrite u \<notin> set ws"
    "unique_key tc_userId (credentials_t st)"
  shows "sorted_wrt (<) (steps_of (accepted_claims env u ws st)) \<and>
    (\<forall>m. tc_lastUsedCounter c = Some m \<longrightarrow> (\<forall>n \<in> set (steps_of (accepted_claims env u ws st)). m < n))"
  using assms
proof (induction ws arbitrary: st c)
  case (Cons w ws)
  let ?rest = "steps_of (accepted_claims env u ws (apply_write env w st))"
  obtain c' where c': "credential_of u (apply_write env w st) = Some c'" "tc_confirmedAt c' \<noteq> None"
    and mono: "\<forall>m. tc_lastUsedCounter c = Some m \<longrightarrow> (\<exists>n. tc_lastUsedCounter c' = Some n \<and> m \<le> n)"
    and own: "\<forall>n now. w = LoginWrite u (ClaimStep n) now \<and> fst (login_commit u (ClaimStep n) now st) = Inr False \<longrightarrow>
       tc_lastUsedCounter c' = Some n \<and> (\<forall>m. tc_lastUsedCounter c = Some m \<longrightarrow> m < n)"
    using write_on_confirmed [OF Cons.prems(1,2) _ Cons.prems(4), of w env] Cons.prems(3) by auto
  have IH: "sorted_wrt (<) ?rest" "\<And>m n. tc_lastUsedCounter c' = Some m \<Longrightarrow> n \<in> set ?rest \<Longrightarrow> m < n"
    using Cons.IH [OF c' _ unique_user_write [OF Cons.prems(4)]] Cons.prems(3) by auto
  have rest: "m < n" if "tc_lastUsedCounter c = Some m" "n \<in> set ?rest" for m n
    using mono IH(2) that by (meson le_less_trans)
  show ?case
  proof (cases "\<exists>n now. w = LoginWrite u (ClaimStep n) now \<and> fst (login_commit u (ClaimStep n) now st) = Inr False")
    case True
    then obtain n now where w: "w = LoginWrite u (ClaimStep n) now" "fst (login_commit u (ClaimStep n) now st) = Inr False"
      by auto
    then have "steps_of (accepted_claims env u (w # ws) st) = n # ?rest" by simp
    then show ?thesis using IH own w rest by auto
  next
    case False
    have "steps_of (accepted_claims env u (w # ws) st) = ?rest"
    proof (cases w)
      case (LoginWrite v claim now)
      show ?thesis
      proof (cases claim)
        case (ClaimStep n)
        have "fst (login_commit u (ClaimStep n) now st) \<in> {Inl REPLAY, Inr False}"
          by (simp add: login_commit_def Let_def)
        then show ?thesis using False LoginWrite ClaimStep by auto
      next
        case (UseRecovery h)
        then show ?thesis using LoginWrite by simp
      qed
    qed simp_all
    then show ?thesis using IH(1) rest by auto
  qed
qed simp

text \<open>
  C20: A time window is accepted at most once while a credential stays enabled: however the writes of
  enrolments, confirmations and sign-ins of all users interleave, the windows accepted for a user
  are strictly increasing and above the one already used.
\<close>

theorem totp_windows_increase:
  assumes "find_first (\<lambda>c. tc_userId c = u) (credentials_t st) = Some c" "tc_confirmedAt c \<noteq> None"
    "DisableWrite u \<notin> set ws" "unique_key tc_userId (credentials_t st)"
  shows "sorted_wrt (<) (steps_of (accepted_claims env u ws st)) \<and>
    (\<forall>n \<in> set (steps_of (accepted_claims env u ws st)). \<forall>m. tc_lastUsedCounter c = Some m \<longrightarrow> m < n)"
  using accepted_steps_increase [OF assms] by blast

text \<open>An engine that accepts every token for the current window, and an enabled credential.\<close>

definition open_totp :: totp_env where
  "open_totp = \<lparr>te_sha = (\<lambda>s. s), te_otp_verify = (\<lambda>t s e tol. Some 0), te_encrypt = (\<lambda>k s. s), te_decrypt = (\<lambda>k s. Some s),
     te_key = Some ''0123456789abcdef''\<rparr>"

definition enabled_store :: totp_store where
  "enabled_store = \<lparr>credentials_t = [\<lparr>tc_id = ''c'', tc_userId = ''u'', tc_encryptedSecret = ''s'',
     tc_confirmedAt = Some 0, tc_lastUsedCounter = Some 3\<rparr>], recovery_t = []\<rparr>"

theorem totp_windows_increase_witness:
  "(let ws = map (\<lambda>n. LoginWrite ''u'' (ClaimStep n) 0) [4, 4, 3, 6, 5] @ [EnrollWrite ''d'' ''u'' ''t''] in
    steps_of (accepted_claims open_totp ''u'' ws enabled_store) = [4, 6] \<and>
    sorted_wrt (<) (steps_of (accepted_claims open_totp ''u'' ws enabled_store)))"
proof -
  let ?c = "\<lparr>tc_id = ''c'', tc_userId = ''u'', tc_encryptedSecret = ''s'', tc_confirmedAt = Some 0, tc_lastUsedCounter = Some 3\<rparr>"
  let ?ws = "map (\<lambda>n. LoginWrite ''u'' (ClaimStep n) 0) [4, 4, 3, 6, 5] @ [EnrollWrite ''d'' ''u'' ''t'']"
  have "steps_of (accepted_claims open_totp ''u'' ?ws enabled_store) = [4, 6]" by code_simp
  moreover have "sorted_wrt (<) (steps_of (accepted_claims open_totp ''u'' ?ws enabled_store))"
    using totp_windows_increase [of "''u''" enabled_store ?c ?ws open_totp] by (simp add: enabled_store_def)
  ultimately show ?thesis by (simp only: Let_def simp_thms)
qed

section \<open>Recovery codes\<close>

lemma count_after_use:
  assumes "\<And>r. \<not> p (f r)"
  shows "count_where p (update_where p f t) = 0" "find_first p (update_where p f t) = None"
  using assms by (induction t) auto

lemma unused_after_write:
  assumes "\<And>codes now n. w \<noteq> ConfirmWrite u codes now n"
  shows "count_where (\<lambda>r. rc_userId r = u \<and> rc_codeHash r = h \<and> rc_usedAt r = None) (recovery_t (apply_write env w st)) \<le>
    count_where (\<lambda>r. rc_userId r = u \<and> rc_codeHash r = h \<and> rc_usedAt r = None) (recovery_t st)"
proof -
  let ?p = "\<lambda>r :: recovery_row. rc_userId r = u \<and> rc_codeHash r = h \<and> rc_usedAt r = None"
  have del: "count_where ?p (delete_where q t) \<le> count_where ?p t" for q t by (induction t) auto
  have upd: "count_where ?p (update_where q (\<lambda>r. r\<lparr>rc_usedAt := Some now\<rparr>) t) \<le> count_where ?p t" for q now t
    by (induction t) auto
  show ?thesis
  proof (cases w)
    case (EnrollWrite i v cipher)
    then show ?thesis by (simp add: enroll_upsert_def)
  next
    case (DropWrite v)
    then show ?thesis by (simp add: drop_recovery_def del)
  next
    case (ConfirmWrite v codes now n)
    then have "v \<noteq> u" using assms by auto
    have "count_where ?p (map (\<lambda>(i, c). \<lparr>rc_id = i, rc_userId = v, rc_codeHash = hashRecoveryCode env c, rc_usedAt = None\<rparr>) codes) = 0"
      using \<open>v \<noteq> u\<close> by (induction codes) auto
    moreover have "count_where ?p (xs @ ys) = count_where ?p xs + count_where ?p ys" for xs ys :: "recovery_row list" by (simp add: count_where_def)
    ultimately show ?thesis using ConfirmWrite del
      by (simp add: confirm_commit_def Let_def drop_recovery_def)
  next
    case (LoginWrite v claim now)
    then show ?thesis using upd by (cases claim) (simp_all add: login_commit_def Let_def)
  next
    case (DisableWrite v)
    then show ?thesis by (simp add: disableTotp_def drop_recovery_def del)
  qed
qed

lemma accepted_recovery_le:
  assumes "\<forall>w \<in> set ws. \<forall>codes now n. w \<noteq> ConfirmWrite u codes now n"
  shows "count_list (accepted_claims env u ws st) (UseRecovery h) \<le> 1 \<and>
    (count_where (\<lambda>r. rc_userId r = u \<and> rc_codeHash r = h \<and> rc_usedAt r = None) (recovery_t st) = 0 \<longrightarrow>
     count_list (accepted_claims env u ws st) (UseRecovery h) = 0)"
  using assms
proof (induction ws arbitrary: st)
  case (Cons w ws)
  let ?p = "\<lambda>r :: recovery_row. rc_userId r = u \<and> rc_codeHash r = h \<and> rc_usedAt r = None"
  let ?st' = "apply_write env w st"
  have IH: "count_list (accepted_claims env u ws ?st') (UseRecovery h) \<le> 1"
    "count_where ?p (recovery_t ?st') = 0 \<Longrightarrow> count_list (accepted_claims env u ws ?st') (UseRecovery h) = 0"
    using Cons.IH [of ?st'] Cons.prems by auto
  have less: "count_where ?p (recovery_t ?st') \<le> count_where ?p (recovery_t st)"
    using Cons.prems by (intro unused_after_write) auto
  show ?case
  proof (cases "\<exists>now. w = LoginWrite u (UseRecovery h) now \<and> fst (login_commit u (UseRecovery h) now st) = Inr True")
    case True
    then obtain now where w: "w = LoginWrite u (UseRecovery h) now" and ok: "fst (login_commit u (UseRecovery h) now st) = Inr True"
      by auto
    have some: "find_first ?p (recovery_t st) \<noteq> None" using ok by (auto simp: login_commit_def Let_def split: if_splits)
    then have "count_where ?p (recovery_t st) \<noteq> 0" by (simp add: count_where_0 find_first_None)
    moreover have "recovery_t ?st' = update_where ?p (\<lambda>r. r\<lparr>rc_usedAt := Some now\<rparr>) (recovery_t st)"
      using some w by (auto simp: login_commit_def Let_def)
    then have "count_where ?p (recovery_t ?st') = 0" by (simp only: ) (rule count_after_use, simp)
    ultimately show ?thesis using IH(2) w ok by simp
  next
    case False
    have "count_list (accepted_claims env u (w # ws) st) (UseRecovery h) =
        count_list (accepted_claims env u ws ?st') (UseRecovery h)"
    proof (cases w)
      case (LoginWrite v claim now)
      have "fst (login_commit u (UseRecovery h) now st) \<in> {Inl TOTP_MISMATCH, Inr True}"
        by (simp add: login_commit_def Let_def)
      then show ?thesis using False LoginWrite by (cases "v = u \<and> claim = UseRecovery h") auto
    qed simp_all
    then show ?thesis using IH less by simp
  qed
qed simp

text \<open>
  A recovery code is accepted at most once until the user's next confirmation, however many
  sign-ins submit it at the same time.
\<close>

theorem recovery_code_accepted_once:
  assumes "\<forall>w \<in> set ws. \<forall>codes now n. w \<noteq> ConfirmWrite u codes now n"
  shows "count_list (accepted_claims env u ws st) (UseRecovery h) \<le> 1"
  using accepted_recovery_le [OF assms] by blast

theorem recovery_code_accepted_once_witness:
  "(let st = enabled_store\<lparr>recovery_t := [\<lparr>rc_id = ''r'', rc_userId = ''u'', rc_codeHash = ''h'', rc_usedAt = None\<rparr>]\<rparr>;
        ws = replicate 3 (LoginWrite ''u'' (UseRecovery ''h'') 5)
    in accepted_claims open_totp ''u'' ws st = [UseRecovery ''h''] \<and>
       count_list (accepted_claims open_totp ''u'' ws st) (UseRecovery ''h'') \<le> 1)"
proof -
  let ?st = "enabled_store\<lparr>recovery_t := [\<lparr>rc_id = ''r'', rc_userId = ''u'', rc_codeHash = ''h'', rc_usedAt = None\<rparr>]\<rparr>"
  let ?ws = "replicate 3 (LoginWrite ''u'' (UseRecovery ''h'') 5)"
  have "accepted_claims open_totp ''u'' ?ws ?st = [UseRecovery ''h'']" by code_simp
  moreover have "count_list (accepted_claims open_totp ''u'' ?ws ?st) (UseRecovery ''h'') \<le> 1"
    by (rule recovery_code_accepted_once) simp
  ultimately show ?thesis by (simp only: Let_def simp_thms)
qed

text \<open>
  A code handed out at confirmation signs the user in once: also when it is typed in lower case or
  with blanks around it, and a second submission is refused.
\<close>

theorem recovery_code_roundtrip:
  assumes "confirm_commit env u codes now n st = (Inr cs, st1)" "recovery_code bytes \<in> set cs"
    "js_upper (js_trim typed) = recovery_code bytes"
  shows "\<exists>st2. verifyTotpForLogin env u typed later st1 = (Inr True, st2) \<and>
    verifyTotpForLogin env u typed later' st2 = (Inl TOTP_MISMATCH, st2)"
proof -
  let ?code = "recovery_code bytes"
  let ?h = "hashRecoveryCode env ?code"
  let ?hit = "\<lambda>r :: recovery_row. rc_userId r = u \<and> rc_codeHash r = ?h \<and> rc_usedAt r = None"
  obtain c where pend: "pending_of u st = Some c" using assms(1) by (auto simp: confirm_commit_def split: if_splits)
  have st1: "st1 = snd (confirm_commit env u codes now n st)" "cs = map snd codes"
    using assms(1) pend by (auto simp: confirm_commit_def Let_def)
  have k: "c \<in> set (credentials_t st)" "tc_userId c = u" "tc_confirmedAt c = None"
    using find_first_Some [OF pend [unfolded pending_of_def]] by simp_all
  obtain d where d: "credential_of u st = Some d" using find_first_in [of c "credentials_t st" "\<lambda>c. tc_userId c = u"] k by auto
  have "credential_of u st1 = Some (if tc_confirmedAt d = None then d\<lparr>tc_confirmedAt := Some now, tc_lastUsedCounter := Some n\<rparr> else d)"
    using d pend find_first_Some [OF d] unfolding st1
    by (simp add: confirm_commit_def Let_def drop_recovery_def credential_of_update)
  then have enabled: "hasTotpEnabled u st1" by (simp add: hasTotpEnabled_def)
  obtain i where "(i, ?code) \<in> set codes" using assms(2) st1(2) by auto
  then have "\<lparr>rc_id = i, rc_userId = u, rc_codeHash = ?h, rc_usedAt = None\<rparr> \<in> set (recovery_t st1)"
    using pend unfolding st1 by (force simp: confirm_commit_def Let_def drop_recovery_def)
  then obtain r where r: "find_first ?hit (recovery_t st1) = Some r" using find_first_in [of _ "recovery_t st1" ?hit] by fastforce
  have dash: "CHR ''-'' \<in> set ?code" using recovery_code_chars by blast
  have check: "login_check env u typed t s = Inr (UseRecovery ?h)" if "hasTotpEnabled u s" for t s
    using that dash by (simp add: login_check_def assms(3) Let_def)
  let ?st2 = "snd (login_commit u (UseRecovery ?h) later st1)"
  have "hasTotpEnabled u ?st2" using enabled by (simp add: hasTotpEnabled_def login_commit_def Let_def)
  moreover have "recovery_t ?st2 = update_where ?hit (\<lambda>r. r\<lparr>rc_usedAt := Some later\<rparr>) (recovery_t st1)"
    using r by (simp add: login_commit_def Let_def)
  then have "find_first ?hit (recovery_t ?st2) = None" by (simp only: ) (rule count_after_use, simp)
  moreover have "login_commit u (UseRecovery ?h) t s = (Inl TOTP_MISMATCH, s)"
    if "find_first ?hit (recovery_t s) = None" for t s using that by (simp add: login_commit_def Let_def)
  ultimately have "verifyTotpForLogin env u typed later' ?st2 = (Inl TOTP_MISMATCH, ?st2)"
    unfolding verifyTotpForLogin_def by (simp only: check sum.case)
  moreover have "verifyTotpForLogin env u typed later st1 = (Inr True, ?st2)"
    using r by (simp add: verifyTotpForLogin_def check enabled) (simp add: login_commit_def Let_def)
  ultimately show ?thesis by blast
qed

definition pending_store :: totp_store where
  "pending_store = \<lparr>credentials_t = [\<lparr>tc_id = ''c'', tc_userId = ''u'', tc_encryptedSecret = ''OLD'',
     tc_confirmedAt = None, tc_lastUsedCounter = None\<rparr>], recovery_t = []\<rparr>"

theorem recovery_code_roundtrip_witness:
  "\<exists>st2. verifyTotpForLogin open_totp ''u'' '' abcd-efgh '' 5
      (snd (confirm_commit open_totp ''u'' [(''r'', recovery_code [0, 1, 2, 3, 4, 5, 6, 7])] 0 0 pending_store)) = (Inr True, st2)"
proof -
  let ?c = "recovery_code [0, 1, 2, 3, 4, 5, 6, 7]"
  let ?run = "confirm_commit open_totp ''u'' [(''r'', ?c)] 0 0 pending_store"
  have "fst ?run = Inr [?c]" by (simp add: confirm_commit_def Let_def pending_of_def pending_store_def)
  then have run: "?run = (Inr [?c], snd ?run)" by (metis prod.collapse)
  have "js_upper (js_trim '' abcd-efgh '') = ?c" by code_simp
  from recovery_code_roundtrip [OF run _ this] show ?thesis by auto
qed

section \<open>Whole requests\<close>

datatype totp_request =
    StartRequest row_id user_id string
  | ConfirmRequest user_id string "(row_id \<times> nat list) list" date
  | SignInRequest user_id string date
  | DisableRequest user_id

fun serve_totp :: "totp_env \<Rightarrow> totp_request \<Rightarrow> totp_store \<Rightarrow> totp_store" where
  "serve_totp env (StartRequest i u secret) st = snd (startEnrollment env i u secret st)"
| "serve_totp env (ConfirmRequest u token random now) st = snd (confirmEnrollment env u token random now st)"
| "serve_totp env (SignInRequest u token now) st = snd (verifyTotpForLogin env u token now st)"
| "serve_totp env (DisableRequest u) st = disableTotp u st"

fun ten_codes :: "totp_request \<Rightarrow> bool" where
  "ten_codes (ConfirmRequest _ _ random _) \<longleftrightarrow> length random = RECOVERY_CODE_COUNT"
| "ten_codes _ \<longleftrightarrow> True"

definition enabled_covered :: "totp_store \<Rightarrow> bool" where
  "enabled_covered st \<longleftrightarrow> unique_key tc_userId (credentials_t st) \<and>
     (\<forall>c \<in> set (credentials_t st). tc_confirmedAt c \<noteq> None \<longrightarrow>
        count_where (\<lambda>r. rc_userId r = tc_userId c) (recovery_t st) = RECOVERY_CODE_COUNT)"

lemma count_drop_other:
  "v \<noteq> u \<Longrightarrow> count_where (\<lambda>r. rc_userId r = v) (delete_where (\<lambda>r. rc_userId r = u) t) = count_where (\<lambda>r. rc_userId r = v) t"
  by (simp add: count_where_delete_where) (rule count_where_cong, auto)

lemma covered_start:
  assumes "enabled_covered st"
  shows "enabled_covered (snd (startEnrollment env i u secret st))"
proof (cases "encryptionSecret env")
  case (Inr key)
  let ?st1 = "enroll_upsert i u (te_encrypt env key secret) st"
  have u1: "unique_key tc_userId (credentials_t ?st1)"
    using unique_user_write [of st env "EnrollWrite i u (te_encrypt env key secret)"] assms by (simp add: enabled_covered_def)
  have r1: "recovery_t ?st1 = recovery_t st" by (simp add: enroll_upsert_def)
  have old: "c \<in> set (credentials_t st)" if "c \<in> set (credentials_t ?st1)" "tc_confirmedAt c \<noteq> None" for c
    using that by (auto simp: enroll_upsert_def in_update_where split: if_splits)
  have c1: "enabled_covered ?st1" using u1 r1 old assms by (simp add: enabled_covered_def)
  have "enabled_covered (drop_recovery u ?st1)" if pend: "pending_of u ?st1 \<noteq> None"
  proof -
    obtain p where p: "p \<in> set (credentials_t ?st1)" "tc_userId p = u" "tc_confirmedAt p = None"
      using pend unfolding pending_of_def by (auto dest: find_first_Some)
    have "tc_userId c \<noteq> u" if "c \<in> set (credentials_t ?st1)" "tc_confirmedAt c \<noteq> None" for c
      using unique_key_eq [OF u1 that(1) p(1)] p(2,3) that(2) by auto
    then show ?thesis using c1 by (simp add: enabled_covered_def drop_recovery_def count_drop_other)
  qed
  then show ?thesis using Inr c1 by (simp add: startEnrollment_def Let_def)
qed (simp add: startEnrollment_def assms)

lemma covered_confirm:
  assumes "enabled_covered st" "length random = RECOVERY_CODE_COUNT"
  shows "enabled_covered (snd (confirmEnrollment env u token random now st))"
proof -
  let ?codes = "zip (map fst random) (generateRecoveryCodes (map snd random))"
  have "length ?codes = RECOVERY_CODE_COUNT" using assms(2) by (simp add: generateRecoveryCodes_def)
  then have new: "count_where (\<lambda>r. rc_userId r = v) (delete_where (\<lambda>r. rc_userId r = u) t @
      map (\<lambda>(i, c). \<lparr>rc_id = i, rc_userId = u, rc_codeHash = hashRecoveryCode env c, rc_usedAt = None\<rparr>) ?codes) =
      (if v = u then RECOVERY_CODE_COUNT else count_where (\<lambda>r. rc_userId r = v) t)" for v and t :: "recovery_row table"
  proof -
    have "count_where (\<lambda>r. rc_userId r = v) (map (\<lambda>(i, c). \<lparr>rc_id = i, rc_userId = u, rc_codeHash = hashRecoveryCode env c,
        rc_usedAt = None\<rparr>) cs) = (if v = u then length cs else 0)" for cs
      by (induction cs) auto
    moreover have "count_where p (xs @ ys) = count_where p xs + count_where p ys" for p and xs ys :: "recovery_row list"
      by (simp add: count_where_def)
    moreover have "count_where (\<lambda>r. rc_userId r = u) (delete_where (\<lambda>r. rc_userId r = u) t) = 0" by (simp add: count_where_0)
    ultimately show ?thesis using \<open>length ?codes = RECOVERY_CODE_COUNT\<close> by (simp add: count_drop_other)
  qed
  show ?thesis
  proof (cases "confirm_check env u token now st")
    case (Inr n)
    have "enabled_covered (snd (confirm_commit env u ?codes now n st))"
    proof (cases "pending_of u st")
      case None
      then show ?thesis using assms(1) by (simp add: confirm_commit_def)
    next
      case (Some p)
      have "unique_key tc_userId (credentials_t (snd (confirm_commit env u ?codes now n st)))"
        using unique_user_write [of st env "ConfirmWrite u ?codes now n"] assms(1) by (simp add: enabled_covered_def)
      then show ?thesis
        using assms(1) Some unfolding enabled_covered_def confirm_commit_def Let_def drop_recovery_def
        by (auto simp: new in_update_where)
    qed
    then show ?thesis using Inr by (simp add: confirmEnrollment_def)
  qed (simp add: confirmEnrollment_def assms(1))
qed

lemma covered_login:
  assumes "enabled_covered st"
  shows "enabled_covered (snd (verifyTotpForLogin env u token now st))"
proof (cases "login_check env u token now st")
  case (Inr claim)
  have "count_where (\<lambda>r. rc_userId r = v) (update_where p (\<lambda>r. r\<lparr>rc_usedAt := x\<rparr>) t) = count_where (\<lambda>r. rc_userId r = v) t"
    for v p x and t :: "recovery_row table" by (rule count_where_update_where) simp
  then have "enabled_covered (snd (login_commit u claim now st))"
    using assms unique_user_write [of st env "LoginWrite u claim now"] unfolding enabled_covered_def
    by (cases claim) (auto simp: login_commit_def Let_def in_update_where)
  then show ?thesis using Inr by (simp add: verifyTotpForLogin_def)
qed (simp add: verifyTotpForLogin_def assms)

lemma covered_disable: "enabled_covered st \<Longrightarrow> enabled_covered (disableTotp u st)"
  by (auto simp: enabled_covered_def disableTotp_def drop_recovery_def count_drop_other unique_key_delete_where)

lemma covered_run:
  "enabled_covered st \<Longrightarrow> list_all ten_codes qs \<Longrightarrow> enabled_covered (fold (serve_totp env) qs st)"
proof (induction qs arbitrary: st)
  case (Cons q qs)
  have "enabled_covered (serve_totp env q st)"
    using Cons.prems by (cases q) (simp_all add: covered_start covered_confirm covered_login covered_disable)
  then show ?case using Cons by simp
qed simp


definition ten_random :: "(row_id \<times> nat list) list" where
  "ten_random = map (\<lambda>k. (dec k, [k, 1, 2, 3, 4, 5, 6, 7])) [0..<10]"


section \<open>Requests that overlap\<close>

text \<open>
  Two faults of overlapping enrolments. A repeated enrolment that has seen the pending row deletes
  the recovery codes of the confirmation that finished in the meantime: the factor is enabled and
  has no recovery code.
\<close>

theorem enrolment_race_drops_recovery_codes:
  "(let st1 = enroll_upsert ''d'' ''u'' ''OLD'' pending_store;
        st2 = snd (confirmEnrollment open_totp ''u'' ''123456'' ten_random 0 st1);
        st3 = (if pending_of ''u'' st1 = None then st2 else drop_recovery ''u'' st2)
    in hasTotpEnabled ''u'' st3 \<and> countUnusedRecoveryCodes ''u'' st2 = 10 \<and> countUnusedRecoveryCodes ''u'' st3 = 0)"
  unfolding Let_def by (intro conjI; code_simp)

definition exact_totp :: totp_env where
  "exact_totp = open_totp\<lparr>te_otp_verify := (\<lambda>t s e tol. if t = s then Some 0 else None)\<rparr>"

text \<open>
  And a confirmation that has checked a token against the old secret confirms the secret that a
  repeated enrolment wrote in between, which no token was ever checked against.
\<close>

theorem enrolment_race_confirms_unseen_secret:
  "(let checked = confirm_check exact_totp ''u'' ''OLD'' 0 pending_store;
        st1 = enroll_upsert ''d'' ''u'' ''NEW'' pending_store;
        st2 = snd (confirm_commit exact_totp ''u'' [] 0 0 st1)
    in checked = Inr 0 \<and> hasTotpEnabled ''u'' st2 \<and> map tc_encryptedSecret (credentials_t st2) = [''NEW''] \<and>
       fst (verifyTotpForLogin exact_totp ''u'' ''OLD'' 60000 st2) = Inl TOTP_MISMATCH)"
  unfolding Let_def by (intro conjI; code_simp)

end
