(* ===== verification/TrustedDevices.thy ===== *)
theory TrustedDevices
  imports Prelude
begin

text \<open>
  Remembered devices (\<open>lib/trusted-device.ts\<close>): a random token in a cookie, its hash in the table.
  SHA-256 is the parameter \<open>sha\<close>; token, row id and time are arguments.
\<close>

record device_row =
  td_id :: row_id
  td_userId :: user_id
  td_tokenHash :: string
  td_label :: "string option"
  td_expires :: date
  td_lastUsedAt :: "date option"
  td_createdAt :: date

type_synonym device_table = "device_row table"

definition TRUST_TTL_DAYS :: int where "TRUST_TTL_DAYS = 30"
definition LAST_USED_TOUCH_INTERVAL_MS :: int where "LAST_USED_TOUCH_INTERVAL_MS = 60 * 60000"

definition shouldTouchLastUsed :: "date option \<Rightarrow> date \<Rightarrow> bool" where
  "shouldTouchLastUsed lastUsed now =
     (case lastUsed of None \<Rightarrow> True | Some l \<Rightarrow> LAST_USED_TOUCH_INTERVAL_MS \<le> now - l)"

section \<open>Labels\<close>

text \<open>A regular expression without metacharacters is a search for a substring.\<close>

fun contains_text :: "string \<Rightarrow> string \<Rightarrow> bool" where
  "contains_text w [] \<longleftrightarrow> w = []"
| "contains_text w (c # s) \<longleftrightarrow> take (length w) (c # s) = w \<or> contains_text w s"

definition browser_of :: "string \<Rightarrow> string" where
  "browser_of ua =
     (if contains_text ''EdgiOS/'' ua then ''Edge''
      else if contains_text ''CriOS/'' ua then ''Chrome''
      else if contains_text ''FxiOS/'' ua then ''Firefox''
      else if contains_text ''Edg/'' ua then ''Edge''
      else if contains_text ''OPR/'' ua then ''Opera''
      else if contains_text ''Firefox/'' ua then ''Firefox''
      else if contains_text ''Chrome/'' ua then ''Chrome''
      else if contains_text ''Safari/'' ua then ''Safari''
      else ''Browser'')"

definition os_of :: "string \<Rightarrow> string" where
  "os_of ua =
     (if contains_text ''iPhone'' ua \<or> contains_text ''iPad'' ua \<or> contains_text ''iPod'' ua then ''iOS''
      else if contains_text ''Android'' ua then ''Android''
      else if contains_text ''Mac OS X'' ua then ''macOS''
      else if contains_text ''Windows'' ua then ''Windows''
      else if contains_text ''Linux'' ua then ''Linux''
      else ''Unknown OS'')"

definition coarseLabel :: "string option \<Rightarrow> string option" where
  "coarseLabel userAgent = map_option (\<lambda>ua. browser_of ua @ '' on '' @ os_of ua) (or_null userAgent)"

section \<open>Operations\<close>

definition issueTrustedDevice ::
  "(string \<Rightarrow> string) \<Rightarrow> row_id \<Rightarrow> user_id \<Rightarrow> string option \<Rightarrow> string \<Rightarrow> date \<Rightarrow> device_table \<Rightarrow> string \<times> device_table" where
  "issueTrustedDevice sha newId userId userAgent token now t =
     (token, insert_row \<lparr>td_id = newId, td_userId = userId, td_tokenHash = sha token, td_label = coarseLabel userAgent,
        td_expires = now + TRUST_TTL_DAYS * 24 * 60 * 60000, td_lastUsedAt = Some now, td_createdAt = now\<rparr> t)"

definition trusted_row :: "(string \<Rightarrow> string) \<Rightarrow> user_id \<Rightarrow> string \<Rightarrow> date \<Rightarrow> device_row \<Rightarrow> bool" where
  "trusted_row sha userId token now r \<longleftrightarrow> td_userId r = userId \<and> td_tokenHash r = sha token \<and> now < td_expires r"

text \<open>The comparison repeated in constant time is the equality the query has established.\<close>

definition isTrustedDevice ::
  "(string \<Rightarrow> string) \<Rightarrow> user_id \<Rightarrow> string option \<Rightarrow> date \<Rightarrow> device_table \<Rightarrow> bool \<times> device_table" where
  "isTrustedDevice sha userId token now t =
     (case or_null token of
        None \<Rightarrow> (False, t)
      | Some tok \<Rightarrow>
          (case find_first (trusted_row sha userId tok now) t of
             None \<Rightarrow> (False, t)
           | Some row \<Rightarrow>
               if td_tokenHash row \<noteq> sha tok then (False, t)
               else (True, update_where (\<lambda>r. td_id r = td_id row) (\<lambda>r. r\<lparr>td_lastUsedAt := Some now\<rparr>) t)))"

definition revokeTrustedDevice :: "user_id \<Rightarrow> row_id \<Rightarrow> device_table \<Rightarrow> bool \<times> device_table" where
  "revokeTrustedDevice userId i t =
     (let gone = (\<lambda>r. td_userId r = userId \<and> td_id r = i) in (0 < count_where gone t, delete_where gone t))"

definition revokeAllTrustedDevices :: "user_id \<Rightarrow> device_table \<Rightarrow> nat \<times> device_table" where
  "revokeAllTrustedDevices userId t =
     (let gone = (\<lambda>r. td_userId r = userId) in (count_where gone t, delete_where gone t))"

text \<open>The update that does not move the time back.\<close>

definition touch_row :: "row_id \<Rightarrow> date \<Rightarrow> device_table \<Rightarrow> device_table" where
  "touch_row i now t =
     update_where (\<lambda>r. td_id r = i \<and> (case td_lastUsedAt r of None \<Rightarrow> True | Some l \<Rightarrow> l < now))
       (\<lambda>r. r\<lparr>td_lastUsedAt := Some now\<rparr>) t"

text \<open>A listed device: its row as shown, and whether it is the one making the request.\<close>

fun list_rows :: "string option \<Rightarrow> date \<Rightarrow> device_row list \<Rightarrow> device_table \<Rightarrow> (device_row \<times> bool) list \<times> device_table" where
  "list_rows currentHash now [] t = ([], t)"
| "list_rows currentHash now (r # rs) t =
     (let current = (currentHash = Some (td_tokenHash r));
          touch = (current \<and> shouldTouchLastUsed (td_lastUsedAt r) now);
          t1 = (if touch then touch_row (td_id r) now t else t);
          (more, t2) = list_rows currentHash now rs t1
      in ((if touch then r\<lparr>td_lastUsedAt := Some now\<rparr> else r, current) # more, t2))"

definition listTrustedDevices ::
  "(string \<Rightarrow> string) \<Rightarrow> user_id \<Rightarrow> date \<Rightarrow> string option \<Rightarrow> device_table \<Rightarrow> (device_row \<times> bool) list \<times> device_table" where
  "listTrustedDevices sha userId now currentToken t =
     list_rows (map_option sha (or_null currentToken)) now
       (select_where (\<lambda>r. td_userId r = userId \<and> now < td_expires r) t) t"

definition touchTrustedDeviceLastUsed ::
  "(string \<Rightarrow> string) \<Rightarrow> user_id \<Rightarrow> string option \<Rightarrow> date \<Rightarrow> device_table \<Rightarrow> device_table" where
  "touchTrustedDeviceLastUsed sha userId token now t =
     (case or_null token of
        None \<Rightarrow> t
      | Some tok \<Rightarrow>
          update_where (\<lambda>r. trusted_row sha userId tok now r \<and>
              (case td_lastUsedAt r of None \<Rightarrow> True | Some l \<Rightarrow> l < now - LAST_USED_TOUCH_INTERVAL_MS))
            (\<lambda>r. r\<lparr>td_lastUsedAt := Some now\<rparr>) t)"

definition purgeExpiredTrustedDevices :: "date \<Rightarrow> device_table \<Rightarrow> nat \<times> device_table" where
  "purgeExpiredTrustedDevices now t =
     (let gone = (\<lambda>r. td_expires r < now) in (count_where gone t, delete_where gone t))"

section \<open>Requests\<close>

datatype device_request =
    Remember row_id user_id "string option" string date
  | Check user_id "string option" date
  | Revoke user_id row_id
  | RevokeAll user_id
  | ListDevices user_id date "string option"
  | Touch user_id "string option" date
  | PurgeDevices date

fun serve_device :: "(string \<Rightarrow> string) \<Rightarrow> device_request \<Rightarrow> device_table \<Rightarrow> device_table" where
  "serve_device sha (Remember i u ua token now) t = snd (issueTrustedDevice sha i u ua token now t)"
| "serve_device sha (Check u token now) t = snd (isTrustedDevice sha u token now t)"
| "serve_device sha (Revoke u i) t = snd (revokeTrustedDevice u i t)"
| "serve_device sha (RevokeAll u) t = snd (revokeAllTrustedDevices u t)"
| "serve_device sha (ListDevices u now token) t = snd (listTrustedDevices sha u now token t)"
| "serve_device sha (Touch u token now) t = touchTrustedDeviceLastUsed sha u token now t"
| "serve_device sha (PurgeDevices now) t = snd (purgeExpiredTrustedDevices now t)"

text \<open>What identifies a row and decides whether it is trusted.\<close>

definition device_key :: "device_row \<Rightarrow> row_id \<times> user_id \<times> string \<times> date" where
  "device_key r = (td_id r, td_userId r, td_tokenHash r, td_expires r)"

lemma device_key_used [simp]: "device_key (r\<lparr>td_lastUsedAt := x\<rparr>) = device_key r"
  by (simp add: device_key_def)

lemma keys_of_touch:
  "(\<And>r. device_key (f r) = device_key r) \<Longrightarrow> map device_key (update_where p f t) = map device_key t"
  by (simp add: update_where_def)

lemma keys_of_touch_row: "map device_key (touch_row i now t) = map device_key t"
  by (simp add: touch_row_def keys_of_touch)

lemma keys_of_list: "map device_key (snd (list_rows h now rs t)) = map device_key t"
  by (induction h now rs t rule: list_rows.induct) (auto simp: Let_def split_beta keys_of_touch_row)

lemma keys_of_delete: "set (map device_key (delete_where p t)) \<subseteq> set (map device_key t)"
  by auto

lemma serve_device_keys:
  "set (map device_key (serve_device sha q t)) \<subseteq> set (map device_key t) \<union>
     (case q of Remember i u ua token now \<Rightarrow> {(i, u, sha token, now + TRUST_TTL_DAYS * 24 * 60 * 60000)} | _ \<Rightarrow> {})"
proof (cases q)
  case (Check u token now)
  have "map device_key (snd (isTrustedDevice sha u token now t)) = map device_key t"
    by (auto simp: isTrustedDevice_def keys_of_touch split: option.split)
  then show ?thesis using Check by (simp del: set_map list.set_map)
next
  case (ListDevices u now token)
  have "map device_key (snd (listTrustedDevices sha u now token t)) = map device_key t"
    by (simp only: listTrustedDevices_def keys_of_list)
  then show ?thesis using ListDevices by (simp del: set_map list.set_map)
next
  case (Touch u token now)
  have "map device_key (touchTrustedDeviceLastUsed sha u token now t) = map device_key t"
    by (auto simp: touchTrustedDeviceLastUsed_def keys_of_touch split: option.split)
  then show ?thesis using Touch by (simp del: set_map list.set_map)
qed (auto simp: issueTrustedDevice_def device_key_def revokeTrustedDevice_def revokeAllTrustedDevices_def
    purgeExpiredTrustedDevices_def Let_def)

lemma isTrustedDevice_iff:
  "fst (isTrustedDevice sha u token now t) \<longleftrightarrow>
     (\<exists>tok. token = Some tok \<and> tok \<noteq> [] \<and> (\<exists>i e. (i, u, sha tok, e) \<in> set (map device_key t) \<and> now < e))"
proof (cases "or_null token")
  case None
  then show ?thesis by (auto simp: isTrustedDevice_def or_null_None)
next
  case (Some tok)
  then have tok: "token = Some tok" "tok \<noteq> []" by (simp_all add: or_null_Some)
  have "fst (isTrustedDevice sha u token now t) \<longleftrightarrow> find_first (trusted_row sha u tok now) t \<noteq> None"
    using Some by (auto simp: isTrustedDevice_def trusted_row_def dest: find_first_Some split: option.splits)
  also have "\<dots> \<longleftrightarrow> (\<exists>r \<in> set t. trusted_row sha u tok now r)" by (auto simp: find_first_None)
  also have "\<dots> \<longleftrightarrow> (\<exists>i e. (i, u, sha tok, e) \<in> set (map device_key t) \<and> now < e)"
    by (auto simp: trusted_row_def device_key_def image_iff) force+
  finally show ?thesis using tok by auto
qed

lemma device_run_keys:
  assumes "(i, u, h, e) \<in> set (map device_key (fold (serve_device sha) qs t))"
  shows "(i, u, h, e) \<in> set (map device_key t) \<or>
    (\<exists>ua tok n. Remember i u ua tok n \<in> set qs \<and> h = sha tok \<and> e = n + TRUST_TTL_DAYS * 24 * 60 * 60000)"
  using assms
proof (induction qs arbitrary: t)
  case (Cons q qs)
  have step: "(i, u, h, e) \<in> set (map device_key t) \<or>
      (\<exists>ua tok n. q = Remember i u ua tok n \<and> h = sha tok \<and> e = n + TRUST_TTL_DAYS * 24 * 60 * 60000)"
    if "(i, u, h, e) \<in> set (map device_key (serve_device sha q t))"
    using that serve_device_keys [of sha q t] by (auto split: device_request.splits)
  have "(i, u, h, e) \<in> set (map device_key (fold (serve_device sha) qs (serve_device sha q t)))" using Cons.prems by simp
  from Cons.IH [OF this] show ?case
  proof
    assume "(i, u, h, e) \<in> set (map device_key (serve_device sha q t))"
    from step [OF this] show ?thesis by (elim disjE exE conjE) (simp_all only: list.set insert_iff simp_thms, blast)
  next
    assume "\<exists>ua tok n. Remember i u ua tok n \<in> set qs \<and> h = sha tok \<and> e = n + TRUST_TTL_DAYS * 24 * 60 * 60000"
    then show ?thesis by (simp only: list.set insert_iff) blast
  qed
qed simp

text \<open>
  A device skips the second factor only for the user who remembered it, for thirty days, and never
  across a revocation: whatever happened before, a token trusted after the user revoked all devices
  was handed out to that user after the revocation and less than thirty days ago.
\<close>

theorem trusted_device_was_remembered:
  assumes "fst (isTrustedDevice sha u token now (fold (serve_device sha) (earlier @ RevokeAll u # later) t))"
  shows "\<exists>i ua tok n. Remember i u ua tok n \<in> set later \<and> map_option sha token = Some (sha tok) \<and>
    now < n + TRUST_TTL_DAYS * 24 * 60 * 60000"
proof -
  let ?t1 = "serve_device sha (RevokeAll u) (fold (serve_device sha) earlier t)"
  obtain tok i e where tok: "token = Some tok" "now < e"
    and key: "(i, u, sha tok, e) \<in> set (map device_key (fold (serve_device sha) later ?t1))"
    using assms by (auto simp: isTrustedDevice_iff)
  have "(i, u, sha tok, e) \<notin> set (map device_key ?t1)"
    by (auto simp: revokeAllTrustedDevices_def Let_def device_key_def)
  then show ?thesis using device_run_keys [OF key] tok by auto
qed

theorem trusted_device_was_remembered_witness:
  "\<exists>i ua tok n. Remember i ''u'' ua tok n \<in> set [Remember ''2'' ''u'' None ''tok'' 9] \<and>
     map_option (\<lambda>s. s) (Some ''tok'') = Some tok \<and> (50 :: int) < n + TRUST_TTL_DAYS * 24 * 60 * 60000"
proof -
  have "fst (isTrustedDevice (\<lambda>s. s) ''u'' (Some ''tok'') 50 (fold (serve_device (\<lambda>s. s))
      ([Remember ''1'' ''u'' None ''old'' 3] @ RevokeAll ''u'' # [Remember ''2'' ''u'' None ''tok'' 9]) []))"
    by code_simp
  from trusted_device_was_remembered [OF this] show ?thesis .
qed

text \<open>The label of a browser on an iOS device names iOS and the browser, not macOS and Safari.\<close>

lemma coarseLabel_ios_chrome:
  "coarseLabel (Some ''Mozilla/5.0 (iPhone; CPU iPhone OS 17_0 like Mac OS X) AppleWebKit CriOS/120 Mobile Safari/604.1'') =
     Some ''Chrome on iOS''"
  by code_simp

end
