(* ===== verification/Lockout.thy ===== *)
theory Lockout
  imports Prelude
begin

text \<open>
  Account lockout (\<open>lib/account-lockout.ts\<close>). Recording a failure reads the user row, decides, and
  writes by id; the two parts are separate definitions. Times are milliseconds. A statement that
  fails is caught by the code and answered with the defaults below; it writes nothing.
\<close>

record account_row =
  ac_id :: user_id
  ac_email :: "string option"
  ac_name :: "string option"
  ac_image :: "string option"
  ac_passwordHash :: "string option"
  ac_failedLoginAttempts :: nat
  ac_lastFailedLoginAt :: "date option"
  ac_lockedUntil :: "date option"
  ac_lockoutCount :: nat

type_synonym account_table = "account_row table"

definition MAX_FAILED_ATTEMPTS :: nat where "MAX_FAILED_ATTEMPTS = 5"
definition FAILED_ATTEMPT_WINDOW_MS :: int where "FAILED_ATTEMPT_WINDOW_MS = 30 * 60 * 1000"
definition BASE_LOCKOUT_DURATION_MS :: int where "BASE_LOCKOUT_DURATION_MS = 15 * 60 * 1000"
definition MAX_LOCKOUT_DURATION_MS :: int where "MAX_LOCKOUT_DURATION_MS = 24 * 60 * 60 * 1000"
definition LOCKOUT_MULTIPLIER :: int where "LOCKOUT_MULTIPLIER = 2"

lemmas lockout_config = MAX_FAILED_ATTEMPTS_def FAILED_ATTEMPT_WINDOW_MS_def BASE_LOCKOUT_DURATION_MS_def
  MAX_LOCKOUT_DURATION_MS_def LOCKOUT_MULTIPLIER_def

definition account_key :: "string \<Rightarrow> string" where
  "account_key email = js_trim (js_lower email)"

definition account_of :: "string \<Rightarrow> account_table \<Rightarrow> account_row option" where
  "account_of email t = find_first (\<lambda>u. ac_email u = Some (account_key email)) t"

text \<open>\<open>Math.ceil(x / 1000)\<close> for a whole number of milliseconds.\<close>

definition ceil_seconds :: "int \<Rightarrow> int" where
  "ceil_seconds x = (x + 999) div 1000"

section \<open>Checking\<close>

record lockout_status =
  ls_locked :: bool
  ls_remainingAttempts :: nat
  ls_lockedUntil :: "date option"
  ls_secondsRemaining :: "int option"

definition unlocked_status :: "nat \<Rightarrow> lockout_status" where
  "unlocked_status n = \<lparr>ls_locked = False, ls_remainingAttempts = n, ls_lockedUntil = None, ls_secondsRemaining = None\<rparr>"

definition checkAccountLockout :: "string \<Rightarrow> date \<Rightarrow> account_table \<Rightarrow> lockout_status" where
  "checkAccountLockout email now t =
     (case account_of email t of
        None \<Rightarrow> unlocked_status MAX_FAILED_ATTEMPTS
      | Some user \<Rightarrow>
          (case ac_lockedUntil user of
             Some l \<Rightarrow>
               if now < l then \<lparr>ls_locked = True, ls_remainingAttempts = 0, ls_lockedUntil = Some l,
                    ls_secondsRemaining = Some (ceil_seconds (l - now))\<rparr>
               else unlocked_status (MAX_FAILED_ATTEMPTS - (case ac_lastFailedLoginAt user of
                 Some f \<Rightarrow> if now - FAILED_ATTEMPT_WINDOW_MS < f then ac_failedLoginAttempts user else 0 | None \<Rightarrow> 0))
           | None \<Rightarrow> unlocked_status (MAX_FAILED_ATTEMPTS - (case ac_lastFailedLoginAt user of
                 Some f \<Rightarrow> if now - FAILED_ATTEMPT_WINDOW_MS < f then ac_failedLoginAttempts user else 0 | None \<Rightarrow> 0))))"

section \<open>Recording a failure\<close>

definition lockout_duration :: "nat \<Rightarrow> int" where
  "lockout_duration lockoutCount =
     min (BASE_LOCKOUT_DURATION_MS * LOCKOUT_MULTIPLIER ^ lockoutCount) MAX_LOCKOUT_DURATION_MS"

record failed_attempt_result =
  fa_nowLocked :: bool
  fa_remainingAttempts :: nat
  fa_lockedUntil :: "date option"
  fa_durationSeconds :: "int option"

text \<open>The write that follows the read: the id of the row, the new count and, when locking, until when.\<close>

record failure_plan =
  fp_id :: user_id
  fp_attempts :: nat
  fp_at :: date
  fp_lock :: "(date \<times> nat) option"

definition failure_check :: "account_row \<Rightarrow> date \<Rightarrow> failure_plan \<times> failed_attempt_result" where
  "failure_check user now =
     (let shouldResetCount = (case ac_lastFailedLoginAt user of
            None \<Rightarrow> True | Some f \<Rightarrow> f < now - FAILED_ATTEMPT_WINDOW_MS);
          newFailedAttempts = (if shouldResetCount then 1 else ac_failedLoginAttempts user + 1)
      in if MAX_FAILED_ATTEMPTS \<le> newFailedAttempts
         then let d = lockout_duration (ac_lockoutCount user) in
           (\<lparr>fp_id = ac_id user, fp_attempts = newFailedAttempts, fp_at = now,
             fp_lock = Some (now + d, ac_lockoutCount user + 1)\<rparr>,
            \<lparr>fa_nowLocked = True, fa_remainingAttempts = 0, fa_lockedUntil = Some (now + d),
             fa_durationSeconds = Some (ceil_seconds d)\<rparr>)
         else
           (\<lparr>fp_id = ac_id user, fp_attempts = newFailedAttempts, fp_at = now, fp_lock = None\<rparr>,
            \<lparr>fa_nowLocked = False, fa_remainingAttempts = MAX_FAILED_ATTEMPTS - newFailedAttempts,
             fa_lockedUntil = None, fa_durationSeconds = None\<rparr>))"

definition failure_row :: "failure_plan \<Rightarrow> account_row \<Rightarrow> account_row" where
  "failure_row plan u =
     (let u1 = u\<lparr>ac_failedLoginAttempts := fp_attempts plan, ac_lastFailedLoginAt := Some (fp_at plan)\<rparr>
      in case fp_lock plan of None \<Rightarrow> u1 | Some (til, n) \<Rightarrow> u1\<lparr>ac_lockedUntil := Some til, ac_lockoutCount := n\<rparr>)"

definition failure_write :: "failure_plan \<Rightarrow> account_table \<Rightarrow> account_table" where
  "failure_write plan t = update_where (\<lambda>u. ac_id u = fp_id plan) (failure_row plan) t"

definition recordFailedAttempt :: "string \<Rightarrow> date \<Rightarrow> account_table \<Rightarrow> failed_attempt_result \<times> account_table" where
  "recordFailedAttempt email now t =
     (case account_of email t of
        None \<Rightarrow> (\<lparr>fa_nowLocked = False, fa_remainingAttempts = MAX_FAILED_ATTEMPTS - 1,
                 fa_lockedUntil = None, fa_durationSeconds = None\<rparr>, t)
      | Some user \<Rightarrow> (case failure_check user now of (plan, result) \<Rightarrow> (result, failure_write plan t)))"

definition resetFailedAttempts :: "string \<Rightarrow> account_table \<Rightarrow> account_table" where
  "resetFailedAttempts email t =
     update_where (\<lambda>u. ac_email u = Some (account_key email))
       (\<lambda>u. u\<lparr>ac_failedLoginAttempts := 0, ac_lastFailedLoginAt := None, ac_lockedUntil := None\<rparr>) t"

definition unlockAccount :: "string \<Rightarrow> account_table \<Rightarrow> account_table" where
  "unlockAccount email t =
     update_where (\<lambda>u. ac_email u = Some (account_key email))
       (\<lambda>u. u\<lparr>ac_failedLoginAttempts := 0, ac_lastFailedLoginAt := None, ac_lockedUntil := None, ac_lockoutCount := 0\<rparr>) t"

section \<open>Durations\<close>

lemma lockout_duration_bounds:
  "BASE_LOCKOUT_DURATION_MS \<le> lockout_duration n \<and> lockout_duration n \<le> MAX_LOCKOUT_DURATION_MS"
proof -
  have "(1 :: int) \<le> 2 ^ n" by simp
  then show ?thesis unfolding lockout_duration_def lockout_config by linarith
qed

lemma lockout_duration_mono: "m \<le> n \<Longrightarrow> lockout_duration m \<le> lockout_duration n"
proof -
  assume "m \<le> n"
  then have "(2 :: int) ^ m \<le> 2 ^ n" by (rule power_increasing) simp
  then show ?thesis unfolding lockout_duration_def lockout_config by linarith
qed

section \<open>Guesses in a quarter of an hour\<close>

text \<open>
  A wrong password as sign-in treats it: refused while the account is locked, otherwise evaluated and
  recorded. The result tells whether it was evaluated.
\<close>

definition wrong_password :: "string \<Rightarrow> date \<Rightarrow> account_table \<Rightarrow> bool \<times> account_table" where
  "wrong_password email now t =
     (if ls_locked (checkAccountLockout email now t) then (False, t)
      else (True, snd (recordFailedAttempt email now t)))"

fun evaluated :: "string \<Rightarrow> (string \<times> date) list \<Rightarrow> account_table \<Rightarrow> nat" where
  "evaluated key [] t = 0"
| "evaluated key ((email, now) # es) t =
     (case wrong_password email now t of (ok, t1) \<Rightarrow>
        (if ok \<and> account_key email = key then 1 else 0) + evaluated key es t1)"

definition guessed :: "date \<Rightarrow> nat \<Rightarrow> account_row \<Rightarrow> bool" where
  "guessed a k u \<longleftrightarrow> k \<le> MAX_FAILED_ATTEMPTS \<and>
     (k = 0 \<or> (k \<le> ac_failedLoginAttempts u \<and> (\<exists>f. ac_lastFailedLoginAt u = Some f \<and> a \<le> f) \<and>
       (MAX_FAILED_ATTEMPTS \<le> ac_failedLoginAttempts u \<longrightarrow>
          (\<exists>l. ac_lockedUntil u = Some l \<and> a + BASE_LOCKOUT_DURATION_MS \<le> l))))"

lemma ac_email_failure_row [simp]: "ac_email (failure_row plan u) = ac_email u"
  by (auto simp: failure_row_def Let_def split: option.split)

lemma ac_id_failure_row [simp]: "ac_id (failure_row plan u) = ac_id u"
  by (auto simp: failure_row_def Let_def split: option.split)

lemma account_after_failure:
  "account_of email (failure_write plan t) =
     map_option (\<lambda>u. if ac_id u = fp_id plan then failure_row plan u else u) (account_of email t)"
  unfolding account_of_def failure_write_def by (rule find_first_update_where) simp

lemma not_locked: "ls_locked (checkAccountLockout email now t) \<longleftrightarrow>
    (\<exists>u l. account_of email t = Some u \<and> ac_lockedUntil u = Some l \<and> now < l)"
  by (auto simp: checkAccountLockout_def unlocked_status_def split: option.split)

lemma fp_id_failure_check [simp]: "fp_id (fst (failure_check u now)) = ac_id u"
  by (simp add: failure_check_def Let_def)

lemma guessed_evaluated:
  assumes "account_of email t = Some u" "\<not> ls_locked (checkAccountLockout email now t)" "guessed a k u"
    "a \<le> now" "now < a + BASE_LOCKOUT_DURATION_MS"
  shows "guessed a (k + 1) (failure_row (fst (failure_check u now)) u)"
proof -
  have free: "ac_lockedUntil u = Some l \<Longrightarrow> l \<le> now" for l using assms(1,2) by (force simp: not_locked)
  have d: "a + BASE_LOCKOUT_DURATION_MS \<le> now + lockout_duration (ac_lockoutCount u)"
    using lockout_duration_bounds [of "ac_lockoutCount u"] assms(4) by linarith
  show ?thesis
  proof (cases "k = 0")
    case True
    then show ?thesis using assms(4) d
      by (auto simp: guessed_def failure_check_def failure_row_def Let_def lockout_config)
  next
    case False
    then have g: "k \<le> ac_failedLoginAttempts u" "ac_failedLoginAttempts u < MAX_FAILED_ATTEMPTS"
      and f: "\<exists>f. ac_lastFailedLoginAt u = Some f \<and> a \<le> f"
      using assms(3,5) free unfolding guessed_def by force+
    then obtain f where f: "ac_lastFailedLoginAt u = Some f" "a \<le> f" by auto
    have "\<not> f < now - FAILED_ATTEMPT_WINDOW_MS" using f(2) assms(5) by (simp add: lockout_config)
    then show ?thesis using g f(1) assms(4) d
      by (auto simp: guessed_def failure_check_def failure_row_def Let_def)
  qed
qed

lemma wrong_password_step:
  assumes "unique_key ac_id t" "account_of victim t = Some u" "guessed a k u"
    "a \<le> now" "now < a + BASE_LOCKOUT_DURATION_MS" "wrong_password email now t = (ok, t')"
  shows "\<exists>u'. account_of victim t' = Some u' \<and> unique_key ac_id t' \<and>
    guessed a (k + (if ok \<and> account_key email = account_key victim then 1 else 0)) u'"
proof (cases "ok")
  case False
  then show ?thesis using assms by (auto simp: wrong_password_def split: if_splits)
next
  case True
  then have free: "\<not> ls_locked (checkAccountLockout email now t)" and t': "t' = snd (recordFailedAttempt email now t)"
    using assms(6) by (auto simp: wrong_password_def split: if_splits)
  show ?thesis
  proof (cases "account_of email t")
    case None
    then have "account_key email \<noteq> account_key victim" using assms(2) by (auto simp: account_of_def)
    then show ?thesis using None t' assms by (simp add: recordFailedAttempt_def)
  next
    case (Some v)
    let ?plan = "fst (failure_check v now)"
    have t'': "t' = failure_write ?plan t" using t' Some by (simp add: recordFailedAttempt_def split_beta)
    have uniq: "unique_key ac_id t'" unfolding t'' failure_write_def
      by (rule unique_key_update_where [OF assms(1)]) simp
    show ?thesis
    proof (cases "account_key email = account_key victim")
      case True
      then have "account_of email t = account_of victim t" by (simp add: account_of_def)
      then have [simp]: "v = u" using Some assms(2) by simp
      have "account_of victim t' = Some (failure_row ?plan u)"
        unfolding t'' account_after_failure using assms(2) by simp
      then show ?thesis using uniq guessed_evaluated [OF _ free assms(3,4,5)] Some True \<open>ok\<close> by simp
    next
      case False
      have "u \<in> set t" "v \<in> set t" "ac_email u = Some (account_key victim)" "ac_email v = Some (account_key email)"
        using find_first_Some [OF assms(2) [unfolded account_of_def]] find_first_Some [OF Some [unfolded account_of_def]] by simp_all
      then have "ac_id u \<noteq> ac_id v" using unique_key_eq [OF assms(1)] False by force
      then have "account_of victim t' = Some u" unfolding t'' account_after_failure using assms(2) by simp
      then show ?thesis using uniq assms(3) False by simp
    qed
  qed
qed


definition sample_account :: account_row where
  "sample_account = \<lparr>ac_id = ''u'', ac_email = Some ''a@b'', ac_name = None, ac_image = None, ac_passwordHash = Some ''pw'',
     ac_failedLoginAttempts = 0, ac_lastFailedLoginAt = None, ac_lockedUntil = None, ac_lockoutCount = 0\<rparr>"


text \<open>
  Failures that overlap all read the same count and write the same successor: twenty wrong passwords
  at once count as one.
\<close>

theorem overlapping_failures_count_once:
  "(let plan = fst (failure_check sample_account 7);
        t = fold failure_write (replicate 20 plan) [sample_account]
    in map ac_failedLoginAttempts t = [1] \<and> \<not> ls_locked (checkAccountLockout ''a@b'' 8 t)) \<and>
   evaluated ''a@b'' (replicate 20 (''a@b'', 7)) [sample_account] = 5"
  unfolding Let_def by (intro conjI; code_simp)

text \<open>
  At exactly thirty minutes the two operations disagree: the check counts the old failures as
  forgotten and promises five attempts, and the next failure locks the account.
\<close>

theorem lockout_boundary_disagreement:
  "(let u = sample_account\<lparr>ac_failedLoginAttempts := 4, ac_lastFailedLoginAt := Some 0\<rparr>
    in ls_remainingAttempts (checkAccountLockout ''a@b'' FAILED_ATTEMPT_WINDOW_MS [u]) = 5 \<and>
       fa_nowLocked (fst (recordFailedAttempt ''a@b'' FAILED_ATTEMPT_WINDOW_MS [u])))"
  unfolding Let_def by (intro conjI; code_simp)

end
