(* ===== verification/RateLimit.thy ===== *)
theory RateLimit
  imports Prelude
begin

text \<open>
  Rate limits: the sliding window kept in memory (\<open>lib/rate-limit.ts\<close>) and the fixed window kept in a
  shared key-value store (\<open>lib/rate-limit-distributed.ts\<close>). A \<open>Map\<close> is a partial function; times are
  milliseconds.
\<close>

record rate_config =
  rl_windowMs :: int
  rl_maxRequests :: nat

record rate_entry =
  re_timestamps :: "int list"
  re_lockedUntil :: "int option"

record rate_memory =
  rm_store :: "string \<Rightarrow> rate_entry option"
  rm_lastCleanup :: int

definition CLEANUP_INTERVAL_MS :: int where "CLEANUP_INTERVAL_MS = 60000"

text \<open>\<open>!x || x < now\<close> and \<open>x && x > now\<close>: zero counts as absent.\<close>

definition lock_over :: "int option \<Rightarrow> int \<Rightarrow> bool" where
  "lock_over l now = (case l of None \<Rightarrow> True | Some x \<Rightarrow> x = 0 \<or> x < now)"

definition lock_holds :: "int option \<Rightarrow> int \<Rightarrow> bool" where
  "lock_holds l now = (case l of None \<Rightarrow> False | Some x \<Rightarrow> x \<noteq> 0 \<and> now < x)"

definition lazyCleanup :: "int \<Rightarrow> rate_memory \<Rightarrow> rate_memory" where
  "lazyCleanup now m =
     (if now - rm_lastCleanup m < CLEANUP_INTERVAL_MS then m
      else m\<lparr>rm_lastCleanup := now,
        rm_store := (\<lambda>k. case rm_store m k of None \<Rightarrow> None
          | Some e \<Rightarrow> if re_timestamps e = [] \<and> lock_over (re_lockedUntil e) now then None else Some e)\<rparr>)"

datatype rate_preset =
    LOGIN | SIGNUP | PASSWORD_RESET | PASSWORD_RESET_ACCOUNT_DEDUP | PASSWORD_RESET_ACCOUNT_DAILY
  | API | API_RELAXED | EVALUATE_SOURCE | LEXICON_BULK | PILOT_APPLICATION

fun RateLimitPresets :: "rate_preset \<Rightarrow> rate_config" where
  "RateLimitPresets LOGIN = \<lparr>rl_windowMs = 60000, rl_maxRequests = 5\<rparr>"
| "RateLimitPresets SIGNUP = \<lparr>rl_windowMs = 3600000, rl_maxRequests = 10\<rparr>"
| "RateLimitPresets PASSWORD_RESET = \<lparr>rl_windowMs = 3600000, rl_maxRequests = 3\<rparr>"
| "RateLimitPresets PASSWORD_RESET_ACCOUNT_DEDUP = \<lparr>rl_windowMs = 300000, rl_maxRequests = 1\<rparr>"
| "RateLimitPresets PASSWORD_RESET_ACCOUNT_DAILY = \<lparr>rl_windowMs = 86400000, rl_maxRequests = 50\<rparr>"
| "RateLimitPresets API = \<lparr>rl_windowMs = 60000, rl_maxRequests = 60\<rparr>"
| "RateLimitPresets API_RELAXED = \<lparr>rl_windowMs = 60000, rl_maxRequests = 120\<rparr>"
| "RateLimitPresets EVALUATE_SOURCE = \<lparr>rl_windowMs = 60000, rl_maxRequests = 20\<rparr>"
| "RateLimitPresets LEXICON_BULK = \<lparr>rl_windowMs = 3600000, rl_maxRequests = 5\<rparr>"
| "RateLimitPresets PILOT_APPLICATION = \<lparr>rl_windowMs = 3600000, rl_maxRequests = 5\<rparr>"

record rate_result =
  rr_allowed :: bool
  rr_remaining :: nat
  rr_resetAt :: int
  rr_retryAfterSeconds :: "int option"
  rr_locked :: bool

text \<open>\<open>Math.ceil(x / 1000)\<close>.\<close>

definition up_seconds :: "int \<Rightarrow> int" where
  "up_seconds x = - ((- x) div 1000)"

section \<open>In memory\<close>

text \<open>
  With a limit of zero the code reads the first of no timestamps and answers with a reset time that
  is not a number; that field is 0 here.
\<close>

definition first_or_zero :: "int list \<Rightarrow> int" where
  "first_or_zero ts = (case ts of [] \<Rightarrow> 0 | t # _ \<Rightarrow> t)"

definition check_entry :: "rate_config \<Rightarrow> int \<Rightarrow> rate_entry \<Rightarrow> rate_result \<times> rate_entry" where
  "check_entry config now e =
     (if lock_holds (re_lockedUntil e) now
      then (\<lparr>rr_allowed = False, rr_remaining = 0, rr_resetAt = nullish (re_lockedUntil e) 0,
             rr_retryAfterSeconds = Some (up_seconds (nullish (re_lockedUntil e) 0 - now)), rr_locked = True\<rparr>, e)
      else
        let ts = filter (\<lambda>s. now - rl_windowMs config < s) (re_timestamps e) in
        if rl_maxRequests config \<le> length ts
        then let resetAt = first_or_zero ts + rl_windowMs config in
          (\<lparr>rr_allowed = False, rr_remaining = 0, rr_resetAt = resetAt,
            rr_retryAfterSeconds = Some (up_seconds (resetAt - now)), rr_locked = False\<rparr>, e\<lparr>re_timestamps := ts\<rparr>)
        else let ts' = ts @ [now] in
          (\<lparr>rr_allowed = True, rr_remaining = rl_maxRequests config - length ts',
            rr_resetAt = first_or_zero ts' + rl_windowMs config, rr_retryAfterSeconds = None, rr_locked = False\<rparr>,
           e\<lparr>re_timestamps := ts'\<rparr>))"

definition entry_of :: "string \<Rightarrow> rate_memory \<Rightarrow> rate_entry" where
  "entry_of k m = nullish (rm_store m k) \<lparr>re_timestamps = [], re_lockedUntil = None\<rparr>"

definition put_entry :: "string \<Rightarrow> rate_entry option \<Rightarrow> rate_memory \<Rightarrow> rate_memory" where
  "put_entry k e m = m\<lparr>rm_store := (rm_store m)(k := e)\<rparr>"

definition checkRateLimit :: "string \<Rightarrow> rate_config \<Rightarrow> int \<Rightarrow> rate_memory \<Rightarrow> rate_result \<times> rate_memory" where
  "checkRateLimit identifier config now m =
     (let m1 = lazyCleanup now m; (r, e) = check_entry config now (entry_of identifier m1)
      in (r, put_entry identifier (Some e) m1))"

definition lockIdentifier :: "string \<Rightarrow> int \<Rightarrow> int \<Rightarrow> rate_memory \<Rightarrow> rate_memory" where
  "lockIdentifier identifier lockDurationMs now m =
     put_entry identifier (Some ((entry_of identifier m)\<lparr>re_lockedUntil := Some (now + lockDurationMs)\<rparr>)) m"

definition unlockIdentifier :: "string \<Rightarrow> rate_memory \<Rightarrow> rate_memory" where
  "unlockIdentifier identifier m =
     (case rm_store m identifier of None \<Rightarrow> m
      | Some e \<Rightarrow> put_entry identifier (Some (e\<lparr>re_lockedUntil := None\<rparr>)) m)"

definition resetRateLimit :: "string \<Rightarrow> rate_memory \<Rightarrow> rate_memory" where
  "resetRateLimit identifier m = put_entry identifier None m"

section \<open>In the shared store\<close>

text \<open>
  The store maps keys to decimal numerals; an entry outlives its window, so expiry never removes a
  counter that is still in use. \<open>kv_up\<close> is whether the store exists, \<open>kv_reads\<close> and \<open>kv_writes\<close> whether
  the two accesses of the call succeed; the hash of the identifier is the parameter \<open>sha\<close>.
\<close>

record rate_state =
  rs_kv :: "string \<Rightarrow> string option"
  rs_memory :: rate_memory

record kv_health =
  kv_up :: bool
  kv_reads :: bool
  kv_writes :: bool

definition window_start :: "rate_config \<Rightarrow> int \<Rightarrow> int" where
  "window_start config now = (now div rl_windowMs config) * rl_windowMs config"

definition rate_key :: "(string \<Rightarrow> string) \<Rightarrow> string \<Rightarrow> rate_config \<Rightarrow> int \<Rightarrow> string" where
  "rate_key sha identifier config now =
     ''rl:'' @ take 32 (sha identifier) @ CHR '':'' # dec_int (window_start config now)"

definition checkRateLimitDistributed ::
  "(string \<Rightarrow> string) \<Rightarrow> kv_health \<Rightarrow> string \<Rightarrow> rate_config \<Rightarrow> int \<Rightarrow> rate_state \<Rightarrow> rate_result \<times> rate_state" where
  "checkRateLimitDistributed sha health identifier config now st =
     (let fallback = (case checkRateLimit identifier config now (rs_memory st) of (r, m) \<Rightarrow> (r, st\<lparr>rs_memory := m\<rparr>));
          resetAt = window_start config now + rl_windowMs config;
          key = rate_key sha identifier config now
      in if \<not> kv_up health \<or> \<not> kv_reads health then fallback
         else
           let count = (case or_null (rs_kv st key) of None \<Rightarrow> 0 | Some raw \<Rightarrow> undec raw) in
           if rl_maxRequests config \<le> count
           then (\<lparr>rr_allowed = False, rr_remaining = 0, rr_resetAt = resetAt,
                  rr_retryAfterSeconds = Some (up_seconds (resetAt - now)), rr_locked = False\<rparr>, st)
           else if \<not> kv_writes health then fallback
           else (\<lparr>rr_allowed = True, rr_remaining = rl_maxRequests config - (count + 1), rr_resetAt = resetAt,
                  rr_retryAfterSeconds = None, rr_locked = False\<rparr>,
                 st\<lparr>rs_kv := (rs_kv st)(key := Some (dec (count + 1)))\<rparr>))"

text \<open>The address a request is counted under; \<open>headers\<close> is \<open>request.headers.get\<close>.\<close>

definition getClientIp :: "(string \<Rightarrow> string option) \<Rightarrow> string" where
  "getClientIp headers =
     (case or_null (headers ''cf-connecting-ip'') of
        Some ip \<Rightarrow> ip
      | None \<Rightarrow>
          (case or_null (headers ''x-forwarded-for'') of
             Some ips \<Rightarrow> js_trim (hd (split_on CHR '','' ips))
           | None \<Rightarrow> (case or_null (headers ''x-real-ip'') of Some ip \<Rightarrow> ip | None \<Rightarrow> ''unknown'')))"

section \<open>The sliding window holds\<close>

datatype rate_op =
    CheckOp string rate_config int
  | LockOp string int int
  | UnlockOp string

fun op_time :: "rate_op \<Rightarrow> int option" where
  "op_time (CheckOp _ _ now) = Some now"
| "op_time (LockOp _ _ now) = Some now"
| "op_time (UnlockOp _) = None"

fun apply_op :: "rate_op \<Rightarrow> rate_memory \<Rightarrow> rate_memory" where
  "apply_op (CheckOp k c now) m = snd (checkRateLimit k c now m)"
| "apply_op (LockOp k d now) m = lockIdentifier k d now m"
| "apply_op (UnlockOp k) m = unlockIdentifier k m"

text \<open>The times at which requests of an identifier are allowed.\<close>

fun allowed_times :: "string \<Rightarrow> rate_op list \<Rightarrow> rate_memory \<Rightarrow> int list" where
  "allowed_times k [] m = []"
| "allowed_times k (q # qs) m =
     (case q of CheckOp j c now \<Rightarrow> if j = k \<and> rr_allowed (fst (checkRateLimit j c now m)) then [now] else [] | _ \<Rightarrow> [])
     @ allowed_times k qs (apply_op q m)"

fun times_from :: "int \<Rightarrow> rate_op list \<Rightarrow> bool" where
  "times_from T [] \<longleftrightarrow> True"
| "times_from T (q # qs) \<longleftrightarrow> (case op_time q of None \<Rightarrow> times_from T qs | Some now \<Rightarrow> T \<le> now \<and> times_from now qs)"

definition uses_config :: "string \<Rightarrow> rate_config \<Rightarrow> rate_op \<Rightarrow> bool" where
  "uses_config k c q \<longleftrightarrow> (case q of CheckOp j d _ \<Rightarrow> j = k \<longrightarrow> d = c | _ \<Rightarrow> True)"

definition in_window :: "int \<Rightarrow> int \<Rightarrow> int list \<Rightarrow> nat" where
  "in_window w t xs = length (filter (\<lambda>s. t - w < s \<and> s \<le> t) xs)"

lemma in_window_append [simp]: "in_window w t (xs @ ys) = in_window w t xs + in_window w t ys"
  by (simp add: in_window_def)

lemma in_window_filter: "in_window w t (filter p xs) \<le> in_window w t xs"
  by (induction xs) (auto simp: in_window_def)

lemma in_window_le_length: "in_window w t xs \<le> length xs"
  by (simp add: in_window_def)

lemma in_window_none: "(\<And>s. s \<in> set xs \<Longrightarrow> t < s \<or> s \<le> t - w) \<Longrightarrow> in_window w t xs = 0"
  by (force simp: in_window_def filter_empty_conv)

lemma in_window_recent:
  assumes "now \<le> t"
  shows "in_window w t (filter (\<lambda>s. now - w < s) xs) = in_window w t xs"
  using assms by (induction xs) (auto simp: in_window_def)

abbreviation stamps :: "string \<Rightarrow> rate_memory \<Rightarrow> int list" where
  "stamps k m \<equiv> re_timestamps (entry_of k m)"

lemma stamps_put [simp]:
  "stamps k (put_entry j e m) = (if k = j then (case e of None \<Rightarrow> [] | Some x \<Rightarrow> re_timestamps x) else stamps k m)"
  by (cases e) (simp_all add: entry_of_def put_entry_def)

lemma stamps_cleanup [simp]: "stamps k (lazyCleanup now m) = stamps k m"
  by (auto simp: entry_of_def lazyCleanup_def split: option.split)

lemma stamps_lock [simp]: "stamps k (lockIdentifier j d now m) = stamps k m"
  by (simp add: lockIdentifier_def)

lemma stamps_unlock [simp]: "stamps k (unlockIdentifier j m) = stamps k m"
  by (auto simp: unlockIdentifier_def entry_of_def put_entry_def split: option.split)

lemma stamps_check:
  "stamps k (snd (checkRateLimit j c now m)) =
     (if k = j then re_timestamps (snd (check_entry c now (entry_of j (lazyCleanup now m)))) else stamps k m)"
  by (simp add: checkRateLimit_def Let_def split_beta)

lemma check_entry_cases:
  obtains "\<not> rr_allowed (fst (check_entry c now e))" "re_timestamps (snd (check_entry c now e)) = re_timestamps e"
  | "\<not> rr_allowed (fst (check_entry c now e))"
    "re_timestamps (snd (check_entry c now e)) = filter (\<lambda>s. now - rl_windowMs c < s) (re_timestamps e)"
  | "rr_allowed (fst (check_entry c now e))"
    "re_timestamps (snd (check_entry c now e)) = filter (\<lambda>s. now - rl_windowMs c < s) (re_timestamps e) @ [now]"
    "length (filter (\<lambda>s. now - rl_windowMs c < s) (re_timestamps e)) < rl_maxRequests c"
proof (cases "lock_holds (re_lockedUntil e) now")
  case True
  then show ?thesis by (intro that(1)) (simp_all add: check_entry_def)
next
  case False
  show ?thesis
  proof (cases "rl_maxRequests c \<le> length (filter (\<lambda>s. now - rl_windowMs c < s) (re_timestamps e))")
    case True
    then show ?thesis using False by (intro that(2)) (simp_all add: check_entry_def Let_def)
  next
    case F: False
    then show ?thesis using False by (intro that(3)) (simp_all add: check_entry_def Let_def)
  qed
qed

lemma allowed_times_from:
  "times_from T qs \<Longrightarrow> s \<in> set (allowed_times k qs m) \<Longrightarrow> T \<le> s"
proof (induction qs arbitrary: T m)
  case (Cons q qs)
  show ?case
  proof (cases "op_time q")
    case None
    then show ?thesis using Cons by (cases q) auto
  next
    case (Some now)
    then have "T \<le> now" "times_from now qs" using Cons.prems(1) by simp_all
    then show ?thesis using Cons.IH [of now "apply_op q m"] Cons.prems(2) Some
      by (cases q) (auto split: if_splits)
  qed
qed simp

lemma sliding_window_run:
  assumes "times_from T qs" "list_all (uses_config k c) qs"
    "\<forall>s \<in> set (stamps k m). s \<le> T" "\<forall>t. in_window (rl_windowMs c) t (stamps k m) \<le> rl_maxRequests c"
  shows "in_window (rl_windowMs c) t (stamps k m @ allowed_times k qs m) \<le> rl_maxRequests c"
  using assms
proof (induction qs arbitrary: T m t)
  case Nil
  then show ?case by simp
next
  case (Cons q qs)
  let ?w = "rl_windowMs c"
  let ?E = "stamps k m"
  show ?case
  proof (cases "\<exists>now. q = CheckOp k c now")
    case False
    have s: "stamps k (apply_op q m) = ?E" "allowed_times k (q # qs) m = allowed_times k qs (apply_op q m)"
      using False Cons.prems(2) by (cases q; auto simp: stamps_check uses_config_def)+
    have T: "\<exists>T'. T \<le> T' \<and> times_from T' qs" using Cons.prems(1) by (cases "op_time q") auto
    then obtain T' where "T \<le> T'" "times_from T' qs" by auto
    then show ?thesis using Cons.IH [of T' "apply_op q m" t] Cons.prems s by force
  next
    case True
    then obtain now where q: "q = CheckOp k c now" by auto
    let ?m' = "apply_op q m"
    let ?A = "allowed_times k qs ?m'"
    let ?ts = "filter (\<lambda>s. now - ?w < s) ?E"
    have T: "T \<le> now" "times_from now qs" using Cons.prems(1) q by simp_all
    have old: "\<forall>s \<in> set ?E. s \<le> now" using Cons.prems(3) T(1) by auto
    have later: "in_window ?w t ?A = 0" if "t < now"
      by (rule in_window_none) (use allowed_times_from [OF T(2)] that in force)
    have m': "stamps k ?m' = re_timestamps (snd (check_entry c now (entry_of k (lazyCleanup now m))))"
      and ok: "rr_allowed (fst (checkRateLimit k c now m)) = rr_allowed (fst (check_entry c now (entry_of k (lazyCleanup now m))))"
      unfolding q by (simp add: stamps_check, simp add: checkRateLimit_def Let_def split_beta)
    note IH = Cons.IH [OF T(2), of ?m' t]
    have cfg: "list_all (uses_config k c) qs" using Cons.prems(2) by simp
    from check_entry_cases [of c now "entry_of k (lazyCleanup now m)"] show ?thesis
    proof cases
      case 1
      then have "stamps k ?m' = ?E" "allowed_times k (q # qs) m = ?A" using m' ok q by simp_all
      then show ?thesis using IH cfg old Cons.prems(4) by simp
    next
      case 2
      then have e: "stamps k ?m' = ?ts" "allowed_times k (q # qs) m = ?A" using m' ok q by simp_all
      have "\<forall>t. in_window ?w t ?ts \<le> rl_maxRequests c" using Cons.prems(4) in_window_filter le_trans by blast
      then have "in_window ?w t (?ts @ ?A) \<le> rl_maxRequests c" using IH cfg old e(1) by simp
      then show ?thesis
        using Cons.prems(4) later in_window_recent [of now t ?w ?E] unfolding e(2)
        by (cases "t < now") simp_all
    next
      case 3
      then have e: "stamps k ?m' = ?ts @ [now]" "allowed_times k (q # qs) m = now # ?A" and room: "length ?ts < rl_maxRequests c"
        using m' ok q by simp_all
      have bound: "in_window ?w t' (?ts @ [now]) \<le> rl_maxRequests c" for t'
      proof (cases "t' < now")
        case True
        then have "in_window ?w t' [now] = 0" by (simp add: in_window_def)
        then have "in_window ?w t' (?ts @ [now]) = in_window ?w t' ?ts" by simp
        also have "\<dots> \<le> in_window ?w t' ?E" by (rule in_window_filter)
        finally show ?thesis using Cons.prems(4) le_trans by blast
      next
        case False
        show ?thesis using in_window_le_length [of ?w t' "?ts @ [now]"] room by simp
      qed
      then have "in_window ?w t ((?ts @ [now]) @ ?A) \<le> rl_maxRequests c" using IH cfg old e(1) by auto
      moreover have "in_window ?w t [now] = 0" if "t < now" using that by (simp add: in_window_def)
      moreover have "in_window ?w t (now # ?A) = in_window ?w t [now] + in_window ?w t ?A" by (simp add: in_window_def)
      ultimately show ?thesis
        using Cons.prems(4) later in_window_recent [of now t ?w ?E] unfolding e(2)
        by (cases "t < now") simp_all
    qed
  qed
qed


definition fresh_memory :: rate_memory where
  "fresh_memory = \<lparr>rm_store = (\<lambda>_. None), rm_lastCleanup = 0\<rparr>"


section \<open>Waiting helps\<close>

text \<open>
  C35: A refused caller that is not locked out and comes back at the announced time is let in.
\<close>

theorem refused_request_is_allowed_at_reset:
  assumes "checkRateLimit k c now m = (r, m1)" "\<not> rr_allowed r" "\<not> rr_locked r"
    "rr_resetAt r \<le> later" "0 < rl_maxRequests c" "length (re_timestamps (entry_of k m)) \<le> rl_maxRequests c"
  shows "rr_allowed (fst (checkRateLimit k c later m1)) \<or> lock_holds (re_lockedUntil (entry_of k m1)) later"
proof -
  let ?e = "entry_of k (lazyCleanup now m)"
  let ?ts = "filter (\<lambda>s. now - rl_windowMs c < s) (re_timestamps ?e)"
  have r: "r = fst (check_entry c now ?e)" "m1 = put_entry k (Some (snd (check_entry c now ?e))) (lazyCleanup now m)"
    using assms(1) by (simp_all add: checkRateLimit_def Let_def split_beta)
  have free: "\<not> lock_holds (re_lockedUntil ?e) now" using assms(3) unfolding r by (auto simp: check_entry_def)
  have full: "rl_maxRequests c \<le> length ?ts" using assms(2) free unfolding r
    by (auto simp: check_entry_def Let_def split: if_splits)
  have e1: "entry_of k m1 = ?e\<lparr>re_timestamps := ?ts\<rparr>" and reset: "rr_resetAt r = first_or_zero ?ts + rl_windowMs c"
    unfolding r using free full by (simp_all add: check_entry_def Let_def entry_of_def put_entry_def)
  obtain s ss where ts: "?ts = s # ss" using full assms(5) by (cases ?ts) auto
  have "length ?ts \<le> rl_maxRequests c" using assms(6) stamps_cleanup [of k now m] by (metis length_filter_le le_trans)
  then have "length ss < rl_maxRequests c" using ts by simp
  moreover have "\<not> later - rl_windowMs c < s" using reset assms(4) ts by (simp add: first_or_zero_def)
  ultimately have "length (filter (\<lambda>x. later - rl_windowMs c < x) ?ts) < rl_maxRequests c"
    unfolding ts by (auto intro: le_less_trans [OF length_filter_le])
  moreover have "stamps k (lazyCleanup later m1) = ?ts" using e1 by simp
  moreover have "lock_holds (re_lockedUntil (entry_of k (lazyCleanup later m1))) later \<Longrightarrow> lock_holds (re_lockedUntil (entry_of k m1)) later"
    by (auto simp: lazyCleanup_def entry_of_def lock_holds_def split: option.splits if_splits)
  ultimately show ?thesis
    by (auto simp: checkRateLimit_def Let_def split_beta check_entry_def Let_def)
qed

theorem refused_request_is_allowed_at_reset_witness:
  "(let c = RateLimitPresets PASSWORD_RESET_ACCOUNT_DEDUP;
        m0 = snd (checkRateLimit ''k'' c 5 fresh_memory); m1 = snd (checkRateLimit ''k'' c 9 m0)
    in \<not> rr_allowed (fst (checkRateLimit ''k'' c 9 m0)) \<and> rr_allowed (fst (checkRateLimit ''k'' c 300005 m1)))"
proof -
  let ?c = "RateLimitPresets PASSWORD_RESET_ACCOUNT_DEDUP"
  let ?m0 = "snd (checkRateLimit ''k'' ?c 5 fresh_memory)"
  let ?run = "checkRateLimit ''k'' ?c 9 ?m0"
  have no: "\<not> rr_allowed (fst ?run)" "\<not> rr_locked (fst ?run)" by code_simp+
  have "rr_allowed (fst (checkRateLimit ''k'' ?c 300005 (snd ?run))) \<or> lock_holds (re_lockedUntil (entry_of ''k'' (snd ?run))) 300005"
  proof (rule refused_request_is_allowed_at_reset [of "''k''" ?c 9 ?m0 "fst ?run"])
    show "?run = (fst ?run, snd ?run)" by simp
    show "\<not> rr_allowed (fst ?run)" "\<not> rr_locked (fst ?run)" by (rule no)+
    show "rr_resetAt (fst ?run) \<le> 300005" by code_simp
    show "0 < rl_maxRequests ?c" by simp
    show "length (re_timestamps (entry_of ''k'' ?m0)) \<le> rl_maxRequests ?c" by code_simp
  qed
  moreover have "\<not> lock_holds (re_lockedUntil (entry_of ''k'' (snd ?run))) 300005" by code_simp
  ultimately show ?thesis using no(1) by (simp only: Let_def simp_thms)
qed

section \<open>The shared counter\<close>

text \<open>How many calls with a healthy store are allowed under one key.\<close>

definition healthy :: kv_health where
  "healthy = \<lparr>kv_up = True, kv_reads = True, kv_writes = True\<rparr>"

fun allowed_under :: "(string \<Rightarrow> string) \<Rightarrow> string \<Rightarrow> (string \<times> rate_config \<times> int) list \<Rightarrow> rate_state \<Rightarrow> nat" where
  "allowed_under sha key [] st = 0"
| "allowed_under sha key ((k, c, now) # qs) st =
     (case checkRateLimitDistributed sha healthy k c now st of (r, st1) \<Rightarrow>
        (if rr_allowed r \<and> rate_key sha k c now = key then 1 else 0) + allowed_under sha key qs st1)"

definition kv_count :: "rate_state \<Rightarrow> string \<Rightarrow> nat" where
  "kv_count st key = (case or_null (rs_kv st key) of None \<Rightarrow> 0 | Some raw \<Rightarrow> undec raw)"

lemma dec_nonempty [simp]: "dec n \<noteq> []"
  by (subst dec.simps) simp

lemma healthy_call:
  "checkRateLimitDistributed sha healthy k c now st =
     (let key = rate_key sha k c now in
      if rl_maxRequests c \<le> kv_count st key
      then (\<lparr>rr_allowed = False, rr_remaining = 0, rr_resetAt = window_start c now + rl_windowMs c,
             rr_retryAfterSeconds = Some (up_seconds (window_start c now + rl_windowMs c - now)), rr_locked = False\<rparr>, st)
      else (\<lparr>rr_allowed = True, rr_remaining = rl_maxRequests c - (kv_count st key + 1),
             rr_resetAt = window_start c now + rl_windowMs c, rr_retryAfterSeconds = None, rr_locked = False\<rparr>,
            st\<lparr>rs_kv := (rs_kv st)(key := Some (dec (kv_count st key + 1)))\<rparr>))"
  by (simp add: checkRateLimitDistributed_def healthy_def kv_count_def Let_def)

lemma kv_count_put [simp]:
  "kv_count (st\<lparr>rs_kv := (rs_kv st)(key := Some (dec n))\<rparr>) key' = (if key' = key then n else kv_count st key')"
proof -
  have "or_null (Some (dec n)) = Some (dec n)" by (cases "dec n") simp_all
  then show ?thesis by (simp add: kv_count_def undec_dec del: undec.simps)
qed

text \<open>
  While the store answers and calls do not overlap, at most the configured number of requests is
  allowed under one key, that is in one window of one identifier.
\<close>

theorem shared_window_limit:
  assumes "\<forall>(k, c, now) \<in> set qs. rate_key sha k c now = key \<longrightarrow> rl_maxRequests c = n"
  shows "allowed_under sha key qs st + min n (kv_count st key) \<le> n"
  using assms
proof (induction qs arbitrary: st)
  case (Cons q qs)
  obtain k c now where q: "q = (k, c, now)" by (cases q)
  let ?key = "rate_key sha k c now"
  let ?st1 = "snd (checkRateLimitDistributed sha healthy k c now st)"
  have IH: "allowed_under sha key qs ?st1 + min n (kv_count ?st1 key) \<le> n" using Cons by simp
  show ?case
  proof (cases "rl_maxRequests c \<le> kv_count st ?key")
    case True
    then show ?thesis using IH q by (simp add: healthy_call Let_def)
  next
    case False
    then have "?st1 = st\<lparr>rs_kv := (rs_kv st)(?key := Some (dec (kv_count st ?key + 1)))\<rparr>" by (simp add: healthy_call Let_def)
    then have c1: "kv_count ?st1 key = (if key = ?key then kv_count st ?key + 1 else kv_count st key)" by (simp only: kv_count_put)
    have n: "?key = key \<Longrightarrow> rl_maxRequests c = n" using Cons.prems q by auto
    show ?thesis using IH c1 n False q by (auto simp: healthy_call Let_def split: if_splits)
  qed
qed simp

theorem shared_window_limit_witness:
  "(let c = RateLimitPresets PASSWORD_RESET_ACCOUNT_DEDUP; st = \<lparr>rs_kv = (\<lambda>_. None), rs_memory = fresh_memory\<rparr>; qs = replicate 3 (''k'', c, 61000)
    in allowed_under (\<lambda>s. s) ''rl:k:0'' qs st = 1 \<and> allowed_under (\<lambda>s. s) ''rl:k:0'' qs st + min 1 0 \<le> 1)"
proof -
  let ?c = "RateLimitPresets PASSWORD_RESET_ACCOUNT_DEDUP"
  let ?st = "\<lparr>rs_kv = (\<lambda>_. None), rs_memory = fresh_memory\<rparr> :: rate_state"
  let ?qs = "replicate 3 (''k'', ?c, 61000)"
  have "allowed_under (\<lambda>s. s) ''rl:k:0'' ?qs ?st = 1" by code_simp
  moreover have "allowed_under (\<lambda>s. s) ''rl:k:0'' ?qs ?st + min 1 (kv_count ?st ''rl:k:0'') \<le> 1"
    by (rule shared_window_limit) simp
  ultimately show ?thesis by (simp add: Let_def)
qed

end
