(* ===== verification/SignIn.thy ===== *)
theory SignIn
  imports TwoFactorFacts TotpFacts TrustedDevices Lockout RateLimit
begin

text \<open>
  Signing in with a password (\<open>lib/auth/authorize-credentials.ts\<close>). The function takes its services as a
  record of functions, and so does the model; the record the program passes is put together as in
  \<open>auth.ts\<close> from the modelled components. A locale states what the flow needs of the services; the
  flow's guarantees are proved there and read off for the real services.
\<close>

section \<open>The flow\<close>

record 's authorize_deps =
  ad_checkRateLimit :: "string \<Rightarrow> 's \<Rightarrow> bool option \<times> 's"
  ad_isLocked :: "string \<Rightarrow> 's \<Rightarrow> bool"
  ad_recordFailedAttempt :: "string \<Rightarrow> 's \<Rightarrow> bool \<times> 's"
  ad_resetFailedAttempts :: "string \<Rightarrow> 's \<Rightarrow> 's"
  ad_verifyPassword :: "string \<Rightarrow> string \<Rightarrow> bool"
  ad_findUserByEmail :: "string \<Rightarrow> 's \<Rightarrow> account_row option"
  ad_isTrustedDevice :: "user_id \<Rightarrow> string \<Rightarrow> 's \<Rightarrow> bool \<times> 's"
  ad_hasTotpEnabled :: "user_id \<Rightarrow> 's \<Rightarrow> bool"
  ad_verifyTotp :: "user_id \<Rightarrow> string \<Rightarrow> 's \<Rightarrow> (totp_error + bool) \<times> 's"
  ad_hasActiveCode :: "string \<Rightarrow> 's \<Rightarrow> bool"
  ad_issueCode :: "string \<Rightarrow> 's \<Rightarrow> (unit + string) \<times> 's"
  ad_sendCodeEmail :: "string \<Rightarrow> string \<Rightarrow> 's \<Rightarrow> bool \<times> 's"
  ad_verifyCode :: "string \<Rightarrow> string \<Rightarrow> 's \<Rightarrow> (verify_reason + unit) \<times> 's"

text \<open>A field of the form that is missing or no text is \<open>None\<close>.\<close>

record credentials =
  cr_email :: "string option"
  cr_password :: "string option"
  cr_twoFactorCode :: "string option"
  cr_trustedDeviceToken :: "string option"

record authorized_user =
  au_id :: user_id
  au_email :: "string option"
  au_name :: "string option"
  au_image :: "string option"

datatype signin_reason =
    RATE_LIMITED | ACCOUNT_LOCKED | TOTP_REQUIRED | TOTP_REFUSED totp_error
  | WINDOW_EXCEEDED | SEND_FAILED | CODE_REQUIRED | CODE_REFUSED verify_reason

text \<open>\<open>null\<close>, a \<open>TwoFactorSignin\<close>, any other exception, or the user.\<close>

datatype signin_result = Rejected | SigninError signin_reason | Crashed | SignedIn authorized_user

definition authorized :: "account_row \<Rightarrow> authorized_user" where
  "authorized u = \<lparr>au_id = ac_id u, au_email = ac_email u, au_name = ac_name u, au_image = ac_image u\<rparr>"

definition first_screen :: "'s authorize_deps \<Rightarrow> string \<Rightarrow> 's \<Rightarrow> signin_result \<times> 's" where
  "first_screen deps email s =
     (if ad_hasActiveCode deps email s then (SigninError CODE_REQUIRED, s)
      else
        (case ad_issueCode deps email s of
           (Inl _, s1) \<Rightarrow> (SigninError WINDOW_EXCEEDED, s1)
         | (Inr code, s1) \<Rightarrow>
             (if code = [] then (SigninError CODE_REQUIRED, s1)
              else
                (case ad_sendCodeEmail deps email code s1 of
                   (True, s2) \<Rightarrow> (SigninError CODE_REQUIRED, s2)
                 | (False, s2) \<Rightarrow> (SigninError SEND_FAILED, s2)))))"

definition second_factor :: "'s authorize_deps \<Rightarrow> string \<Rightarrow> account_row \<Rightarrow> string \<Rightarrow> 's \<Rightarrow> signin_result \<times> 's" where
  "second_factor deps email user submittedCode s =
     (if ad_hasTotpEnabled deps (ac_id user) s
      then
        (if submittedCode = [] then (SigninError TOTP_REQUIRED, s)
         else
           (case ad_verifyTotp deps (ac_id user) submittedCode s of
              (Inl ENCRYPTION_SECRET_MISSING, s1) \<Rightarrow> (Crashed, s1)
            | (Inl reason, s1) \<Rightarrow> (SigninError (TOTP_REFUSED reason), s1)
            | (Inr _, s1) \<Rightarrow> (SignedIn (authorized user), ad_resetFailedAttempts deps email s1)))
      else if submittedCode = [] then first_screen deps email s
      else
        (case ad_verifyCode deps email submittedCode s of
           (Inl reason, s1) \<Rightarrow> (SigninError (CODE_REFUSED reason), s1)
         | (Inr _, s1) \<Rightarrow> (SignedIn (authorized user), ad_resetFailedAttempts deps email s1)))"

text \<open>After the password: a remembered device, or the second factor.\<close>

definition after_password :: "'s authorize_deps \<Rightarrow> credentials \<Rightarrow> string \<Rightarrow> account_row \<Rightarrow> 's \<Rightarrow> signin_result \<times> 's" where
  "after_password deps cr email user s =
     (let submitted = (case cr_twoFactorCode cr of None \<Rightarrow> [] | Some c \<Rightarrow> js_trim c) in
      case or_null (cr_trustedDeviceToken cr) of
        None \<Rightarrow> second_factor deps email user submitted s
      | Some token \<Rightarrow>
          (case ad_isTrustedDevice deps (ac_id user) token s of
             (True, s1) \<Rightarrow> (SignedIn (authorized user), ad_resetFailedAttempts deps email s1)
           | (False, s1) \<Rightarrow> second_factor deps email user submitted s1))"

definition check_password :: "'s authorize_deps \<Rightarrow> credentials \<Rightarrow> string \<Rightarrow> string \<Rightarrow> 's \<Rightarrow> signin_result \<times> 's" where
  "check_password deps cr email password s =
     (if ad_isLocked deps email s then (SigninError ACCOUNT_LOCKED, s)
      else
        (case ad_findUserByEmail deps email s of
           None \<Rightarrow> (Rejected, snd (ad_recordFailedAttempt deps email s))
         | Some user \<Rightarrow>
             (case or_null (ac_passwordHash user) of
                None \<Rightarrow> (Rejected, snd (ad_recordFailedAttempt deps email s))
              | Some hash \<Rightarrow>
                  if \<not> ad_verifyPassword deps password hash
                  then (case ad_recordFailedAttempt deps email s of
                          (True, s1) \<Rightarrow> (SigninError ACCOUNT_LOCKED, s1) | (False, s1) \<Rightarrow> (Rejected, s1))
                  else after_password deps cr email user s)))"

text \<open>A limiter that throws lets the request through.\<close>

definition authorizeCredentials :: "'s authorize_deps \<Rightarrow> credentials \<Rightarrow> 's \<Rightarrow> signin_result \<times> 's" where
  "authorizeCredentials deps cr s =
     (case (or_null (cr_email cr), or_null (cr_password cr)) of
        (Some rawEmail, Some password) \<Rightarrow>
          let email = js_trim (js_lower rawEmail) in
          (case ad_checkRateLimit deps (''authorize:'' @ email) s of
             (Some False, s1) \<Rightarrow> (SigninError RATE_LIMITED, s1)
           | (_, s1) \<Rightarrow> check_password deps cr email password s1)
      | _ \<Rightarrow> (Rejected, s))"

section \<open>What the flow needs of its services\<close>

text \<open>
  \<open>factors\<close> is the part of the state that the checks read, \<open>accounts\<close> and \<open>mails\<close> the user rows and the
  mails sent. A check that says yes has evidence; services leave alone what is not theirs.
\<close>

locale sign_in_services =
  fixes deps :: "'s authorize_deps"
    and factors :: "'s \<Rightarrow> 'v" and accounts :: "'s \<Rightarrow> account_table" and mails :: "'s \<Rightarrow> 'm"
    and locked_out :: "string \<Rightarrow> account_table \<Rightarrow> bool"
    and device_ok :: "user_id \<Rightarrow> string \<Rightarrow> 'v \<Rightarrow> bool" and app_on :: "user_id \<Rightarrow> 'v \<Rightarrow> bool"
    and app_ok :: "user_id \<Rightarrow> string \<Rightarrow> 'v \<Rightarrow> bool" and code_ok :: "string \<Rightarrow> string \<Rightarrow> 'v \<Rightarrow> bool"
  assumes rate_frame: "factors (snd (ad_checkRateLimit deps k s)) = factors s"
      "accounts (snd (ad_checkRateLimit deps k s)) = accounts s" "mails (snd (ad_checkRateLimit deps k s)) = mails s"
    and locked_law: "ad_isLocked deps email s \<longleftrightarrow> locked_out email (accounts s)"
    and user_law: "ad_findUserByEmail deps email s = find_first (\<lambda>u. ac_email u = Some email) (accounts s)"
    and failure_frame: "mails (snd (ad_recordFailedAttempt deps email s)) = mails s"
    and reset_frame: "mails (ad_resetFailedAttempts deps email s) = mails s"
    and reset_law: "accounts (ad_resetFailedAttempts deps email s) = resetFailedAttempts email (accounts s)"
    and device_law: "fst (ad_isTrustedDevice deps u t s) \<Longrightarrow> device_ok u t (factors s)"
    and device_frame: "\<not> fst (ad_isTrustedDevice deps u t s) \<Longrightarrow> snd (ad_isTrustedDevice deps u t s) = s"
      "accounts (snd (ad_isTrustedDevice deps u t s)) = accounts s" "mails (snd (ad_isTrustedDevice deps u t s)) = mails s"
    and app_law: "ad_hasTotpEnabled deps u s \<longleftrightarrow> app_on u (factors s)"
    and app_token_law: "fst (ad_verifyTotp deps u t s) = Inr b \<Longrightarrow> app_ok u t (factors s)"
    and app_frame: "accounts (snd (ad_verifyTotp deps u t s)) = accounts s" "mails (snd (ad_verifyTotp deps u t s)) = mails s"
    and code_law: "fst (ad_verifyCode deps email c s) = Inr () \<Longrightarrow> code_ok email c (factors s)"
    and code_frame: "accounts (snd (ad_verifyCode deps email c s)) = accounts s" "mails (snd (ad_verifyCode deps email c s)) = mails s"
    and issue_frame: "accounts (snd (ad_issueCode deps email s)) = accounts s" "mails (snd (ad_issueCode deps email s)) = mails s"
    and send_frame: "accounts (snd (ad_sendCodeEmail deps email c s)) = accounts s"
begin

text \<open>The password of an account that exists and is not locked has been verified.\<close>

definition password_verified :: "string \<Rightarrow> string \<Rightarrow> account_row \<Rightarrow> account_table \<Rightarrow> bool" where
  "password_verified email password u t \<longleftrightarrow>
     \<not> locked_out email t \<and> find_first (\<lambda>u. ac_email u = Some email) t = Some u \<and>
     (\<exists>hash. ac_passwordHash u = Some hash \<and> ad_verifyPassword deps password hash)"

definition factor_verified :: "credentials \<Rightarrow> string \<Rightarrow> user_id \<Rightarrow> 'v \<Rightarrow> bool" where
  "factor_verified cr email u v \<longleftrightarrow>
     (\<exists>t. cr_trustedDeviceToken cr = Some t \<and> device_ok u t v) \<or>
     (\<exists>c. cr_twoFactorCode cr = Some c \<and> js_trim c \<noteq> [] \<and>
        (if app_on u v then app_ok u (js_trim c) v else code_ok email (js_trim c) v))"

lemma first_screen_never_signs_in: "fst (first_screen deps email s) \<noteq> SignedIn a"
  by (auto simp: first_screen_def split: prod.split sum.split bool.split)

lemma second_factor_signs_in:
  assumes "fst (second_factor deps email user c s) = SignedIn a"
  shows "a = authorized user \<and> c \<noteq> [] \<and>
    (if app_on (ac_id user) (factors s) then app_ok (ac_id user) c (factors s) else code_ok email c (factors s))"
proof (cases "ad_hasTotpEnabled deps (ac_id user) s")
  case True
  then show ?thesis
    using assms app_law app_token_law [of "ac_id user" c s]
    by (auto simp: second_factor_def split: if_splits prod.splits sum.splits totp_error.splits)
next
  case False
  then show ?thesis
    using assms app_law code_law [of email c s] first_screen_never_signs_in [of email s a]
    by (auto simp: second_factor_def split: if_splits prod.splits sum.splits)
qed

lemma after_password_signs_in:
  assumes "fst (after_password deps cr email user s) = SignedIn a"
  shows "a = authorized user \<and> factor_verified cr email (ac_id user) (factors s)"
proof -
  let ?c = "case cr_twoFactorCode cr of None \<Rightarrow> [] | Some c \<Rightarrow> js_trim c"
  have second: "a = authorized user \<and> factor_verified cr email (ac_id user) (factors s)"
    if "fst (second_factor deps email user ?c s) = SignedIn a"
    using second_factor_signs_in [OF that] by (auto simp: factor_verified_def split: option.splits if_splits)
  show ?thesis
  proof (cases "or_null (cr_trustedDeviceToken cr)")
    case None
    then show ?thesis using assms second by (simp add: after_password_def)
  next
    case (Some t)
    show ?thesis
    proof (cases "fst (ad_isTrustedDevice deps (ac_id user) t s)")
      case True
      then have "a = authorized user" using assms Some by (auto simp: after_password_def split: prod.splits)
      then show ?thesis using device_law [OF True] Some by (auto simp: factor_verified_def or_null_Some)
    next
      case False
      then have "after_password deps cr email user s = second_factor deps email user ?c s"
        using Some device_frame(1) [OF False] by (auto simp: after_password_def Let_def split: prod.split)
      then show ?thesis using assms second by simp
    qed
  qed
qed

lemma check_password_signs_in:
  assumes "fst (check_password deps cr email password s) = SignedIn a"
  shows "\<exists>u. password_verified email password u (accounts s) \<and> a = authorized u \<and>
    factor_verified cr email (ac_id u) (factors s)"
proof -
  have "\<not> locked_out email (accounts s)" using assms locked_law by (auto simp: check_password_def)
  moreover obtain u where u: "ad_findUserByEmail deps email s = Some u"
    using assms by (auto simp: check_password_def split: if_splits option.splits)
  moreover obtain hash where h: "or_null (ac_passwordHash u) = Some hash"
    using assms u by (auto simp: check_password_def split: if_splits option.splits)
  moreover have v: "ad_verifyPassword deps password hash"
    using assms u h by (auto simp: check_password_def split: if_splits prod.splits bool.splits)
  moreover have "fst (after_password deps cr email u s) = SignedIn a"
    using assms u h v by (auto simp: check_password_def split: if_splits)
  ultimately show ?thesis
    using after_password_signs_in user_law by (auto simp: password_verified_def or_null_Some)
qed

lemma signs_in_with_two_factors:
  assumes "fst (authorizeCredentials deps cr s) = SignedIn a"
  shows "\<exists>raw password u. cr_email cr = Some raw \<and> cr_password cr = Some password \<and>
    password_verified (js_trim (js_lower raw)) password u (accounts s) \<and> a = authorized u \<and>
    factor_verified cr (js_trim (js_lower raw)) (ac_id u) (factors s)"
proof -
  obtain raw password where cr: "or_null (cr_email cr) = Some raw" "or_null (cr_password cr) = Some password"
    using assms by (auto simp: authorizeCredentials_def split: option.splits)
  let ?email = "js_trim (js_lower raw)"
  let ?s1 = "snd (ad_checkRateLimit deps (''authorize:'' @ ?email) s)"
  have "fst (check_password deps cr ?email password ?s1) = SignedIn a"
    using assms cr by (auto simp: authorizeCredentials_def Let_def split: prod.splits option.splits bool.splits)
  from check_password_signs_in [OF this] show ?thesis
    using cr rate_frame by (auto simp: or_null_Some)
qed

text \<open>Mails leave only after the password and only to accounts without an app.\<close>

lemma second_factor_mails:
  "mails (snd (second_factor deps email user c s)) = mails s \<or> (\<not> app_on (ac_id user) (factors s) \<and> c = [])"
  using app_law app_frame code_frame reset_frame
  by (auto simp: second_factor_def split: prod.split sum.split totp_error.split) (metis snd_conv)+

lemma after_password_mails:
  assumes "mails (snd (after_password deps cr email user s)) \<noteq> mails s"
  shows "\<not> app_on (ac_id user) (factors s)"
proof (cases "or_null (cr_trustedDeviceToken cr)")
  case None
  then show ?thesis using assms second_factor_mails by (auto simp: after_password_def Let_def)
next
  case (Some t)
  let ?d = "ad_isTrustedDevice deps (ac_id user) t s"
  show ?thesis
  proof (cases "fst ?d")
    case True
    then have "snd (after_password deps cr email user s) = ad_resetFailedAttempts deps email (snd ?d)"
      using Some by (auto simp: after_password_def split: prod.split)
    then show ?thesis using assms device_frame(3) reset_frame by simp
  next
    case False
    then have "snd ?d = s" by (rule device_frame(1))
    then have "after_password deps cr email user s =
        second_factor deps email user (case cr_twoFactorCode cr of None \<Rightarrow> [] | Some c \<Rightarrow> js_trim c) s"
      using Some False by (auto simp: after_password_def Let_def split: prod.split)
    then show ?thesis using assms second_factor_mails by auto
  qed
qed

lemma check_password_verified:
  assumes "snd (check_password deps cr email password s) \<noteq> s"
    "snd (check_password deps cr email password s) \<noteq> snd (ad_recordFailedAttempt deps email s)"
  shows "\<exists>u. password_verified email password u (accounts s) \<and>
    check_password deps cr email password s = after_password deps cr email u s"
proof -
  have free: "\<not> ad_isLocked deps email s" using assms(1) by (auto simp: check_password_def)
  obtain u where u: "ad_findUserByEmail deps email s = Some u"
    using assms free by (auto simp: check_password_def split: option.splits)
  obtain hash where h: "or_null (ac_passwordHash u) = Some hash"
    using assms free u by (auto simp: check_password_def split: option.splits)
  have v: "ad_verifyPassword deps password hash"
  proof (rule ccontr)
    assume "\<not> ad_verifyPassword deps password hash"
    then have "snd (check_password deps cr email password s) = snd (ad_recordFailedAttempt deps email s)"
      using free u h by (auto simp: check_password_def split: prod.split bool.split)
    then show False using assms(2) by simp
  qed
  have "check_password deps cr email password s = after_password deps cr email u s"
    using free u h v by (simp add: check_password_def)
  moreover have "password_verified email password u (accounts s)"
    using free u h v locked_law user_law by (auto simp: password_verified_def or_null_Some)
  ultimately show ?thesis by blast
qed

lemma mails_only_after_password:
  assumes "mails (snd (authorizeCredentials deps cr s)) \<noteq> mails s"
  shows "\<exists>raw password u. cr_email cr = Some raw \<and> cr_password cr = Some password \<and>
    password_verified (js_trim (js_lower raw)) password u (accounts s) \<and> \<not> app_on (ac_id u) (factors s)"
proof -
  obtain raw password where cr: "or_null (cr_email cr) = Some raw" "or_null (cr_password cr) = Some password"
    using assms by (auto simp: authorizeCredentials_def split: option.splits)
  let ?email = "js_trim (js_lower raw)"
  let ?s1 = "snd (ad_checkRateLimit deps (''authorize:'' @ ?email) s)"
  have "snd (authorizeCredentials deps cr s) = (case fst (ad_checkRateLimit deps (''authorize:'' @ ?email) s) of
      Some False \<Rightarrow> ?s1 | _ \<Rightarrow> snd (check_password deps cr ?email password ?s1))"
    using cr by (simp add: authorizeCredentials_def Let_def split: prod.split option.split bool.split)
  then have "mails (snd (check_password deps cr ?email password ?s1)) \<noteq> mails ?s1"
    using assms rate_frame(3) by (simp split: option.splits bool.splits)
  moreover from this have "snd (check_password deps cr ?email password ?s1) \<noteq> ?s1"
    "snd (check_password deps cr ?email password ?s1) \<noteq> snd (ad_recordFailedAttempt deps ?email ?s1)"
    using failure_frame by auto
  from check_password_verified [OF this] obtain u where
    "password_verified ?email password u (accounts ?s1)"
    "check_password deps cr ?email password ?s1 = after_password deps cr ?email u ?s1" by auto
  ultimately show ?thesis using after_password_mails [of cr ?email u ?s1] cr rate_frame by (auto simp: or_null_Some)
qed

text \<open>A wrong second factor does not count against the account.\<close>

lemma second_factor_accounts:
  "accounts (snd (second_factor deps email user c s)) \<in> {accounts s, resetFailedAttempts email (accounts s)}"
proof -
  have "accounts (snd (first_screen deps email s)) = accounts s"
    using issue_frame(1) send_frame by (auto simp: first_screen_def split: prod.split sum.split bool.split) (metis snd_conv)+
  then show ?thesis
    using app_frame(1) code_frame(1) reset_law
    by (auto simp: second_factor_def split: prod.split sum.split totp_error.split) (metis snd_conv)+
qed

lemma after_password_accounts:
  "accounts (snd (after_password deps cr email user s)) \<in> {accounts s, resetFailedAttempts email (accounts s)}"
proof (cases "or_null (cr_trustedDeviceToken cr)")
  case None
  then show ?thesis using second_factor_accounts by (simp add: after_password_def Let_def)
next
  case (Some t)
  let ?d = "ad_isTrustedDevice deps (ac_id user) t s"
  let ?c = "case cr_twoFactorCode cr of None \<Rightarrow> [] | Some c \<Rightarrow> js_trim c"
  have "snd (after_password deps cr email user s) =
      (if fst ?d then ad_resetFailedAttempts deps email (snd ?d) else snd (second_factor deps email user ?c (snd ?d)))"
    using Some by (auto simp: after_password_def Let_def split: prod.split bool.split)
  then show ?thesis
    using second_factor_accounts [of email user ?c "snd ?d"] device_frame(2) [of "ac_id user" t s] reset_law by auto
qed

end

section \<open>The services of the program\<close>

record signin_state =
  si_accounts :: account_table
  si_codes :: two_factor_table
  si_totp :: totp_store
  si_devices :: device_table
  si_rates :: rate_state
  si_mails :: "(string \<times> string) list"

text \<open>
  What one request takes from outside: the libraries, the health of the shared store and of the mail
  service, the clock, and the random values of a new code.
\<close>

record signin_env =
  se_totp :: totp_env
  se_bcrypt :: "string \<Rightarrow> string \<Rightarrow> bool"
  se_health :: kv_health
  se_mail_works :: bool
  se_now :: date
  se_id :: row_id
  se_random :: nat

abbreviation se_sha :: "signin_env \<Rightarrow> string \<Rightarrow> string" where
  "se_sha env \<equiv> te_sha (se_totp env)"

definition real_deps :: "signin_env \<Rightarrow> signin_state authorize_deps" where
  "real_deps env =
     \<lparr>ad_checkRateLimit = (\<lambda>key s. case checkRateLimitDistributed (se_sha env) (se_health env) key (RateLimitPresets LOGIN) (se_now env) (si_rates s) of
          (r, rs) \<Rightarrow> (Some (rr_allowed r), s\<lparr>si_rates := rs\<rparr>)),
      ad_isLocked = (\<lambda>email s. ls_locked (checkAccountLockout email (se_now env) (si_accounts s))),
      ad_recordFailedAttempt = (\<lambda>email s. case recordFailedAttempt email (se_now env) (si_accounts s) of
          (r, t) \<Rightarrow> (fa_nowLocked r, s\<lparr>si_accounts := t\<rparr>)),
      ad_resetFailedAttempts = (\<lambda>email s. s\<lparr>si_accounts := resetFailedAttempts email (si_accounts s)\<rparr>),
      ad_verifyPassword = se_bcrypt env,
      ad_findUserByEmail = (\<lambda>email s. find_first (\<lambda>u. ac_email u = Some email) (si_accounts s)),
      ad_isTrustedDevice = (\<lambda>u token s. case isTrustedDevice (se_sha env) u (Some token) (se_now env) (si_devices s) of
          (b, t) \<Rightarrow> (b, s\<lparr>si_devices := t\<rparr>)),
      ad_hasTotpEnabled = (\<lambda>u s. hasTotpEnabled u (si_totp s)),
      ad_verifyTotp = (\<lambda>u token s. case verifyTotpForLogin (se_totp env) u token (se_now env) (si_totp s) of
          (r, t) \<Rightarrow> (r, s\<lparr>si_totp := t\<rparr>)),
      ad_hasActiveCode = (\<lambda>email s. hasActiveCode email (se_now env) (si_codes s)),
      ad_issueCode = (\<lambda>email s. case issueCode (se_sha env) email (se_id env) (se_random env) (se_now env) (si_codes s) of
          (r, t) \<Rightarrow> (r, s\<lparr>si_codes := t\<rparr>)),
      ad_sendCodeEmail = (\<lambda>email code s. if se_mail_works env then (True, s\<lparr>si_mails := si_mails s @ [(email, code)]\<rparr>) else (False, s)),
      ad_verifyCode = (\<lambda>email code s. case verifyCode (se_sha env) email code (se_now env) (si_codes s) of
          (r, t) \<Rightarrow> (r, s\<lparr>si_codes := t\<rparr>))\<rparr>"

definition sign_in :: "signin_env \<Rightarrow> credentials \<Rightarrow> signin_state \<Rightarrow> signin_result \<times> signin_state" where
  "sign_in env = authorizeCredentials (real_deps env)"

definition live_device :: "signin_env \<Rightarrow> user_id \<Rightarrow> string \<Rightarrow> device_table \<Rightarrow> bool" where
  "live_device env u token t \<longleftrightarrow> (\<exists>r \<in> set t. trusted_row (se_sha env) u token (se_now env) r)"

definition live_token :: "signin_env \<Rightarrow> user_id \<Rightarrow> string \<Rightarrow> totp_store \<Rightarrow> bool" where
  "live_token env u token st \<longleftrightarrow>
     (\<exists>r \<in> set (recovery_t st). rc_userId r = u \<and> rc_usedAt r = None \<and>
        rc_codeHash r = hashRecoveryCode (se_totp env) (js_upper (js_trim token))) \<or>
     (\<exists>n. token_step (se_totp env) u (js_upper (js_trim token)) (se_now env) st = Inr n \<and>
        (\<exists>c \<in> set (credentials_t st). tc_userId c = u \<and> (case tc_lastUsedCounter c of None \<Rightarrow> True | Some m \<Rightarrow> m < n)))"

definition live_code :: "signin_env \<Rightarrow> string \<Rightarrow> string \<Rightarrow> two_factor_table \<Rightarrow> bool" where
  "live_code env email code t \<longleftrightarrow>
     (\<exists>r \<in> set t. tf_email r = mail_key email \<and> se_now env < tf_expires r \<and> tf_attempts r < MAX_ATTEMPTS \<and>
        tf_windowAttempts r < MAX_WINDOW_ATTEMPTS \<and> safeEqualHex (tf_codeHash r) (se_sha env code))"

lemma totp_accepts_live:
  assumes "fst (verifyTotpForLogin (se_totp env) u token (se_now env) st) = Inr b"
  shows "live_token env u token st"
proof -
  let ?t = "js_upper (js_trim token)"
  obtain claim where c: "login_check (se_totp env) u token (se_now env) st = Inr claim"
    and ok: "fst (login_commit u claim (se_now env) st) = Inr b"
    using assms by (auto simp: verifyTotpForLogin_def split: sum.splits)
  show ?thesis
  proof (cases claim)
    case (UseRecovery h)
    then have "h = hashRecoveryCode (se_totp env) ?t"
      using c by (auto simp: login_check_def Let_def split: if_splits sum.splits)
    moreover have "\<exists>r. find_first (\<lambda>r. rc_userId r = u \<and> rc_codeHash r = h \<and> rc_usedAt r = None) (recovery_t st) = Some r"
      using ok UseRecovery by (auto simp: login_commit_def Let_def split: if_splits)
    ultimately show ?thesis by (auto simp: live_token_def dest!: find_first_Some)
  next
    case (ClaimStep n)
    then have "token_step (se_totp env) u ?t (se_now env) st = Inr n"
      using c by (auto simp: login_check_def Let_def split: if_splits sum.splits)
    moreover have "\<exists>r. find_first (\<lambda>c. tc_userId c = u \<and> (case tc_lastUsedCounter c of None \<Rightarrow> True | Some m \<Rightarrow> m < n)) (credentials_t st) = Some r"
      using ok ClaimStep by (auto simp: login_commit_def Let_def split: if_splits)
    ultimately show ?thesis by (auto simp: live_token_def dest!: find_first_Some)
  qed
qed

lemma code_accepts_live:
  assumes "fst (verifyCode (se_sha env) email code (se_now env) t) = Inr ()"
  shows "live_code env email code t"
proof -
  obtain i where "verify_check (se_sha env) code (se_now env) (find_first (\<lambda>r. tf_email r = mail_key email) t) = Consume i"
    using assms by (auto simp: verifyCode_def verify_write_def Let_def split: verify_plan.splits if_splits)
  then show ?thesis
    by (auto simp: verify_check_def live_code_def not_le split: option.splits if_splits dest!: find_first_Some)
qed

lemma device_accepts_live:
  "fst (isTrustedDevice (se_sha env) u (Some token) (se_now env) t) \<Longrightarrow> live_device env u token t"
  by (auto simp: isTrustedDevice_def live_device_def or_null_Some split: option.splits if_splits dest: find_first_Some)

lemma device_no_change:
  "\<not> fst (isTrustedDevice sha u token now t) \<Longrightarrow> snd (isTrustedDevice sha u token now t) = t"
  by (auto simp: isTrustedDevice_def split: option.splits if_splits)

interpretation program: sign_in_services "real_deps env" "\<lambda>s. (si_codes s, si_totp s, si_devices s)" si_accounts si_mails
    "\<lambda>email t. ls_locked (checkAccountLockout email (se_now env) t)"
    "\<lambda>u t v. live_device env u t (snd (snd v))" "\<lambda>u v. hasTotpEnabled u (fst (snd v))"
    "\<lambda>u t v. live_token env u t (fst (snd v))" "\<lambda>e c v. live_code env e c (fst v)" for env
  by unfold_locales
    (auto simp: real_deps_def split_beta device_no_change dest: totp_accepts_live code_accepts_live device_accepts_live)

section \<open>Guarantees\<close>

text \<open>
  C6: A session is given only for two factors: the account is not locked, the password is the stored
  one, and the request carries a remembered device of this very user, or a fresh app token or unused
  recovery code when the app is enabled, or the mailed code when it is not.
\<close>

theorem sign_in_needs_two_factors:
  assumes "sign_in env cr st = (SignedIn a, st')"
  shows "\<exists>raw password u hash. cr_email cr = Some raw \<and> cr_password cr = Some password \<and> u \<in> set (si_accounts st) \<and>
    ac_email u = Some (js_trim (js_lower raw)) \<and> a = authorized u \<and>
    \<not> ls_locked (checkAccountLockout (js_trim (js_lower raw)) (se_now env) (si_accounts st)) \<and>
    ac_passwordHash u = Some hash \<and> se_bcrypt env password hash \<and>
    ((\<exists>t. cr_trustedDeviceToken cr = Some t \<and> live_device env (ac_id u) t (si_devices st)) \<or>
     (\<exists>c. cr_twoFactorCode cr = Some c \<and> js_trim c \<noteq> [] \<and>
        (if hasTotpEnabled (ac_id u) (si_totp st) then live_token env (ac_id u) (js_trim c) (si_totp st)
         else live_code env (js_trim (js_lower raw)) (js_trim c) (si_codes st))))"
proof -
  have "fst (authorizeCredentials (real_deps env) cr st) = SignedIn a" using assms by (simp add: sign_in_def)
  from program.signs_in_with_two_factors [OF this] obtain raw password u where
    cr: "cr_email cr = Some raw" "cr_password cr = Some password" "a = authorized u"
    and pw: "program.password_verified env (js_trim (js_lower raw)) password u (si_accounts st)"
    and fac: "program.factor_verified env cr (js_trim (js_lower raw)) (ac_id u) (si_codes st, si_totp st, si_devices st)"
    by auto
  have "se_bcrypt env = ad_verifyPassword (real_deps env)" by (simp add: real_deps_def)
  then obtain hash where "u \<in> set (si_accounts st)" "ac_email u = Some (js_trim (js_lower raw))"
    "\<not> ls_locked (checkAccountLockout (js_trim (js_lower raw)) (se_now env) (si_accounts st))"
    "ac_passwordHash u = Some hash" "se_bcrypt env password hash"
    using pw by (auto simp: program.password_verified_def dest: find_first_Some)
  moreover note fac [unfolded program.factor_verified_def fst_conv snd_conv]
  ultimately show ?thesis using cr by (intro exI [of _ raw] exI [of _ password] exI [of _ u] exI [of _ hash] conjI)
qed

definition sample_env :: signin_env where
  "sample_env = \<lparr>se_totp = open_totp, se_bcrypt = (\<lambda>p h. p = h), se_health = \<lparr>kv_up = False, kv_reads = False, kv_writes = False\<rparr>,
     se_mail_works = True, se_now = 0, se_id = ''1'', se_random = 7\<rparr>"

definition sample_signin :: signin_state where
  "sample_signin = \<lparr>si_accounts = [sample_account], si_codes = [], si_totp = \<lparr>credentials_t = [], recovery_t = []\<rparr>, si_devices = [],
     si_rates = \<lparr>rs_kv = (\<lambda>_. None), rs_memory = fresh_memory\<rparr>, si_mails = []\<rparr>"

definition form :: "string \<Rightarrow> string option \<Rightarrow> credentials" where
  "form password code = \<lparr>cr_email = Some ''A@b'', cr_password = Some password, cr_twoFactorCode = code, cr_trustedDeviceToken = None\<rparr>"

theorem sign_in_needs_two_factors_witness:
  "(let st1 = snd (sign_in sample_env (form ''pw'' None) sample_signin) in
    fst (sign_in sample_env (form ''pw'' (Some '' 000007'')) st1) = SignedIn (authorized sample_account) \<and>
    (\<exists>u \<in> set (si_accounts st1). ac_passwordHash u = Some ''pw''))"
proof -
  let ?st1 = "snd (sign_in sample_env (form ''pw'' None) sample_signin)"
  let ?run = "sign_in sample_env (form ''pw'' (Some '' 000007'')) ?st1"
  have ok: "fst ?run = SignedIn (authorized sample_account)" by code_simp
  then have "?run = (SignedIn (authorized sample_account), snd ?run)" by (metis prod.collapse)
  from sign_in_needs_two_factors [OF this] have "\<exists>u \<in> set (si_accounts ?st1). ac_passwordHash u = Some ''pw''"
    by (auto simp: form_def sample_env_def)
  then show ?thesis using ok by (simp only: Let_def simp_thms)
qed

text \<open>
  Nobody can make the program send mails to an account without its password, and accounts with an
  enabled app are never sent codes.
\<close>

theorem codes_are_mailed_after_the_password:
  assumes "si_mails (snd (sign_in env cr st)) \<noteq> si_mails st"
  shows "\<exists>raw password u hash. cr_email cr = Some raw \<and> cr_password cr = Some password \<and> u \<in> set (si_accounts st) \<and>
    ac_email u = Some (js_trim (js_lower raw)) \<and> ac_passwordHash u = Some hash \<and> se_bcrypt env password hash \<and>
    \<not> hasTotpEnabled (ac_id u) (si_totp st)"
proof -
  have "si_mails (snd (authorizeCredentials (real_deps env) cr st)) \<noteq> si_mails st" using assms by (simp add: sign_in_def)
  from program.mails_only_after_password [OF this] obtain raw password u where
    cr: "cr_email cr = Some raw" "cr_password cr = Some password" "\<not> hasTotpEnabled (ac_id u) (si_totp st)"
    and pw: "program.password_verified env (js_trim (js_lower raw)) password u (si_accounts st)"
    by auto
  have "se_bcrypt env = ad_verifyPassword (real_deps env)" by (simp add: real_deps_def)
  then obtain hash where "u \<in> set (si_accounts st)" "ac_email u = Some (js_trim (js_lower raw))"
    "ac_passwordHash u = Some hash" "se_bcrypt env password hash"
    using pw by (auto simp: program.password_verified_def dest: find_first_Some)
  then show ?thesis using cr by (intro exI [of _ raw] exI [of _ password] exI [of _ u] exI [of _ hash] conjI)
qed

theorem codes_are_mailed_after_the_password_witness:
  "si_mails (snd (sign_in sample_env (form ''pw'' None) sample_signin)) = [(''a@b'', ''000007'')] \<and>
   si_mails (snd (sign_in sample_env (form ''no'' None) sample_signin)) = [] \<and>
   (\<exists>u \<in> set (si_accounts sample_signin). ac_passwordHash u = Some ''pw'' \<and> \<not> hasTotpEnabled (ac_id u) (si_totp sample_signin))"
proof -
  have m: "si_mails (snd (sign_in sample_env (form ''pw'' None) sample_signin)) = [(''a@b'', ''000007'')]" by code_simp
  then have "si_mails (snd (sign_in sample_env (form ''pw'' None) sample_signin)) \<noteq> si_mails sample_signin"
    by (simp add: sample_signin_def)
  from codes_are_mailed_after_the_password [OF this]
  have "\<exists>u \<in> set (si_accounts sample_signin). ac_passwordHash u = Some ''pw'' \<and> \<not> hasTotpEnabled (ac_id u) (si_totp sample_signin)"
    by (auto simp: form_def sample_env_def)
  moreover have "si_mails (snd (sign_in sample_env (form ''no'' None) sample_signin)) = []" by code_simp
  ultimately show ?thesis using m by simp
qed

text \<open>
  Wrong second factors cannot lock an account: once the password has been accepted the counters of
  the account are left alone or reset.
\<close>

theorem wrong_code_never_counts_against_account:
  "si_accounts (snd (after_password (real_deps env) cr email u st)) = si_accounts st \<or>
   si_accounts (snd (after_password (real_deps env) cr email u st)) = resetFailedAttempts email (si_accounts st)"
  using program.after_password_accounts [of env cr email u st] by simp

end
