(* ===== verification/InternalSignature.thy ===== *)
theory InternalSignature
  imports Prelude
begin

text \<open>
  Calls between the services: signing and checking (\<open>lib/api-signing.ts\<close>), the refusal of replays
  (\<open>lib/internal-signature.ts\<close>), the table of used nonces (\<open>services/security/nonce-service.ts\<close>) and
  the batched deletion (\<open>lib/retention/batching.ts\<close>). HMAC and SHA-256 are parameters that return
  hexadecimal text; the clock, the random nonce and row ids are arguments. Times are milliseconds
  unless the name says otherwise.
\<close>

section \<open>Signing\<close>

record crypto =
  cy_hmac :: "string \<Rightarrow> string \<Rightarrow> string"
  cy_sha :: "string \<Rightarrow> string"

definition is_hex :: "char \<Rightarrow> bool" where
  "is_hex c \<longleftrightarrow> hex_value c \<noteq> None"

definition hmacVerify :: "crypto \<Rightarrow> string \<Rightarrow> string \<Rightarrow> string \<Rightarrow> bool" where
  "hmacVerify cy secret data hexSignature \<longleftrightarrow>
     hexSignature \<noteq> [] \<and> even (length hexSignature) \<and> list_all is_hex hexSignature \<and>
     hex_bytes hexSignature = hex_bytes (cy_hmac cy secret data)"

definition NL :: string where "NL = [char_of (10 :: nat)]"

fun join_lines :: "string list \<Rightarrow> string" where
  "join_lines [] = []"
| "join_lines [s] = s"
| "join_lines (s # t # ss) = s @ NL @ join_lines (t # ss)"

text \<open>\<open>Number.parseInt(s, 10)\<close>; \<open>None\<close> is NaN.\<close>

definition is_dec :: "char \<Rightarrow> bool" where
  "is_dec c \<longleftrightarrow> (let n = of_char c :: nat in 48 \<le> n \<and> n \<le> 57)"

definition parse_int :: "string \<Rightarrow> int option" where
  "parse_int s =
     (let s1 = dropWhile is_space s;
          neg = (take 1 s1 = ''-'');
          s2 = (if take 1 s1 = ''-'' \<or> take 1 s1 = ''+'' then drop 1 s1 else s1);
          ds = takeWhile is_dec s2
      in if ds = [] then None else Some (if neg then - int (undec ds) else int (undec ds)))"

record http_request =
  rq_method :: string
  rq_pathname :: string
  rq_headers :: "string \<Rightarrow> string option"

definition INTERNAL_TS_WINDOW_SEC :: int where "INTERNAL_TS_WINDOW_SEC = 300"

datatype signature_check =
    Verified int string
  | VerifiedLegacy
  | Refused string

definition canonical_v2 :: "crypto \<Rightarrow> string \<Rightarrow> string \<Rightarrow> int \<Rightarrow> string \<Rightarrow> string \<Rightarrow> string" where
  "canonical_v2 cy method path ts nonce body = join_lines [js_upper method, path, dec_int ts, nonce, cy_sha cy body]"

definition canonical_v1 :: "string \<Rightarrow> string \<Rightarrow> int \<Rightarrow> string" where
  "canonical_v1 method path ts = join_lines [js_upper method, path, dec_int ts]"

definition checkInternalSignature ::
  "crypto \<Rightarrow> http_request \<Rightarrow> string \<Rightarrow> string \<Rightarrow> bool \<Rightarrow> date \<Rightarrow> signature_check" where
  "checkInternalSignature cy req rawBody secret allowLegacy now =
     (let signature = (case rq_headers req ''X-Internal-Signature'' of None \<Rightarrow> rq_headers req ''X-Aster-Signature'' | s \<Rightarrow> s) in
      case (or_null (rq_headers req ''X-Aster-Timestamp''), or_null signature) of
        (Some timestamp, Some sig) \<Rightarrow>
          (case parse_int timestamp of
             None \<Rightarrow> Refused ''invalid_timestamp''
           | Some ts \<Rightarrow>
               if INTERNAL_TS_WINDOW_SEC < \<bar>now div 1000 - ts\<bar> then Refused ''stale_timestamp''
               else
                 let nonce = nullish (rq_headers req ''X-Aster-Nonce'') [] in
                 if nonce \<noteq> [] \<and> hmacVerify cy secret (canonical_v2 cy (rq_method req) (rq_pathname req) ts nonce rawBody) sig
                 then Verified ts nonce
                 else if allowLegacy \<and> hmacVerify cy secret (canonical_v1 (rq_method req) (rq_pathname req) ts) sig
                 then VerifiedLegacy
                 else Refused ''invalid_signature'')
      | _ \<Rightarrow> Refused ''missing_signature_headers'')"

text \<open>The headers for a call back to the cloud itself.\<close>

definition signInternalV2Headers ::
  "crypto \<Rightarrow> string \<Rightarrow> string \<Rightarrow> string \<Rightarrow> string \<Rightarrow> date \<Rightarrow> string \<Rightarrow> (string \<times> string) list" where
  "signInternalV2Headers cy method path body secret now nonce =
     (let ts = now div 1000 in
      [(''X-Aster-Timestamp'', dec_int ts), (''X-Aster-Nonce'', nonce),
       (''X-Internal-Signature'', cy_hmac cy secret (canonical_v2 cy method path ts nonce body))])"

section \<open>Nonces\<close>

record nonce_row =
  nn_id :: row_id
  nn_nonce :: string
  nn_expiresAt :: date

type_synonym nonce_table = "nonce_row table"

definition MAX_NONCE_LENGTH :: nat where "MAX_NONCE_LENGTH = 128"
definition NONCE_GC_BATCH_SIZE :: nat where "NONCE_GC_BATCH_SIZE = 5000"
definition NONCE_GC_MAX_BATCHES_PER_RUN :: nat where "NONCE_GC_MAX_BATCHES_PER_RUN = 100"
definition NONCE_RETENTION_MARGIN_SEC :: int where "NONCE_RETENTION_MARGIN_SEC = 60"

text \<open>The left side is an exception: a bad length, or a database error (\<open>dbOk\<close> false).\<close>

definition claimNonce :: "bool \<Rightarrow> row_id \<Rightarrow> string \<Rightarrow> date \<Rightarrow> nonce_table \<Rightarrow> (unit + bool) \<times> nonce_table" where
  "claimNonce dbOk newId nonce expiresAt t =
     (if js_length nonce = 0 \<or> MAX_NONCE_LENGTH < js_length nonce then (Inl (), t)
      else if \<not> dbOk then (Inl (), t)
      else if find_first (\<lambda>r. nn_nonce r = nonce) t \<noteq> None then (Inr False, t)
      else (Inr True, insert_row \<lparr>nn_id = newId, nn_nonce = nonce, nn_expiresAt = expiresAt\<rparr> t))"

definition nonceExpiresAt :: "int \<Rightarrow> date" where
  "nonceExpiresAt timestampSec = (timestampSec + INTERNAL_TS_WINDOW_SEC + NONCE_RETENTION_MARGIN_SEC) * 1000"

datatype internal_verdict = Accepted bool | Denied string

definition verifyInternalSignature ::
  "crypto \<Rightarrow> http_request \<Rightarrow> string \<Rightarrow> string \<Rightarrow> bool \<Rightarrow> bool \<Rightarrow> row_id \<Rightarrow> date \<Rightarrow> nonce_table \<Rightarrow> internal_verdict \<times> nonce_table" where
  "verifyInternalSignature cy req rawBody secret allowLegacy dbOk newId now t =
     (case checkInternalSignature cy req rawBody secret allowLegacy now of
        Refused reason \<Rightarrow> (Denied reason, t)
      | VerifiedLegacy \<Rightarrow> (Accepted True, t)
      | Verified ts nonce \<Rightarrow>
          (case claimNonce dbOk newId nonce (nonceExpiresAt ts) t of
             (Inl _, t1) \<Rightarrow> (Denied ''nonce_check_failed'', t1)
           | (Inr True, t1) \<Rightarrow> (Accepted False, t1)
           | (Inr False, t1) \<Rightarrow> (Denied ''replayed_nonce'', t1)))"

section \<open>Batched deletion\<close>

text \<open>\<open>affectedRows\<close>: a driver result without a numeric count is an error, never zero.\<close>

definition affectedRows :: "nat option \<Rightarrow> unit + nat" where
  "affectedRows c = (case c of None \<Rightarrow> Inl () | Some n \<Rightarrow> Inr n)"

text \<open>The loop of \<open>runInBatches\<close>: at most \<open>maxBatches\<close> rounds, ending with the first short one.\<close>

fun runInBatches :: "('s \<Rightarrow> nat \<times> 's) \<Rightarrow> nat \<Rightarrow> nat \<Rightarrow> nat \<Rightarrow> 's \<Rightarrow> (nat \<times> bool) \<times> 's" where
  "runInBatches runBatch batchSize 0 affected s = ((affected, False), s)"
| "runInBatches runBatch batchSize (Suc n) affected s =
     (case runBatch s of (k, s1) \<Rightarrow>
        if k < batchSize then ((affected + k, True), s1)
        else runInBatches runBatch batchSize n (affected + k) s1)"

text \<open>One statement: the first expired rows, up to the batch size, are deleted by id.\<close>

definition delete_expired_batch :: "date \<Rightarrow> nat \<Rightarrow> nonce_table \<Rightarrow> nat \<times> nonce_table" where
  "delete_expired_batch now batchSize t =
     (let doomed = map nn_id (take batchSize (select_where (\<lambda>r. nn_expiresAt r < now) t));
          hit = (\<lambda>r. nn_id r \<in> set doomed)
      in (count_where hit t, delete_where hit t))"

definition cleanupExpiredNonces :: "date \<Rightarrow> nat option \<Rightarrow> nat option \<Rightarrow> nonce_table \<Rightarrow> (nat \<times> bool) \<times> nonce_table" where
  "cleanupExpiredNonces now batchSize maxBatches t =
     (let b = nullish batchSize NONCE_GC_BATCH_SIZE in
      runInBatches (delete_expired_batch now b) b (nullish maxBatches NONCE_GC_MAX_BATCHES_PER_RUN) 0 t)"

definition getNonceStats :: "date \<Rightarrow> nonce_table \<Rightarrow> nat \<times> nat \<times> nat" where
  "getNonceStats now t =
     (let total = length t; expired = count_where (\<lambda>r. nn_expiresAt r < now) t in (total, expired, total - expired))"

section \<open>Clean-up is exact\<close>

lemma batch_rows:
  "set (snd (delete_expired_batch now b t)) \<subseteq> set t"
  by (auto simp: delete_expired_batch_def Let_def)

lemma batch_keeps_live:
  assumes "unique_key nn_id t" "r \<in> set t" "\<not> nn_expiresAt r < now"
  shows "r \<in> set (snd (delete_expired_batch now b t))"
proof -
  have "nn_id r \<notin> nn_id ` set (take b (select_where (\<lambda>r. nn_expiresAt r < now) t))"
  proof
    assume "nn_id r \<in> nn_id ` set (take b (select_where (\<lambda>r. nn_expiresAt r < now) t))"
    then obtain q where q: "q \<in> set (take b (select_where (\<lambda>r. nn_expiresAt r < now) t))" "nn_id r = nn_id q" by auto
    have "q \<in> set (select_where (\<lambda>r. nn_expiresAt r < now) t)" by (rule in_set_takeD [OF q(1)])
    then have "q \<in> set t" "nn_expiresAt q < now" by simp_all
    then show False using unique_key_eq [OF assms(1,2), of q] q(2) assms(3) by simp
  qed
  then show ?thesis using assms(2) by (simp add: delete_expired_batch_def Let_def)
qed

lemma count_where_ids:
  assumes "unique_key k t" "distinct ids" "set ids \<subseteq> k ` set t"
  shows "count_where (\<lambda>r. k r \<in> set ids) t = length ids"
proof -
  have "count_where (\<lambda>r. k r \<in> set ids) t = card (set (filter (\<lambda>i. i \<in> set ids) (map k t)))"
    using assms(1) by (subst distinct_card) (simp_all add: unique_key_def count_where_def filter_map o_def distinct_map_filter)
  also have "set (filter (\<lambda>i. i \<in> set ids) (map k t)) = set ids" using assms(3) by auto
  finally show ?thesis using assms(2) by (simp add: distinct_card)
qed

lemma batch_count:
  assumes "unique_key nn_id t"
  shows "fst (delete_expired_batch now b t) = min b (count_where (\<lambda>r. nn_expiresAt r < now) t)"
proof -
  let ?sel = "take b (select_where (\<lambda>r. nn_expiresAt r < now) t)"
  have "distinct (map nn_id (select_where (\<lambda>r. nn_expiresAt r < now) t))"
    using assms unfolding unique_key_def select_where_def by (rule distinct_map_filter)
  then have "distinct (map nn_id ?sel)" by (simp add: take_map [symmetric] distinct_take)
  moreover have "set (map nn_id ?sel) \<subseteq> nn_id ` set t" by (auto dest: in_set_takeD)
  ultimately have "fst (delete_expired_batch now b t) = length (map nn_id ?sel)"
    using count_where_ids [OF assms, of "map nn_id ?sel"] by (simp add: delete_expired_batch_def Let_def)
  then show ?thesis by (simp add: count_where_def select_where_def)
qed

lemma batch_short:
  assumes "unique_key nn_id t" "fst (delete_expired_batch now b t) < b" "r \<in> set (snd (delete_expired_batch now b t))"
  shows "\<not> nn_expiresAt r < now"
proof
  assume e: "nn_expiresAt r < now"
  have "count_where (\<lambda>r. nn_expiresAt r < now) t < b" using assms(2) batch_count [OF assms(1)] by simp
  then have "take b (select_where (\<lambda>r. nn_expiresAt r < now) t) = select_where (\<lambda>r. nn_expiresAt r < now) t"
    by (simp add: count_where_def select_where_def)
  then show False using assms(3) e by (auto simp: delete_expired_batch_def Let_def)
qed

lemma batches_run:
  assumes "unique_key nn_id t" "runInBatches (delete_expired_batch now b) b n a t = ((k, complete), t')"
  shows "k + length t' = a + length t \<and> set t' \<subseteq> set t \<and> (\<forall>r \<in> set t. \<not> nn_expiresAt r < now \<longrightarrow> r \<in> set t') \<and>
    (complete \<longrightarrow> (\<forall>r \<in> set t'. \<not> nn_expiresAt r < now))"
  using assms
proof (induction n arbitrary: a t)
  case (Suc n)
  let ?r = "delete_expired_batch now b t"
  have len: "fst ?r + length (snd ?r) = length t"
    by (simp add: delete_expired_batch_def Let_def count_where_def delete_where_def sum_length_filter_compl)
  have u: "unique_key nn_id (snd ?r)" using Suc.prems(1)
    by (simp add: delete_expired_batch_def Let_def unique_key_delete_where)
  show ?case
  proof (cases "fst ?r < b")
    case True
    then have "k = a + fst ?r" "t' = snd ?r" using Suc.prems(2) by (simp_all add: split_beta)
    then show ?thesis using len batch_rows batch_keeps_live [OF Suc.prems(1)] batch_short [OF Suc.prems(1) True] by auto
  next
    case False
    then have "runInBatches (delete_expired_batch now b) b n (a + fst ?r) (snd ?r) = ((k, complete), t')"
      using Suc.prems(2) by (simp add: split_beta)
    from Suc.IH [OF u this] show ?thesis
      using len batch_rows [of now b t] batch_keeps_live [OF Suc.prems(1)] by auto
  qed
qed auto

text \<open>
  The clean-up deletes expired nonces only, counts what it deletes, and says it is done only when no
  expired nonce is left.
\<close>

theorem nonce_cleanup_is_exact:
  assumes "unique_key nn_id t" "cleanupExpiredNonces now b n t = ((k, complete), t')"
  shows "k + length t' = length t \<and> set t' \<subseteq> set t \<and> (\<forall>r \<in> set t. \<not> nn_expiresAt r < now \<longrightarrow> r \<in> set t') \<and>
    (complete \<longrightarrow> (\<forall>r \<in> set t'. \<not> nn_expiresAt r < now))"
  using batches_run [OF assms(1) assms(2) [unfolded cleanupExpiredNonces_def Let_def]] by simp

definition nonce_rows :: nonce_table where
  "nonce_rows = map (\<lambda>i. \<lparr>nn_id = dec i, nn_nonce = dec i, nn_expiresAt = int i\<rparr>) [0..<5]"

theorem nonce_cleanup_is_exact_witness:
  "(let ((k, complete), t') = cleanupExpiredNonces 4 (Some 3) None nonce_rows
    in k = 4 \<and> complete \<and> (\<forall>r \<in> set t'. \<not> nn_expiresAt r < 4))"
proof -
  let ?run = "cleanupExpiredNonces 4 (Some 3) None nonce_rows"
  have u: "unique_key nn_id nonce_rows" by code_simp
  have v: "fst ?run = (4, True)" by code_simp
  then have "?run = ((4, True), snd ?run)" by (metis prod.collapse)
  from nonce_cleanup_is_exact [OF u this] show ?thesis using v by (simp add: split_beta)
qed

section \<open>A signed request is accepted\<close>

lemma is_dec_not_space: "is_dec c \<Longrightarrow> \<not> is_space c"
  by (auto simp: is_dec_def is_space_def Let_def)

lemma dec_is_dec: "list_all is_dec (dec n)"
  using dec_digits by (force simp: list_all_iff is_dec_def Let_def)

lemma parse_dec_int: "0 \<le> i \<Longrightarrow> parse_int (dec_int i) = Some i"
proof -
  assume i: "0 \<le> i"
  let ?d = "dec (nat i)"
  have all: "\<forall>c \<in> set ?d. is_dec c" using dec_is_dec by (simp add: list_all_iff)
  have ne: "?d \<noteq> []" by (subst dec.simps) simp
  then obtain c cs where d: "?d = c # cs" by (cases ?d) auto
  then have c: "is_dec c" using all by simp
  then have "dropWhile is_space ?d = ?d" using d is_dec_not_space by simp
  moreover have "take 1 ?d \<noteq> ''-''" "take 1 ?d \<noteq> ''+''" using d c by (auto simp: is_dec_def Let_def)
  moreover have tw: "takeWhile is_dec ?d = ?d" using all by (simp add: takeWhile_eq_all_conv)
  ultimately show ?thesis using i ne by (simp add: parse_int_def dec_int_def undec_dec tw Let_def del: undec.simps)
qed

text \<open>
  C40: What \<open>signInternalV2Headers\<close> signs, \<open>verifyInternalSignature\<close> accepts until five minutes later and
  refuses the second time.
\<close>

theorem signed_call_is_accepted_once:
  assumes "list_all is_hex (cy_hmac cy secret (canonical_v2 cy m p (now div 1000) nonce body))"
    "cy_hmac cy secret (canonical_v2 cy m p (now div 1000) nonce body) \<noteq> []"
    "even (length (cy_hmac cy secret (canonical_v2 cy m p (now div 1000) nonce body)))"
    "0 < js_length nonce" "js_length nonce \<le> MAX_NONCE_LENGTH" "0 \<le> now" "now \<le> later" "later \<le> now + 300000"
    "req = \<lparr>rq_method = m, rq_pathname = p, rq_headers = map_of (signInternalV2Headers cy m p body secret now nonce)\<rparr>"
    "find_first (\<lambda>r. nn_nonce r = nonce) t = None"
  shows "\<exists>t1. verifyInternalSignature cy req body secret legacy True i later t = (Accepted False, t1) \<and>
    verifyInternalSignature cy req body secret legacy True j later t1 = (Denied ''replayed_nonce'', t1)"
proof -
  let ?ts = "now div 1000"
  let ?sig = "cy_hmac cy secret (canonical_v2 cy m p ?ts nonce body)"
  have ne: "nonce \<noteq> []" using assms(4) by (auto simp: js_length_def)
  have h: "rq_headers req ''X-Aster-Timestamp'' = Some (dec_int ?ts)" "rq_headers req ''X-Aster-Nonce'' = Some nonce"
    "rq_headers req ''X-Internal-Signature'' = Some ?sig"
    unfolding assms(9) by (simp_all add: signInternalV2Headers_def Let_def)
  have "0 \<le> ?ts" using assms(6) by simp
  then have ts: "or_null (Some (dec_int ?ts)) = Some (dec_int ?ts)" "parse_int (dec_int ?ts) = Some ?ts"
    using parse_dec_int [of ?ts] by (auto simp: or_null_Some parse_int_def)
  have "later div 1000 \<le> ?ts + 300" using assms(8) by linarith
  moreover have "?ts \<le> later div 1000" using assms(7) by (rule zdiv_mono1) simp
  ultimately have fresh: "\<not> INTERNAL_TS_WINDOW_SEC < \<bar>later div 1000 - ?ts\<bar>" by (simp add: INTERNAL_TS_WINDOW_SEC_def)
  have ok: "hmacVerify cy secret (canonical_v2 cy m p ?ts nonce body) ?sig"
    using assms(1-3) by (simp add: hmacVerify_def)
  have sig: "or_null (Some ?sig) = Some ?sig" using assms(2) by (simp add: or_null_Some)
  have "rq_method req = m" "rq_pathname req = p" unfolding assms(9) by simp_all
  then have check: "checkInternalSignature cy req body secret legacy later = Verified ?ts nonce"
    using fresh ok ne by (simp add: checkInternalSignature_def h ts sig Let_def)
  have claim: "claimNonce True k nonce e s = (if find_first (\<lambda>r. nn_nonce r = nonce) s \<noteq> None then (Inr False, s)
      else (Inr True, insert_row \<lparr>nn_id = k, nn_nonce = nonce, nn_expiresAt = e\<rparr> s))" for k e s
    using assms(4,5) by (simp add: claimNonce_def)
  let ?t1 = "insert_row \<lparr>nn_id = i, nn_nonce = nonce, nn_expiresAt = nonceExpiresAt ?ts\<rparr> t"
  have "verifyInternalSignature cy req body secret legacy True i later t = (Accepted False, ?t1)"
    using assms(10) by (simp add: verifyInternalSignature_def check claim)
  moreover have "find_first (\<lambda>r. nn_nonce r = nonce) ?t1 \<noteq> None"
    using find_first_insert_new [OF assms(10)] by simp
  then have "verifyInternalSignature cy req body secret legacy True j later ?t1 = (Denied ''replayed_nonce'', ?t1)"
    by (simp add: verifyInternalSignature_def check claim)
  ultimately show ?thesis by blast
qed

definition toy_crypto :: crypto where
  "toy_crypto = \<lparr>cy_hmac = (\<lambda>k d. ''0a''), cy_sha = (\<lambda>s. s)\<rparr>"

theorem signed_call_is_accepted_once_witness:
  "\<exists>t1. verifyInternalSignature toy_crypto
      \<lparr>rq_method = ''post'', rq_pathname = ''/x'', rq_headers = map_of (signInternalV2Headers toy_crypto ''post'' ''/x'' ''{}'' ''k'' 5000 ''n'')\<rparr>
      ''{}'' ''k'' False True ''1'' 305000 [] = (Accepted False, t1)"
proof -
  have hex: "list_all is_hex (cy_hmac toy_crypto k d)" "cy_hmac toy_crypto k d \<noteq> []" "even (length (cy_hmac toy_crypto k d))" for k d
    by (simp_all add: toy_crypto_def is_hex_def)
  have "0 < js_length ''n''" "js_length ''n'' \<le> MAX_NONCE_LENGTH" by code_simp+
  from signed_call_is_accepted_once [OF hex this, of 5000 305000 _ "''post''" "''/x''" "''{}''" "''k''" "[]" False "''1''"]
  show ?thesis by fastforce
qed

section \<open>No replay\<close>

text \<open>
  A run of verifications and clean-ups, each with its own clock. The ledger lists the accepted
  (timestamp, nonce) pairs: a replayed request has both in common with the original.
\<close>

datatype internal_event =
    Arrive http_request string bool row_id date
  | CleanUp date "nat option" "nat option"

fun serve_event :: "crypto \<Rightarrow> string \<Rightarrow> internal_event \<Rightarrow> nonce_table \<Rightarrow> (int \<times> string) list \<times> nonce_table" where
  "serve_event cy secret (Arrive req body dbOk i now) t =
     (case verifyInternalSignature cy req body secret False dbOk i now t of
        (Accepted _, t1) \<Rightarrow> ((case checkInternalSignature cy req body secret False now of Verified ts n \<Rightarrow> [(ts, n)] | _ \<Rightarrow> []), t1)
      | (Denied _, t1) \<Rightarrow> ([], t1))"
| "serve_event cy secret (CleanUp now b n) t = ([], snd (cleanupExpiredNonces now b n t))"

fun accepted_ledger :: "crypto \<Rightarrow> string \<Rightarrow> internal_event list \<Rightarrow> nonce_table \<Rightarrow> (int \<times> string) list" where
  "accepted_ledger cy secret [] t = []"
| "accepted_ledger cy secret (e # es) t =
     (case serve_event cy secret e t of (l, t1) \<Rightarrow> l @ accepted_ledger cy secret es t1)"

text \<open>
  The clocks: a request that arrives after a clean-up has a clock at most \<open>skew\<close> milliseconds behind
  the clock of that clean-up; the argument is the latest clean-up so far.
\<close>

fun clocks_ok :: "int \<Rightarrow> date \<Rightarrow> internal_event list \<Rightarrow> bool" where
  "clocks_ok skew g [] \<longleftrightarrow> True"
| "clocks_ok skew g (Arrive _ _ _ _ now # es) \<longleftrightarrow> g - skew \<le> now \<and> clocks_ok skew g es"
| "clocks_ok skew g (CleanUp now _ _ # es) \<longleftrightarrow> clocks_ok skew (max g now) es"

text \<open>Ids of inserted rows are new (\<open>crypto.randomUUID\<close>).\<close>

fun fresh_ids :: "row_id set \<Rightarrow> internal_event list \<Rightarrow> bool" where
  "fresh_ids used [] \<longleftrightarrow> True"
| "fresh_ids used (Arrive _ _ _ i _ # es) \<longleftrightarrow> i \<notin> used \<and> fresh_ids (insert i used) es"
| "fresh_ids used (CleanUp _ _ _ # es) \<longleftrightarrow> fresh_ids used es"

text \<open>An accepted pair is still on record, or so old that its timestamp is refused.\<close>

definition remembered :: "date \<Rightarrow> nonce_table \<Rightarrow> (int \<times> string) set \<Rightarrow> bool" where
  "remembered g t L \<longleftrightarrow> (\<forall>(ts, n) \<in> L. (\<exists>r \<in> set t. nn_nonce r = n \<and> nn_expiresAt r = nonceExpiresAt ts) \<or> nonceExpiresAt ts < g)"

lemma verified_window:
  assumes "checkInternalSignature cy req body secret legacy now = Verified ts n"
  shows "\<bar>now div 1000 - ts\<bar> \<le> INTERNAL_TS_WINDOW_SEC"
  using assms by (auto simp: checkInternalSignature_def Let_def split: option.splits if_splits)

lemma arrive_cases:
  assumes "serve_event cy secret (Arrive req body dbOk i now) t = (l, t1)"
  shows "(l = [] \<and> t1 = t) \<or> (\<exists>ts n. l = [(ts, n)] \<and> \<bar>now div 1000 - ts\<bar> \<le> INTERNAL_TS_WINDOW_SEC \<and>
    find_first (\<lambda>r. nn_nonce r = n) t = None \<and>
    t1 = insert_row \<lparr>nn_id = i, nn_nonce = n, nn_expiresAt = nonceExpiresAt ts\<rparr> t)"
proof (cases "checkInternalSignature cy req body secret False now")
  case (Verified ts n)
  then show ?thesis
    using assms verified_window [OF Verified]
    by (auto simp: verifyInternalSignature_def claimNonce_def split: if_splits)
next
  case VerifiedLegacy
  then show ?thesis by (auto simp: checkInternalSignature_def Let_def split: option.splits if_splits)
next
  case (Refused r)
  then show ?thesis using assms by (auto simp: verifyInternalSignature_def)
qed

lemma cleanup_rows:
  assumes "unique_key nn_id t"
  shows "set (snd (cleanupExpiredNonces now b n t)) \<subseteq> set t"
    "r \<in> set t \<Longrightarrow> \<not> nn_expiresAt r < now \<Longrightarrow> r \<in> set (snd (cleanupExpiredNonces now b n t))"
proof -
  obtain k c t' where run: "cleanupExpiredNonces now b n t = ((k, c), t')" by (metis prod.collapse)
  note batches_run [OF assms run [unfolded cleanupExpiredNonces_def Let_def]]
  then show "set (snd (cleanupExpiredNonces now b n t)) \<subseteq> set t"
    "r \<in> set t \<Longrightarrow> \<not> nn_expiresAt r < now \<Longrightarrow> r \<in> set (snd (cleanupExpiredNonces now b n t))"
    using run by auto
qed

lemma cleanup_unique:
  "unique_key nn_id t \<Longrightarrow> unique_key nn_id (snd (runInBatches (delete_expired_batch now b) b n a t))"
proof (induction n arbitrary: a t)
  case (Suc n)
  have "unique_key nn_id (snd (delete_expired_batch now b t))" using Suc.prems
    by (simp add: delete_expired_batch_def Let_def unique_key_delete_where)
  then show ?case using Suc.IH by (simp add: split_beta)
qed simp

lemma ledger_distinct:
  assumes "clocks_ok skew g es" "fresh_ids used es" "skew \<le> 59000"
    "unique_key nn_id t" "nn_id ` set t \<subseteq> used" "remembered g t L"
  shows "distinct (accepted_ledger cy secret es t) \<and> set (accepted_ledger cy secret es t) \<inter> L = {}"
  using assms(1,2,4-6)
proof (induction es arbitrary: g used t L)
  case (Cons e es)
  obtain l t1 where step: "serve_event cy secret e t = (l, t1)" by fastforce
  show ?case
  proof (cases e)
    case (CleanUp now b n)
    then have t1: "t1 = snd (cleanupExpiredNonces now b n t)" "l = []" using step by simp_all
    note rows = cleanup_rows [OF Cons.prems(3), where now = now and b = b and n = n, folded t1(1)]
    have "unique_key nn_id t1"
      unfolding t1(1) cleanupExpiredNonces_def Let_def by (rule cleanup_unique [OF Cons.prems(3)])
    moreover have "remembered (max g now) t1 L"
      unfolding remembered_def
    proof (intro ballI, clarify)
      fix ts n assume "(ts, n) \<in> L" "\<not> nonceExpiresAt ts < max g now"
      then obtain r where "r \<in> set t" "nn_nonce r = n" "nn_expiresAt r = nonceExpiresAt ts" "\<not> nonceExpiresAt ts < now"
        using Cons.prems(5) unfolding remembered_def by fastforce
      then show "\<exists>r \<in> set t1. nn_nonce r = n \<and> nn_expiresAt r = nonceExpiresAt ts" using rows(2) by metis
    qed
    moreover have "nn_id ` set t1 \<subseteq> used" using rows(1) Cons.prems(4) by blast
    moreover have "clocks_ok skew (max g now) es" "fresh_ids used es" using Cons.prems(1,2) CleanUp by simp_all
    ultimately have "distinct (accepted_ledger cy secret es t1) \<and> set (accepted_ledger cy secret es t1) \<inter> L = {}"
      by (intro Cons.IH [of "max g now" used])
    then show ?thesis using step t1(2) by simp
  next
    case (Arrive req body dbOk i now)
    have clocks: "g - skew \<le> now" "clocks_ok skew g es" and ids: "i \<notin> used" "fresh_ids (insert i used) es"
      using Cons.prems(1,2) Arrive by simp_all
    from arrive_cases [OF step [unfolded Arrive]] show ?thesis
    proof (elim disjE exE conjE)
      assume l: "l = []" "t1 = t"
      have "distinct (accepted_ledger cy secret es t) \<and> set (accepted_ledger cy secret es t) \<inter> L = {}"
        using Cons.prems(4) by (intro Cons.IH [OF clocks(2) ids(2) Cons.prems(3) _ Cons.prems(5)]) auto
      then show ?thesis using step l by simp
    next
      fix ts n assume l: "l = [(ts, n)]" and w: "\<bar>now div 1000 - ts\<bar> \<le> INTERNAL_TS_WINDOW_SEC"
        and new: "find_first (\<lambda>r. nn_nonce r = n) t = None"
        and t1: "t1 = insert_row \<lparr>nn_id = i, nn_nonce = n, nn_expiresAt = nonceExpiresAt ts\<rparr> t"
      have "\<not> nonceExpiresAt ts < g"
      proof
        assume "nonceExpiresAt ts < g"
        then have "(ts + 360) * 1000 < now + 59000" using clocks(1) assms(3)
          by (simp add: nonceExpiresAt_def INTERNAL_TS_WINDOW_SEC_def NONCE_RETENTION_MARGIN_SEC_def)
        then have "(ts + 301) * 1000 \<le> now" by (simp add: algebra_simps)
        then have "ts + 301 \<le> now div 1000" using zdiv_mono1 [of "(ts + 301) * 1000" now 1000] by simp
        then show False using w by (simp add: INTERNAL_TS_WINDOW_SEC_def)
      qed
      then have notL: "(ts, n) \<notin> L" using Cons.prems(5) new by (auto simp: remembered_def find_first_None)
      have "unique_key nn_id t1" unfolding t1 using Cons.prems(3,4) ids(1) by (intro unique_key_insert_row) auto
      moreover have "nn_id ` set t1 \<subseteq> insert i used" unfolding t1 using Cons.prems(4) by auto
      moreover have "remembered g t1 (insert (ts, n) L)" using Cons.prems(5) unfolding t1 remembered_def by fastforce
      ultimately have "distinct (accepted_ledger cy secret es t1) \<and> set (accepted_ledger cy secret es t1) \<inter> insert (ts, n) L = {}"
        by (intro Cons.IH [OF clocks(2) ids(2)])
      then show ?thesis using step l notL by auto
    qed
  qed
qed simp


definition replay_request :: http_request where
  "replay_request = \<lparr>rq_method = ''POST'', rq_pathname = ''/x'', rq_headers = map_of (signInternalV2Headers toy_crypto ''post'' ''/x'' ''{}'' ''k'' 0 ''n'')\<rparr>"


text \<open>
  The margin is meant to cover sixty seconds. The request's clock is cut to whole seconds, so the
  last second of it is missing: with a skew of sixty seconds the same request is accepted again.
\<close>

theorem replay_after_sixty_seconds_skew:
  "accepted_ledger toy_crypto ''k'' [Arrive replay_request ''{}'' True ''1'' 0, CleanUp 360001 (Some 3) (Some 2),
     Arrive replay_request ''{}'' True ''2'' 300001] [] = [(0, ''n''), (0, ''n'')] \<and>
   clocks_ok 60000 0 [Arrive replay_request ''{}'' True ''1'' 0, CleanUp 360001 (Some 3) (Some 2),
     Arrive replay_request ''{}'' True ''2'' 300001]"
  by (intro conjI; code_simp)

end
