(* ===== verification/CronLease.thy ===== *)
theory CronLease
  imports Prelude
begin

text \<open>
  Scheduled jobs: the registry with its windows (\<open>lib/cron-registry.ts\<close>) and the lease that lets one
  caller per window run a job (\<open>lib/cron-lease.ts\<close>). Dates are milliseconds since the epoch, UTC;
  the day of the epoch was a Thursday.
\<close>

section \<open>Windows\<close>

definition MINUTE :: int where "MINUTE = 60000"
definition HOUR :: int where "HOUR = 3600000"
definition DAY :: int where "DAY = 86400000"

lemmas time_units = MINUTE_def HOUR_def DAY_def

definition utc_day :: "date \<Rightarrow> date" where "utc_day now = now div DAY * DAY"
definition utc_hours :: "date \<Rightarrow> int" where "utc_hours now = now mod DAY div HOUR"
definition utc_minutes :: "date \<Rightarrow> int" where "utc_minutes now = now mod HOUR div MINUTE"
definition utc_weekday :: "date \<Rightarrow> int" where "utc_weekday now = (now div DAY + 4) mod 7"

definition floorToUtcDayAtHour :: "date \<Rightarrow> int \<Rightarrow> int \<Rightarrow> date" where
  "floorToUtcDayAtHour now hour minute =
     (let d = utc_day now + hour * HOUR + minute * MINUTE in if now < d then d - DAY else d)"

definition floorToHourBucket :: "date \<Rightarrow> int \<Rightarrow> date" where
  "floorToHourBucket now bucketHours = utc_day now + utc_hours now div bucketHours * bucketHours * HOUR"

definition floorToHourAtMinute :: "date \<Rightarrow> int \<Rightarrow> date" where
  "floorToHourAtMinute now minute =
     (let d = utc_day now + utc_hours now * HOUR + minute * MINUTE in if now < d then d - HOUR else d)"

definition floorToMinute :: "date \<Rightarrow> date" where
  "floorToMinute now = utc_day now + utc_hours now * HOUR + utc_minutes now * MINUTE"

text \<open>The walk back to the wanted weekday; \<open>None\<close> when the fuel runs out.\<close>

fun walk_back :: "nat \<Rightarrow> date \<Rightarrow> int \<Rightarrow> date \<Rightarrow> date option" where
  "walk_back 0 now weekday d = None"
| "walk_back (Suc n) now weekday d =
     (if utc_weekday d \<noteq> weekday \<or> now < d then walk_back n now weekday (d - DAY) else Some d)"

text \<open>Eight rounds are enough, as the agreement with the grid below shows.\<close>

definition floorToWeekdayAtHour :: "date \<Rightarrow> int \<Rightarrow> int \<Rightarrow> date option" where
  "floorToWeekdayAtHour now weekday hour = walk_back 8 now weekday (utc_day now + hour * HOUR)"

section \<open>The registry\<close>

datatype window_rule = DailyAt int int | HourBucket int | HourlyAt int | WeeklyAt int int | EveryMinute

record cron_job =
  cj_jobName :: string
  cj_cron :: string
  cj_routePath :: string
  cj_window :: window_rule
  cj_healthcheckEnv :: "string option"

definition windowStartFor :: "window_rule \<Rightarrow> date \<Rightarrow> date option" where
  "windowStartFor rule now =
     (case rule of
        DailyAt h m \<Rightarrow> Some (floorToUtcDayAtHour now h m)
      | HourBucket n \<Rightarrow> Some (floorToHourBucket now n)
      | HourlyAt m \<Rightarrow> Some (floorToHourAtMinute now m)
      | WeeklyAt w h \<Rightarrow> floorToWeekdayAtHour now w h
      | EveryMinute \<Rightarrow> Some (floorToMinute now))"

definition cron_entry :: "string \<Rightarrow> string \<Rightarrow> window_rule \<Rightarrow> string option \<Rightarrow> cron_job" where
  "cron_entry name cron rule env = \<lparr>cj_jobName = name, cj_cron = cron, cj_routePath = ''/api/cron/'' @ name,
     cj_window = rule, cj_healthcheckEnv = env\<rparr>"

definition CRON_REGISTRY :: "cron_job list" where
  "CRON_REGISTRY =
     [cron_entry ''user-purge'' ''30 4 * * *'' (DailyAt 4 30) (Some ''HEALTHCHECKS_USER_PURGE_URL''),
      cron_entry ''risk-tier-decay'' ''0 5 * * *'' (DailyAt 5 0) (Some ''HEALTHCHECKS_RISK_TIER_DECAY_URL''),
      cron_entry ''license-revocation-refresh'' ''0 */6 * * *'' (HourBucket 6) (Some ''HEALTHCHECKS_LICENSE_REVOCATION_URL''),
      cron_entry ''license-renewal-warning'' ''0 8 * * 1'' (WeeklyAt 1 8) (Some ''HEALTHCHECKS_LICENSE_RENEWAL_WARNING_URL''),
      cron_entry ''telemetry-retention-gc'' ''15 3 * * *'' (DailyAt 3 15) (Some ''HEALTHCHECKS_TELEMETRY_GC_URL''),
      cron_entry ''execution-retention-gc'' ''0 4 * * *'' (DailyAt 4 0) (Some ''HEALTHCHECKS_EXECUTION_RETENTION_GC_URL''),
      cron_entry ''two-factor-code-gc'' ''15 4 * * *'' (DailyAt 4 15) (Some ''HEALTHCHECKS_TWO_FACTOR_CODE_GC_URL''),
      cron_entry ''domain-vocabulary-retention'' ''45 3 * * *'' (DailyAt 3 45) (Some ''HEALTHCHECKS_DOMAIN_VOCAB_RETENTION_URL''),
      cron_entry ''policy-trash-cleanup'' ''45 4 * * *'' (DailyAt 4 45) None,
      cron_entry ''cleanup-nonces'' ''25 * * * *'' (HourlyAt 25) (Some ''HEALTHCHECKS_NONCE_CLEANUP_URL''),
      cron_entry ''domain-vocabulary-bulk-worker'' ''* * * * *'' EveryMinute None]"

definition getCronByJobName :: "string \<Rightarrow> cron_job option" where
  "getCronByJobName jobName = find_first (\<lambda>j. cj_jobName j = jobName) (rev CRON_REGISTRY)"

definition getCronByExpression :: "string \<Rightarrow> cron_job option" where
  "getCronByExpression cron = find_first (\<lambda>j. cj_cron j = cron) (rev CRON_REGISTRY)"

text \<open>The left side is the exception for a job that is not registered.\<close>

definition currentWindowStart :: "string \<Rightarrow> date \<Rightarrow> unit + date option" where
  "currentWindowStart jobName now =
     (case getCronByJobName jobName of None \<Rightarrow> Inl () | Some job \<Rightarrow> Inr (windowStartFor (cj_window job) now))"

section \<open>Window arithmetic\<close>

text \<open>Every window lies on a grid: a period and an offset. This is the reference for all the rules.\<close>

definition grid :: "int \<Rightarrow> int \<Rightarrow> date \<Rightarrow> date" where
  "grid period offset now = (now - offset) div period * period + offset"

fun period_of :: "window_rule \<Rightarrow> int" where
  "period_of (DailyAt h m) = DAY"
| "period_of (HourBucket n) = n * HOUR"
| "period_of (HourlyAt m) = HOUR"
| "period_of (WeeklyAt w h) = 7 * DAY"
| "period_of EveryMinute = MINUTE"

fun offset_of :: "window_rule \<Rightarrow> int" where
  "offset_of (DailyAt h m) = h * HOUR + m * MINUTE"
| "offset_of (HourBucket n) = 0"
| "offset_of (HourlyAt m) = m * MINUTE"
| "offset_of (WeeklyAt w h) = (w - 4) mod 7 * DAY + h * HOUR"
| "offset_of EveryMinute = 0"

fun valid_rule :: "window_rule \<Rightarrow> bool" where
  "valid_rule (DailyAt h m) \<longleftrightarrow> 0 \<le> h \<and> h < 24 \<and> 0 \<le> m \<and> m < 60"
| "valid_rule (HourBucket n) \<longleftrightarrow> n \<in> {1, 2, 3, 4, 6, 8, 12, 24}"
| "valid_rule (HourlyAt m) \<longleftrightarrow> 0 \<le> m \<and> m < 60"
| "valid_rule (WeeklyAt w h) \<longleftrightarrow> 0 \<le> w \<and> w < 7 \<and> 0 \<le> h \<and> h < 24"
| "valid_rule EveryMinute \<longleftrightarrow> True"

lemma grid_bounds:
  assumes "0 < p"
  shows "grid p x now \<le> now \<and> now < grid p x now + p"
proof -
  have "(now - x) div p * p + (now - x) mod p = now - x" by simp
  moreover have "0 \<le> (now - x) mod p" "(now - x) mod p < p" using assms by simp_all
  ultimately show ?thesis unfolding grid_def by linarith
qed

lemma grid_eqI:
  assumes "0 < p" "ws \<le> now" "now < ws + p" "ws = k * p + x"
  shows "ws = grid p x now"
proof -
  have "(now - x) div p = k"
    using assms by (intro int_div_pos_eq [of _ _ _ "now - ws"]) (simp_all add: algebra_simps)
  then show ?thesis using assms(4) by (simp add: grid_def)
qed

lemma grid_fixed: "0 < p \<Longrightarrow> grid p x now \<le> t \<Longrightarrow> t < grid p x now + p \<Longrightarrow> grid p x t = grid p x now"
  by (rule grid_eqI [symmetric, where k = "(now - x) div p"]) (simp_all add: grid_def)

lemma utc_day_bounds: "utc_day now \<le> now \<and> now < utc_day now + DAY"
  using grid_bounds [of DAY 0 now] by (simp add: utc_day_def grid_def DAY_def)

text \<open>A time as day, hour, minute and rest.\<close>

lemma split_time:
  obtains a b c r where "t = DAY * a + HOUR * b + MINUTE * c + r"
    "0 \<le> b" "b < 24" "0 \<le> c" "c < 60" "0 \<le> r" "r < MINUTE"
    "utc_day t = DAY * a" "utc_hours t = b" "utc_minutes t = c" "utc_weekday t = (a + 4) mod 7"
proof -
  let ?a = "t div DAY" and ?b = "t mod DAY div HOUR" and ?c = "t mod HOUR div MINUTE" and ?r = "t mod MINUTE"
  have h: "t mod DAY mod HOUR = t mod HOUR" by (rule mod_mod_cancel) (simp add: time_units)
  have m: "t mod HOUR mod MINUTE = t mod MINUTE" by (rule mod_mod_cancel) (simp add: time_units)
  have "t = DAY * ?a + t mod DAY" "t mod DAY = HOUR * ?b + t mod HOUR" "t mod HOUR = MINUTE * ?c + t mod MINUTE"
    using mult_div_mod_eq [of HOUR "t mod DAY"] mult_div_mod_eq [of MINUTE "t mod HOUR"] h m by simp_all
  then have "t = DAY * ?a + HOUR * ?b + MINUTE * ?c + ?r" by linarith
  moreover have "0 \<le> ?b" "0 \<le> ?c" "0 \<le> ?r" "?r < MINUTE" by (simp_all add: time_units pos_imp_zdiv_nonneg_iff)
  moreover have "t mod DAY < 24 * HOUR" "t mod HOUR < 60 * MINUTE" by (simp_all add: time_units)
  then have "?b < 24" "?c < 60" by (simp_all add: time_units div_less_iff_less_mult mult.commute)
  ultimately show ?thesis
    by (intro that [of ?a ?b ?c ?r]) (simp_all add: utc_day_def utc_hours_def utc_minutes_def utc_weekday_def mult.commute)
qed

lemma daily_grid:
  assumes "0 \<le> h" "h < 24" "0 \<le> m" "m < 60"
  shows "floorToUtcDayAtHour now h m = grid DAY (h * HOUR + m * MINUTE) now"
proof -
  obtain a b c r where t: "now = DAY * a + HOUR * b + MINUTE * c + r" "0 \<le> b" "b < 24" "0 \<le> c" "c < 60" "0 \<le> r" "r < MINUTE"
    "utc_day now = DAY * a" by (rule split_time [of now])
  show ?thesis
  proof (cases "now < DAY * a + h * HOUR + m * MINUTE")
    case True
    then have "floorToUtcDayAtHour now h m = (a - 1) * DAY + (h * HOUR + m * MINUTE)"
      using t(8) by (simp add: floorToUtcDayAtHour_def Let_def algebra_simps)
    then show ?thesis
      using True t assms by (intro grid_eqI [where k = "a - 1"]) (simp_all add: time_units)
  next
    case False
    then have "floorToUtcDayAtHour now h m = a * DAY + (h * HOUR + m * MINUTE)"
      using t(8) by (simp add: floorToUtcDayAtHour_def Let_def algebra_simps)
    then show ?thesis
      using False t assms by (intro grid_eqI [where k = a]) (simp_all add: time_units)
  qed
qed

lemma hourly_grid:
  assumes "0 \<le> m" "m < 60"
  shows "floorToHourAtMinute now m = grid HOUR (m * MINUTE) now"
proof -
  obtain a b c r where t: "now = DAY * a + HOUR * b + MINUTE * c + r" "0 \<le> c" "c < 60" "0 \<le> r" "r < MINUTE"
    "utc_day now = DAY * a" "utc_hours now = b" by (rule split_time [of now])
  show ?thesis
  proof (cases "now < DAY * a + b * HOUR + m * MINUTE")
    case True
    then have "floorToHourAtMinute now m = (24 * a + b - 1) * HOUR + m * MINUTE"
      using t(6,7) by (simp add: floorToHourAtMinute_def Let_def time_units)
    then show ?thesis
      using True t assms by (intro grid_eqI [where k = "24 * a + b - 1"]) (simp_all add: time_units)
  next
    case False
    then have "floorToHourAtMinute now m = (24 * a + b) * HOUR + m * MINUTE"
      using t(6,7) by (simp add: floorToHourAtMinute_def Let_def time_units)
    then show ?thesis
      using False t assms by (intro grid_eqI [where k = "24 * a + b"]) (simp_all add: time_units)
  qed
qed

lemma minute_grid: "floorToMinute now = grid MINUTE 0 now"
proof -
  obtain a b c r where t: "now = DAY * a + HOUR * b + MINUTE * c + r" "0 \<le> r" "r < MINUTE"
    "utc_day now = DAY * a" "utc_hours now = b" "utc_minutes now = c" by (rule split_time [of now])
  then show ?thesis
    by (intro grid_eqI [where k = "1440 * a + 60 * b + c"]) (simp_all add: floorToMinute_def time_units)
qed

lemma bucket_grid:
  assumes "n \<in> {1, 2, 3, 4, 6, 8, 12, 24}"
  shows "floorToHourBucket now n = grid (n * HOUR) 0 now"
proof -
  obtain a b c r where t: "now = DAY * a + HOUR * b + MINUTE * c + r" "0 \<le> b" "b < 24" "0 \<le> c" "c < 60" "0 \<le> r" "r < MINUTE"
    "utc_day now = DAY * a" "utc_hours now = b" by (rule split_time [of now])
  have n: "0 < n" "n dvd 24" using assms by auto
  then obtain q where q: "24 = n * q" by auto
  have b: "b div n * n + b mod n = b" "0 \<le> b mod n" "b mod n < n" using n by simp_all
  have ws: "floorToHourBucket now n = DAY * a + (b div n * n) * HOUR" using t by (simp add: floorToHourBucket_def)
  show ?thesis
  proof (rule grid_eqI [where k = "q * a + b div n"])
    show "0 < n * HOUR" using n by (simp add: HOUR_def)
    show "floorToHourBucket now n = (q * a + b div n) * (n * HOUR) + 0"
    proof -
      have "DAY = 24 * HOUR" by (simp add: time_units)
      then show ?thesis unfolding ws using q by (simp add: algebra_simps)
    qed
    define x where "x = b div n * n"
    have "x \<le> b" "b + 1 \<le> x + n" unfolding x_def using b by linarith+
    moreover have "0 \<le> MINUTE * c + r" "MINUTE * c + r < HOUR" using t by (simp_all add: time_units)
    ultimately show "floorToHourBucket now n \<le> now" "now < floorToHourBucket now n + n * HOUR"
      using t(1) unfolding ws x_def [symmetric] by (simp_all add: time_units)
  qed
qed

section \<open>The walk back ends\<close>

definition wanted :: "date \<Rightarrow> int \<Rightarrow> date \<Rightarrow> bool" where
  "wanted now w d \<longleftrightarrow> utc_weekday d = w \<and> d \<le> now"

lemma walk_back_first:
  "walk_back n now w d =
     (if \<exists>k < n. wanted now w (d - int k * DAY)
      then Some (d - int (LEAST k. wanted now w (d - int k * DAY)) * DAY) else None)"
proof (induction n arbitrary: d)
  case (Suc n)
  let ?P = "\<lambda>k. wanted now w (d - int k * DAY)"
  have shift: "?P (Suc k) = wanted now w (d - DAY - int k * DAY)" for k by (simp add: algebra_simps)
  show ?case
  proof (cases "wanted now w d")
    case True
    then have "?P 0" by simp
    then have "(LEAST k. ?P k) = 0" "\<exists>k < Suc n. ?P k" by (auto intro: Least_eq_0)
    then show ?thesis using True by (auto simp: wanted_def)
  next
    case False
    then have n0: "\<not> ?P 0" by simp
    then have ex: "(\<exists>k < Suc n. ?P k) \<longleftrightarrow> (\<exists>k < n. ?P (Suc k))" by (metis less_Suc_eq_0_disj)
    have rec: "walk_back (Suc n) now w d = walk_back n now w (d - DAY)" using False by (auto simp: wanted_def)
    have IH: "walk_back n now w (d - DAY) = (if \<exists>k < n. ?P (Suc k)
        then Some (d - DAY - int (LEAST k. ?P (Suc k)) * DAY) else None)"
      unfolding Suc.IH shift ..
    show ?thesis
    proof (cases "\<exists>k < n. ?P (Suc k)")
      case True
      then obtain j where "?P (Suc j)" by blast
      have L: "(LEAST k. ?P k) = Suc (LEAST k. ?P (Suc k))" by (rule Least_Suc [of ?P, OF \<open>?P (Suc j)\<close> n0])
      have "d - DAY - int m * DAY = d - int (Suc m) * DAY" for m by (simp add: algebra_simps)
      then show ?thesis unfolding rec IH ex L using True by simp
    next
      case False
      then show ?thesis unfolding rec IH ex by (simp only: if_False)
    qed
  qed
qed simp

lemma weekday_shift: "utc_weekday (d - int k * DAY) = (utc_weekday d - int k) mod 7"
proof -
  have e: "(d - int k * DAY) div DAY = d div DAY - int k"
    using div_mult_self1 [of DAY d "- int k"] by (simp add: DAY_def algebra_simps)
  show ?thesis unfolding utc_weekday_def e by (simp add: mod_simps algebra_simps)
qed

lemma weekly_grid:
  assumes "0 \<le> w" "w < 7" "0 \<le> h" "h < 24"
  shows "floorToWeekdayAtHour now w h = Some (grid (7 * DAY) ((w - 4) mod 7 * DAY + h * HOUR) now)"
proof -
  obtain a where t: "utc_day now = DAY * a" by (rule split_time [of now])
  let ?d = "utc_day now + h * HOUR"
  let ?P = "\<lambda>k. wanted now w (?d - int k * DAY)"
  define k0 where "k0 = nat ((utc_weekday ?d - w) mod 7)"
  have k0: "int k0 = (utc_weekday ?d - w) mod 7" "k0 < 7" unfolding k0_def by simp_all
  have wd: "utc_weekday (?d - int k * DAY) = w \<longleftrightarrow> (int k - int k0) mod 7 = 0" for k
  proof -
    have "utc_weekday (?d - int k * DAY) = w \<longleftrightarrow> (utc_weekday ?d - int k) mod 7 = w mod 7"
      unfolding weekday_shift using assms(1,2) by simp
    also have "\<dots> \<longleftrightarrow> 7 dvd (utc_weekday ?d - int k - w)" by (simp add: mod_eq_dvd_iff)
    also have "\<dots> \<longleftrightarrow> (int k - (utc_weekday ?d - w)) mod 7 = 0"
      using dvd_minus_iff [of 7 "utc_weekday ?d - int k - w"] by (simp add: dvd_eq_mod_eq_0 algebra_simps)
    also have "\<dots> \<longleftrightarrow> (int k - int k0) mod 7 = 0" unfolding k0(1) by (simp add: mod_simps)
    finally show ?thesis .
  qed
  have near: "?d - DAY \<le> now" "now < ?d + DAY"
    using utc_day_bounds [of now] assms(3,4) by (simp_all add: time_units)
  define k where "k = (if k0 = 0 \<and> now < ?d then 7 else k0)"
  have k: "?P k" "k < 8"
    using wd k0(2) near(1) assms unfolding k_def wanted_def by (auto simp: time_units)
  have least: "(LEAST k. ?P k) = k"
  proof (rule Least_equality [of ?P k, OF k(1)])
    fix j assume j: "?P j"
    then have "(int j - int k0) mod 7 = 0" using wd by (simp add: wanted_def)
    then have "k0 \<le> j" using k0(2) by presburger
    moreover have "j \<noteq> 0" if late: "now < ?d"
    proof
      assume "j = 0"
      then show False using j late by (simp add: wanted_def)
    qed
    ultimately show "k \<le> j" using \<open>(int j - int k0) mod 7 = 0\<close> unfolding k_def by (auto, presburger)
  qed
  have some: "floorToWeekdayAtHour now w h = Some (?d - int k * DAY)"
    unfolding floorToWeekdayAtHour_def walk_back_first using k least by auto
  have "?d - int k * DAY \<le> now" using k(1) by (simp add: wanted_def)
  moreover have "now < ?d - int k * DAY + 7 * DAY" using near(2) k0(2) unfolding k_def by (auto simp: time_units)
  moreover have "utc_weekday (?d - int k * DAY) = w" using k(1) by (simp add: wanted_def)
  moreover have "(?d - int k * DAY) div DAY = a - int k"
  proof (rule int_div_pos_eq [of _ _ _ "h * HOUR"])
    show "?d - int k * DAY = DAY * (a - int k) + h * HOUR" using t by (simp add: algebra_simps)
  qed (use assms in \<open>simp_all add: time_units\<close>)
  ultimately have w: "(a - int k + 4) mod 7 = w" by (simp add: utc_weekday_def)
  have "7 dvd (a - int k - (w - 4) mod 7)"
    using w by (simp add: dvd_eq_mod_eq_0 mod_simps) presburger
  then obtain q where q: "a - int k = 7 * q + (w - 4) mod 7" by (auto simp: dvd_def algebra_simps)
  have "?d - int k * DAY = (a - int k) * DAY + h * HOUR" using t by (simp add: algebra_simps)
  also have "\<dots> = q * (7 * DAY) + ((w - 4) mod 7 * DAY + h * HOUR)" unfolding q by (simp add: algebra_simps)
  finally show ?thesis unfolding some
    using \<open>?d - int k * DAY \<le> now\<close> \<open>now < ?d - int k * DAY + 7 * DAY\<close>
    by (intro arg_cong [of _ _ Some] grid_eqI) (simp_all add: DAY_def)
qed

lemma window_is_grid:
  "valid_rule rule \<Longrightarrow> windowStartFor rule now = Some (grid (period_of rule) (offset_of rule) now)"
  by (cases rule) (simp_all add: windowStartFor_def daily_grid hourly_grid minute_grid bucket_grid weekly_grid)

lemma valid_period: "valid_rule rule \<Longrightarrow> 0 < period_of rule"
  by (cases rule) (auto simp: time_units)

lemma registry_valid: "list_all (\<lambda>j. valid_rule (cj_window j)) CRON_REGISTRY"
  by (simp add: CRON_REGISTRY_def cron_entry_def)

text \<open>
  The window of every registered job starts at or before the given time, is over one period later,
  and is found again from every time inside it: calls in one window agree on its start.
\<close>

theorem cron_windows_partition_time:
  assumes "job \<in> set CRON_REGISTRY"
  shows "\<exists>ws. windowStartFor (cj_window job) now = Some ws \<and> ws \<le> now \<and> now < ws + period_of (cj_window job) \<and>
    (\<forall>t. ws \<le> t \<and> t < ws + period_of (cj_window job) \<longrightarrow> windowStartFor (cj_window job) t = Some ws)"
proof -
  have v: "valid_rule (cj_window job)" using registry_valid assms by (simp add: list_all_iff)
  let ?p = "period_of (cj_window job)" and ?x = "offset_of (cj_window job)"
  have p: "0 < ?p" by (rule valid_period [OF v])
  show ?thesis unfolding window_is_grid [OF v]
  proof (intro exI conjI allI impI)
    show "Some (grid ?p ?x now) = Some (grid ?p ?x now)" by (rule refl)
    show "grid ?p ?x now \<le> now" "now < grid ?p ?x now + ?p" using grid_bounds [OF p, of ?x now] by (rule conjunct1, rule conjunct2)
    show "Some (grid ?p ?x t) = Some (grid ?p ?x now)" if "grid ?p ?x now \<le> t \<and> t < grid ?p ?x now + ?p" for t
      using grid_fixed [OF p] that by (intro arg_cong [of _ _ Some]) (elim conjE)
  qed
qed

theorem cron_windows_partition_time_witness:
  "(let job = cron_entry ''license-renewal-warning'' ''0 8 * * 1'' (WeeklyAt 1 8) (Some ''HEALTHCHECKS_LICENSE_RENEWAL_WARNING_URL'')
    in job \<in> set CRON_REGISTRY \<and> windowStartFor (cj_window job) 1000000000000 = Some 999504000000 \<and>
       (\<exists>ws. windowStartFor (cj_window job) 1000000000000 = Some ws \<and> ws \<le> 1000000000000))"
proof -
  let ?job = "cron_entry ''license-renewal-warning'' ''0 8 * * 1'' (WeeklyAt 1 8) (Some ''HEALTHCHECKS_LICENSE_RENEWAL_WARNING_URL'')"
  have m: "?job \<in> set CRON_REGISTRY" by (simp add: CRON_REGISTRY_def)
  have "windowStartFor (cj_window ?job) 1000000000000 = Some 999504000000" by code_simp
  then show ?thesis using m cron_windows_partition_time [OF m, of 1000000000000] by (simp only: Let_def) blast
qed

section \<open>The cron expressions say the same\<close>

text \<open>
  The five fields of an expression, with the forms the registry uses; day of month and month must be
  stars, and Sunday is 0.
\<close>

datatype cron_field = AnyValue | Multiple nat | Exactly nat

definition parse_field :: "string \<Rightarrow> cron_field" where
  "parse_field s = (if s = ''*'' then AnyValue else if take 2 s = ''*/'' then Multiple (undec (drop 2 s)) else Exactly (undec s))"

fun field_matches :: "cron_field \<Rightarrow> int \<Rightarrow> bool" where
  "field_matches AnyValue v \<longleftrightarrow> True"
| "field_matches (Multiple n) v \<longleftrightarrow> v mod int n = 0"
| "field_matches (Exactly n) v \<longleftrightarrow> v = int n"

definition fields_match :: "cron_field list \<Rightarrow> date \<Rightarrow> bool" where
  "fields_match fs t \<longleftrightarrow>
     (case fs of
        [m, h, day, mon, dow] \<Rightarrow> day = AnyValue \<and> mon = AnyValue \<and> t mod MINUTE = 0 \<and>
          field_matches m (utc_minutes t) \<and> field_matches h (utc_hours t) \<and> field_matches dow (utc_weekday t)
      | _ \<Rightarrow> False)"

definition cron_matches :: "string \<Rightarrow> date \<Rightarrow> bool" where
  "cron_matches expr t \<longleftrightarrow> fields_match (map parse_field (split_on CHR '' '' expr)) t"

text \<open>The fields a rule stands for.\<close>

fun rule_fields :: "window_rule \<Rightarrow> cron_field list" where
  "rule_fields (DailyAt h m) = [Exactly (nat m), Exactly (nat h), AnyValue, AnyValue, AnyValue]"
| "rule_fields (HourBucket n) = [Exactly 0, Multiple (nat n), AnyValue, AnyValue, AnyValue]"
| "rule_fields (HourlyAt m) = [Exactly (nat m), AnyValue, AnyValue, AnyValue, AnyValue]"
| "rule_fields (WeeklyAt w h) = [Exactly 0, Exactly (nat h), AnyValue, AnyValue, Exactly (nat w)]"
| "rule_fields EveryMinute = [AnyValue, AnyValue, AnyValue, AnyValue, AnyValue]"

lemma registry_fields:
  "list_all (\<lambda>j. map parse_field (split_on CHR '' '' (cj_cron j)) = rule_fields (cj_window j)) CRON_REGISTRY"
  by (simp add: CRON_REGISTRY_def cron_entry_def parse_field_def)

lemma grid_self: "0 < p \<Longrightarrow> grid p x t = t \<longleftrightarrow> (t - x) mod p = 0"
proof -
  have "(t - x) div p * p + (t - x) mod p = t - x" by simp
  then show ?thesis unfolding grid_def by linarith
qed

lemma mod_parts:
  assumes "t = DAY * a + HOUR * b + MINUTE * c + r" "0 \<le> b" "b < 24" "0 \<le> c" "c < 60" "0 \<le> r" "r < MINUTE"
  shows "t mod MINUTE = r" "t mod HOUR = MINUTE * c + r" "t mod DAY = HOUR * b + MINUTE * c + r"
proof -
  show "t mod MINUTE = r" using assms by (intro int_mod_pos_eq [where q = "1440 * a + 60 * b + c"]) (simp_all add: time_units)
  show "t mod HOUR = MINUTE * c + r" using assms by (intro int_mod_pos_eq [where q = "24 * a + b"]) (simp_all add: time_units)
  show "t mod DAY = HOUR * b + MINUTE * c + r" using assms by (intro int_mod_pos_eq [where q = a]) (simp_all add: time_units)
qed

lemma mod_offset: "0 \<le> x \<Longrightarrow> x < p \<Longrightarrow> (t - x) mod p = 0 \<longleftrightarrow> t mod p = (x :: int)"
  by (metis diff_self mod_diff_left_eq mod_0 mod_pos_pos_trivial mod_eq_dvd_iff dvd_eq_mod_eq_0)

lemma digits_eq:
  fixes b c r h m :: int
  assumes "0 \<le> c" "c < 60" "0 \<le> r" "r < MINUTE" "0 \<le> m" "m < 60"
  shows "HOUR * b + MINUTE * c + r = h * HOUR + m * MINUTE \<longleftrightarrow> b = h \<and> c = m \<and> r = 0"
proof
  assume e: "HOUR * b + MINUTE * c + r = h * HOUR + m * MINUTE"
  have b: "b = h" using e assms by (cases b h rule: linorder_cases) (simp_all add: time_units)
  moreover have "c = m" using e assms b by (cases c m rule: linorder_cases) (simp_all add: time_units)
  ultimately show "b = h \<and> c = m \<and> r = 0" using e by simp
qed (simp add: mult.commute)

lemma daily_fields:
  assumes "valid_rule (DailyAt h k)"
  shows "fields_match (rule_fields (DailyAt h k)) t \<longleftrightarrow> grid (DAY) (h * HOUR + k * MINUTE) t = t"
proof -
  obtain a b c r where t: "t = DAY * a + HOUR * b + MINUTE * c + r" "0 \<le> b" "b < 24" "0 \<le> c" "c < 60" "0 \<le> r" "r < MINUTE"
    and u: "utc_hours t = b" "utc_minutes t = c" "utc_weekday t = (a + 4) mod 7" by (rule split_time [of t])
  note m = mod_parts [OF t]
  note g = grid_self [of "DAY" "h * HOUR + k * MINUTE" t, OF valid_period [OF assms, unfolded period_of.simps]]
  then have "0 \<le> h * HOUR + k * MINUTE" "h * HOUR + k * MINUTE < DAY" using assms by (simp_all add: time_units)
  then have "grid (DAY) (h * HOUR + k * MINUTE) t = t \<longleftrightarrow> HOUR * b + MINUTE * c + r = h * HOUR + k * MINUTE"
    unfolding g by (simp only: mod_offset m(3))
  also have "\<dots> \<longleftrightarrow> b = h \<and> c = k \<and> r = 0" using digits_eq [OF t(4-7)] assms by simp
  finally show ?thesis using assms by (simp add: fields_match_def m(1) u) blast
qed

lemma hourly_fields:
  assumes "valid_rule (HourlyAt k)"
  shows "fields_match (rule_fields (HourlyAt k)) t \<longleftrightarrow> grid (HOUR) (k * MINUTE) t = t"
proof -
  obtain a b c r where t: "t = DAY * a + HOUR * b + MINUTE * c + r" "0 \<le> b" "b < 24" "0 \<le> c" "c < 60" "0 \<le> r" "r < MINUTE"
    and u: "utc_hours t = b" "utc_minutes t = c" "utc_weekday t = (a + 4) mod 7" by (rule split_time [of t])
  note m = mod_parts [OF t]
  note g = grid_self [of "HOUR" "k * MINUTE" t, OF valid_period [OF assms, unfolded period_of.simps]]
  then have "0 \<le> k * MINUTE" "k * MINUTE < HOUR" using assms by (simp_all add: time_units)
  then have "grid (HOUR) (k * MINUTE) t = t \<longleftrightarrow> HOUR * 0 + MINUTE * c + r = 0 * HOUR + k * MINUTE"
    unfolding g by (simp only: mod_offset m(2)) simp
  also have "\<dots> \<longleftrightarrow> c = k \<and> r = 0" using digits_eq [OF t(4-7), of k 0 0] assms by simp
  finally show ?thesis using assms by (simp add: fields_match_def m(1) u) blast
qed

lemma bucket_fields:
  assumes "valid_rule (HourBucket n)"
  shows "fields_match (rule_fields (HourBucket n)) t \<longleftrightarrow> grid (n * HOUR) (0) t = t"
proof -
  obtain a b c r where t: "t = DAY * a + HOUR * b + MINUTE * c + r" "0 \<le> b" "b < 24" "0 \<le> c" "c < 60" "0 \<le> r" "r < MINUTE"
    and u: "utc_hours t = b" "utc_minutes t = c" "utc_weekday t = (a + 4) mod 7" by (rule split_time [of t])
  note m = mod_parts [OF t]
  note g = grid_self [of "n * HOUR" "0" t, OF valid_period [OF assms, unfolded period_of.simps]]
  then have n: "0 < n" "n dvd 24" using assms by auto
  have "t mod (n * HOUR) = HOUR * ((24 * a + b) mod n) + MINUTE * c + r"
  proof (rule int_mod_pos_eq [where q = "(24 * a + b) div n"])
    define q k where "q = (24 * a + b) div n" and "k = (24 * a + b) mod n"
    have "24 * a + b = n * q + k" unfolding q_def k_def by simp
    then have "HOUR * (24 * a + b) = HOUR * (n * q) + HOUR * k" by (simp only: distrib_left)
    moreover have "HOUR * (24 * a + b) = DAY * a + HOUR * b" by (simp add: time_units)
    moreover have "HOUR * (n * q) = n * HOUR * q" by simp
    ultimately show "t = n * HOUR * ((24 * a + b) div n) + (HOUR * ((24 * a + b) mod n) + MINUTE * c + r)"
      unfolding t(1) q_def [symmetric] k_def [symmetric] by linarith
    have "(24 * a + b) mod n + 1 \<le> n" using pos_mod_bound [OF n(1), of "24 * a + b"] by linarith
    then show "HOUR * ((24 * a + b) mod n) + MINUTE * c + r < n * HOUR" using t(4-7) by (simp add: time_units)
    show "0 \<le> HOUR * ((24 * a + b) mod n) + MINUTE * c + r" using n(1) t(4-7) by (simp add: time_units)
  qed
  moreover have "(24 * a + b) mod n = b mod n" using n(2) by (metis dvd_mult2 mod_add_left_eq mod_0_imp_dvd dvd_imp_mod_0 add_0)
  ultimately have "grid (n * HOUR) (0) t = t \<longleftrightarrow> HOUR * (b mod n) + MINUTE * c + r = 0 * HOUR + 0 * MINUTE"
    unfolding g by simp
  also have "\<dots> \<longleftrightarrow> b mod n = 0 \<and> c = 0 \<and> r = 0" using digits_eq [OF t(4-7), of 0 "b mod n" 0] by simp
  finally show ?thesis using n by (simp add: fields_match_def m(1) u) blast
qed

lemma day_digits_eq:
  fixes y z u v :: int
  assumes "0 \<le> u" "u < DAY" "0 \<le> v" "v < DAY"
  shows "DAY * y + u = z * DAY + v \<longleftrightarrow> y = z \<and> u = v"
proof
  assume e: "DAY * y + u = z * DAY + v"
  have "y = z" using e assms by (cases y z rule: linorder_cases) (simp_all add: time_units)
  then show "y = z \<and> u = v" using e by simp
qed (simp add: mult.commute)

lemma weekday_iff: "0 \<le> w \<Longrightarrow> w < 7 \<Longrightarrow> a mod 7 = (w - 4) mod 7 \<longleftrightarrow> (a + 4) mod 7 = (w :: int)"
  using mod_eq_dvd_iff [of a 7 "w - 4"] mod_eq_dvd_iff [of "a + 4" 7 w] by (simp add: algebra_simps)

lemma week_mod:
  assumes "0 \<le> u" "u < DAY"
  shows "(DAY * a + u) mod (7 * DAY) = DAY * (a mod 7) + u"
proof (rule int_mod_pos_eq [where q = "a div 7"])
  have "DAY * a = DAY * (7 * (a div 7)) + DAY * (a mod 7)" by (simp only: distrib_left [symmetric] mult_div_mod_eq)
  then show "DAY * a + u = 7 * DAY * (a div 7) + (DAY * (a mod 7) + u)" by simp
  have "0 \<le> a mod 7" "a mod 7 < 7" by simp_all
  then show "0 \<le> DAY * (a mod 7) + u" "DAY * (a mod 7) + u < 7 * DAY"
    using assms unfolding DAY_def by linarith+
qed

lemma weekly_fields:
  assumes "valid_rule (WeeklyAt w h)"
  shows "fields_match (rule_fields (WeeklyAt w h)) t \<longleftrightarrow> grid (7 * DAY) ((w - 4) mod 7 * DAY + h * HOUR) t = t"
proof -
  obtain a b c r where t: "t = DAY * a + HOUR * b + MINUTE * c + r" "0 \<le> b" "b < 24" "0 \<le> c" "c < 60" "0 \<le> r" "r < MINUTE"
    and u: "utc_hours t = b" "utc_minutes t = c" "utc_weekday t = (a + 4) mod 7" by (rule split_time [of t])
  note m = mod_parts [OF t]
  let ?x = "(w - 4) mod 7 * DAY + h * HOUR" and ?u = "HOUR * b + MINUTE * c + r"
  have w: "0 \<le> w" "w < 7" "0 \<le> h" "h < 24" using assms by simp_all
  have u': "0 \<le> ?u" "?u < DAY" using t(2-7) unfolding time_units by linarith+
  have v': "0 \<le> h * HOUR" "h * HOUR < DAY" using w(3,4) unfolding time_units by linarith+
  have "0 \<le> (w - 4) mod 7" "(w - 4) mod 7 < 7" by simp_all
  then have x: "0 \<le> ?x" "?x < 7 * DAY" using v' unfolding DAY_def by linarith+
  have "grid (7 * DAY) ?x t = t \<longleftrightarrow> (t - ?x) mod (7 * DAY) = 0" by (rule grid_self) (simp add: DAY_def)
  also have "\<dots> \<longleftrightarrow> t mod (7 * DAY) = ?x" by (rule mod_offset [OF x])
  also have "t mod (7 * DAY) = DAY * (a mod 7) + ?u" using week_mod [OF u', of a] t(1) by (simp only: add.assoc)
  also have "DAY * (a mod 7) + ?u = ?x \<longleftrightarrow> a mod 7 = (w - 4) mod 7 \<and> ?u = h * HOUR" by (rule day_digits_eq [OF u' v'])
  also have "\<dots> \<longleftrightarrow> (a + 4) mod 7 = w \<and> b = h \<and> c = 0 \<and> r = 0"
    unfolding weekday_iff [OF w(1,2)] using digits_eq [OF t(4-7), of 0 b h] by simp
  finally show ?thesis using w by (simp add: fields_match_def m(1) u) blast
qed

lemma rule_fields_match:
  "valid_rule rule \<Longrightarrow> fields_match (rule_fields rule) t \<longleftrightarrow> grid (period_of rule) (offset_of rule) t = t"
proof (cases rule)
  case EveryMinute
  have "0 < MINUTE" by (simp add: MINUTE_def)
  from grid_self [OF this, of 0 t] show ?thesis unfolding EveryMinute by (simp add: fields_match_def)
qed (simp_all only: daily_fields hourly_fields bucket_fields weekly_fields period_of.simps offset_of.simps)



section \<open>The lease\<close>

datatype lease_status = Lease_running | Lease_done | Lease_failed

record lease_row =
  cl_id :: row_id
  cl_jobName :: string
  cl_windowStart :: date
  cl_acquiredBy :: string
  cl_status :: lease_status
  cl_completedAt :: "date option"
  cl_errorMessage :: "string option"

datatype heartbeat = Beat_start | Beat_success | Beat_fail

text \<open>The leases, the heartbeats sent, and whatever the jobs work on.\<close>

record 'a cron_state =
  ce_leases :: "lease_row table"
  ce_beats :: "(string \<times> heartbeat) list"
  ce_app :: 'a

datatype skip_reason = Already_running | Already_done | Already_failed

datatype 'r cron_outcome =
    Unregistered
  | Skipped_run date row_id skip_reason
  | Ran date row_id 'r
  | Threw date row_id string

definition send_beat :: "string option \<Rightarrow> heartbeat \<Rightarrow> 'a cron_state \<Rightarrow> 'a cron_state" where
  "send_beat env b st = (case or_null env of None \<Rightarrow> st | Some e \<Rightarrow> st\<lparr>ce_beats := ce_beats st @ [(e, b)]\<rparr>)"

lemma send_beat_simps [simp]:
  "ce_leases (send_beat env b st) = ce_leases st" "ce_app (send_beat env b st) = ce_app st"
  by (simp_all add: send_beat_def split: option.split)

definition lease_of :: "string \<Rightarrow> date \<Rightarrow> lease_row \<Rightarrow> bool" where
  "lease_of jobName ws r \<longleftrightarrow> cl_jobName r = jobName \<and> cl_windowStart r = ws"

text \<open>The insertion that does nothing on a conflict; the result is whether a row was inserted.\<close>

definition lease_insert :: "row_id \<Rightarrow> string \<Rightarrow> date \<Rightarrow> string \<Rightarrow> lease_row table \<Rightarrow> bool \<times> lease_row table" where
  "lease_insert leaseId jobName ws acquiredBy t =
     (if find_first (lease_of jobName ws) t \<noteq> None then (False, t)
      else (True, insert_row \<lparr>cl_id = leaseId, cl_jobName = jobName, cl_windowStart = ws, cl_acquiredBy = acquiredBy,
              cl_status = Lease_running, cl_completedAt = None, cl_errorMessage = None\<rparr> t))"

definition skip_reason_of :: "lease_row option \<Rightarrow> skip_reason" where
  "skip_reason_of existing =
     (case existing of None \<Rightarrow> Already_running
      | Some r \<Rightarrow> (case cl_status r of Lease_running \<Rightarrow> Already_running | Lease_done \<Rightarrow> Already_done | Lease_failed \<Rightarrow> Already_failed))"

definition lease_finish :: "row_id \<Rightarrow> string option \<Rightarrow> date \<Rightarrow> lease_row table \<Rightarrow> lease_row table" where
  "lease_finish leaseId err now t =
     update_where (\<lambda>r. cl_id r = leaseId)
       (\<lambda>r. case err of
          None \<Rightarrow> r\<lparr>cl_status := Lease_done, cl_completedAt := Some now\<rparr>
        | Some e \<Rightarrow> r\<lparr>cl_status := Lease_failed, cl_completedAt := Some now, cl_errorMessage := Some (take 500 e)\<rparr>) t"

text \<open>
  The wrapper: \<open>fn\<close> is the body, which may throw. An explicit window start overrides the registry's;
  \<open>bypass\<close> is the environment switch of the unit tests.
\<close>

definition runCronOnce ::
  "bool \<Rightarrow> string \<Rightarrow> ('a \<Rightarrow> (string + 'r) \<times> 'a) \<Rightarrow> string \<Rightarrow> date option \<Rightarrow> row_id \<Rightarrow> date \<Rightarrow> 'a cron_state \<Rightarrow>
   'r cron_outcome \<times> 'a cron_state" where
  "runCronOnce bypass jobName fn acquiredBy window leaseId now st =
     (case getCronByJobName jobName of
        None \<Rightarrow> (Unregistered, st)
      | Some job \<Rightarrow>
          let ws = (case window of Some w \<Rightarrow> w | None \<Rightarrow> nullish (windowStartFor (cj_window job) now) now) in
          if bypass
          then (case fn (ce_app st) of
                  (Inl e, a) \<Rightarrow> (Threw ws leaseId e, st\<lparr>ce_app := a\<rparr>) | (Inr r, a) \<Rightarrow> (Ran ws leaseId r, st\<lparr>ce_app := a\<rparr>))
          else
            (case lease_insert leaseId jobName ws acquiredBy (ce_leases st) of
               (False, _) \<Rightarrow>
                 let existing = find_first (lease_of jobName ws) (ce_leases st) in
                 (Skipped_run ws (case existing of None \<Rightarrow> leaseId | Some r \<Rightarrow> cl_id r) (skip_reason_of existing), st)
             | (True, t1) \<Rightarrow>
                 let st1 = send_beat (cj_healthcheckEnv job) Beat_start (st\<lparr>ce_leases := t1\<rparr>) in
                 (case fn (ce_app st1) of
                    (Inr r, a) \<Rightarrow>
                      (Ran ws leaseId r, send_beat (cj_healthcheckEnv job) Beat_success
                        (st1\<lparr>ce_app := a, ce_leases := lease_finish leaseId None now (ce_leases st1)\<rparr>))
                  | (Inl e, a) \<Rightarrow>
                      (Threw ws leaseId e, send_beat (cj_healthcheckEnv job) Beat_fail
                        (st1\<lparr>ce_app := a, ce_leases := lease_finish leaseId (Some e) now (ce_leases st1)\<rparr>)))))"

section \<open>One run per window\<close>

text \<open>The statements of overlapping callers: each tries to insert, and those that won finish in any order.\<close>

datatype lease_event = Try row_id string date string | Finish row_id "string option" date

fun lease_apply :: "lease_event \<Rightarrow> lease_row table \<Rightarrow> lease_row table" where
  "lease_apply (Try i j ws who) t = snd (lease_insert i j ws who t)"
| "lease_apply (Finish i err now) t = lease_finish i err now t"

fun lease_wins :: "string \<Rightarrow> date \<Rightarrow> lease_event list \<Rightarrow> lease_row table \<Rightarrow> nat" where
  "lease_wins j ws [] t = 0"
| "lease_wins j ws (e # es) t =
     (case e of Try i k v who \<Rightarrow> if k = j \<and> v = ws \<and> fst (lease_insert i k v who t) then 1 else 0 | Finish _ _ _ \<Rightarrow> 0)
     + lease_wins j ws es (lease_apply e t)"

definition tries :: "string \<Rightarrow> date \<Rightarrow> lease_event \<Rightarrow> bool" where
  "tries j ws e \<longleftrightarrow> (case e of Try _ k v _ \<Rightarrow> k = j \<and> v = ws | Finish _ _ _ \<Rightarrow> False)"

lemma find_lease_finish:
  "find_first (lease_of j ws) (lease_finish i err now t) =
      map_option (\<lambda>r. if cl_id r = i then (case err of
          None \<Rightarrow> r\<lparr>cl_status := Lease_done, cl_completedAt := Some now\<rparr>
        | Some e \<Rightarrow> r\<lparr>cl_status := Lease_failed, cl_completedAt := Some now, cl_errorMessage := Some (take 500 e)\<rparr>) else r)
        (find_first (lease_of j ws) t)"
  unfolding lease_finish_def by (rule find_first_update_where) (simp add: lease_of_def split: option.split)

lemma lease_kept:
  "find_first (lease_of j ws) t \<noteq> None \<Longrightarrow> find_first (lease_of j ws) (lease_apply e t) \<noteq> None"
proof (cases e)
  case (Try i k v who)
  assume "find_first (lease_of j ws) t \<noteq> None"
  then obtain r where "r \<in> set t" "lease_of j ws r" by (auto dest: find_first_Some)
  then show ?thesis using Try by (auto simp: lease_insert_def find_first_None)
qed (simp add: find_lease_finish)

lemma lease_absent:
  "find_first (lease_of j ws) t = None \<Longrightarrow> \<not> tries j ws e \<Longrightarrow> find_first (lease_of j ws) (lease_apply e t) = None"
  by (cases e) (auto simp: tries_def lease_insert_def find_lease_finish find_first_insert_other lease_of_def)

lemma no_win_when_taken: "find_first (lease_of j ws) t \<noteq> None \<Longrightarrow> lease_wins j ws es t = 0"
proof (induction es arbitrary: t)
  case (Cons e es)
  have "find_first (lease_of j ws) (lease_apply e t) \<noteq> None" by (rule lease_kept [OF Cons.prems])
  then show ?case using Cons by (auto simp: lease_insert_def split: lease_event.split)
qed simp



text \<open>
  Whoever comes second in the window changes nothing and is told how the first one ended.
\<close>

theorem second_cron_call_is_skipped:
  assumes "runCronOnce False jobName fn by1 (Some ws) i1 now1 st = (o1, st1)" "o1 \<noteq> Unregistered"
    "unique_key cl_id (ce_leases st)" "i1 \<notin> cl_id ` set (ce_leases st)" "find_first (lease_of jobName ws) (ce_leases st) = None"
  shows "runCronOnce False jobName fn' by2 (Some ws) i2 now2 st1 =
    (Skipped_run ws i1 (case o1 of Threw _ _ _ \<Rightarrow> Already_failed | _ \<Rightarrow> Already_done), st1)"
proof -
  obtain job where job: "getCronByJobName jobName = Some job"
    using assms(1,2) by (auto simp: runCronOnce_def split: option.splits)
  let ?row = "\<lparr>cl_id = i1, cl_jobName = jobName, cl_windowStart = ws, cl_acquiredBy = by1,
    cl_status = Lease_running, cl_completedAt = None, cl_errorMessage = None\<rparr>"
  let ?t = "insert_row ?row (ce_leases st)"
  let ?a = "fn (ce_app st)"
  let ?err = "case fst ?a of Inl e \<Rightarrow> Some e | Inr _ \<Rightarrow> None"
  have ins: "lease_insert i1 jobName ws by1 (ce_leases st) = (True, ?t)" using assms(5) by (simp add: lease_insert_def)
  have st1: "ce_leases st1 = lease_finish i1 ?err now1 ?t"
    "(case o1 of Threw _ _ _ \<Rightarrow> Already_failed | _ \<Rightarrow> Already_done) = (case ?err of None \<Rightarrow> Already_done | Some _ \<Rightarrow> Already_failed)"
  proof -
    have run: "runCronOnce False jobName fn by1 (Some ws) i1 now1 st = (case ?a of
         (Inr r, a) \<Rightarrow> (Ran ws i1 r, send_beat (cj_healthcheckEnv job) Beat_success
           (send_beat (cj_healthcheckEnv job) Beat_start (st\<lparr>ce_leases := ?t\<rparr>)\<lparr>ce_app := a, ce_leases := lease_finish i1 None now1 ?t\<rparr>))
       | (Inl e, a) \<Rightarrow> (Threw ws i1 e, send_beat (cj_healthcheckEnv job) Beat_fail
           (send_beat (cj_healthcheckEnv job) Beat_start (st\<lparr>ce_leases := ?t\<rparr>)\<lparr>ce_app := a, ce_leases := lease_finish i1 (Some e) now1 ?t\<rparr>)))"
      by (simp add: runCronOnce_def job ins Let_def split: prod.split sum.split)
    obtain x a where x: "?a = (x, a)" by (cases ?a)
    have "ce_leases st1 = lease_finish i1 ?err now1 ?t \<and>
      (case o1 of Threw _ _ _ \<Rightarrow> Already_failed | _ \<Rightarrow> Already_done) = (case ?err of None \<Rightarrow> Already_done | Some _ \<Rightarrow> Already_failed)"
      using assms(1) unfolding run x by (cases x) auto
    then show "ce_leases st1 = lease_finish i1 ?err now1 ?t"
      "(case o1 of Threw _ _ _ \<Rightarrow> Already_failed | _ \<Rightarrow> Already_done) = (case ?err of None \<Rightarrow> Already_done | Some _ \<Rightarrow> Already_failed)"
      by simp_all
  qed
  have row: "find_first (lease_of jobName ws) ?t = Some ?row"
    using assms(5) by (simp add: find_first_insert_new lease_of_def)
  have "find_first (lease_of jobName ws) (ce_leases st1) = Some (case ?err of
          None \<Rightarrow> ?row\<lparr>cl_status := Lease_done, cl_completedAt := Some now1\<rparr>
        | Some e \<Rightarrow> ?row\<lparr>cl_status := Lease_failed, cl_completedAt := Some now1, cl_errorMessage := Some (take 500 e)\<rparr>)"
    unfolding st1 find_lease_finish row by simp
  then show ?thesis
    by (auto simp: runCronOnce_def job lease_insert_def skip_reason_of_def st1(2) Let_def split: option.split)
qed

theorem second_cron_call_is_skipped_witness:
  "fst (runCronOnce False ''user-purge'' (\<lambda>n. (Inr (), n + 1)) ''http'' (Some 9) ''2'' 4
     (snd (runCronOnce False ''user-purge'' (\<lambda>n. (Inr (), n + 1)) ''worker'' (Some 9) ''1'' 3
       \<lparr>ce_leases = [], ce_beats = [], ce_app = 0 :: nat\<rparr>))) = Skipped_run 9 ''1'' Already_done"
proof -
  let ?st = "\<lparr>ce_leases = [], ce_beats = [], ce_app = 0 :: nat\<rparr>"
  let ?run = "runCronOnce False ''user-purge'' (\<lambda>n. (Inr (), n + 1)) ''worker'' (Some 9) ''1'' 3 ?st"
  have o: "fst ?run = Ran 9 ''1'' ()" by code_simp
  then have run: "?run = (Ran 9 ''1'' (), snd ?run)" by (metis prod.collapse)
  have "Ran 9 ''1'' () \<noteq> Unregistered" "unique_key cl_id (ce_leases ?st)" "''1'' \<notin> cl_id ` set (ce_leases ?st)"
    "find_first (lease_of ''user-purge'' 9) (ce_leases ?st) = None" by simp_all
  from second_cron_call_is_skipped [OF run this, of "\<lambda>n. (Inr (), n + 1)" "''http''" "''2''" 4]
  show ?thesis by (simp only: fst_conv cron_outcome.case)
qed

end
