(* ===== verification/PolicyGroups.thy ===== *)
theory PolicyGroups
  imports PolicyAccess "HOL-Library.AList"
begin

text \<open>
  The folders of policies: the parent relation and its guard against cycles
  (\<open>src/src/lib/policy-group-hierarchy.ts\<close>), and the routes under \<open>src/src/app/api/policy-groups\<close>. The
  parent id is a plain column, so nothing but this code keeps the groups a forest.
\<close>

section \<open>Walking up\<close>

definition MAX_GROUP_DEPTH :: nat where "MAX_GROUP_DEPTH = 256"

text \<open>
  The inner loop: \<open>visited\<close> is the set of groups passed so far, latest first; the loop ends because
  it stops once that set is too large.
\<close>

function climbs :: "(row_id \<Rightarrow> row_id option) \<Rightarrow> row_id list \<Rightarrow> row_id option \<Rightarrow> bool" where
  "climbs parentOf visited current =
     (case or_null current of
        None \<Rightarrow> False
      | Some c \<Rightarrow>
          if c \<in> set visited \<or> MAX_GROUP_DEPTH < length visited then True
          else climbs parentOf (c # visited) (parentOf c))"
  by pat_completeness auto
termination by (relation "measure (\<lambda>(_, visited, _). Suc MAX_GROUP_DEPTH - length visited)") auto

declare climbs.simps [simp del]

text \<open>A map built by successive \<open>set\<close>s: an existing key keeps its place.\<close>

definition js_map :: "('k \<times> 'v) list \<Rightarrow> ('k \<times> 'v) list" where
  "js_map kvs = fold (\<lambda>(k, v) m. AList.update k v m) kvs []"

definition edited_parent :: "(row_id \<times> row_id option) list \<Rightarrow> (row_id \<Rightarrow> row_id option) \<Rightarrow> row_id \<Rightarrow> row_id option" where
  "edited_parent edits lookup i = (case map_of edits i of Some p \<Rightarrow> p | None \<Rightarrow> lookup i)"

definition wouldCreateParentCycle :: "(row_id \<times> row_id option) list \<Rightarrow> (row_id \<Rightarrow> row_id option) \<Rightarrow> bool" where
  "wouldCreateParentCycle edits lookup \<longleftrightarrow>
     list_ex (\<lambda>(i, p). climbs (edited_parent edits lookup) [i] p) edits"

section \<open>The tree\<close>

type_synonym declared_parents = "(row_id \<times> row_id option) list"

function reaches :: "declared_parents \<Rightarrow> row_id list \<Rightarrow> row_id option \<Rightarrow> bool" where
  "reaches declared visited current =
     (case or_null current of
        None \<Rightarrow> True
      | Some c \<Rightarrow>
          if c \<notin> set (map fst declared) then True
          else if c \<in> set visited then False
          else reaches declared (c # visited) (the (map_of declared c)))"
  by pat_completeness auto
termination
proof (relation "measure (\<lambda>(declared, visited, _). card (set (map fst declared) - set visited))", simp)
  fix declared :: declared_parents and visited current c
  assume "or_null current = Some c" "\<not> c \<notin> set (map fst declared)" "c \<notin> set visited"
  then have "set (map fst declared) - set (c # visited) \<subset> set (map fst declared) - set visited" by auto
  then have "card (set (map fst declared) - set (c # visited)) < card (set (map fst declared) - set visited)"
    by (intro psubset_card_mono) auto
  then show "((declared, c # visited, the (map_of declared c)), declared, visited, current)
      \<in> measure (\<lambda>(declared, visited, _). card (set (map fst declared) - set visited))" by simp
qed

declare reaches.simps [simp del]

definition reachesRoot :: "row_id \<Rightarrow> declared_parents \<Rightarrow> bool" where
  "reachesRoot i declared = reaches declared [i] (Option.bind (map_of declared i) id)"

definition resolveTreeParents :: "policy_group_row list \<Rightarrow> declared_parents" where
  "resolveTreeParents groups =
     (let declared = js_map (map (\<lambda>g. (g_id g, g_parentId g)) groups)
      in js_map (map (\<lambda>g. (g_id g, if reachesRoot (g_id g) declared then g_parentId g else None)) groups))"

text \<open>
  The nodes are shared objects whose \<open>children\<close> arrays the loop fills: \<open>hung\<close> are the children of each
  node in the order they were pushed, and \<open>roots\<close> the list returned.
\<close>

record group_forest =
  hung :: "row_id \<Rightarrow> policy_group_row list"
  roots :: "policy_group_row list"

definition hang :: "policy_group_row list \<Rightarrow> declared_parents \<Rightarrow> policy_group_row \<Rightarrow> group_forest \<Rightarrow> group_forest" where
  "hang groups parents g f =
     (let p = nullish (Option.bind (map_of parents (g_id g)) id) [] in
      if p \<in> g_id ` set groups then f\<lparr>hung := (hung f)(p := hung f p @ [g])\<rparr>
      else f\<lparr>roots := roots f @ [g]\<rparr>)"

definition link_groups :: "policy_group_row list \<Rightarrow> group_forest" where
  "link_groups groups = fold (hang groups (resolveTreeParents groups)) groups \<lparr>hung = (\<lambda>_. []), roots = []\<rparr>"

text \<open>
  What a reader of the result sees, for instance \<open>JSON.stringify\<close>: each node with its children below
  it. \<open>None\<close> is a walk deeper than there are groups, which only a cycle of objects can cause.
\<close>

datatype group_tree = Node (node_group: policy_group_row) (node_children: "group_tree list")

primrec unfold_tree :: "nat \<Rightarrow> (row_id \<Rightarrow> policy_group_row list) \<Rightarrow> policy_group_row \<Rightarrow> group_tree option" where
  "unfold_tree 0 ch g = None"
| "unfold_tree (Suc n) ch g = map_option (Node g) (those (map (unfold_tree n ch) (ch (g_id g))))"

definition buildGroupTree :: "policy_group_row list \<Rightarrow> group_tree list option" where
  "buildGroupTree groups =
     (let f = link_groups groups in those (map (unfold_tree (length groups) (hung f)) (roots f)))"

fun tree_ids :: "group_tree \<Rightarrow> row_id list" where
  "tree_ids (Node g ts) = g_id g # concat (map tree_ids ts)"

section \<open>Finding a group\<close>

definition own_group :: "store \<Rightarrow> user_id \<Rightarrow> row_id \<Rightarrow> policy_group_row option" where
  "own_group st userId i = find_first (\<lambda>g. g_id g = i \<and> g_userId g = Some userId) (groups_t st)"

definition group_in_teams :: "store \<Rightarrow> team_id list \<Rightarrow> row_id \<Rightarrow> policy_group_row option" where
  "group_in_teams st teamIds i =
     find_first (\<lambda>g. g_id g = i \<and> (case g_teamId g of None \<Rightarrow> False | Some t \<Rightarrow> t \<in> set teamIds)) (groups_t st)"

definition teams_of :: "store \<Rightarrow> user_id \<Rightarrow> team_id list" where
  "teams_of st userId = map tm_teamId (select_where (\<lambda>m. tm_userId m = userId) (members_t st))"

definition teams_administered :: "store \<Rightarrow> user_id \<Rightarrow> team_id list" where
  "teams_administered st userId =
     map tm_teamId (select_where (\<lambda>m. tm_userId m = userId \<and> tm_role m \<in> {Owner, Admin}) (members_t st))"

text \<open>The user's own group, or one of a team; the query for team groups runs only when there are teams.\<close>

definition parent_for :: "store \<Rightarrow> user_id \<Rightarrow> row_id \<Rightarrow> policy_group_row option" where
  "parent_for st userId i =
     (case own_group st userId i of Some g \<Rightarrow> Some g | None \<Rightarrow> group_in_teams st (teams_of st userId) i)"

definition editable_group :: "store \<Rightarrow> user_id \<Rightarrow> row_id \<Rightarrow> policy_group_row option" where
  "editable_group st userId i =
     (case own_group st userId i of Some g \<Rightarrow> Some g | None \<Rightarrow> group_in_teams st (teams_administered st userId) i)"

definition lookupGroupParent :: "store \<Rightarrow> row_id \<Rightarrow> row_id option" where
  "lookupGroupParent st i = Option.bind (find_first (\<lambda>g. g_id g = i) (groups_t st)) g_parentId"

section \<open>Creating a group\<close>

text \<open>
  The bodies carry strings, numbers and null where the routes expect them. In an edit \<open>None\<close> is a
  field left out and \<open>Some None\<close> is null.
\<close>

record group_body =
  gb_name :: "string option"
  gb_description :: "string option"
  gb_icon :: "string option"
  gb_parentId :: "string option"
  gb_teamId :: "string option"

definition max_sort_order :: "store \<Rightarrow> user_id \<Rightarrow> string option \<Rightarrow> string option \<Rightarrow> int" where
  "max_sort_order st userId parentId teamId =
     (let orders = map g_sortOrder (select_where (\<lambda>g. g_parentId g = or_null parentId \<and>
            (case or_null teamId of Some t \<Rightarrow> g_teamId g = Some t | None \<Rightarrow> g_userId g = Some userId)) (groups_t st))
      in if orders = [] then 0 else Max (set orders))"

definition created_group :: "user_id \<Rightarrow> string \<Rightarrow> group_body \<Rightarrow> row_id \<Rightarrow> store \<Rightarrow> policy_group_row" where
  "created_group userId name body newId st =
     \<lparr>g_id = newId, g_name = name, g_description = or_null (gb_description body), g_icon = or_null (gb_icon body),
      g_sortOrder = max_sort_order st userId (gb_parentId body) (gb_teamId body) + 1,
      g_parentId = or_null (gb_parentId body),
      g_userId = (if or_null (gb_teamId body) = None then Some userId else None),
      g_teamId = or_null (gb_teamId body), g_isSystem = False\<rparr>"

definition createGroup :: "user_id option \<Rightarrow> group_body \<Rightarrow> row_id \<Rightarrow> store \<Rightarrow> response \<times> store" where
  "createGroup session body newId st =
     (case session of
        None \<Rightarrow> (Reply 401 ''Unauthorized'', st)
      | Some userId \<Rightarrow>
     (case or_null (gb_name body) of
        None \<Rightarrow> (Reply 400 ''Name is required'', st)
      | Some name \<Rightarrow>
          if (case or_null (gb_parentId body) of None \<Rightarrow> False | Some p \<Rightarrow> parent_for st userId p = None)
          then (Reply 404 ''Parent group not found'', st)
          else if (case or_null (gb_teamId body) of None \<Rightarrow> False | Some t \<Rightarrow> getTeamMemberRole st userId t = None)
          then (Reply 403 ''Not a team member'', st)
          else (Reply 201 [],
            st\<lparr>groups_t := insert_row (created_group userId name body newId st) (groups_t st)\<rparr>)))"

section \<open>Changing a group\<close>

record group_edit =
  ge_name :: "string option option"
  ge_description :: "string option option"
  ge_icon :: "string option option"
  ge_parentId :: "string option option"
  ge_sortOrder :: "int option option"

text \<open>The part before the write; \<open>None\<close> lets the write go ahead.\<close>

definition edit_check :: "user_id \<Rightarrow> row_id \<Rightarrow> group_edit \<Rightarrow> store \<Rightarrow> response option" where
  "edit_check userId i edit st =
     (case editable_group st userId i of
        None \<Rightarrow> Some (Reply 404 ''Group not found'')
      | Some existing \<Rightarrow>
          if g_isSystem existing then Some (Reply 403 ''Cannot modify system group'')
          else
            (case ge_parentId edit of
               None \<Rightarrow> None
             | Some parentId \<Rightarrow>
                 if parentId = g_parentId existing then None
                 else if parentId = Some i then Some (Reply 400 ''Group cannot be its own parent'')
                 else
                   (case or_null parentId of
                      None \<Rightarrow> None
                    | Some p \<Rightarrow>
                        if parent_for st userId p = None then Some (Reply 404 ''Parent group not found'')
                        else if wouldCreateParentCycle [(i, Some p)] (lookupGroupParent st)
                        then Some (Reply 400 ''Cannot move group to its own descendant'')
                        else None)))"

definition edit_row :: "group_edit \<Rightarrow> policy_group_row \<Rightarrow> policy_group_row" where
  "edit_row edit g =
     g\<lparr>g_name := nullish (nullish (ge_name edit) None) (g_name g),
       g_description := nullish (ge_description edit) (g_description g),
       g_icon := nullish (ge_icon edit) (g_icon g),
       g_parentId := (case ge_parentId edit of None \<Rightarrow> g_parentId g | Some p \<Rightarrow> or_null p),
       g_sortOrder := nullish (nullish (ge_sortOrder edit) None) (g_sortOrder g)\<rparr>"

text \<open>
  The update fails when it sets a column that may not be null, or when no column is given (the query
  builder refuses an empty update), and on a row that is gone there is nothing to reply with.
\<close>

definition edit_write :: "row_id \<Rightarrow> group_edit \<Rightarrow> store \<Rightarrow> response \<times> store" where
  "edit_write i edit st =
     (if ge_name edit = Some None \<or> ge_sortOrder edit = Some None \<or>
         (ge_name edit = None \<and> ge_description edit = None \<and> ge_icon edit = None \<and> ge_parentId edit = None \<and> ge_sortOrder edit = None) \<or>
         find_first (\<lambda>g. g_id g = i) (groups_t st) = None
      then (Reply 500 ''Internal server error'', st)
      else (Reply 200 [], st\<lparr>groups_t := update_where (\<lambda>g. g_id g = i) (edit_row edit) (groups_t st)\<rparr>))"

definition updateGroup :: "user_id option \<Rightarrow> row_id \<Rightarrow> group_edit \<Rightarrow> store \<Rightarrow> response \<times> store" where
  "updateGroup session i edit st =
     (case session of
        None \<Rightarrow> (Reply 401 ''Unauthorized'', st)
      | Some userId \<Rightarrow> (case edit_check userId i edit st of Some r \<Rightarrow> (r, st) | None \<Rightarrow> edit_write i edit st))"

section \<open>Deleting a group\<close>

text \<open>What the user may see of a group's contents and children.\<close>

definition cascade_policy :: "store \<Rightarrow> user_id \<Rightarrow> policy_group_row \<Rightarrow> policy_row \<Rightarrow> bool" where
  "cascade_policy st userId grp p \<longleftrightarrow>
     ownPoliciesVisibleTo st userId p \<or>
     (case or_null (g_teamId grp) of None \<Rightarrow> False | Some t \<Rightarrow> p_teamId p = Some t)"

definition cascade_child :: "user_id \<Rightarrow> policy_group_row \<Rightarrow> policy_group_row \<Rightarrow> bool" where
  "cascade_child userId grp c \<longleftrightarrow>
     g_userId c = Some userId \<or>
     (case or_null (g_teamId grp) of None \<Rightarrow> False | Some t \<Rightarrow> g_teamId c = Some t)"

definition decision_for :: "(policy_id \<times> access_decision) list \<Rightarrow> policy_row \<Rightarrow> access_decision" where
  "decision_for decisions p = nullish (map_of (rev decisions) (p_id p)) POLICY_NOT_FOUND"

definition placeableInParent ::
  "store \<Rightarrow> row_id \<Rightarrow> row_id \<Rightarrow> (policy_row \<Rightarrow> bool) \<Rightarrow> user_id \<Rightarrow> policy_id list" where
  "placeableInParent st groupId parentId scope userId =
     (case find_first (\<lambda>g. g_id g = parentId) (groups_t st) of
        None \<Rightarrow> []
      | Some parent \<Rightarrow>
          let candidates = select_where (\<lambda>p. p_groupId p = Some groupId \<and> scope p) (policies_t st);
              decisions = authorizePolicyActions st \<lparr>pa_userId = userId, pa_keyTeamId = None\<rparr> candidates ActUpdate
          in map p_id (filter (\<lambda>p. canPlaceInGroup (decision_for decisions p) p parent) candidates))"

definition move_policies :: "user_id \<Rightarrow> policy_group_row \<Rightarrow> row_id \<Rightarrow> store \<Rightarrow> store" where
  "move_policies userId grp parentId st =
     (let movable = placeableInParent st (g_id grp) parentId (cascade_policy st userId grp) userId in
      st\<lparr>policies_t := update_where
           (\<lambda>p. p_groupId p = Some (g_id grp) \<and> p_id p \<in> set movable \<and> cascade_policy st userId grp p)
           (\<lambda>p. p\<lparr>p_groupId := Some parentId\<rparr>) (policies_t st)\<rparr>)"

definition detach_policies :: "row_id \<Rightarrow> store \<Rightarrow> store" where
  "detach_policies i st =
     st\<lparr>policies_t := update_where (\<lambda>p. p_groupId p = Some i) (\<lambda>p. p\<lparr>p_groupId := None\<rparr>) (policies_t st)\<rparr>"

definition move_children :: "user_id \<Rightarrow> policy_group_row \<Rightarrow> row_id \<Rightarrow> store \<Rightarrow> store" where
  "move_children userId grp parentId st =
     st\<lparr>groups_t := update_where (\<lambda>c. g_parentId c = Some (g_id grp) \<and> cascade_child userId grp c)
          (\<lambda>c. c\<lparr>g_parentId := Some parentId\<rparr>) (groups_t st)\<rparr>"

definition detach_children :: "row_id \<Rightarrow> store \<Rightarrow> store" where
  "detach_children i st =
     st\<lparr>groups_t := update_where (\<lambda>c. g_parentId c = Some i) (\<lambda>c. c\<lparr>g_parentId := None\<rparr>) (groups_t st)\<rparr>"

definition delete_group_tx :: "user_id \<Rightarrow> policy_group_row \<Rightarrow> bool \<Rightarrow> bool \<Rightarrow> store \<Rightarrow> store" where
  "delete_group_tx userId grp movePolicies moveChildren st =
     (let parent = or_null (g_parentId grp);
          st1 = (case parent of Some p \<Rightarrow> if movePolicies then move_policies userId grp p st else st | None \<Rightarrow> st);
          st2 = detach_policies (g_id grp) st1;
          st3 = (case parent of Some p \<Rightarrow> if moveChildren then move_children userId grp p st2 else st2 | None \<Rightarrow> st2);
          st4 = detach_children (g_id grp) st3
      in st4\<lparr>groups_t := delete_where (\<lambda>g. g_id g = g_id grp) (groups_t st4)\<rparr>)"

text \<open>The options of the body default to true.\<close>

definition deleteGroup :: "user_id option \<Rightarrow> row_id \<Rightarrow> bool option \<Rightarrow> bool option \<Rightarrow> store \<Rightarrow> response \<times> store" where
  "deleteGroup session i movePolicies moveChildren st =
     (case session of
        None \<Rightarrow> (Reply 401 ''Unauthorized'', st)
      | Some userId \<Rightarrow>
     (case editable_group st userId i of
        None \<Rightarrow> (Reply 404 ''Group not found'', st)
      | Some grp \<Rightarrow>
          if g_isSystem grp then (Reply 403 ''Cannot delete system group'', st)
          else (Reply 200 [], delete_group_tx userId grp (nullish movePolicies True) (nullish moveChildren True) st)))"

section \<open>Reordering\<close>

record group_order =
  go_id :: row_id
  go_sortOrder :: int
  go_parentId :: "string option option"

definition parent_edits :: "group_order list \<Rightarrow> (row_id \<times> row_id option) list" where
  "parent_edits orders =
     js_map (List.map_filter (\<lambda>x. map_option (\<lambda>p. (go_id x, or_null p)) (go_parentId x)) orders)"

definition order_row :: "group_order \<Rightarrow> policy_group_row \<Rightarrow> policy_group_row" where
  "order_row x g =
     g\<lparr>g_sortOrder := go_sortOrder x,
       g_parentId := (case go_parentId x of None \<Rightarrow> g_parentId g | Some p \<Rightarrow> or_null p)\<rparr>"

definition reorder_check :: "user_id \<Rightarrow> group_order list \<Rightarrow> store \<Rightarrow> response option" where
  "reorder_check userId orders st =
     (if orders = [] then Some (Reply 400 ''Orders array is required'')
      else
        let orderIds = map go_id orders;
            parentIds = List.map_filter (\<lambda>x. or_null (nullish (go_parentId x) None)) orders;
            groupIds = dedup (orderIds @ parentIds);
            userGroups = select_where (\<lambda>g. g_id g \<in> set groupIds \<and> g_userId g = Some userId) (groups_t st);
            teamGroups = select_where (\<lambda>g. g_id g \<in> set groupIds \<and>
              (case g_teamId g of None \<Rightarrow> False | Some t \<Rightarrow> t \<in> set (teams_administered st userId))) (groups_t st);
            groups = userGroups @ teamGroups
        in if \<exists>i \<in> set groupIds. i \<notin> g_id ` set groups then Some (Reply 404 ''Groups not found or no permission'')
           else if \<exists>g \<in> set groups. g_isSystem g \<and> g_id g \<in> set orderIds then Some (Reply 403 ''Cannot reorder system groups'')
           else if wouldCreateParentCycle (parent_edits orders) (lookupGroupParent st)
           then Some (Reply 400 ''Cannot move group to its own descendant'')
           else None)"

definition reorder_tx :: "group_order list \<Rightarrow> store \<Rightarrow> store" where
  "reorder_tx orders st =
     st\<lparr>groups_t := fold (\<lambda>x. update_where (\<lambda>g. g_id g = go_id x) (order_row x)) orders (groups_t st)\<rparr>"

definition reorderGroups :: "user_id option \<Rightarrow> group_order list \<Rightarrow> store \<Rightarrow> response \<times> store" where
  "reorderGroups session orders st =
     (case session of
        None \<Rightarrow> (Reply 401 ''Unauthorized'', st)
      | Some userId \<Rightarrow>
          (case reorder_check userId orders st of
             Some r \<Rightarrow> (r, st) | None \<Rightarrow> (Reply 200 [], reorder_tx orders st)))"

section \<open>Policies in a group\<close>

definition MAX_POLICY_IDS :: nat where "MAX_POLICY_IDS = 100"

fun json_strings :: "json list \<Rightarrow> string list option" where
  "json_strings [] = Some []"
| "json_strings (JStr s # xs) = (if s = [] then None else map_option (Cons s) (json_strings xs))"
| "json_strings (_ # xs) = None"

definition parsePolicyIds :: "json \<Rightarrow> policy_id list option" where
  "parsePolicyIds body =
     (case jfield ''policyIds'' body of
        Some (JArr raw) \<Rightarrow>
          if raw = [] \<or> MAX_POLICY_IDS < length raw then None else map_option dedup (json_strings raw)
      | _ \<Rightarrow> None)"

definition may_use_group :: "store \<Rightarrow> user_id \<Rightarrow> policy_group_row \<Rightarrow> bool" where
  "may_use_group st userId grp \<longleftrightarrow>
     g_userId grp = Some userId \<or>
     (case or_null (g_teamId grp) of None \<Rightarrow> False | Some t \<Rightarrow> getTeamMemberRole st userId t \<noteq> None)"

text \<open>The gates both routes share: session, body, group and permission.\<close>

definition group_request ::
  "user_id option \<Rightarrow> row_id \<Rightarrow> json \<Rightarrow> store \<Rightarrow> response + (user_id \<times> policy_id list \<times> policy_group_row)" where
  "group_request session groupId body st =
     (case session of
        None \<Rightarrow> Inl (Reply 401 ''Unauthorized'')
      | Some userId \<Rightarrow>
     (case parsePolicyIds body of
        None \<Rightarrow> Inl (Reply 400 ''invalid_policy_ids'')
      | Some policyIds \<Rightarrow>
     (case find_first (\<lambda>g. g_id g = groupId) (groups_t st) of
        None \<Rightarrow> Inl (Reply 404 ''Group not found'')
      | Some grp \<Rightarrow>
          if may_use_group st userId grp then Inr (userId, policyIds, grp) else Inl (Reply 404 ''Group not found''))))"

definition addPolicies :: "user_id option \<Rightarrow> row_id \<Rightarrow> json \<Rightarrow> store \<Rightarrow> response \<times> store" where
  "addPolicies session groupId body st =
     (case group_request session groupId body st of
        Inl r \<Rightarrow> (r, st)
      | Inr (userId, policyIds, grp) \<Rightarrow>
          let candidates = select_where (\<lambda>p. p_id p \<in> set policyIds \<and> p_deletedAt p = None) (policies_t st);
              decisions = authorizePolicyActions st \<lparr>pa_userId = userId, pa_keyTeamId = None\<rparr> candidates ActUpdate;
              allowed = map p_id (filter (\<lambda>p. canPlaceInGroup (decision_for decisions p) p grp) candidates)
          in if \<exists>i \<in> set policyIds. i \<notin> set allowed then (Reply 404 ''Policies not found'', st)
             else (Reply 200 [], st\<lparr>policies_t := update_where (\<lambda>p. p_id p \<in> set allowed)
               (\<lambda>p. p\<lparr>p_groupId := Some groupId\<rparr>) (policies_t st)\<rparr>))"

definition removePolicies :: "user_id option \<Rightarrow> row_id \<Rightarrow> json \<Rightarrow> store \<Rightarrow> response \<times> store" where
  "removePolicies session groupId body st =
     (case group_request session groupId body st of
        Inl r \<Rightarrow> (r, st)
      | Inr (userId, policyIds, grp) \<Rightarrow>
          let inGroup = select_where (\<lambda>p. p_id p \<in> set policyIds \<and> p_groupId p = Some groupId) (policies_t st);
              decisions = authorizePolicyActions st \<lparr>pa_userId = userId, pa_keyTeamId = None\<rparr> inGroup ActUpdate;
              removable = map p_id (filter (\<lambda>p. is_allowed (decision_for decisions p)) inGroup)
          in (Reply 200 [], st\<lparr>policies_t := update_where (\<lambda>p. p_id p \<in> set removable \<and> p_groupId p = Some groupId)
               (\<lambda>p. p\<lparr>p_groupId := None\<rparr>) (policies_t st)\<rparr>))"

section \<open>Listing\<close>

definition by_order :: "policy_group_row list \<Rightarrow> policy_group_row list" where
  "by_order gs = sort_key g_sortOrder (sort_key g_name gs)"

definition visible_groups :: "store \<Rightarrow> user_id \<Rightarrow> policy_group_row list" where
  "visible_groups st userId =
     (let userGroups = by_order (select_where (\<lambda>g. g_userId g = Some userId) (groups_t st));
          systemGroups = by_order (select_where g_isSystem (groups_t st));
          teamGroups = by_order (select_where (\<lambda>g. case g_teamId g of None \<Rightarrow> False
            | Some t \<Rightarrow> t \<in> set (teams_of st userId)) (groups_t st));
          merged = userGroups @ systemGroups @ teamGroups
      in map snd (fold (\<lambda>g m. if g_id g \<in> set (map fst m) then m else m @ [(g_id g, g)]) merged []))"

definition policies_in_group :: "store \<Rightarrow> user_id \<Rightarrow> row_id \<Rightarrow> nat" where
  "policies_in_group st userId i =
     count_where (\<lambda>p. p_groupId p = Some i \<and>
       (ownPoliciesVisibleTo st userId p \<or> (case p_teamId p of None \<Rightarrow> False | Some t \<Rightarrow> t \<in> set (teams_of st userId))) \<and>
       p_deletedAt p = None) (policies_t st)"

definition listGroups :: "store \<Rightarrow> user_id \<Rightarrow> group_tree list option \<times> (policy_group_row \<times> nat) list" where
  "listGroups st userId =
     (let groups = visible_groups st userId
      in (buildGroupTree groups, map (\<lambda>g. (g, policies_in_group st userId (g_id g))) groups))"

end
