(* ===== verification/PolicyGroupFacts.thy ===== *)
theory PolicyGroupFacts
  imports PolicyGroups "HOL-Library.Multiset"
begin

text \<open>
  Facts about the folders of policies: the guard against cycles is sound and exact, the tree that is
  shown holds every group once whatever the rows say, every sequence of requests keeps the groups a
  forest and team policies in folders of their team, and what overlapping requests can still do.
\<close>

section \<open>The guard against cycles\<close>

text \<open>The edges from a group to its parent; a parent id need not be the id of a group.\<close>

definition up :: "(row_id \<Rightarrow> row_id option) \<Rightarrow> (row_id \<times> row_id) set" where
  "up f = {(i, c). or_null (f i) = Some c}"

lemma climbs_avoids:
  "\<not> climbs f visited current \<Longrightarrow> or_null current = Some c \<Longrightarrow> (c, x) \<in> (up f)\<^sup>* \<Longrightarrow> x \<notin> set visited"
proof (induction f visited current arbitrary: c x rule: climbs.induct)
  case (1 f visited current)
  have c: "c \<notin> set visited" and rest: "\<not> climbs f (c # visited) (f c)" and d: "\<not> (c \<in> set visited \<or> MAX_GROUP_DEPTH < length visited)"
    using "1.prems"(1,2) by (auto simp: climbs.simps [of f visited current] split: if_splits)
  show ?case
  proof (cases "x = c")
    case True
    then show ?thesis using c by simp
  next
    case False
    then obtain e where e: "(c, e) \<in> up f" "(e, x) \<in> (up f)\<^sup>*" using "1.prems"(3) by (metis converse_rtranclE)
    then have "or_null (f c) = Some e" by (simp add: up_def)
    from "1.IH" [OF "1.prems"(2) d rest this e(2)] show ?thesis by simp
  qed
qed

lemma path_avoiding_edits:
  assumes "(x, y) \<in> (up (edited_parent edits lookup))\<^sup>+"
    "\<And>i. (x, i) \<in> (up (edited_parent edits lookup))\<^sup>* \<Longrightarrow> (i, y) \<in> (up (edited_parent edits lookup))\<^sup>* \<Longrightarrow> map_of edits i = None"
  shows "(x, y) \<in> (up lookup)\<^sup>+"
  using assms
proof (induction rule: converse_trancl_induct)
  case (base x)
  then have "map_of edits x = None" by (auto simp: r_into_rtrancl)
  then show ?case using base(1) by (auto simp: up_def edited_parent_def)
next
  case (step x z)
  have "map_of edits x = None" using step.prems step.hyps by (meson converse_rtrancl_into_rtrancl rtrancl.rtrancl_refl trancl_into_rtrancl)
  then have "(x, z) \<in> up lookup" using step.hyps(1) by (simp add: up_def edited_parent_def)
  moreover have "(z, y) \<in> (up lookup)\<^sup>+"
    by (rule step.IH) (meson step.hyps(1) step.prems converse_rtrancl_into_rtrancl)
  ultimately show ?case by (rule trancl_into_trancl2)
qed

lemma guard_sound:
  assumes "acyclic (up lookup)" "\<not> wouldCreateParentCycle edits lookup"
  shows "acyclic (up (edited_parent edits lookup))"
proof (rule acyclicI, rule allI, rule notI)
  let ?f = "edited_parent edits lookup"
  fix x assume x: "(x, x) \<in> (up ?f)\<^sup>+"
  have "map_of edits i = None" if i: "(x, i) \<in> (up ?f)\<^sup>*" "(i, x) \<in> (up ?f)\<^sup>*" for i
  proof (rule ccontr)
    assume "map_of edits i \<noteq> None"
    then obtain p where p: "map_of edits i = Some p" by blast
    have "(i, i) \<in> (up ?f)\<^sup>+" using i x by (meson rtrancl_trancl_trancl trancl_rtrancl_trancl)
    then obtain c where c: "(i, c) \<in> up ?f" "(c, i) \<in> (up ?f)\<^sup>*" by (meson tranclD)
    have "or_null p = Some c" using c(1) p by (simp add: up_def edited_parent_def)
    moreover have "\<not> climbs ?f [i] p"
      using assms(2) map_of_SomeD [OF p] by (auto simp: wouldCreateParentCycle_def list_ex_iff)
    ultimately show False using climbs_avoids [OF _ _ c(2)] by fastforce
  qed
  then have "(x, x) \<in> (up lookup)\<^sup>+" by (rule path_avoiding_edits [OF x])
  then show False using assms(1) by (simp add: acyclic_def)
qed

section \<open>The tree shows every group once\<close>

lemma js_map_snoc: "js_map (kvs @ [(k, v)]) = AList.update k v (js_map kvs)"
  by (simp add: js_map_def)

lemma map_of_js_map: "map_of (js_map kvs) = map_of (rev kvs)"
proof (induction kvs rule: rev_induct)
  case (snoc x xs)
  then show ?case by (cases x) (simp add: js_map_snoc update_conv')
qed (simp add: js_map_def)

lemma keys_js_map [simp]: "set (map fst (js_map kvs)) = fst ` set kvs"
proof (induction kvs rule: rev_induct)
  case (snoc x xs)
  then show ?case by (cases x) (simp add: js_map_snoc AList.dom_update)
qed (simp add: js_map_def)

lemma map_of_keyed:
  assumes "distinct (map g_id groups)" "g \<in> set groups"
  shows "map_of (js_map (map (\<lambda>g. (g_id g, v g)) groups)) (g_id g) = Some (v g)"
proof -
  let ?kvs = "rev (map (\<lambda>g. (g_id g, v g)) groups)"
  have "distinct (map fst ?kvs)" using assms(1) by (simp add: comp_def flip: rev_map)
  moreover have "(g_id g, v g) \<in> set ?kvs" using assms(2) by auto
  ultimately show ?thesis unfolding map_of_js_map by (rule map_of_is_SomeI)
qed

text \<open>The edges the tree is built of: the parent of a group is in the list and the walk up ends.\<close>

definition declared_of :: "policy_group_row list \<Rightarrow> declared_parents" where
  "declared_of groups = js_map (map (\<lambda>g. (g_id g, g_parentId g)) groups)"

definition tree_edges :: "policy_group_row list \<Rightarrow> (row_id \<times> row_id) set" where
  "tree_edges groups = {(g_id g, p) | g p. g \<in> set groups \<and> g_parentId g = Some p \<and> p \<in> g_id ` set groups \<and>
     reachesRoot (g_id g) (declared_of groups)}"

lemma reaches_avoids:
  assumes "distinct (map g_id groups)" "[] \<notin> g_id ` set groups"
  shows "reaches (declared_of groups) visited current \<Longrightarrow> current = Some c \<Longrightarrow> c \<in> g_id ` set groups \<Longrightarrow>
    (c, x) \<in> (tree_edges groups)\<^sup>* \<Longrightarrow> x \<notin> set visited"
proof (induction "declared_of groups" visited current arbitrary: c x rule: reaches.induct)
  case (1 visited current)
  have or: "or_null current = Some c" using "1.prems"(2,3) assms(2) by (metis or_null_Some)
  have keys: "set (map fst (declared_of groups)) = g_id ` set groups"
    unfolding declared_of_def keys_js_map by (simp add: image_image)
  have c: "c \<notin> set visited" and rest: "reaches (declared_of groups) (c # visited) (the (map_of (declared_of groups) c))"
    using "1.prems"(1,3) or keys by (auto simp: reaches.simps [of _ visited current] split: if_splits)
  show ?case
  proof (cases "x = c")
    case True
    then show ?thesis using c by simp
  next
    case False
    then obtain e where e: "(c, e) \<in> tree_edges groups" "(e, x) \<in> (tree_edges groups)\<^sup>*"
      using "1.prems"(4) by (metis converse_rtranclE)
    then obtain g where g: "g \<in> set groups" "g_id g = c" "g_parentId g = Some e" "e \<in> g_id ` set groups"
      by (auto simp: tree_edges_def)
    have "map_of (declared_of groups) c = Some (Some e)"
      using map_of_keyed [OF assms(1) g(1), of g_parentId] g(2,3) by (simp add: declared_of_def)
    then have "the (map_of (declared_of groups) c) = Some e" by simp
    from "1.hyps" [OF or _ c rest this g(4) e(2)] show ?thesis using "1.prems"(3) keys by simp
  qed
qed

lemma tree_edges_acyclic:
  assumes "distinct (map g_id groups)" "[] \<notin> g_id ` set groups"
  shows "acyclic (tree_edges groups)"
proof (rule acyclicI, rule allI, rule notI)
  fix x assume "(x, x) \<in> (tree_edges groups)\<^sup>+"
  then obtain p where p: "(x, p) \<in> tree_edges groups" "(p, x) \<in> (tree_edges groups)\<^sup>*" by (meson tranclD)
  then obtain g where g: "g \<in> set groups" "g_id g = x" "g_parentId g = Some p" "p \<in> g_id ` set groups"
    "reachesRoot x (declared_of groups)" by (auto simp: tree_edges_def)
  have "reaches (declared_of groups) [x] (Some p)"
    using g(5) map_of_keyed [OF assms(1) g(1), of g_parentId] g(2,3)
    by (simp add: reachesRoot_def declared_of_def)
  from reaches_avoids [OF assms this refl g(4) p(2)] show False by simp
qed

lemma same_group:
  "distinct (map g_id groups) \<Longrightarrow> g \<in> set groups \<Longrightarrow> h \<in> set groups \<Longrightarrow> g_id g = g_id h \<Longrightarrow> g = h"
  by (simp add: distinct_map inj_on_def)

lemma tree_edges_single:
  assumes "distinct (map g_id groups)" "(x, p) \<in> tree_edges groups" "(x, q) \<in> tree_edges groups"
  shows "p = q"
proof -
  obtain g h where "g \<in> set groups" "g_id g = x" "g_parentId g = Some p" "h \<in> set groups" "g_id h = x" "g_parentId h = Some q"
    using assms(2,3) by (auto simp: tree_edges_def)
  moreover from this have "g = h" using same_group [OF assms(1)] by simp
  ultimately show ?thesis by simp
qed

lemma tree_edges_ids: "(x, p) \<in> tree_edges groups \<Longrightarrow> x \<in> g_id ` set groups \<and> p \<in> g_id ` set groups"
  by (auto simp: tree_edges_def)

lemma finite_tree_edges: "finite (tree_edges groups)"
  by (rule finite_subset [of _ "g_id ` set groups \<times> g_id ` set groups"]) (auto dest: tree_edges_ids)

definition hung_under :: "policy_group_row list \<Rightarrow> row_id \<Rightarrow> policy_group_row list" where
  "hung_under groups p = filter (\<lambda>g. (g_id g, p) \<in> tree_edges groups) groups"

definition at_top :: "policy_group_row list \<Rightarrow> policy_group_row list" where
  "at_top groups = filter (\<lambda>g. g_id g \<notin> fst ` tree_edges groups) groups"

lemma tree_edge_iff:
  assumes "distinct (map g_id groups)" "[] \<notin> g_id ` set groups" "g \<in> set groups"
  shows "(g_id g, p) \<in> tree_edges groups \<longleftrightarrow>
    p \<in> g_id ` set groups \<and> nullish (Option.bind (map_of (resolveTreeParents groups) (g_id g)) id) [] = p"
proof -
  have r: "map_of (resolveTreeParents groups) (g_id g) =
      Some (if reachesRoot (g_id g) (declared_of groups) then g_parentId g else None)"
    unfolding resolveTreeParents_def Let_def declared_of_def [symmetric] by (rule map_of_keyed [OF assms(1,3)])
  have same: "h = g" if "h \<in> set groups" "g_id h = g_id g" for h using same_group [OF assms(1)] that assms(3) by blast
  show ?thesis
  proof
    assume "(g_id g, p) \<in> tree_edges groups"
    then obtain h where h: "h \<in> set groups" "g_id h = g_id g" "g_parentId h = Some p" "p \<in> g_id ` set groups"
      "reachesRoot (g_id h) (declared_of groups)" unfolding tree_edges_def by auto
    then show "p \<in> g_id ` set groups \<and> nullish (Option.bind (map_of (resolveTreeParents groups) (g_id g)) id) [] = p"
      using same r by fastforce
  next
    assume p: "p \<in> g_id ` set groups \<and> nullish (Option.bind (map_of (resolveTreeParents groups) (g_id g)) id) [] = p"
    then have "p \<noteq> []" using assms(2) by metis
    then have "reachesRoot (g_id g) (declared_of groups)" "g_parentId g = Some p"
      using p unfolding r by (auto simp: nullish_def split: if_splits option.splits)
    then show "(g_id g, p) \<in> tree_edges groups" using p assms(3) unfolding tree_edges_def by blast
  qed
qed

lemma hang_all:
  assumes "distinct (map g_id groups)" "[] \<notin> g_id ` set groups" "set gs \<subseteq> set groups"
  shows "fold (hang groups (resolveTreeParents groups)) gs f =
    \<lparr>hung = (\<lambda>p. hung f p @ filter (\<lambda>g. (g_id g, p) \<in> tree_edges groups) gs),
     roots = roots f @ filter (\<lambda>g. g_id g \<notin> fst ` tree_edges groups) gs\<rparr>"
  using assms(3)
proof (induction gs arbitrary: f)
  case (Cons g gs)
  note e = tree_edge_iff [OF assms(1,2), of g]
  let ?p = "nullish (Option.bind (map_of (resolveTreeParents groups) (g_id g)) id) []"
  have g: "g \<in> set groups" using Cons.prems by simp
  have IH: "fold (hang groups (resolveTreeParents groups)) gs f' =
    \<lparr>hung = (\<lambda>p. hung f' p @ filter (\<lambda>g. (g_id g, p) \<in> tree_edges groups) gs),
     roots = roots f' @ filter (\<lambda>g. g_id g \<notin> fst ` tree_edges groups) gs\<rparr>" for f'
    using Cons.IH Cons.prems by simp
  show ?case
  proof (cases "?p \<in> g_id ` set groups")
    case True
    then have q: "(g_id g, q) \<in> tree_edges groups \<longleftrightarrow> q = ?p" for q using e [OF g, of q] by metis
    then have "(g_id g, ?p) \<in> tree_edges groups" by simp
    then have d: "g_id g \<in> fst ` tree_edges groups" by (metis fst_conv image_eqI)
    have h: "hang groups (resolveTreeParents groups) g f = f\<lparr>hung := (hung f)(?p := hung f ?p @ [g])\<rparr>"
      unfolding hang_def Let_def using True by (rule if_P)
    show ?thesis unfolding fold_simps comp_def IH h by (simp add: d q fun_eq_iff)
  next
    case False
    then have q: "(g_id g, q) \<notin> tree_edges groups" for q using e [OF g, of q] by metis
    then have d: "g_id g \<notin> fst ` tree_edges groups" by (metis imageE prod.collapse)
    have h: "hang groups (resolveTreeParents groups) g f = f\<lparr>roots := roots f @ [g]\<rparr>"
      unfolding hang_def Let_def using False by (rule if_not_P)
    show ?thesis unfolding fold_simps comp_def IH h by (simp add: d q fun_eq_iff)
  qed
qed simp

lemma link_groups_eq:
  assumes "distinct (map g_id groups)" "[] \<notin> g_id ` set groups"
  shows "hung (link_groups groups) = hung_under groups" "roots (link_groups groups) = at_top groups"
  using hang_all [OF assms subset_refl] by (simp_all add: link_groups_def hung_under_def at_top_def fun_eq_iff)

text \<open>The groups below a group, itself not included.\<close>

definition below :: "policy_group_row list \<Rightarrow> row_id \<Rightarrow> row_id set" where
  "below groups i = {x. (x, i) \<in> (tree_edges groups)\<^sup>+}"

abbreviation under :: "policy_group_row list \<Rightarrow> row_id \<Rightarrow> row_id set" where
  "under groups i \<equiv> insert i (below groups i)"

lemma under_iff: "x \<in> under groups i \<longleftrightarrow> (x, i) \<in> (tree_edges groups)\<^sup>*"
  by (auto simp: below_def rtrancl_eq_or_trancl)

lemma below_ids: "below groups i \<subseteq> g_id ` set groups"
  by (auto simp: below_def dest!: tranclD tree_edges_ids)

lemma finite_below [simp]: "finite (below groups i)"
  by (rule finite_subset [OF below_ids]) simp

lemma below_children:
  "below groups i = (\<Union>c \<in> set (hung_under groups i). under groups (g_id c))"
proof (intro equalityI subsetI)
  fix x assume "x \<in> below groups i"
  then obtain y where y: "(x, y) \<in> (tree_edges groups)\<^sup>*" "(y, i) \<in> tree_edges groups"
    by (auto simp: below_def dest: tranclD2)
  then obtain c where "c \<in> set groups" "g_id c = y" using tree_edges_ids by fastforce
  then have "c \<in> set (hung_under groups i)" "x \<in> under groups (g_id c)"
    using y unfolding under_iff by (simp_all add: hung_under_def)
  then show "x \<in> (\<Union>c \<in> set (hung_under groups i). under groups (g_id c))" by blast
next
  fix x assume "x \<in> (\<Union>c \<in> set (hung_under groups i). under groups (g_id c))"
  then obtain c where "c \<in> set (hung_under groups i)" and x: "x \<in> under groups (g_id c)" by blast
  then have "(g_id c, i) \<in> tree_edges groups" by (simp add: hung_under_def)
  then show "x \<in> below groups i" using x unfolding under_iff by (simp add: below_def rtrancl_into_trancl1)
qed

lemma not_below_itself:
  "distinct (map g_id groups) \<Longrightarrow> [] \<notin> g_id ` set groups \<Longrightarrow> i \<notin> below groups i"
  using tree_edges_acyclic [of groups] by (simp add: below_def acyclic_def)

lemma comparable:
  assumes ids: "distinct (map g_id groups)" and path: "(x, a) \<in> (tree_edges groups)\<^sup>*" "(x, b) \<in> (tree_edges groups)\<^sup>*"
  shows "(a, b) \<in> (tree_edges groups)\<^sup>* \<or> (b, a) \<in> (tree_edges groups)\<^sup>*"
proof (rule single_valued_confluent [OF _ path])
  show "single_valued (tree_edges groups)" using tree_edges_single [OF ids] by (simp add: single_valued_def)
qed

lemma siblings_apart:
  assumes ids: "distinct (map g_id groups)" and named: "[] \<notin> g_id ` set groups"
    and edges: "(a, i) \<in> tree_edges groups" "(b, i) \<in> tree_edges groups" "a \<noteq> b"
  shows "under groups a \<inter> under groups b = {}"
proof (rule ccontr)
  assume "under groups a \<inter> under groups b \<noteq> {}"
  then obtain x where "(x, a) \<in> (tree_edges groups)\<^sup>*" "(x, b) \<in> (tree_edges groups)\<^sup>*"
    using under_iff by (metis disjoint_iff)
  then have "(a, b) \<in> (tree_edges groups)\<^sup>* \<or> (b, a) \<in> (tree_edges groups)\<^sup>*" by (rule comparable [OF ids])
  moreover have False if st: "(c, d) \<in> (tree_edges groups)\<^sup>*" "(c, i) \<in> tree_edges groups" "(d, i) \<in> tree_edges groups" "c \<noteq> d" for c d
  proof -
    obtain e where e: "(c, e) \<in> tree_edges groups" "(e, d) \<in> (tree_edges groups)\<^sup>*" using st(1,4) by (metis converse_rtranclE)
    then have "e = i" using tree_edges_single [OF ids] st(2) by metis
    then have "(i, i) \<in> (tree_edges groups)\<^sup>+" using e(2) st(3) by (simp add: rtrancl_into_trancl1)
    then show False using not_below_itself [OF ids named, of i] by (simp add: below_def)
  qed
  ultimately show False using edges by metis
qed

lemma tops_apart:
  assumes ids: "distinct (map g_id groups)" and named: "[] \<notin> g_id ` set groups"
    and edges: "a \<notin> fst ` tree_edges groups" "b \<notin> fst ` tree_edges groups" "a \<noteq> b"
  shows "under groups a \<inter> under groups b = {}"
proof (rule ccontr)
  assume "under groups a \<inter> under groups b \<noteq> {}"
  then obtain x where "(x, a) \<in> (tree_edges groups)\<^sup>*" "(x, b) \<in> (tree_edges groups)\<^sup>*"
    using under_iff by (metis disjoint_iff)
  then have "(a, b) \<in> (tree_edges groups)\<^sup>* \<or> (b, a) \<in> (tree_edges groups)\<^sup>*" by (rule comparable [OF ids])
  then show False using edges by (metis converse_rtranclE fst_conv image_eqI)
qed

lemma mset_set_forest:
  assumes "distinct (map f cs)" "\<And>a b. a \<in> f ` set cs \<Longrightarrow> b \<in> f ` set cs \<Longrightarrow> a \<noteq> b \<Longrightarrow> A a \<inter> A b = {}" "\<And>a. finite (A a)"
  shows "sum_list (map (\<lambda>c. mset_set (A (f c))) cs) = mset_set (\<Union>c \<in> set cs. A (f c))"
  using assms(1,2)
proof (induction cs)
  case (Cons c cs)
  have "A (f c) \<inter> (\<Union>c \<in> set cs. A (f c)) = {}" using Cons.prems by fastforce
  then have "mset_set (A (f c) \<union> (\<Union>c \<in> set cs. A (f c))) = mset_set (A (f c)) + mset_set (\<Union>c \<in> set cs. A (f c))"
    using assms(3) by (intro mset_set_Union) auto
  moreover have "sum_list (map (\<lambda>c. mset_set (A (f c))) cs) = mset_set (\<Union>c \<in> set cs. A (f c))"
    using Cons.prems by (intro Cons.IH) auto
  ultimately show ?case by simp
qed simp

lemma those_map: "(\<And>x. x \<in> set xs \<Longrightarrow> f x = Some (h x)) \<Longrightarrow> those (map f xs) = Some (map h xs)"
  by (induction xs) auto

lemma unfold_ok:
  assumes "distinct (map g_id groups)" "[] \<notin> g_id ` set groups"
  shows "card (below groups (g_id g)) < n \<Longrightarrow>
    \<exists>t. unfold_tree n (hung_under groups) g = Some t \<and> mset (tree_ids t) = mset_set (under groups (g_id g))"
proof (induction n arbitrary: g)
  case (Suc n)
  let ?i = "g_id g" and ?cs = "hung_under groups (g_id g)"
  have edge: "(g_id c, ?i) \<in> tree_edges groups" if "c \<in> set ?cs" for c using that by (simp add: hung_under_def)
  have "\<exists>t. unfold_tree n (hung_under groups) c = Some t \<and> mset (tree_ids t) = mset_set (under groups (g_id c))"
    if c: "c \<in> set ?cs" for c
  proof (rule Suc.IH)
    have "under groups (g_id c) \<subseteq> below groups ?i" using below_children c by blast
    then have "card (under groups (g_id c)) \<le> card (below groups ?i)" by (rule card_mono [OF finite_below])
    moreover have "card (under groups (g_id c)) = Suc (card (below groups (g_id c)))"
      using not_below_itself [OF assms] by simp
    ultimately show "card (below groups (g_id c)) < n" using Suc.prems by linarith
  qed
  then obtain h where h: "\<And>c. c \<in> set ?cs \<Longrightarrow> unfold_tree n (hung_under groups) c = Some (h c)"
    "\<And>c. c \<in> set ?cs \<Longrightarrow> mset (tree_ids (h c)) = mset_set (under groups (g_id c))" by metis
  have "distinct (map g_id ?cs)" using assms(1) by (simp add: hung_under_def distinct_map_filter)
  moreover have "under groups a \<inter> under groups b = {}" if "a \<in> g_id ` set ?cs" "b \<in> g_id ` set ?cs" "a \<noteq> b" for a b
    using that edge by (intro siblings_apart [OF assms, of a ?i]) auto
  ultimately have "sum_list (map (\<lambda>c. mset_set (under groups (g_id c))) ?cs) = mset_set (below groups ?i)"
    unfolding below_children [of groups ?i] by (rule mset_set_forest) simp_all
  moreover have "mset (concat (map tree_ids (map h ?cs))) = sum_list (map (\<lambda>c. mset_set (under groups (g_id c))) ?cs)"
    unfolding mset_concat map_map by (intro arg_cong [where f = sum_list] map_cong refl) (simp add: h(2))
  ultimately have "mset (concat (map tree_ids (map h ?cs))) = mset_set (below groups ?i)" by simp
  then have "mset (tree_ids (Node g (map h ?cs))) = mset_set (under groups ?i)"
    using not_below_itself [OF assms] by simp
  moreover have "unfold_tree (Suc n) (hung_under groups) g = Some (Node g (map h ?cs))"
    using those_map [of ?cs, OF h(1)] by simp
  ultimately show ?case by blast
qed simp

lemma below_some_top:
  assumes "distinct (map g_id groups)" "[] \<notin> g_id ` set groups"
  shows "i \<in> g_id ` set groups \<Longrightarrow> \<exists>g \<in> set (at_top groups). i \<in> under groups (g_id g)"
proof -
  have wf: "wf ((tree_edges groups)\<inverse>)"
    by (rule finite_acyclic_wf_converse [OF finite_tree_edges tree_edges_acyclic [OF assms]])
  show "i \<in> g_id ` set groups \<Longrightarrow> \<exists>g \<in> set (at_top groups). i \<in> under groups (g_id g)"
  proof (induction i rule: wf_induct_rule [OF wf])
    case (1 i)
    show ?case
    proof (cases "i \<in> fst ` tree_edges groups")
      case True
      then obtain p where p: "(i, p) \<in> tree_edges groups" by auto
      then obtain g where "g \<in> set (at_top groups)" "p \<in> under groups (g_id g)" using "1.IH" [of p] tree_edges_ids by blast
      then show ?thesis using p unfolding under_iff by (meson converse_rtrancl_into_rtrancl)
    next
      case False
      then obtain g where "g \<in> set (at_top groups)" "g_id g = i" using "1.prems" by (auto simp: at_top_def)
      then show ?thesis by blast
    qed
  qed
qed

text \<open>
  C31: Whatever parents the rows name, cycles and dangling ids included, the tree is finite and shows every
  group of the list exactly once.
\<close>

theorem group_tree_shows_each_group_once:
  assumes "distinct (map g_id groups)" "[] \<notin> g_id ` set groups"
  shows "\<exists>ts. buildGroupTree groups = Some ts \<and> mset (concat (map tree_ids ts)) = mset (map g_id groups)"
proof -
  let ?tops = "at_top groups" and ?n = "length groups"
  have size: "card (below groups (g_id g)) < ?n" if "g \<in> set groups" for g
  proof -
    have "below groups (g_id g) \<subset> g_id ` set groups" using below_ids not_below_itself [OF assms] that by blast
    then have "card (below groups (g_id g)) < card (g_id ` set groups)" by (intro psubset_card_mono) simp_all
    also have "card (g_id ` set groups) = ?n" using distinct_card [OF assms(1)] by simp
    finally show ?thesis .
  qed
  have "g \<in> set groups" if "g \<in> set ?tops" for g using that by (simp add: at_top_def)
  then obtain h where h: "\<And>g. g \<in> set ?tops \<Longrightarrow> unfold_tree ?n (hung_under groups) g = Some (h g)"
    "\<And>g. g \<in> set ?tops \<Longrightarrow> mset (tree_ids (h g)) = mset_set (under groups (g_id g))"
    using unfold_ok [OF assms size] by metis
  have "buildGroupTree groups = Some (map h ?tops)"
    using those_map [of ?tops, OF h(1)] by (simp add: buildGroupTree_def link_groups_eq [OF assms])
  moreover have "mset (concat (map tree_ids (map h ?tops))) = sum_list (map (\<lambda>g. mset_set (under groups (g_id g))) ?tops)"
    unfolding mset_concat map_map by (intro arg_cong [where f = sum_list] map_cong refl) (simp add: h(2))
  moreover have "\<dots> = mset_set (\<Union>g \<in> set ?tops. under groups (g_id g))"
  proof (rule mset_set_forest [where f = g_id and A = "\<lambda>i. under groups i"])
    show "distinct (map g_id ?tops)" using assms(1) by (simp add: at_top_def distinct_map_filter)
    show "under groups a \<inter> under groups b = {}" if "a \<in> g_id ` set ?tops" "b \<in> g_id ` set ?tops" "a \<noteq> b" for a b
      using that by (intro tops_apart [OF assms]) (auto simp: at_top_def)
  qed simp
  moreover have "(\<Union>g \<in> set ?tops. under groups (g_id g)) = g_id ` set groups"
    using below_some_top [OF assms] below_ids by (auto simp: at_top_def) blast+
  moreover have "mset_set (g_id ` set groups) = mset (map g_id groups)"
    using mset_set_set [OF assms(1)] by simp
  ultimately show ?thesis by (metis)
qed

abbreviation group_of :: "row_id \<Rightarrow> row_id option \<Rightarrow> user_id option \<Rightarrow> team_id option \<Rightarrow> policy_group_row" where
  "group_of i p u t \<equiv> \<lparr>g_id = i, g_name = ''Folder'', g_description = None, g_icon = None, g_sortOrder = 0,
     g_parentId = p, g_userId = u, g_teamId = t, g_isSystem = False\<rparr>"

definition tangled_groups :: "policy_group_row list" where
  "tangled_groups = [group_of ''a'' (Some ''b'') (Some ''u'') None, group_of ''b'' (Some ''a'') (Some ''u'') None,
     group_of ''c'' (Some ''a'') (Some ''u'') None, group_of ''d'' (Some ''gone'') (Some ''u'') None,
     group_of ''e'' (Some ''d'') (Some ''u'') None]"

theorem group_tree_shows_each_group_once_witness:
  "\<exists>ts. buildGroupTree tangled_groups = Some ts \<and>
     mset (concat (map tree_ids ts)) = {#''a'', ''b'', ''c'', ''d'', ''e''#}"
proof -
  have "distinct (map g_id tangled_groups)" "[] \<notin> g_id ` set tangled_groups"
    by (simp_all add: tangled_groups_def)
  moreover have "mset (map g_id tangled_groups) = {#''a'', ''b'', ''c'', ''d'', ''e''#}"
    by (simp add: tangled_groups_def)
  ultimately show ?thesis using group_tree_shows_each_group_once [of tangled_groups] by simp
qed

section \<open>Requests keep the groups a forest\<close>

text \<open>
  Team policies are only in groups of their team. A policy may name a group that is gone.
\<close>

definition well_placed :: "store \<Rightarrow> bool" where
  "well_placed st \<longleftrightarrow> (\<forall>p \<in> set (policies_t st). \<forall>g \<in> set (groups_t st). \<forall>t.
     p_groupId p = Some (g_id g) \<longrightarrow> policyTeamIdOf p = Some t \<longrightarrow> g_teamId g = Some t)"

definition folders_ok :: "store \<Rightarrow> bool" where
  "folders_ok st \<longleftrightarrow> unique_key g_id (groups_t st) \<and> [] \<notin> g_id ` set (groups_t st) \<and> unique_key p_id (policies_t st) \<and>
     acyclic (up (lookupGroupParent st)) \<and> well_placed st"

text \<open>A fresh id is neither the id of a group nor named by a row.\<close>

definition unused_group_id :: "row_id \<Rightarrow> store \<Rightarrow> bool" where
  "unused_group_id i st \<longleftrightarrow> i \<noteq> [] \<and> i \<notin> g_id ` set (groups_t st) \<and> Some i \<notin> g_parentId ` set (groups_t st) \<and>
     Some i \<notin> p_groupId ` set (policies_t st)"

inductive folder_step :: "store \<Rightarrow> store \<Rightarrow> bool" where
  Create: "unused_group_id newId st \<Longrightarrow> createGroup session body newId st = (r, st') \<Longrightarrow> folder_step st st'"
| Edit: "updateGroup session i edit st = (r, st') \<Longrightarrow> folder_step st st'"
| Delete: "deleteGroup session i movePolicies moveChildren st = (r, st') \<Longrightarrow> folder_step st st'"
| Reorder: "reorderGroups session orders st = (r, st') \<Longrightarrow> folder_step st st'"
| Add: "addPolicies session i body st = (r, st') \<Longrightarrow> folder_step st st'"
| Remove: "removePolicies session i body st = (r, st') \<Longrightarrow> folder_step st st'"
| DropTeam: "deleteTeam session now teamId st = (r, st') \<Longrightarrow> folder_step st st'"

lemma lookup_found:
  "unique_key g_id (groups_t st) \<Longrightarrow> g \<in> set (groups_t st) \<Longrightarrow> lookupGroupParent st (g_id g) = g_parentId g"
  using find_first_unique [of g_id "groups_t st" g] by (simp add: lookupGroupParent_def)

lemma lookup_update_where:
  assumes "groups_t st' = update_where q f (groups_t st)" "\<And>g. g_id (f g) = g_id g"
  shows "lookupGroupParent st' j = Option.bind (find_first (\<lambda>g. g_id g = j) (groups_t st)) (\<lambda>g. g_parentId (if q g then f g else g))"
  unfolding lookupGroupParent_def assms(1)
  by (subst find_first_update_where) (simp_all add: assms(2) option.map_comp map_option_case split: option.split)

lemma up_mono:
  "(\<And>i c. or_null (f i) = Some c \<Longrightarrow> or_null (h i) = Some c) \<Longrightarrow> acyclic (up h) \<Longrightarrow> acyclic (up f)"
  by (erule acyclic_subset) (auto simp: up_def)

lemma or_null_idem [simp]: "or_null (or_null x) = or_null x"
  by (simp add: or_null_def split: option.split)

lemma editable_row:
  "editable_group st u i = Some g \<Longrightarrow> g \<in> set (groups_t st) \<and> g_id g = i"
  by (auto simp: editable_group_def own_group_def group_in_teams_def split: option.splits dest!: find_first_Some)

lemma edited_ids [simp]: "g_id (edit_row edit g) = g_id g" "g_id (order_row x g) = g_id g"
  by (simp_all add: edit_row_def order_row_def)

lemma edit_keeps_forest:
  assumes "edit_check u i edit st = None" "edit_write i edit st = (r, st')"
    "unique_key g_id (groups_t st)" "acyclic (up (lookupGroupParent st))"
  shows "acyclic (up (lookupGroupParent st'))"
proof (cases "st' = st")
  case True
  then show ?thesis using assms(4) by simp
next
  case False
  obtain e where e: "editable_group st u i = Some e" using assms(1) by (auto simp: edit_check_def split: option.splits)
  have row: "e \<in> set (groups_t st)" "g_id e = i" using editable_row [OF e] by simp_all
  have ee: "find_first (\<lambda>g. g_id g = i) (groups_t st) = Some e" using find_first_unique [OF assms(3) row(1)] row(2) by simp
  have upd: "groups_t st' = update_where (\<lambda>g. g_id g = i) (edit_row edit) (groups_t st)"
    using assms(2) False by (auto simp: edit_write_def split: if_splits)
  have look: "lookupGroupParent st' j = (if j = i then g_parentId (edit_row edit e) else lookupGroupParent st j)" for j
  proof (cases "find_first (\<lambda>g. g_id g = j) (groups_t st)")
    case None
    then show ?thesis using ee lookup_update_where [OF upd edited_ids(1), of j] by (auto simp: lookupGroupParent_def)
  next
    case (Some g)
    then have "g_id g = j" by (auto dest: find_first_Some)
    then show ?thesis using ee Some lookup_update_where [OF upd edited_ids(1), of j] by (auto simp: lookupGroupParent_def)
  qed
  have old: "lookupGroupParent st i = g_parentId e" using lookup_found [OF assms(3) row(1)] row(2) by simp
  show ?thesis
  proof (cases "ge_parentId edit")
    case None
    then show ?thesis using assms(4) look old by (intro up_mono [OF _ assms(4)]) (auto simp: edit_row_def split: if_splits)
  next
    case (Some parentId)
    then have new: "g_parentId (edit_row edit e) = or_null parentId" by (simp add: edit_row_def)
    show ?thesis
    proof (cases "parentId = g_parentId e \<or> or_null parentId = None")
      case True
      then show ?thesis using look old new by (intro up_mono [OF _ assms(4)]) (auto split: if_splits)
    next
      case False
      then obtain p where p: "or_null parentId = Some p" by auto
      have "\<not> wouldCreateParentCycle [(i, Some p)] (lookupGroupParent st)"
        using assms(1) Some p False e by (auto simp: edit_check_def split: if_splits option.splits)
      from guard_sound [OF assms(4) this] show ?thesis
        by (rule up_mono [rotated]) (auto simp: look new p edited_parent_def split: if_splits)
    qed
  qed
qed

lemma lookup_row:
  "lookupGroupParent st j = Some x \<Longrightarrow> \<exists>g \<in> set (groups_t st). g_id g = j \<and> g_parentId g = Some x"
  by (auto simp: lookupGroupParent_def bind_eq_Some_conv dest: find_first_Some)

text \<open>Deleting bridges the children of the group to its parent, or cuts them off.\<close>

lemma groups_after_delete:
  assumes "g' \<in> set (groups_t (delete_group_tx u grp mp mc st))"
  shows "g_id g' \<noteq> g_id grp \<and> g_parentId g' \<noteq> Some (g_id grp) \<and>
    (\<exists>g \<in> set (groups_t st). g_id g = g_id g' \<and> g_teamId g = g_teamId g' \<and>
      (g_parentId g' = g_parentId g \<or> g_parentId g' = None \<or>
       (g_parentId g = Some (g_id grp) \<and> g_parentId g' = or_null (g_parentId grp))))"
proof -
  let ?i = "g_id grp"
  let ?t = "case or_null (g_parentId grp) of
      Some p \<Rightarrow> if mc then update_where (\<lambda>c. g_parentId c = Some ?i \<and> cascade_child u grp c) (\<lambda>c. c\<lparr>g_parentId := Some p\<rparr>) (groups_t st) else groups_t st
    | None \<Rightarrow> groups_t st"
  have "groups_t (delete_group_tx u grp mp mc st) =
      delete_where (\<lambda>g. g_id g = ?i) (update_where (\<lambda>c. g_parentId c = Some ?i) (\<lambda>c. c\<lparr>g_parentId := None\<rparr>) ?t)"
    by (simp add: delete_group_tx_def move_policies_def detach_policies_def move_children_def detach_children_def Let_def split: option.split)
  then have "g' \<in> set (update_where (\<lambda>c. g_parentId c = Some ?i) (\<lambda>c. c\<lparr>g_parentId := None\<rparr>) ?t)" and i: "g_id g' \<noteq> ?i"
    using assms by auto
  then obtain c where c: "c \<in> set ?t" "g' = (if g_parentId c = Some ?i then c\<lparr>g_parentId := None\<rparr> else c)"
    unfolding in_update_where by auto
  have "\<exists>g \<in> set (groups_t st). g_id g = g_id c \<and> g_teamId g = g_teamId c \<and>
      (g_parentId c = g_parentId g \<or> (g_parentId g = Some ?i \<and> g_parentId c = or_null (g_parentId grp)))"
  proof (cases "or_null (g_parentId grp)")
    case None
    then show ?thesis using c(1) by auto
  next
    case (Some p)
    then show ?thesis using c(1) by (cases mc) (force simp: in_update_where)+
  qed
  then show ?thesis using c(2) i by (cases "g_parentId c = Some ?i") auto
qed

lemma groups_deleted_edges:
  assumes "unique_key g_id (groups_t st)" "grp \<in> set (groups_t st)" "g_id grp \<noteq> []"
    "(j, c) \<in> up (lookupGroupParent (delete_group_tx u grp mp mc st))"
  shows "(j, c) \<in> (up (lookupGroupParent st))\<^sup>+"
proof -
  obtain x where x: "lookupGroupParent (delete_group_tx u grp mp mc st) j = Some x" "x = c" "c \<noteq> []"
    using assms(4) by (auto simp: up_def or_null_Some)
  obtain g' where g': "g' \<in> set (groups_t (delete_group_tx u grp mp mc st))" "g_id g' = j" "g_parentId g' = Some c"
    using lookup_row [OF x(1)] x(2) by blast
  then obtain g where g: "g \<in> set (groups_t st)" "g_id g = j"
    "Some c = g_parentId g \<or> (g_parentId g = Some (g_id grp) \<and> Some c = or_null (g_parentId grp))"
    using groups_after_delete [OF g'(1)] by auto
  have look: "lookupGroupParent st j = g_parentId g" "lookupGroupParent st (g_id grp) = g_parentId grp"
    using lookup_found [OF assms(1)] g(1,2) assms(2) by auto
  from g(3) show ?thesis
  proof
    assume "Some c = g_parentId g"
    then have "(j, c) \<in> up (lookupGroupParent st)" using look(1) x(3) by (simp add: up_def or_null_Some)
    then show ?thesis by simp
  next
    assume b: "g_parentId g = Some (g_id grp) \<and> Some c = or_null (g_parentId grp)"
    moreover have "or_null (Some (g_id grp)) = Some (g_id grp)" using assms(3) by (simp add: or_null_Some)
    ultimately have "(j, g_id grp) \<in> up (lookupGroupParent st)" "(g_id grp, c) \<in> up (lookupGroupParent st)"
      using look by (simp_all add: up_def)
    then show ?thesis by (meson r_into_trancl trancl_into_trancl)
  qed
qed

lemma delete_keeps_forest:
  assumes "unique_key g_id (groups_t st)" "grp \<in> set (groups_t st)" "g_id grp \<noteq> []" "acyclic (up (lookupGroupParent st))"
  shows "acyclic (up (lookupGroupParent (delete_group_tx u grp mp mc st)))"
proof -
  have "up (lookupGroupParent (delete_group_tx u grp mp mc st)) \<subseteq> (up (lookupGroupParent st))\<^sup>+"
    using groups_deleted_edges [OF assms(1-3)] by auto
  moreover have "acyclic ((up (lookupGroupParent st))\<^sup>+)" using assms(4) by (simp add: acyclic_def)
  ultimately show ?thesis by (rule acyclic_subset [rotated])
qed

lemma create_keeps_forest:
  assumes "unused_group_id newId st" "g_id new = newId" "g_parentId new \<noteq> Some newId"
    "groups_t st' = insert_row new (groups_t st)" "acyclic (up (lookupGroupParent st))"
  shows "acyclic (up (lookupGroupParent st'))"
proof (rule acyclicI, rule allI, rule notI)
  fix x assume cyc: "(x, x) \<in> (up (lookupGroupParent st'))\<^sup>+"
  have look: "lookupGroupParent st' j = (if j = newId then g_parentId new else lookupGroupParent st j)" for j
  proof (cases "j = newId")
    case True
    have "find_first (\<lambda>g. g_id g = newId) (groups_t st) = None"
      using assms(1) by (auto simp: find_first_None unused_group_id_def)
    then show ?thesis using True assms(2) unfolding lookupGroupParent_def assms(4) by (simp add: find_first_insert_new)
  next
    case False
    then show ?thesis using assms(2) unfolding lookupGroupParent_def assms(4) by (simp add: find_first_insert_other)
  qed
  have target: "c \<noteq> newId" if "(j, c) \<in> up (lookupGroupParent st')" for j c
  proof
    assume "c = newId"
    then have "lookupGroupParent st' j = Some newId" using that by (auto simp: up_def or_null_Some)
    then have "lookupGroupParent st j = Some newId" using look [of j] assms(3) by (auto split: if_splits)
    from lookup_row [OF this] show False using assms(1) by (auto simp: unused_group_id_def image_iff)
  qed
  have "(x, y) \<in> (up (lookupGroupParent st'))\<^sup>+ \<Longrightarrow> x \<noteq> newId \<Longrightarrow> (x, y) \<in> (up (lookupGroupParent st))\<^sup>+" for x y
  proof (induction rule: converse_trancl_induct)
    case (base z)
    then show ?case using look [of z] by (auto simp: up_def)
  next
    case (step z w)
    then have "(z, w) \<in> up (lookupGroupParent st)" "w \<noteq> newId" using look [of z] target [OF step.hyps(1)] by (auto simp: up_def)
    then show ?case using step.IH by (meson trancl_into_trancl2)
  qed
  moreover have "x \<noteq> newId" using cyc target by (metis tranclD2)
  ultimately show False using cyc assms(5) by (auto simp: acyclic_def)
qed

lemma reordered_row:
  "find_first (\<lambda>g. g_id g = j) (fold (\<lambda>x. update_where (\<lambda>g. g_id g = go_id x) (order_row x)) orders t) =
     map_option (\<lambda>g. fold (\<lambda>x g. if g_id g = go_id x then order_row x g else g) orders g) (find_first (\<lambda>g. g_id g = j) t)"
proof (induction orders arbitrary: t)
  case (Cons x orders)
  have "find_first (\<lambda>g. g_id g = j) (update_where (\<lambda>g. g_id g = go_id x) (order_row x) t) =
      map_option (\<lambda>g. if g_id g = go_id x then order_row x g else g) (find_first (\<lambda>g. g_id g = j) t)"
    by (rule find_first_update_where) simp
  then show ?case using Cons by (simp add: option.map_comp comp_def)
qed (simp add: option.map_id0)

lemma ordered_parent:
  "g_id (fold (\<lambda>x g. if g_id g = go_id x then order_row x g else g) orders g) = g_id g \<and>
   g_parentId (fold (\<lambda>x g. if g_id g = go_id x then order_row x g else g) orders g) =
     (case map_of (parent_edits orders) (g_id g) of Some p \<Rightarrow> p | None \<Rightarrow> g_parentId g)"
proof (induction orders rule: rev_induct)
  case Nil
  show ?case by (simp add: parent_edits_def js_map_def map_filter_def)
next
  case (snoc x orders)
  have "map_of (parent_edits (orders @ [x])) = (case go_parentId x of
      None \<Rightarrow> map_of (parent_edits orders) | Some p \<Rightarrow> (map_of (parent_edits orders))(go_id x \<mapsto> or_null p))"
    by (simp add: parent_edits_def map_of_js_map map_filter_def split: option.split)
  then show ?case using snoc by (auto simp: order_row_def split: option.split)
qed

lemma last_guard:
  "d \<Longrightarrow> (if a then Some w else if b then Some x else if c then Some y else if d then Some z else None) \<noteq> None"
  by simp

lemma reorder_guarded:
  assumes "reorder_check u orders st = None"
  shows "\<not> wouldCreateParentCycle (parent_edits orders) (lookupGroupParent st)"
proof
  assume c: "wouldCreateParentCycle (parent_edits orders) (lookupGroupParent st)"
  have "reorder_check u orders st \<noteq> None"
    unfolding reorder_check_def Let_def by (rule last_guard [OF c])
  then show False using assms by simp
qed

lemma reorder_keeps_forest:
  assumes "reorder_check u orders st = None" "acyclic (up (lookupGroupParent st))"
  shows "acyclic (up (lookupGroupParent (reorder_tx orders st)))"
proof -
  note guard = reorder_guarded [OF assms(1)]
  have sub: "or_null (lookupGroupParent (reorder_tx orders st) j) = Some c \<Longrightarrow>
      or_null (edited_parent (parent_edits orders) (lookupGroupParent st) j) = Some c" for j c
  proof (cases "find_first (\<lambda>g. g_id g = j) (groups_t st)")
    case None
    assume "or_null (lookupGroupParent (reorder_tx orders st) j) = Some c"
    then show ?thesis using None by (simp add: lookupGroupParent_def reorder_tx_def reordered_row)
  next
    case (Some g)
    then have "g_id g = j" by (auto dest: find_first_Some)
    assume "or_null (lookupGroupParent (reorder_tx orders st) j) = Some c"
    then show ?thesis using Some \<open>g_id g = j\<close> ordered_parent [of orders g]
      by (simp add: lookupGroupParent_def reorder_tx_def reordered_row edited_parent_def split: option.splits)
  qed
  show ?thesis by (rule up_mono [OF _ guard_sound [OF assms(2) guard]]) (rule sub)
qed

section \<open>Requests keep team policies in the groups of their team\<close>

lemma decision_in_list:
  assumes "unique_key p_id (policies_t st)" "set candidates \<subseteq> set (policies_t st)"
    "i \<in> p_id ` set (filter (\<lambda>p. canPlaceInGroup (decision_for decisions p) p grp) candidates)"
    "p \<in> set (policies_t st)" "p_id p = i" "policyTeamIdOf p = Some t"
  shows "g_teamId grp = Some t"
proof -
  obtain q where q: "q \<in> set candidates" "p_id q = i" "canPlaceInGroup (decision_for decisions q) q grp" using assms(3) by auto
  have "q = p" using unique_key_eq [OF assms(1), of q p] assms(2,4,5) q by auto
  then show ?thesis using q(3) assms(6) by (simp add: canPlaceInGroup_def)
qed

lemma well_placedI:
  assumes "well_placed st" "unique_key g_id (groups_t st)"
    "\<And>g'. g' \<in> set (groups_t st') \<Longrightarrow> \<exists>g \<in> set (groups_t st). g_id g = g_id g' \<and> g_teamId g = g_teamId g'"
    "\<And>p' i t. p' \<in> set (policies_t st') \<Longrightarrow> p_groupId p' = Some i \<Longrightarrow> policyTeamIdOf p' = Some t \<Longrightarrow>
      (\<exists>p \<in> set (policies_t st). p_groupId p = Some i \<and> policyTeamIdOf p = Some t) \<or>
      (\<exists>grp. find_first (\<lambda>g. g_id g = i) (groups_t st) = Some grp \<and> g_teamId grp = Some t) \<or>
      find_first (\<lambda>g. g_id g = i) (groups_t st) = None"
  shows "well_placed st'"
  unfolding well_placed_def
proof (intro ballI allI impI)
  fix p' g' t assume p': "p' \<in> set (policies_t st')" "p_groupId p' = Some (g_id g')" "policyTeamIdOf p' = Some t"
    and g': "g' \<in> set (groups_t st')"
  obtain g where g: "g \<in> set (groups_t st)" "g_id g = g_id g'" "g_teamId g = g_teamId g'" using assms(3) [OF g'] by blast
  have "find_first (\<lambda>h. g_id h = g_id g') (groups_t st) = Some g" using find_first_unique [OF assms(2) g(1)] g(2) by simp
  then show "g_teamId g' = Some t" using assms(4) [OF p'] assms(1) g unfolding well_placed_def by fastforce
qed

lemma folders_okI:
  assumes "unique_key g_id (groups_t st)" "[] \<notin> g_id ` set (groups_t st)" "unique_key p_id (policies_t st)"
    "acyclic (up (lookupGroupParent st))" "well_placed st"
  shows "folders_ok st"
  using assms by (simp add: folders_ok_def)

lemma folders_okD:
  assumes "folders_ok st"
  shows "unique_key g_id (groups_t st)" "[] \<notin> g_id ` set (groups_t st)" "unique_key p_id (policies_t st)"
    "acyclic (up (lookupGroupParent st))" "well_placed st"
  using assms by (simp_all add: folders_ok_def)

lemma created:
  assumes "createGroup session body newId st = (r, st')" "st' \<noteq> st"
  shows "\<exists>u name. st' = st\<lparr>groups_t := insert_row (created_group u name body newId st) (groups_t st)\<rparr> \<and>
    (\<forall>p. or_null (gb_parentId body) = Some p \<longrightarrow> parent_for st u p \<noteq> None)"
proof -
  obtain u name where "session = Some u" "or_null (gb_name body) = Some name"
    "\<not> (case or_null (gb_parentId body) of None \<Rightarrow> False | Some p \<Rightarrow> parent_for st u p = None)"
    "st' = st\<lparr>groups_t := insert_row (created_group u name body newId st) (groups_t st)\<rparr>"
    using assms unfolding createGroup_def by (auto split: option.splits if_splits)
  then show ?thesis by auto
qed

lemma no_empty_id:
  assumes "[] \<notin> g_id ` set (groups_t st)" "\<And>g'. g' \<in> set (groups_t st') \<Longrightarrow> \<exists>g \<in> set (groups_t st). g_id g = g_id g'"
  shows "[] \<notin> g_id ` set (groups_t st')"
proof
  assume "[] \<in> g_id ` set (groups_t st')"
  then obtain g' where "g' \<in> set (groups_t st')" "g_id g' = []" by auto
  then show False using assms(2) [of g'] assms(1) by (auto simp: image_iff)
qed

lemma create_keeps_folders:
  assumes "unused_group_id newId st" "createGroup session body newId st = (r, st')" "folders_ok st"
  shows "folders_ok st'"
proof (cases "st' = st")
  case False
  obtain u name where st': "st' = st\<lparr>groups_t := insert_row (created_group u name body newId st) (groups_t st)\<rparr>"
    and p: "\<forall>p. or_null (gb_parentId body) = Some p \<longrightarrow> parent_for st u p \<noteq> None"
    using created [OF assms(2) False] by blast
  let ?new = "created_group u name body newId st"
  have new: "groups_t st' = insert_row ?new (groups_t st)" "g_id ?new = newId"
    "g_parentId ?new = or_null (gb_parentId body)" "policies_t st' = policies_t st"
    by (simp_all add: st' created_group_def)
  note ok = folders_okD [OF assms(3)]
  have "g_parentId ?new \<noteq> Some newId"
  proof
    assume "g_parentId ?new = Some newId"
    then have "parent_for st u newId \<noteq> None" using p new(3) by simp
    then have "newId \<in> g_id ` set (groups_t st)"
      by (auto simp: parent_for_def own_group_def group_in_teams_def split: option.splits dest!: find_first_Some)
    then show False using assms(1) by (simp add: unused_group_id_def)
  qed
  note forest = create_keeps_forest [OF assms(1) new(2) this new(1) ok(4)]
  have fresh: "newId \<notin> g_id ` set (groups_t st)" "newId \<noteq> []" "Some newId \<notin> p_groupId ` set (policies_t st)"
    using assms(1) by (simp_all add: unused_group_id_def)
  have "well_placed st'"
    using ok(5) fresh(3) new(2) unfolding well_placed_def new(1,4) by (auto simp: image_iff)
  moreover have "unique_key g_id (groups_t st')" unfolding new(1) by (rule unique_key_insert_row [OF ok(1)]) (simp add: new(2) fresh(1))
  ultimately show ?thesis using forest ok(2,3) new(1,2,4) fresh(2) by (intro folders_okI) simp_all
qed (use assms in simp)

lemma edit_keeps_folders:
  assumes "updateGroup session i edit st = (r, st')" "folders_ok st"
  shows "folders_ok st'"
proof (cases "st' = st")
  case False
  obtain u where c: "edit_check u i edit st = None" "edit_write i edit st = (r, st')"
    using assms(1) False by (auto simp: updateGroup_def split: option.splits)
  note ok = folders_okD [OF assms(2)]
  have upd: "st' = st\<lparr>groups_t := update_where (\<lambda>g. g_id g = i) (edit_row edit) (groups_t st)\<rparr>"
    using c(2) False by (auto simp: edit_write_def split: if_splits)
  have same: "g_teamId (edit_row edit g) = g_teamId g" for g by (simp add: edit_row_def)
  have "well_placed st'"
    by (rule well_placedI [OF ok(5,1)]) (auto simp: upd in_update_where same)
  moreover have "[] \<notin> g_id ` set (groups_t st')" by (rule no_empty_id [OF ok(2)]) (auto simp: upd in_update_where)
  moreover have "unique_key g_id (groups_t st')" unfolding upd by (simp add: unique_key_update_where ok(1))
  ultimately show ?thesis using ok(3) edit_keeps_forest [OF c ok(1,4)] by (intro folders_okI) (simp_all add: upd)
qed (use assms in simp)

lemma reorder_keeps_folders:
  assumes "reorderGroups session orders st = (r, st')" "folders_ok st"
  shows "folders_ok st'"
proof (cases "st' = st")
  case False
  obtain u where c: "reorder_check u orders st = None" "st' = reorder_tx orders st"
    using assms(1) False by (auto simp: reorderGroups_def split: option.splits)
  note ok = folders_okD [OF assms(2)]
  have keep: "unique_key g_id (fold (\<lambda>x. update_where (\<lambda>g. g_id g = go_id x) (order_row x)) orders t)"
    if "unique_key g_id t" for t
    using that by (induction orders arbitrary: t) (simp_all add: unique_key_update_where)
  have rows: "g' \<in> set (fold (\<lambda>x. update_where (\<lambda>g. g_id g = go_id x) (order_row x)) orders t) \<Longrightarrow>
      \<exists>g \<in> set t. g_id g = g_id g' \<and> g_teamId g = g_teamId g'" for g' t
  proof (induction orders arbitrary: t)
    case (Cons x orders)
    then obtain h where "h \<in> set (update_where (\<lambda>g. g_id g = go_id x) (order_row x) t)" "g_id h = g_id g'" "g_teamId h = g_teamId g'"
      by auto
    then show ?case by (force simp: in_update_where order_row_def split: if_splits)
  qed auto
  have "well_placed st'"
    by (rule well_placedI [OF ok(5,1)]) (use rows in \<open>auto simp: c(2) reorder_tx_def\<close>)
  moreover have "[] \<notin> g_id ` set (groups_t st')"
    by (rule no_empty_id [OF ok(2)]) (use rows in \<open>auto simp: c(2) reorder_tx_def\<close>)
  moreover have "unique_key g_id (groups_t st')" using keep ok(1) by (simp add: c(2) reorder_tx_def)
  ultimately show ?thesis using ok(3) reorder_keeps_forest [OF c(1) ok(4)]
    by (intro folders_okI) (simp_all add: c(2) reorder_tx_def)
qed (use assms in simp)

lemma policies_after_delete:
  assumes "p' \<in> set (policies_t (delete_group_tx u grp mp mc st))"
  shows "p_groupId p' \<noteq> Some (g_id grp) \<and> (\<exists>p \<in> set (policies_t st).
    p_id p' = p_id p \<and> p_teamId p' = p_teamId p \<and> (p_groupId p' = p_groupId p \<or> p_groupId p' = None \<or>
     (\<exists>parentId. p_groupId p = Some (g_id grp) \<and> p_groupId p' = Some parentId \<and> or_null (g_parentId grp) = Some parentId \<and>
       p_id p \<in> set (placeableInParent st (g_id grp) parentId (cascade_policy st u grp) u))))"
proof -
  let ?i = "g_id grp"
  let ?t = "case or_null (g_parentId grp) of
      Some pid \<Rightarrow> if mp then policies_t (move_policies u grp pid st) else policies_t st | None \<Rightarrow> policies_t st"
  have "policies_t (delete_group_tx u grp mp mc st) =
      update_where (\<lambda>p. p_groupId p = Some ?i) (\<lambda>p. p\<lparr>p_groupId := None\<rparr>) ?t"
    by (simp add: delete_group_tx_def detach_policies_def move_children_def detach_children_def Let_def split: option.split)
  then have "p' \<in> set (update_where (\<lambda>p. p_groupId p = Some ?i) (\<lambda>p. p\<lparr>p_groupId := None\<rparr>) ?t)" using assms by simp
  then obtain q where q: "q \<in> set ?t" "p' = (if p_groupId q = Some ?i then q\<lparr>p_groupId := None\<rparr> else q)"
    unfolding in_update_where by blast
  have "\<exists>p \<in> set (policies_t st). p_id q = p_id p \<and> p_teamId q = p_teamId p \<and> (p_groupId q = p_groupId p \<or>
     (\<exists>parentId. p_groupId p = Some ?i \<and> p_groupId q = Some parentId \<and> or_null (g_parentId grp) = Some parentId \<and>
       p_id p \<in> set (placeableInParent st ?i parentId (cascade_policy st u grp) u)))"
  proof (cases "or_null (g_parentId grp)")
    case None
    then show ?thesis using q(1) by auto
  next
    case (Some pid)
    show ?thesis
    proof (cases mp)
      case True
      then obtain p where "p \<in> set (policies_t st)" "q = (if p_groupId p = Some ?i \<and>
          p_id p \<in> set (placeableInParent st ?i pid (cascade_policy st u grp) u) \<and> cascade_policy st u grp p
          then p\<lparr>p_groupId := Some pid\<rparr> else p)"
        using q(1) Some unfolding move_policies_def Let_def by (auto simp: in_update_where)
      then show ?thesis using Some by (auto split: if_splits)
    qed (use q(1) Some in auto)
  qed
  then show ?thesis using q(2) by (cases "p_groupId q = Some ?i") auto
qed

lemma placeable_team:
  assumes "i \<in> set (placeableInParent st groupId parentId scope u)" "unique_key p_id (policies_t st)"
    "p \<in> set (policies_t st)" "p_id p = i" "policyTeamIdOf p = Some t"
  shows "\<exists>parent. find_first (\<lambda>g. g_id g = parentId) (groups_t st) = Some parent \<and> g_teamId parent = Some t"
proof -
  obtain parent where parent: "find_first (\<lambda>g. g_id g = parentId) (groups_t st) = Some parent"
    using assms(1) by (cases "find_first (\<lambda>g. g_id g = parentId) (groups_t st)") (simp_all add: placeableInParent_def)
  let ?c = "select_where (\<lambda>p. p_groupId p = Some groupId \<and> scope p) (policies_t st)"
  let ?d = "authorizePolicyActions st \<lparr>pa_userId = u, pa_keyTeamId = None\<rparr> ?c ActUpdate"
  have i: "i \<in> p_id ` set (filter (\<lambda>p. canPlaceInGroup (decision_for ?d p) p parent) ?c)"
    using assms(1) unfolding placeableInParent_def parent Let_def by auto
  have "set ?c \<subseteq> set (policies_t st)" by auto
  from decision_in_list [OF assms(2) this i assms(3-5)] show ?thesis using parent by simp
qed

lemma delete_keeps_folders:
  assumes "deleteGroup session i mp mc st = (r, st')" "folders_ok st"
  shows "folders_ok st'"
proof (cases "st' = st")
  case False
  obtain u grp where e: "editable_group st u i = Some grp" and st': "st' = delete_group_tx u grp (nullish mp True) (nullish mc True) st"
    using assms(1) False by (auto simp: deleteGroup_def split: option.splits if_splits)
  note ok = folders_okD [OF assms(2)]
  have grp: "grp \<in> set (groups_t st)" using editable_row [OF e] by simp
  then have "g_id grp \<noteq> []" using ok(2) by force
  note forest = delete_keeps_forest [OF ok(1) grp this ok(4)]
  have rows: "\<exists>g \<in> set (groups_t st). g_id g = g_id g' \<and> g_teamId g = g_teamId g'" if "g' \<in> set (groups_t st')" for g'
    using groups_after_delete that unfolding st' by blast
  have "well_placed st'"
  proof (rule well_placedI [OF ok(5,1) rows])
    fix p' j t assume p': "p' \<in> set (policies_t st')" "p_groupId p' = Some j" "policyTeamIdOf p' = Some t"
    obtain p where p: "p \<in> set (policies_t st)" "p_id p' = p_id p" "p_teamId p' = p_teamId p"
      and g: "p_groupId p' = p_groupId p \<or> p_groupId p' = None \<or>
       (\<exists>parentId. p_groupId p = Some (g_id grp) \<and> p_groupId p' = Some parentId \<and> or_null (g_parentId grp) = Some parentId \<and>
         p_id p \<in> set (placeableInParent st (g_id grp) parentId (cascade_policy st u grp) u))"
      using policies_after_delete [of p'] p'(1) unfolding st' by blast
    have t: "policyTeamIdOf p = Some t" using p(3) p'(3) by (simp add: policyTeamIdOf_def)
    from g p'(2) consider "p_groupId p = Some j" | "p_id p \<in> set (placeableInParent st (g_id grp) j (cascade_policy st u grp) u)"
      by auto
    then show "(\<exists>p \<in> set (policies_t st). p_groupId p = Some j \<and> policyTeamIdOf p = Some t) \<or>
      (\<exists>grp. find_first (\<lambda>g. g_id g = j) (groups_t st) = Some grp \<and> g_teamId grp = Some t) \<or>
      find_first (\<lambda>g. g_id g = j) (groups_t st) = None"
    proof cases
      case 1
      then show ?thesis using p(1) t by blast
    next
      case 2
      show ?thesis using placeable_team [OF 2 ok(3) p(1) refl t] by blast
    qed
  qed
  moreover have "[] \<notin> g_id ` set (groups_t st')" by (rule no_empty_id [OF ok(2)]) (use rows in blast)
  moreover have "unique_key g_id (groups_t st') \<and> unique_key p_id (policies_t st')"
    unfolding st' delete_group_tx_def move_policies_def detach_policies_def move_children_def detach_children_def Let_def
    using ok(1,3) by (auto intro!: unique_key_delete_where unique_key_update_where split: option.split)
  ultimately show ?thesis using forest by (intro folders_okI) (simp_all add: st')
qed (use assms in simp)

text \<open>The other requests leave the groups as they are, or drop rows.\<close>

lemma same_groups_ok:
  assumes "folders_ok st" "groups_t st' = groups_t st" "unique_key p_id (policies_t st')"
    "\<And>p' i t. p' \<in> set (policies_t st') \<Longrightarrow> p_groupId p' = Some i \<Longrightarrow> policyTeamIdOf p' = Some t \<Longrightarrow>
      (\<exists>p \<in> set (policies_t st). p_groupId p = Some i \<and> policyTeamIdOf p = Some t) \<or>
      (\<exists>grp. find_first (\<lambda>g. g_id g = i) (groups_t st) = Some grp \<and> g_teamId grp = Some t)"
  shows "folders_ok st'"
proof -
  note ok = folders_okD [OF assms(1)]
  have "well_placed st'" by (rule well_placedI [OF ok(5,1)]) (use assms(2,4) in auto)
  moreover have "lookupGroupParent st' = lookupGroupParent st" by (simp add: lookupGroupParent_def assms(2) fun_eq_iff)
  ultimately show ?thesis using ok assms(2,3) by (intro folders_okI) simp_all
qed

lemma group_request_row:
  "group_request session i body st = Inr (u, ids, grp) \<Longrightarrow> find_first (\<lambda>g. g_id g = i) (groups_t st) = Some grp"
  by (auto simp: group_request_def split: option.splits if_splits)

lemma add_keeps_folders:
  assumes "addPolicies session i body st = (r, st')" "folders_ok st"
  shows "folders_ok st'"
proof (cases "st' = st")
  case False
  note ok = folders_okD [OF assms(2)]
  obtain u ids grp where req: "group_request session i body st = Inr (u, ids, grp)"
    using assms(1) False by (auto simp: addPolicies_def split: sum.splits)
  let ?c = "select_where (\<lambda>p. p_id p \<in> set ids \<and> p_deletedAt p = None) (policies_t st)"
  let ?d = "authorizePolicyActions st \<lparr>pa_userId = u, pa_keyTeamId = None\<rparr> ?c ActUpdate"
  let ?a = "map p_id (filter (\<lambda>p. canPlaceInGroup (decision_for ?d p) p grp) ?c)"
  have st': "st' = st\<lparr>policies_t := update_where (\<lambda>p. p_id p \<in> set ?a) (\<lambda>p. p\<lparr>p_groupId := Some i\<rparr>) (policies_t st)\<rparr>"
    using assms(1) False unfolding addPolicies_def req sum.case prod.case Let_def by (auto simp only: prod.inject split: if_splits)
  have grp: "find_first (\<lambda>g. g_id g = i) (groups_t st) = Some grp" by (rule group_request_row [OF req])
  have sub: "set ?c \<subseteq> set (policies_t st)" by auto
  show ?thesis
  proof (rule same_groups_ok [OF assms(2)])
    show "unique_key p_id (policies_t st')" by (simp add: st' unique_key_update_where ok(3))
    fix p' j t assume p': "p' \<in> set (policies_t st')" "p_groupId p' = Some j" "policyTeamIdOf p' = Some t"
    have "policies_t st' = update_where (\<lambda>p. p_id p \<in> set ?a) (\<lambda>p. p\<lparr>p_groupId := Some i\<rparr>) (policies_t st)"
      unfolding st' by simp
    then have "p' \<in> set (update_where (\<lambda>p. p_id p \<in> set ?a) (\<lambda>p. p\<lparr>p_groupId := Some i\<rparr>) (policies_t st))"
      using p'(1) by (simp only:)
    then obtain p where p: "p \<in> set (policies_t st)" "p' = (if p_id p \<in> set ?a then p\<lparr>p_groupId := Some i\<rparr> else p)"
      unfolding in_update_where by blast
    have t: "policyTeamIdOf p = Some t" using p(2) p'(3) by (simp add: policyTeamIdOf_def split: if_splits)
    show "(\<exists>p \<in> set (policies_t st). p_groupId p = Some j \<and> policyTeamIdOf p = Some t) \<or>
      (\<exists>grp. find_first (\<lambda>g. g_id g = j) (groups_t st) = Some grp \<and> g_teamId grp = Some t)"
    proof (cases "p_id p \<in> set ?a")
      case True
      then have "p_id p \<in> p_id ` set (filter (\<lambda>p. canPlaceInGroup (decision_for ?d p) p grp) ?c)" by (simp only: set_map)
      from decision_in_list [OF ok(3) sub this p(1) refl t] have "g_teamId grp = Some t" .
      moreover have "j = i" using p(2) p'(2) True by simp
      ultimately show ?thesis using grp by blast
    next
      case False
      then show ?thesis using p p'(2) t by auto
    qed
  qed (simp add: st')
qed (use assms in simp)

lemma remove_keeps_folders:
  assumes "removePolicies session i body st = (r, st')" "folders_ok st"
  shows "folders_ok st'"
proof (cases "st' = st")
  case False
  obtain q where st': "st' = st\<lparr>policies_t := update_where q (\<lambda>p. p\<lparr>p_groupId := None\<rparr>) (policies_t st)\<rparr>"
    using assms(1) False unfolding removePolicies_def Let_def by (auto split: sum.splits)
  show ?thesis
  proof (rule same_groups_ok [OF assms(2)])
    show "unique_key p_id (policies_t st')" using folders_okD(3) [OF assms(2)] by (simp add: st' unique_key_update_where)
    fix p' j t assume "p' \<in> set (policies_t st')" "p_groupId p' = Some j" "policyTeamIdOf p' = Some t"
    then show "(\<exists>p \<in> set (policies_t st). p_groupId p = Some j \<and> policyTeamIdOf p = Some t) \<or>
      (\<exists>grp. find_first (\<lambda>g. g_id g = j) (groups_t st) = Some grp \<and> g_teamId grp = Some t)"
      by (auto simp: st' in_update_where split: if_splits)
  qed (simp add: st')
qed (use assms in simp)

lemma drop_team_keeps_folders:
  assumes "deleteTeam session now teamId st = (r, st')" "folders_ok st"
  shows "folders_ok st'"
proof (cases "groups_t st' = groups_t st \<and> policies_t st' = policies_t st")
  case True
  then show ?thesis using assms(2) by (auto simp: folders_ok_def lookupGroupParent_def [abs_def] well_placed_def)
next
  case False
  note ok = folders_okD [OF assms(2)]
  have st': "groups_t st' = delete_where (\<lambda>g. g_teamId g = Some teamId) (groups_t st)"
    "policies_t st' = update_where (\<lambda>p. p_teamId p = Some teamId) (\<lambda>p. p\<lparr>p_teamId := None\<rparr>) (policies_t st)"
    using assms(1) False
    by (auto simp: deleteTeam_def Let_def emit_def emit_all_def revokeTeamKeys_def notifyKeysChanged_def deleteTeam_tx_def split: option.splits sum.splits)
  have "well_placed st'"
  proof (rule well_placedI [OF ok(5,1)])
    fix p' j t assume "p' \<in> set (policies_t st')" "p_groupId p' = Some j" "policyTeamIdOf p' = Some t"
    then show "(\<exists>p \<in> set (policies_t st). p_groupId p = Some j \<and> policyTeamIdOf p = Some t) \<or>
      (\<exists>grp. find_first (\<lambda>g. g_id g = j) (groups_t st) = Some grp \<and> g_teamId grp = Some t) \<or>
      find_first (\<lambda>g. g_id g = j) (groups_t st) = None"
      unfolding st' by (auto simp: in_update_where policyTeamIdOf_def split: if_splits)
  qed (auto simp: st')
  moreover have "or_null (lookupGroupParent st' j) = Some c \<Longrightarrow> or_null (lookupGroupParent st j) = Some c" for j c
  proof -
    assume "or_null (lookupGroupParent st' j) = Some c"
    then have c: "lookupGroupParent st' j = Some c" "c \<noteq> []" by (auto simp: or_null_Some)
    then obtain g where "g \<in> set (groups_t st)" "g_id g = j" "g_parentId g = Some c"
      using lookup_row [OF c(1)] by (auto simp: st')
    then show ?thesis using lookup_found [OF ok(1)] c(2) by (auto simp: or_null_Some)
  qed
  then have "acyclic (up (lookupGroupParent st'))" by (rule up_mono [OF _ ok(4)])
  moreover have "[] \<notin> g_id ` set (groups_t st')" by (rule no_empty_id [OF ok(2)]) (auto simp: st')
  ultimately show ?thesis using ok(1,3)
    by (intro folders_okI) (simp_all add: st' unique_key_delete_where unique_key_update_where)
qed


definition new_folder :: "string \<Rightarrow> string option \<Rightarrow> group_body" where
  "new_folder name parent =
     \<lparr>gb_name = Some name, gb_description = None, gb_icon = None, gb_parentId = parent, gb_teamId = None\<rparr>"


section \<open>The guard is exact\<close>

lemma climbs_ends:
  assumes "finite D" "card D \<le> MAX_GROUP_DEPTH"
  shows "acyclic (up f) \<Longrightarrow> (\<And>i. i \<notin> D \<Longrightarrow> or_null (f i) = None) \<Longrightarrow> distinct visited \<Longrightarrow> set visited \<subseteq> D \<Longrightarrow>
    (\<And>x c. x \<in> set visited \<Longrightarrow> or_null current = Some c \<Longrightarrow> (x, c) \<in> (up f)\<^sup>+) \<Longrightarrow> \<not> climbs f visited current"
proof (induction f visited current rule: climbs.induct)
  case (1 f visited current)
  show ?case
  proof (cases "or_null current")
    case None
    then show ?thesis by (simp add: climbs.simps)
  next
    case (Some c)
    have c: "c \<notin> set visited" using "1.prems"(1) "1.prems"(5) [OF _ Some] by (auto simp: acyclic_def)
    have "length visited \<le> card D" using "1.prems"(3,4) assms(1) by (metis card_mono distinct_card)
    then have go: "\<not> (c \<in> set visited \<or> MAX_GROUP_DEPTH < length visited)" using c assms(2) by simp
    have "\<not> climbs f (c # visited) (f c)"
    proof (cases "c \<in> D")
      case True
      have "(x, d) \<in> (up f)\<^sup>+" if "x \<in> set (c # visited)" "or_null (f c) = Some d" for x d
      proof -
        have "(c, d) \<in> up f" using that(2) by (simp add: up_def)
        then show ?thesis using that(1) "1.prems"(5) [OF _ Some] by (auto intro: trancl_into_trancl)
      qed
      then show ?thesis using "1.IH" [OF Some go "1.prems"(1,2)] "1.prems"(3,4) c True by simp
    next
      case False
      then show ?thesis using "1.prems"(2) by (simp add: climbs.simps [of f "c # visited"])
    qed
    then show ?thesis using go Some by (simp add: climbs.simps [of f visited current])
  qed
qed

text \<open>
  With at most 256 groups the guard refuses a batch of edits exactly when they close a cycle.
\<close>

theorem cycle_guard_exact:
  assumes "acyclic (up (lookupGroupParent st))" "card (g_id ` set (groups_t st)) \<le> 256"
    "fst ` set edits \<subseteq> g_id ` set (groups_t st)" "distinct (map fst edits)"
  shows "wouldCreateParentCycle edits (lookupGroupParent st) \<longleftrightarrow>
    \<not> acyclic (up (edited_parent edits (lookupGroupParent st)))"
proof
  let ?f = "edited_parent edits (lookupGroupParent st)"
  assume w: "wouldCreateParentCycle edits (lookupGroupParent st)"
  show "\<not> acyclic (up ?f)"
  proof
    assume a: "acyclic (up ?f)"
    obtain i p where e: "(i, p) \<in> set edits" "climbs ?f [i] p" using w by (auto simp: wouldCreateParentCycle_def list_ex_iff)
    have p: "?f i = p" using map_of_is_SomeI [OF assms(4) e(1)] by (simp add: edited_parent_def)
    have "\<not> climbs ?f [i] p"
    proof (rule climbs_ends [of "g_id ` set (groups_t st)", OF _ _ a])
      show "card (g_id ` set (groups_t st)) \<le> MAX_GROUP_DEPTH" using assms(2) by (simp add: MAX_GROUP_DEPTH_def)
      show "set [i] \<subseteq> g_id ` set (groups_t st)" using e(1) assms(3) by force
      show "(x, c) \<in> (up ?f)\<^sup>+" if "x \<in> set [i]" "or_null p = Some c" for x c
        using that p by (auto simp: up_def)
      show "or_null (?f j) = None" if "j \<notin> g_id ` set (groups_t st)" for j
      proof -
        have "map_of edits j = None" using that assms(3) by (auto simp: map_of_eq_None_iff)
        moreover have "find_first (\<lambda>g. g_id g = j) (groups_t st) = None" using that by (auto simp: find_first_None)
        ultimately show ?thesis by (simp add: edited_parent_def lookupGroupParent_def)
      qed
    qed simp_all
    then show False using e(2) by simp
  qed
next
  assume "\<not> acyclic (up (edited_parent edits (lookupGroupParent st)))"
  then show "wouldCreateParentCycle edits (lookupGroupParent st)" using guard_sound [OF assms(1)] by blast
qed

definition two_folders :: store where
  "two_folders = empty_store\<lparr>groups_t := [group_of ''a'' None (Some ''u'') None, group_of ''b'' None (Some ''u'') None]\<rparr>"

theorem cycle_guard_exact_witness:
  "wouldCreateParentCycle [(''a'', Some ''b''), (''b'', Some ''a'')] (lookupGroupParent two_folders) \<and>
   \<not> acyclic (up (edited_parent [(''a'', Some ''b''), (''b'', Some ''a'')] (lookupGroupParent two_folders)))"
proof -
  have none: "or_null (lookupGroupParent two_folders i) = None" for i
    by (simp add: lookupGroupParent_def two_folders_def split: if_splits)
  have "acyclic (up (lookupGroupParent two_folders))" by (simp add: up_def none acyclic_def)
  moreover have "card (g_id ` set (groups_t two_folders)) \<le> 256" by (simp add: two_folders_def)
  moreover have "fst ` set [(''a'', Some ''b''), (''b'', Some ''a'')] \<subseteq> g_id ` set (groups_t two_folders)"
    by (simp add: two_folders_def)
  moreover have "distinct (map fst [(''a'', Some ''b''), (''b'', Some ''a'')])" by simp
  ultimately have "wouldCreateParentCycle [(''a'', Some ''b''), (''b'', Some ''a'')] (lookupGroupParent two_folders) \<longleftrightarrow>
    \<not> acyclic (up (edited_parent [(''a'', Some ''b''), (''b'', Some ''a'')] (lookupGroupParent two_folders)))"
    by (rule cycle_guard_exact)
  moreover have "wouldCreateParentCycle [(''a'', Some ''b''), (''b'', Some ''a'')] (lookupGroupParent two_folders)"
    by (simp add: wouldCreateParentCycle_def climbs.simps edited_parent_def MAX_GROUP_DEPTH_def)
  ultimately show ?thesis by simp
qed

section \<open>Deleting and races\<close>

text \<open>
  After a deletion nothing names the group any more: no policy is in it and no group is below it.
\<close>

theorem deleted_group_leaves_no_reference:
  assumes "deleteGroup session i movePolicies moveChildren st = (Reply 200 [], st')"
  shows "Some i \<notin> p_groupId ` set (policies_t st') \<and> i \<notin> g_id ` set (groups_t st') \<and>
    Some i \<notin> g_parentId ` set (groups_t st')"
proof -
  obtain u grp where e: "editable_group st u i = Some grp"
    "st' = delete_group_tx u grp (nullish movePolicies True) (nullish moveChildren True) st"
    using assms by (auto simp: deleteGroup_def split: option.splits if_splits)
  have i: "g_id grp = i" using editable_row [OF e(1)] by simp
  have "p_groupId p \<noteq> Some i" if "p \<in> set (policies_t st')" for p
    using policies_after_delete [of p] that i unfolding e(2) by blast
  moreover have "g_id g \<noteq> i \<and> g_parentId g \<noteq> Some i" if "g \<in> set (groups_t st')" for g
    using groups_after_delete [OF that [unfolded e(2)]] i by simp
  ultimately show ?thesis by (metis imageE)
qed

theorem deleted_group_leaves_no_reference_witness:
  "map p_groupId (policies_t (snd (deleteGroup (Some ''u'') ''g'' None None
     (empty_store\<lparr>groups_t := [group_of ''g'' (Some ''top'') (Some ''u'') None, group_of ''top'' None (Some ''u'') None],
        policies_t := [(policy_of ''p'' ''u'' None)\<lparr>p_groupId := Some ''g''\<rparr>, (policy_of ''q'' ''v'' None)\<lparr>p_groupId := Some ''g''\<rparr>]\<rparr>)))) =
     [Some ''top'', None] \<and>
   Some ''g'' \<notin> p_groupId ` set (policies_t (snd (deleteGroup (Some ''u'') ''g'' None None
     (empty_store\<lparr>groups_t := [group_of ''g'' (Some ''top'') (Some ''u'') None, group_of ''top'' None (Some ''u'') None],
        policies_t := [(policy_of ''p'' ''u'' None)\<lparr>p_groupId := Some ''g''\<rparr>, (policy_of ''q'' ''v'' None)\<lparr>p_groupId := Some ''g''\<rparr>]\<rparr>))))"
  (is "map p_groupId (policies_t (snd ?r)) = _ \<and> _")
proof -
  have "fst ?r = Reply 200 []" by code_simp
  then have "?r = (Reply 200 [], snd ?r)" by (metis prod.collapse)
  from deleted_group_leaves_no_reference [OF this]
  have "Some ''g'' \<notin> p_groupId ` set (policies_t (snd ?r))" by blast
  moreover have "map p_groupId (policies_t (snd ?r)) = [Some ''top'', None]" by code_simp
  ultimately show ?thesis by blast
qed

definition moved_under :: "row_id \<Rightarrow> group_edit" where
  "moved_under p = \<lparr>ge_name = None, ge_description = None, ge_icon = None, ge_parentId = Some (Some p), ge_sortOrder = None\<rparr>"

text \<open>
  Two overlapping moves that both pass the guard close a cycle: each was checked before the other was
  written.
\<close>

theorem overlapping_moves_make_cycle:
  "edit_check ''u'' ''a'' (moved_under ''b'') two_folders = None \<and>
   edit_check ''u'' ''b'' (moved_under ''a'') two_folders = None \<and>
   (let st = snd (edit_write ''b'' (moved_under ''a'') (snd (edit_write ''a'' (moved_under ''b'') two_folders)))
    in lookupGroupParent st ''a'' = Some ''b'' \<and> lookupGroupParent st ''b'' = Some ''a'')"
  by (simp add: edit_check_def editable_group_def own_group_def parent_for_def two_folders_def moved_under_def
      wouldCreateParentCycle_def climbs.simps edited_parent_def lookupGroupParent_def MAX_GROUP_DEPTH_def edit_write_def edit_row_def Let_def)

definition team_folder :: store where
  "team_folder = empty_store\<lparr>
     members_t := [member_of ''m'' ''t'' ''u'' Owner], teams_t := [team_owned ''t'' ''u''],
     groups_t := [group_of ''g'' None None (Some ''t'')],
     policies_t := [(policy_of ''p'' ''u'' None)\<lparr>p_groupId := Some ''g''\<rparr>]\<rparr>"

text \<open>
  Deleting a team drops its folders without emptying them: a policy keeps the id of a folder that is gone.
\<close>

theorem team_deletion_leaves_dangling_folder:
  "let st = snd (deleteTeam (Some ''u'') 0 ''t'' team_folder)
   in map p_groupId (policies_t st) = [Some ''g''] \<and> groups_t st = []"
  unfolding Let_def by (intro conjI; code_simp)

end
