(* ===== verification/Plans.thy ===== *)
theory Plans
  imports Schema
begin

text \<open>
  The plans of the service and their limits (\<open>src/src/lib/plans.ts\<close>), the metering of monthly usage
  (\<open>lib/usage.ts\<close>, \<open>lib/execution-quota.ts\<close>, \<open>lib/plan-quota.ts\<close>) and the freezing of policies beyond
  the limit (\<open>lib/policy-freeze.ts\<close>). The limit -1 means unlimited. The current month is an argument,
  the text that \<open>getCurrentPeriod\<close> makes of the clock.
\<close>

section \<open>Plans\<close>

datatype plan = Free | Trial | Pro | Team_plan | Enterprise

fun plan_name :: "plan \<Rightarrow> string" where
  "plan_name Free = ''free''"
| "plan_name Trial = ''trial''"
| "plan_name Pro = ''pro''"
| "plan_name Team_plan = ''team''"
| "plan_name Enterprise = ''enterprise''"

definition plans :: "plan list" where "plans = [Free, Trial, Pro, Team_plan, Enterprise]"

definition plan_of :: "string \<Rightarrow> plan option" where
  "plan_of s = find_first (\<lambda>p. plan_name p = s) plans"

record plan_limits =
  pl_policies :: int
  pl_executions :: int
  pl_apiCalls :: int
  pl_apiKeys :: int
  pl_teamMembers :: int

datatype limit_type = L_policies | L_executions | L_apiCalls | L_apiKeys | L_teamMembers

fun limits_of :: "plan \<Rightarrow> plan_limits" where
  "limits_of Free = \<lparr>pl_policies = 5, pl_executions = 1000, pl_apiCalls = 0, pl_apiKeys = 0, pl_teamMembers = 1\<rparr>"
| "limits_of Enterprise = \<lparr>pl_policies = - 1, pl_executions = - 1, pl_apiCalls = - 1, pl_apiKeys = - 1, pl_teamMembers = - 1\<rparr>"
| "limits_of _ = \<lparr>pl_policies = 100, pl_executions = 50000, pl_apiCalls = 5000, pl_apiKeys = 5, pl_teamMembers = - 1\<rparr>"

fun limit_field :: "limit_type \<Rightarrow> plan_limits \<Rightarrow> int" where
  "limit_field L_policies l = pl_policies l"
| "limit_field L_executions l = pl_executions l"
| "limit_field L_apiCalls l = pl_apiCalls l"
| "limit_field L_apiKeys l = pl_apiKeys l"
| "limit_field L_teamMembers l = pl_teamMembers l"

definition getPlanLimit :: "plan \<Rightarrow> limit_type \<Rightarrow> int" where
  "getPlanLimit p t = limit_field t (limits_of p)"

definition isUnlimited :: "int \<Rightarrow> bool" where "isUnlimited limit \<longleftrightarrow> limit = - 1"

definition canAccessApiKeys :: "plan \<Rightarrow> bool" where
  "canAccessApiKeys p \<longleftrightarrow> (let n = pl_apiKeys (limits_of p) in n = - 1 \<or> 0 < n)"

text \<open>A capability is a flag, a number, or text; flags a plan does not list are undefined.\<close>

datatype capability =
    C_piiDetection | C_sharing | C_evidenceExport | C_apiAccess | C_teamFeatures | C_sso | C_auditLogs
  | C_customLexicon | C_customLexiconMaxTerms | C_customLexiconBulkUploadAsync | C_customIntegrations

datatype capability_value = Flag bool | Amount int | Text string | Undefined

fun lexicon_terms :: "plan \<Rightarrow> int" where
  "lexicon_terms Free = 0"
| "lexicon_terms Trial = 500"
| "lexicon_terms Pro = 5000"
| "lexicon_terms Team_plan = 25000"
| "lexicon_terms Enterprise = - 1"

fun capability_of :: "plan \<Rightarrow> capability \<Rightarrow> capability_value" where
  "capability_of p C_piiDetection = Text (if p = Free then ''basic'' else ''advanced'')"
| "capability_of p C_sso = (if p \<in> {Team_plan, Enterprise} then Flag True else Undefined)"
| "capability_of p C_auditLogs = (if p \<in> {Pro, Team_plan, Enterprise} then Flag True else Undefined)"
| "capability_of p C_customIntegrations = (if p = Enterprise then Flag True else Undefined)"
| "capability_of p C_customLexiconMaxTerms = Amount (lexicon_terms p)"
| "capability_of p C_customLexiconBulkUploadAsync = Flag (p \<in> {Pro, Team_plan, Enterprise})"
| "capability_of p _ = Flag (p \<noteq> Free)"

text \<open>\<open>Boolean(v)\<close>.\<close>

fun capability_truthy :: "capability_value \<Rightarrow> bool" where
  "capability_truthy (Flag b) = b"
| "capability_truthy (Amount n) = (n \<noteq> 0)"
| "capability_truthy (Text s) = (s \<noteq> [])"
| "capability_truthy Undefined = False"

definition hasCapability :: "plan \<Rightarrow> capability \<Rightarrow> bool" where
  "hasCapability p c = capability_truthy (capability_of p c)"

fun feature_keys :: "plan \<Rightarrow> string list" where
  "feature_keys Free = [''rules5'', ''evaluations1k'', ''aiDrafts20'', ''allLanguagePacks'', ''audit7days'']"
| "feature_keys Trial = [''rules100'', ''evaluations50k'', ''aiDrafts500'', ''audit90days'']"
| "feature_keys Pro = [''unlimitedTeamMembers'', ''rules100'', ''evaluations50k'', ''aiDrafts500'', ''allLanguagePacks'',
     ''audit90days'', ''inviteReviewersPaidSeat'', ''reviewerNotAuthor'', ''soxCompliant'', ''stripeBilling'', ''customDomainVocabulary'']"
| "feature_keys Team_plan = [''unlimitedTeamMembers'', ''rules100'', ''evaluations50k'', ''aiDrafts500'', ''allLanguagePacks'',
     ''audit90days'', ''reviewerNotAuthor'', ''soxCompliant'', ''customDomainVocabulary'']"
| "feature_keys Enterprise = [''multiTeamCustomApprovals'', ''auditUnlimited'', ''unlimitedRulesEvaluations'', ''unlimitedAiDraftsByok'',
     ''customIndustryLexicons'', ''hashChainAuditSignature'', ''ssoSamlOidc'', ''customDeployment'', ''slaGuarantee'', ''dedicatedSupport'',
     ''customDomainVocabulary'']"

definition hasFeature :: "plan \<Rightarrow> string \<Rightarrow> bool" where
  "hasFeature p feature \<longleftrightarrow> feature \<in> set (feature_keys p)"

section \<open>Prices\<close>

datatype currency = USD | CNY | EUR
datatype interval = Monthly | Yearly

fun PLAN_PRICES :: "currency \<Rightarrow> interval \<Rightarrow> nat" where
  "PLAN_PRICES USD Monthly = 39"
| "PLAN_PRICES USD Yearly = 374"
| "PLAN_PRICES CNY Monthly = 299"
| "PLAN_PRICES CNY Yearly = 2870"
| "PLAN_PRICES EUR Monthly = 36"
| "PLAN_PRICES EUR Yearly = 346"

definition getCurrencyForLocale :: "string \<Rightarrow> currency" where
  "getCurrencyForLocale locale =
     (if locale = ''zh'' then CNY else if locale = ''de'' \<or> locale = ''fr'' then EUR else USD)"

definition getProPrice :: "currency \<Rightarrow> interval \<Rightarrow> nat" where "getProPrice c i = PLAN_PRICES c i"

text \<open>No price is \<open>None\<close>.\<close>

definition getPlanPrice :: "plan \<Rightarrow> currency \<Rightarrow> interval \<Rightarrow> nat option" where
  "getPlanPrice p c i =
     (case p of Pro \<Rightarrow> Some (PLAN_PRICES c i) | Team_plan \<Rightarrow> Some (PLAN_PRICES c i)
      | Free \<Rightarrow> Some 0 | Trial \<Rightarrow> Some 0 | Enterprise \<Rightarrow> None)"

text \<open>\<open>Math.round(monthly * 12 * 0.8)\<close>, with the discount as tenths.\<close>

definition getAnnualAmount :: "nat \<Rightarrow> nat" where
  "getAnnualAmount monthly = (monthly * 12 * 8 + 5) div 10"

text \<open>The price ids of the Pro plan come from the environment; the other plans have none.\<close>

type_synonym price_env = "currency \<Rightarrow> interval \<Rightarrow> string option"

definition price_id :: "price_env \<Rightarrow> plan \<Rightarrow> currency \<Rightarrow> interval \<Rightarrow> string option" where
  "price_id env p c i = (if p = Pro then or_null (env c i) else None)"

definition getPlanStripePriceId :: "price_env \<Rightarrow> plan \<Rightarrow> interval \<Rightarrow> currency \<Rightarrow> string option" where
  "getPlanStripePriceId env p i c =
     (case price_id env p c i of
        Some s \<Rightarrow> Some s
      | None \<Rightarrow>
          (case (if c \<noteq> USD then price_id env p USD i else None) of
             Some s \<Rightarrow> Some s
           | None \<Rightarrow> if p = Pro then env USD i else None))"

definition price_entries :: "price_env \<Rightarrow> (string \<times> plan \<times> interval \<times> currency) list" where
  "price_entries env =
     List.map_filter (\<lambda>(c, i). map_option (\<lambda>s. (s, Pro, i, c)) (price_id env Pro c i))
       [(USD, Monthly), (USD, Yearly), (CNY, Monthly), (CNY, Yearly), (EUR, Monthly), (EUR, Yearly)]"

text \<open>A later entry of the same id replaces an earlier one.\<close>

definition lookupPriceId :: "price_env \<Rightarrow> string option \<Rightarrow> (plan \<times> interval \<times> currency) option" where
  "lookupPriceId env priceId = Option.bind (or_null priceId) (map_of (rev (price_entries env)))"

section \<open>Limits that a customer signed for\<close>

record effective_limits =
  el_publishedRules :: int
  el_evaluations :: int
  el_apiCalls :: int
  el_apiKeys :: int
  el_auditRetentionDays :: int
  el_maxTeamMembers :: int
  el_approvalRequired :: bool
  el_concurrentReplayBatches :: int
  el_minSeats :: int
  el_approvalSeatThreshold :: "int option"
  el_customRoles :: "bool option"

definition effective :: "int \<Rightarrow> int \<Rightarrow> int \<Rightarrow> int \<Rightarrow> int \<Rightarrow> int \<Rightarrow> bool \<Rightarrow> int \<Rightarrow> effective_limits" where
  "effective rules evals calls keys days members approval batches =
     \<lparr>el_publishedRules = rules, el_evaluations = evals, el_apiCalls = calls, el_apiKeys = keys, el_auditRetentionDays = days,
      el_maxTeamMembers = members, el_approvalRequired = approval, el_concurrentReplayBatches = batches, el_minSeats = 1,
      el_approvalSeatThreshold = None, el_customRoles = None\<rparr>"

fun PM_PLAN_LIMITS_V2 :: "plan \<Rightarrow> effective_limits option" where
  "PM_PLAN_LIMITS_V2 Free = Some (effective 5 1000 0 0 7 1 False 0)"
| "PM_PLAN_LIMITS_V2 Pro = Some ((effective 100 50000 5000 5 90 (- 1) True 1)\<lparr>el_approvalSeatThreshold := Some 2\<rparr>)"
| "PM_PLAN_LIMITS_V2 Enterprise = Some ((effective (- 1) (- 1) (- 1) (- 1) (- 1) (- 1) True (- 1))\<lparr>el_customRoles := Some True\<rparr>)"
| "PM_PLAN_LIMITS_V2 _ = None"

fun LEGACY_PLAN_LIMITS :: "plan \<Rightarrow> effective_limits option" where
  "LEGACY_PLAN_LIMITS Free = Some (effective 3 100 0 0 7 1 False 0)"
| "LEGACY_PLAN_LIMITS Trial = Some (effective 25 5000 1000 5 30 5 False 1)"
| "LEGACY_PLAN_LIMITS Pro = Some (effective 25 5000 5000 5 90 5 False 1)"
| "LEGACY_PLAN_LIMITS Enterprise = Some (effective (- 1) (- 1) (- 1) (- 1) (- 1) (- 1) True (- 1))"
| "LEGACY_PLAN_LIMITS Team_plan = None"

definition PRICE_LOCKED_CUTOFF :: date where "PRICE_LOCKED_CUTOFF = 1780272000000"

definition getEffectiveLimits :: "plan \<Rightarrow> date option \<Rightarrow> effective_limits" where
  "getEffectiveLimits p lockedAt =
     (let legacy = (case lockedAt of Some t \<Rightarrow> if t < PRICE_LOCKED_CUTOFF then LEGACY_PLAN_LIMITS p else None | None \<Rightarrow> None);
          normalized = (if p = Team_plan \<or> p = Trial then Pro else p)
      in case legacy of
           Some l \<Rightarrow> l
         | None \<Rightarrow> (case PM_PLAN_LIMITS_V2 normalized of Some l \<Rightarrow> l | None \<Rightarrow> effective 5 1000 0 0 7 1 False 0))"

definition getDisplayPlan :: "plan \<Rightarrow> plan" where
  "getDisplayPlan p = (if p = Enterprise then Enterprise else if p \<in> {Pro, Team_plan, Trial} then Pro else Free)"

end
