(* ===== verification/Usage.thy ===== *)
theory Usage
  imports Plans "HOL-Library.List_Lexorder" "HOL-Library.Product_Lexorder"
begin

text \<open>
  Metering and freezing: \<open>src/src/lib/usage.ts\<close>, \<open>lib/execution-quota.ts\<close>, \<open>lib/plan-quota.ts\<close> and
  \<open>lib/policy-freeze.ts\<close>. Checking and recording are separate statements of the database, so requests
  can overlap between them.
\<close>

section \<open>State\<close>

record plan_user =
  pu_id :: user_id
  pu_plan :: plan
  pu_trialEndsAt :: "date option"
  pu_priceLockedAt :: "date option"

datatype usage_type = Use_execution | Use_pii_scan | Use_compliance_report | Use_api_call

record usage_row =
  us_id :: row_id
  us_userId :: user_id
  us_type :: usage_type
  us_count :: int
  us_period :: string

record usage_store =
  uo_users :: "plan_user table"
  uo_usage :: "usage_row table"
  uo_policies :: "policy_row table"

fun USAGE_LIMIT_MAPPING :: "usage_type \<Rightarrow> limit_type option" where
  "USAGE_LIMIT_MAPPING Use_execution = Some L_executions"
| "USAGE_LIMIT_MAPPING Use_api_call = Some L_apiCalls"
| "USAGE_LIMIT_MAPPING _ = None"

text \<open>The column is an enumeration of the plan names; anything else counts as free.\<close>

definition normalizePlan :: "string option \<Rightarrow> plan" where
  "normalizePlan s = nullish (Option.bind (or_null s) plan_of) Free"

section \<open>The plan in force\<close>

text \<open>An expired trial is a free plan; the second component tells so.\<close>

definition resolvePlan :: "plan \<Rightarrow> date option \<Rightarrow> date \<Rightarrow> plan \<times> bool" where
  "resolvePlan p trialEndsAt now =
     (if p = Trial \<and> (case trialEndsAt of None \<Rightarrow> False | Some e \<Rightarrow> e < now) then (Free, True) else (p, False))"

definition find_user :: "user_id \<Rightarrow> usage_store \<Rightarrow> plan_user option" where
  "find_user userId st = find_first (\<lambda>u. pu_id u = userId) (uo_users st)"

text \<open>The write that follows a read which found the trial expired.\<close>

definition write_plan :: "user_id \<Rightarrow> plan \<Rightarrow> usage_store \<Rightarrow> usage_store" where
  "write_plan userId p st = st\<lparr>uo_users := update_where (\<lambda>u. pu_id u = userId) (\<lambda>u. u\<lparr>pu_plan := p\<rparr>) (uo_users st)\<rparr>"

definition plan_in_force :: "user_id \<Rightarrow> plan_user \<Rightarrow> date \<Rightarrow> usage_store \<Rightarrow> plan \<times> usage_store" where
  "plan_in_force userId u now st =
     (case resolvePlan (pu_plan u) (pu_trialEndsAt u) now of
        (p, True) \<Rightarrow> (p, write_plan userId p st) | (p, False) \<Rightarrow> (p, st))"

section \<open>Monthly usage\<close>

record usage_check =
  uc_allowed :: bool
  uc_remaining :: "int option"
  uc_limit :: "int option"
  uc_used :: "int option"

definition usage_of :: "user_id \<Rightarrow> usage_type \<Rightarrow> string \<Rightarrow> usage_store \<Rightarrow> int" where
  "usage_of userId ty period st =
     (case find_first (\<lambda>r. us_userId r = userId \<and> us_type r = ty \<and> us_period r = period) (uo_usage st) of
        None \<Rightarrow> 0 | Some r \<Rightarrow> us_count r)"

definition checkUsageLimit :: "user_id \<Rightarrow> usage_type \<Rightarrow> date \<Rightarrow> string \<Rightarrow> usage_store \<Rightarrow> usage_check \<times> usage_store" where
  "checkUsageLimit userId ty now period st =
     (case find_user userId st of
        None \<Rightarrow> (\<lparr>uc_allowed = False, uc_remaining = None, uc_limit = None, uc_used = None\<rparr>, st)
      | Some u \<Rightarrow>
          (case plan_in_force userId u now st of (p, st1) \<Rightarrow>
            (case USAGE_LIMIT_MAPPING ty of
               None \<Rightarrow> (\<lparr>uc_allowed = True, uc_remaining = Some (- 1), uc_limit = Some (- 1), uc_used = None\<rparr>, st1)
             | Some key \<Rightarrow>
                 let limit = getPlanLimit p key in
                 if isUnlimited limit
                 then (\<lparr>uc_allowed = True, uc_remaining = Some (- 1), uc_limit = Some limit, uc_used = None\<rparr>, st1)
                 else
                   let used = usage_of userId ty period st1 in
                   if limit \<le> used
                   then (\<lparr>uc_allowed = False, uc_remaining = Some 0, uc_limit = Some limit, uc_used = Some used\<rparr>, st1)
                   else (\<lparr>uc_allowed = True, uc_remaining = Some (limit - used), uc_limit = Some limit, uc_used = Some used\<rparr>, st1))))"

definition recordUsage :: "row_id \<Rightarrow> user_id \<Rightarrow> usage_type \<Rightarrow> int \<Rightarrow> string \<Rightarrow> usage_store \<Rightarrow> usage_store" where
  "recordUsage newId userId ty n period st =
     (let key = (\<lambda>r. us_userId r = userId \<and> us_type r = ty \<and> us_period r = period) in
      st\<lparr>uo_usage :=
        (if find_first key (uo_usage st) = None
         then insert_row \<lparr>us_id = newId, us_userId = userId, us_type = ty, us_count = n, us_period = period\<rparr> (uo_usage st)
         else update_where key (\<lambda>r. r\<lparr>us_count := us_count r + n\<rparr>) (uo_usage st))\<rparr>)"

text \<open>The gate of the execution routes: \<open>None\<close> lets the call through.\<close>

datatype upgrade_reason =
    Up_published_rules | Up_evaluations | Up_audit_retention | Up_sso | Up_data_residency
  | Up_reviewer_required | Up_team_member_invite

definition recommendedPlan :: "upgrade_reason \<Rightarrow> plan" where
  "recommendedPlan reason = (if reason \<in> {Up_audit_retention, Up_sso, Up_data_residency} then Enterprise else Pro)"

datatype quota_rejection = Unauthorized | Upgrade nat upgrade_reason plan "int option" "int option"

definition executionQuotaRejection :: "user_id \<Rightarrow> date \<Rightarrow> string \<Rightarrow> usage_store \<Rightarrow> quota_rejection option \<times> usage_store" where
  "executionQuotaRejection userId now period st =
     (case checkUsageLimit userId Use_execution now period st of (check, st1) \<Rightarrow>
        (if uc_allowed check then None
         else case uc_limit check of
           None \<Rightarrow> Some Unauthorized
         | Some limit \<Rightarrow> Some (Upgrade 429 Up_evaluations (recommendedPlan Up_evaluations)
             (Some (nullish (uc_used check) limit)) (Some limit)), st1))"

definition hasFeatureAccess :: "user_id \<Rightarrow> capability \<Rightarrow> date \<Rightarrow> usage_store \<Rightarrow> bool \<times> usage_store" where
  "hasFeatureAccess userId feature now st =
     (case find_user userId st of
        None \<Rightarrow> (False, st)
      | Some u \<Rightarrow>
          (case plan_in_force userId u now st of (p, st1) \<Rightarrow>
            (case capability_of p feature of
               Flag b \<Rightarrow> b | Amount n \<Rightarrow> n = - 1 \<or> 0 < n | v \<Rightarrow> capability_truthy v, st1)))"

record lexicon_quota =
  lq_maxTerms :: int
  lq_bulkAsync :: bool
  lq_allowed :: bool
  lq_plan :: plan
  lq_downgraded :: bool
  lq_trialEndsAt :: "date option"

definition getLexiconQuotaWithContext :: "user_id \<Rightarrow> date \<Rightarrow> usage_store \<Rightarrow> lexicon_quota \<times> usage_store" where
  "getLexiconQuotaWithContext userId now st =
     (case find_user userId st of
        None \<Rightarrow> (\<lparr>lq_maxTerms = 0, lq_bulkAsync = False, lq_allowed = False, lq_plan = Free, lq_downgraded = False,
                 lq_trialEndsAt = None\<rparr>, st)
      | Some u \<Rightarrow>
          (case plan_in_force userId u now st of (p, st1) \<Rightarrow>
            let maxTerms = lexicon_terms p in
            (\<lparr>lq_maxTerms = maxTerms, lq_bulkAsync = hasCapability p C_customLexiconBulkUploadAsync,
              lq_allowed = (hasCapability p C_customLexicon \<and> (maxTerms = - 1 \<or> 0 < maxTerms)), lq_plan = p,
              lq_downgraded = snd (resolvePlan (pu_plan u) (pu_trialEndsAt u) now), lq_trialEndsAt = pu_trialEndsAt u\<rparr>, st1)))"

text \<open>The limits shown to the user, with the plan they are computed for.\<close>

record usage_stats =
  ut_plan :: plan
  ut_limits :: plan_limits
  ut_executions :: int
  ut_apiCalls :: int
  ut_piiScans :: int
  ut_evidenceExports :: int
  ut_policies :: nat
  ut_trialDaysLeft :: "int option"
  ut_features :: "capability_value list"

definition shown_limits :: "plan \<Rightarrow> date option \<Rightarrow> plan_limits" where
  "shown_limits p lockedAt =
     (let l = getEffectiveLimits p lockedAt in
      \<lparr>pl_policies = el_publishedRules l, pl_executions = el_evaluations l, pl_apiCalls = el_apiCalls l,
       pl_apiKeys = el_apiKeys l, pl_teamMembers = el_maxTeamMembers l\<rparr>)"

definition getUsageStats :: "user_id \<Rightarrow> date \<Rightarrow> string \<Rightarrow> usage_store \<Rightarrow> usage_stats \<times> usage_store" where
  "getUsageStats userId now period st =
     (let u = find_user userId st;
          (p, downgraded) = (case u of None \<Rightarrow> (Free, False) | Some u \<Rightarrow> resolvePlan (pu_plan u) (pu_trialEndsAt u) now);
          st1 = (if downgraded then write_plan userId p st else st)
      in (\<lparr>ut_plan = p, ut_limits = shown_limits p (Option.bind u pu_priceLockedAt),
           ut_executions = usage_of userId Use_execution period st, ut_apiCalls = usage_of userId Use_api_call period st,
           ut_piiScans = usage_of userId Use_pii_scan period st,
           ut_evidenceExports = usage_of userId Use_compliance_report period st,
           ut_policies = count_where (\<lambda>q. p_userId q = userId \<and> p_deletedAt q = None) (uo_policies st),
           ut_trialDaysLeft = (if p = Trial then map_option (\<lambda>e. max 0 (- ((now - e) div 86400000))) (Option.bind u pu_trialEndsAt)
             else None),
           ut_features = map (capability_of p) [C_piiDetection, C_sharing, C_evidenceExport, C_apiAccess, C_teamFeatures]\<rparr>, st1))"

section \<open>Freezing\<close>

definition policies_limit :: "plan_user \<Rightarrow> date \<Rightarrow> int" where
  "policies_limit u now = getPlanLimit (fst (resolvePlan (pu_plan u) (pu_trialEndsAt u) now)) L_policies"

text \<open>\<open>ORDER BY updatedAt DESC, id ASC\<close>.\<close>

definition newest_first :: "policy_row list \<Rightarrow> policy_row list" where
  "newest_first ps = sort_key (\<lambda>p. (- p_updatedAt p, p_id p)) ps"

definition policies_of :: "user_id \<Rightarrow> usage_store \<Rightarrow> policy_row list" where
  "policies_of userId st = select_where (\<lambda>p. p_userId p = userId) (uo_policies st)"

record freeze_status =
  fs_limit :: int
  fs_total :: nat
  fs_frozen :: "policy_id list"

text \<open>The set of frozen ids, as the list in which they are added.\<close>

definition getPolicyFreezeStatus :: "user_id \<Rightarrow> date \<Rightarrow> usage_store \<Rightarrow> freeze_status" where
  "getPolicyFreezeStatus userId now st =
     (case find_user userId st of
        None \<Rightarrow> \<lparr>fs_limit = 0, fs_total = 0, fs_frozen = []\<rparr>
      | Some u \<Rightarrow>
          let limit = policies_limit u now; ps = policies_of userId st in
          if isUnlimited limit then \<lparr>fs_limit = - 1, fs_total = length ps, fs_frozen = []\<rparr>
          else \<lparr>fs_limit = limit, fs_total = length ps, fs_frozen = map p_id (drop (nat limit) (newest_first ps))\<rparr>)"

record freeze_info =
  fi_isFrozen :: bool
  fi_limit :: int
  fi_total :: nat
  fi_frozenCount :: int

definition isPolicyFrozen :: "user_id \<Rightarrow> policy_id \<Rightarrow> date \<Rightarrow> usage_store \<Rightarrow> freeze_info" where
  "isPolicyFrozen userId policyId now st =
     (case find_user userId st of
        None \<Rightarrow> \<lparr>fi_isFrozen = False, fi_limit = 0, fi_total = 0, fi_frozenCount = 0\<rparr>
      | Some u \<Rightarrow>
          let limit = policies_limit u now; total = length (policies_of userId st) in
          if isUnlimited limit then \<lparr>fi_isFrozen = False, fi_limit = - 1, fi_total = total, fi_frozenCount = 0\<rparr>
          else if int total \<le> limit then \<lparr>fi_isFrozen = False, fi_limit = limit, fi_total = total, fi_frozenCount = 0\<rparr>
          else
            let active = map p_id (take (nat limit) (newest_first (policies_of userId st))) in
            \<lparr>fi_isFrozen = (policyId \<notin> set active), fi_limit = limit, fi_total = total, fi_frozenCount = int total - limit\<rparr>)"

definition addFreezeStatusToPolicies :: "user_id \<Rightarrow> date \<Rightarrow> usage_store \<Rightarrow> policy_row list \<Rightarrow> (policy_row \<times> bool) list" where
  "addFreezeStatusToPolicies userId now st ps =
     (let frozen = fs_frozen (getPolicyFreezeStatus userId now st) in map (\<lambda>p. (p, p_id p \<in> set frozen)) ps)"

text \<open>
  The batch: one query for all limited users, then the rows grouped by owner in the order of the query.
\<close>

definition getBatchPolicyFreezeStatus :: "user_id list \<Rightarrow> date \<Rightarrow> usage_store \<Rightarrow> (user_id \<times> policy_id list) list" where
  "getBatchPolicyFreezeStatus userIds now st =
     (let us = select_where (\<lambda>u. pu_id u \<in> set (dedup userIds)) (uo_users st);
          unlimited = filter (\<lambda>u. isUnlimited (policies_limit u now)) us;
          limited = filter (\<lambda>u. \<not> isUnlimited (policies_limit u now)) us;
          rows = newest_first (select_where (\<lambda>p. p_userId p \<in> pu_id ` set limited) (uo_policies st))
      in map (\<lambda>u. (pu_id u, [])) unlimited @
         map (\<lambda>u. (pu_id u, map p_id (drop (nat (policies_limit u now)) (filter (\<lambda>p. p_userId p = pu_id u) rows)))) limited)"

end
