(* ===== verification/UsageFacts.thy ===== *)
theory UsageFacts
  imports Usage
begin

text \<open>
  Facts about plans, usage and freezing: a metered month never exceeds its limit when requests come
  one after the other, which limits are the enforced ones, that the three ways to ask for frozen
  policies agree, and that price ids are read back.
\<close>

section \<open>Metering\<close>

text \<open>Calls one after the other: each is checked, and recorded if it was allowed.\<close>

fun metered :: "user_id \<Rightarrow> usage_type \<Rightarrow> date \<Rightarrow> string \<Rightarrow> row_id list \<Rightarrow> usage_store \<Rightarrow> nat \<times> usage_store" where
  "metered userId ty now period [] st = (0, st)"
| "metered userId ty now period (i # is) st =
     (case checkUsageLimit userId ty now period st of (check, st1) \<Rightarrow>
       if uc_allowed check
       then (case metered userId ty now period is (recordUsage i userId ty 1 period st1) of (n, st2) \<Rightarrow> (Suc n, st2))
       else metered userId ty now period is st1)"

text \<open>The limit that applies to a user.\<close>

definition limit_in_force :: "user_id \<Rightarrow> limit_type \<Rightarrow> date \<Rightarrow> usage_store \<Rightarrow> int option" where
  "limit_in_force userId key now st =
     map_option (\<lambda>u. getPlanLimit (fst (resolvePlan (pu_plan u) (pu_trialEndsAt u) now)) key) (find_user userId st)"

lemma resolve_twice: "resolvePlan (fst (resolvePlan p e now)) e now = (fst (resolvePlan p e now), False)"
  by (simp add: resolvePlan_def)

lemma plan_in_force_eq:
  "plan_in_force userId u now st =
     (fst (resolvePlan (pu_plan u) (pu_trialEndsAt u) now),
      if snd (resolvePlan (pu_plan u) (pu_trialEndsAt u) now)
      then write_plan userId (fst (resolvePlan (pu_plan u) (pu_trialEndsAt u) now)) st else st)"
  by (simp add: plan_in_force_def split: prod.split bool.split)

lemma find_user_written:
  "find_user userId (write_plan userId p st) = map_option (\<lambda>u. u\<lparr>pu_plan := p\<rparr>) (find_user userId st)"
proof -
  have "find_user userId (write_plan userId p st) =
      map_option (\<lambda>u. if pu_id u = userId then u\<lparr>pu_plan := p\<rparr> else u) (find_user userId st)"
    unfolding find_user_def write_plan_def by (simp add: find_first_update_where)
  moreover have "pu_id u = userId" if "find_user userId st = Some u" for u
    using that find_first_Some unfolding find_user_def by fastforce
  ultimately show ?thesis by (cases "find_user userId st") simp_all
qed

text \<open>What a check leaves as it was.\<close>

lemma check_keeps:
  "limit_in_force userId key now (snd (checkUsageLimit userId ty now period st)) = limit_in_force userId key now st"
  "usage_of v ty' per (snd (checkUsageLimit userId ty now period st)) = usage_of v ty' per st"
proof -
  have w: "usage_of v ty' per (write_plan userId p st) = usage_of v ty' per st" for p
    by (simp add: usage_of_def write_plan_def)
  have l: "find_user userId st = Some u \<Longrightarrow> snd (plan_in_force userId u now st) = st1 \<Longrightarrow>
      limit_in_force userId key now st1 = limit_in_force userId key now st \<and> usage_of v ty' per st1 = usage_of v ty' per st" for u st1
    using resolve_twice [of "pu_plan u" "pu_trialEndsAt u" now]
    by (auto simp: plan_in_force_eq limit_in_force_def find_user_written w)
  have "limit_in_force userId key now (snd (checkUsageLimit userId ty now period st)) = limit_in_force userId key now st \<and>
      usage_of v ty' per (snd (checkUsageLimit userId ty now period st)) = usage_of v ty' per st"
  proof (cases "find_user userId st")
    case None
    then show ?thesis by (simp add: checkUsageLimit_def)
  next
    case (Some u)
    obtain p st1 where p: "plan_in_force userId u now st = (p, st1)" by (cases "plan_in_force userId u now st")
    have "snd (checkUsageLimit userId ty now period st) = st1"
      by (simp add: checkUsageLimit_def Some p Let_def split: option.split)
    then show ?thesis using l [OF Some] p by simp
  qed
  then show "limit_in_force userId key now (snd (checkUsageLimit userId ty now period st)) = limit_in_force userId key now st"
    "usage_of v ty' per (snd (checkUsageLimit userId ty now period st)) = usage_of v ty' per st" by simp_all
qed

lemma check_allows:
  assumes "limit_in_force userId key now st = Some limit" "USAGE_LIMIT_MAPPING ty = Some key" "0 \<le> limit"
  shows "uc_allowed (fst (checkUsageLimit userId ty now period st)) \<longleftrightarrow> usage_of userId ty period st < limit"
proof -
  obtain u where u: "find_user userId st = Some u"
    "getPlanLimit (fst (resolvePlan (pu_plan u) (pu_trialEndsAt u) now)) key = limit"
    using assms(1) by (auto simp: limit_in_force_def)
  have "usage_of userId ty period (snd (plan_in_force userId u now st)) = usage_of userId ty period st"
    by (simp add: plan_in_force_eq usage_of_def write_plan_def)
  then show ?thesis using u assms(2,3)
    by (auto simp: checkUsageLimit_def plan_in_force_eq Let_def isUnlimited_def split: option.split)
qed

lemma record_adds:
  "usage_of userId ty period (recordUsage i userId ty n period st) = usage_of userId ty period st + n"
  "limit_in_force v key now (recordUsage i userId ty n period st) = limit_in_force v key now st"
proof -
  let ?key = "\<lambda>r. us_userId r = userId \<and> us_type r = ty \<and> us_period r = period"
  show "usage_of userId ty period (recordUsage i userId ty n period st) = usage_of userId ty period st + n"
  proof (cases "find_first ?key (uo_usage st)")
    case None
    then show ?thesis by (simp add: usage_of_def recordUsage_def find_first_insert_new)
  next
    case (Some r)
    have "find_first ?key (update_where ?key (\<lambda>r. r\<lparr>us_count := us_count r + n\<rparr>) (uo_usage st)) =
        map_option (\<lambda>r. if ?key r then r\<lparr>us_count := us_count r + n\<rparr> else r) (find_first ?key (uo_usage st))"
      by (rule find_first_update_where) simp
    moreover have "?key r" using find_first_Some [OF Some] by simp
    ultimately show ?thesis using Some by (simp add: usage_of_def recordUsage_def Let_def)
  qed
  show "limit_in_force v key now (recordUsage i userId ty n period st) = limit_in_force v key now st"
    by (simp add: limit_in_force_def find_user_def recordUsage_def Let_def)
qed

text \<open>
  C30: One after the other, exactly as many calls of a month go through as the limit leaves room for, and
  the count ends at the limit, never above it.
\<close>

theorem metered_calls_fill_the_limit:
  assumes "limit_in_force userId key now st = Some limit" "USAGE_LIMIT_MAPPING ty = Some key" "0 \<le> limit"
    "usage_of userId ty period st \<le> limit" "metered userId ty now period ids st = (n, st')"
  shows "n = min (length ids) (nat (limit - usage_of userId ty period st)) \<and>
    usage_of userId ty period st' = usage_of userId ty period st + int n"
  using assms(1,4,5)
proof (induction ids arbitrary: st n)
  case (Cons i ids)
  obtain check st1 where c: "checkUsageLimit userId ty now period st = (check, st1)" by (cases "checkUsageLimit userId ty now period st")
  have l1: "limit_in_force userId key now st1 = Some limit" using check_keeps(1) [of userId key now ty period st] c Cons.prems(1) by simp
  have u1: "usage_of userId ty period st1 = usage_of userId ty period st" using check_keeps(2) [of userId ty period userId ty now period st] c by simp
  have allowed: "uc_allowed check \<longleftrightarrow> usage_of userId ty period st < limit"
    using check_allows [OF Cons.prems(1) assms(2,3), of period] c by simp
  show ?case
  proof (cases "uc_allowed check")
    case True
    let ?st2 = "recordUsage i userId ty 1 period st1"
    obtain m where m: "metered userId ty now period ids ?st2 = (m, st')" and r: "n = Suc m"
      using Cons.prems(3) c True by (auto split: prod.splits)
    have "limit_in_force userId key now ?st2 = Some limit" using l1 by (simp add: record_adds)
    moreover have "usage_of userId ty period ?st2 \<le> limit" using allowed True u1 by (simp add: record_adds)
    ultimately have "m = min (length ids) (nat (limit - usage_of userId ty period ?st2)) \<and>
        usage_of userId ty period st' = usage_of userId ty period ?st2 + int m" using m by (rule Cons.IH)
    then show ?thesis using r u1 allowed True by (auto simp: record_adds)
  next
    case False
    then have "metered userId ty now period ids st1 = (n, st')" using Cons.prems(3) c by simp
    moreover have "usage_of userId ty period st1 \<le> limit" using u1 Cons.prems(2) by simp
    ultimately have "n = min (length ids) (nat (limit - usage_of userId ty period st1)) \<and>
        usage_of userId ty period st' = usage_of userId ty period st1 + int n" using l1 Cons.IH by blast
    then show ?thesis using u1 allowed False Cons.prems(2) by simp
  qed
qed simp

abbreviation user_on :: "user_id \<Rightarrow> plan \<Rightarrow> plan_user" where
  "user_on u p \<equiv> \<lparr>pu_id = u, pu_plan = p, pu_trialEndsAt = Some 10, pu_priceLockedAt = None\<rparr>"

definition nearly_full :: usage_store where
  "nearly_full = \<lparr>uo_users = [user_on ''u'' Trial],
     uo_usage = [\<lparr>us_id = ''1'', us_userId = ''u'', us_type = Use_execution, us_count = 998, us_period = ''2026-07''\<rparr>],
     uo_policies = []\<rparr>"

theorem metered_calls_fill_the_limit_witness:
  "let r = metered ''u'' Use_execution 20 ''2026-07'' [''a'', ''b'', ''c''] nearly_full
   in fst r = 2 \<and> usage_of ''u'' Use_execution ''2026-07'' (snd r) = 1000"
proof -
  let ?r = "metered ''u'' Use_execution 20 ''2026-07'' [''a'', ''b'', ''c''] nearly_full"
  have "limit_in_force ''u'' L_executions 20 nearly_full = Some 1000" "usage_of ''u'' Use_execution ''2026-07'' nearly_full = 998"
    by (simp_all add: limit_in_force_def find_user_def nearly_full_def resolvePlan_def getPlanLimit_def usage_of_def)
  then show ?thesis using metered_calls_fill_the_limit [of "''u''" L_executions 20 nearly_full 1000 Use_execution "''2026-07''" "[''a'', ''b'', ''c'']" "fst ?r" "snd ?r"]
    by simp
qed

text \<open>
  Two calls that are checked before either is recorded both go through, past the limit.
\<close>

theorem overlapping_calls_exceed_limit:
  "let st = recordUsage ''2'' ''u'' Use_execution 1 ''2026-07'' nearly_full;
       (c1, st1) = checkUsageLimit ''u'' Use_execution 20 ''2026-07'' st;
       (c2, st2) = checkUsageLimit ''u'' Use_execution 20 ''2026-07'' st1;
       st3 = recordUsage ''4'' ''u'' Use_execution 1 ''2026-07'' (recordUsage ''3'' ''u'' Use_execution 1 ''2026-07'' st2)
   in uc_allowed c1 \<and> uc_allowed c2 \<and> uc_limit c2 = Some 1000 \<and> usage_of ''u'' Use_execution ''2026-07'' st3 = 1001"
  by code_simp

text \<open>
  A trial that is found expired is written back without looking again: when the user's upgrade is
  committed between the read and the write, the upgrade is lost.
\<close>

theorem expired_trial_write_undoes_upgrade:
  "let st = nearly_full; u = user_on ''u'' Trial;
       upgraded = write_plan ''u'' Pro st;
       st2 = (case resolvePlan (pu_plan u) (pu_trialEndsAt u) 20 of (p, downgraded) \<Rightarrow> if downgraded then write_plan ''u'' p upgraded else upgraded)
   in find_user ''u'' st = Some u \<and> map_option pu_plan (find_user ''u'' upgraded) = Some Pro \<and>
      map_option pu_plan (find_user ''u'' st2) = Some Free"
  by code_simp

section \<open>Which limits are shown\<close>

text \<open>
  The limits a user is shown are the limits that are enforced exactly when the price was not locked
  before the cut-off, or the plan is one whose old limits are the same.
\<close>

theorem shown_limits_enforced_iff:
  "shown_limits p lockedAt = limits_of p \<longleftrightarrow>
     p = Enterprise \<or> p = Team_plan \<or> (case lockedAt of None \<Rightarrow> True | Some t \<Rightarrow> PRICE_LOCKED_CUTOFF \<le> t)"
  by (cases p; cases lockedAt)
    (auto simp: shown_limits_def getEffectiveLimits_def effective_def Let_def)

section \<open>Frozen policies\<close>

lemma newest_first_simps [simp]:
  "set (newest_first ps) = set ps" "length (newest_first ps) = length ps"
  "filter q (newest_first ps) = newest_first (filter q ps)"
  by (simp_all add: newest_first_def filter_sort)

lemma newest_first_distinct:
  "unique_key p_id t \<Longrightarrow> distinct (map p_id (newest_first (filter q t)))"
  unfolding unique_key_def newest_first_def distinct_map by (auto simp: inj_on_def)

lemma split_by_drop:
  assumes "distinct (map f xs)" "x \<in> set xs"
  shows "f x \<in> set (map f (drop n xs)) \<longleftrightarrow> f x \<notin> set (map f (take n xs))"
proof -
  have "set (map f (take n xs)) \<inter> set (map f (drop n xs)) = {}"
    unfolding take_map [symmetric] drop_map [symmetric] using assms(1) by (intro set_take_disj_set_drop_if_distinct) simp_all
  moreover have "x \<in> set (take n xs) \<or> x \<in> set (drop n xs)"
    using assms(2) by (metis Un_iff append_take_drop_id set_append)
  ultimately show ?thesis by auto
qed

text \<open>
  The single question agrees with the status of the owner.
\<close>

theorem frozen_iff_in_status:
  assumes "unique_key p_id (uo_policies st)" "p \<in> set (uo_policies st)" "p_userId p = userId"
  shows "fi_isFrozen (isPolicyFrozen userId (p_id p) now st) \<longleftrightarrow>
    p_id p \<in> set (fs_frozen (getPolicyFreezeStatus userId now st))"
proof (cases "find_user userId st")
  case None
  then show ?thesis by (simp add: isPolicyFrozen_def getPolicyFreezeStatus_def)
next
  case (Some u)
  let ?ps = "policies_of userId st" and ?l = "policies_limit u now"
  have d: "distinct (map p_id (newest_first ?ps))"
    using newest_first_distinct [OF assms(1)] by (simp add: policies_of_def select_where_def)
  have p: "p \<in> set (newest_first ?ps)" using assms(2,3) by (simp add: policies_of_def)
  show ?thesis
  proof (cases "isUnlimited ?l \<or> int (length ?ps) \<le> ?l")
    case True
    then have "isUnlimited ?l \<or> drop (nat ?l) (newest_first ?ps) = []" by auto
    then show ?thesis using True Some by (auto simp: isPolicyFrozen_def getPolicyFreezeStatus_def Let_def)
  next
    case False
    then show ?thesis using Some split_by_drop [OF d p, of "nat ?l"]
      by (simp add: isPolicyFrozen_def getPolicyFreezeStatus_def Let_def)
  qed
qed

definition six_policies :: usage_store where
  "six_policies = \<lparr>uo_users = [user_on ''u'' Free], uo_usage = [],
     uo_policies = map (\<lambda>(i, t). (policy_of i ''u'' None)\<lparr>p_updatedAt := t\<rparr>)
       [(''a'', 1), (''b'', 2), (''c'', 3), (''d'', 4), (''e'', 5), (''f'', 6)]\<rparr>"

lemma six_policies_key: "unique_key p_id (uo_policies six_policies)"
  by (simp add: six_policies_def)

theorem frozen_iff_in_status_witness:
  "fi_isFrozen (isPolicyFrozen ''u'' ''a'' 0 six_policies) \<and>
   ''a'' \<in> set (fs_frozen (getPolicyFreezeStatus ''u'' 0 six_policies))"
proof -
  let ?p = "(policy_of ''a'' ''u'' None)\<lparr>p_updatedAt := 1\<rparr>"
  have "?p \<in> set (uo_policies six_policies)" by (simp add: six_policies_def)
  then have "fi_isFrozen (isPolicyFrozen ''u'' (p_id ?p) 0 six_policies) \<longleftrightarrow>
      p_id ?p \<in> set (fs_frozen (getPolicyFreezeStatus ''u'' 0 six_policies))"
    by (rule frozen_iff_in_status [OF six_policies_key]) simp
  moreover have "fi_isFrozen (isPolicyFrozen ''u'' ''a'' 0 six_policies)" by code_simp
  ultimately show ?thesis by simp
qed

text \<open>
  C32: The batch gives every user asked for the status the single call gives.
\<close>

theorem batch_freeze_is_pointwise:
  assumes "unique_key pu_id (uo_users st)" "userId \<in> set userIds" "find_user userId st = Some u"
  shows "map_of (getBatchPolicyFreezeStatus userIds now st) userId =
    Some (fs_frozen (getPolicyFreezeStatus userId now st))"
proof -
  let ?us = "select_where (\<lambda>u. pu_id u \<in> set (dedup userIds)) (uo_users st)"
  let ?un = "filter (\<lambda>u. isUnlimited (policies_limit u now)) ?us" and ?li = "filter (\<lambda>u. \<not> isUnlimited (policies_limit u now)) ?us"
  let ?rows = "newest_first (select_where (\<lambda>p. p_userId p \<in> pu_id ` set ?li) (uo_policies st))"
  let ?f = "\<lambda>u. map p_id (drop (nat (policies_limit u now)) (filter (\<lambda>p. p_userId p = pu_id u) ?rows))"
  have u: "u \<in> set ?us" "pu_id u = userId" using assms(2,3) find_first_Some by (fastforce simp: find_user_def)+
  have same: "v = u" if "v \<in> set ?us" "pu_id v = userId" for v
    using unique_key_eq [OF assms(1), of v u] that u by auto
  have keys: "map_of (map (\<lambda>u. (pu_id u, h u)) vs) userId = (if u \<in> set vs then Some (h u) else None)"
    if "set vs \<subseteq> set ?us" for h :: "plan_user \<Rightarrow> policy_id list" and vs
    using that
  proof (induction vs)
    case (Cons v vs)
    then show ?case using same [of v] u(2) by (cases "pu_id v = userId") auto
  qed simp
  have r: "map_of (getBatchPolicyFreezeStatus userIds now st) userId =
      (if u \<in> set ?li then Some (?f u) else if u \<in> set ?un then Some [] else None)"
    unfolding getBatchPolicyFreezeStatus_def Let_def map_of_append map_add_def
    by (subst keys, force, subst keys, force) (simp split: if_split)
  show ?thesis
  proof (cases "isUnlimited (policies_limit u now)")
    case True
    then show ?thesis using u(1) assms(3) unfolding r by (simp add: getPolicyFreezeStatus_def Let_def)
  next
    case False
    then have li: "u \<in> set ?li" using u(1) by simp
    have "filter (\<lambda>p. p_userId p = pu_id u) (select_where (\<lambda>p. p_userId p \<in> pu_id ` set ?li) (uo_policies st)) = policies_of userId st"
      unfolding policies_of_def select_where_def filter_filter using li u(2) by (intro filter_cong refl) auto
    then have "?f u = map p_id (drop (nat (policies_limit u now)) (newest_first (policies_of userId st)))" by simp
    then show ?thesis using li False assms(3) unfolding r by (simp add: getPolicyFreezeStatus_def Let_def)
  qed
qed

theorem batch_freeze_is_pointwise_witness:
  "map_of (getBatchPolicyFreezeStatus [''u'', ''v'', ''u''] 0 six_policies) ''u'' = Some [''a'']"
proof -
  have k: "unique_key pu_id (uo_users six_policies)" "''u'' \<in> set [''u'', ''v'', ''u'']"
    "find_user ''u'' six_policies = Some (user_on ''u'' Free)"
    by (simp_all add: six_policies_def find_user_def)
  have "fs_frozen (getPolicyFreezeStatus ''u'' 0 six_policies) = [''a'']" by code_simp
  then show ?thesis using batch_freeze_is_pointwise [OF k, of 0] by simp
qed

text \<open>
  Deleting a policy does not make room: rows in the recycle bin still count, and the deletion makes
  its row the newest. A user with six policies who deletes one of the five active ones still finds the
  sixth frozen.
\<close>

theorem deleting_does_not_unfreeze:
  "let st = six_policies\<lparr>uo_policies := update_where (\<lambda>p. p_id p = ''f'')
         (\<lambda>p. p\<lparr>p_deletedAt := Some 9, p_deletedBy := Some ''u'', p_updatedAt := 9\<rparr>) (uo_policies six_policies)\<rparr>
   in fi_isFrozen (isPolicyFrozen ''u'' ''a'' 9 st) \<and> ut_policies (fst (getUsageStats ''u'' 9 ''2026-07'' st)) = 5 \<and>
      pl_policies (ut_limits (fst (getUsageStats ''u'' 9 ''2026-07'' st))) = 5"
  by code_simp

section \<open>Prices\<close>

text \<open>The yearly prices are the discounted monthly ones.\<close>

lemma yearly_prices: "PLAN_PRICES c Yearly = getAnnualAmount (PLAN_PRICES c Monthly)"
  by (cases c) (simp_all add: getAnnualAmount_def)

text \<open>
  With distinct price ids configured for every currency, the id of a price is read back as that price.
\<close>

theorem price_id_read_back:
  assumes "\<And>c i. env c i \<noteq> None \<and> env c i \<noteq> Some []" "\<And>c i d j. env c i = env d j \<Longrightarrow> c = d \<and> i = j"
  shows "lookupPriceId env (getPlanStripePriceId env Pro i c) = Some (Pro, i, c)"
proof -
  have some: "price_id env Pro c i = env c i" for c i
    using assms(1) [of c i] by (auto simp: price_id_def or_null_Some or_null_def truthy_iff)
  define e where "e c i = the (env c i)" for c i
  have env: "env c i = Some (e c i)" for c i using assms(1) [of c i] by (simp add: e_def)
  have inj: "e c i = e d j \<longleftrightarrow> c = d \<and> i = j" for c i d j using assms(2) [of c i d j] env by auto
  have ne: "e c i \<noteq> []" for c i using assms(1) [of c i] env by simp
  have id: "getPlanStripePriceId env Pro i c = Some (e c i)" by (simp add: getPlanStripePriceId_def some env)
  have entries: "price_entries env = map (\<lambda>(c, i). (e c i, Pro, i, c))
      [(USD, Monthly), (USD, Yearly), (CNY, Monthly), (CNY, Yearly), (EUR, Monthly), (EUR, Yearly)]"
    by (simp add: price_entries_def some env map_filter_def)
  show ?thesis unfolding id
    by (cases c; cases i) (simp_all add: lookupPriceId_def entries or_null_def truthy_iff inj ne)
qed

end
