(* ===== verification/AiQuota.thy ===== *)
theory AiQuota
  imports Plans
begin

text \<open>
  The budget of the AI features: risk tiers (\<open>src/src/lib/risk-tier.ts\<close>, \<open>lib/email-suspicion.ts\<close>,
  \<open>app/api/cron/risk-tier-decay/route.ts\<close>), the quota gate and the usage records (\<open>lib/ai-quota.ts\<close>),
  automatic bans (\<open>lib/ai-anomaly-detection.ts\<close>) and the global circuit breaker
  (\<open>lib/ai-circuit-breaker.ts\<close>, \<open>app/api/cron/ai-circuit-check/route.ts\<close>). The text of a ban reason is
  kept as a datatype: a reason of the breaker starts with its fixed prefix, any other does not. Months
  are the text the clock gives, money is in cents. The messages shown to the user, the logs and the
  sixty-second cache of the settings are left out; the clock is read once per operation.
\<close>

section \<open>State\<close>

datatype circuit_state = Closed | Free_stopped | Free_trial_stopped

datatype anomaly =
    Same_prompt nat | Many_tokens nat | Failure_rate nat nat | Jailbreak_attempts nat | Same_address nat

datatype ban_reason = Circuit_ban circuit_state bool | Anomaly_ban anomaly | Other_ban string

record ai_user =
  au_id :: user_id
  au_plan :: plan
  au_bannedUntil :: "date option"
  au_banReason :: "ban_reason option"
  au_emailVerified :: "date option"
  au_riskTier :: nat
  au_riskTierReason :: "string option"
  au_signupIpHash :: "string option"
  au_createdAt :: date
  au_updatedAt :: date
  au_deletedAt :: "date option"
  au_byokQuotaResetAt :: "date option"

datatype ai_status = Ai_success | Ai_api_error | Ai_quota_exhausted | Ai_rate_limited | Ai_banned | Ai_blocked_unsafe

record ai_usage_row =
  ur_id :: row_id
  ur_userId :: user_id
  ur_teamId :: "team_id option"
  ur_callKind :: string
  ur_periodMonth :: string
  ur_model :: string
  ur_promptTokens :: nat
  ur_completionTokens :: nat
  ur_costCents :: nat
  ur_usedByok :: bool
  ur_status :: ai_status
  ur_promptHash :: "string option"
  ur_encryptedPrompt :: "string option"
  ur_encryptedCompletion :: "string option"
  ur_redactedPrompt :: "string option"
  ur_jailbreak :: bool
  ur_requestId :: "string option"
  ur_createdAt :: date

record ai_key_row =
  ak_id :: row_id
  ak_userId :: user_id
  ak_active :: bool
  ak_lastUsedAt :: "date option"
  ak_lastErrorAt :: "date option"
  ak_lastError :: "string option"
  ak_updatedAt :: date

text \<open>The rows of the audit log about users; the details are kept for changes of the tier.\<close>

datatype tier_change = Tier_raised nat nat string "string option" | Tier_decayed nat nat "string option" | Other_event

record user_audit =
  ea_id :: row_id
  ea_userId :: "user_id option"
  ea_action :: string
  ea_change :: tier_change
  ea_createdAt :: date

text \<open>\<open>ai_manualTrip\<close> is the stored setting of a manual trip, as the parsed date.\<close>

record ai_store =
  ai_users :: "ai_user table"
  ai_usage :: "ai_usage_row table"
  ai_keys :: "ai_key_row table"
  ai_manualTrip :: "date option"
  ai_audit :: "user_audit table"

section \<open>Risk tiers\<close>

definition is_digit :: "char \<Rightarrow> bool" where
  "is_digit c \<longleftrightarrow> (let n = of_char c :: nat in 48 \<le> n \<and> n \<le> 57)"

definition is_lower :: "char \<Rightarrow> bool" where
  "is_lower c \<longleftrightarrow> (let n = of_char c :: nat in 97 \<le> n \<and> n \<le> 122)"

text \<open>Five equal characters in a row: \<open>/(.)\1{4,}/\<close>, where a dot is no line break.\<close>

fun repeated_chars :: "string \<Rightarrow> bool" where
  "repeated_chars (a # b # c # d # e # s) \<longleftrightarrow> 
     (a = b \<and> b = c \<and> c = d \<and> d = e \<and> a \<noteq> CHR 0x0A \<and> a \<noteq> CHR 0x0D) \<or> repeated_chars (b # c # d # e # s)"
| "repeated_chars _ \<longleftrightarrow> False"

fun joined_with :: "string \<Rightarrow> string list \<Rightarrow> string" where
  "joined_with sep [] = []"
| "joined_with sep [s] = s"
| "joined_with sep (s # t # ss) = s @ sep @ joined_with sep (t # ss)"

record suspicion =
  sp_suspicious :: bool
  sp_signals :: "string list"

definition analyzeEmailSuspicion :: "string \<Rightarrow> suspicion" where
  "analyzeEmailSuspicion email =
     (let before = takeWhile (\<lambda>c. c \<noteq> CHR ''@'') email in
      if length before = length email \<or> before = [] then \<lparr>sp_suspicious = False, sp_signals = []\<rparr>
      else
        let l = js_lower before;
            digits = length (filter is_digit l);
            signals =
              (if list_all is_digit l then [''all_digits''] else []) @
              (if 20 \<le> js_length l then [''long_local''] else []) @
              (if 0 < js_length l \<and> 6 * js_length l \<le> 10 * digits then [''digit_heavy''] else []) @
              (if repeated_chars l then [''repeated_chars''] else []) @
              (if 16 \<le> js_length l \<and> list_all (\<lambda>c. is_lower c \<or> is_digit c) l \<and> list_ex is_lower l \<and> list_ex is_digit l
               then [''base64_like''] else [])
        in \<lparr>sp_suspicious = (2 \<le> length signals), sp_signals = signals\<rparr>)"

definition countIpClusterPeers :: "string \<Rightarrow> date \<Rightarrow> ai_store \<Rightarrow> nat" where
  "countIpClusterPeers ipHash now st =
     count_where (\<lambda>u. au_signupIpHash u = Some ipHash \<and> now - 24 * 60 * 60 * 1000 \<le> au_createdAt u) (ai_users st)"

record risk_assessment =
  ra_tier :: nat
  ra_reason :: string

definition assessRegistrationRisk :: "nat \<Rightarrow> string option \<Rightarrow> string option \<Rightarrow> date \<Rightarrow> ai_store \<Rightarrow> risk_assessment" where
  "assessRegistrationRisk priorPurgeCount signupIpHash email now st =
     (let ipCluster = (case or_null signupIpHash of None \<Rightarrow> 0 | Some h \<Rightarrow> countIpClusterPeers h now st);
          suspicion = (case or_null email of None \<Rightarrow> \<lparr>sp_suspicious = False, sp_signals = []\<rparr> | Some e \<Rightarrow> analyzeEmailSuspicion e);
          fromPurge = (if 4 \<le> priorPurgeCount then 4 else priorPurgeCount);
          fromIp = (if 4 \<le> ipCluster then 2 else if ipCluster = 3 then 1 else 0);
          fromEmail = (if sp_suspicious suspicion then 1 else 0);
          parts = (if 0 < fromPurge then [''prior_purge='' @ dec priorPurgeCount] else []) @
                  (if (0::nat) < fromIp then [''ip_cluster='' @ dec ipCluster] else []) @
                  (if (0::nat) < fromEmail then [''email_suspicious='' @ joined_with ''+'' (sp_signals suspicion)] else [])
      in \<lparr>ra_tier = max fromPurge (max fromIp fromEmail),
          ra_reason = (if parts = [] then ''trusted'' else joined_with '','' parts)\<rparr>)"

text \<open>The multipliers are in quarters.\<close>

record tier_policy =
  tp_trialDays :: nat
  tp_aiQuotaQuarters :: nat
  tp_apiQuotaQuarters :: nat
  tp_allowStripeCheckout :: bool
  tp_requireEmailVerifiedForApi :: bool
  tp_alertOnRegistration :: bool

definition policyForTier :: "nat \<Rightarrow> tier_policy" where
  "policyForTier tier =
     (if tier = 0 then \<lparr>tp_trialDays = 14, tp_aiQuotaQuarters = 4, tp_apiQuotaQuarters = 4, tp_allowStripeCheckout = True,
        tp_requireEmailVerifiedForApi = False, tp_alertOnRegistration = False\<rparr>
      else if tier = 1 then \<lparr>tp_trialDays = 7, tp_aiQuotaQuarters = 2, tp_apiQuotaQuarters = 4, tp_allowStripeCheckout = True,
        tp_requireEmailVerifiedForApi = False, tp_alertOnRegistration = False\<rparr>
      else if tier = 2 then \<lparr>tp_trialDays = 0, tp_aiQuotaQuarters = 1, tp_apiQuotaQuarters = 2, tp_allowStripeCheckout = True,
        tp_requireEmailVerifiedForApi = True, tp_alertOnRegistration = True\<rparr>
      else if tier = 3 then \<lparr>tp_trialDays = 0, tp_aiQuotaQuarters = 0, tp_apiQuotaQuarters = 1, tp_allowStripeCheckout = False,
        tp_requireEmailVerifiedForApi = True, tp_alertOnRegistration = True\<rparr>
      else \<lparr>tp_trialDays = 0, tp_aiQuotaQuarters = 0, tp_apiQuotaQuarters = 0, tp_allowStripeCheckout = False,
        tp_requireEmailVerifiedForApi = True, tp_alertOnRegistration = True\<rparr>)"

definition raised_reason :: "string \<Rightarrow> nat \<Rightarrow> string option \<Rightarrow> string" where
  "raised_reason reason from prev = ''raised:'' @ reason @ '':was='' @ dec from @ '':prev_reason='' @ nullish prev ''none''"

definition raiseRiskTier :: "row_id \<Rightarrow> date \<Rightarrow> user_id \<Rightarrow> string \<Rightarrow> ai_store \<Rightarrow> (nat \<times> nat) option \<times> ai_store" where
  "raiseRiskTier newId now userId reason st =
     (case find_first (\<lambda>u. au_id u = userId) (ai_users st) of
        None \<Rightarrow> (None, st)
      | Some current \<Rightarrow>
          let from = au_riskTier current; prev = au_riskTierReason current in
          if 4 \<le> from then (None, st)
          else (Some (from, from + 1),
            st\<lparr>ai_users := update_where (\<lambda>u. au_id u = userId)
                 (\<lambda>u. u\<lparr>au_riskTier := from + 1, au_riskTierReason := Some (raised_reason reason from prev), au_updatedAt := now\<rparr>)
                 (ai_users st),
               ai_audit := insert_row \<lparr>ea_id = newId, ea_userId = Some userId, ea_action = ''user.risk_tier_raised'',
                 ea_change = Tier_raised from (from + 1) reason prev, ea_createdAt = now\<rparr> (ai_audit st)\<rparr>))"

text \<open>
  The nightly review lowers a tier after seven quiet days. The candidates are read first and each
  write uses the tier that was read.
\<close>

definition RISK_AUDIT_ACTIONS :: "string list" where
  "RISK_AUDIT_ACTIONS = [''user.purge_attempt'', ''user.signup_burst'', ''user.ai_anomaly_block'', ''user.risk_tier_overridden'']"

definition decay_candidates :: "ai_store \<Rightarrow> ai_user list" where
  "decay_candidates st = select_where (\<lambda>u. 2 \<le> au_riskTier u \<and> au_deletedAt u = None) (ai_users st)"

definition noisy_users :: "user_id list \<Rightarrow> date \<Rightarrow> ai_store \<Rightarrow> user_id list" where
  "noisy_users ids quietSince st = List.map_filter ea_userId (select_where
     (\<lambda>a. ea_userId a \<in> Some ` set ids \<and> ea_action a \<in> set RISK_AUDIT_ACTIONS \<and> quietSince \<le> ea_createdAt a) (ai_audit st))"

definition decays :: "user_id list \<Rightarrow> date \<Rightarrow> ai_user \<Rightarrow> bool" where
  "decays noisy quietSince c \<longleftrightarrow> au_id c \<notin> set noisy \<and>
     (case au_bannedUntil c of None \<Rightarrow> True | Some t \<Rightarrow> t \<le> quietSince) \<and> au_updatedAt c \<le> quietSince"

definition decayed_reason :: "nat \<Rightarrow> string option \<Rightarrow> string" where
  "decayed_reason from prev = ''auto_decay:was='' @ dec from @ '':after=7d_quiet:was_reason='' @ nullish prev ''unknown''"

definition decay_write :: "row_id \<Rightarrow> date \<Rightarrow> ai_user \<Rightarrow> ai_store \<Rightarrow> ai_store" where
  "decay_write newId now c st =
     st\<lparr>ai_users := update_where (\<lambda>u. au_id u = au_id c)
          (\<lambda>u. u\<lparr>au_riskTier := au_riskTier c - 1,
                 au_riskTierReason := Some (decayed_reason (au_riskTier c) (au_riskTierReason c)), au_updatedAt := now\<rparr>)
          (ai_users st),
        ai_audit := insert_row \<lparr>ea_id = newId, ea_userId = Some (au_id c), ea_action = ''user.risk_tier_decayed'',
          ea_change = Tier_decayed (au_riskTier c) (au_riskTier c - 1) (au_riskTierReason c), ea_createdAt = now\<rparr> (ai_audit st)\<rparr>"

fun decay_all :: "(user_id \<Rightarrow> row_id) \<Rightarrow> date \<Rightarrow> ai_user list \<Rightarrow> ai_store \<Rightarrow> ai_store" where
  "decay_all fresh now [] st = st"
| "decay_all fresh now (c # cs) st = decay_all fresh now cs (decay_write (fresh (au_id c)) now c st)"

definition decayRiskTiers :: "(user_id \<Rightarrow> row_id) \<Rightarrow> date \<Rightarrow> ai_store \<Rightarrow> (user_id \<times> nat \<times> nat) list \<times> ai_store" where
  "decayRiskTiers fresh now st =
     (let quietSince = now - 7 * 86400000; candidates = decay_candidates st;
          noisy = noisy_users (map au_id candidates) quietSince st;
          chosen = filter (decays noisy quietSince) candidates
      in (map (\<lambda>c. (au_id c, au_riskTier c, au_riskTier c - 1)) chosen, decay_all fresh now chosen st))"

section \<open>The circuit breaker\<close>

definition endOfUtcDay :: "date \<Rightarrow> date" where
  "endOfUtcDay now = now div 86400000 * 86400000 + 86399999"

definition billable :: "ai_status \<Rightarrow> bool" where
  "billable s \<longleftrightarrow> s = Ai_success \<or> s = Ai_api_error"

definition todayPlatformCostCents :: "date \<Rightarrow> ai_store \<Rightarrow> nat" where
  "todayPlatformCostCents now st =
     sum_list (map ur_costCents (select_where
       (\<lambda>r. now div 86400000 * 86400000 \<le> ur_createdAt r \<and> \<not> ur_usedByok r \<and> billable (ur_status r)) (ai_usage st)))"

record circuit_thresholds =
  ct_freeStop :: nat
  ct_trialStop :: nat

definition evaluateCircuit :: "circuit_thresholds \<Rightarrow> nat \<Rightarrow> circuit_state" where
  "evaluateCircuit th cents =
     (if ct_trialStop th \<le> cents then Free_trial_stopped else if ct_freeStop th \<le> cents then Free_stopped else Closed)"

definition plans_to_ban :: "circuit_state \<Rightarrow> plan list" where
  "plans_to_ban state = (if state = Free_stopped then [Free] else [Free, Trial])"

definition circuit_hits :: "circuit_state \<Rightarrow> date \<Rightarrow> ai_user \<Rightarrow> bool" where
  "circuit_hits state now u \<longleftrightarrow> au_plan u \<in> set (plans_to_ban state) \<and>
     (case au_bannedUntil u of None \<Rightarrow> True | Some t \<Rightarrow> t < endOfUtcDay now)"

definition applyCircuit :: "circuit_state \<Rightarrow> bool \<Rightarrow> date \<Rightarrow> ai_store \<Rightarrow> nat \<times> ai_store" where
  "applyCircuit state manual now st =
     (if state = Closed then (0, st)
      else (count_where (circuit_hits state now) (ai_users st),
        st\<lparr>ai_users := update_where (circuit_hits state now)
          (\<lambda>u. u\<lparr>au_bannedUntil := Some (endOfUtcDay now), au_banReason := Some (Circuit_ban state manual)\<rparr>) (ai_users st)\<rparr>))"

definition circuit_banned :: "ai_user \<Rightarrow> bool" where
  "circuit_banned u \<longleftrightarrow> (case au_banReason u of Some (Circuit_ban _ _) \<Rightarrow> True | _ \<Rightarrow> False)"

definition releaseCircuit :: "ai_store \<Rightarrow> nat \<times> ai_store" where
  "releaseCircuit st =
     (count_where circuit_banned (ai_users st),
      st\<lparr>ai_manualTrip := None,
         ai_users := update_where circuit_banned (\<lambda>u. u\<lparr>au_bannedUntil := None, au_banReason := None\<rparr>) (ai_users st)\<rparr>)"

definition tripCircuitManually :: "date \<Rightarrow> ai_store \<Rightarrow> nat \<times> ai_store" where
  "tripCircuitManually now st = applyCircuit Free_trial_stopped True now (st\<lparr>ai_manualTrip := Some (endOfUtcDay now)\<rparr>)"

definition activeManualTripUntil :: "date option \<Rightarrow> date \<Rightarrow> date option" where
  "activeManualTripUntil value now = (case value of None \<Rightarrow> None | Some t \<Rightarrow> if t \<le> now then None else Some t)"

definition STATE_SEVERITY :: "circuit_state \<Rightarrow> nat" where
  "STATE_SEVERITY s = (case s of Closed \<Rightarrow> 0 | Free_stopped \<Rightarrow> 1 | Free_trial_stopped \<Rightarrow> 2)"

definition moreSevere :: "circuit_state \<Rightarrow> circuit_state \<Rightarrow> circuit_state" where
  "moreSevere a b = (if STATE_SEVERITY b \<le> STATE_SEVERITY a then a else b)"

fun stateFromBanReasons :: "ban_reason option list \<Rightarrow> circuit_state \<Rightarrow> bool \<Rightarrow> circuit_state \<times> bool" where
  "stateFromBanReasons [] state manual = (state, manual)"
| "stateFromBanReasons (Some (Circuit_ban level m) # rs) state manual =
     stateFromBanReasons rs (if STATE_SEVERITY state < STATE_SEVERITY level then level else state) (manual \<or> m)"
| "stateFromBanReasons (_ # rs) state manual = stateFromBanReasons rs state manual"

text \<open>The job that runs every ten minutes.\<close>

definition circuit_check :: "circuit_thresholds \<Rightarrow> date \<Rightarrow> ai_store \<Rightarrow> nat \<times> ai_store" where
  "circuit_check th now st =
     (let manual = activeManualTripUntil (ai_manualTrip st) now \<noteq> None;
          state = (if manual then Free_trial_stopped else evaluateCircuit th (todayPlatformCostCents now st))
      in applyCircuit state manual now st)"

record circuit_status =
  cs_state :: circuit_state
  cs_costState :: circuit_state
  cs_banState :: circuit_state
  cs_manual :: bool
  cs_bannedUsers :: nat

definition getCircuitStatus :: "circuit_thresholds \<Rightarrow> date \<Rightarrow> ai_store \<Rightarrow> circuit_status" where
  "getCircuitStatus th now st =
     (let manualUntil = activeManualTripUntil (ai_manualTrip st) now;
          banned = select_where (\<lambda>u. circuit_banned u \<and> (case au_bannedUntil u of None \<Rightarrow> False | Some t \<Rightarrow> now < t)) (ai_users st);
          costState = evaluateCircuit th (todayPlatformCostCents now st);
          (fromBans, manual) = stateFromBanReasons (dedup (map au_banReason banned)) Closed False;
          banState = (if manualUntil \<noteq> None then moreSevere fromBans Free_trial_stopped else fromBans)
      in \<lparr>cs_state = moreSevere costState banState, cs_costState = costState, cs_banState = banState,
          cs_manual = (manual \<or> manualUntil \<noteq> None), cs_bannedUsers = length banned\<rparr>)"

section \<open>The quota gate\<close>

fun AI_MONTHLY_QUOTA :: "plan \<Rightarrow> int" where
  "AI_MONTHLY_QUOTA Free = 20"
| "AI_MONTHLY_QUOTA Trial = 100"
| "AI_MONTHLY_QUOTA Pro = 500"
| "AI_MONTHLY_QUOTA Team_plan = 500"
| "AI_MONTHLY_QUOTA Enterprise = - 1"

fun AI_RATE_LIMIT_PER_MINUTE :: "plan \<Rightarrow> nat" where
  "AI_RATE_LIMIT_PER_MINUTE Free = 5"
| "AI_RATE_LIMIT_PER_MINUTE Trial = 15"
| "AI_RATE_LIMIT_PER_MINUTE Pro = 30"
| "AI_RATE_LIMIT_PER_MINUTE Team_plan = 30"
| "AI_RATE_LIMIT_PER_MINUTE Enterprise = 200"

fun AI_RATE_LIMIT_PER_HOUR :: "plan \<Rightarrow> nat" where
  "AI_RATE_LIMIT_PER_HOUR Free = 20"
| "AI_RATE_LIMIT_PER_HOUR Trial = 80"
| "AI_RATE_LIMIT_PER_HOUR Pro = 200"
| "AI_RATE_LIMIT_PER_HOUR Team_plan = 200"
| "AI_RATE_LIMIT_PER_HOUR Enterprise = 1000"

definition countBillableCalls :: "user_id \<Rightarrow> string \<Rightarrow> ai_store \<Rightarrow> nat" where
  "countBillableCalls userId period st =
     count_where (\<lambda>r. ur_userId r = userId \<and> ur_periodMonth r = period \<and> \<not> ur_usedByok r \<and> billable (ur_status r)) (ai_usage st)"

definition countCallsSince :: "user_id \<Rightarrow> date \<Rightarrow> ai_store \<Rightarrow> nat" where
  "countCallsSince userId since st = count_where (\<lambda>r. ur_userId r = userId \<and> since \<le> ur_createdAt r) (ai_usage st)"

datatype ai_refusal = Quota_exhausted | Rate_limited | Banned | Email_unverified

datatype ai_verdict = Allow (ai_remaining: int) (ai_limit: int) bool | Refuse_ai ai_refusal "int option"

definition seconds_up :: "int \<Rightarrow> int" where "seconds_up ms = - ((- ms) div 1000)"

definition monthly_limit :: "plan \<Rightarrow> nat \<Rightarrow> bool \<Rightarrow> int" where
  "monthly_limit p tier usedByok =
     (if usedByok \<or> AI_MONTHLY_QUOTA p = - 1 then - 1
      else max 1 (AI_MONTHLY_QUOTA p * int (tp_aiQuotaQuarters (policyForTier tier)) div 4))"

definition checkAiQuota :: "user_id \<Rightarrow> bool \<Rightarrow> date \<Rightarrow> string \<Rightarrow> ai_store \<Rightarrow> ai_verdict" where
  "checkAiQuota userId usedByok now period st =
     (case find_first (\<lambda>u. au_id u = userId) (ai_users st) of
        None \<Rightarrow> Refuse_ai Quota_exhausted None
      | Some u \<Rightarrow>
          let policy = policyForTier (au_riskTier u); p = au_plan u;
              limit = monthly_limit p (au_riskTier u) usedByok;
              used = countBillableCalls userId period st
          in
          if tp_aiQuotaQuarters policy = 0 then Refuse_ai Banned None
          else if tp_requireEmailVerifiedForApi policy \<and> au_emailVerified u = None then Refuse_ai Email_unverified None
          else if p = Free \<and> au_emailVerified u = None then Refuse_ai Email_unverified None
          else if (case au_bannedUntil u of None \<Rightarrow> False | Some t \<Rightarrow> now < t)
          then Refuse_ai Banned (map_option (\<lambda>t. seconds_up (t - now)) (au_bannedUntil u))
          else if p \<in> {Free, Trial} \<and> activeManualTripUntil (ai_manualTrip st) now \<noteq> None
          then Refuse_ai Banned (map_option (\<lambda>t. seconds_up (t - now)) (activeManualTripUntil (ai_manualTrip st) now))
          else if limit \<noteq> - 1 \<and> limit \<le> int used then Refuse_ai Quota_exhausted None
          else if AI_RATE_LIMIT_PER_MINUTE p \<le> countCallsSince userId (now - 60000) st then Refuse_ai Rate_limited (Some 60)
          else if AI_RATE_LIMIT_PER_HOUR p \<le> countCallsSince userId (now - 3600000) st then Refuse_ai Rate_limited (Some 3600)
          else Allow (if limit = - 1 then - 1 else max 0 (limit - int used)) limit usedByok)"

section \<open>Usage records\<close>

text \<open>Prices in cents for a million tokens; unknown models count as \<open>gpt-4o-mini\<close>. The sum is exact here.\<close>

definition pricing :: "string \<Rightarrow> nat \<times> nat" where
  "pricing model =
     (if model = ''gpt-4o'' then (250, 1000) else if model = ''gpt-4'' then (3000, 6000)
      else if model = ''claude-3-5-sonnet'' then (300, 1500) else if model = ''claude-3-haiku'' then (25, 125)
      else (15, 60))"

definition estimateCostCents :: "string \<Rightarrow> nat \<Rightarrow> nat \<Rightarrow> nat" where
  "estimateCostCents model promptTokens completionTokens =
     (case pricing model of (p, c) \<Rightarrow> (promptTokens * p + completionTokens * c + 999999) div 1000000)"

record ai_call =
  ic_userId :: user_id
  ic_teamId :: "team_id option"
  ic_callKind :: string
  ic_model :: string
  ic_promptTokens :: nat
  ic_completionTokens :: nat
  ic_usedByok :: bool
  ic_aiKeyBindingId :: "row_id option"
  ic_requestId :: "string option"
  ic_status :: ai_status
  ic_promptHash :: "string option"
  ic_prompt :: "string option"
  ic_completion :: "string option"
  ic_redactedPrompt :: "string option"
  ic_jailbreak :: bool

text \<open>Encryption and redaction are parameters.\<close>

record ai_env =
  ae_encrypt :: "string option \<Rightarrow> string option"
  ae_redact :: "string \<Rightarrow> string"

definition usage_values :: "ai_env \<Rightarrow> row_id \<Rightarrow> date \<Rightarrow> string \<Rightarrow> ai_call \<Rightarrow> ai_usage_row" where
  "usage_values env newId usedAt period c =
     \<lparr>ur_id = newId, ur_userId = ic_userId c, ur_teamId = ic_teamId c, ur_callKind = ic_callKind c, ur_periodMonth = period, ur_model = ic_model c,
      ur_promptTokens = ic_promptTokens c, ur_completionTokens = ic_completionTokens c,
      ur_costCents = estimateCostCents (ic_model c) (ic_promptTokens c) (ic_completionTokens c),
      ur_usedByok = ic_usedByok c, ur_status = ic_status c, ur_promptHash = ic_promptHash c,
      ur_encryptedPrompt = ae_encrypt env (ic_prompt c), ur_encryptedCompletion = ae_encrypt env (ic_completion c),
      ur_redactedPrompt = (case ic_redactedPrompt c of Some r \<Rightarrow> Some r | None \<Rightarrow> map_option (ae_redact env) (or_null (ic_prompt c))),
      ur_jailbreak = ic_jailbreak c, ur_requestId = ic_requestId c, ur_createdAt = usedAt\<rparr>"

definition coalesce :: "'a option \<Rightarrow> 'a option \<Rightarrow> 'a option" where
  "coalesce a b = (case a of None \<Rightarrow> b | Some _ \<Rightarrow> a)"

text \<open>What the upsert changes of a row that is there already.\<close>

definition merge_usage :: "ai_usage_row \<Rightarrow> ai_usage_row \<Rightarrow> ai_usage_row" where
  "merge_usage new r =
     (let r1 = (if 0 < ur_promptTokens new \<or> 0 < ur_completionTokens new
          then r\<lparr>ur_promptTokens := ur_promptTokens new, ur_completionTokens := ur_completionTokens new,
                 ur_costCents := ur_costCents new, ur_model := ur_model new\<rparr>
          else r)
      in r1\<lparr>ur_promptHash := coalesce (ur_promptHash r) (ur_promptHash new),
            ur_encryptedPrompt := coalesce (ur_encryptedPrompt r) (ur_encryptedPrompt new),
            ur_encryptedCompletion := coalesce (ur_encryptedCompletion r) (ur_encryptedCompletion new),
            ur_redactedPrompt := coalesce (ur_redactedPrompt r) (ur_redactedPrompt new)\<rparr>)"

text \<open>
  Only a non-empty request id selects the upsert; the unique index on the request id then refuses a
  second row with an empty one (no result: the statement throws).
\<close>

definition write_usage :: "ai_usage_row \<Rightarrow> ai_usage_row table \<Rightarrow> ai_usage_row table option" where
  "write_usage new t =
     (let taken = ur_requestId new \<noteq> None \<and> find_first (\<lambda>r. ur_requestId r = ur_requestId new) t \<noteq> None in
      if \<not> taken then Some (insert_row new t)
      else if or_null (ur_requestId new) \<noteq> None
      then Some (update_where (\<lambda>r. ur_requestId r = ur_requestId new) (merge_usage new) t)
      else None)"

definition stamp_binding :: "date \<Rightarrow> ai_call \<Rightarrow> ai_key_row table \<Rightarrow> ai_key_row table" where
  "stamp_binding usedAt c t =
     (case (if ic_usedByok c \<and> ic_status c = Ai_success then or_null (ic_aiKeyBindingId c) else None) of
        None \<Rightarrow> t
      | Some k \<Rightarrow> update_where (\<lambda>b. ak_id b = k \<and> ak_userId b = ic_userId c \<and> ak_active b \<and>
            (case ak_lastUsedAt b of None \<Rightarrow> True | Some l \<Rightarrow> l < usedAt))
          (\<lambda>b. b\<lparr>ak_lastUsedAt := Some usedAt, ak_lastErrorAt := None, ak_lastError := None, ak_updatedAt := usedAt\<rparr>) t)"

definition recordAiUsage :: "ai_env \<Rightarrow> row_id \<Rightarrow> date \<Rightarrow> string \<Rightarrow> ai_call \<Rightarrow> ai_store \<Rightarrow> ai_store option" where
  "recordAiUsage env newId usedAt period c st =
     map_option (\<lambda>t. st\<lparr>ai_usage := t, ai_keys := stamp_binding usedAt c (ai_keys st)\<rparr>)
       (write_usage (usage_values env newId usedAt period c) (ai_usage st))"

definition markAiUsageFailed :: "string \<Rightarrow> ai_store \<Rightarrow> ai_store" where
  "markAiUsageFailed requestId st =
     st\<lparr>ai_usage := update_where (\<lambda>r. ur_requestId r = Some requestId) (\<lambda>r. r\<lparr>ur_status := Ai_api_error\<rparr>) (ai_usage st)\<rparr>"

text \<open>\<open>monthStart\<close> is the first moment of the month of \<open>period\<close>.\<close>

definition byokTokensUsedThisMonth :: "user_id \<Rightarrow> date \<Rightarrow> string \<Rightarrow> ai_store \<Rightarrow> nat" where
  "byokTokensUsedThisMonth userId monthStart period st =
     (let resetAt = Option.bind (find_first (\<lambda>u. au_id u = userId) (ai_users st)) au_byokQuotaResetAt;
          lower = (case resetAt of None \<Rightarrow> monthStart | Some t \<Rightarrow> if monthStart < t then t else monthStart)
      in sum_list (map (\<lambda>r. ur_promptTokens r + ur_completionTokens r) (select_where
           (\<lambda>r. ur_userId r = userId \<and> ur_periodMonth r = period \<and> lower \<le> ur_createdAt r \<and> ur_usedByok r \<and> billable (ur_status r))
           (ai_usage st))))"

definition resetByokQuotaUsage :: "user_id \<Rightarrow> date \<Rightarrow> ai_store \<Rightarrow> ai_store" where
  "resetByokQuotaUsage userId now st =
     st\<lparr>ai_users := update_where (\<lambda>u. au_id u = userId) (\<lambda>u. u\<lparr>au_byokQuotaResetAt := Some now\<rparr>) (ai_users st)\<rparr>"

section \<open>Automatic bans\<close>

record anomaly_signal =
  sg_userId :: user_id
  sg_anomaly :: anomaly
  sg_banUntil :: date

text \<open>
  The groups of a query, in the order of their first rows: the database may return them in any order.
\<close>

definition groups_by :: "('r \<Rightarrow> 'k) \<Rightarrow> 'r list \<Rightarrow> ('k \<times> 'r list) list" where
  "groups_by k rs = map (\<lambda>x. (x, filter (\<lambda>r. k r = x) rs)) (dedup (map k rs))"

definition hour_rows :: "date \<Rightarrow> ai_store \<Rightarrow> ai_usage_row list" where
  "hour_rows now st = select_where (\<lambda>r. now - 60 * 60 * 1000 \<le> ur_createdAt r) (ai_usage st)"

definition repeated_prompts :: "date \<Rightarrow> ai_store \<Rightarrow> anomaly_signal list" where
  "repeated_prompts now st =
     map (\<lambda>((u, h), rs). \<lparr>sg_userId = u, sg_anomaly = Same_prompt (length rs), sg_banUntil = now + 24 * 60 * 60 * 1000\<rparr>)
       (filter (\<lambda>(k, rs). 5 \<le> length rs)
         (groups_by (\<lambda>r. (ur_userId r, ur_promptHash r)) (filter (\<lambda>r. ur_promptHash r \<noteq> None) (hour_rows now st))))"

definition token_sum :: "ai_usage_row list \<Rightarrow> nat" where
  "token_sum rs = sum_list (map (\<lambda>r. ur_promptTokens r + ur_completionTokens r) rs)"

definition heavy_users :: "date \<Rightarrow> ai_store \<Rightarrow> anomaly_signal list" where
  "heavy_users now st =
     map (\<lambda>(u, rs). \<lparr>sg_userId = u, sg_anomaly = Many_tokens (token_sum rs), sg_banUntil = now + 24 * 60 * 60 * 1000\<rparr>)
       (filter (\<lambda>(u, rs). 100000 < token_sum rs) (groups_by ur_userId (filter (\<lambda>r. \<not> ur_usedByok r) (hour_rows now st))))"

definition refused_calls :: "ai_usage_row list \<Rightarrow> nat" where
  "refused_calls rs = length (filter (\<lambda>r. \<not> billable (ur_status r)) rs)"

definition failing_users :: "date \<Rightarrow> ai_store \<Rightarrow> anomaly_signal list" where
  "failing_users now st =
     map (\<lambda>(u, rs). \<lparr>sg_userId = u, sg_anomaly = Failure_rate (refused_calls rs) (length rs), sg_banUntil = now + 60 * 60 * 1000\<rparr>)
       (filter (\<lambda>(u, rs). 10 \<le> length rs \<and> 8 * length rs < 10 * refused_calls rs) (groups_by ur_userId (hour_rows now st)))"

definition jailbreak_users :: "date \<Rightarrow> ai_store \<Rightarrow> anomaly_signal list" where
  "jailbreak_users now st =
     map (\<lambda>(u, rs). \<lparr>sg_userId = u, sg_anomaly = Jailbreak_attempts (length rs), sg_banUntil = now + 24 * 60 * 60 * 1000\<rparr>)
       (filter (\<lambda>(u, rs). 3 \<le> length rs) (groups_by ur_userId
         (select_where (\<lambda>r. now - 24 * 60 * 60 * 1000 \<le> ur_createdAt r \<and> ur_jailbreak r) (ai_usage st))))"

definition review_ban :: "date \<Rightarrow> date" where
  "review_ban now = now + 365 * 100 * 24 * 60 * 60 * 1000"

definition clustered_users :: "date \<Rightarrow> ai_store \<Rightarrow> anomaly_signal list" where
  "clustered_users now st =
     (let since = now - 24 * 60 * 60 * 1000;
          active = select_where (\<lambda>u. au_signupIpHash u \<noteq> None \<and> since \<le> au_createdAt u \<and>
            list_ex (\<lambda>r. ur_userId r = au_id u \<and> since \<le> ur_createdAt r) (ai_usage st)) (ai_users st)
      in concat (map (\<lambda>(h, us). map (\<lambda>u. \<lparr>sg_userId = u, sg_anomaly = Same_address (length us), sg_banUntil = review_ban now\<rparr>)
             (sort (map au_id us)))
           (filter (\<lambda>(h, us). 5 \<le> length us) (groups_by au_signupIpHash active))))"

definition anomaly_signals :: "date \<Rightarrow> ai_store \<Rightarrow> anomaly_signal list" where
  "anomaly_signals now st =
     repeated_prompts now st @ heavy_users now st @ failing_users now st @ jailbreak_users now st @ clustered_users now st"

definition apply_signal :: "row_id \<Rightarrow> date \<Rightarrow> anomaly_signal \<Rightarrow> ai_store \<Rightarrow> ai_store" where
  "apply_signal newId now s st =
     snd (raiseRiskTier newId now (sg_userId s) ''ai_anomaly_ban''
       (st\<lparr>ai_users := update_where (\<lambda>u. au_id u = sg_userId s)
          (\<lambda>u. u\<lparr>au_bannedUntil := Some (sg_banUntil s), au_banReason := Some (Anomaly_ban (sg_anomaly s))\<rparr>) (ai_users st)\<rparr>))"

text \<open>The first signal of a user counts; the second result lists the users whose snapshot is pushed.\<close>

fun apply_signals :: "(user_id \<Rightarrow> row_id) \<Rightarrow> date \<Rightarrow> user_id set \<Rightarrow> anomaly_signal list \<Rightarrow> ai_store \<Rightarrow> user_id list \<times> ai_store" where
  "apply_signals fresh now seen [] st = ([], st)"
| "apply_signals fresh now seen (s # ss) st =
     (if sg_userId s \<in> seen then apply_signals fresh now seen ss st
      else case apply_signals fresh now (insert (sg_userId s) seen) ss (apply_signal (fresh (sg_userId s)) now s st) of
        (pushed, st') \<Rightarrow> (sg_userId s # pushed, st'))"

definition detectAndBan :: "(user_id \<Rightarrow> row_id) \<Rightarrow> date \<Rightarrow> ai_store \<Rightarrow> anomaly_signal list \<times> user_id list \<times> ai_store" where
  "detectAndBan fresh now st = (anomaly_signals now st, apply_signals fresh now {} (anomaly_signals now st) st)"

end
