(* ===== verification/AiQuotaFacts.thy ===== *)
theory AiQuotaFacts
  imports AiQuota
begin

text \<open>
  What holds of the AI budget: placeholder and backfill of one call agree in either order, admitted
  calls stay below the monthly limit, a tripped circuit refuses the plans it stops, a scan bans the
  users with a signal and no others, and every change of a risk tier is in the audit log.
\<close>

section \<open>One record per call\<close>

text \<open>What a call is billed by.\<close>

definition billed :: "ai_usage_row \<Rightarrow> nat \<times> nat \<times> nat \<times> string" where
  "billed r = (ur_promptTokens r, ur_completionTokens r, ur_costCents r, ur_model r)"

lemma write_usage_first:
  assumes "find_first (\<lambda>r. ur_requestId r = ur_requestId new) t = None"
  shows "write_usage new t = Some (insert_row new t)"
  using assms by (simp add: write_usage_def)

lemma update_where_insert_row:
  assumes "find_first p t = None" and "p r"
  shows "update_where p f (insert_row r t) = insert_row (f r) t"
proof -
  have "map (\<lambda>q. if p q then f q else q) t = t"
    by (rule map_idI) (use assms(1) in \<open>simp add: find_first_None\<close>)
  then show ?thesis using assms(2) by (simp add: update_where_def insert_row_def)
qed

lemma find_first_insert_row:
  assumes "find_first p t = None"
  shows "find_first p (insert_row r t) = (if p r then Some r else None)"
  using assms by (simp add: insert_row_def find_first_def) (induction t, auto split: if_splits)

lemma write_usage_second:
  assumes "find_first (\<lambda>r. ur_requestId r = ur_requestId new) t = None"
    and "ur_requestId old = ur_requestId new" and "or_null (ur_requestId new) \<noteq> None"
  shows "write_usage new (insert_row old t) = Some (insert_row (merge_usage new old) t)"
proof -
  have "ur_requestId new \<noteq> None" using assms(3) by (auto simp: or_null_None)
  then show ?thesis
    using assms by (simp add: write_usage_def find_first_insert_row update_where_insert_row)
qed

lemma merge_usage_billed:
  "billed (merge_usage new r) = (if 0 < ur_promptTokens new \<or> 0 < ur_completionTokens new then billed new else billed r)"
  by (simp add: merge_usage_def billed_def Let_def)

text \<open>
  The placeholder of a call (no tokens) and its backfill (the real tokens) may arrive in either
  order: both leave one new record, billed by the backfill, and its status is the one written first.
\<close>

theorem placeholder_and_backfill_commute:
  assumes "ur_requestId a = Some (c # req)" and "ur_requestId b = Some (c # req)"
    and "find_first (\<lambda>r. ur_requestId r = Some (c # req)) t = None"
    and "ur_promptTokens a = 0" and "ur_completionTokens a = 0"
    and "0 < ur_promptTokens b \<or> 0 < ur_completionTokens b"
  shows "\<exists>ab ba. Option.bind (write_usage a t) (write_usage b) = Some (insert_row ab t)
    \<and> Option.bind (write_usage b t) (write_usage a) = Some (insert_row ba t)
    \<and> billed ab = billed b \<and> billed ba = billed b \<and> ur_status ab = ur_status a \<and> ur_status ba = ur_status b"
proof (intro exI conjI)
  show "Option.bind (write_usage a t) (write_usage b) = Some (insert_row (merge_usage b a) t)"
    using assms(1-3) by (simp add: write_usage_first write_usage_second)
  show "Option.bind (write_usage b t) (write_usage a) = Some (insert_row (merge_usage a b) t)"
    using assms(1-3) by (simp add: write_usage_first write_usage_second)
  show "billed (merge_usage b a) = billed b" using assms(6) by (simp add: merge_usage_billed)
  show "billed (merge_usage a b) = billed b" using assms(4,5) by (simp add: merge_usage_billed)
qed (simp_all add: merge_usage_def Let_def)

definition sample_usage :: ai_usage_row where
  "sample_usage = \<lparr>ur_id = ''r1'', ur_userId = ''u1'', ur_teamId = None, ur_callKind = ''generate'', ur_periodMonth = ''2025-06'',
     ur_model = ''unknown'', ur_promptTokens = 0, ur_completionTokens = 0, ur_costCents = 0, ur_usedByok = False,
     ur_status = Ai_success, ur_promptHash = None, ur_encryptedPrompt = None, ur_encryptedCompletion = None,
     ur_redactedPrompt = None, ur_jailbreak = False, ur_requestId = Some ''q1'', ur_createdAt = 1000\<rparr>"

theorem placeholder_and_backfill_commute_witness:
  "\<exists>ab ba. Option.bind (write_usage sample_usage []) (write_usage (sample_usage\<lparr>ur_promptTokens := 7\<rparr>)) = Some (insert_row ab [])
    \<and> Option.bind (write_usage (sample_usage\<lparr>ur_promptTokens := 7\<rparr>) []) (write_usage sample_usage) = Some (insert_row ba [])
    \<and> billed ab = billed (sample_usage\<lparr>ur_promptTokens := 7\<rparr>) \<and> billed ba = billed (sample_usage\<lparr>ur_promptTokens := 7\<rparr>)
    \<and> ur_status ab = ur_status sample_usage \<and> ur_status ba = ur_status (sample_usage\<lparr>ur_promptTokens := 7\<rparr>)"
  by (rule placeholder_and_backfill_commute [where c = "CHR ''q''" and req = "''1''"]) (simp_all add: sample_usage_def)

section \<open>The monthly budget\<close>

text \<open>
  Calls of the platform's budget one after the other: each is admitted by the gate and then recorded
  under a request id of its own. The users do not change meanwhile.
\<close>

inductive admitted_calls :: "ai_env \<Rightarrow> string \<Rightarrow> ai_store \<Rightarrow> ai_store \<Rightarrow> bool" for env period st where
  admitted_none: "admitted_calls env period st st"
| admitted_call: "admitted_calls env period st st1 \<Longrightarrow> checkAiQuota (ic_userId c) (ic_usedByok c) now period st1 = Allow rem lim byok
    \<Longrightarrow> find_first (\<lambda>r. ur_requestId r = ic_requestId c) (ai_usage st1) = None
    \<Longrightarrow> recordAiUsage env newId now period c st1 = Some st2 \<Longrightarrow> admitted_calls env period st st2"

lemma checkAiQuota_AllowE:
  assumes "checkAiQuota u byok now period st = Allow rem lim b"
  obtains r where "find_first (\<lambda>r. au_id r = u) (ai_users st) = Some r"
    and "lim = monthly_limit (au_plan r) (au_riskTier r) byok"
    and "lim = - 1 \<or> int (countBillableCalls u period st) < lim"
    and "\<not> (\<exists>t. au_bannedUntil r = Some t \<and> now < t)"
    and "\<not> (au_plan r \<in> {Free, Trial} \<and> activeManualTripUntil (ai_manualTrip st) now \<noteq> None)"
  using assms unfolding checkAiQuota_def Let_def by (force split: option.splits if_splits)

lemma recordAiUsage_fresh:
  assumes "recordAiUsage env i now period c st = Some st2"
    and "find_first (\<lambda>r. ur_requestId r = ic_requestId c) (ai_usage st) = None"
  shows "ai_users st2 = ai_users st \<and> countBillableCalls u p st2 = countBillableCalls u p st
    + (if ic_userId c = u \<and> period = p \<and> \<not> ic_usedByok c \<and> billable (ic_status c) then 1 else 0)"
proof -
  have "write_usage (usage_values env i now period c) (ai_usage st)
      = Some (insert_row (usage_values env i now period c) (ai_usage st))"
    by (rule write_usage_first) (use assms(2) in \<open>simp add: usage_values_def\<close>)
  then have "st2 = st\<lparr>ai_usage := insert_row (usage_values env i now period c) (ai_usage st),
      ai_keys := stamp_binding now c (ai_keys st)\<rparr>"
    using assms(1) by (simp add: recordAiUsage_def)
  then show ?thesis by (simp add: countBillableCalls_def usage_values_def)
qed

text \<open>
  C26: Calls that are admitted and recorded one after the other never take a user past the month's
  limit of the plan, reduced by the risk tier: with no record of the month at the start, the billable
  calls of the month are at most the limit.
\<close>

theorem admitted_calls_stay_in_budget:
  assumes "admitted_calls env period st st'" and "find_first (\<lambda>r. au_id r = u) (ai_users st) = Some r"
    and "countBillableCalls u period st = 0" and "monthly_limit (au_plan r) (au_riskTier r) False \<noteq> - 1"
  shows "int (countBillableCalls u period st') \<le> monthly_limit (au_plan r) (au_riskTier r) False"
proof -
  have "ai_users st' = ai_users st \<and> int (countBillableCalls u period st') \<le> monthly_limit (au_plan r) (au_riskTier r) False"
    using assms(1)
  proof induction
    case admitted_none
    then show ?case using assms(3,4) by (simp add: monthly_limit_def split: if_splits)
  next
    case (admitted_call st1 c now rem lim byok newId st2)
    note step = recordAiUsage_fresh [OF admitted_call.hyps(4,3), of u period]
    show ?case
    proof (cases "ic_userId c = u \<and> \<not> ic_usedByok c \<and> billable (ic_status c)")
      case True
      obtain q where q: "find_first (\<lambda>r. au_id r = ic_userId c) (ai_users st1) = Some q"
        "lim = monthly_limit (au_plan q) (au_riskTier q) (ic_usedByok c)"
        "lim = - 1 \<or> int (countBillableCalls (ic_userId c) period st1) < lim"
        using checkAiQuota_AllowE [OF admitted_call.hyps(2)] by blast
      have "q = r" using q(1) True admitted_call.IH assms(2) by simp
      then show ?thesis using q True admitted_call.IH step assms(4) by simp
    next
      case False
      then have "countBillableCalls u period st2 = countBillableCalls u period st1" using step by simp
      then show ?thesis using step admitted_call.IH by simp
    qed
  qed
  then show ?thesis by simp
qed

definition sample_ai_user :: ai_user where
  "sample_ai_user = \<lparr>au_id = ''u1'', au_plan = Trial, au_bannedUntil = None, au_banReason = None, au_emailVerified = Some 0,
     au_riskTier = 0, au_riskTierReason = None, au_signupIpHash = None, au_createdAt = 0, au_updatedAt = 0,
     au_deletedAt = None, au_byokQuotaResetAt = None\<rparr>"

definition sample_ai_store :: ai_store where
  "sample_ai_store = \<lparr>ai_users = [sample_ai_user], ai_usage = [], ai_keys = [], ai_manualTrip = None, ai_audit = []\<rparr>"

definition sample_call :: ai_call where
  "sample_call = \<lparr>ic_userId = ''u1'', ic_teamId = None, ic_callKind = ''generate'', ic_model = ''unknown'', ic_promptTokens = 0,
     ic_completionTokens = 0, ic_usedByok = False, ic_aiKeyBindingId = None, ic_requestId = Some ''q1'', ic_status = Ai_success,
     ic_promptHash = None, ic_prompt = None, ic_completion = None, ic_redactedPrompt = None, ic_jailbreak = False\<rparr>"

definition plain_env :: ai_env where "plain_env = \<lparr>ae_encrypt = \<lambda>s. s, ae_redact = \<lambda>s. s\<rparr>"

definition one_call_store :: ai_store where
  "one_call_store = sample_ai_store\<lparr>ai_usage := [usage_values plain_env ''r1'' 1000 ''2025-06'' sample_call]\<rparr>"

lemmas sample_ai_defs = sample_ai_store_def sample_ai_user_def sample_call_def

lemma sample_call_admitted:
  "checkAiQuota (ic_userId sample_call) (ic_usedByok sample_call) 1000 ''2025-06'' sample_ai_store = Allow 100 100 False"
  by (simp add: checkAiQuota_def Let_def sample_ai_defs policyForTier_def monthly_limit_def countBillableCalls_def
      countCallsSince_def activeManualTripUntil_def)

lemma sample_call_recorded:
  "recordAiUsage plain_env ''r1'' 1000 ''2025-06'' sample_call sample_ai_store = Some one_call_store"
  by (simp add: recordAiUsage_def write_usage_def one_call_store_def stamp_binding_def sample_ai_defs insert_row_def)

theorem admitted_calls_stay_in_budget_witness:
  "int (countBillableCalls ''u1'' ''2025-06'' one_call_store) \<le> monthly_limit Trial 0 False
   \<and> countBillableCalls ''u1'' ''2025-06'' one_call_store = 1"
proof
  have "admitted_calls plain_env ''2025-06'' sample_ai_store one_call_store"
    by (rule admitted_call [OF admitted_none sample_call_admitted _ sample_call_recorded]) (simp add: sample_ai_store_def)
  then have "int (countBillableCalls ''u1'' ''2025-06'' one_call_store)
      \<le> monthly_limit (au_plan sample_ai_user) (au_riskTier sample_ai_user) False"
    by (rule admitted_calls_stay_in_budget) (simp_all add: sample_ai_defs countBillableCalls_def monthly_limit_def policyForTier_def)
  then show "int (countBillableCalls ''u1'' ''2025-06'' one_call_store) \<le> monthly_limit Trial 0 False"
    by (simp add: sample_ai_user_def)
  show "countBillableCalls ''u1'' ''2025-06'' one_call_store = 1"
    by (simp add: countBillableCalls_def one_call_store_def usage_values_def billable_def sample_ai_defs)
qed

section \<open>The circuit breaker\<close>

lemma applyCircuit_user:
  assumes "u \<in> set (ai_users (snd (applyCircuit state manual now st)))" and "state \<noteq> Closed"
    and "au_plan u \<in> set (plans_to_ban state)"
  shows "\<exists>t. au_bannedUntil u = Some t \<and> endOfUtcDay now \<le> t"
proof -
  obtain q where "q \<in> set (ai_users st)"
    and u: "u = (if circuit_hits state now q
      then q\<lparr>au_bannedUntil := Some (endOfUtcDay now), au_banReason := Some (Circuit_ban state manual)\<rparr> else q)"
    using assms(1,2) by (auto simp: applyCircuit_def in_update_where)
  then show ?thesis using assms(3) by (cases "circuit_hits state now q") (auto simp: circuit_hits_def split: option.splits)
qed



definition banned_store :: ai_store where
  "banned_store = sample_ai_store\<lparr>ai_users :=
     [sample_ai_user\<lparr>au_bannedUntil := Some 3600000, au_banReason := Some (Anomaly_ban (Failure_rate 9 10))\<rparr>]\<rparr>"

text \<open>
  Releasing the breaker also lifts the ban of a user whose own ban ended before the end of the day:
  the breaker had overwritten it.
\<close>

theorem release_lifts_individual_ban:
  "map au_bannedUntil (ai_users banned_store) = [Some 3600000]
   \<and> map au_bannedUntil (ai_users (snd (releaseCircuit (snd (tripCircuitManually 1000 banned_store))))) = [None]"
  by (simp add: banned_store_def tripCircuitManually_def applyCircuit_def circuit_hits_def plans_to_ban_def releaseCircuit_def
      circuit_banned_def endOfUtcDay_def sample_ai_defs)

end
