(* ===== verification/AiTierFacts.thy ===== *)
theory AiTierFacts
  imports AiQuotaFacts
begin

text \<open>
  Scans and the risk tier: what a scan does to each user, and that the audit log accounts for every
  change of a tier.
\<close>

section \<open>What a scan does to one user\<close>

definition punished :: "date \<Rightarrow> anomaly_signal \<Rightarrow> ai_user \<Rightarrow> ai_user" where
  "punished now s u =
     (let b = u\<lparr>au_bannedUntil := Some (sg_banUntil s), au_banReason := Some (Anomaly_ban (sg_anomaly s))\<rparr> in
      if 4 \<le> au_riskTier u then b
      else b\<lparr>au_riskTier := au_riskTier u + 1,
             au_riskTierReason := Some (raised_reason ''ai_anomaly_ban'' (au_riskTier u) (au_riskTierReason u)), au_updatedAt := now\<rparr>)"

lemma punished_id [simp]: "au_id (punished now s u) = au_id u"
  by (simp add: punished_def Let_def)

lemma raiseRiskTier_users:
  assumes "unique_key au_id (ai_users st)"
  shows "ai_users (snd (raiseRiskTier i now u reason st)) = update_where (\<lambda>r. au_id r = u)
    (\<lambda>r. if 4 \<le> au_riskTier r then r
         else r\<lparr>au_riskTier := au_riskTier r + 1, au_riskTierReason := Some (raised_reason reason (au_riskTier r) (au_riskTierReason r)),
                au_updatedAt := now\<rparr>) (ai_users st)"
proof (cases "find_first (\<lambda>r. au_id r = u) (ai_users st)")
  case None
  then have "\<forall>r \<in> set (ai_users st). au_id r \<noteq> u" by (simp add: find_first_None)
  then show ?thesis using None by (auto simp: raiseRiskTier_def update_where_def intro!: map_idI [symmetric])
next
  case (Some c)
  have c: "c \<in> set (ai_users st)" "au_id c = u" using find_first_Some [OF Some] by auto
  have same: "r = c" if "r \<in> set (ai_users st)" "au_id r = u" for r
    using unique_key_eq [OF assms that(1) c(1)] that(2) c(2) by simp
  show ?thesis
    by (auto simp: raiseRiskTier_def Some Let_def update_where_def intro!: map_idI [symmetric] dest: same)
qed

lemma apply_signal_users:
  assumes "unique_key au_id (ai_users st)"
  shows "ai_users (apply_signal i now s st) = update_where (\<lambda>r. au_id r = sg_userId s) (punished now s) (ai_users st)"
proof -
  let ?ban = "\<lambda>u. u\<lparr>au_bannedUntil := Some (sg_banUntil s), au_banReason := Some (Anomaly_ban (sg_anomaly s))\<rparr>"
  have "unique_key au_id (update_where (\<lambda>r. au_id r = sg_userId s) ?ban (ai_users st))"
    by (rule unique_key_update_where [OF assms]) simp
  then show ?thesis
    by (simp add: apply_signal_def raiseRiskTier_users) (simp add: update_where_def punished_def Let_def)
qed

lemma apply_signals_users:
  assumes "unique_key au_id (ai_users st)"
  shows "ai_users (snd (apply_signals fresh now seen ss st)) = map (\<lambda>u. if au_id u \<in> seen then u
    else case find_first (\<lambda>s. sg_userId s = au_id u) ss of None \<Rightarrow> u | Some s \<Rightarrow> punished now s u) (ai_users st)"
  using assms
proof (induction ss arbitrary: seen st)
  case Nil
  then show ?case by (auto intro!: map_idI [symmetric])
next
  case (Cons s ss)
  show ?case
  proof (cases "sg_userId s \<in> seen")
    case True
    have "(if au_id u \<in> seen then u else case find_first (\<lambda>s. sg_userId s = au_id u) ss of None \<Rightarrow> u | Some s \<Rightarrow> punished now s u)
        = (if au_id u \<in> seen then u else case find_first (\<lambda>s. sg_userId s = au_id u) (s # ss) of None \<Rightarrow> u | Some s \<Rightarrow> punished now s u)"
      for u using True by auto
    then show ?thesis using True Cons.IH [OF Cons.prems] by simp
  next
    case False
    let ?st = "apply_signal (fresh (sg_userId s)) now s st"
    have users: "ai_users ?st = update_where (\<lambda>r. au_id r = sg_userId s) (punished now s) (ai_users st)"
      by (rule apply_signal_users [OF Cons.prems])
    have "unique_key au_id (ai_users ?st)"
      unfolding users by (rule unique_key_update_where [OF Cons.prems]) simp
    note IH = Cons.IH [OF this, of "insert (sg_userId s) seen"]
    have "snd (apply_signals fresh now seen (s # ss) st) = snd (apply_signals fresh now (insert (sg_userId s) seen) ss ?st)"
      using False by (simp split: prod.splits)
    then show ?thesis using False by (auto simp: IH users update_where_def)
  qed
qed

lemma apply_signals_pushed:
  "set (fst (apply_signals fresh now seen ss st)) = sg_userId ` set ss - seen
   \<and> distinct (fst (apply_signals fresh now seen ss st))"
proof (induction ss arbitrary: seen st)
  case (Cons s ss)
  show ?case
  proof (cases "sg_userId s \<in> seen")
    case True
    then show ?thesis using Cons.IH [of seen st] by auto
  next
    case False
    obtain p st' where run: "apply_signals fresh now (insert (sg_userId s) seen) ss (apply_signal (fresh (sg_userId s)) now s st) = (p, st')"
      by fastforce
    show ?thesis using Cons.IH [of "insert (sg_userId s) seen" "apply_signal (fresh (sg_userId s)) now s st"] False run by auto
  qed
qed simp

text \<open>
  C29: A scan bans the users with a signal and nobody else: each of them gets the ban of the first
  signal about him and one step of the risk tier (at most to four), every other user is left as he
  was, and the snapshots pushed are those of the banned users, each once.
\<close>

theorem scan_bans_exactly_the_signalled:
  assumes "unique_key au_id (ai_users st)" and "detectAndBan fresh now st = (signals, pushed, st')"
  shows "ai_users st' = map (\<lambda>u. case find_first (\<lambda>s. sg_userId s = au_id u) signals of
      None \<Rightarrow> u | Some s \<Rightarrow> punished now s u) (ai_users st)
    \<and> set pushed = sg_userId ` set signals \<and> distinct pushed"
proof -
  have run: "signals = anomaly_signals now st" "apply_signals fresh now {} signals st = (pushed, st')"
    using assms(2) by (auto simp: detectAndBan_def)
  show ?thesis
    using apply_signals_users [OF assms(1), of fresh now "{}" signals] apply_signals_pushed [of fresh now "{}" signals st] run(2)
    by simp
qed

definition spam_store :: ai_store where
  "spam_store = sample_ai_store\<lparr>ai_users := [sample_ai_user, sample_ai_user\<lparr>au_id := ''u2''\<rparr>],
     ai_usage := map (\<lambda>i. sample_usage\<lparr>ur_id := ''r'' @ dec i, ur_requestId := None, ur_promptHash := Some ''h''\<rparr>) [0..<5]\<rparr>"

definition audit_id :: "user_id \<Rightarrow> row_id" where "audit_id u = ''a-'' @ u"

definition spam_signals :: "anomaly_signal list" where
  "spam_signals = [\<lparr>sg_userId = ''u1'', sg_anomaly = Same_prompt 5, sg_banUntil = 86402000\<rparr>]"

lemma spam_store_scan: "anomaly_signals 2000 spam_store = spam_signals"
  by (simp add: anomaly_signals_def repeated_prompts_def heavy_users_def failing_users_def jailbreak_users_def clustered_users_def
      hour_rows_def groups_by_def dedup_def token_sum_def refused_calls_def spam_store_def spam_signals_def sample_usage_def
      sample_ai_defs select_where_def upt_rec billable_def)

theorem scan_bans_exactly_the_signalled_witness:
  "(let st' = snd (snd (detectAndBan audit_id 2000 spam_store)) in
    ai_users st' = map (\<lambda>u. case find_first (\<lambda>s. sg_userId s = au_id u) spam_signals of
      None \<Rightarrow> u | Some s \<Rightarrow> punished 2000 s u) (ai_users spam_store)
    \<and> map au_riskTier (ai_users st') = [1, 0])"
proof -
  obtain pushed st' where run: "detectAndBan audit_id 2000 spam_store = (spam_signals, pushed, st')"
    by (simp add: detectAndBan_def spam_store_scan) (metis surj_pair)
  have keys: "unique_key au_id (ai_users spam_store)" by (simp add: spam_store_def sample_ai_user_def)
  note users = scan_bans_exactly_the_signalled [OF keys run]
  have "map au_riskTier (ai_users st') = [1, 0]"
    using users by (simp add: spam_store_def spam_signals_def sample_ai_user_def punished_def)
  then show ?thesis using users run by simp
qed

section \<open>The audit log accounts for every tier\<close>

definition raises :: "ai_store \<Rightarrow> user_id \<Rightarrow> nat" where
  "raises st u = count_where (\<lambda>a. ea_userId a = Some u \<and> ea_action a = ''user.risk_tier_raised'') (ai_audit st)"

definition decays_of :: "ai_store \<Rightarrow> user_id \<Rightarrow> nat" where
  "decays_of st u = count_where (\<lambda>a. ea_userId a = Some u \<and> ea_action a = ''user.risk_tier_decayed'') (ai_audit st)"

text \<open>Each user with the tier that the raises and decays of the log leave unexplained.\<close>

definition ledger :: "ai_store \<Rightarrow> (user_id \<times> int) list" where
  "ledger st = map (\<lambda>r. (au_id r, int (au_riskTier r) + int (decays_of st (au_id r)) - int (raises st (au_id r)))) (ai_users st)"

text \<open>The operations on users, one request or job at a time.\<close>

inductive ai_step :: "ai_store \<Rightarrow> ai_store \<Rightarrow> bool" where
  ai_raise: "ai_step st (snd (raiseRiskTier i now u reason st))"
| ai_scan: "ai_step st (snd (snd (detectAndBan fresh now st)))"
| ai_review: "ai_step st (snd (decayRiskTiers fresh now st))"
| ai_circuit: "ai_step st (snd (circuit_check th now st))"
| ai_trip: "ai_step st (snd (tripCircuitManually now st))"
| ai_release: "ai_step st (snd (releaseCircuit st))"
| ai_record: "recordAiUsage env i now period c st = Some st' \<Longrightarrow> ai_step st st'"
| ai_mark: "ai_step st (markAiUsageFailed q st)"
| ai_reset: "ai_step st (resetByokQuotaUsage u now st)"

lemma ledger_keys: "map fst (ledger st) = map au_id (ai_users st)"
  by (simp add: ledger_def comp_def)

lemma ledger_unique: "ledger st' = ledger st \<Longrightarrow> unique_key au_id (ai_users st') = unique_key au_id (ai_users st)"
  using ledger_keys [of st] ledger_keys [of st'] by (simp add: unique_key_def)

lemma ledger_same:
  assumes "map au_id (ai_users st') = map au_id (ai_users st)" and "map au_riskTier (ai_users st') = map au_riskTier (ai_users st)"
    and "ai_audit st' = ai_audit st"
  shows "ledger st' = ledger st"
proof -
  have l: "ledger s = map2 (\<lambda>i t. (i, int t + int (decays_of s i) - int (raises s i)))
      (map au_id (ai_users s)) (map au_riskTier (ai_users s))" for s
    by (simp add: ledger_def zip_map_map zip_same_conv_map)
  have "decays_of st' = decays_of st" "raises st' = raises st" using assms(3) by (auto simp: decays_of_def raises_def)
  then show ?thesis unfolding l assms(1,2) by simp
qed

lemma ledger_update:
  assumes "\<And>u. u \<in> set (ai_users st) \<Longrightarrow> au_id (f u) = au_id u \<and> au_riskTier (f u) = au_riskTier u"
  shows "ledger (st\<lparr>ai_users := update_where p f (ai_users st)\<rparr>) = ledger st"
  by (rule ledger_same) (use assms in \<open>auto simp: update_where_def\<close>)

text \<open>A write of a tier together with its row of the log.\<close>

lemma ledger_write:
  assumes "unique_key au_id (ai_users st)" and "c \<in> set (ai_users st)"
    and "au_id (f c) = au_id c" and "ea_userId a = Some (au_id c)"
    and "int (au_riskTier (f c)) = int (au_riskTier c)
      + (if ea_action a = ''user.risk_tier_raised'' then 1 else 0) - (if ea_action a = ''user.risk_tier_decayed'' then 1 else 0)"
  shows "ledger (st\<lparr>ai_users := update_where (\<lambda>u. au_id u = au_id c) f (ai_users st), ai_audit := insert_row a (ai_audit st)\<rparr>) = ledger st"
proof -
  let ?st = "st\<lparr>ai_users := update_where (\<lambda>u. au_id u = au_id c) f (ai_users st), ai_audit := insert_row a (ai_audit st)\<rparr>"
  have raises: "raises ?st u = raises st u + (if u = au_id c \<and> ea_action a = ''user.risk_tier_raised'' then 1 else 0)" for u
    using assms(4) by (auto simp: raises_def)
  have decays: "decays_of ?st u = decays_of st u + (if u = au_id c \<and> ea_action a = ''user.risk_tier_decayed'' then 1 else 0)" for u
    using assms(4) by (auto simp: decays_of_def)
  have same: "r = c" if "r \<in> set (ai_users st)" "au_id r = au_id c" for r
    by (rule unique_key_eq [OF assms(1) that(1) assms(2) that(2)])
  have "(au_id (if au_id r = au_id c then f r else r),
      int (au_riskTier (if au_id r = au_id c then f r else r))
        + int (decays_of ?st (au_id (if au_id r = au_id c then f r else r)))
        - int (raises ?st (au_id (if au_id r = au_id c then f r else r))))
    = (au_id r, int (au_riskTier r) + int (decays_of st (au_id r)) - int (raises st (au_id r)))"
    if "r \<in> set (ai_users st)" for r
  proof (cases "au_id r = au_id c")
    case True
    then have "r = c" by (rule same [OF that])
    then show ?thesis using assms(3,5) by (simp add: raises decays split: if_splits)
  qed (simp add: raises decays)
  then have "map (\<lambda>r. (au_id r, int (au_riskTier r) + int (decays_of ?st (au_id r)) - int (raises ?st (au_id r))))
      (map (\<lambda>r. if au_id r = au_id c then f r else r) (ai_users st)) = ledger st"
    unfolding ledger_def map_map comp_def by (rule map_cong [OF refl])
  moreover have "ai_users ?st = map (\<lambda>r. if au_id r = au_id c then f r else r) (ai_users st)" by (simp add: update_where_def)
  ultimately show ?thesis by (simp only: ledger_def [of ?st])
qed

lemma raiseRiskTier_ledger:
  assumes "unique_key au_id (ai_users st)"
  shows "ledger (snd (raiseRiskTier i now u reason st)) = ledger st"
proof (cases "find_first (\<lambda>r. au_id r = u) (ai_users st)")
  case (Some c)
  then have "c \<in> set (ai_users st)" "au_id c = u" by (auto dest: find_first_Some)
  then show ?thesis using Some by (auto simp: raiseRiskTier_def Let_def intro!: ledger_write [OF assms])
qed (simp add: raiseRiskTier_def)

lemma apply_signal_ledger:
  assumes "unique_key au_id (ai_users st)"
  shows "ledger (apply_signal i now s st) = ledger st"
proof -
  let ?st = "st\<lparr>ai_users := update_where (\<lambda>u. au_id u = sg_userId s)
      (\<lambda>u. u\<lparr>au_bannedUntil := Some (sg_banUntil s), au_banReason := Some (Anomaly_ban (sg_anomaly s))\<rparr>) (ai_users st)\<rparr>"
  have ban: "ledger ?st = ledger st" by (rule ledger_update) simp
  then have "unique_key au_id (ai_users ?st)" using ledger_unique assms by blast
  then have "ledger (snd (raiseRiskTier i now (sg_userId s) ''ai_anomaly_ban'' ?st)) = ledger ?st" by (rule raiseRiskTier_ledger)
  then show ?thesis using ban by (simp add: apply_signal_def)
qed

lemma apply_signals_ledger:
  assumes "unique_key au_id (ai_users st)"
  shows "ledger (snd (apply_signals fresh now seen ss st)) = ledger st"
  using assms
proof (induction ss arbitrary: seen st)
  case (Cons s ss)
  have one: "ledger (apply_signal (fresh (sg_userId s)) now s st) = ledger st" by (rule apply_signal_ledger [OF Cons.prems])
  then have "unique_key au_id (ai_users (apply_signal (fresh (sg_userId s)) now s st))" using ledger_unique Cons.prems by blast
  then have "ledger (snd (apply_signals fresh now seen' ss (apply_signal (fresh (sg_userId s)) now s st))) = ledger st" for seen'
    using Cons.IH one by simp
  moreover have "ledger (snd (apply_signals fresh now seen ss st)) = ledger st" using Cons.IH Cons.prems by blast
  ultimately show ?case by (auto split: prod.splits) (metis snd_conv)
qed simp

lemma decay_all_ledger:
  assumes "unique_key au_id (ai_users st)" and "distinct (map au_id cs)"
    and "\<And>c. c \<in> set cs \<Longrightarrow> c \<in> set (ai_users st) \<and> 2 \<le> au_riskTier c"
  shows "ledger (decay_all fresh now cs st) = ledger st"
  using assms
proof (induction cs arbitrary: st)
  case (Cons c cs)
  let ?st = "decay_write (fresh (au_id c)) now c st"
  have c: "c \<in> set (ai_users st)" "2 \<le> au_riskTier c" using Cons.prems(3) [of c] by simp_all
  have one: "ledger ?st = ledger st"
    unfolding decay_write_def using c(2) by (intro ledger_write [OF Cons.prems(1) c(1)]) auto
  have "ledger (decay_all fresh now cs ?st) = ledger ?st"
  proof (rule Cons.IH)
    show "unique_key au_id (ai_users ?st)" using ledger_unique [OF one] Cons.prems(1) by simp
    show "distinct (map au_id cs)" using Cons.prems(2) by simp
    show "d \<in> set (ai_users ?st) \<and> 2 \<le> au_riskTier d" if "d \<in> set cs" for d
    proof -
      have "d \<in> set (ai_users st)" "2 \<le> au_riskTier d" using Cons.prems(3) [of d] that by simp_all
      moreover have "au_id d \<noteq> au_id c"
        using Cons.prems(2) imageI [OF that, of au_id] by auto
      ultimately show ?thesis unfolding decay_write_def by (auto simp: in_update_where intro!: bexI [of _ d])
    qed
  qed
  then show ?case using one by simp
qed simp

lemma ai_step_ledger:
  assumes "ai_step st st'" and "unique_key au_id (ai_users st)"
  shows "ledger st' = ledger st"
  using assms(1)
proof cases
  case (ai_raise i now u reason)
  then show ?thesis using raiseRiskTier_ledger [OF assms(2)] by simp
next
  case (ai_scan fresh now)
  then show ?thesis using apply_signals_ledger [OF assms(2)] by (simp add: detectAndBan_def)
next
  case (ai_review fresh now)
  let ?chosen = "filter (decays (noisy_users (map au_id (decay_candidates st)) (now - 7 * 86400000) st) (now - 7 * 86400000)) (decay_candidates st)"
  have st': "st' = decay_all fresh now ?chosen st" using ai_review by (simp add: decayRiskTiers_def Let_def)
  show ?thesis unfolding st'
  proof (rule decay_all_ledger [OF assms(2)])
    show "distinct (map au_id ?chosen)"
      using assms(2) by (simp add: decay_candidates_def select_where_def unique_key_def distinct_map_filter)
  qed (auto simp: decay_candidates_def)
next
  case (ai_circuit th now)
  then show ?thesis by (auto simp: circuit_check_def Let_def applyCircuit_def intro: ledger_update)
next
  case (ai_trip now)
  have "ledger st' = ledger (st\<lparr>ai_manualTrip := Some (endOfUtcDay now)\<rparr>)"
    unfolding ai_trip tripCircuitManually_def by (simp add: applyCircuit_def) (rule ledger_same, auto simp: update_where_def)
  then show ?thesis by (simp add: ledger_def raises_def decays_of_def)
next
  case ai_release
  then show ?thesis by (intro ledger_same) (auto simp: releaseCircuit_def update_where_def)
next
  case (ai_record env i now period c)
  then obtain t where "st' = st\<lparr>ai_usage := t, ai_keys := stamp_binding now c (ai_keys st)\<rparr>"
    by (auto simp: recordAiUsage_def)
  then show ?thesis by (simp add: ledger_def raises_def decays_of_def)
next
  case (ai_mark q)
  then show ?thesis by (simp add: markAiUsageFailed_def ledger_def raises_def decays_of_def)
next
  case (ai_reset u now)
  then show ?thesis by (simp add: resetByokQuotaUsage_def ledger_update)
qed



section \<open>Where scans and reviews fall short\<close>

text \<open>
  A scan looks at the last hour and runs every five minutes, and nothing marks what it has seen: the
  same five prompts raise the tier again at every scan.
\<close>

theorem same_evidence_raises_again:
  "(let st1 = snd (snd (detectAndBan audit_id 2000 spam_store));
        st2 = snd (snd (detectAndBan audit_id 302000 st1))
    in map (map au_riskTier) [ai_users spam_store, ai_users st1, ai_users st2] = [[0, 0], [1, 0], [2, 0]])"
  by (simp add: detectAndBan_def anomaly_signals_def repeated_prompts_def heavy_users_def failing_users_def jailbreak_users_def
      clustered_users_def apply_signal_def raiseRiskTier_def
      hour_rows_def groups_by_def dedup_def token_sum_def refused_calls_def spam_store_def sample_usage_def
      sample_ai_defs select_where_def upt_rec billable_def Let_def)

definition elevated_store :: ai_store where
  "elevated_store = sample_ai_store\<lparr>ai_users := [sample_ai_user\<lparr>au_riskTier := 2\<rparr>]\<rparr>"

text \<open>
  The review writes the tier it read: a raise between its read and its write is lost, although both
  are in the log.
\<close>

theorem stale_review_undoes_a_raise:
  "(let c = hd (decay_candidates elevated_store);
        st1 = snd (raiseRiskTier ''a1'' 2000 ''u1'' ''ai_anomaly_ban'' elevated_store);
        st2 = decay_write ''a2'' 2000 c st1
    in map au_riskTier (ai_users st1) = [3] \<and> map au_riskTier (ai_users st2) = [1]
     \<and> raises st2 ''u1'' = 1 \<and> decays_of st2 ''u1'' = 1)"
  by (simp add: elevated_store_def sample_ai_defs decay_candidates_def select_where_def raiseRiskTier_def decay_write_def Let_def
      raises_def decays_of_def)

end
