(* ===== verification/Idempotency.thy ===== *)
theory Idempotency
  imports Schema
begin

text \<open>
  Safe retries of mutations (\<open>src/src/lib/api/idempotency.ts\<close>). A request carries a key; the first one
  reserves it with a pending row, runs its handler and stores the response, later ones with the same
  key and body replay that response. Every step below is one visit of the database, so that requests
  can overlap between steps; the body's hash is an argument.
\<close>

section \<open>The table\<close>

record key_row =
  ik_id :: row_id
  ik_userId :: user_id
  ik_key :: string
  ik_routeKey :: string
  ik_requestHash :: string
  ik_responseStatus :: nat
  ik_responseBody :: json
  ik_createdAt :: date
  ik_expiresAt :: date

record keyed_request =
  rq_userId :: user_id
  rq_routeKey :: string
  rq_key :: string
  rq_bodyHash :: string
  rq_ttlMs :: int

definition DEFAULT_TTL_MS :: int where "DEFAULT_TTL_MS = 24 * 60 * 60 * 1000"

definition MAX_KEY_LENGTH :: nat where "MAX_KEY_LENGTH = 255"

definition control_char :: "char \<Rightarrow> bool" where
  "control_char c \<longleftrightarrow> (let n = of_char c :: nat in n \<le> 31 \<or> n = 127)"

text \<open>No result is an invalid key.\<close>

definition validateKey :: "string \<Rightarrow> string option" where
  "validateKey raw =
     (let key = js_trim raw in
      if key = [] \<or> MAX_KEY_LENGTH < js_length key \<or> list_ex control_char key then None else Some key)"

text \<open>What the header asks for: nothing, an error, or a key. Without a key the handler simply runs.\<close>

definition header_key :: "string option \<Rightarrow> unit + string option" where
  "header_key raw =
     (case or_null raw of None \<Rightarrow> Inr None
      | Some k \<Rightarrow> (case validateKey k of None \<Rightarrow> Inl () | Some key \<Rightarrow> Inr (Some key)))"

definition isExpired :: "date \<Rightarrow> date \<Rightarrow> bool" where
  "isExpired expiresAt now \<longleftrightarrow> expiresAt \<le> now"

definition key_of :: "key_row \<Rightarrow> user_id \<times> string \<times> string" where
  "key_of r = (ik_userId r, ik_routeKey r, ik_key r)"

definition request_key :: "keyed_request \<Rightarrow> user_id \<times> string \<times> string" where
  "request_key q = (rq_userId q, rq_routeKey q, rq_key q)"

definition findEntry :: "keyed_request \<Rightarrow> key_row table \<Rightarrow> key_row option" where
  "findEntry q t = find_first (\<lambda>r. key_of r = request_key q) t"

definition deleteEntry :: "row_id \<Rightarrow> key_row table \<Rightarrow> key_row table" where
  "deleteEntry i t = delete_where (\<lambda>r. ik_id r = i) t"

definition PENDING_RESPONSE_STATUS :: nat where "PENDING_RESPONSE_STATUS = 0"

definition PENDING_POLL_TIMEOUT_MS :: int where "PENDING_POLL_TIMEOUT_MS = 30000"

definition isPending :: "key_row \<Rightarrow> bool" where
  "isPending r \<longleftrightarrow> ik_responseStatus r = PENDING_RESPONSE_STATUS"

section \<open>A request, step by step\<close>

datatype outcome =
    Replied nat json (replayed: bool)
  | Key_conflict
  | Reservation_timed_out
  | Handler_failed

datatype phase =
    Begin
  | Drop_expired row_id
  | Reserve
  | Run_handler row_id
  | Store_response row_id nat json
  | Drop_reservation row_id
  | Wait_until date
  | Poll date
  | Finished outcome

text \<open>The answer from a stored response, unless it has expired.\<close>

definition replayOrConflict :: "key_row \<Rightarrow> string \<Rightarrow> date \<Rightarrow> outcome option" where
  "replayOrConflict entry requestHash now =
     (if isExpired (ik_expiresAt entry) now then None
      else if ik_requestHash entry \<noteq> requestHash then Some Key_conflict
      else Some (Replied (ik_responseStatus entry) (ik_responseBody entry) True))"

definition wait_from :: "date \<Rightarrow> phase" where
  "wait_from now = Wait_until (now + PENDING_POLL_TIMEOUT_MS)"

definition begin_request :: "keyed_request \<Rightarrow> date \<Rightarrow> key_row table \<Rightarrow> phase" where
  "begin_request q now t =
     (case findEntry q t of
        None \<Rightarrow> Reserve
      | Some e \<Rightarrow>
          if isPending e then wait_from now
          else if isExpired (ik_expiresAt e) now then Drop_expired (ik_id e)
          else (case replayOrConflict e (rq_bodyHash q) now of None \<Rightarrow> Reserve | Some x \<Rightarrow> Finished x))"

text \<open>The insertion does nothing when the unique index knows the key.\<close>

definition reserve :: "row_id \<Rightarrow> keyed_request \<Rightarrow> date \<Rightarrow> key_row table \<Rightarrow> phase \<times> key_row table" where
  "reserve newId q now t =
     (if findEntry q t = None
      then (Run_handler newId, insert_row \<lparr>ik_id = newId, ik_userId = rq_userId q, ik_key = rq_key q, ik_routeKey = rq_routeKey q,
              ik_requestHash = rq_bodyHash q, ik_responseStatus = PENDING_RESPONSE_STATUS,
              ik_responseBody = JObj [(''pending'', JBool True)], ik_createdAt = now, ik_expiresAt = now + rq_ttlMs q\<rparr> t)
      else (wait_from now, t))"

definition store_response :: "row_id \<Rightarrow> nat \<Rightarrow> json \<Rightarrow> key_row table \<Rightarrow> key_row table" where
  "store_response i st body t =
     update_where (\<lambda>r. ik_id r = i) (\<lambda>r. r\<lparr>ik_responseStatus := st, ik_responseBody := body\<rparr>) t"

text \<open>The loop's test, and after a pause the look at the row, which may come after the deadline.\<close>

definition poll_test :: "date \<Rightarrow> date \<Rightarrow> phase" where
  "poll_test deadline now = (if now < deadline then Poll deadline else Finished Reservation_timed_out)"

definition waitForPending :: "keyed_request \<Rightarrow> date \<Rightarrow> date \<Rightarrow> key_row table \<Rightarrow> phase" where
  "waitForPending q deadline now t =
     (case findEntry q t of
        None \<Rightarrow> Finished Reservation_timed_out
      | Some e \<Rightarrow>
          if isPending e then Wait_until deadline
          else (case replayOrConflict e (rq_bodyHash q) now of None \<Rightarrow> Finished Key_conflict | Some x \<Rightarrow> Finished x))"

text \<open>
  What a step meets from outside: the id it would give a reservation, what the handler does
  (\<open>None\<close>: it throws), and whether the last statement of the request fails.
\<close>

record surroundings =
  sr_newId :: row_id
  sr_handler :: "(nat \<times> json) option"
  sr_dbFails :: bool

definition withIdempotency :: "keyed_request \<Rightarrow> surroundings \<Rightarrow> date \<Rightarrow> phase \<Rightarrow> key_row table \<Rightarrow> phase \<times> key_row table" where
  "withIdempotency q env now ph t =
     (case ph of
        Begin \<Rightarrow> (begin_request q now t, t)
      | Drop_expired i \<Rightarrow> (Reserve, deleteEntry i t)
      | Reserve \<Rightarrow> reserve (sr_newId env) q now t
      | Run_handler i \<Rightarrow>
          (case sr_handler env of None \<Rightarrow> (Drop_reservation i, t) | Some (st, body) \<Rightarrow> (Store_response i st body, t))
      | Store_response i st body \<Rightarrow>
          (Finished (Replied st body False), if sr_dbFails env then t else store_response i st body t)
      | Drop_reservation i \<Rightarrow> (Finished Handler_failed, if sr_dbFails env then t else deleteEntry i t)
      | Wait_until deadline \<Rightarrow> (poll_test deadline now, t)
      | Poll deadline \<Rightarrow> (waitForPending q deadline now t, t)
      | Finished x \<Rightarrow> (Finished x, t))"

section \<open>Requests that overlap\<close>

text \<open>
  The requests are numbered; \<open>ws_runs\<close> records each reservation with the key, the id and the times
  it covers, \<open>ws_dropped\<close> the reservations whose handler threw, and \<open>ws_stored\<close> the responses that
  handlers gave, with the key and the body they were given for.
\<close>

record handler_run =
  hr_key :: "user_id \<times> string \<times> string"
  hr_id :: row_id
  hr_from :: date
  hr_until :: date

record key_world =
  ws_rows :: "key_row table"
  ws_phases :: "nat \<Rightarrow> phase"
  ws_clock :: date
  ws_runs :: "handler_run list"
  ws_dropped :: "row_id set"
  ws_stored :: "((user_id \<times> string \<times> string) \<times> string \<times> nat \<times> json) set"

definition new_runs :: "keyed_request \<Rightarrow> date \<Rightarrow> phase \<Rightarrow> phase \<Rightarrow> handler_run list" where
  "new_runs q now ph ph' =
     (case (ph, ph') of (Reserve, Run_handler i) \<Rightarrow> [\<lparr>hr_key = request_key q, hr_id = i, hr_from = now, hr_until = now + rq_ttlMs q\<rparr>]
      | _ \<Rightarrow> [])"

definition newly_dropped :: "phase \<Rightarrow> row_id set" where
  "newly_dropped ph = (case ph of Drop_reservation i \<Rightarrow> {i} | _ \<Rightarrow> {})"

definition newly_stored :: "keyed_request \<Rightarrow> phase \<Rightarrow> ((user_id \<times> string \<times> string) \<times> string \<times> nat \<times> json) set" where
  "newly_stored q ph = (case ph of Store_response i st body \<Rightarrow> {(request_key q, rq_bodyHash q, st, body)} | _ \<Rightarrow> {})"

definition advance :: "(nat \<Rightarrow> keyed_request) \<Rightarrow> nat \<Rightarrow> surroundings \<Rightarrow> date \<Rightarrow> key_world \<Rightarrow> key_world" where
  "advance reqs p env now w =
     (let ph = ws_phases w p in
      case withIdempotency (reqs p) env now ph (ws_rows w) of (ph', t) \<Rightarrow>
        w\<lparr>ws_rows := t, ws_phases := (ws_phases w)(p := ph'), ws_clock := now,
          ws_runs := ws_runs w @ new_runs (reqs p) now ph ph',
          ws_dropped := ws_dropped w \<union> newly_dropped ph,
          ws_stored := ws_stored w \<union> newly_stored (reqs p) ph\<rparr>)"

definition initial_world :: "date \<Rightarrow> key_world" where
  "initial_world now = \<lparr>ws_rows = [], ws_phases = (\<lambda>_. Begin), ws_clock = now, ws_runs = [], ws_dropped = {}, ws_stored = {}\<rparr>"

text \<open>
  Any request may move, time does not run backwards, a new id is new, and a handler's status is not
  the pending mark.
\<close>

inductive key_reach :: "(nat \<Rightarrow> keyed_request) \<Rightarrow> key_world \<Rightarrow> bool" for reqs where
  start: "key_reach reqs (initial_world now)"
| move: "key_reach reqs w \<Longrightarrow> ws_clock w \<le> now \<Longrightarrow> sr_newId env \<notin> hr_id ` set (ws_runs w)
    \<Longrightarrow> (\<And>st body. sr_handler env = Some (st, body) \<Longrightarrow> st \<noteq> PENDING_RESPONSE_STATUS)
    \<Longrightarrow> key_reach reqs (advance reqs p env now w)"

end
