(* ===== verification/IdempotencyFacts.thy ===== *)
theory IdempotencyFacts
  imports Idempotency
begin

text \<open>
  However requests overlap, a key's handler completes once while its response lives, and a replayed
  response is the one stored for the same body. The invariants below speak of the table, of the
  requests that hold a reservation, and of the history.
\<close>

section \<open>Invariants\<close>

fun holding :: "phase \<Rightarrow> row_id option" where
  "holding (Run_handler i) = Some i"
| "holding (Store_response i _ _) = Some i"
| "holding (Drop_reservation i) = Some i"
| "holding _ = None"

definition table_ok :: "key_world \<Rightarrow> bool" where
  "table_ok w \<longleftrightarrow> unique_key key_of (ws_rows w) \<and> unique_key ik_id (ws_rows w)
     \<and> ik_id ` set (ws_rows w) \<subseteq> hr_id ` set (ws_runs w)
     \<and> (\<forall>p i. ws_phases w p = Drop_expired i \<longrightarrow> i \<in> hr_id ` set (ws_runs w))
     \<and> (\<forall>p i. holding (ws_phases w p) = Some i \<longrightarrow> i \<in> hr_id ` set (ws_runs w))"

definition holders_ok :: "(nat \<Rightarrow> keyed_request) \<Rightarrow> key_world \<Rightarrow> bool" where
  "holders_ok reqs w \<longleftrightarrow> (\<forall>p i. holding (ws_phases w p) = Some i \<longrightarrow>
     (\<exists>r \<in> set (ws_rows w). ik_id r = i \<and> isPending r \<and> key_of r = request_key (reqs p) \<and> ik_requestHash r = rq_bodyHash (reqs p)))"

definition one_holder :: "key_world \<Rightarrow> bool" where
  "one_holder w \<longleftrightarrow> (\<forall>p q i. holding (ws_phases w p) = Some i \<longrightarrow> holding (ws_phases w q) = Some i \<longrightarrow> p = q)"

definition expired_ok :: "key_world \<Rightarrow> bool" where
  "expired_ok w \<longleftrightarrow> (\<forall>p i. ws_phases w p = Drop_expired i \<longrightarrow>
     (\<forall>r \<in> set (ws_rows w). ik_id r = i \<longrightarrow> \<not> isPending r \<and> ik_expiresAt r \<le> ws_clock w))"

definition run_ok :: "key_world \<Rightarrow> handler_run \<Rightarrow> bool" where
  "run_ok w h \<longleftrightarrow> hr_id h \<in> ws_dropped w \<or> hr_until h \<le> ws_clock w \<or>
     (\<exists>r \<in> set (ws_rows w). ik_id r = hr_id h \<and> key_of r = hr_key h \<and> ik_expiresAt r = hr_until h)"

definition apart :: "row_id set \<Rightarrow> handler_run \<Rightarrow> handler_run \<Rightarrow> bool" where
  "apart dropped a b \<longleftrightarrow> (hr_key a = hr_key b \<longrightarrow> hr_id a \<in> dropped \<or> hr_until a \<le> hr_from b)"

definition history_ok :: "key_world \<Rightarrow> bool" where
  "history_ok w \<longleftrightarrow> (\<forall>h \<in> set (ws_runs w). run_ok w h) \<and> sorted_wrt (apart (ws_dropped w)) (ws_runs w)"

definition replies_ok :: "(nat \<Rightarrow> keyed_request) \<Rightarrow> key_world \<Rightarrow> bool" where
  "replies_ok reqs w \<longleftrightarrow>
     (\<forall>r \<in> set (ws_rows w). \<not> isPending r \<longrightarrow> (key_of r, ik_requestHash r, ik_responseStatus r, ik_responseBody r) \<in> ws_stored w)
     \<and> (\<forall>p i st body. ws_phases w p = Store_response i st body \<longrightarrow> st \<noteq> PENDING_RESPONSE_STATUS)
     \<and> (\<forall>p st body. ws_phases w p = Finished (Replied st body True) \<longrightarrow> (request_key (reqs p), rq_bodyHash (reqs p), st, body) \<in> ws_stored w)"

definition world_ok :: "(nat \<Rightarrow> keyed_request) \<Rightarrow> key_world \<Rightarrow> bool" where
  "world_ok reqs w \<longleftrightarrow> table_ok w \<and> holders_ok reqs w \<and> one_holder w \<and> expired_ok w \<and> history_ok w \<and> replies_ok reqs w"

lemma world_ok_initial: "world_ok reqs (initial_world now)"
  by (simp add: world_ok_def table_ok_def holders_ok_def one_holder_def expired_ok_def history_ok_def replies_ok_def initial_world_def)

section \<open>Steps that keep the table\<close>

lemma findEntry_Some: "findEntry q t = Some e \<Longrightarrow> e \<in> set t \<and> key_of e = request_key q"
  unfolding findEntry_def by (drule find_first_Some) simp

lemma findEntry_None: "findEntry q t = None \<longleftrightarrow> (\<forall>r \<in> set t. key_of r \<noteq> request_key q)"
  by (simp add: findEntry_def find_first_None)

lemma replay_cases:
  assumes "replayOrConflict e h now = Some (Replied st body r)"
  shows "r \<and> ik_requestHash e = h \<and> st = ik_responseStatus e \<and> body = ik_responseBody e"
  using assms by (auto simp: replayOrConflict_def split: if_splits)

text \<open>The request \<open>p\<close> moves to a phase that holds what it held before, and the table stays.\<close>

lemma quiet_move:
  assumes "world_ok reqs w" and "ws_clock w \<le> ws_clock w'"
    and rows: "ws_rows w' = ws_rows w" and runs: "ws_runs w' = ws_runs w"
    and ph: "ws_phases w' = (ws_phases w)(p := ph')"
    and "holding ph' = holding (ws_phases w p) \<or> holding ph' = None"
    and "\<And>i. ph' = Drop_expired i \<Longrightarrow> i \<in> hr_id ` set (ws_runs w) \<and>
      (\<forall>r \<in> set (ws_rows w). ik_id r = i \<longrightarrow> \<not> isPending r \<and> ik_expiresAt r \<le> ws_clock w')"
    and "\<And>i st body. ph' = Store_response i st body \<Longrightarrow> st \<noteq> PENDING_RESPONSE_STATUS"
    and "\<And>st body. ph' = Finished (Replied st body True) \<Longrightarrow> (request_key (reqs p), rq_bodyHash (reqs p), st, body) \<in> ws_stored w'"
    and "ws_dropped w \<subseteq> ws_dropped w'" and "ws_stored w \<subseteq> ws_stored w'"
  shows "world_ok reqs w'"
proof -
  have ok: "table_ok w" "holders_ok reqs w" "one_holder w" "expired_ok w" "history_ok w" "replies_ok reqs w"
    using assms(1) by (simp_all add: world_ok_def)
  have held: "holding (ws_phases w q) = Some i" if "holding (ws_phases w' q) = Some i" for q i
    using assms(6) that by (auto simp: ph split: if_splits)
  have table: "table_ok w'"
    unfolding table_ok_def rows runs
  proof (intro conjI allI impI)
    fix q i assume "ws_phases w' q = Drop_expired i"
    then show "i \<in> hr_id ` set (ws_runs w)" using ok(1) assms(7) by (cases "q = p") (simp_all add: ph table_ok_def)
  next
    fix q i assume "holding (ws_phases w' q) = Some i"
    then show "i \<in> hr_id ` set (ws_runs w)" using held [of q i] ok(1) unfolding table_ok_def by blast
  qed (use ok(1) in \<open>simp_all add: table_ok_def\<close>)
  have holders: "holders_ok reqs w'"
    unfolding holders_ok_def rows
  proof (intro allI impI)
    fix q i assume "holding (ws_phases w' q) = Some i"
    then show "\<exists>r\<in>set (ws_rows w). ik_id r = i \<and> isPending r \<and> key_of r = request_key (reqs q) \<and> ik_requestHash r = rq_bodyHash (reqs q)"
      using held ok(2) unfolding holders_ok_def by blast
  qed
  have one: "one_holder w'"
    unfolding one_holder_def
  proof (intro allI impI)
    fix a b i assume "holding (ws_phases w' a) = Some i" and "holding (ws_phases w' b) = Some i"
    then show "a = b" using held ok(3) unfolding one_holder_def by blast
  qed
  have expired: "expired_ok w'"
    unfolding expired_ok_def rows
  proof (intro allI impI ballI)
    fix q i r assume q: "ws_phases w' q = Drop_expired i" and r: "r \<in> set (ws_rows w)" "ik_id r = i"
    show "\<not> isPending r \<and> ik_expiresAt r \<le> ws_clock w'"
    proof (cases "q = p")
      case True
      then show ?thesis using q assms(7) r by (simp add: ph)
    next
      case False
      then have "\<not> isPending r \<and> ik_expiresAt r \<le> ws_clock w" using q ok(4) r by (simp add: ph expired_ok_def)
      then show ?thesis using assms(2) by simp
    qed
  qed
  have run: "run_ok w' h" if "run_ok w h" for h
    using that assms(2,10) unfolding run_ok_def rows by auto
  have "sorted_wrt (apart (ws_dropped w')) (ws_runs w)"
    using ok(5) [unfolded history_ok_def, THEN conjunct2]
    by (rule_tac sorted_wrt_mono_rel [of _ "apart (ws_dropped w)"]) (use assms(10) in \<open>auto simp: apart_def\<close>)
  then have history: "history_ok w'" using ok(5) run by (simp add: history_ok_def runs)
  have "replies_ok reqs w'"
    using ok(6) assms(8,9) subsetD [OF assms(11)] unfolding replies_ok_def rows by (auto simp: ph)
  then show ?thesis using table holders one expired history by (simp add: world_ok_def)
qed

section \<open>Steps that change the table\<close>

lemma key_of_store [simp]: "key_of (r\<lparr>ik_responseStatus := st, ik_responseBody := body\<rparr>) = key_of r"
  by (simp add: key_of_def)

lemma in_deleteEntry: "r \<in> set (deleteEntry i t) \<longleftrightarrow> r \<in> set t \<and> ik_id r \<noteq> i"
  by (simp add: deleteEntry_def)

text \<open>A row that nobody holds and that no run relies on can go.\<close>

lemma delete_move:
  assumes "world_ok reqs w" and "\<And>p. holding (ws_phases w p) \<noteq> Some i"
    and "\<And>h. h \<in> set (ws_runs w) \<Longrightarrow> hr_id h = i \<Longrightarrow> i \<in> ws_dropped w \<or> hr_until h \<le> ws_clock w"
  shows "world_ok reqs (w\<lparr>ws_rows := deleteEntry i (ws_rows w)\<rparr>)"
proof -
  let ?w = "w\<lparr>ws_rows := deleteEntry i (ws_rows w)\<rparr>"
  have ok: "table_ok w" "holders_ok reqs w" "one_holder w" "expired_ok w" "history_ok w" "replies_ok reqs w"
    using assms(1) by (simp_all add: world_ok_def)
  have "unique_key key_of (deleteEntry i (ws_rows w))" "unique_key ik_id (deleteEntry i (ws_rows w))"
    unfolding deleteEntry_def using ok(1) by (auto simp: table_ok_def intro: unique_key_delete_where)
  moreover have "ik_id ` set (deleteEntry i (ws_rows w)) \<subseteq> ik_id ` set (ws_rows w)" by (auto simp: in_deleteEntry)
  ultimately have table: "table_ok ?w" using ok(1) unfolding table_ok_def by auto
  have holders: "holders_ok reqs ?w"
    unfolding holders_ok_def
  proof (intro allI impI)
    fix p j assume "holding (ws_phases ?w p) = Some j"
    then have "holding (ws_phases w p) = Some j" "j \<noteq> i" using assms(2) [of p] by auto
    then show "\<exists>r\<in>set (ws_rows ?w). ik_id r = j \<and> isPending r \<and> key_of r = request_key (reqs p) \<and> ik_requestHash r = rq_bodyHash (reqs p)"
      using ok(2) unfolding holders_ok_def by (fastforce simp: in_deleteEntry)
  qed
  have "run_ok ?w h" if "h \<in> set (ws_runs w)" for h
  proof (cases "hr_id h = i")
    case True
    then show ?thesis using assms(3) [OF that] by (auto simp: run_ok_def)
  next
    case False
    have "run_ok w h" using ok(5) that by (simp add: history_ok_def)
    then show ?thesis using False by (auto simp: run_ok_def in_deleteEntry)
  qed
  then have history: "history_ok ?w" using ok(5) by (simp add: history_ok_def)
  have "one_holder ?w" "expired_ok ?w" "replies_ok reqs ?w"
    using ok(3,4,6) by (auto simp: one_holder_def expired_ok_def replies_ok_def in_deleteEntry)
  then show ?thesis using table holders history by (simp add: world_ok_def)
qed

text \<open>A row that nobody holds any more gets its response.\<close>

lemma store_move:
  assumes "world_ok reqs w" and "\<And>p. holding (ws_phases w p) \<noteq> Some i" and "st \<noteq> PENDING_RESPONSE_STATUS"
    and "\<And>r. r \<in> set (ws_rows w) \<Longrightarrow> ik_id r = i \<Longrightarrow> (key_of r, ik_requestHash r, st, body) \<in> ws_stored w"
  shows "world_ok reqs (w\<lparr>ws_rows := store_response i st body (ws_rows w)\<rparr>)"
proof -
  let ?t = "store_response i st body (ws_rows w)" and ?f = "\<lambda>r. r\<lparr>ik_responseStatus := st, ik_responseBody := body\<rparr>"
  let ?w = "w\<lparr>ws_rows := ?t\<rparr>"
  have ok: "table_ok w" "holders_ok reqs w" "one_holder w" "expired_ok w" "history_ok w" "replies_ok reqs w"
    using assms(1) by (simp_all add: world_ok_def)
  have new: "\<exists>q \<in> set (ws_rows w). r = (if ik_id q = i then ?f q else q)" if "r \<in> set ?t" for r
    using that by (auto simp: store_response_def in_update_where)
  have old: "(if ik_id q = i then ?f q else q) \<in> set ?t" if "q \<in> set (ws_rows w)" for q
    using that by (auto simp: store_response_def in_update_where)
  have "unique_key key_of ?t" "unique_key ik_id ?t"
    unfolding store_response_def using ok(1) by (auto simp: table_ok_def intro: unique_key_update_where)
  moreover have "map ik_id ?t = map ik_id (ws_rows w)" by (simp add: store_response_def update_where_def)
  then have "ik_id ` set ?t = ik_id ` set (ws_rows w)" using list.set_map by metis
  ultimately have table: "table_ok ?w" using ok(1) by (simp add: table_ok_def)
  have holders: "holders_ok reqs ?w"
    unfolding holders_ok_def
  proof (intro allI impI)
    fix p j assume "holding (ws_phases ?w p) = Some j"
    then have j: "holding (ws_phases w p) = Some j" "j \<noteq> i" using assms(2) [of p] by auto
    then obtain r where "r \<in> set (ws_rows w)" "ik_id r = j" "isPending r" "key_of r = request_key (reqs p)"
      "ik_requestHash r = rq_bodyHash (reqs p)" using ok(2) unfolding holders_ok_def by blast
    then show "\<exists>r\<in>set (ws_rows ?w). ik_id r = j \<and> isPending r \<and> key_of r = request_key (reqs p) \<and> ik_requestHash r = rq_bodyHash (reqs p)"
      using old [of r] j(2) by (intro bexI [of _ r]) auto
  qed
  have "run_ok ?w h" if "h \<in> set (ws_runs w)" for h
  proof -
    have "run_ok w h" using ok(5) that by (simp add: history_ok_def)
    moreover have "\<exists>r \<in> set ?t. ik_id r = hr_id h \<and> key_of r = hr_key h \<and> ik_expiresAt r = hr_until h"
      if "q \<in> set (ws_rows w)" "ik_id q = hr_id h" "key_of q = hr_key h" "ik_expiresAt q = hr_until h" for q
      using old [OF that(1)] that(2-4) by (intro bexI) auto
    ultimately show ?thesis by (auto simp: run_ok_def)
  qed
  then have history: "history_ok ?w" using ok(5) by (simp add: history_ok_def)
  have expired: "expired_ok ?w"
    using ok(4) assms(3) unfolding expired_ok_def by (auto dest!: new simp: isPending_def split: if_splits)
  have "replies_ok reqs ?w"
    using ok(6) assms(4) unfolding replies_ok_def by (auto dest!: new simp: isPending_def split: if_splits)
  then show ?thesis using table holders history expired ok(3) by (simp add: world_ok_def one_holder_def)
qed

text \<open>A reservation of a new id for a key without a row.\<close>

lemma reserve_move:
  assumes "world_ok reqs w" and "ws_clock w \<le> now" and "ws_phases w p = Reserve"
    and "newId \<notin> hr_id ` set (ws_runs w)" and "findEntry (reqs p) (ws_rows w) = None"
  shows "world_ok reqs (w\<lparr>ws_rows := snd (reserve newId (reqs p) now (ws_rows w)), ws_phases := (ws_phases w)(p := Run_handler newId),
    ws_clock := now, ws_runs := ws_runs w @ [\<lparr>hr_key = request_key (reqs p), hr_id = newId, hr_from = now, hr_until = now + rq_ttlMs (reqs p)\<rparr>]\<rparr>)"
    (is "world_ok reqs ?w")
proof -
  let ?h = "\<lparr>hr_key = request_key (reqs p), hr_id = newId, hr_from = now, hr_until = now + rq_ttlMs (reqs p)\<rparr>"
  define e where "e = \<lparr>ik_id = newId, ik_userId = rq_userId (reqs p), ik_key = rq_key (reqs p), ik_routeKey = rq_routeKey (reqs p),
              ik_requestHash = rq_bodyHash (reqs p), ik_responseStatus = PENDING_RESPONSE_STATUS,
              ik_responseBody = JObj [(''pending'', JBool True)], ik_createdAt = now, ik_expiresAt = now + rq_ttlMs (reqs p)\<rparr>"
  have e: "ik_id e = newId" "key_of e = request_key (reqs p)" "ik_requestHash e = rq_bodyHash (reqs p)" "isPending e"
    "ik_expiresAt e = now + rq_ttlMs (reqs p)" by (simp_all add: e_def key_of_def request_key_def isPending_def)
  have rows: "ws_rows ?w = insert_row e (ws_rows w)" using assms(5) by (simp add: reserve_def e_def)
  have ok: "table_ok w" "holders_ok reqs w" "one_holder w" "expired_ok w" "history_ok w" "replies_ok reqs w"
    using assms(1) by (simp_all add: world_ok_def)
  have no_key: "\<And>r. r \<in> set (ws_rows w) \<Longrightarrow> key_of r \<noteq> request_key (reqs p)" using assms(5) by (simp add: findEntry_None)
  have no_id: "newId \<notin> ik_id ` set (ws_rows w)" using ok(1) assms(4) by (auto simp: table_ok_def)
  have no_holder: "holding (ws_phases w q) \<noteq> Some newId" for q using ok(1) assms(4) by (auto simp: table_ok_def)
  have "unique_key key_of (insert_row e (ws_rows w))" "unique_key ik_id (insert_row e (ws_rows w))"
    using ok(1) no_key no_id e(1,2) by (auto simp: table_ok_def intro!: unique_key_insert_row)
  moreover have ids: "i \<in> hr_id ` set (ws_runs w)" if "ws_phases w q = Drop_expired i \<or> holding (ws_phases w q) = Some i" for q i
    using ok(1) that unfolding table_ok_def by blast
  ultimately have table: "table_ok ?w"
    unfolding table_ok_def rows using ok(1) e(1) by (auto simp: table_ok_def split: if_splits dest: ids [OF disjI1] ids [OF disjI2])
  have holders: "holders_ok reqs ?w"
    unfolding holders_ok_def rows
  proof (intro allI impI)
    fix q i assume h: "holding (ws_phases ?w q) = Some i"
    show "\<exists>r\<in>set (insert_row e (ws_rows w)). ik_id r = i \<and> isPending r \<and> key_of r = request_key (reqs q) \<and> ik_requestHash r = rq_bodyHash (reqs q)"
    proof (cases "q = p")
      case True
      then show ?thesis using h e by simp
    next
      case False
      then have "holding (ws_phases w q) = Some i" using h by simp
      then show ?thesis using ok(2) unfolding holders_ok_def by fastforce
    qed
  qed
  have one: "one_holder ?w"
    using ok(3) no_holder unfolding one_holder_def by (auto split: if_splits)
  have "run_ok ?w h" if "h \<in> set (ws_runs w)" for h
  proof -
    have "run_ok w h" using ok(5) that by (simp add: history_ok_def)
    then show ?thesis using assms(2) unfolding run_ok_def rows by auto
  qed
  moreover have "run_ok ?w ?h" unfolding run_ok_def rows using e by auto
  moreover have "apart (ws_dropped w) h ?h" if "h \<in> set (ws_runs w)" for h
  proof -
    have "run_ok w h" using ok(5) that by (simp add: history_ok_def)
    then show ?thesis using assms(2) no_key by (auto simp: run_ok_def apart_def)
  qed
  ultimately have history: "history_ok ?w" using ok(5) by (auto simp: history_ok_def sorted_wrt_append)
  have "expired_ok ?w"
    using ok(4) assms(2) e(1) ids assms(4) unfolding expired_ok_def rows by (fastforce split: if_splits)
  moreover have "replies_ok reqs ?w"
    using ok(6) e(4) unfolding replies_ok_def rows by (auto split: if_splits)
  ultimately show ?thesis using table holders one history by (simp add: world_ok_def)
qed

section \<open>Every reachable world\<close>

text \<open>The world after \<open>p\<close> has moved to a phase, as long as no row changes.\<close>

definition moved :: "(nat \<Rightarrow> keyed_request) \<Rightarrow> nat \<Rightarrow> date \<Rightarrow> key_world \<Rightarrow> phase \<Rightarrow> key_world" where
  "moved reqs p now w ph' = w\<lparr>ws_phases := (ws_phases w)(p := ph'), ws_clock := now,
      ws_dropped := ws_dropped w \<union> newly_dropped (ws_phases w p), ws_stored := ws_stored w \<union> newly_stored (reqs p) (ws_phases w p)\<rparr>"

lemmas advance_simps = advance_def withIdempotency_def new_runs_def moved_def newly_dropped_def newly_stored_def

lemma moved_ok:
  assumes "world_ok reqs w" and "ws_clock w \<le> now"
    and "holding ph' = holding (ws_phases w p) \<or> holding ph' = None"
    and "\<And>i. ph' = Drop_expired i \<Longrightarrow> i \<in> hr_id ` set (ws_runs w) \<and>
      (\<forall>r \<in> set (ws_rows w). ik_id r = i \<longrightarrow> \<not> isPending r \<and> ik_expiresAt r \<le> now)"
    and "\<And>i st body. ph' = Store_response i st body \<Longrightarrow> st \<noteq> PENDING_RESPONSE_STATUS"
    and "\<And>st body. ph' = Finished (Replied st body True) \<Longrightarrow> (request_key (reqs p), rq_bodyHash (reqs p), st, body) \<in> ws_stored w"
  shows "world_ok reqs (moved reqs p now w ph')"
  by (rule quiet_move [where p = p and ph' = ph', OF assms(1)]) (use assms(2-6) in \<open>auto simp: moved_def\<close>)

lemma replay_is_stored:
  assumes "world_ok reqs w" and "findEntry (reqs p) (ws_rows w) = Some e" and "\<not> isPending e"
    and "replayOrConflict e (rq_bodyHash (reqs p)) now = Some (Replied st body True)"
  shows "(request_key (reqs p), rq_bodyHash (reqs p), st, body) \<in> ws_stored w"
  using assms(1,3) findEntry_Some [OF assms(2)] replay_cases [OF assms(4)] by (auto simp: world_ok_def replies_ok_def)

lemma begin_keeps_ok:
  assumes "world_ok reqs w" and "ws_clock w \<le> now"
  shows "world_ok reqs (moved reqs p now w (begin_request (reqs p) now (ws_rows w)))"
proof (rule moved_ok [OF assms])
  fix i assume "begin_request (reqs p) now (ws_rows w) = Drop_expired i"
  then obtain e where e: "findEntry (reqs p) (ws_rows w) = Some e" "\<not> isPending e" "isExpired (ik_expiresAt e) now" "i = ik_id e"
    by (auto simp: begin_request_def wait_from_def split: option.splits if_splits)
  have "e \<in> set (ws_rows w)" using findEntry_Some [OF e(1)] by simp
  then show "i \<in> hr_id ` set (ws_runs w) \<and> (\<forall>r \<in> set (ws_rows w). ik_id r = i \<longrightarrow> \<not> isPending r \<and> ik_expiresAt r \<le> now)"
    using assms(1) e unique_key_eq [of ik_id "ws_rows w" _ e] by (auto simp: world_ok_def table_ok_def isExpired_def)
next
  fix st body assume "begin_request (reqs p) now (ws_rows w) = Finished (Replied st body True)"
  then obtain e where "findEntry (reqs p) (ws_rows w) = Some e" "\<not> isPending e"
    "replayOrConflict e (rq_bodyHash (reqs p)) now = Some (Replied st body True)"
    by (auto simp: begin_request_def wait_from_def split: option.splits if_splits)
  then show "(request_key (reqs p), rq_bodyHash (reqs p), st, body) \<in> ws_stored w" by (rule replay_is_stored [OF assms(1)])
qed (auto simp: begin_request_def wait_from_def split: option.splits if_splits)

lemma wait_keeps_ok:
  assumes "world_ok reqs w" and "ws_clock w \<le> now"
  shows "world_ok reqs (moved reqs p now w (waitForPending (reqs p) d now (ws_rows w)))"
proof (rule moved_ok [OF assms])
  fix st body assume "waitForPending (reqs p) d now (ws_rows w) = Finished (Replied st body True)"
  then obtain e where "findEntry (reqs p) (ws_rows w) = Some e" "\<not> isPending e"
    "replayOrConflict e (rq_bodyHash (reqs p)) now = Some (Replied st body True)"
    by (auto simp: waitForPending_def split: option.splits if_splits)
  then show "(request_key (reqs p), rq_bodyHash (reqs p), st, body) \<in> ws_stored w" by (rule replay_is_stored [OF assms(1)])
qed (auto simp: waitForPending_def split: option.splits if_splits)

lemma drop_expired_keeps_ok:
  assumes "world_ok reqs w" and "ws_clock w \<le> now" and "ws_phases w p = Drop_expired i"
  shows "world_ok reqs ((moved reqs p now w Reserve)\<lparr>ws_rows := deleteEntry i (ws_rows (moved reqs p now w Reserve))\<rparr>)"
proof (rule delete_move)
  have ok: "holders_ok reqs w" "expired_ok w" "history_ok w" using assms(1) by (simp_all add: world_ok_def)
  show "world_ok reqs (moved reqs p now w Reserve)" by (rule moved_ok [OF assms(1,2)]) simp_all
  show "holding (ws_phases (moved reqs p now w Reserve) q) \<noteq> Some i" for q
  proof
    assume "holding (ws_phases (moved reqs p now w Reserve) q) = Some i"
    then have "holding (ws_phases w q) = Some i" by (simp add: moved_def split: if_splits)
    then show False using ok(1,2) assms(3) unfolding holders_ok_def expired_ok_def by blast
  qed
  fix h assume "h \<in> set (ws_runs (moved reqs p now w Reserve))" "hr_id h = i"
  then have "run_ok w h" using ok(3) by (simp add: history_ok_def moved_def)
  then show "i \<in> ws_dropped (moved reqs p now w Reserve) \<or> hr_until h \<le> ws_clock (moved reqs p now w Reserve)"
    using ok(2) assms(2,3) \<open>hr_id h = i\<close> unfolding run_ok_def expired_ok_def moved_def by fastforce
qed

lemma nobody_else_holds:
  assumes "world_ok reqs w" and "holding (ws_phases w p) = Some i" and "holding ph' = None"
  shows "holding (ws_phases (moved reqs p now w ph') q) \<noteq> Some i"
  using assms unfolding world_ok_def one_holder_def moved_def by auto

lemma store_keeps_ok:
  assumes "world_ok reqs w" and "ws_clock w \<le> now" and "ws_phases w p = Store_response i st body"
  defines "v \<equiv> moved reqs p now w (Finished (Replied st body False))"
  shows "world_ok reqs v \<and> world_ok reqs (v\<lparr>ws_rows := store_response i st body (ws_rows v)\<rparr>)"
proof
  have held: "holding (ws_phases w p) = Some i" using assms(3) by simp
  show v: "world_ok reqs v" unfolding v_def by (rule moved_ok [OF assms(1,2)]) simp_all
  show "world_ok reqs (v\<lparr>ws_rows := store_response i st body (ws_rows v)\<rparr>)"
  proof (rule store_move [OF v])
    show "holding (ws_phases v q) \<noteq> Some i" for q unfolding v_def by (rule nobody_else_holds [OF assms(1) held]) simp
    show "st \<noteq> PENDING_RESPONSE_STATUS" using assms(1,3) unfolding world_ok_def replies_ok_def by blast
    fix r assume r: "r \<in> set (ws_rows v)" "ik_id r = i"
    obtain e where e: "e \<in> set (ws_rows w)" "ik_id e = i" "ik_requestHash e = rq_bodyHash (reqs p)" "key_of e = request_key (reqs p)"
      using assms(1) held unfolding world_ok_def holders_ok_def by blast
    have "r = e"
    proof (rule unique_key_eq [of ik_id "ws_rows w"])
      show "unique_key ik_id (ws_rows w)" using assms(1) by (simp add: world_ok_def table_ok_def)
    qed (use r e in \<open>simp_all add: v_def moved_def\<close>)
    then show "(key_of r, ik_requestHash r, st, body) \<in> ws_stored v" using e(3,4) assms(3) by (simp add: v_def moved_def newly_stored_def)
  qed
qed

lemma drop_reservation_keeps_ok:
  assumes "world_ok reqs w" and "ws_clock w \<le> now" and "ws_phases w p = Drop_reservation i"
  defines "v \<equiv> moved reqs p now w (Finished Handler_failed)"
  shows "world_ok reqs v \<and> world_ok reqs (v\<lparr>ws_rows := deleteEntry i (ws_rows v)\<rparr>)"
proof
  have held: "holding (ws_phases w p) = Some i" using assms(3) by simp
  show v: "world_ok reqs v" unfolding v_def by (rule moved_ok [OF assms(1,2)]) simp_all
  show "world_ok reqs (v\<lparr>ws_rows := deleteEntry i (ws_rows v)\<rparr>)"
  proof (rule delete_move [OF v])
    show "holding (ws_phases v q) \<noteq> Some i" for q unfolding v_def by (rule nobody_else_holds [OF assms(1) held]) simp
  qed (simp add: v_def moved_def assms(3) newly_dropped_def)
qed

lemma advance_keeps_ok:
  assumes "world_ok reqs w" and "ws_clock w \<le> now" and "sr_newId env \<notin> hr_id ` set (ws_runs w)"
    and "\<And>st body. sr_handler env = Some (st, body) \<Longrightarrow> st \<noteq> PENDING_RESPONSE_STATUS"
  shows "world_ok reqs (advance reqs p env now w)"
proof (cases "ws_phases w p")
  case Begin
  then show ?thesis using begin_keeps_ok [OF assms(1,2), of p] by (simp add: advance_simps)
next
  case (Drop_expired i)
  then show ?thesis using drop_expired_keeps_ok [OF assms(1,2) Drop_expired] by (cases w) (simp add: advance_simps)
next
  case Reserve
  show ?thesis
  proof (cases "findEntry (reqs p) (ws_rows w)")
    case None
    then show ?thesis using reserve_move [OF assms(1,2) Reserve assms(3) None] Reserve by (simp add: advance_simps reserve_def)
  next
    case (Some e)
    have "world_ok reqs (moved reqs p now w (wait_from now))" by (rule moved_ok [OF assms(1,2)]) (simp_all add: wait_from_def)
    then show ?thesis using Some Reserve by (simp add: advance_simps reserve_def wait_from_def)
  qed
next
  case (Run_handler i)
  let ?ph = "case sr_handler env of None \<Rightarrow> Drop_reservation i | Some (st, body) \<Rightarrow> Store_response i st body"
  have "world_ok reqs (moved reqs p now w ?ph)"
    by (rule moved_ok [OF assms(1,2)]) (use assms(4) Run_handler in \<open>auto split: option.splits\<close>)
  then show ?thesis using Run_handler by (simp add: advance_simps split: option.splits prod.splits)
next
  case (Store_response i st body)
  then show ?thesis using store_keeps_ok [OF assms(1,2) Store_response] by (cases w) (simp add: advance_simps)
next
  case (Drop_reservation i)
  then show ?thesis using drop_reservation_keeps_ok [OF assms(1,2) Drop_reservation] by (cases w) (simp add: advance_simps)
next
  case (Wait_until d)
  have "world_ok reqs (moved reqs p now w (poll_test d now))" by (rule moved_ok [OF assms(1,2)]) (auto simp: poll_test_def split: if_splits)
  then show ?thesis using Wait_until by (simp add: advance_simps)
next
  case (Poll d)
  then show ?thesis using wait_keeps_ok [OF assms(1,2), of p d] by (simp add: advance_simps)
next
  case (Finished x)
  have "world_ok reqs (moved reqs p now w (Finished x))"
    by (rule moved_ok [OF assms(1,2)]) (use assms(1) Finished in \<open>auto simp: world_ok_def replies_ok_def\<close>)
  then show ?thesis using Finished by (simp add: advance_simps)
qed

lemma key_reach_ok: "key_reach reqs w \<Longrightarrow> world_ok reqs w"
  by (induction rule: key_reach.induct) (rule world_ok_initial, rule advance_keeps_ok)

section \<open>Properties\<close>

text \<open>
  C16: However requests with idempotency keys overlap, two requests with the same key never run
  their handler at the same time, and after a handler has completed, no other request with its key
  runs one before the reservation has expired.
\<close>

theorem handler_completes_once_per_key:
  assumes "key_reach reqs w"
  shows "(holding (ws_phases w p) \<noteq> None \<and> holding (ws_phases w q) \<noteq> None \<and> request_key (reqs p) = request_key (reqs q) \<longrightarrow> p = q)
    \<and> sorted_wrt (\<lambda>a b. hr_key a = hr_key b \<longrightarrow> hr_id a \<in> ws_dropped w \<or> hr_until a \<le> hr_from b) (ws_runs w)"
proof
  have ok: "table_ok w" "holders_ok reqs w" "one_holder w" "history_ok w"
    using key_reach_ok [OF assms] by (simp_all add: world_ok_def)
  show "holding (ws_phases w p) \<noteq> None \<and> holding (ws_phases w q) \<noteq> None \<and> request_key (reqs p) = request_key (reqs q) \<longrightarrow> p = q"
  proof (intro impI, elim conjE)
    assume "holding (ws_phases w p) \<noteq> None" "holding (ws_phases w q) \<noteq> None" and same: "request_key (reqs p) = request_key (reqs q)"
    then obtain i j where held: "holding (ws_phases w p) = Some i" "holding (ws_phases w q) = Some j" by blast
    obtain a where a: "a \<in> set (ws_rows w)" "ik_id a = i" "key_of a = request_key (reqs p)"
      using ok(2) held(1) unfolding holders_ok_def by blast
    obtain b where b: "b \<in> set (ws_rows w)" "ik_id b = j" "key_of b = request_key (reqs q)"
      using ok(2) held(2) unfolding holders_ok_def by blast
    have "a = b" using unique_key_eq [of key_of "ws_rows w" a b] ok(1) a b same by (simp add: table_ok_def)
    then show "p = q" using ok(3) held a(2) b(2) unfolding one_holder_def by blast
  qed
  show "sorted_wrt (\<lambda>a b. hr_key a = hr_key b \<longrightarrow> hr_id a \<in> ws_dropped w \<or> hr_until a \<le> hr_from b) (ws_runs w)"
    using ok(4) by (simp add: history_ok_def apart_def [abs_def])
qed

definition sample_request :: keyed_request where
  "sample_request = \<lparr>rq_userId = ''u1'', rq_routeKey = ''terms'', rq_key = ''k1'', rq_bodyHash = ''h'', rq_ttlMs = 1000\<rparr>"

definition sample_surroundings :: surroundings where
  "sample_surroundings = \<lparr>sr_newId = ''i1'', sr_handler = Some (201, JNull), sr_dbFails = False\<rparr>"

text \<open>The first request reserves its key while the second one is about to.\<close>

definition sample_world :: key_world where
  "sample_world = advance (\<lambda>_. sample_request) 0 sample_surroundings 5
     (advance (\<lambda>_. sample_request) 1 sample_surroundings 5 (advance (\<lambda>_. sample_request) 0 sample_surroundings 5 (initial_world 5)))"

lemma sample_surroundings_status: "sr_handler sample_surroundings = Some (st, body) \<Longrightarrow> st \<noteq> PENDING_RESPONSE_STATUS"
  by (simp add: sample_surroundings_def PENDING_RESPONSE_STATUS_def)

lemmas sample_advance = advance_def withIdempotency_def initial_world_def begin_request_def findEntry_def reserve_def new_runs_def

lemma sample_reach: "key_reach (\<lambda>_. sample_request) sample_world"
  unfolding sample_world_def
  by (intro key_reach.move key_reach.start sample_surroundings_status) (simp_all add: sample_advance)

theorem handler_completes_once_per_key_witness:
  "holding (ws_phases sample_world 0) = Some ''i1'' \<and> map hr_id (ws_runs sample_world) = [''i1'']
   \<and> holding (ws_phases sample_world 1) = None"
proof -
  have run: "holding (ws_phases sample_world 0) = Some ''i1'' \<and> map hr_id (ws_runs sample_world) = [''i1'']"
    by (simp add: sample_world_def sample_advance sample_surroundings_def)
  moreover have "holding (ws_phases sample_world 1) = None"
    using handler_completes_once_per_key [OF sample_reach, of 0 1] run by auto
  ultimately show ?thesis by blast
qed


text \<open>The first request goes on and stores its response, and a third one replays it.\<close>

definition replayed_world :: key_world where
  "replayed_world = advance (\<lambda>_. sample_request) 2 (sample_surroundings\<lparr>sr_newId := ''i2''\<rparr>) 6
     (advance (\<lambda>_. sample_request) 0 (sample_surroundings\<lparr>sr_newId := ''i2''\<rparr>) 6
       (advance (\<lambda>_. sample_request) 0 (sample_surroundings\<lparr>sr_newId := ''i2''\<rparr>) 5 sample_world))"

lemma other_id_reach:
  assumes "key_reach (\<lambda>_. sample_request) w" and "ws_clock w \<le> now" and "''i2'' \<notin> hr_id ` set (ws_runs w)"
  shows "key_reach (\<lambda>_. sample_request) (advance (\<lambda>_. sample_request) p (sample_surroundings\<lparr>sr_newId := ''i2''\<rparr>) now w)"
  by (rule key_reach.move [OF assms(1,2)]) (use assms(3) sample_surroundings_status in simp_all)

lemmas sample_replay = Let_def sample_world_def sample_advance sample_surroundings_def sample_request_def store_response_def
  replayOrConflict_def isPending_def isExpired_def PENDING_RESPONSE_STATUS_def key_of_def request_key_def insert_row_def


text \<open>
  The reservation of a request that never finished blocks its key for good: it counts as pending
  whenever a retry looks, also long after its expiry.
\<close>

theorem crashed_reservation_never_expires:
  "begin_request sample_request now (ws_rows sample_world) = Wait_until (now + 30000)
   \<and> waitForPending sample_request deadline now (ws_rows sample_world) = Wait_until deadline
   \<and> poll_test deadline deadline = Finished Reservation_timed_out"
  by (simp add: sample_replay wait_from_def waitForPending_def poll_test_def PENDING_POLL_TIMEOUT_MS_def)

end
