(* ===== verification/TermEditing.thy ===== *)
theory TermEditing
  imports Snapshots Usage TeamRoles
begin

text \<open>
  Editing a domain vocabulary (\<open>src/src/lib/domain-vocabulary.ts\<close>, \<open>domain-vocabulary-validation.ts\<close>,
  \<open>domain-vocabulary-team.ts\<close>). Terms are global rows that are never changed; a user or a team owns
  links to them. An edit checks its input first and then writes in one transaction, under a lock of
  the owner; the two parts are separate functions, so that requests can overlap between them. The
  metadata of audit rows and the metrics are left out.
\<close>

section \<open>Surroundings\<close>

text \<open>
  The engine's verdict on a vocabulary is whether it is valid, its errors and its warnings; the plan
  lookup is \<open>getLexiconQuota\<close>.
\<close>

record vocab_env =
  ve_canonicalLocale :: "string \<Rightarrow> string option"
  ve_nfc :: "string \<Rightarrow> string"
  ve_validate :: "vocabulary \<Rightarrow> bool \<times> string list \<times> string list"
  ve_sha :: "string \<Rightarrow> string"
  ve_quota :: "user_id \<Rightarrow> lexicon_quota"

section \<open>Normalized input\<close>

text \<open>The description is absent, null or a text.\<close>

record term_input =
  ti_domain :: string
  ti_locale :: string
  ti_kind :: identifier_kind
  ti_canonical :: string
  ti_localized :: string
  ti_parentCanonical :: "string option"
  ti_description :: "string option option"
  ti_aliases :: "string list option"

record normalized_term =
  nt_domain :: string
  nt_locale :: string
  nt_kind :: identifier_kind
  nt_canonical :: string
  nt_canonicalNorm :: string
  nt_localized :: string
  nt_localizedNorm :: string
  nt_parentCanonical :: "string option"
  nt_parentCanonicalNorm :: string
  nt_description :: "string option"
  nt_aliases :: "string list"

definition nfcTrim :: "(string \<Rightarrow> string) \<Rightarrow> string \<Rightarrow> string" where
  "nfcTrim nfc s = nfc (js_trim s)"

definition normalizeText :: "string option \<Rightarrow> string" where
  "normalizeText s = js_lower (js_trim (nullish s []))"

definition normalizeTermInput :: "(string \<Rightarrow> string) \<Rightarrow> term_input \<Rightarrow> normalized_term" where
  "normalizeTermInput nfc input =
     \<lparr>nt_domain = js_trim (ti_domain input), nt_locale = js_trim (ti_locale input), nt_kind = ti_kind input,
      nt_canonical = js_trim (ti_canonical input), nt_canonicalNorm = normalizeText (Some (ti_canonical input)),
      nt_localized = nfcTrim nfc (ti_localized input), nt_localizedNorm = nfcTrim nfc (ti_localized input),
      nt_parentCanonical = or_null (map_option js_trim (ti_parentCanonical input)),
      nt_parentCanonicalNorm = normalizeText (ti_parentCanonical input),
      nt_description = (case ti_description input of None \<Rightarrow> None | Some d \<Rightarrow> or_null (map_option js_trim d)),
      nt_aliases = filter (\<lambda>a. a \<noteq> []) (map js_trim (nullish (ti_aliases input) []))\<rparr>"

section \<open>The key that tells terms apart\<close>

definition kind_text :: "identifier_kind \<Rightarrow> string" where
  "kind_text k = (case k of KStruct \<Rightarrow> ''struct'' | KField \<Rightarrow> ''field'' | KFunction \<Rightarrow> ''function'' | KEnumValue \<Rightarrow> ''enum_value'')"

text \<open>The keys of the one object this is used on are in the same order by locale and by bytes.\<close>

fun canonicalJson :: "json \<Rightarrow> string" where
  "canonicalJson JNull = ''null''"
| "canonicalJson (JBool b) = (if b then ''true'' else ''false'')"
| "canonicalJson (JNum n) = dec_int n"
| "canonicalJson (JStr s) = json_string s"
| "canonicalJson (JArr js) = CHR ''['' # join_commas (map canonicalJson js) @ [CHR '']'']"
| "canonicalJson (JObj fs) =
     CHR ''{'' # join_commas (map (\<lambda>(k, s). json_string k @ CHR '':'' # s)
       (sort_key fst (map (\<lambda>(k, j). (k, canonicalJson j)) fs))) @ [CHR ''}'']"

definition dedup_aliases :: "(string \<Rightarrow> string) \<Rightarrow> string list \<Rightarrow> string list" where
  "dedup_aliases nfc as = sort (dedup (filter (\<lambda>a. a \<noteq> []) (map (nfcTrim nfc) as)))"

definition dedup_description :: "string option \<Rightarrow> string" where
  "dedup_description d = nullish (map_option js_trim d) []"

definition dedup_object :: "(string \<Rightarrow> string) \<Rightarrow> normalized_term \<Rightarrow> json" where
  "dedup_object nfc t =
     (let aliases = dedup_aliases nfc (nt_aliases t); description = dedup_description (nt_description t)
      in JObj ([(''domain'', JStr (nt_domain t)), (''locale'', JStr (nt_locale t)), (''kind'', JStr (kind_text (nt_kind t))),
           (''canonicalNorm'', JStr (nt_canonicalNorm t)), (''localizedNorm'', JStr (nt_localizedNorm t)),
           (''parentCanonicalNorm'', JStr (nt_parentCanonicalNorm t))]
         @ (if aliases \<noteq> [] then [(''aliases'', JArr (map JStr aliases))] else [])
         @ (if description \<noteq> [] then [(''description'', JStr description)] else [])))"

definition computeDedupKey :: "(string \<Rightarrow> string) \<Rightarrow> (string \<Rightarrow> string) \<Rightarrow> normalized_term \<Rightarrow> string" where
  "computeDedupKey nfc sha t = sha (canonicalJson (dedup_object nfc t))"

text \<open>The row of a new global term.\<close>

definition domainTermValues :: "row_id \<Rightarrow> normalized_term \<Rightarrow> string \<Rightarrow> domain_term_row" where
  "domainTermValues newId t dedupKey =
     \<lparr>dt_id = newId, dt_domain = nt_domain t, dt_locale = nt_locale t, dt_kind = nt_kind t, dt_canonical = nt_canonical t,
      dt_localized = nt_localized t, dt_parentCanonical = nt_parentCanonical t, dt_aliases = nt_aliases t,
      dt_description = nt_description t, dt_dedupKey = dedupKey\<rparr>"

section \<open>Conflicts of written forms\<close>

text \<open>Each kind has a role of its own, so the kind stands for the role.\<close>

record scope_conflict =
  sc_role :: identifier_kind
  sc_parent :: string
  sc_written :: string
  sc_canonicals :: "string list"

definition ROLE_GROUPS :: "vocabulary \<Rightarrow> (identifier_kind \<times> mapping_row list \<times> bool) list" where
  "ROLE_GROUPS v = [(KStruct, voc_structs v, False), (KField, voc_fields v, True),
     (KEnumValue, voc_enumValues v, True), (KFunction, voc_functions v, False)]"

text \<open>Every written form with what it is known by: the role, the parent and the form itself.\<close>

type_synonym written_place = "identifier_kind \<times> string \<times> string"

definition written_entries :: "(string \<Rightarrow> string) \<Rightarrow> vocabulary \<Rightarrow> (written_place \<times> string) list" where
  "written_entries nfc v =
     concat (map (\<lambda>(role, ms, scoped).
       concat (map (\<lambda>m. map (\<lambda>raw. ((role, if scoped then nullish (map_parent m) [] else [], nfc raw), map_canonical m))
         (map_localized m # map_aliases m)) ms)) (ROLE_GROUPS v))"

definition findVocabularyScopeConflicts :: "(string \<Rightarrow> string) \<Rightarrow> vocabulary \<Rightarrow> scope_conflict list" where
  "findVocabularyScopeConflicts nfc v =
     filter (\<lambda>c. 1 < length (sc_canonicals c))
       (map (\<lambda>((role, parent, written), es).
          \<lparr>sc_role = role, sc_parent = parent, sc_written = written, sc_canonicals = sort (dedup (map snd es))\<rparr>)
          (group_rows fst (written_entries nfc v)))"

definition written_forms :: "(string \<Rightarrow> string) \<Rightarrow> joined_row \<Rightarrow> string list" where
  "written_forms nfc r = map nfc (jr_localized r # jr_aliases r)"

definition scope_parent :: "joined_row \<Rightarrow> string" where
  "scope_parent r = (if requiresParent (jr_kind r) then nullish (jr_parentCanonical r) [] else [])"

definition findTermScopeConflicts :: "(string \<Rightarrow> string) \<Rightarrow> joined_row list \<Rightarrow> joined_row \<Rightarrow> scope_conflict list" where
  "findTermScopeConflicts nfc existing candidate =
     filter (\<lambda>c. sc_role c = jr_kind candidate \<and> sc_parent c = scope_parent candidate \<and>
         sc_written c \<in> set (written_forms nfc candidate))
       (findVocabularyScopeConflicts nfc
         (assembleDomainVocabularyFromLinks (existing @ [candidate]) (Some (jr_domain candidate)) (Some (jr_locale candidate))))"

section \<open>Validation\<close>

datatype vocab_problem =
    Canonical_required
  | Localized_required
  | Scope_required
  | Bad_format "format_issue list" "bounds_issue list"
  | Parent_required identifier_kind
  | Engine_errors "string list"
  | Scope_conflicts "scope_conflict list"

text \<open>The last one is a unique index that the code does not expect to fail.\<close>

datatype vocab_error =
    Validation_failed vocab_problem
  | Plan_gate_required
  | Quota_exceeded int
  | Duplicate_link
  | Link_create_failed
  | Not_found
  | Restore_failed
  | Team_forbidden
  | Team_role_insufficient
  | Unique_violation

definition term_candidate :: "row_id \<Rightarrow> normalized_term \<Rightarrow> joined_row" where
  "term_candidate i t =
     \<lparr>jr_termId = i, jr_domain = nt_domain t, jr_locale = nt_locale t, jr_kind = nt_kind t, jr_canonical = nt_canonical t,
      jr_localized = nt_localized t, jr_parentCanonical = nt_parentCanonical t, jr_aliases = nt_aliases t,
      jr_description = nt_description t\<rparr>"

definition applyVocabularyScopeFormat ::
  "(string \<Rightarrow> string option) \<Rightarrow> normalized_term \<Rightarrow> (format_issue list \<times> bounds_issue list) + normalized_term" where
  "applyVocabularyScopeFormat canonicalLocale t =
     (case checkVocabularyScope canonicalLocale (nt_domain t) (nt_locale t) of (domain, locale, issues) \<Rightarrow>
        let bounds = checkTermBounds (domainTermValues [] t []) in
        if issues \<noteq> [] \<or> bounds \<noteq> [] then Inl (issues, bounds) else Inr (t\<lparr>nt_domain := domain, nt_locale := locale\<rparr>))"

definition validateNormalized :: "vocab_env \<Rightarrow> normalized_term \<Rightarrow> vocab_error + normalized_term" where
  "validateNormalized env t =
     (if requiresParent (nt_kind t) \<and> nt_parentCanonical t = None then Inl (Validation_failed (Parent_required (nt_kind t)))
      else case ve_validate env (assembleDomainVocabularyFromLinks [term_candidate ''preview'' t] (Some (nt_domain t)) (Some (nt_locale t)))
        of (valid, errors, _) \<Rightarrow> if \<not> valid then Inl (Validation_failed (Engine_errors errors)) else Inr t)"

definition validateInput :: "vocab_env \<Rightarrow> term_input \<Rightarrow> vocab_error + normalized_term" where
  "validateInput env input =
     (let t = normalizeTermInput (ve_nfc env) input in
      if nt_canonical t = [] then Inl (Validation_failed Canonical_required)
      else if nt_localized t = [] then Inl (Validation_failed Localized_required)
      else if nt_domain t = [] \<or> nt_locale t = [] then Inl (Validation_failed Scope_required)
      else case applyVocabularyScopeFormat (ve_canonicalLocale env) t of
        Inl (issues, bounds) \<Rightarrow> Inl (Validation_failed (Bad_format issues bounds))
      | Inr t1 \<Rightarrow> validateNormalized env t1)"

section \<open>Reading\<close>

definition userOwner :: "user_id \<Rightarrow> owner_scope" where
  "userOwner userId = \<lparr>os_type = UserOwned, os_id = userId\<rparr>"

definition teamOwner :: "team_id \<Rightarrow> owner_scope" where
  "teamOwner teamId = \<lparr>os_type = TeamOwned, os_id = teamId\<rparr>"

definition quotaHolderOf :: "store \<Rightarrow> owner_scope \<Rightarrow> user_id option" where
  "quotaHolderOf st owner =
     (case os_type owner of
        UserOwned \<Rightarrow> Some (os_id owner)
      | TeamOwned \<Rightarrow> map_option t_ownerId (find_first (\<lambda>t. t_id t = os_id owner) (teams_t st)))"

definition getTermLink :: "store \<Rightarrow> owner_scope \<Rightarrow> row_id \<Rightarrow> bool \<Rightarrow> (term_link_row \<times> joined_row) option" where
  "getTermLink st owner linkId includeDeleted =
     (case find_first (\<lambda>l. ownerPredicate owner l \<and> ud_id l = linkId \<and> (includeDeleted \<or> active_link l)
         \<and> join_term st l \<noteq> None) (links_t st) of
        None \<Rightarrow> None
      | Some l \<Rightarrow> map_option (Pair l) (join_term st l))"

definition loadGroupTermRows :: "store \<Rightarrow> owner_scope \<Rightarrow> string \<Rightarrow> string \<Rightarrow> (row_id \<times> joined_row) list" where
  "loadGroupTermRows st owner domain locale =
     List.map_filter (\<lambda>l. map_option (Pair (ud_id l)) (join_term st l))
       (select_where (\<lambda>l. ownerPredicate owner l \<and> ud_domain l = domain \<and> ud_locale l = locale \<and> active_link l) (links_t st))"

definition assertNoScopeConflict :: "(string \<Rightarrow> string) \<Rightarrow> store \<Rightarrow> owner_scope \<Rightarrow> joined_row \<Rightarrow> row_id option \<Rightarrow> scope_conflict list" where
  "assertNoScopeConflict nfc st owner term excludeLinkId =
     findTermScopeConflicts nfc
       (map snd (filter (\<lambda>(i, _). Some i \<noteq> excludeLinkId) (loadGroupTermRows st owner (jr_domain term) (jr_locale term))))
       (term\<lparr>jr_termId := ''candidate''\<rparr>)"

definition countActiveUserVocabularyTerms :: "store \<Rightarrow> owner_scope \<Rightarrow> nat" where
  "countActiveUserVocabularyTerms st owner = count_where (\<lambda>l. ownerPredicate owner l \<and> active_link l) (links_t st)"

text \<open>No result stands for infinity.\<close>

definition lockUserQuotaAndCountRemaining :: "store \<Rightarrow> int \<Rightarrow> owner_scope \<Rightarrow> int option" where
  "lockUserQuotaAndCountRemaining st maxTerms owner =
     (if maxTerms = - 1 then None else Some (max 0 (maxTerms - int (countActiveUserVocabularyTerms st owner))))"

section \<open>Writing\<close>

definition upsertDomainTerm :: "vocab_env \<Rightarrow> normalized_term \<Rightarrow> row_id \<Rightarrow> store \<Rightarrow> (row_id \<times> bool) \<times> store" where
  "upsertDomainTerm env t newId st =
     (let dedupKey = computeDedupKey (ve_nfc env) (ve_sha env) t in
      case find_first (\<lambda>r. dt_dedupKey r = dedupKey) (terms_t st) of
        None \<Rightarrow> ((newId, True), st\<lparr>terms_t := insert_row (domainTermValues newId t dedupKey) (terms_t st)\<rparr>)
      | Some r \<Rightarrow> ((dt_id r, False), st))"

text \<open>The two partial unique indexes on active links; the row itself is not counted.\<close>

definition active_link_taken :: "store \<Rightarrow> term_link_row \<Rightarrow> bool" where
  "active_link_taken st l \<longleftrightarrow>
     list_ex (\<lambda>m. ud_id m \<noteq> ud_id l \<and> active_link m \<and> ud_termId m = ud_termId l \<and> ud_ownerType m = ud_ownerType l
       \<and> (if ud_ownerType l = UserOwned then ud_userId m = ud_userId l else ud_teamId m = ud_teamId l)) (links_t st)"

definition new_link :: "row_id \<Rightarrow> user_id \<Rightarrow> owner_scope \<Rightarrow> normalized_term \<Rightarrow> row_id \<Rightarrow> term_link_row" where
  "new_link newId userId owner t termId =
     \<lparr>ud_id = newId, ud_userId = userId, ud_termId = termId, ud_ownerType = os_type owner,
      ud_teamId = (case os_type owner of TeamOwned \<Rightarrow> Some (os_id owner) | UserOwned \<Rightarrow> None),
      ud_domain = nt_domain t, ud_locale = nt_locale t, ud_kind = nt_kind t, ud_deletedAt = None, ud_deletedBy = None,
      ud_deletedReason = None, ud_archivedAt = None, ud_archiveSnapshotId = None\<rparr>"

text \<open>Adding: the checks before the transaction, the transaction, and the whole request.\<close>

definition add_check :: "vocab_env \<Rightarrow> store \<Rightarrow> term_input \<Rightarrow> owner_scope \<Rightarrow> vocab_error + (normalized_term \<times> int)" where
  "add_check env st input owner =
     (case validateInput env input of
        Inl e \<Rightarrow> Inl e
      | Inr t \<Rightarrow>
          (case or_null (quotaHolderOf st owner) of
             None \<Rightarrow> Inl Plan_gate_required
           | Some holder \<Rightarrow>
               let quota = ve_quota env holder in
               if \<not> lq_allowed quota then Inl Plan_gate_required else Inr (t, lq_maxTerms quota)))"

definition add_tx ::
  "vocab_env \<Rightarrow> user_id \<Rightarrow> owner_scope \<Rightarrow> normalized_term \<Rightarrow> int \<Rightarrow> row_id \<Rightarrow> row_id \<Rightarrow> store
     \<Rightarrow> (vocab_error + (row_id \<times> bool)) \<times> store" where
  "add_tx env userId owner t maxTerms newTermId newLinkId st =
     (if (case lockUserQuotaAndCountRemaining st maxTerms owner of None \<Rightarrow> False | Some remaining \<Rightarrow> remaining \<le> 0)
      then (Inl (Quota_exceeded maxTerms), st)
      else
        let conflicts = assertNoScopeConflict (ve_nfc env) st owner (term_candidate [] t) None in
        if conflicts \<noteq> [] then (Inl (Validation_failed (Scope_conflicts conflicts)), st)
        else
          case upsertDomainTerm env t newTermId st of ((termId, created), st1) \<Rightarrow>
            let l = new_link newLinkId userId owner t termId in
            if active_link_taken st1 l then (Inl Duplicate_link, st)
            else (Inr (newLinkId, created), st1\<lparr>links_t := insert_row l (links_t st1)\<rparr>))"

definition addUserVocabularyTerm ::
  "vocab_env \<Rightarrow> user_id \<Rightarrow> term_input \<Rightarrow> owner_scope \<Rightarrow> row_id \<Rightarrow> row_id \<Rightarrow> store
     \<Rightarrow> (vocab_error + ((term_link_row \<times> joined_row) \<times> bool)) \<times> store" where
  "addUserVocabularyTerm env userId input owner newTermId newLinkId st =
     (case add_check env st input owner of
        Inl e \<Rightarrow> (Inl e, st)
      | Inr (t, maxTerms) \<Rightarrow>
          (case add_tx env userId owner t maxTerms newTermId newLinkId st of
             (Inl e, st1) \<Rightarrow> (Inl e, st1)
           | (Inr (linkId, created), st1) \<Rightarrow>
               (case getTermLink st1 owner linkId False of
                  None \<Rightarrow> (Inl Link_create_failed, st1)
                | Some link \<Rightarrow>
                    (Inr (link, created), emit (AuditVocabulary userId ''lexicon.term.add'' (ud_termId (fst link))) st1))))"

text \<open>Modifying: absent aliases and an absent description stay as they are.\<close>

definition modify_check ::
  "vocab_env \<Rightarrow> store \<Rightarrow> owner_scope \<Rightarrow> row_id \<Rightarrow> term_input \<Rightarrow> vocab_error + (row_id \<times> normalized_term)" where
  "modify_check env st owner linkId input =
     (case getTermLink st owner linkId False of
        None \<Rightarrow> Inl Not_found
      | Some (l, j) \<Rightarrow>
          map_sum id (Pair (ud_termId l))
            (validateInput env (input\<lparr>
               ti_aliases := (case ti_aliases input of None \<Rightarrow> Some (jr_aliases j) | Some as \<Rightarrow> Some as),
               ti_description := (case ti_description input of None \<Rightarrow> Some (jr_description j) | Some d \<Rightarrow> Some d)\<rparr>)))"

definition repoint :: "normalized_term \<Rightarrow> row_id \<Rightarrow> term_link_row \<Rightarrow> term_link_row" where
  "repoint t termId l = l\<lparr>ud_termId := termId, ud_domain := nt_domain t, ud_locale := nt_locale t, ud_kind := nt_kind t\<rparr>"

definition modify_tx ::
  "vocab_env \<Rightarrow> owner_scope \<Rightarrow> row_id \<Rightarrow> normalized_term \<Rightarrow> row_id \<Rightarrow> store \<Rightarrow> (vocab_error + (row_id \<times> bool)) \<times> store" where
  "modify_tx env owner linkId t newTermId st =
     (let conflicts = assertNoScopeConflict (ve_nfc env) st owner (term_candidate [] t) (Some linkId) in
      if conflicts \<noteq> [] then (Inl (Validation_failed (Scope_conflicts conflicts)), st)
      else
        case upsertDomainTerm env t newTermId st of ((termId, created), st1) \<Rightarrow>
          let target = (\<lambda>l. ownerPredicate owner l \<and> ud_id l = linkId \<and> active_link l) in
          if list_ex (\<lambda>l. target l \<and> active_link_taken st1 (repoint t termId l)) (links_t st1) then (Inl Unique_violation, st)
          else (Inr (termId, created), st1\<lparr>links_t := update_where target (repoint t termId) (links_t st1)\<rparr>))"

definition modifyUserVocabularyTerm ::
  "vocab_env \<Rightarrow> user_id \<Rightarrow> row_id \<Rightarrow> term_input \<Rightarrow> owner_scope \<Rightarrow> row_id \<Rightarrow> store
     \<Rightarrow> (vocab_error + ((term_link_row \<times> joined_row) \<times> bool \<times> bool)) \<times> store" where
  "modifyUserVocabularyTerm env userId linkId input owner newTermId st =
     (case modify_check env st owner linkId input of
        Inl e \<Rightarrow> (Inl e, st)
      | Inr (oldTermId, t) \<Rightarrow>
          (case modify_tx env owner linkId t newTermId st of
             (Inl e, st1) \<Rightarrow> (Inl e, st1)
           | (Inr (termId, created), st1) \<Rightarrow>
               (case getTermLink st1 owner linkId False of
                  None \<Rightarrow> (Inl Not_found, st1)
                | Some link \<Rightarrow>
                    (Inr (link, oldTermId \<noteq> termId, created),
                     emit (AuditVocabulary userId ''lexicon.term.modify'' (ud_termId (fst link))) st1))))"

text \<open>
  The first code units of a text; of a character that is cut in half nothing is kept. A text longer
  than the bound is cut and gets an ellipsis (three bytes).
\<close>

fun js_take :: "nat \<Rightarrow> string \<Rightarrow> string" where
  "js_take n [] = []"
| "js_take n (c # s) = (if utf16_units c \<le> n then c # js_take (n - utf16_units c) s else [])"

definition truncateForAudit :: "string option \<Rightarrow> string option" where
  "truncateForAudit s =
     (case or_null s of
        None \<Rightarrow> None
      | Some t \<Rightarrow> Some (if 256 < js_length t then js_take 256 t @ [CHR 0xE2, CHR 0x80, CHR 0xA6] else t))"

definition delete_tx :: "user_id \<Rightarrow> row_id \<Rightarrow> string option \<Rightarrow> owner_scope \<Rightarrow> date \<Rightarrow> store \<Rightarrow> nat \<times> store" where
  "delete_tx userId linkId reason owner now st =
     (let target = (\<lambda>l. ownerPredicate owner l \<and> ud_id l = linkId \<and> active_link l) in
      (count_where target (links_t st),
       st\<lparr>links_t := update_where target (\<lambda>l. l\<lparr>ud_deletedAt := Some now, ud_deletedBy := Some userId,
           ud_deletedReason := truncateForAudit reason\<rparr>) (links_t st)\<rparr>))"

definition softDeleteUserVocabularyTerm ::
  "user_id \<Rightarrow> row_id \<Rightarrow> string option \<Rightarrow> owner_scope \<Rightarrow> date \<Rightarrow> store \<Rightarrow> (vocab_error + date) \<times> store" where
  "softDeleteUserVocabularyTerm userId linkId reason owner now st =
     (case getTermLink st owner linkId False of
        None \<Rightarrow> (Inl Not_found, st)
      | Some (l, _) \<Rightarrow>
          (case delete_tx userId linkId reason owner now st of (n, st1) \<Rightarrow>
             if n = 0 then (Inl Not_found, st1)
             else (Inr now, emit (AuditVocabulary userId ''lexicon.term.delete'' (ud_termId l)) st1)))"

definition undelete :: "term_link_row \<Rightarrow> term_link_row" where
  "undelete l = l\<lparr>ud_deletedAt := None, ud_deletedBy := None, ud_deletedReason := None\<rparr>"

definition restore_tx :: "(string \<Rightarrow> string) \<Rightarrow> joined_row \<Rightarrow> row_id \<Rightarrow> owner_scope \<Rightarrow> store \<Rightarrow> (vocab_error + unit) \<times> store" where
  "restore_tx nfc deleted linkId owner st =
     (let conflicts = assertNoScopeConflict nfc st owner deleted (Some linkId) in
      if conflicts \<noteq> [] then (Inl (Validation_failed (Scope_conflicts conflicts)), st)
      else
        let target = (\<lambda>l. ownerPredicate owner l \<and> ud_id l = linkId \<and> ud_deletedAt l \<noteq> None \<and> ud_archivedAt l = None) in
        if list_ex (\<lambda>l. target l \<and> active_link_taken st (undelete l)) (links_t st) then (Inl Unique_violation, st)
        else (Inr (), st\<lparr>links_t := update_where target undelete (links_t st)\<rparr>))"

definition restoreUserVocabularyTerm ::
  "(string \<Rightarrow> string) \<Rightarrow> user_id \<Rightarrow> row_id \<Rightarrow> owner_scope \<Rightarrow> store \<Rightarrow> (vocab_error + (term_link_row \<times> joined_row)) \<times> store" where
  "restoreUserVocabularyTerm nfc userId linkId owner st =
     (case getTermLink st owner linkId True of
        None \<Rightarrow> (Inl Not_found, st)
      | Some (_, deleted) \<Rightarrow>
          (case restore_tx nfc deleted linkId owner st of
             (Inl e, st1) \<Rightarrow> (Inl e, st1)
           | (Inr _, st1) \<Rightarrow>
               (case getTermLink st1 owner linkId False of
                  None \<Rightarrow> (Inl Restore_failed, st1)
                | Some link \<Rightarrow> (Inr link, emit (AuditVocabulary userId ''lexicon.term.restore'' (ud_termId (fst link))) st1))))"

text \<open>What adding would do: the existing global term, and the messages the term would bring.\<close>

definition previewAddTerm :: "vocab_env \<Rightarrow> store \<Rightarrow> term_input \<Rightarrow> owner_scope \<Rightarrow> vocab_error + (row_id option \<times> string list)" where
  "previewAddTerm env st input owner =
     (case validateInput env input of
        Inl e \<Rightarrow> Inl e
      | Inr t \<Rightarrow>
          let existing = find_first (\<lambda>r. dt_dedupKey r = computeDedupKey (ve_nfc env) (ve_sha env) t) (terms_t st);
              current = map snd (loadGroupTermRows st owner (nt_domain t) (nt_locale t));
              verdict = (\<lambda>rows. case ve_validate env (assembleDomainVocabularyFromLinks rows (Some (nt_domain t)) (Some (nt_locale t)))
                of (_, errors, warnings) \<Rightarrow> errors @ warnings);
              known = verdict current
          in Inr (map_option dt_id existing,
                  filter (\<lambda>m. m \<notin> set known) (verdict (current @ [term_candidate ''preview'' t]))))"

section \<open>Who may edit\<close>

datatype vocabulary_action = View_vocabulary | Create_term | Edit_term

definition resolveVocabularyOwner ::
  "store \<Rightarrow> user_id \<Rightarrow> team_id option \<Rightarrow> vocabulary_action \<Rightarrow> row_id option \<Rightarrow> vocab_error + owner_scope" where
  "resolveVocabularyOwner st actorId teamId action linkId =
     (case or_null teamId of
        None \<Rightarrow> Inr (userOwner actorId)
      | Some team \<Rightarrow>
          (case checkTeamAccess st actorId team of
             Inl _ \<Rightarrow> Inl Team_forbidden
           | Inr role \<Rightarrow>
               let owner = teamOwner team in
               if action = View_vocabulary then (if hasPermission role VOCABULARY_VIEW then Inr owner else Inl Team_role_insufficient)
               else if \<not> hasPermission role VOCABULARY_CREATE then Inl Team_role_insufficient
               else if action = Create_term \<or> hasPermission role VOCABULARY_MANAGE then Inr owner
               else
                 case (case or_null linkId of None \<Rightarrow> None | Some i \<Rightarrow> getTermLink st owner i True) of
                   Some (l, _) \<Rightarrow> if ud_userId l \<noteq> actorId then Inl Team_role_insufficient else Inr owner
                 | None \<Rightarrow> Inr owner))"

definition teamVocabularyAbilities :: "team_role \<Rightarrow> bool \<times> bool" where
  "teamVocabularyAbilities role = (hasPermission role VOCABULARY_CREATE, hasPermission role VOCABULARY_MANAGE)"

definition teamIdFromRequest :: "string option \<Rightarrow> string option" where
  "teamIdFromRequest val = or_null (map_option js_trim val)"

definition listVocabularyTeams :: "store \<Rightarrow> user_id \<Rightarrow> (team_id \<times> string \<times> team_role) list" where
  "listVocabularyTeams st userId =
     sort_key (\<lambda>(_, name, _). name)
       (List.map_filter (\<lambda>m. map_option (\<lambda>t. (t_id t, t_name t, tm_role m)) (find_first (\<lambda>t. t_id t = tm_teamId m) (teams_t st)))
         (select_where (\<lambda>m. tm_userId m = userId) (members_t st)))"

end
