(* ===== verification/TermFacts.thy ===== *)
theory TermFacts
  imports TermEditing
begin

text \<open>
  Terms that are told apart by their key are told apart by their content; every stored row passes
  the checks of the editor; an owner's links stay within the quota and, as long as a reused term is
  spelled like the input, free of conflicts; and a team's terms are edited by its authorized members.
\<close>

section \<open>The key\<close>

definition dedup_entry :: "string \<times> (string + string list) \<Rightarrow> string" where
  "dedup_entry e = json_string (fst e) @ CHR '':'' # (case snd e of Inl s \<Rightarrow> json_string s | Inr ss \<Rightarrow> json_array ss)"

lemma string_or_array_inj:
  assumes "(case u of Inl s \<Rightarrow> json_string s | Inr ss \<Rightarrow> json_array ss) @ x = (case v of Inl s \<Rightarrow> json_string s | Inr ss \<Rightarrow> json_array ss) @ y"
  shows "u = v \<and> x = y"
proof (cases u; cases v)
  fix s t assume "u = Inl s" "v = Inl t"
  then show ?thesis using assms jstr.enc_inj [of s x t y] by simp
next
  fix ss ts assume "u = Inr ss" "v = Inr ts"
  then show ?thesis using assms json_array_inj [of ss x ts y] by simp
qed (use assms in \<open>simp_all add: json_string_def json_array_def\<close>)

interpretation jdedup: prefix_code dedup_entry
proof unfold_locales
  fix a x b y assume "dedup_entry a @ x = dedup_entry b @ y"
  then have "json_string (fst a) @ (CHR '':'' # (case snd a of Inl s \<Rightarrow> json_string s | Inr ss \<Rightarrow> json_array ss) @ x) =
      json_string (fst b) @ (CHR '':'' # (case snd b of Inl s \<Rightarrow> json_string s | Inr ss \<Rightarrow> json_array ss) @ y)"
    by (simp add: dedup_entry_def)
  from jstr.enc_inj [OF this] show "a = b \<and> x = y" using string_or_array_inj by (auto simp: prod_eq_iff)
next
  show "dedup_entry a \<noteq> []" for a by (simp add: dedup_entry_def json_string_def)
qed

definition dedup_entries :: "(string \<Rightarrow> string) \<Rightarrow> normalized_term \<Rightarrow> (string \<times> (string + string list)) list" where
  "dedup_entries nfc t =
     (let aliases = dedup_aliases nfc (nt_aliases t); description = dedup_description (nt_description t) in
      (if aliases \<noteq> [] then [(''aliases'', Inr aliases)] else [])
      @ [(''canonicalNorm'', Inl (nt_canonicalNorm t))]
      @ (if description \<noteq> [] then [(''description'', Inl description)] else [])
      @ [(''domain'', Inl (nt_domain t)), (''kind'', Inl (kind_text (nt_kind t))), (''locale'', Inl (nt_locale t)),
         (''localizedNorm'', Inl (nt_localizedNorm t)), (''parentCanonicalNorm'', Inl (nt_parentCanonicalNorm t))])"

lemma key_order:
  "''aliases'' < ''canonicalNorm''" "''canonicalNorm'' < ''description''" "''description'' < ''domain''"
  "''domain'' < ''kind''" "''kind'' < ''locale''" "''locale'' < ''localizedNorm''" "''localizedNorm'' < ''parentCanonicalNorm''"
  by (simp_all add: less_char_def)

lemma canonicalJson_JStr [simp]: "canonicalJson \<circ> JStr = json_string"
  by (simp add: fun_eq_iff)

lemma canonicalJson_dedup:
  "canonicalJson (dedup_object nfc t) = CHR ''{'' # join_commas (map dedup_entry (dedup_entries nfc t)) @ [CHR ''}'']"
  using key_order
  by (cases "dedup_aliases nfc (nt_aliases t) = []"; cases "dedup_description (nt_description t) = []")
    (simp_all add: dedup_object_def dedup_entries_def dedup_entry_def json_array_def Let_def
      less_char_def less_eq_list_code less_eq_char_def)

definition same_content :: "(string \<Rightarrow> string) \<Rightarrow> normalized_term \<Rightarrow> normalized_term \<Rightarrow> bool" where
  "same_content nfc a b \<longleftrightarrow> nt_domain a = nt_domain b \<and> nt_locale a = nt_locale b \<and> nt_kind a = nt_kind b
     \<and> nt_canonicalNorm a = nt_canonicalNorm b \<and> nt_localizedNorm a = nt_localizedNorm b
     \<and> nt_parentCanonicalNorm a = nt_parentCanonicalNorm b
     \<and> {nfcTrim nfc x |x. x \<in> set (nt_aliases a)} - {[]} = {nfcTrim nfc x |x. x \<in> set (nt_aliases b)} - {[]}
     \<and> dedup_description (nt_description a) = dedup_description (nt_description b)"

lemma kind_text_eq: "kind_text j = kind_text k \<longleftrightarrow> j = k"
  by (cases j; cases k) (simp_all add: kind_text_def)

lemma dedup_aliases_eq_iff:
  "dedup_aliases nfc xs = dedup_aliases nfc ys \<longleftrightarrow>
     {nfcTrim nfc x |x. x \<in> set xs} - {[]} = {nfcTrim nfc x |x. x \<in> set ys} - {[]}"
proof -
  have "set (filter (\<lambda>a. a \<noteq> []) (map (nfcTrim nfc) zs)) = {nfcTrim nfc x |x. x \<in> set zs} - {[]}" for zs by auto
  then show ?thesis unfolding dedup_aliases_def sort_dedup_eq_iff by simp
qed

lemma dedup_entries_eq_iff: "dedup_entries nfc a = dedup_entries nfc b \<longleftrightarrow> same_content nfc a b"
  unfolding same_content_def dedup_aliases_eq_iff [symmetric]
  by (auto simp: dedup_entries_def Let_def kind_text_eq split: if_splits)

lemma computeDedupKey_eq_iff:
  assumes "inj sha"
  shows "computeDedupKey nfc sha a = computeDedupKey nfc sha b \<longleftrightarrow> same_content nfc a b"
proof -
  have start: "hd (dedup_entry e) \<noteq> CHR ''}''" for e by (simp add: dedup_entry_def json_string_def)
  have "canonicalJson (dedup_object nfc a) = canonicalJson (dedup_object nfc b) \<longleftrightarrow> dedup_entries nfc a = dedup_entries nfc b"
    unfolding canonicalJson_dedup using jdedup.joined_inj [where close = "CHR ''}''" and x = "[]" and y = "[]", OF _ _ start] by auto
  then show ?thesis using assms by (simp add: computeDedupKey_def inj_eq dedup_entries_eq_iff)
qed

section \<open>Conflicts\<close>

definition clash :: "(string \<Rightarrow> string) \<Rightarrow> joined_row \<Rightarrow> joined_row \<Rightarrow> bool" where
  "clash nfc r s \<longleftrightarrow> jr_kind r = jr_kind s \<and> scope_parent r = scope_parent s \<and>
     set (written_forms nfc r) \<inter> set (written_forms nfc s) \<noteq> {} \<and> jr_canonical r \<noteq> jr_canonical s"

lemma clash_commute: "clash nfc r s \<longleftrightarrow> clash nfc s r"
  by (auto simp: clash_def)

lemma nullish_or_null: "nullish (or_null x) [] = nullish x []"
  by (cases x) (auto simp: or_null_def truthy_def)

definition places :: "(string \<Rightarrow> string) \<Rightarrow> joined_row \<Rightarrow> (written_place \<times> string) set" where
  "places nfc r = (\<lambda>w. ((jr_kind r, scope_parent r, w), jr_canonical r)) ` set (written_forms nfc r)"

lemma set_kind_entries:
  assumes "scoped = requiresParent k"
  shows "set (concat (map (\<lambda>m. map (\<lambda>raw. ((k, if scoped then nullish (map_parent m) [] else [], nfc raw), map_canonical m))
       (map_localized m # map_aliases m)) (of_kind k rows))) = (\<Union>r \<in> {r \<in> set rows. jr_kind r = k}. places nfc r)"
proof -
  have rows: "set (of_kind k rows) = mappingFromRow ` {r \<in> set rows. jr_kind r = k}" by (auto simp: of_kind_def mappingFromRow_def)
  have row: "(\<lambda>raw. ((k, if scoped then nullish (map_parent (mappingFromRow r)) [] else [], nfc raw), map_canonical (mappingFromRow r)))
      ` set (map_localized (mappingFromRow r) # map_aliases (mappingFromRow r)) = places nfc r" if "jr_kind r = k" for r
    using that assms
    by (simp add: places_def mappingFromRow_def nullish_or_null written_forms_def scope_parent_def image_image)
  show ?thesis unfolding set_concat set_map rows image_image using row by (auto cong: SUP_cong_simp)
qed

lemma set_written_entries:
  "set (written_entries nfc (assembleDomainVocabularyFromLinks rows d l)) = (\<Union>r \<in> set rows. places nfc r)"
proof -
  define F where "F k = (\<Union>r \<in> {r \<in> set rows. jr_kind r = k}. places nfc r)" for k
  have "set (written_entries nfc (assembleDomainVocabularyFromLinks rows d l)) = F KStruct \<union> (F KField \<union> (F KEnumValue \<union> F KFunction))"
    using set_kind_entries [of False KStruct nfc rows] set_kind_entries [of True KField nfc rows]
      set_kind_entries [of True KEnumValue nfc rows] set_kind_entries [of False KFunction nfc rows]
    unfolding written_entries_def ROLE_GROUPS_def F_def
    by (simp add: assembleDomainVocabularyFromLinks_def Let_def requiresParent_def)
  also have "\<dots> = (\<Union>r \<in> set rows. places nfc r)"
    unfolding F_def by (auto, metis identifier_kind.exhaust)
  finally show ?thesis .
qed

lemma in_places: "((k, p, w), c) \<in> places nfc r \<longleftrightarrow>
    jr_kind r = k \<and> scope_parent r = p \<and> w \<in> set (written_forms nfc r) \<and> jr_canonical r = c"
  by (auto simp: places_def)

lemma two_canonicals: "1 < length (sort (dedup xs)) \<longleftrightarrow> (\<exists>a \<in> set xs. \<exists>b \<in> set xs. a \<noteq> b)" for xs :: "string list"
proof -
  have "length (sort (dedup xs)) = card (set xs)" using distinct_card [of "dedup xs"] by simp
  moreover have "1 < card (set xs) \<longleftrightarrow> (\<exists>a \<in> set xs. \<exists>b \<in> set xs. a \<noteq> b)"
    using card_le_Suc0_iff_eq [of "set xs"] by (auto simp: not_le [symmetric])
  ultimately show ?thesis by simp
qed

definition conflict_at :: "(written_place \<times> string) list \<Rightarrow> written_place \<Rightarrow> scope_conflict" where
  "conflict_at es place = (case place of (role, parent, written) \<Rightarrow>
     \<lparr>sc_role = role, sc_parent = parent, sc_written = written,
      sc_canonicals = sort (dedup (map snd (filter (\<lambda>r. fst r = place) es)))\<rparr>)"

lemma conflict_at_simps [simp]:
  "sc_role (conflict_at es place) = fst place" "sc_parent (conflict_at es place) = fst (snd place)"
  "sc_written (conflict_at es place) = snd (snd place)"
  by (simp_all add: conflict_at_def split: prod.splits)

lemma conflict_at_two: "1 < length (sc_canonicals (conflict_at es place)) \<longleftrightarrow> (\<exists>a b. (place, a) \<in> set es \<and> (place, b) \<in> set es \<and> a \<noteq> b)"
proof -
  have "sc_canonicals (conflict_at es place) = sort (dedup (map snd (filter (\<lambda>r. fst r = place) es)))"
    by (simp add: conflict_at_def split: prod.splits)
  moreover have "a \<in> set (map snd (filter (\<lambda>r. fst r = place) es)) \<longleftrightarrow> (place, a) \<in> set es" for a by force
  ultimately show ?thesis by (simp only: two_canonicals Bex_def) blast
qed

lemma findVocabularyScopeConflicts_eq:
  "findVocabularyScopeConflicts nfc v =
     filter (\<lambda>c. 1 < length (sc_canonicals c)) (map (conflict_at (written_entries nfc v)) (dedup (map fst (written_entries nfc v))))"
  by (simp add: findVocabularyScopeConflicts_def group_rows_def conflict_at_def [abs_def] comp_def case_prod_unfold)

lemma conflict_place_iff:
  "(\<exists>c \<in> set (findVocabularyScopeConflicts nfc v). sc_role c = k \<and> sc_parent c = p \<and> sc_written c = w) \<longleftrightarrow>
     (\<exists>a b. ((k, p, w), a) \<in> set (written_entries nfc v) \<and> ((k, p, w), b) \<in> set (written_entries nfc v) \<and> a \<noteq> b)"
    (is "?L \<longleftrightarrow> ?R")
proof
  assume ?L
  then obtain place where "1 < length (sc_canonicals (conflict_at (written_entries nfc v) place))" "place = (k, p, w)"
    unfolding findVocabularyScopeConflicts_eq by auto
  then show ?R unfolding conflict_at_two by blast
next
  assume r: ?R
  then have "(k, p, w) \<in> set (dedup (map fst (written_entries nfc v)))" by force
  moreover have "1 < length (sc_canonicals (conflict_at (written_entries nfc v) (k, p, w)))" using r unfolding conflict_at_two .
  ultimately show ?L unfolding findVocabularyScopeConflicts_eq by (intro bexI [of _ "conflict_at (written_entries nfc v) (k, p, w)"]) simp_all
qed

definition two_names :: "(string \<Rightarrow> string) \<Rightarrow> joined_row set \<Rightarrow> written_place \<Rightarrow> bool" where
  "two_names nfc R place \<longleftrightarrow> (\<exists>r \<in> R. \<exists>s \<in> R. \<exists>a b. (place, a) \<in> places nfc r \<and> (place, b) \<in> places nfc s \<and> a \<noteq> b)"

lemma two_names_iff:
  "two_names nfc R (k, p, w) \<longleftrightarrow> (\<exists>r \<in> R. \<exists>s \<in> R. jr_kind r = k \<and> scope_parent r = p \<and> jr_kind s = k \<and> scope_parent s = p
     \<and> w \<in> set (written_forms nfc r) \<and> w \<in> set (written_forms nfc s) \<and> jr_canonical r \<noteq> jr_canonical s)"
  unfolding two_names_def in_places by meson

lemma two_names_clash: "(\<exists>k p w. two_names nfc R (k, p, w)) \<longleftrightarrow> (\<exists>r \<in> R. \<exists>s \<in> R. clash nfc r s)"
proof
  assume "\<exists>k p w. two_names nfc R (k, p, w)"
  then obtain k p w r s where "r \<in> R" "s \<in> R" "jr_kind r = k" "scope_parent r = p" "jr_kind s = k" "scope_parent s = p"
    "w \<in> set (written_forms nfc r)" "w \<in> set (written_forms nfc s)" "jr_canonical r \<noteq> jr_canonical s"
    unfolding two_names_iff by blast
  then have "clash nfc r s" by (auto simp: clash_def)
  then show "\<exists>r \<in> R. \<exists>s \<in> R. clash nfc r s" using \<open>r \<in> R\<close> \<open>s \<in> R\<close> by blast
next
  assume "\<exists>r \<in> R. \<exists>s \<in> R. clash nfc r s"
  then obtain r s w where rs: "r \<in> R" "s \<in> R" "clash nfc r s" "w \<in> set (written_forms nfc r)" "w \<in> set (written_forms nfc s)"
    unfolding clash_def by blast
  then have "two_names nfc R (jr_kind r, scope_parent r, w)"
    unfolding two_names_iff by (intro bexI [of _ r] bexI [of _ s]) (simp_all add: clash_def)
  then show "\<exists>k p w. two_names nfc R (k, p, w)" by blast
qed

lemma row_conflict_iff:
  "(\<exists>c \<in> set (findVocabularyScopeConflicts nfc (assembleDomainVocabularyFromLinks rows d l)).
     sc_role c = k \<and> sc_parent c = p \<and> sc_written c = w) \<longleftrightarrow> two_names nfc (set rows) (k, p, w)"
  unfolding conflict_place_iff set_written_entries two_names_def by blast

lemma no_conflicts_iff:
  "findVocabularyScopeConflicts nfc (assembleDomainVocabularyFromLinks rows d l) = [] \<longleftrightarrow>
     (\<forall>r \<in> set rows. \<forall>s \<in> set rows. \<not> clash nfc r s)" (is "?C = [] \<longleftrightarrow> ?R")
proof -
  have "?C = [] \<longleftrightarrow> (\<forall>k p w. \<not> (\<exists>c \<in> set ?C. sc_role c = k \<and> sc_parent c = p \<and> sc_written c = w))" by (cases ?C) auto
  also have "\<dots> \<longleftrightarrow> (\<forall>k p w. \<not> two_names nfc (set rows) (k, p, w))" unfolding row_conflict_iff by (rule refl)
  also have "\<dots> \<longleftrightarrow> ?R" using two_names_clash [of nfc "set rows"] by meson
  finally show ?thesis .
qed

lemma no_term_conflicts_iff:
  "findTermScopeConflicts nfc rows c = [] \<longleftrightarrow> (\<forall>r \<in> set rows. \<not> clash nfc r c)" (is "?C = [] \<longleftrightarrow> ?R")
proof -
  have "?C = [] \<longleftrightarrow> (\<forall>w \<in> set (written_forms nfc c). \<not> (\<exists>x \<in> set (findVocabularyScopeConflicts nfc
        (assembleDomainVocabularyFromLinks (rows @ [c]) (Some (jr_domain c)) (Some (jr_locale c)))).
      sc_role x = jr_kind c \<and> sc_parent x = scope_parent c \<and> sc_written x = w))"
    unfolding findTermScopeConflicts_def filter_empty_conv by blast
  also have "\<dots> \<longleftrightarrow> (\<forall>w \<in> set (written_forms nfc c). \<not> two_names nfc (set (rows @ [c])) (jr_kind c, scope_parent c, w))"
    unfolding row_conflict_iff by (rule refl)
  also have "\<dots> \<longleftrightarrow> ?R"
  proof
    assume "\<forall>w \<in> set (written_forms nfc c). \<not> two_names nfc (set (rows @ [c])) (jr_kind c, scope_parent c, w)"
    then show ?R unfolding two_names_iff clash_def by auto
  next
    assume r: ?R
    show "\<forall>w \<in> set (written_forms nfc c). \<not> two_names nfc (set (rows @ [c])) (jr_kind c, scope_parent c, w)"
    proof (intro ballI notI)
      fix w assume w: "w \<in> set (written_forms nfc c)" and "two_names nfc (set (rows @ [c])) (jr_kind c, scope_parent c, w)"
      then obtain x y where "x \<in> set (rows @ [c])" "y \<in> set (rows @ [c])" "jr_canonical x \<noteq> jr_canonical y"
        and "jr_kind x = jr_kind c" "scope_parent x = scope_parent c" "w \<in> set (written_forms nfc x)"
        and "jr_kind y = jr_kind c" "scope_parent y = scope_parent c" "w \<in> set (written_forms nfc y)"
        unfolding two_names_iff by blast
      moreover have "jr_canonical z = jr_canonical c"
        if "z \<in> set (rows @ [c])" "jr_kind z = jr_kind c" "scope_parent z = scope_parent c" "w \<in> set (written_forms nfc z)" for z
        using r w that unfolding clash_def by auto
      ultimately show False by metis
    qed
  qed
  finally show ?thesis .
qed

lemma clash_cong:
  assumes "jr_kind r = jr_kind r'" "scope_parent r = scope_parent r'" "jr_canonical r = jr_canonical r'"
    "set (written_forms nfc r) = set (written_forms nfc r')"
  shows "clash nfc r s = clash nfc r' s"
  using assms by (simp add: clash_def)

section \<open>Checked input\<close>

lemma js_trim_idem [simp]: "js_trim (js_trim s) = js_trim s"
proof -
  have d: "dropWhile P (dropWhile P xs) = dropWhile P xs" for P and xs :: string by (induction xs) auto
  define t where "t = dropWhile is_space s"
  have "dropWhile is_space (rev (dropWhile is_space (rev t))) = rev (dropWhile is_space (rev t))"
  proof (cases "dropWhile is_space (rev t)" rule: rev_cases)
    case (snoc ys y)
    then obtain zs where "rev t = zs @ ys @ [y]" by (metis takeWhile_dropWhile_id)
    then have "t = y # rev ys @ rev zs" by (metis rev_append rev_rev_ident rev.simps(2) append_assoc append.simps rev_singleton_conv)
    moreover have "t = [] \<or> \<not> is_space (hd t)" unfolding t_def by (meson hd_dropWhile)
    ultimately show ?thesis using snoc by simp
  next
    case Nil
    show ?thesis unfolding Nil by simp
  qed
  then show ?thesis unfolding js_trim_def by (simp add: t_def [symmetric] d)
qed

lemma js_trim_Nil [simp]: "js_trim [] = []"
  by (simp add: js_trim_def)

text \<open>The input that a row came from, and what the checks say of it.\<close>

definition row_input :: "domain_term_row \<Rightarrow> normalized_term" where
  "row_input r =
     \<lparr>nt_domain = dt_domain r, nt_locale = dt_locale r, nt_kind = dt_kind r, nt_canonical = dt_canonical r,
      nt_canonicalNorm = js_lower (dt_canonical r), nt_localized = dt_localized r, nt_localizedNorm = dt_localized r,
      nt_parentCanonical = dt_parentCanonical r, nt_parentCanonicalNorm = js_lower (nullish (dt_parentCanonical r) []),
      nt_description = dt_description r, nt_aliases = dt_aliases r\<rparr>"

definition input_ok :: "vocab_env \<Rightarrow> normalized_term \<Rightarrow> bool" where
  "input_ok env t \<longleftrightarrow> nt_canonical t \<noteq> [] \<and> nt_localized t \<noteq> [] \<and> isValidVocabularyDomain (nt_domain t)
     \<and> (\<exists>raw. canonicalizeVocabularyLocale (ve_canonicalLocale env) raw = Some (nt_locale t)) \<and> nt_locale t \<noteq> []
     \<and> (requiresParent (nt_kind t) \<longrightarrow> truthy (nt_parentCanonical t))
     \<and> checkTermBounds (domainTermValues [] t []) = []
     \<and> (\<forall>a \<in> set (nt_aliases t). a \<noteq> [] \<and> js_trim a = a)
     \<and> fst (ve_validate env (assembleDomainVocabularyFromLinks [term_candidate [] t] (Some (nt_domain t)) (Some (nt_locale t))))"

lemma row_input_of_values:
  assumes "t = normalizeTermInput nfc input\<lparr>nt_domain := d, nt_locale := l\<rparr>"
  shows "row_input (domainTermValues i t key) = t"
proof -
  have "nullish (or_null (map_option js_trim p)) [] = js_trim (nullish p [])" for p
    by (cases p) (simp_all add: nullish_or_null)
  then show ?thesis unfolding assms by (simp add: row_input_def domainTermValues_def normalizeTermInput_def normalizeText_def)
qed

lemma applyVocabularyScopeFormat_Inr:
  assumes "applyVocabularyScopeFormat cl t = Inr u"
  shows "\<exists>d l. u = t\<lparr>nt_domain := d, nt_locale := l\<rparr> \<and> isValidVocabularyDomain d
    \<and> canonicalizeVocabularyLocale cl (js_trim (nt_locale t)) = Some l \<and> l \<noteq> [] \<and> checkTermBounds (domainTermValues [] t []) = []"
proof -
  have scope: "checkVocabularyScope cl (nt_domain t) (nt_locale t) = (d, l, []) \<Longrightarrow>
      isValidVocabularyDomain d \<and> canonicalizeVocabularyLocale cl (js_trim (nt_locale t)) = Some l \<and> l \<noteq> []" for d l
    by (auto simp: checkVocabularyScope_def Let_def or_null_None or_null_Some split: if_splits option.splits)
       (metis nullish_simps(2) or_null_Some)+
  show ?thesis using assms scope
    by (cases "checkVocabularyScope cl (nt_domain t) (nt_locale t)")
      (auto simp: applyVocabularyScopeFormat_def Let_def split: if_splits)
qed

lemma term_candidate_assembly:
  "assembleDomainVocabularyFromLinks [term_candidate i t] d l = assembleDomainVocabularyFromLinks [term_candidate j t] d l"
  by (simp add: assembleDomainVocabularyFromLinks_def of_kind_def mappingFromRow_def term_candidate_def)

lemma checkTermBounds_scope:
  "checkTermBounds (domainTermValues i (t\<lparr>nt_domain := d, nt_locale := l\<rparr>) k) = checkTermBounds (domainTermValues j t k')"
  by (simp add: checkTermBounds_def domainTermValues_def)

lemma validateNormalized_Inr:
  "validateNormalized env u = Inr t \<Longrightarrow> t = u \<and> (requiresParent (nt_kind u) \<longrightarrow> nt_parentCanonical u \<noteq> None)
     \<and> fst (ve_validate env (assembleDomainVocabularyFromLinks [term_candidate ''preview'' u] (Some (nt_domain u)) (Some (nt_locale u))))"
  by (cases "ve_validate env (assembleDomainVocabularyFromLinks [term_candidate ''preview'' u] (Some (nt_domain u)) (Some (nt_locale u)))")
    (simp add: validateNormalized_def split: if_splits)

lemma validateInput_Inr:
  assumes "validateInput env input = Inr t"
  shows "nt_canonical (normalizeTermInput (ve_nfc env) input) \<noteq> [] \<and> nt_localized (normalizeTermInput (ve_nfc env) input) \<noteq> []
    \<and> applyVocabularyScopeFormat (ve_canonicalLocale env) (normalizeTermInput (ve_nfc env) input) = Inr t \<and> validateNormalized env t = Inr t"
proof -
  define n where "n = normalizeTermInput (ve_nfc env) input"
  have n: "nt_canonical n \<noteq> []" "nt_localized n \<noteq> []"
    and f: "(case applyVocabularyScopeFormat (ve_canonicalLocale env) n of
        Inl (issues, bounds) \<Rightarrow> Inl (Validation_failed (Bad_format issues bounds)) | Inr u \<Rightarrow> validateNormalized env u) = Inr t"
    using assms unfolding validateInput_def n_def [symmetric] Let_def by (simp_all split: if_split_asm)
  then obtain u where u: "applyVocabularyScopeFormat (ve_canonicalLocale env) n = Inr u" "validateNormalized env u = Inr t"
    by (cases "applyVocabularyScopeFormat (ve_canonicalLocale env) n") auto
  then have "t = u" using validateNormalized_Inr by blast
  then show ?thesis using n u by (simp add: n_def)
qed

lemma validateInput_ok:
  assumes "validateInput env input = Inr t"
  shows "input_ok env t \<and> row_input (domainTermValues i t key) = t"
proof -
  define n where "n = normalizeTermInput (ve_nfc env) input"
  have v: "nt_canonical n \<noteq> []" "nt_localized n \<noteq> []" "applyVocabularyScopeFormat (ve_canonicalLocale env) n = Inr t"
    "validateNormalized env t = Inr t"
    using validateInput_Inr [OF assms] by (simp_all add: n_def)
  obtain d l where t: "t = n\<lparr>nt_domain := d, nt_locale := l\<rparr>" and dl: "isValidVocabularyDomain d"
    "canonicalizeVocabularyLocale (ve_canonicalLocale env) (js_trim (nt_locale n)) = Some l" "l \<noteq> []"
    "checkTermBounds (domainTermValues [] n []) = []"
    using applyVocabularyScopeFormat_Inr [OF v(3)] by blast
  have same: "nt_domain t = d" "nt_locale t = l" "nt_canonical t = nt_canonical n" "nt_localized t = nt_localized n"
    "nt_parentCanonical t = nt_parentCanonical n" "nt_kind t = nt_kind n" "nt_aliases t = nt_aliases n"
    by (simp_all add: t)
  have parent: "nt_parentCanonical n \<noteq> None \<longrightarrow> truthy (nt_parentCanonical n)"
    unfolding n_def normalizeTermInput_def by (simp add: or_null_def)
  have aliases: "\<forall>a \<in> set (nt_aliases n). a \<noteq> [] \<and> js_trim a = a" by (auto simp: n_def normalizeTermInput_def)
  have bounds: "checkTermBounds (domainTermValues [] t []) = []" 
    using dl(4) checkTermBounds_scope [where i = "[]" and t = n and d = d and l = l and k = "[]" and j = "[]" and k' = "[]"] by (simp add: t)
  have "row_input (domainTermValues i t key) = t"
    by (rule row_input_of_values [where nfc = "ve_nfc env" and input = input and d = d and l = l]) (simp add: t n_def)
  moreover have "fst (ve_validate env (assembleDomainVocabularyFromLinks [term_candidate [] t] (Some (nt_domain t)) (Some (nt_locale t))))"
    using validateNormalized_Inr [OF v(4)] term_candidate_assembly [of "[]" t _ _ "''preview''"] by simp
  moreover have "requiresParent (nt_kind t) \<longrightarrow> truthy (nt_parentCanonical t)"
    using validateNormalized_Inr [OF v(4)] parent same(5) by simp
  moreover have "\<exists>raw. canonicalizeVocabularyLocale (ve_canonicalLocale env) raw = Some (nt_locale t)" using dl(2) same(2) by blast
  ultimately show ?thesis using bounds aliases v(1,2) dl(1,3) same by (simp add: input_ok_def)
qed

section \<open>Commits in any order\<close>

text \<open>
  What the requests write, whenever they read what they decided on: a normalized term comes from a
  check at some earlier time, and so does the term that a restoration compares.
\<close>

datatype vocab_commit =
    Commit_add user_id owner_scope normalized_term int row_id row_id
  | Commit_modify owner_scope row_id normalized_term row_id
  | Commit_delete user_id row_id "string option" owner_scope date
  | Commit_restore joined_row row_id owner_scope

fun commit :: "vocab_env \<Rightarrow> vocab_commit \<Rightarrow> store \<Rightarrow> store" where
  "commit env (Commit_add u owner t m i j) st = snd (add_tx env u owner t m i j st)"
| "commit env (Commit_modify owner k t i) st = snd (modify_tx env owner k t i st)"
| "commit env (Commit_delete u k r owner now) st = snd (delete_tx u k r owner now st)"
| "commit env (Commit_restore d k owner) st = snd (restore_tx (ve_nfc env) d k owner st)"

text \<open>The input was checked, generated ids are new, and a user's terms are added by the user.\<close>

fun checked :: "vocab_env \<Rightarrow> vocab_commit \<Rightarrow> store \<Rightarrow> bool" where
  "checked env (Commit_add u owner t m i j) st \<longleftrightarrow>
     (\<exists>input. validateInput env input = Inr t) \<and> i \<notin> dt_id ` set (terms_t st) \<and> j \<notin> ud_id ` set (links_t st)
     \<and> (os_type owner = UserOwned \<longrightarrow> os_id owner = u)"
| "checked env (Commit_modify owner k t i) st \<longleftrightarrow>
     (\<exists>input. validateInput env input = Inr t) \<and> i \<notin> dt_id ` set (terms_t st)"
| "checked env _ st \<longleftrightarrow> True"

text \<open>Everything else in the program leaves the two tables alone.\<close>

inductive vocab_reach :: "vocab_env \<Rightarrow> (vocab_commit \<Rightarrow> store \<Rightarrow> bool) \<Rightarrow> store \<Rightarrow> bool" for env allowed where
  start: "terms_t st = [] \<Longrightarrow> links_t st = [] \<Longrightarrow> vocab_reach env allowed st"
| commit: "vocab_reach env allowed st \<Longrightarrow> checked env c st \<Longrightarrow> allowed c st \<Longrightarrow> vocab_reach env allowed (commit env c st)"
| other: "vocab_reach env allowed st \<Longrightarrow> terms_t st' = terms_t st \<Longrightarrow> links_t st' = links_t st \<Longrightarrow> vocab_reach env allowed st'"

text \<open>The requests are such commits.\<close>

lemma add_request_reaches:
  assumes "vocab_reach env (\<lambda>_ _. True) st" and "i \<notin> dt_id ` set (terms_t st)" and "j \<notin> ud_id ` set (links_t st)"
    and "os_type owner = UserOwned \<longrightarrow> os_id owner = u"
  shows "vocab_reach env (\<lambda>_ _. True) (snd (addUserVocabularyTerm env u input owner i j st))"
proof (cases "add_check env st input owner")
  case (Inr tm)
  obtain t m where tm: "tm = (t, m)" by (cases tm)
  have "validateInput env input = Inr t"
    using Inr tm by (auto simp: add_check_def Let_def split: sum.splits option.splits if_splits)
  then have st1: "vocab_reach env (\<lambda>_ _. True) (snd (add_tx env u owner t m i j st))"
    using vocab_reach.commit [OF assms(1), of "Commit_add u owner t m i j"] assms(2-4) by auto
  show ?thesis
    by (rule vocab_reach.other [OF st1]) (auto simp: addUserVocabularyTerm_def Inr tm split: prod.splits sum.splits option.splits)
qed (use assms(1) in \<open>simp add: addUserVocabularyTerm_def\<close>)

lemma modify_request_reaches:
  assumes "vocab_reach env (\<lambda>_ _. True) st" and "i \<notin> dt_id ` set (terms_t st)"
  shows "vocab_reach env (\<lambda>_ _. True) (snd (modifyUserVocabularyTerm env u k input owner i st))"
proof (cases "modify_check env st owner k input")
  case (Inr ot)
  obtain old t where ot: "ot = (old, t)" by (cases ot)
  have "\<exists>input. validateInput env input = Inr t"
    using Inr ot by (auto simp: modify_check_def map_sum_def split: option.splits prod.splits sum.splits)
  then have st1: "vocab_reach env (\<lambda>_ _. True) (snd (modify_tx env owner k t i st))"
    using vocab_reach.commit [OF assms(1), of "Commit_modify owner k t i"] assms(2) by auto
  show ?thesis
    by (rule vocab_reach.other [OF st1]) (auto simp: modifyUserVocabularyTerm_def Inr ot split: prod.splits sum.splits option.splits)
qed (use assms(1) in \<open>simp add: modifyUserVocabularyTerm_def\<close>)

lemma delete_request_reaches:
  assumes "vocab_reach env (\<lambda>_ _. True) st"
  shows "vocab_reach env (\<lambda>_ _. True) (snd (softDeleteUserVocabularyTerm u k r owner now st))"
proof (cases "getTermLink st owner k False")
  case (Some lj)
  have st1: "vocab_reach env (\<lambda>_ _. True) (snd (delete_tx u k r owner now st))"
    using vocab_reach.commit [OF assms, of "Commit_delete u k r owner now"] by simp
  show ?thesis
    by (rule vocab_reach.other [OF st1]) (auto simp: softDeleteUserVocabularyTerm_def Some split: prod.splits)
qed (use assms in \<open>simp add: softDeleteUserVocabularyTerm_def\<close>)

lemma restore_request_reaches:
  assumes "vocab_reach env (\<lambda>_ _. True) st"
  shows "vocab_reach env (\<lambda>_ _. True) (snd (restoreUserVocabularyTerm (ve_nfc env) u k owner st))"
proof (cases "getTermLink st owner k True")
  case (Some lj)
  have st1: "vocab_reach env (\<lambda>_ _. True) (snd (restore_tx (ve_nfc env) (snd lj) k owner st))"
    using vocab_reach.commit [OF assms, of "Commit_restore (snd lj) k owner"] by simp
  obtain l d where lj: "lj = (l, d)" by (cases lj)
  obtain res st2 where r: "restore_tx (ve_nfc env) d k owner st = (res, st2)" by (cases "restore_tx (ve_nfc env) d k owner st")
  have "\<exists>x es. restoreUserVocabularyTerm (ve_nfc env) u k owner st = (x, emit_all es st2)"
  proof (cases res)
    case (Inr w)
    then have written: "restore_tx (ve_nfc env) d k owner st = (Inr (), st2)" using r by simp
    show ?thesis
    proof (cases "getTermLink st2 owner k False")
      case None
      then show ?thesis
        by (intro exI [of _ "Inl Restore_failed"] exI [of _ "[]"]) (simp add: restoreUserVocabularyTerm_def Some lj written emit_all_def)
    next
      case (Some link)
      then show ?thesis using \<open>getTermLink st owner k True = Some lj\<close>
        by (intro exI [of _ "Inr link"] exI [of _ "[AuditVocabulary u ''lexicon.term.restore'' (ud_termId (fst link))]"])
          (simp add: restoreUserVocabularyTerm_def lj written emit_all_def emit_def)
    qed
  next
    case (Inl e)
    then show ?thesis
      by (intro exI [of _ "Inl e"] exI [of _ "[]"]) (simp add: restoreUserVocabularyTerm_def Some lj r emit_all_def)
  qed
  then obtain x es where run: "restoreUserVocabularyTerm (ve_nfc env) u k owner st = (x, emit_all es st2)" by blast
  show ?thesis by (rule vocab_reach.other [OF st1]) (simp_all add: run r lj)
qed (use assms in \<open>simp add: restoreUserVocabularyTerm_def\<close>)

section \<open>The two tables\<close>

definition term_row_ok :: "vocab_env \<Rightarrow> domain_term_row \<Rightarrow> bool" where
  "term_row_ok env r \<longleftrightarrow> input_ok env (row_input r) \<and> dt_dedupKey r = computeDedupKey (ve_nfc env) (ve_sha env) (row_input r)"

definition terms_ok :: "vocab_env \<Rightarrow> store \<Rightarrow> bool" where
  "terms_ok env st \<longleftrightarrow> unique_key dt_id (terms_t st) \<and> unique_key dt_dedupKey (terms_t st) \<and> (\<forall>r \<in> set (terms_t st). term_row_ok env r)"

definition link_typed :: "store \<Rightarrow> term_link_row \<Rightarrow> bool" where
  "link_typed st l \<longleftrightarrow> (ud_ownerType l = TeamOwned \<longleftrightarrow> ud_teamId l \<noteq> None) \<and>
     (\<exists>r \<in> set (terms_t st). dt_id r = ud_termId l \<and> dt_domain r = ud_domain l \<and> dt_locale r = ud_locale l \<and> dt_kind r = ud_kind l)"

definition owner_of :: "term_link_row \<Rightarrow> user_id + team_id option" where
  "owner_of l = (if ud_ownerType l = UserOwned then Inl (ud_userId l) else Inr (ud_teamId l))"

definition links_ok :: "store \<Rightarrow> bool" where
  "links_ok st \<longleftrightarrow> unique_key ud_id (links_t st) \<and> (\<forall>l \<in> set (links_t st). link_typed st l) \<and>
     (\<forall>l \<in> set (links_t st). \<forall>m \<in> set (links_t st). active_link l \<and> active_link m \<and> ud_termId l = ud_termId m
        \<and> owner_of l = owner_of m \<longrightarrow> ud_id l = ud_id m)"

lemma active_link_taken_iff:
  "active_link_taken st l \<longleftrightarrow>
     (\<exists>m \<in> set (links_t st). ud_id m \<noteq> ud_id l \<and> active_link m \<and> ud_termId m = ud_termId l \<and> owner_of m = owner_of l)"
proof -
  have "ud_ownerType m = ud_ownerType l \<and> (if ud_ownerType l = UserOwned then ud_userId m = ud_userId l else ud_teamId m = ud_teamId l)
      \<longleftrightarrow> owner_of m = owner_of l" for m
    by (cases "ud_ownerType m"; cases "ud_ownerType l") (simp_all add: owner_of_def)
  then show ?thesis unfolding active_link_taken_def list_ex_iff by blast
qed

lemma upsert_cases:
  assumes "inj (ve_sha env)" and ok: "terms_ok env st" and v: "validateInput env input = Inr t" and new: "i \<notin> dt_id ` set (terms_t st)"
    and run: "upsertDomainTerm env t i st = ((j, c), st1)"
  shows "terms_ok env st1 \<and> links_t st1 = links_t st \<and> set (terms_t st) \<subseteq> set (terms_t st1)
    \<and> (\<exists>r \<in> set (terms_t st1). dt_id r = j \<and> same_content (ve_nfc env) (row_input r) t
         \<and> (row_input r = t \<or> r \<in> set (terms_t st) \<and> dt_dedupKey r = computeDedupKey (ve_nfc env) (ve_sha env) t))"
proof (cases "find_first (\<lambda>r. dt_dedupKey r = computeDedupKey (ve_nfc env) (ve_sha env) t) (terms_t st)")
  case None
  let ?r = "domainTermValues i t (computeDedupKey (ve_nfc env) (ve_sha env) t)"
  have run': "j = i" "st1 = st\<lparr>terms_t := insert_row ?r (terms_t st)\<rparr>"
    using run None by (auto simp: upsertDomainTerm_def)
  have input: "input_ok env t" "row_input ?r = t" using validateInput_ok [OF v] by blast+
  have "dt_id ?r = i" "dt_dedupKey ?r = computeDedupKey (ve_nfc env) (ve_sha env) t" by (simp_all add: domainTermValues_def)
  moreover have "\<forall>r \<in> set (terms_t st). dt_dedupKey r \<noteq> computeDedupKey (ve_nfc env) (ve_sha env) t"
    using None by (simp add: find_first_None)
  ultimately have "terms_ok env st1"
    using ok input new unfolding terms_ok_def run' by (auto simp: term_row_ok_def intro!: keyed_intros)
  moreover have "?r \<in> set (terms_t st1)" by (simp add: run')
  ultimately show ?thesis using input(2) \<open>dt_id ?r = i\<close> run' by (auto simp: same_content_def intro!: bexI [of _ ?r])
next
  case (Some r)
  have run': "j = dt_id r" "st1 = st" using run Some by (simp_all add: upsertDomainTerm_def)
  have r: "r \<in> set (terms_t st)" "dt_dedupKey r = computeDedupKey (ve_nfc env) (ve_sha env) t"
    using find_first_Some [OF Some] by simp_all
  then have "same_content (ve_nfc env) (row_input r) t"
    using ok computeDedupKey_eq_iff [OF assms(1)] by (auto simp: terms_ok_def term_row_ok_def)
  then show ?thesis using r ok run' by blast
qed

lemma link_typed_mono: "set (terms_t st) \<subseteq> set (terms_t st1) \<Longrightarrow> link_typed st l \<Longrightarrow> link_typed st1 l"
  by (auto simp: link_typed_def)

lemma links_ok_mono:
  assumes "links_ok st" and "links_t st1 = links_t st" and "set (terms_t st) \<subseteq> set (terms_t st1)"
  shows "links_ok st1"
  using assms(1) link_typed_mono [OF assms(3)] unfolding links_ok_def assms(2) by blast

text \<open>An update of the links with one id that keeps owners and ids.\<close>

lemma links_ok_update:
  assumes ok: "links_ok st"
    and f: "\<And>l. ud_id (f l) = ud_id l \<and> owner_of (f l) = owner_of l \<and> (link_typed st l \<longrightarrow> p l \<longrightarrow> link_typed st (f l))"
    and one: "\<And>l. p l \<Longrightarrow> ud_id l = k"
    and free: "\<And>l. l \<in> set (links_t st) \<Longrightarrow> p l \<Longrightarrow> active_link (f l) \<Longrightarrow> \<not> active_link_taken st (f l)"
  shows "links_ok (st\<lparr>links_t := update_where p f (links_t st)\<rparr>)"
proof -
  have f1: "ud_id (f l) = ud_id l" and f2: "owner_of (f l) = owner_of l" and f3: "link_typed st l \<Longrightarrow> p l \<Longrightarrow> link_typed st (f l)" for l
    using f [of l] by blast+
  define g where "g l = (if p l then f l else l)" for l
  have g: "ud_id (g l) = ud_id l" "owner_of (g l) = owner_of l" for l by (simp_all add: g_def f1 f2)
  have set_eq: "set (update_where p f (links_t st)) = g ` set (links_t st)" unfolding set_update_where g_def ..
  have keys: "unique_key ud_id (update_where p f (links_t st))"
    by (rule unique_key_update_where) (use ok in \<open>simp_all only: links_ok_def f1\<close>)
  have typed: "link_typed (st\<lparr>links_t := ls\<rparr>) (g l)" if "l \<in> set (links_t st)" for l ls
  proof -
    have "link_typed st l" using ok that unfolding links_ok_def by blast
    then have "link_typed st (g l)" using f3 [of l] unfolding g_def by (cases "p l") simp_all
    then show ?thesis by (simp add: link_typed_def)
  qed
  have taken: "active_link_taken st (f l)"
    if "p l" "\<not> p m" "m \<in> set (links_t st)" "active_link m" "ud_termId (g m) = ud_termId (g l)" "owner_of m = owner_of l" "ud_id m \<noteq> ud_id l" for l m
    unfolding active_link_taken_iff by (rule bexI [of _ m]) (use that in \<open>simp_all add: g_def f1 f2\<close>)
  have slots: "ud_id (g l) = ud_id (g m)"
    if l: "l \<in> set (links_t st)" and m: "m \<in> set (links_t st)" and act: "active_link (g l)" "active_link (g m)"
      and same: "ud_termId (g l) = ud_termId (g m)" "owner_of (g l) = owner_of (g m)" for l m
  proof (rule ccontr)
    assume "ud_id (g l) \<noteq> ud_id (g m)"
    then have ids: "ud_id l \<noteq> ud_id m" by (simp add: g)
    show False
    proof (cases "p l"; cases "p m")
      assume "p l" "p m" then show False using one ids by metis
    next
      assume p: "p l" "\<not> p m"
      then have "active_link_taken st (f l)" using taken [of l m] m act same ids by (simp add: g) (simp add: g_def)
      then show False using free [OF l p(1)] act p by (simp add: g_def)
    next
      assume p: "\<not> p l" "p m"
      then have "active_link_taken st (f m)" using taken [of m l] l act same ids by (simp add: g) (simp add: g_def)
      then show False using free [OF m p(2)] act p by (simp add: g_def)
    next
      assume "\<not> p l" "\<not> p m"
      then have "active_link l" "active_link m" "ud_termId l = ud_termId m" "owner_of l = owner_of m"
        using act same by (simp_all add: g_def)
      then show False using ok l m ids unfolding links_ok_def by blast
    qed
  qed
  have "\<forall>l \<in> g ` set (links_t st). \<forall>m \<in> g ` set (links_t st).
      active_link l \<and> active_link m \<and> ud_termId l = ud_termId m \<and> owner_of l = owner_of m \<longrightarrow> ud_id l = ud_id m"
    using slots by blast
  moreover have "links_t (st\<lparr>links_t := update_where p f (links_t st)\<rparr>) = update_where p f (links_t st)" by simp
  moreover have "\<forall>l \<in> g ` set (links_t st). link_typed (st\<lparr>links_t := update_where p f (links_t st)\<rparr>) l" using typed by blast
  ultimately show ?thesis unfolding links_ok_def using keys set_eq by presburger
qed

lemma links_ok_insert:
  assumes ok: "links_ok st" and new: "ud_id l \<notin> ud_id ` set (links_t st)" and "link_typed st l" and "\<not> active_link_taken st l"
  shows "links_ok (st\<lparr>links_t := insert_row l (links_t st)\<rparr>)"
proof -
  let ?st = "st\<lparr>links_t := insert_row l (links_t st)\<rparr>"
  have rows: "set (links_t ?st) = insert l (set (links_t st))" by simp
  have typed: "\<forall>m \<in> insert l (set (links_t st)). link_typed ?st m"
    using ok assms(3) by (auto simp: links_ok_def link_typed_def)
  have free: "ud_termId m = ud_termId l \<Longrightarrow> owner_of m = owner_of l \<Longrightarrow> active_link m \<Longrightarrow> m \<in> set (links_t st) \<Longrightarrow> ud_id m = ud_id l" for m
    using assms(4) unfolding active_link_taken_iff by blast
  have slots: "\<forall>a \<in> insert l (set (links_t st)). \<forall>b \<in> insert l (set (links_t st)).
      active_link a \<and> active_link b \<and> ud_termId a = ud_termId b \<and> owner_of a = owner_of b \<longrightarrow> ud_id a = ud_id b"
    using ok free unfolding links_ok_def by (metis insert_iff)
  have "unique_key ud_id (links_t ?st)" using ok new by (auto simp: links_ok_def intro!: keyed_intros)
  then show ?thesis using typed slots unfolding links_ok_def rows by blast
qed

lemma owner_of_simps [simp]:
  "owner_of (repoint t j l) = owner_of l" "ud_id (repoint t j l) = ud_id l" "active_link (repoint t j l) = active_link l"
  "owner_of (undelete l) = owner_of l" "ud_id (undelete l) = ud_id l" "link_typed st (undelete l) = link_typed st l"
  by (simp_all add: owner_of_def repoint_def undelete_def active_link_def link_typed_def)

definition tables_ok :: "vocab_env \<Rightarrow> store \<Rightarrow> bool" where
  "tables_ok env st \<longleftrightarrow> terms_ok env st \<and> links_ok st"

lemma tables_ok_links: "terms_ok env (st\<lparr>links_t := ls\<rparr>) = terms_ok env st"
  by (simp add: terms_ok_def)

lemma new_link_typed:
  assumes "r \<in> set (terms_t st)" and "dt_id r = j" and "same_content nfc (row_input r) t"
  shows "link_typed st (new_link k u owner t j)"
  using assms unfolding link_typed_def by (cases "os_type owner") (auto simp: new_link_def same_content_def row_input_def intro!: bexI [of _ r])

lemma repoint_typed:
  assumes "r \<in> set (terms_t st)" and "dt_id r = j" and "same_content nfc (row_input r) t" and "link_typed st l"
  shows "link_typed st (repoint t j l)"
  using assms unfolding link_typed_def by (auto simp: repoint_def same_content_def row_input_def intro!: bexI [of _ r])

lemma add_keeps_tables:
  assumes "inj (ve_sha env)" and "tables_ok env st" and v: "validateInput env input = Inr t"
    and i: "i \<notin> dt_id ` set (terms_t st)" and k: "k \<notin> ud_id ` set (links_t st)"
  shows "tables_ok env (snd (add_tx env u owner t m i k st))"
proof -
  obtain j c st1 where up: "upsertDomainTerm env t i st = ((j, c), st1)" by (metis prod.exhaust)
  note u = upsert_cases [OF assms(1) _ v i up]
  have st: "terms_ok env st" "links_ok st" using assms(2) by (simp_all add: tables_ok_def)
  then have st1: "terms_ok env st1" "links_ok st1" using u links_ok_mono by blast+
  obtain r where r: "r \<in> set (terms_t st1)" "dt_id r = j" "same_content (ve_nfc env) (row_input r) t" using u st by blast
  let ?l = "new_link k u owner t j"
  have "links_ok (st1\<lparr>links_t := insert_row ?l (links_t st1)\<rparr>)" if "\<not> active_link_taken st1 ?l"
    by (rule links_ok_insert [OF st1(2) _ new_link_typed [OF r] that]) (use k u st in \<open>simp add: new_link_def\<close>)
  then show ?thesis using assms(2) st1(1) by (simp add: add_tx_def up Let_def tables_ok_def tables_ok_links)
qed

lemma modify_keeps_tables:
  assumes "inj (ve_sha env)" and "tables_ok env st" and v: "validateInput env input = Inr t" and i: "i \<notin> dt_id ` set (terms_t st)"
  shows "tables_ok env (snd (modify_tx env owner k t i st))"
proof -
  obtain j c st1 where up: "upsertDomainTerm env t i st = ((j, c), st1)" by (metis prod.exhaust)
  note u = upsert_cases [OF assms(1) _ v i up]
  have st: "terms_ok env st" "links_ok st" using assms(2) by (simp_all add: tables_ok_def)
  then have st1: "terms_ok env st1" "links_ok st1" using u links_ok_mono by blast+
  obtain r where r: "r \<in> set (terms_t st1)" "dt_id r = j" "same_content (ve_nfc env) (row_input r) t" using u st by blast
  let ?p = "\<lambda>l. ownerPredicate owner l \<and> ud_id l = k \<and> active_link l"
  have "links_ok (st1\<lparr>links_t := update_where ?p (repoint t j) (links_t st1)\<rparr>)"
    if "\<not> list_ex (\<lambda>l. ?p l \<and> active_link_taken st1 (repoint t j l)) (links_t st1)"
    by (rule links_ok_update [OF st1(2), where k = k]) (use that repoint_typed [OF r] in \<open>auto simp: list_ex_iff\<close>)
  then show ?thesis using assms(2) st1(1) by (simp add: modify_tx_def up Let_def tables_ok_def tables_ok_links)
qed

lemma delete_keeps_tables:
  assumes "tables_ok env st"
  shows "tables_ok env (snd (delete_tx u k r owner now st))"
proof -
  have ok: "links_ok st" using assms by (simp add: tables_ok_def)
  have "links_ok (st\<lparr>links_t := update_where (\<lambda>l. ownerPredicate owner l \<and> ud_id l = k \<and> active_link l)
      (\<lambda>l. l\<lparr>ud_deletedAt := Some now, ud_deletedBy := Some u, ud_deletedReason := truncateForAudit r\<rparr>) (links_t st)\<rparr>)"
    by (rule links_ok_update [OF ok, where k = k]) (auto simp: owner_of_def link_typed_def active_link_def)
  then show ?thesis using assms by (simp add: delete_tx_def Let_def tables_ok_def tables_ok_links)
qed

lemma restore_keeps_tables:
  assumes "tables_ok env st"
  shows "tables_ok env (snd (restore_tx nfc d k owner st))"
proof -
  have ok: "links_ok st" using assms by (simp add: tables_ok_def)
  let ?p = "\<lambda>l. ownerPredicate owner l \<and> ud_id l = k \<and> ud_deletedAt l \<noteq> None \<and> ud_archivedAt l = None"
  have "links_ok (st\<lparr>links_t := update_where ?p undelete (links_t st)\<rparr>)"
    if "\<not> list_ex (\<lambda>l. ?p l \<and> active_link_taken st (undelete l)) (links_t st)"
    by (rule links_ok_update [OF ok, where k = k]) (use that in \<open>auto simp: list_ex_iff\<close>)
  then show ?thesis using assms by (simp add: restore_tx_def Let_def tables_ok_def tables_ok_links)
qed

lemma commit_keeps_tables:
  assumes "inj (ve_sha env)" and "tables_ok env st" and "checked env c st"
  shows "tables_ok env (commit env c st)"
  using assms by (cases c) (auto intro: add_keeps_tables modify_keeps_tables delete_keeps_tables restore_keeps_tables)

lemma tables_ok_other:
  assumes "tables_ok env st" and "terms_t st' = terms_t st" and "links_t st' = links_t st"
  shows "tables_ok env st'"
proof -
  have "links_ok st'" by (rule links_ok_mono [of st]) (use assms in \<open>simp_all add: tables_ok_def\<close>)
  moreover have "terms_ok env st'" using assms(1) unfolding tables_ok_def terms_ok_def assms(2) by blast
  ultimately show ?thesis by (simp add: tables_ok_def)
qed

lemma vocab_reach_tables:
  assumes "inj (ve_sha env)" and "vocab_reach env allowed st"
  shows "tables_ok env st"
  using assms(2)
proof induction
  case (start st)
  then show ?case by (simp add: tables_ok_def terms_ok_def links_ok_def)
next
  case (commit st c)
  show ?case by (rule commit_keeps_tables [OF assms(1) commit.IH commit.hyps(2)])
next
  case (other st st')
  show ?case by (rule tables_ok_other [OF other.IH other.hyps(2,3)])
qed

section \<open>Quotas\<close>

lemma count_where_update_le:
  assumes "\<And>r. q r \<Longrightarrow> p (f r) \<Longrightarrow> p r"
  shows "count_where p (update_where q f t) \<le> count_where p t"
  by (induction t) (use assms in auto)

lemma upsert_links: "upsertDomainTerm env t i st = (x, st1) \<Longrightarrow> links_t st1 = links_t st"
  by (auto simp: upsertDomainTerm_def Let_def split: option.splits)

lemma modify_links:
  "\<exists>p. links_t (snd (modify_tx env owner k t i st)) = links_t st \<or>
     (\<exists>j. links_t (snd (modify_tx env owner k t i st)) = update_where p (repoint t j) (links_t st))"
proof -
  obtain j c st1 where up: "upsertDomainTerm env t i st = ((j, c), st1)" by (metis prod.exhaust)
  then show ?thesis using upsert_links [OF up] by (auto simp: modify_tx_def Let_def)
qed

lemma repoint_scope [simp]: "ownerPredicate owner (repoint t j l) = ownerPredicate owner l"
  by (simp add: ownerPredicate_def repoint_def split: owner_type.splits)

lemma modify_count: "countActiveUserVocabularyTerms (snd (modify_tx env owner k t i st)) o' = countActiveUserVocabularyTerms st o'"
proof -
  obtain p where "links_t (snd (modify_tx env owner k t i st)) = links_t st \<or>
     (\<exists>j. links_t (snd (modify_tx env owner k t i st)) = update_where p (repoint t j) (links_t st))"
    using modify_links by blast
  then show ?thesis unfolding countActiveUserVocabularyTerms_def by (auto intro!: count_where_update_where)
qed

lemma delete_count: "countActiveUserVocabularyTerms (snd (delete_tx u k r owner now st)) o' \<le> countActiveUserVocabularyTerms st o'"
  unfolding countActiveUserVocabularyTerms_def delete_tx_def Let_def
  by (simp, rule count_where_update_le) (simp add: active_link_def)

lemma add_count:
  assumes "os_type owner = UserOwned \<longrightarrow> os_id owner = u" and "m \<noteq> - 1" and "m \<le> q owner"
    and "int (countActiveUserVocabularyTerms st o') \<le> q o'"
  shows "int (countActiveUserVocabularyTerms (snd (add_tx env u owner t m i k st)) o') \<le> q o'"
proof -
  obtain j c st1 where up: "upsertDomainTerm env t i st = ((j, c), st1)" by (metis prod.exhaust)
  have same: "o' = owner" if "ownerPredicate o' (new_link k u owner t j)"
    using that assms(1) by (cases o'; cases owner; cases "os_type o'"; cases "os_type owner") (simp_all add: ownerPredicate_def new_link_def)
  show ?thesis
  proof (cases "links_t (snd (add_tx env u owner t m i k st)) = links_t st")
    case True
    then show ?thesis using assms(4) by (simp add: countActiveUserVocabularyTerms_def)
  next
    case False
    then have room: "int (countActiveUserVocabularyTerms st owner) < m"
      and links: "links_t (snd (add_tx env u owner t m i k st)) = insert_row (new_link k u owner t j) (links_t st)"
      using assms(2) upsert_links [OF up]
      by (auto simp: add_tx_def lockUserQuotaAndCountRemaining_def up Let_def split: if_splits)
    have "int (countActiveUserVocabularyTerms (snd (add_tx env u owner t m i k st)) o') =
        int (countActiveUserVocabularyTerms st o')
          + (if ownerPredicate o' (new_link k u owner t j) \<and> active_link (new_link k u owner t j) then 1 else 0)"
      unfolding countActiveUserVocabularyTerms_def links by simp
    then show ?thesis using room assms(3,4) same by (auto split: if_splits)
  qed
qed

text \<open>Every addition is made under a quota of at most \<open>q\<close>, and nothing is restored.\<close>

fun within_quota :: "(owner_scope \<Rightarrow> int) \<Rightarrow> vocab_commit \<Rightarrow> store \<Rightarrow> bool" where
  "within_quota q (Commit_add u owner t m i k) st \<longleftrightarrow> m \<noteq> - 1 \<and> m \<le> q owner"
| "within_quota q (Commit_restore d k owner) st \<longleftrightarrow> False"
| "within_quota q _ st \<longleftrightarrow> True"

section \<open>Freedom of conflicts\<close>

text \<open>A global term that an input is mapped to has the input's spelling, and a restoration compares the term it restores.\<close>

fun spelled_alike :: "vocab_env \<Rightarrow> vocab_commit \<Rightarrow> store \<Rightarrow> bool" where
  "spelled_alike env (Commit_add u owner t m i k) st \<longleftrightarrow>
     (\<forall>r \<in> set (terms_t st). dt_dedupKey r = computeDedupKey (ve_nfc env) (ve_sha env) t \<longrightarrow>
        dt_canonical r = nt_canonical t \<and> dt_parentCanonical r = nt_parentCanonical t)"
| "spelled_alike env (Commit_modify owner k t i) st \<longleftrightarrow>
     (\<forall>r \<in> set (terms_t st). dt_dedupKey r = computeDedupKey (ve_nfc env) (ve_sha env) t \<longrightarrow>
        dt_canonical r = nt_canonical t \<and> dt_parentCanonical r = nt_parentCanonical t)"
| "spelled_alike env (Commit_restore d k owner) st \<longleftrightarrow>
     (\<forall>l \<in> set (links_t st). ownerPredicate owner l \<and> ud_id l = k \<longrightarrow> join_term st l = Some d)"
| "spelled_alike env _ st \<longleftrightarrow> True"

text \<open>Two active links of one owner in one group.\<close>

definition same_group :: "term_link_row \<Rightarrow> term_link_row \<Rightarrow> bool" where
  "same_group l m \<longleftrightarrow> active_link l \<and> active_link m \<and> owner_of l = owner_of m \<and> ud_domain l = ud_domain m \<and> ud_locale l = ud_locale m"

definition conflict_free :: "(string \<Rightarrow> string) \<Rightarrow> store \<Rightarrow> bool" where
  "conflict_free nfc st \<longleftrightarrow> (\<forall>l \<in> set (links_t st). \<forall>m \<in> set (links_t st). \<forall>a b.
     same_group l m \<and> join_term st l = Some a \<and> join_term st m = Some b \<longrightarrow> \<not> clash nfc a b)"

definition scope_of :: "owner_scope \<Rightarrow> user_id + team_id option" where
  "scope_of owner = (case os_type owner of UserOwned \<Rightarrow> Inl (os_id owner) | TeamOwned \<Rightarrow> Inr (Some (os_id owner)))"

lemma ownerPredicate_iff: "ownerPredicate owner l \<longleftrightarrow> owner_of l = scope_of owner"
  by (cases "os_type owner"; cases "ud_ownerType l") (auto simp: ownerPredicate_def owner_of_def scope_of_def)

lemma set_group_rows:
  "set (loadGroupTermRows st owner d l) =
     {(ud_id k, j) |k j. k \<in> set (links_t st) \<and> owner_of k = scope_of owner \<and> ud_domain k = d \<and> ud_locale k = l
        \<and> active_link k \<and> join_term st k = Some j}"
  unfolding loadGroupTermRows_def by (auto simp: map_filter_def ownerPredicate_iff image_iff) force+

lemma join_term_at:
  assumes "terms_ok env st" and "r \<in> set (terms_t st)" and "dt_id r = ud_termId l"
  shows "join_term st l = Some \<lparr>jr_termId = ud_termId l, jr_domain = ud_domain l, jr_locale = ud_locale l,
         jr_kind = ud_kind l, jr_canonical = dt_canonical r, jr_localized = dt_localized r,
         jr_parentCanonical = dt_parentCanonical r, jr_aliases = dt_aliases r, jr_description = dt_description r\<rparr>"
proof -
  have "find_first (\<lambda>q. dt_id q = dt_id r) (terms_t st) = Some r"
    by (rule find_first_unique [OF _ assms(2)]) (use assms(1) in \<open>simp add: terms_ok_def\<close>)
  then show ?thesis using assms(3) by (simp add: join_term_def)
qed

lemma clash_termId [simp]: "clash nfc b (a\<lparr>jr_termId := i\<rparr>) = clash nfc b a"
  by (simp add: clash_def scope_parent_def written_forms_def)

lemma no_scope_conflict:
  assumes "assertNoScopeConflict nfc st owner c ex = []" and "m \<in> set (links_t st)" and "active_link m" and "owner_of m = scope_of owner"
    and "ud_domain m = jr_domain c" and "ud_locale m = jr_locale c" and "Some (ud_id m) \<noteq> ex" and "join_term st m = Some b"
  shows "\<not> clash nfc b c"
proof -
  have "(ud_id m, b) \<in> set (loadGroupTermRows st owner (jr_domain c) (jr_locale c))"
    unfolding set_group_rows using assms(2-6,8) by blast
  then have "b \<in> set (map snd (filter (\<lambda>(i, _). Some i \<noteq> ex) (loadGroupTermRows st owner (jr_domain c) (jr_locale c))))"
    using assms(7) by force
  then show ?thesis using assms(1) unfolding assertNoScopeConflict_def no_term_conflicts_iff by (metis clash_termId)
qed

lemma alias_forms:
  assumes "\<And>x. nfc x = [] \<longleftrightarrow> x = []" and "\<forall>a \<in> set as. a \<noteq> [] \<and> js_trim a = a"
  shows "{nfcTrim nfc x |x. x \<in> set as} - {[]} = nfc ` set as"
proof -
  have e: "nfcTrim nfc ` set as = nfc ` set as" using assms(2) by (intro image_cong) (simp_all add: nfcTrim_def)
  have n: "[] \<notin> nfc ` set as"
  proof
    assume "[] \<in> nfc ` set as"
    then obtain x where "x \<in> set as" "nfc x = []" by (metis imageE)
    then show False using assms(2) assms(1) [of x] by blast
  qed
  show ?thesis using n e by (simp add: setcompr_eq_image)
qed

lemma clash_like_candidate:
  assumes nfc: "\<And>x. ve_nfc env x = [] \<longleftrightarrow> x = []" and v: "validateInput env input = Inr t" and r: "term_row_ok env r"
    and same: "same_content (ve_nfc env) (row_input r) t" and alike: "dt_canonical r = nt_canonical t" "dt_parentCanonical r = nt_parentCanonical t"
    and a: "jr_kind a = nt_kind t" "jr_canonical a = dt_canonical r" "jr_localized a = dt_localized r"
      "jr_parentCanonical a = dt_parentCanonical r" "jr_aliases a = dt_aliases r"
  shows "clash (ve_nfc env) b a = clash (ve_nfc env) b (term_candidate [] t)"
proof -
  have ok: "input_ok env t" "row_input (domainTermValues [] t []) = t" using validateInput_ok [OF v] by blast+
  have "nt_localizedNorm (row_input (domainTermValues [] t [])) = nt_localized t" by (simp add: row_input_def domainTermValues_def)
  then have t: "input_ok env t" "nt_localizedNorm t = nt_localized t" using ok by simp_all
  have trimmed: "\<forall>x \<in> set (dt_aliases r). x \<noteq> [] \<and> js_trim x = x" "\<forall>x \<in> set (nt_aliases t). x \<noteq> [] \<and> js_trim x = x"
    using r t(1) unfolding term_row_ok_def input_ok_def by (simp_all add: row_input_def)
  have "{nfcTrim (ve_nfc env) x |x. x \<in> set (dt_aliases r)} - {[]} = {nfcTrim (ve_nfc env) x |x. x \<in> set (nt_aliases t)} - {[]}"
    using same unfolding same_content_def by (simp add: row_input_def)
  then have "ve_nfc env ` set (dt_aliases r) = ve_nfc env ` set (nt_aliases t)"
    unfolding alias_forms [OF nfc trimmed(1)] alias_forms [OF nfc trimmed(2)] .
  moreover have "dt_localized r = nt_localized t" using same t(2) unfolding same_content_def by (simp add: row_input_def)
  ultimately have "set (written_forms (ve_nfc env) a) = set (written_forms (ve_nfc env) (term_candidate [] t))"
    using a by (simp add: written_forms_def term_candidate_def)
  then have "clash (ve_nfc env) a b = clash (ve_nfc env) (term_candidate [] t) b"
    by (intro clash_cong) (use a alike in \<open>simp_all add: term_candidate_def scope_parent_def\<close>)
  then show ?thesis by (simp only: clash_commute [of "ve_nfc env" b])
qed

lemma conflict_free_step:
  assumes cf: "conflict_free nfc st"
    and old: "\<And>m. m \<in> set (links_t st') \<Longrightarrow> m \<noteq> l \<Longrightarrow> m \<in> set (links_t st) \<and> join_term st' m = join_term st m"
    and new: "\<And>m a b. m \<in> set (links_t st') \<Longrightarrow> m \<noteq> l \<Longrightarrow> same_group m l \<Longrightarrow> join_term st' l = Some a \<Longrightarrow> join_term st' m = Some b
      \<Longrightarrow> \<not> clash nfc b a"
  shows "conflict_free nfc st'"
  unfolding conflict_free_def
proof (intro ballI allI impI, elim conjE)
  fix x y a b
  assume x: "x \<in> set (links_t st')" "y \<in> set (links_t st')" and j: "same_group x y" "join_term st' x = Some a" "join_term st' y = Some b"
  have sym: "same_group y x" using j(1) by (simp add: same_group_def)
  show "\<not> clash nfc a b"
  proof (cases "x = l"; cases "y = l")
    assume "x = l" "y = l" then show ?thesis using j by (simp add: clash_def)
  next
    assume "x = l" "y \<noteq> l" then show ?thesis using new [of y a b] x sym j by (simp add: clash_commute)
  next
    assume "x \<noteq> l" "y = l" then show ?thesis using new [of x b a] x j by simp
  next
    assume "x \<noteq> l" "y \<noteq> l"
    then have "x \<in> set (links_t st)" "y \<in> set (links_t st)" "join_term st x = Some a" "join_term st y = Some b"
      using old x j by auto
    then show ?thesis using cf j(1) unfolding conflict_free_def by blast
  qed
qed

lemma join_term_links [simp]: "join_term (st\<lparr>links_t := ls\<rparr>) l = join_term st l"
  by (simp add: join_term_def)

lemma conflict_free_update:
  assumes cf: "conflict_free nfc st" and keys: "unique_key ud_id (links_t st)" and one: "\<And>l. p l \<Longrightarrow> ud_id l = k"
    and joins: "\<And>m. m \<in> set (links_t st) \<Longrightarrow> join_term st1 m = join_term st m"
    and new: "\<And>x m a b. x \<in> set (links_t st) \<Longrightarrow> p x \<Longrightarrow> m \<in> set (links_t st) \<Longrightarrow> ud_id m \<noteq> k \<Longrightarrow> same_group m (f x)
      \<Longrightarrow> join_term st1 (f x) = Some a \<Longrightarrow> join_term st m = Some b \<Longrightarrow> \<not> clash nfc b a"
  shows "conflict_free nfc (st1\<lparr>links_t := update_where p f (links_t st)\<rparr>)"
proof (cases "\<exists>x \<in> set (links_t st). p x")
  case True
  then obtain x where x: "x \<in> set (links_t st)" "p x" by blast
  have other: "m \<in> set (links_t st) \<and> ud_id m \<noteq> k" if m: "m \<in> set (update_where p f (links_t st))" "m \<noteq> f x" for m
  proof -
    obtain q where q: "q \<in> set (links_t st)" "m = (if p q then f q else q)" using m(1) unfolding in_update_where by auto
    have "ud_id q \<noteq> k \<or> q = x" using unique_key_eq [OF keys q(1) x(1)] one [OF x(2)] by auto
    then show ?thesis using q m(2) x(2) one [of q] by (cases "p q") auto
  qed
  show ?thesis
  proof (rule conflict_free_step [OF cf, where l = "f x"])
    fix m assume m: "m \<in> set (links_t (st1\<lparr>links_t := update_where p f (links_t st)\<rparr>))" "m \<noteq> f x"
    then have old: "m \<in> set (links_t st)" "ud_id m \<noteq> k" using other [of m] by simp_all
    then show "m \<in> set (links_t st) \<and> join_term (st1\<lparr>links_t := update_where p f (links_t st)\<rparr>) m = join_term st m"
      using joins by simp
    fix a b assume "same_group m (f x)" "join_term (st1\<lparr>links_t := update_where p f (links_t st)\<rparr>) (f x) = Some a"
      "join_term (st1\<lparr>links_t := update_where p f (links_t st)\<rparr>) m = Some b"
    then show "\<not> clash nfc b a" using new [OF x old, of a b] joins [OF old(1)] by simp
  qed
next
  case False
  then have "update_where p f (links_t st) = links_t st" by (intro update_where_none) blast
  then show ?thesis using cf joins by (simp add: conflict_free_def)
qed

text \<open>The term row that a normalized input is mapped to, if it is spelled alike.\<close>

lemma upsert_alike:
  assumes "inj (ve_sha env)" and ok: "tables_ok env st" and v: "validateInput env input = Inr t" and i: "i \<notin> dt_id ` set (terms_t st)"
    and alike: "\<forall>r \<in> set (terms_t st). dt_dedupKey r = computeDedupKey (ve_nfc env) (ve_sha env) t \<longrightarrow>
        dt_canonical r = nt_canonical t \<and> dt_parentCanonical r = nt_parentCanonical t"
    and up: "upsertDomainTerm env t i st = ((j, c), st1)"
  shows "\<exists>r \<in> set (terms_t st1). dt_id r = j \<and> term_row_ok env r \<and> same_content (ve_nfc env) (row_input r) t
    \<and> dt_canonical r = nt_canonical t \<and> dt_parentCanonical r = nt_parentCanonical t"
proof -
  have "terms_ok env st" using ok by (simp add: tables_ok_def)
  from upsert_cases [OF assms(1) this v i up]
  obtain r where r: "r \<in> set (terms_t st1)" "dt_id r = j" "same_content (ve_nfc env) (row_input r) t"
    "row_input r = t \<or> r \<in> set (terms_t st) \<and> dt_dedupKey r = computeDedupKey (ve_nfc env) (ve_sha env) t"
    and "terms_ok env st1" by blast
  moreover have "dt_canonical r = nt_canonical t \<and> dt_parentCanonical r = nt_parentCanonical t"
    using r(4) alike by (auto simp: row_input_def)
  ultimately show ?thesis unfolding terms_ok_def by blast
qed

lemma upsert_joins:
  assumes "inj (ve_sha env)" and ok: "tables_ok env st" and v: "validateInput env input = Inr t" and i: "i \<notin> dt_id ` set (terms_t st)"
    and up: "upsertDomainTerm env t i st = ((j, c), st1)" and m: "m \<in> set (links_t st)"
  shows "join_term st1 m = join_term st m"
proof -
  have st: "terms_ok env st" "links_ok st" using ok by (simp_all add: tables_ok_def)
  note u = upsert_cases [OF assms(1) st(1) v i up]
  obtain r where "r \<in> set (terms_t st)" "dt_id r = ud_termId m" using st(2) m unfolding links_ok_def link_typed_def by blast
  then show ?thesis using join_term_at [OF st(1), of r m] join_term_at [of env st1 r m] u by auto
qed

lemma add_keeps_free:
  assumes "inj (ve_sha env)" and nfc: "\<And>x. ve_nfc env x = [] \<longleftrightarrow> x = []" and ok: "tables_ok env st" and cf: "conflict_free (ve_nfc env) st"
    and v: "validateInput env input = Inr t" and i: "i \<notin> dt_id ` set (terms_t st)" and "k \<notin> ud_id ` set (links_t st)"
    and "os_type owner = UserOwned \<longrightarrow> os_id owner = u" and alike: "spelled_alike env (Commit_add u owner t m i k) st"
  shows "conflict_free (ve_nfc env) (snd (add_tx env u owner t m i k st))"
proof -
  obtain j c st1 where up: "upsertDomainTerm env t i st = ((j, c), st1)" by (metis prod.exhaust)
  note links = upsert_links [OF up]
  note joins = upsert_joins [OF assms(1) ok v i up]
  obtain r where r: "r \<in> set (terms_t st1)" "dt_id r = j" "term_row_ok env r" "same_content (ve_nfc env) (row_input r) t"
    "dt_canonical r = nt_canonical t" "dt_parentCanonical r = nt_parentCanonical t"
    using upsert_alike [OF assms(1) ok v i _ up] alike by auto
  have st1: "terms_ok env st1" using upsert_cases [OF assms(1) _ v i up] ok by (simp add: tables_ok_def)
  let ?l = "new_link k u owner t j"
  have l: "owner_of ?l = scope_of owner" "ud_domain ?l = nt_domain t" "ud_locale ?l = nt_locale t" "ud_kind ?l = nt_kind t" "ud_termId ?l = j"
    using assms(8) by (cases "os_type owner"; simp add: owner_of_def scope_of_def new_link_def)+
  have free: "conflict_free (ve_nfc env) (st1\<lparr>links_t := insert_row ?l (links_t st1)\<rparr>)"
    if none: "assertNoScopeConflict (ve_nfc env) st owner (term_candidate [] t) None = []"
  proof (rule conflict_free_step [OF cf, where l = ?l])
    fix n assume n: "n \<in> set (links_t (st1\<lparr>links_t := insert_row ?l (links_t st1)\<rparr>))" "n \<noteq> ?l"
    then have old: "n \<in> set (links_t st)" using links by simp
    then show "n \<in> set (links_t st) \<and> join_term (st1\<lparr>links_t := insert_row ?l (links_t st1)\<rparr>) n = join_term st n" using joins by simp
    fix a b assume grp: "same_group n ?l" and a: "join_term (st1\<lparr>links_t := insert_row ?l (links_t st1)\<rparr>) ?l = Some a"
      and b: "join_term (st1\<lparr>links_t := insert_row ?l (links_t st1)\<rparr>) n = Some b"
    have "\<not> clash (ve_nfc env) b (term_candidate [] t)"
      by (rule no_scope_conflict [OF none old]) (use grp b l joins [OF old] in \<open>simp_all add: same_group_def term_candidate_def\<close>)
    moreover have "clash (ve_nfc env) b a = clash (ve_nfc env) b (term_candidate [] t)"
      by (rule clash_like_candidate [OF nfc v r(3-6)]) (use a l join_term_at [OF st1 r(1), of ?l] r(2) in auto)
    ultimately show "\<not> clash (ve_nfc env) b a" by simp
  qed
  then show ?thesis using cf by (simp add: add_tx_def up Let_def)
qed

lemma modify_keeps_free:
  assumes "inj (ve_sha env)" and nfc: "\<And>x. ve_nfc env x = [] \<longleftrightarrow> x = []" and ok: "tables_ok env st" and cf: "conflict_free (ve_nfc env) st"
    and v: "validateInput env input = Inr t" and i: "i \<notin> dt_id ` set (terms_t st)" and alike: "spelled_alike env (Commit_modify owner k t i) st"
  shows "conflict_free (ve_nfc env) (snd (modify_tx env owner k t i st))"
proof -
  obtain j c st1 where up: "upsertDomainTerm env t i st = ((j, c), st1)" by (metis prod.exhaust)
  note links = upsert_links [OF up]
  note joins = upsert_joins [OF assms(1) ok v i up]
  obtain r where r: "r \<in> set (terms_t st1)" "dt_id r = j" "term_row_ok env r" "same_content (ve_nfc env) (row_input r) t"
    "dt_canonical r = nt_canonical t" "dt_parentCanonical r = nt_parentCanonical t"
    using upsert_alike [OF assms(1) ok v i _ up] alike by auto
  have st1: "terms_ok env st1" using upsert_cases [OF assms(1) _ v i up] ok by (simp add: tables_ok_def)
  let ?p = "\<lambda>l. ownerPredicate owner l \<and> ud_id l = k \<and> active_link l"
  have free: "conflict_free (ve_nfc env) (st1\<lparr>links_t := update_where ?p (repoint t j) (links_t st)\<rparr>)"
    if none: "assertNoScopeConflict (ve_nfc env) st owner (term_candidate [] t) (Some k) = []"
  proof (rule conflict_free_update [OF cf, where k = k])
    fix x n a b assume p: "ownerPredicate owner x \<and> ud_id x = k \<and> active_link x" and n: "n \<in> set (links_t st)" "ud_id n \<noteq> k"
      and grp: "same_group n (repoint t j x)" and a: "join_term st1 (repoint t j x) = Some a" and b: "join_term st n = Some b"
    have l: "ud_domain (repoint t j x) = nt_domain t" "ud_locale (repoint t j x) = nt_locale t" "ud_kind (repoint t j x) = nt_kind t"
      "ud_termId (repoint t j x) = j" by (simp_all add: repoint_def)
    have "\<not> clash (ve_nfc env) b (term_candidate [] t)"
      by (rule no_scope_conflict [OF none n(1)])
        (use grp b l n(2) p in \<open>simp_all add: same_group_def term_candidate_def ownerPredicate_iff\<close>)
    moreover have "clash (ve_nfc env) b a = clash (ve_nfc env) b (term_candidate [] t)"
      by (rule clash_like_candidate [OF nfc v r(3-6)]) (use a l join_term_at [OF st1 r(1), of "repoint t j x"] r(2) in auto)
    ultimately show "\<not> clash (ve_nfc env) b a" by simp
  qed (use ok joins in \<open>auto simp: tables_ok_def links_ok_def\<close>)
  then show ?thesis using cf by (simp add: modify_tx_def up Let_def links)
qed

lemma delete_keeps_free:
  assumes ok: "tables_ok env st" and cf: "conflict_free nfc st"
  shows "conflict_free nfc (snd (delete_tx u k r owner now st))"
proof -
  let ?p = "\<lambda>l. ownerPredicate owner l \<and> ud_id l = k \<and> active_link l"
  let ?f = "\<lambda>l. l\<lparr>ud_deletedAt := Some now, ud_deletedBy := Some u, ud_deletedReason := truncateForAudit r\<rparr>"
  have "conflict_free nfc (st\<lparr>links_t := update_where ?p ?f (links_t st)\<rparr>)"
    by (rule conflict_free_update [OF cf, where k = k])
      (use ok in \<open>auto simp: tables_ok_def links_ok_def same_group_def active_link_def\<close>)
  then show ?thesis by (simp add: delete_tx_def Let_def)
qed

lemma join_undelete: "join_term st (undelete l) = join_term st l"
  by (simp add: join_term_def undelete_def)

lemma undelete_scope: "ud_domain (undelete l) = ud_domain l" "ud_locale (undelete l) = ud_locale l"
  by (simp_all add: undelete_def)

lemma restore_keeps_free:
  assumes ok: "tables_ok env st" and cf: "conflict_free (ve_nfc env) st" and current: "spelled_alike env (Commit_restore d k owner) st"
  shows "conflict_free (ve_nfc env) (snd (restore_tx (ve_nfc env) d k owner st))"
proof -
  let ?p = "\<lambda>l. ownerPredicate owner l \<and> ud_id l = k \<and> ud_deletedAt l \<noteq> None \<and> ud_archivedAt l = None"
  have "conflict_free (ve_nfc env) (st\<lparr>links_t := update_where ?p undelete (links_t st)\<rparr>)"
    if none: "assertNoScopeConflict (ve_nfc env) st owner d (Some k) = []"
  proof (rule conflict_free_update [OF cf, where k = k])
    fix x n a b assume x: "x \<in> set (links_t st)" and p: "?p x" and n: "n \<in> set (links_t st)" "ud_id n \<noteq> k"
      and grp: "same_group n (undelete x)" and a: "join_term st (undelete x) = Some a" and b: "join_term st n = Some b"
    have d: "a = d" using current x p a by (simp add: join_undelete)
    then have scope: "jr_domain d = ud_domain x" "jr_locale d = ud_locale x" using a by (auto simp: join_term_def undelete_def)
    have "\<not> clash (ve_nfc env) b d"
      by (rule no_scope_conflict [OF none n(1)])
        (use grp b p n(2) scope in \<open>simp_all add: same_group_def ownerPredicate_iff undelete_scope\<close>)
    then show "\<not> clash (ve_nfc env) b a" using d by simp
  qed (use ok in \<open>auto simp: tables_ok_def links_ok_def\<close>)
  then show ?thesis using cf by (simp add: restore_tx_def Let_def)
qed

lemma commit_keeps_free:
  assumes "inj (ve_sha env)" and "\<And>x. ve_nfc env x = [] \<longleftrightarrow> x = []" and "tables_ok env st" and "conflict_free (ve_nfc env) st"
    and c: "checked env c st" "spelled_alike env c st"
  shows "conflict_free (ve_nfc env) (commit env c st)"
proof (cases c)
  case (Commit_add u owner t m i k)
  then obtain input where "validateInput env input = Inr t" using c(1) by auto
  then show ?thesis using add_keeps_free [OF assms(1-4)] c unfolding Commit_add by auto
next
  case (Commit_modify owner k t i)
  then obtain input where "validateInput env input = Inr t" using c(1) by auto
  then show ?thesis using modify_keeps_free [OF assms(1-4)] c unfolding Commit_modify by auto
next
  case (Commit_delete u k r owner now)
  then show ?thesis using delete_keeps_free [OF assms(3,4)] by simp
next
  case (Commit_restore d k owner)
  then show ?thesis using restore_keeps_free [OF assms(3,4)] c by simp
qed

lemma vocab_reach_free:
  assumes "inj (ve_sha env)" and "\<And>x. ve_nfc env x = [] \<longleftrightarrow> x = []" and "vocab_reach env (spelled_alike env) st"
  shows "conflict_free (ve_nfc env) st"
  using assms(3)
proof induction
  case (start st)
  then show ?case by (simp add: conflict_free_def)
next
  case (commit st c)
  show ?case
    by (rule commit_keeps_free [OF assms(1,2) vocab_reach_tables [OF assms(1) commit.hyps(1)] commit.IH commit.hyps(2,3)])
next
  case (other st st')
  have "join_term st' l = join_term st l" for l using other.hyps(2) by (simp add: join_term_def)
  then show ?case using other.IH other.hyps(3) by (simp add: conflict_free_def)
qed

end
