(* ===== verification/TermProperties.thy ===== *)
theory TermProperties
  imports TermFacts
begin

text \<open>
  The properties of the vocabulary editor, and two things it does not keep: a restoration does not
  look at the quota, and a reused global term can bring a spelling that conflicts.
\<close>

section \<open>A small vocabulary\<close>

definition sample_env :: vocab_env where
  "sample_env = \<lparr>ve_canonicalLocale = Some, ve_nfc = id, ve_validate = (\<lambda>_. (True, [], [])), ve_sha = id,
     ve_quota = (\<lambda>_. \<lparr>lq_maxTerms = 1, lq_bulkAsync = False, lq_allowed = True, lq_plan = Pro, lq_downgraded = False, lq_trialEndsAt = None\<rparr>)\<rparr>"

definition sample_input :: "string \<Rightarrow> string \<Rightarrow> string list \<Rightarrow> term_input" where
  "sample_input canonical localized aliases =
     \<lparr>ti_domain = ''loan'', ti_locale = ''de'', ti_kind = KStruct, ti_canonical = canonical, ti_localized = localized,
      ti_parentCanonical = None, ti_description = None, ti_aliases = Some aliases\<rparr>"

definition sample_term :: "string \<Rightarrow> string \<Rightarrow> string list \<Rightarrow> normalized_term" where
  "sample_term canonical localized aliases =
     \<lparr>nt_domain = ''loan'', nt_locale = ''de'', nt_kind = KStruct, nt_canonical = canonical, nt_canonicalNorm = js_lower canonical,
      nt_localized = localized, nt_localizedNorm = localized, nt_parentCanonical = None, nt_parentCanonicalNorm = [],
      nt_description = None, nt_aliases = aliases\<rparr>"

lemmas check_defs = validateInput_def validateNormalized_def normalizeTermInput_def applyVocabularyScopeFormat_def checkVocabularyScope_def
  isValidVocabularyDomain_def domain_segment_def canonicalizeVocabularyLocale_def locale_charset_def checkTermBounds_def
  domainTermValues_def too_long_def js_length_def utf16_units_def js_trim_def is_space_def js_lower_def lower_char_def normalizeText_def
  nfcTrim_def requiresParent_def is_lower_letter_def is_upper_letter_def is_digit_def map_filter_def
  VOCAB_DOMAIN_MAX_LENGTH_def VOCAB_TERM_MAX_ALIASES_def VOCAB_TERM_MAX_TEXT_LENGTH_def

lemma sample_valid:
  "validateInput sample_env (sample_input ''Loan'' ''Kredit'' []) = Inr (sample_term ''Loan'' ''Kredit'' [])"
  "validateInput sample_env (sample_input ''loan'' ''Darlehen'' [''Kredit'']) = Inr (sample_term ''loan'' ''Darlehen'' [''Kredit''])"
  "validateInput sample_env (sample_input ''loan'' ''Kredit'' []) = Inr (sample_term ''loan'' ''Kredit'' [])"
  by (simp_all add: check_defs sample_env_def sample_input_def sample_term_def Let_def)

lemma sample_env_simps [simp]: "ve_sha sample_env = id" "ve_nfc sample_env = id"
  by (simp_all add: sample_env_def)

section \<open>The key and the rows\<close>

text \<open>
  C18: Two normalized terms get the same key exactly if they agree in domain, locale, kind, folded
  canonical name, written form, folded parent, the set of their written aliases, and the description.
\<close>

theorem dedup_key_tells_terms_apart:
  assumes "inj sha"
  shows "computeDedupKey nfc sha a = computeDedupKey nfc sha b \<longleftrightarrow>
    nt_domain a = nt_domain b \<and> nt_locale a = nt_locale b \<and> nt_kind a = nt_kind b
    \<and> nt_canonicalNorm a = nt_canonicalNorm b \<and> nt_localizedNorm a = nt_localizedNorm b
    \<and> nt_parentCanonicalNorm a = nt_parentCanonicalNorm b
    \<and> {nfcTrim nfc x |x. x \<in> set (nt_aliases a)} - {[]} = {nfcTrim nfc x |x. x \<in> set (nt_aliases b)} - {[]}
    \<and> dedup_description (nt_description a) = dedup_description (nt_description b)"
  unfolding computeDedupKey_eq_iff [OF assms] same_content_def ..

theorem dedup_key_tells_terms_apart_witness:
  "computeDedupKey id id (sample_term ''Loan'' ''Kredit'' [''A'', ''B'']) = computeDedupKey id id (sample_term ''loan'' ''Kredit'' [''B'', ''A'', ''B''])
   \<and> computeDedupKey id id (sample_term ''Loan'' ''Kredit'' []) \<noteq> computeDedupKey id id (sample_term ''Loan'' ''kredit'' [])"
proof
  have "js_lower ''Loan'' = ''loan''" "js_lower ''loan'' = ''loan''" by code_simp+
  then show "computeDedupKey id id (sample_term ''Loan'' ''Kredit'' [''A'', ''B'']) = computeDedupKey id id (sample_term ''loan'' ''Kredit'' [''B'', ''A'', ''B''])"
    unfolding dedup_key_tells_terms_apart [OF inj_on_id] by (auto simp: sample_term_def)
  show "computeDedupKey id id (sample_term ''Loan'' ''Kredit'' []) \<noteq> computeDedupKey id id (sample_term ''Loan'' ''kredit'' [])"
    unfolding dedup_key_tells_terms_apart [OF inj_on_id] by (simp add: sample_term_def)
qed

lemma add_tx_new:
  assumes "m = - 1 \<or> int (countActiveUserVocabularyTerms st owner) < m" and "assertNoScopeConflict (ve_nfc env) st owner (term_candidate [] t) None = []"
    and "find_first (\<lambda>r. dt_dedupKey r = computeDedupKey (ve_nfc env) (ve_sha env) t) (terms_t st) = None"
    and "\<not> active_link_taken st (new_link k u owner t i)"
  shows "add_tx env u owner t m i k st = (Inr (k, True),
    st\<lparr>terms_t := insert_row (domainTermValues i t (computeDedupKey (ve_nfc env) (ve_sha env) t)) (terms_t st),
       links_t := insert_row (new_link k u owner t i) (links_t st)\<rparr>)"
proof -
  have "active_link_taken (st\<lparr>terms_t := ts\<rparr>) l = active_link_taken st l" for ts l by (simp add: active_link_taken_def)
  then show ?thesis using assms by (auto simp: add_tx_def lockUserQuotaAndCountRemaining_def upsertDomainTerm_def Let_def)
qed

lemma no_conflict_in_empty_group:
  "loadGroupTermRows st owner (jr_domain c) (jr_locale c) = [] \<Longrightarrow> assertNoScopeConflict nfc st owner c ex = []"
  by (simp add: assertNoScopeConflict_def no_term_conflicts_iff)

definition one_term :: store where
  "one_term = commit sample_env (Commit_add ''u1'' (userOwner ''u1'') (sample_term ''Loan'' ''Kredit'' []) 1 ''t1'' ''l1'') empty_store"

lemma one_term_eq:
  "one_term = empty_store\<lparr>terms_t := [domainTermValues ''t1'' (sample_term ''Loan'' ''Kredit'' []) (computeDedupKey id id (sample_term ''Loan'' ''Kredit'' []))],
     links_t := [new_link ''l1'' ''u1'' (userOwner ''u1'') (sample_term ''Loan'' ''Kredit'' []) ''t1'']\<rparr>"
proof -
  have "assertNoScopeConflict id empty_store (userOwner ''u1'') (term_candidate [] (sample_term ''Loan'' ''Kredit'' [])) None = []"
    by (rule no_conflict_in_empty_group) (simp add: loadGroupTermRows_def empty_store_def select_where_def map_filter_def)
  then show ?thesis unfolding one_term_def commit.simps
    by (subst add_tx_new)
      (simp_all add: countActiveUserVocabularyTerms_def empty_store_def active_link_taken_def insert_row_def)
qed

lemma one_term_checked:
  "checked sample_env (Commit_add ''u1'' (userOwner ''u1'') (sample_term ''Loan'' ''Kredit'' []) 1 ''t1'' ''l1'') empty_store"
  using sample_valid(1) by (auto simp: empty_store_def userOwner_def)

lemma one_term_reach:
  assumes "allowed (Commit_add ''u1'' (userOwner ''u1'') (sample_term ''Loan'' ''Kredit'' []) 1 ''t1'' ''l1'') empty_store"
  shows "vocab_reach sample_env allowed one_term"
proof -
  have "vocab_reach sample_env allowed empty_store" by (rule vocab_reach.start) (simp_all add: empty_store_def)
  then show ?thesis unfolding one_term_def using one_term_checked assms by (rule vocab_reach.commit)
qed

text \<open>
  C13: However edits overlap, every stored term row has a valid domain, a name, a written form,
  bounded texts and, if its kind needs one, a parent, was accepted by the engine, and carries the
  key of its own content; every link points to exactly one term, of the link's own domain, locale and
  kind; and no owner has two active links to one term.
\<close>

theorem vocabulary_rows_are_well_typed:
  assumes "inj (ve_sha env)" and "vocab_reach env (\<lambda>_ _. True) st"
  shows "(\<forall>r \<in> set (terms_t st). dt_canonical r \<noteq> [] \<and> dt_localized r \<noteq> [] \<and> isValidVocabularyDomain (dt_domain r) \<and> dt_locale r \<noteq> []
      \<and> (requiresParent (dt_kind r) \<longrightarrow> truthy (dt_parentCanonical r)) \<and> checkTermBounds r = []
      \<and> fst (ve_validate env (assembleDomainVocabularyFromLinks [term_candidate [] (row_input r)] (Some (dt_domain r)) (Some (dt_locale r))))
      \<and> dt_dedupKey r = computeDedupKey (ve_nfc env) (ve_sha env) (row_input r))
    \<and> unique_key dt_dedupKey (terms_t st)
    \<and> (\<forall>l \<in> set (links_t st). \<exists>!r. r \<in> set (terms_t st) \<and> dt_id r = ud_termId l
        \<and> dt_domain r = ud_domain l \<and> dt_locale r = ud_locale l \<and> dt_kind r = ud_kind l)
    \<and> (\<forall>l \<in> set (links_t st). active_link l \<longrightarrow> \<not> active_link_taken st l)"
proof -
  have ok: "terms_ok env st" "links_ok st" using vocab_reach_tables [OF assms] by (simp_all add: tables_ok_def)
  have bounds: "checkTermBounds r = checkTermBounds (domainTermValues [] (row_input r) [])" for r
    by (simp add: checkTermBounds_def domainTermValues_def row_input_def)
  have rows: "\<forall>r \<in> set (terms_t st). input_ok env (row_input r) \<and> dt_dedupKey r = computeDedupKey (ve_nfc env) (ve_sha env) (row_input r)"
    using ok(1) by (simp add: terms_ok_def term_row_ok_def)
  have "\<forall>r \<in> set (terms_t st). dt_canonical r \<noteq> [] \<and> dt_localized r \<noteq> [] \<and> isValidVocabularyDomain (dt_domain r) \<and> dt_locale r \<noteq> []
      \<and> (requiresParent (dt_kind r) \<longrightarrow> truthy (dt_parentCanonical r)) \<and> checkTermBounds r = []
      \<and> fst (ve_validate env (assembleDomainVocabularyFromLinks [term_candidate [] (row_input r)] (Some (dt_domain r)) (Some (dt_locale r))))
      \<and> dt_dedupKey r = computeDedupKey (ve_nfc env) (ve_sha env) (row_input r)"
    using rows bounds unfolding input_ok_def by (simp add: row_input_def)
  moreover have "unique_key dt_dedupKey (terms_t st)" using ok(1) by (simp add: terms_ok_def)
  moreover have "\<exists>!r. r \<in> set (terms_t st) \<and> dt_id r = ud_termId l \<and> dt_domain r = ud_domain l \<and> dt_locale r = ud_locale l \<and> dt_kind r = ud_kind l"
    if "l \<in> set (links_t st)" for l
    using ok that unique_key_eq [of dt_id "terms_t st"] unfolding terms_ok_def links_ok_def link_typed_def by (metis (no_types, lifting))
  moreover have "\<not> active_link_taken st l" if "l \<in> set (links_t st)" "active_link l" for l
    using ok(2) that unfolding links_ok_def active_link_taken_iff by metis
  ultimately show ?thesis by blast
qed

theorem vocabulary_rows_are_well_typed_witness:
  "links_t one_term = [new_link ''l1'' ''u1'' (userOwner ''u1'') (sample_term ''Loan'' ''Kredit'' []) ''t1'']
   \<and> unique_key dt_dedupKey (terms_t one_term) \<and> \<not> active_link_taken one_term (hd (links_t one_term))"
proof -
  have "vocab_reach sample_env (\<lambda>_ _. True) one_term" by (rule one_term_reach) simp
  note typed = vocabulary_rows_are_well_typed [OF _ this]
  have links: "links_t one_term = [new_link ''l1'' ''u1'' (userOwner ''u1'') (sample_term ''Loan'' ''Kredit'' []) ''t1'']" by (simp add: one_term_eq)
  moreover have "active_link (hd (links_t one_term))" by (simp add: links new_link_def active_link_def)
  ultimately show ?thesis using typed by simp
qed

section \<open>Quotas\<close>

text \<open>
  C14: However additions, changes and deletions overlap, an owner never has more active terms than the
  quota under which his additions were made.
\<close>

theorem vocabulary_stays_within_quota:
  assumes "vocab_reach env (within_quota q) st" and "\<And>owner. 0 \<le> q owner"
  shows "int (countActiveUserVocabularyTerms st owner) \<le> q owner"
  using assms(1)
proof (induction arbitrary: owner)
  case (start st)
  then show ?case using assms(2) by (simp add: countActiveUserVocabularyTerms_def)
next
  case (commit st c)
  show ?case
  proof (cases c)
    case (Commit_add u o' t m i k)
    then show ?thesis using commit by (auto intro: add_count)
  next
    case (Commit_modify o' k t i)
    then show ?thesis using commit.IH by (simp add: modify_count)
  next
    case (Commit_delete u k r o' now)
    then show ?thesis using commit.IH [of owner] delete_count [of u k r o' now st owner] by simp
  next
    case (Commit_restore d k o')
    then show ?thesis using commit.hyps(3) by simp
  qed
next
  case (other st st')
  then show ?case by (simp add: countActiveUserVocabularyTerms_def)
qed

theorem vocabulary_stays_within_quota_witness:
  "int (countActiveUserVocabularyTerms one_term (userOwner ''u1'')) \<le> 1 \<and> countActiveUserVocabularyTerms one_term (userOwner ''u1'') = 1"
proof
  show "int (countActiveUserVocabularyTerms one_term (userOwner ''u1'')) \<le> 1"
    by (rule vocabulary_stays_within_quota [where q = "\<lambda>_. 1", OF one_term_reach]) simp_all
  show "countActiveUserVocabularyTerms one_term (userOwner ''u1'') = 1"
    by (simp add: one_term_eq countActiveUserVocabularyTerms_def new_link_def userOwner_def ownerPredicate_def active_link_def)
qed

text \<open>The only term of a full vocabulary is deleted, another one takes its place, and the first is restored.\<close>

definition full_store :: store where
  "full_store = snd (delete_tx ''u1'' ''l1'' None (userOwner ''u1'') 5 one_term)"

definition other_term :: normalized_term where "other_term = sample_term ''Rate'' ''Zins'' []"

definition refilled_store :: store where
  "refilled_store = commit sample_env (Commit_add ''u1'' (userOwner ''u1'') other_term 1 ''t2'' ''l2'') full_store"

lemma full_store_eq:
  "full_store = one_term\<lparr>links_t := [(new_link ''l1'' ''u1'' (userOwner ''u1'') (sample_term ''Loan'' ''Kredit'' []) ''t1'')
      \<lparr>ud_deletedAt := Some 5, ud_deletedBy := Some ''u1'', ud_deletedReason := None\<rparr>]\<rparr>"
  by (simp add: full_store_def delete_tx_def one_term_eq new_link_def userOwner_def ownerPredicate_def active_link_def truncateForAudit_def)

lemma keys_differ: "computeDedupKey id id (sample_term ''Loan'' ''Kredit'' []) \<noteq> computeDedupKey id id other_term"
  unfolding computeDedupKey_eq_iff [OF inj_on_id] by (simp add: same_content_def sample_term_def other_term_def)

lemma refilled_store_eq:
  "refilled_store = full_store\<lparr>
     terms_t := insert_row (domainTermValues ''t2'' other_term (computeDedupKey id id other_term)) (terms_t full_store),
     links_t := insert_row (new_link ''l2'' ''u1'' (userOwner ''u1'') other_term ''t2'') (links_t full_store)\<rparr>"
proof -
  have "assertNoScopeConflict id full_store (userOwner ''u1'') (term_candidate [] other_term) None = []"
    by (rule no_conflict_in_empty_group) (simp add: loadGroupTermRows_def full_store_eq select_where_def map_filter_def active_link_def)
  moreover have "countActiveUserVocabularyTerms full_store (userOwner ''u1'') = 0"
    by (simp add: countActiveUserVocabularyTerms_def full_store_eq active_link_def)
  ultimately show ?thesis unfolding refilled_store_def commit.simps using keys_differ
    by (subst add_tx_new) (simp_all add: full_store_eq one_term_eq domainTermValues_def active_link_taken_def active_link_def)
qed

text \<open>
  A restoration does not look at the quota: under a quota of one term, the owner ends up with two
  active ones.
\<close>

theorem restore_exceeds_quota:
  "case restoreUserVocabularyTerm id ''u1'' ''l1'' (userOwner ''u1'') refilled_store of
     (Inr _, st) \<Rightarrow> lq_maxTerms (ve_quota sample_env ''u1'') = 1 \<and> countActiveUserVocabularyTerms st (userOwner ''u1'') = 2
   | (Inl _, st) \<Rightarrow> False"
  by (simp add: restoreUserVocabularyTerm_def restore_tx_def getTermLink_def refilled_store_eq full_store_eq one_term_eq insert_row_def
    new_link_def userOwner_def ownerPredicate_def active_link_def active_link_taken_def undelete_def join_term_def domainTermValues_def
    assertNoScopeConflict_def no_term_conflicts_iff loadGroupTermRows_def select_where_def map_filter_def clash_def written_forms_def
    other_term_def sample_term_def Let_def countActiveUserVocabularyTerms_def sample_env_def)

section \<open>Freedom of conflicts\<close>



definition alias_term :: normalized_term where "alias_term = sample_term ''loan'' ''Darlehen'' [''Kredit'']"

definition plain_term :: normalized_term where "plain_term = sample_term ''loan'' ''Kredit'' []"

definition two_owners :: store where
  "two_owners = commit sample_env (Commit_add ''u2'' (userOwner ''u2'') alias_term 5 ''t2'' ''l2'') one_term"

lemma plain_keys:
  "computeDedupKey id id plain_term = computeDedupKey id id (sample_term ''Loan'' ''Kredit'' [])"
  "computeDedupKey id id (sample_term ''Loan'' ''Kredit'' []) \<noteq> computeDedupKey id id alias_term"
proof -
  have "js_lower ''Loan'' = ''loan''" "js_lower ''loan'' = ''loan''" by code_simp+
  then show "computeDedupKey id id plain_term = computeDedupKey id id (sample_term ''Loan'' ''Kredit'' [])"
    unfolding computeDedupKey_eq_iff [OF inj_on_id] by (simp add: same_content_def sample_term_def plain_term_def)
  show "computeDedupKey id id (sample_term ''Loan'' ''Kredit'' []) \<noteq> computeDedupKey id id alias_term"
    unfolding computeDedupKey_eq_iff [OF inj_on_id] by (simp add: same_content_def sample_term_def alias_term_def)
qed

lemma two_owners_eq:
  "two_owners = one_term\<lparr>
     terms_t := insert_row (domainTermValues ''t2'' alias_term (computeDedupKey id id alias_term)) (terms_t one_term),
     links_t := insert_row (new_link ''l2'' ''u2'' (userOwner ''u2'') alias_term ''t2'') (links_t one_term)\<rparr>"
proof -
  have other: "\<not> ownerPredicate (userOwner ''u2'') l" if "l \<in> set (links_t one_term)" for l
    using that by (simp add: one_term_eq new_link_def userOwner_def ownerPredicate_def)
  have "assertNoScopeConflict id one_term (userOwner ''u2'') (term_candidate [] alias_term) None = []"
    by (rule no_conflict_in_empty_group) (simp add: loadGroupTermRows_def one_term_eq select_where_def map_filter_def new_link_def userOwner_def ownerPredicate_def)
  moreover have "countActiveUserVocabularyTerms one_term (userOwner ''u2'') = 0"
    using other by (simp add: countActiveUserVocabularyTerms_def count_where_0)
  ultimately show ?thesis unfolding two_owners_def commit.simps using plain_keys
    by (subst add_tx_new) (simp_all add: one_term_eq domainTermValues_def active_link_taken_def new_link_def userOwner_def)
qed

definition row_of :: "row_id \<Rightarrow> string \<Rightarrow> string \<Rightarrow> string list \<Rightarrow> joined_row" where
  "row_of i canonical localized aliases =
     \<lparr>jr_termId = i, jr_domain = ''loan'', jr_locale = ''de'', jr_kind = KStruct, jr_canonical = canonical, jr_localized = localized,
      jr_parentCanonical = None, jr_aliases = aliases, jr_description = None\<rparr>"

lemmas group_defs = loadGroupTermRows_def insert_row_def new_link_def userOwner_def ownerPredicate_def active_link_def select_where_def
  map_filter_def join_term_def domainTermValues_def sample_term_def plain_term_def alias_term_def row_of_def

lemma two_owners_group: "loadGroupTermRows two_owners (userOwner ''u2'') ''loan'' ''de'' = [(''l2'', row_of ''t2'' ''loan'' ''Darlehen'' [''Kredit''])]"
  by (simp add: two_owners_eq one_term_eq group_defs)

lemma plain_candidate: "term_candidate [] plain_term = row_of [] ''loan'' ''Kredit'' []"
  by (simp add: term_candidate_def plain_term_def sample_term_def row_of_def)

lemma reused_eq:
  "add_tx sample_env ''u2'' (userOwner ''u2'') plain_term 5 ''t3'' ''l3'' two_owners =
     (Inr (''l3'', False), two_owners\<lparr>links_t := insert_row (new_link ''l3'' ''u2'' (userOwner ''u2'') plain_term ''t1'') (links_t two_owners)\<rparr>)"
proof -
  have "assertNoScopeConflict id two_owners (userOwner ''u2'') (row_of [] ''loan'' ''Kredit'' []) None = []"
    using two_owners_group by (simp add: assertNoScopeConflict_def no_term_conflicts_iff clash_def row_of_def)
  moreover have "upsertDomainTerm sample_env plain_term ''t3'' two_owners = ((''t1'', False), two_owners)"
    using plain_keys by (simp add: upsertDomainTerm_def two_owners_eq one_term_eq insert_row_def domainTermValues_def)
  moreover have "countActiveUserVocabularyTerms two_owners (userOwner ''u2'') = 1"
    by (simp add: countActiveUserVocabularyTerms_def two_owners_eq one_term_eq new_link_def userOwner_def ownerPredicate_def active_link_def)
  moreover have "\<not> active_link_taken two_owners (new_link ''l3'' ''u2'' (userOwner ''u2'') plain_term ''t1'')"
    by (simp add: active_link_taken_def two_owners_eq one_term_eq insert_row_def new_link_def userOwner_def)
  ultimately show ?thesis by (simp add: add_tx_def lockUserQuotaAndCountRemaining_def plain_candidate)
qed

text \<open>
  Without that, an accepted addition brings a conflict: the key folds the case of the canonical name,
  so the addition of \<open>loan\<close> is linked to a row of somebody else that is called \<open>Loan\<close>, while another
  term of the owner has the same written form for \<open>loan\<close>.
\<close>

theorem reused_term_brings_conflict:
  "case add_tx sample_env ''u2'' (userOwner ''u2'') plain_term 5 ''t3'' ''l3'' two_owners of
     (Inr _, st) \<Rightarrow> findVocabularyScopeConflicts id (assembleDomainVocabularyFromLinks
        (map snd (loadGroupTermRows st (userOwner ''u2'') ''loan'' ''de'')) (Some ''loan'') (Some ''de'')) \<noteq> []
   | (Inl _, st) \<Rightarrow> False"
proof -
  let ?st = "snd (add_tx sample_env ''u2'' (userOwner ''u2'') plain_term 5 ''t3'' ''l3'' two_owners)"
  have "loadGroupTermRows ?st (userOwner ''u2'') ''loan'' ''de'' =
      [(''l2'', row_of ''t2'' ''loan'' ''Darlehen'' [''Kredit'']), (''l3'', row_of ''t1'' ''Loan'' ''Kredit'' [])]"
    unfolding reused_eq by (simp add: two_owners_eq one_term_eq group_defs)
  moreover have "clash id (row_of ''t2'' ''loan'' ''Darlehen'' [''Kredit'']) (row_of ''t1'' ''Loan'' ''Kredit'' [])"
    by (simp add: clash_def row_of_def written_forms_def scope_parent_def)
  ultimately show ?thesis unfolding no_conflicts_iff by (simp add: reused_eq)
qed

section \<open>Who may edit\<close>

lemma getTermLink_unique:
  assumes "unique_key ud_id (links_t st)" and "getTermLink st owner k incl = Some (l, j)"
  shows "l \<in> set (links_t st) \<and> ud_id l = k \<and> ownerPredicate owner l \<and> (\<forall>m \<in> set (links_t st). ud_id m = k \<longrightarrow> m = l)"
proof -
  have l: "l \<in> set (links_t st) \<and> ownerPredicate owner l \<and> ud_id l = k"
    using assms(2) by (auto simp: getTermLink_def split: option.splits dest!: find_first_Some)
  then show ?thesis using unique_key_eq [OF assms(1)] by blast
qed

lemma getTermLink_active: "getTermLink st owner k False = Some (l, j) \<Longrightarrow> unique_key ud_id (links_t st) \<Longrightarrow> getTermLink st owner k True = Some (l, j)"
proof -
  assume a: "getTermLink st owner k False = Some (l, j)" and u: "unique_key ud_id (links_t st)"
  have l: "l \<in> set (links_t st)" "ownerPredicate owner l \<and> ud_id l = k \<and> join_term st l = Some j"
    using a by (auto simp: getTermLink_def split: option.splits dest!: find_first_Some)
  have "find_first (\<lambda>l. ownerPredicate owner l \<and> ud_id l = k \<and> (True \<or> active_link l) \<and> join_term st l \<noteq> None) (links_t st) = Some l"
    by (rule find_first_unique' [OF u l(1)]) (use l(2) in auto)
  then show ?thesis using l(2) by (simp add: getTermLink_def)
qed

text \<open>A commit changes only links with the id it names.\<close>

lemma kept_by_update: "m \<in> set t \<Longrightarrow> \<not> p m \<Longrightarrow> m \<in> set (update_where p f t)"
  by (auto simp: in_update_where intro!: bexI [of _ m])

lemma kept_by_commits:
  assumes "m \<in> set (links_t st)" and "ud_id m \<noteq> k"
  shows "m \<in> set (links_t (snd (modify_tx env owner k t i st)))" "m \<in> set (links_t (snd (delete_tx u k r owner now st)))"
    "m \<in> set (links_t (snd (restore_tx nfc d k owner st)))"
proof -
  obtain j c st1 where up: "upsertDomainTerm env t i st = ((j, c), st1)" by (metis prod.exhaust)
  show "m \<in> set (links_t (snd (modify_tx env owner k t i st)))"
    using assms upsert_links [OF up] by (simp add: modify_tx_def up Let_def kept_by_update)
qed (use assms in \<open>simp_all add: delete_tx_def restore_tx_def Let_def kept_by_update\<close>)

lemma request_links:
  "links_t (snd (softDeleteUserVocabularyTerm u k r owner now st)) \<in> {links_t st, links_t (snd (delete_tx u k r owner now st))}"
  "\<exists>t. links_t (snd (modifyUserVocabularyTerm env u k input owner i st)) \<in> {links_t st, links_t (snd (modify_tx env owner k t i st))}"
  "\<exists>d. links_t (snd (restoreUserVocabularyTerm nfc u k owner st)) \<in> {links_t st, links_t (snd (restore_tx nfc d k owner st))}"
proof -
  show "links_t (snd (softDeleteUserVocabularyTerm u k r owner now st)) \<in> {links_t st, links_t (snd (delete_tx u k r owner now st))}"
    by (auto simp: softDeleteUserVocabularyTerm_def split: option.splits prod.splits)
  show "\<exists>t. links_t (snd (modifyUserVocabularyTerm env u k input owner i st)) \<in> {links_t st, links_t (snd (modify_tx env owner k t i st))}"
  proof (cases "modify_check env st owner k input")
    case (Inr x)
    obtain old t where x: "x = (old, t)" by (cases x)
    obtain res st1 where run: "modify_tx env owner k t i st = (res, st1)" by (cases "modify_tx env owner k t i st")
    show ?thesis
      by (rule exI [of _ t]) (auto simp: modifyUserVocabularyTerm_def Inr x run split: sum.splits option.splits)
  qed (simp add: modifyUserVocabularyTerm_def)
  show "\<exists>d. links_t (snd (restoreUserVocabularyTerm nfc u k owner st)) \<in> {links_t st, links_t (snd (restore_tx nfc d k owner st))}"
  proof (cases "getTermLink st owner k True")
    case (Some x)
    obtain l d where x: "x = (l, d)" by (cases x)
    obtain res st1 where run: "restore_tx nfc d k owner st = (res, st1)" by (cases "restore_tx nfc d k owner st")
    show ?thesis
      by (rule exI [of _ d]) (auto simp: restoreUserVocabularyTerm_def Some x run split: sum.splits option.splits)
  qed (simp add: restoreUserVocabularyTerm_def)
qed

lemma kept_by_requests:
  assumes "m \<in> set (links_t st)" and "ud_id m \<noteq> k"
  shows "m \<in> set (links_t (snd (modifyUserVocabularyTerm env u k input owner i st)))"
    "m \<in> set (links_t (snd (softDeleteUserVocabularyTerm u k r owner now st)))"
    "m \<in> set (links_t (snd (restoreUserVocabularyTerm nfc u k owner st)))"
proof -
  show "m \<in> set (links_t (snd (modifyUserVocabularyTerm env u k input owner i st)))"
    using request_links(2) [of env u k input owner i st] kept_by_commits(1) [OF assms] assms(1) by auto
  show "m \<in> set (links_t (snd (softDeleteUserVocabularyTerm u k r owner now st)))"
    using request_links(1) [of u k r owner now st] kept_by_commits(2) [OF assms] assms(1) by auto
  show "m \<in> set (links_t (snd (restoreUserVocabularyTerm nfc u k owner st)))"
    using request_links(3) [of nfc u k owner st] kept_by_commits(3) [OF assms] assms(1) by auto
qed

lemma unknown_link_changes_nothing:
  assumes "unique_key ud_id (links_t st)" and "getTermLink st owner k True = None"
  shows "snd (modifyUserVocabularyTerm env u k input owner i st) = st" "snd (softDeleteUserVocabularyTerm u k r owner now st) = st"
    "snd (restoreUserVocabularyTerm nfc u k owner st) = st"
proof -
  have "getTermLink st owner k False = None"
    using getTermLink_active [OF _ assms(1), of owner k] assms(2) by (cases "getTermLink st owner k False") auto
  then show "snd (modifyUserVocabularyTerm env u k input owner i st) = st" "snd (softDeleteUserVocabularyTerm u k r owner now st) = st"
    by (simp_all add: modifyUserVocabularyTerm_def modify_check_def softDeleteUserVocabularyTerm_def)
qed (use assms(2) in \<open>simp add: restoreUserVocabularyTerm_def\<close>)

text \<open>
  C15: Somebody whose edit of a team's term is let through has a role in the team that may create terms;
  if that role may not manage all terms, then changing, deleting or restoring the term leaves every
  link that somebody else created as it is.
\<close>

theorem members_edit_only_their_own_terms:
  assumes "unique_key ud_id (links_t st)" and "team \<noteq> []" and "k \<noteq> []"
    and "resolveVocabularyOwner st actor (Some team) Edit_term (Some k) = Inr owner"
  shows "owner = teamOwner team \<and> (\<exists>role. getTeamMemberRole st actor team = Some role \<and> hasPermission role VOCABULARY_CREATE
    \<and> (hasPermission role VOCABULARY_MANAGE \<or>
       (\<forall>l \<in> set (links_t st). ud_userId l = actor
          \<or> l \<in> set (links_t (snd (modifyUserVocabularyTerm env actor k input owner i st)))
            \<inter> set (links_t (snd (softDeleteUserVocabularyTerm actor k reason owner now st)))
            \<inter> set (links_t (snd (restoreUserVocabularyTerm (ve_nfc env) actor k owner st))))))"
proof -
  have ids: "or_null (Some team) = Some team" "or_null (Some k) = Some k" using assms(2,3) by (simp_all add: or_null_Some)
  obtain role where role: "getTeamMemberRole st actor team = Some role" "hasPermission role VOCABULARY_CREATE"
    using assms(4) by (auto simp: resolveVocabularyOwner_def ids checkTeamAccess_def Let_def split: option.splits if_splits)
  have owner: "owner = teamOwner team"
    using assms(4) role by (auto simp: resolveVocabularyOwner_def ids checkTeamAccess_def Let_def split: option.splits if_splits)
  have "l \<in> set (links_t (snd (modifyUserVocabularyTerm env actor k input owner i st)))
        \<inter> set (links_t (snd (softDeleteUserVocabularyTerm actor k reason owner now st)))
        \<inter> set (links_t (snd (restoreUserVocabularyTerm (ve_nfc env) actor k owner st)))"
    if l: "l \<in> set (links_t st)" "ud_userId l \<noteq> actor" and "\<not> hasPermission role VOCABULARY_MANAGE" for l
  proof (cases "getTermLink st owner k True")
    case None
    then show ?thesis using l(1) unknown_link_changes_nothing [OF assms(1)] by simp
  next
    case (Some x)
    obtain m j where x: "x = (m, j)" by (cases x)
    have "ud_userId m = actor"
      using assms(4) role that(3) Some by (auto simp: resolveVocabularyOwner_def ids checkTeamAccess_def Let_def owner x split: if_splits)
    then have "ud_id l \<noteq> k" using getTermLink_unique [OF assms(1), of owner k True m j] Some x l by auto
    then show ?thesis using kept_by_requests [OF l(1)] by blast
  qed
  then show ?thesis using owner role by blast
qed

definition team_store :: store where
  "team_store = empty_store\<lparr>
     members_t := [member_of ''m1'' ''team'' ''u1'' Member],
     terms_t := [domainTermValues ''t1'' other_term ''x'', domainTermValues ''t2'' plain_term ''y''],
     links_t := [new_link ''l1'' ''u2'' (teamOwner ''team'') other_term ''t1'', new_link ''l2'' ''u1'' (teamOwner ''team'') plain_term ''t2'']\<rparr>"

lemma team_store_links:
  "links_t team_store = [new_link ''l1'' ''u2'' (teamOwner ''team'') other_term ''t1'', new_link ''l2'' ''u1'' (teamOwner ''team'') plain_term ''t2'']"
  by (simp add: team_store_def)

lemma team_store_edit: "resolveVocabularyOwner team_store ''u1'' (Some ''team'') Edit_term (Some ''l2'') = Inr (teamOwner ''team'')"
  by (simp add: resolveVocabularyOwner_def checkTeamAccess_def getTeamMemberRole_def getTermLink_def team_store_def empty_store_def
    hasPermission_def new_link_def teamOwner_def ownerPredicate_def active_link_def join_term_def domainTermValues_def)

theorem members_edit_only_their_own_terms_witness:
  "resolveVocabularyOwner team_store ''u1'' (Some ''team'') Edit_term (Some ''l1'') = Inl Team_role_insufficient
   \<and> new_link ''l1'' ''u2'' (teamOwner ''team'') other_term ''t1''
       \<in> set (links_t (snd (softDeleteUserVocabularyTerm ''u1'' ''l2'' None (teamOwner ''team'') 5 team_store)))
   \<and> new_link ''l2'' ''u1'' (teamOwner ''team'') plain_term ''t2''
       \<notin> set (links_t (snd (softDeleteUserVocabularyTerm ''u1'' ''l2'' None (teamOwner ''team'') 5 team_store)))"
proof (intro conjI)
  show "resolveVocabularyOwner team_store ''u1'' (Some ''team'') Edit_term (Some ''l1'') = Inl Team_role_insufficient"
    by (simp add: resolveVocabularyOwner_def checkTeamAccess_def getTeamMemberRole_def getTermLink_def team_store_def empty_store_def
      hasPermission_def new_link_def teamOwner_def ownerPredicate_def active_link_def join_term_def domainTermValues_def)
  have "getTeamMemberRole team_store ''u1'' ''team'' = Some Member" by (simp add: getTeamMemberRole_def team_store_def)
  moreover have "unique_key ud_id (links_t team_store)" by (simp add: team_store_links new_link_def)
  ultimately show "new_link ''l1'' ''u2'' (teamOwner ''team'') other_term ''t1''
       \<in> set (links_t (snd (softDeleteUserVocabularyTerm ''u1'' ''l2'' None (teamOwner ''team'') 5 team_store)))"
    using members_edit_only_their_own_terms [OF _ _ _ team_store_edit, where env = sample_env and input = "sample_input ''a'' ''b'' []"
      and i = "''t3''" and reason = None and now = 5]
    by (auto simp: team_store_links hasPermission_def new_link_def)
  show "new_link ''l2'' ''u1'' (teamOwner ''team'') plain_term ''t2''
       \<notin> set (links_t (snd (softDeleteUserVocabularyTerm ''u1'' ''l2'' None (teamOwner ''team'') 5 team_store)))"
    by (simp add: softDeleteUserVocabularyTerm_def delete_tx_def getTermLink_def team_store_def new_link_def teamOwner_def ownerPredicate_def
      active_link_def join_term_def domainTermValues_def)
qed

end
