(* ===== verification/Spec2Isabelle.thy ===== *)
theory Spec2Isabelle
  imports LifecycleFacts MigrationFacts SignIn InternalSignature CronLease PolicyGroupFacts UsageFacts AiTierFacts
    IdempotencyFacts TermProperties
begin

text \<open>
  A model of the governance core of aster-cloud, the multi-tenant service that stores, versions,
  approves and runs business policies. Paths below are relative to \<open>src/src\<close>.

  The parts and how they interact. A policy belongs to a user or to a team. Team members have a
  role, and the role decides every action on a team policy (\<open>TeamRoles\<close>, \<open>TeamRoutes\<close>,
  \<open>PolicyAccess\<close>). A policy has a chain of immutable versions; a version is submitted, approved by
  somebody else and then executed (\<open>VersionManager\<close>, \<open>VersionRules\<close>, \<open>HashChain\<close>). Approval freezes
  the domain vocabulary the policy uses into shared, counted snapshots (\<open>Vocabulary\<close>, \<open>Snapshots\<close>).
  Deleting a policy moves it to a recycle bin; purging it releases the counted snapshots
  (\<open>Lifecycle\<close>). \<open>Governance\<close> puts the last three together. Around this core stand the gates of the
  service: signing in with a password and a second factor (\<open>SignIn\<close> over \<open>Lockout\<close>, \<open>RateLimit\<close>,
  \<open>TwoFactor\<close>, \<open>Totp\<close> and \<open>TrustedDevices\<close>), the signed calls between its services
  (\<open>InternalSignature\<close>), and the jobs that run once per window (\<open>CronLease\<close>). Folders
  group a user's policies (\<open>PolicyGroups\<close>). The plan of a user sets his limits (\<open>Plans\<close>,
  \<open>Usage\<close>), and the AI features have a budget and an abuse control of their own (\<open>AiQuota\<close>).

  State. The database is one record \<open>store\<close> (\<open>Schema\<close>): one list of rows per table of
  \<open>db/schema.ts\<close>, and an outbox of the effects that leave the database (mails, webhooks, security
  events, cache invalidations). Reads, updates and deletions are \<open>find_first\<close>, \<open>select_where\<close>,
  \<open>update_where\<close>, \<open>delete_where\<close> and \<open>insert_row\<close> (\<open>Prelude\<close>); a transaction is one function from store
  to store, and a handler that reads outside its transaction is split at that point, so that
  interleavings can be written down. Strings are lists of bytes, dates are integers in
  milliseconds, generated ids and the current time are arguments. A thrown error is the left side
  of a sum, and a refused request leaves the store as it was.

  Theories, in the order of their imports:
    \<^item> \<open>Prelude\<close>: rows, keys, text splitting, decimal numerals, and the collections of elimination rules;
    \<^item> \<open>Schema\<close>: the rows, the store, the outbox and small example rows;
    \<^item> \<open>TeamRoles\<close> (\<open>lib/team-permission-matrix.ts\<close>, \<open>lib/team-permissions.ts\<close>,
      \<open>lib/business-role-permissions.ts\<close>): no escalation through role changes;
    \<^item> \<open>Emails\<close> (\<open>lib/email-normalize.ts\<close>, \<open>lib/team-invitation-email.ts\<close>): mailbox equality;
    \<^item> \<open>TeamSupport\<close> (\<open>lib/validation.ts\<close>, \<open>lib/business-roles.ts\<close>, \<open>lib/api-keys.ts\<close>, \<open>lib/team-plan.ts\<close>);
    \<^item> \<open>TeamRoutes\<close>: the handlers under \<open>app/api/teams\<close>; \<open>TeamInvariant\<close>: the step relation of these
      handlers, the invariant that each team has exactly one owner, seats, transfers, deletions;
    \<^item> \<open>PolicyAccess\<close> (\<open>lib/policy-access-matrix.ts\<close>, \<open>lib/policy-access.ts\<close>): the decision matrix, and
      the agreement of the SQL predicates and the batch entry with it, over a locale of membership
      directories;
    \<^item> \<open>VersionRules\<close> (\<open>services/policy/version-approval-rules.ts\<close>, \<open>executable-version.ts\<close>,
      \<open>default-executable-version.ts\<close>): segregation of duties, which version runs;
    \<^item> \<open>HashChain\<close> (\<open>services/security/policy-security.ts\<close>, \<open>lib/policy-alias.ts\<close>,
      \<open>lib/policy-version-locale.ts\<close>, the insertion of \<open>version-manager.ts\<close>): what the chain detects
      and what it does not;
    \<^item> \<open>Aliases\<close> (\<open>lib/policy-alias-shared.ts\<close>); \<open>Vocabulary\<close> (\<open>lib/domain-vocabulary-format.ts\<close>,
      \<open>-assemble.ts\<close>, \<open>-scope.ts\<close>, \<open>-team-merge.ts\<close>);
    \<^item> \<open>Snapshots\<close> (\<open>lib/domain-vocabulary-snapshot.ts\<close>, \<open>-retention.ts\<close>) and \<open>SnapshotFacts\<close>: counting,
      releasing, freezing and rolling back;
    \<^item> \<open>VersionManager\<close> (\<open>services/policy/version-manager.ts\<close>) and \<open>VersionFacts\<close>: the status automaton,
      authorised approval, atomic failure, and the races of the unlocked operations;
    \<^item> \<open>Lifecycle\<close> (\<open>lib/policy-lifecycle.ts\<close>), \<open>Governance\<close> (the invariant of all requests together) and
      \<open>LifecycleFacts\<close> (restoring, purging, emptying, expiry);
    \<^item> \<open>ResolverMigration\<close> (\<open>services/policy/resolver-migration.ts\<close>) and \<open>MigrationFacts\<close>: rewriting stored
      versions keeps the hash chains, visits each pending row once and can be taken back;
    \<^item> \<open>TwoFactor\<close> (\<open>lib/two-factor.ts\<close>) and \<open>TwoFactorFacts\<close>: how many guesses and mails a mailbox gets
      per window, whatever the order of requests; \<open>Totp\<close> (\<open>lib/totp.ts\<close>) and \<open>TotpFacts\<close>: no code window is
      accepted twice, recovery codes work once; \<open>TrustedDevices\<close> (\<open>lib/trusted-device.ts\<close>): a trusted
      device was remembered by the same user less than thirty days ago;
    \<^item> \<open>Lockout\<close> (\<open>lib/account-lockout.ts\<close>): five guesses per quarter of an hour; \<open>RateLimit\<close>
      (\<open>lib/rate-limit.ts\<close>, \<open>lib/rate-limit-distributed.ts\<close>): the sliding window and the shared one;
    \<^item> \<open>SignIn\<close> (\<open>lib/auth/authorize-credentials.ts\<close>, the assembly in \<open>auth.ts\<close>): nobody signs in without
      the password and one second factor, over a locale of the services, interpreted on the program's;
    \<^item> \<open>InternalSignature\<close> (\<open>lib/api-signing.ts\<close>, \<open>lib/internal-signature.ts\<close>,
      \<open>services/security/nonce-service.ts\<close>, \<open>lib/retention/batching.ts\<close>): a signed call is accepted
      once, no replay, and the clean-up of nonces is exact;
    \<^item> \<open>CronLease\<close> (\<open>lib/cron-registry.ts\<close>, \<open>lib/cron-lease.ts\<close>): the windows of a schedule partition time
      and agree with its cron expression, and a job runs once per window;
    \<^item> \<open>PolicyGroups\<close> (\<open>lib/policy-group-hierarchy.ts\<close>, \<open>lib/policy-group-parent-lookup.ts\<close>,
      \<open>app/api/policy-groups\<close>) and \<open>PolicyGroupFacts\<close>: the parent references of all folders stay a
      forest under every request, the cycle guard is exact, and the tree shows each folder once;
    \<^item> \<open>Plans\<close> (\<open>lib/plans.ts\<close>), \<open>Usage\<close> (\<open>lib/usage.ts\<close>, \<open>lib/execution-quota.ts\<close>, \<open>lib/plan-quota.ts\<close>,
      \<open>lib/policy-freeze.ts\<close>) and \<open>UsageFacts\<close>: metered calls fill the monthly limit and no more, the three
      ways of computing frozen policies agree, and when shown and enforced limits agree;
    \<^item> \<open>AiQuota\<close> (\<open>lib/ai-quota.ts\<close>, \<open>lib/risk-tier.ts\<close>, \<open>lib/email-suspicion.ts\<close>,
      \<open>lib/ai-circuit-breaker.ts\<close>, \<open>lib/ai-anomaly-detection.ts\<close>, \<open>app/api/cron/ai-circuit-check\<close>,
      \<open>app/api/cron/risk-tier-decay\<close>), \<open>AiQuotaFacts\<close> and \<open>AiTierFacts\<close>: admitted calls stay in the
      budget, a tripped breaker refuses, a scan bans exactly the users it found, and the audit log explains
      every risk tier;
    \<^item> \<open>Idempotency\<close> (\<open>lib/api/idempotency.ts\<close>) and \<open>IdempotencyFacts\<close>: however requests with one key overlap,
      the handler completes once while its response lives, and a replayed response was given for the
      same body;
    \<^item> \<open>TermEditing\<close> (\<open>lib/domain-vocabulary.ts\<close>, \<open>-validation.ts\<close>, \<open>-team.ts\<close>), \<open>TermFacts\<close> and
      \<open>TermProperties\<close>: stored terms are well typed, told apart by their content, within the quota and,
      when reused rows are spelled alike, free of conflicts; members edit only their own terms.

  The gates of the service keep small tables of their own rather than the store: each is a database
  table cut down to the columns its gate uses.

  Parameters. SHA-256, Unicode normalisation, the lexer's word use, the profile check, the engine's
  scope report, the language detector, the plan lookup, HMAC, password hashing, encryption and the
  one-time password algorithm are arguments, and so are random numbers. Where a property needs
  one of them to behave, it says so (an injective hash in \<open>legacy_chain_tamper_evident\<close>, for
  example). The recursions are structural, or terminate by a
  measure (the two loops of the migration count the rows behind their cursor). One loop runs on
  fuel: walking back to a weekday takes at most seven steps, and eight are given
  (\<open>CronLease\<close> proves that they are enough).

  Not modelled: rendering and the browser; billing, licences, mail delivery and the policy engine,
  which are services; the regression runner; caching headers; the read-only listings that only
  project columns; the metrics counters. White space trimming and lower-casing cover ASCII, and text
  order is by bytes. Time stamps that the query builder refreshes by itself on every update are left
  out. A database error is modelled where the code reacts to it (the approval
  transaction, unique indexes); elsewhere a statement is assumed to succeed.
\<close>

end
